(* ===== verification/Prelude.thy ===== *)
theory Prelude
  imports Main "HOL-Library.Word" "HOL-Library.Monad_Syntax"
begin

text \<open>
  What the component theories share: the type names of the model, the collections of
  facts that the component proofs are carried by, and a few generic lemmas on options
  and lists.

  Conventions of the whole development.  A C function that may stop the compiler, by a
  failed \<open>assert\<close>, by \<open>xabort\<close> or by an access that is undefined behaviour in C
  (a freed block, a null pointer), returns an \<open>option\<close>: \<open>None\<close> is "the compiler
  stops here", \<open>Some\<close> is the value it returns.  A pointer to an object that the code
  compares, stores and follows is a number, the key of the object in the store that
  holds it; \<open>NULL\<close> is \<open>None\<close>.
\<close>

unbundle bit_operations_syntax

type_synonym u8 = "8 word"
type_synonym u32 = "32 word"
type_synonym i32 = "32 word"
type_synonym addr = nat

named_theorems inv_intros \<open>introduction rules for the invariants of the components\<close>
named_theorems op_simps \<open>what each operation does on the abstract view of its state\<close>

subsection \<open>Options\<close>

lemma bind_eq_Some [simp]:
  "Option.bind x f = Some y \<longleftrightarrow> (\<exists>a. x = Some a \<and> f a = Some y)"
  by (cases x) simp_all

lemma bind_Some_split: "x = Some a \<Longrightarrow> Option.bind x f = f a"
  by simp

definition check :: "bool \<Rightarrow> unit option" where
  \<comment> \<open>C's \<open>assert\<close>: nothing happens when the condition holds, the program stops otherwise\<close>
  "check b = (if b then Some () else None)"

lemma check_Some [simp]: "check b = Some u \<longleftrightarrow> b"
  by (simp add: check_def)

lemma check_True [simp]: "check True = Some ()"
  by (simp add: check_def)

lemma check_False [simp]: "check False = None"
  by (simp add: check_def)

subsection \<open>Lists\<close>

lemma sorted_wrt_append_mid:
  "sorted_wrt P (xs @ x # ys) \<longleftrightarrow>
    sorted_wrt P (xs @ ys) \<and> (\<forall>a \<in> set xs. P a x) \<and> (\<forall>b \<in> set ys. P x b)"
  by (auto simp: sorted_wrt_append)

end
