(* ===== verification/Rbtree.thy ===== *)
theory Rbtree
  imports Prelude
begin

text \<open>
  \<open>src/src/rbtree.c\<close>: red-black trees with an explicit stack of ancestors.

  A node with its two subtrees is a value of \<open>rbnode_t\<close>, the sentinel \<open>&the_nil\<close> is
  \<open>the_nil\<close>.  The code walks down with a cursor and pushes each ancestor on
  \<open>tree->stack\<close>; cursor and stack together are a zipper: the subtree at the cursor and
  a list of frames, the nearest ancestor first, each with the side the walk took, the
  ancestor's colour, its key and its other subtree.  \<open>depth\<close> is the length of that
  list, \<open>stack[0] = nil\<close> is the empty list.  \<open>plug\<close> puts the subtree back.  A write
  to a node on the stack is a write to its frame, a write to the cursor's node is a
  write to the subtree.  An element is a pointer to a struct whose first word is compared:
  a pair of that word and the rest of the struct.
\<close>

subsection \<open>Data\<close>

type_synonym 'd rb_key = "addr \<times> 'd"

definition rb_cmp_less :: "'d rb_key \<Rightarrow> 'd rb_key \<Rightarrow> bool" where
  "rb_cmp_less x y \<longleftrightarrow> fst x < fst y"

definition rb_cmp_eq :: "'d rb_key \<Rightarrow> 'd rb_key \<Rightarrow> bool" where
  "rb_cmp_eq x y \<longleftrightarrow> fst x = fst y"

datatype color_t = rb_red | rb_black

datatype 'd rbnode_t =
    the_nil
  | RBNODE color_t "'d rbnode_t" "'d rb_key" "'d rbnode_t"

lemma not_black [simp]: "c \<noteq> rb_black \<longleftrightarrow> c = rb_red"
  by (cases c) auto

lemma not_red [simp]: "c \<noteq> rb_red \<longleftrightarrow> c = rb_black"
  by (cases c) auto

fun color :: "'d rbnode_t \<Rightarrow> color_t" where
  "color the_nil = rb_black"
| "color (RBNODE c l k r) = c"

fun set_color :: "color_t \<Rightarrow> 'd rbnode_t \<Rightarrow> 'd rbnode_t" where
  "set_color c the_nil = the_nil"
| "set_color c (RBNODE c' l k r) = RBNODE c l k r"

record 'd rbtree_t =
  root :: "'d rbnode_t"
  stack_size :: nat
  bh :: nat

subsection \<open>The cursor and the stack of ancestors\<close>

datatype side = Lft | Rgt

type_synonym 'd rb_frame = "side \<times> color_t \<times> 'd rb_key \<times> 'd rbnode_t"

fun rb_child :: "'d rbnode_t \<Rightarrow> 'd rb_frame \<Rightarrow> 'd rbnode_t" where
  "rb_child n (Lft, c, k, s) = RBNODE c n k s"
| "rb_child n (Rgt, c, k, s) = RBNODE c s k n"

fun plug :: "'d rbnode_t \<Rightarrow> 'd rb_frame list \<Rightarrow> 'd rbnode_t" where
  "plug n [] = n"
| "plug n (f # st) = plug (rb_child n f) st"

subsection \<open>Rotations\<close>

fun rb_left_rotate :: "'d rbnode_t \<Rightarrow> 'd rbnode_t" where
  "rb_left_rotate (RBNODE c a x (RBNODE c' b y d)) = RBNODE c' (RBNODE c a x b) y d"
| "rb_left_rotate n = n"

fun rb_right_rotate :: "'d rbnode_t \<Rightarrow> 'd rbnode_t" where
  "rb_right_rotate (RBNODE c (RBNODE c' a x b) y d) = RBNODE c' a x (RBNODE c b y d)"
| "rb_right_rotate n = n"

fun set_left_color :: "color_t \<Rightarrow> 'd rbnode_t \<Rightarrow> 'd rbnode_t" where
  "set_left_color c the_nil = the_nil"
| "set_left_color c (RBNODE c' l k r) = RBNODE c' (set_color c l) k r"

fun set_right_color :: "color_t \<Rightarrow> 'd rbnode_t \<Rightarrow> 'd rbnode_t" where
  "set_right_color c the_nil = the_nil"
| "set_right_color c (RBNODE c' l k r) = RBNODE c' l k (set_color c r)"

subsection \<open>Insertion\<close>

text \<open>
  The loop of \<open>rb_insert_fixup\<close>.  The result is the new root and whether \<open>tree->bh\<close>
  was incremented.  The two halves of the loop body (\<open>p == pp->left\<close> and its mirror
  image) are the two values of the side in the frame of \<open>pp\<close>.
\<close>

fun rb_insert_fixup :: "'d rbnode_t \<Rightarrow> 'd rb_frame list \<Rightarrow> ('d rbnode_t \<times> bool) option" where
  "rb_insert_fixup node [] = Some (set_color rb_black node, True)"
| "rb_insert_fixup node ((d, rb_black, k, s) # st) =
     Some (plug node ((d, rb_black, k, s) # st), False)"
| "rb_insert_fixup node [(d, rb_red, k, s)] = None"
| "rb_insert_fixup node ((d, rb_red, k, s) # (Lft, c', k', u) # st) =
     (let p = rb_child node (d, rb_red, k, s) in
      if color u = rb_red
      then rb_insert_fixup (RBNODE rb_red (set_color rb_black p) k' (set_color rb_black u)) st
      else
        let p = (if d = Rgt then rb_left_rotate p else p);
            pp = rb_right_rotate (RBNODE c' p k' u)
        in Some (plug (set_right_color rb_red (set_color rb_black pp)) st, False))"
| "rb_insert_fixup node ((d, rb_red, k, s) # (Rgt, c', k', u) # st) =
     (let p = rb_child node (d, rb_red, k, s) in
      if color u = rb_red
      then rb_insert_fixup (RBNODE rb_red (set_color rb_black u) k' (set_color rb_black p)) st
      else
        let p = (if d = Lft then rb_right_rotate p else p);
            pp = rb_left_rotate (RBNODE c' u k' p)
        in Some (plug (set_left_color rb_red (set_color rb_black pp)) st, False))"

definition rb_do_insert :: "'d rbtree_t \<Rightarrow> 'd rb_key \<Rightarrow> 'd rb_frame list \<Rightarrow> 'd rbtree_t option" where
  "rb_do_insert tree x st =
     (let node = RBNODE rb_red the_nil x the_nil in
      case st of
        [] \<Rightarrow> do {
          check (bh tree + 1 = 1);
          Some (tree\<lparr>root := set_color rb_black node, bh := bh tree + 1\<rparr>)
        }
      | (d, c, k, s) # st' \<Rightarrow>
          let d' = (if rb_cmp_less x k then Lft else Rgt);
              f = (d', c, k, if d' = d then s else the_nil)
          in do {
            (t, grown) \<leftarrow> rb_insert_fixup node (f # st');
            Some (tree\<lparr>root := t, bh := (if grown then bh tree + 1 else bh tree)\<rparr>)
          })"

text \<open>
  The test at the head of \<open>rb_insert\<close>, \<open>rb_insert_if_absent\<close> and \<open>rb_delete\<close>
  that makes the stack large enough.
\<close>

definition rb_reallocate_stack :: "'d rbtree_t \<Rightarrow> nat \<Rightarrow> 'd rbtree_t option" where
  "rb_reallocate_stack tree sz = do {
     check (sz \<ge> stack_size tree);
     let s = stack_size tree * 2;
         sz = (if s > sz then s else sz)
     in Some (tree\<lparr>stack_size := sz\<rparr>)
   }"

definition rb_grow_stack :: "'d rbtree_t \<Rightarrow> 'd rbtree_t option" where
  "rb_grow_stack tree =
     (if bh tree * 2 \<ge> stack_size tree then rb_reallocate_stack tree (bh tree * 2 + 1)
      else Some tree)"

text \<open>
  The search loops: \<open>lim\<close> is \<open>tree->bh << 1\<close>, the bound in the assertion at each push.
  The loop of \<open>rb_insert_if_absent\<close> and \<open>rb_delete\<close> stops at an equal key, and
  the sentinel's key is set to \<open>x\<close> first, so that it stops at \<open>nil\<close> as well; the loop
  of \<open>rb_insert\<close> goes on to \<open>nil\<close>.
\<close>

fun rb_descend_eq ::
  "nat \<Rightarrow> 'd rb_key \<Rightarrow> 'd rbnode_t \<Rightarrow> 'd rb_frame list \<Rightarrow> ('d rbnode_t \<times> 'd rb_frame list) option"
where
  "rb_descend_eq lim x the_nil st = Some (the_nil, st)"
| "rb_descend_eq lim x (RBNODE c l k r) st =
     (if rb_cmp_eq x k then Some (RBNODE c l k r, st)
      else if \<not> length st + 1 \<le> lim then None
      else if rb_cmp_less x k then rb_descend_eq lim x l ((Lft, c, k, r) # st)
      else rb_descend_eq lim x r ((Rgt, c, k, l) # st))"

fun rb_descend ::
  "nat \<Rightarrow> 'd rb_key \<Rightarrow> 'd rbnode_t \<Rightarrow> 'd rb_frame list \<Rightarrow> 'd rb_frame list option"
where
  "rb_descend lim x the_nil st = Some st"
| "rb_descend lim x (RBNODE c l k r) st =
     (if \<not> length st + 1 \<le> lim then None
      else if rb_cmp_less x k then rb_descend lim x l ((Lft, c, k, r) # st)
      else rb_descend lim x r ((Rgt, c, k, l) # st))"

definition rb_new :: "'d rbtree_t" where
  "rb_new = \<lparr>root = the_nil, stack_size = 0, bh = 0\<rparr>"

definition rb_insert :: "'d rbtree_t \<Rightarrow> 'd rb_key \<Rightarrow> 'd rbtree_t option" where
  "rb_insert tree x = do {
     tree \<leftarrow> rb_grow_stack tree;
     st \<leftarrow> rb_descend (bh tree * 2) x (root tree) [];
     rb_do_insert tree x st
   }"

text \<open>
  \<open>rb_insert_if_absent\<close> returns the node that holds an equal key, or 0 after an
  insertion; the node's element is what the callers use of it.
\<close>

definition rb_insert_if_absent ::
  "'d rbtree_t \<Rightarrow> 'd rb_key \<Rightarrow> ('d rb_key option \<times> 'd rbtree_t) option"
where
  "rb_insert_if_absent tree x = do {
     tree \<leftarrow> rb_grow_stack tree;
     (node, st) \<leftarrow> rb_descend_eq (bh tree * 2) x (root tree) [];
     (case node of
        RBNODE c l k r \<Rightarrow> Some (Some k, tree)
      | the_nil \<Rightarrow> do { tree \<leftarrow> rb_do_insert tree x st; Some (None, tree) })
   }"

subsection \<open>Search\<close>

fun rb_search_node :: "'d rb_key \<Rightarrow> 'd rbnode_t \<Rightarrow> 'd rb_key option" where
  "rb_search_node x the_nil = None"
| "rb_search_node x (RBNODE c l k r) =
     (if rb_cmp_eq x k then Some k
      else if rb_cmp_less x k then rb_search_node x l else rb_search_node x r)"

definition rb_search :: "'d rbtree_t \<Rightarrow> 'd rb_key \<Rightarrow> 'd rb_key option" where
  "rb_search tree x = rb_search_node x (root tree)"

fun rb_minimum_node :: "'d rb_key option \<Rightarrow> 'd rbnode_t \<Rightarrow> 'd rb_key option" where
  "rb_minimum_node prev the_nil = prev"
| "rb_minimum_node prev (RBNODE c l k r) = rb_minimum_node (Some k) l"

definition rb_minimum :: "'d rbtree_t \<Rightarrow> 'd rb_key option" where
  "rb_minimum tree = rb_minimum_node None (root tree)"

subsection \<open>Deletion\<close>

text \<open>
  The loop of \<open>rb_delete_fixup\<close>.  The result is the new root and whether
  \<open>tree->bh\<close> was decremented.  When the sibling \<open>w\<close> is red, the rotation puts \<open>w\<close>
  above \<open>p\<close>, and the code repairs the stack by pushing \<open>p\<close> below \<open>w\<close>: two frames.
  The push is a write to \<open>stack[depth + 1]\<close>; \<open>cap\<close> is \<open>tree->stack_size\<close>, and a write
  past it is \<open>None\<close>.
\<close>

definition rb_top_black :: "'d rb_frame list \<Rightarrow> bool" where
  "rb_top_black st = (case st of [] \<Rightarrow> False | (d, c, k, s) # st' \<Rightarrow> c = rb_black)"

function rb_delete_fixup ::
  "nat \<Rightarrow> 'd rbnode_t \<Rightarrow> 'd rb_frame list \<Rightarrow> ('d rbnode_t \<times> bool) option"
where
  "rb_delete_fixup cap node st =
     (if color node = rb_red then Some (plug (set_color rb_black node) st, False)
      else case st of
        [] \<Rightarrow> Some (node, True)
      | (Lft, c, k, w) # st' \<Rightarrow>
          (case w of
             the_nil \<Rightarrow> None
           | RBNODE wc wl wk wr \<Rightarrow>
               if color wl = rb_black \<and> color wr = rb_black then
                 if wc = rb_black
                 then rb_delete_fixup cap (RBNODE c node k (set_color rb_red w)) st'
                 else if c = rb_black \<and> length st + 1 < cap
                   then rb_delete_fixup cap node ((Lft, rb_red, k, wl) # (Lft, rb_black, wk, wr) # st')
                   else None
               else if wc = rb_black then
                 let w = (if color wr = rb_black
                          then set_right_color rb_red (set_color rb_black (rb_right_rotate w))
                          else w)
                 in Some (plug (set_right_color rb_black (set_left_color rb_black
                            (set_color c (rb_left_rotate (RBNODE c node k w))))) st', False)
               else None)
      | (Rgt, c, k, w) # st' \<Rightarrow>
          (case w of
             the_nil \<Rightarrow> None
           | RBNODE wc wl wk wr \<Rightarrow>
               if color wl = rb_black \<and> color wr = rb_black then
                 if wc = rb_black
                 then rb_delete_fixup cap (RBNODE c (set_color rb_red w) k node) st'
                 else if c = rb_black \<and> length st + 1 < cap
                   then rb_delete_fixup cap node ((Rgt, rb_red, k, wr) # (Rgt, rb_black, wk, wl) # st')
                   else None
               else if wc = rb_black then
                 let w = (if color wl = rb_black
                          then set_left_color rb_red (set_color rb_black (rb_left_rotate w))
                          else w)
                 in Some (plug (set_left_color rb_black (set_right_color rb_black
                            (set_color c (rb_right_rotate (RBNODE c w k node))))) st', False)
               else None))"
  by pat_completeness auto
termination
  by (relation "measure (\<lambda>(cap, node, st). if color node = rb_red then 0
        else 2 * length st + (if rb_top_black st then 3 else 0) + 1)")
     (auto simp: rb_top_black_def split: list.splits)

declare rb_delete_fixup.simps [simp del]

text \<open>
  \<open>rb_delete_node\<close>.  The walk to the leftmost node \<open>y\<close> of the right subtree pushes
  the node itself and then each ancestor of \<open>y\<close>.
\<close>

fun rb_leftmost ::
  "nat \<Rightarrow> 'd rbnode_t \<Rightarrow> 'd rb_frame list \<Rightarrow> ('d rbnode_t \<times> 'd rb_frame list) option"
where
  "rb_leftmost lim (RBNODE c (RBNODE cl ll kl rl) k r) st =
     (if \<not> length st + 1 \<le> lim then None
      else rb_leftmost lim (RBNODE cl ll kl rl) ((Lft, c, k, r) # st))"
| "rb_leftmost lim y st = Some (y, st)"

fun rb_splice :: "'d rbnode_t \<Rightarrow> 'd rbnode_t" where
  \<comment> \<open>\<open>w\<close>, the only child of \<open>y\<close>, or nil\<close>
  "rb_splice the_nil = the_nil"
| "rb_splice (RBNODE c l k r) = (if r \<noteq> the_nil then r else l)"

definition rb_remove ::
  "'d rbtree_t \<Rightarrow> 'd rbnode_t \<Rightarrow> 'd rb_frame list \<Rightarrow> 'd rbtree_t option"
where
  \<comment> \<open>from \<open>if (y->right != nil)\<close> to the end: \<open>y\<close> is replaced by its child\<close>
  "rb_remove tree y st =
     (let w = rb_splice y in
      if y \<noteq> the_nil \<and> color y = rb_black then do {
        (t, shrunk) \<leftarrow> rb_delete_fixup (stack_size tree) w st;
        Some (tree\<lparr>root := t, bh := (if shrunk then bh tree - 1 else bh tree)\<rparr>)
      }
      else Some (tree\<lparr>root := plug w st\<rparr>))"

fun node_key :: "'d rbnode_t \<Rightarrow> 'd rb_key option" where
  "node_key the_nil = None"
| "node_key (RBNODE c l k r) = Some k"

fun replace_frame_key :: "nat \<Rightarrow> 'd rb_key \<Rightarrow> 'd rb_frame list \<Rightarrow> 'd rb_frame list" where
  \<comment> \<open>\<open>node->key = y->key\<close> where \<open>node\<close> is at index \<open>i\<close> of the stack, counted from the top\<close>
  "replace_frame_key i k' [] = []"
| "replace_frame_key 0 k' ((d, c, k, s) # st) = (d, c, k', s) # st"
| "replace_frame_key (Suc i) k' (f # st) = f # replace_frame_key i k' st"

definition rb_delete_node ::
  "'d rbtree_t \<Rightarrow> 'd rbnode_t \<Rightarrow> 'd rb_frame list \<Rightarrow> 'd rbtree_t option"
where
  "rb_delete_node tree node st =
     (case node of
        the_nil \<Rightarrow> None
      | RBNODE c l k r \<Rightarrow>
          if r = the_nil \<or> l = the_nil then rb_remove tree node st
          else do {
            check (length st + 1 < stack_size tree);
            (y, st') \<leftarrow> rb_leftmost (bh tree * 2) r ((Rgt, c, k, l) # st);
            ky \<leftarrow> node_key y;
            rb_remove tree y (replace_frame_key (length st' - length st - 1) ky st')
          })"

definition rb_delete :: "'d rbtree_t \<Rightarrow> 'd rb_key \<Rightarrow> 'd rbtree_t option" where
  "rb_delete tree x = do {
     tree \<leftarrow> rb_grow_stack tree;
     (node, st) \<leftarrow> rb_descend_eq (bh tree * 2) x (root tree) [];
     if node \<noteq> the_nil then rb_delete_node tree node st else Some tree
   }"

subsection \<open>Join\<close>

text \<open>
  \<open>rb_join\<close> walks down the right spine of the higher tree (the left spine, in the
  mirror case) until it is at a subtree as high as the other tree, and inserts a red node
  there that joins the two.
\<close>

fun rb_spine ::
  "side \<Rightarrow> nat \<Rightarrow> nat \<Rightarrow> nat \<Rightarrow> 'd rbnode_t \<Rightarrow> 'd rb_frame list \<Rightarrow>
    ('d rbnode_t \<times> nat \<times> 'd rb_frame list) option"
where
  "rb_spine sd lim target h the_nil st = Some (the_nil, h, st)"
| "rb_spine sd lim target h (RBNODE c l k r) st =
     (if h = target then Some (RBNODE c l k r, h, st)
      else if \<not> length st + 1 \<le> lim then None
      else
        (case sd of
           Rgt \<Rightarrow> rb_spine sd lim target (if color r = rb_black then h - 1 else h) r ((Rgt, c, k, l) # st)
         | Lft \<Rightarrow> rb_spine sd lim target (if color l = rb_black then h - 1 else h) l ((Lft, c, k, r) # st)))"

definition rb_join_at ::
  "'d rbtree_t \<Rightarrow> 'd rbnode_t \<Rightarrow> 'd rb_frame list \<Rightarrow> 'd rbtree_t option"
where
  \<comment> \<open>the new red node \<open>n\<close> is hung below \<open>parent\<close>, or becomes the root\<close>
  "rb_join_at tree n st =
     (case st of
        [] \<Rightarrow> Some (tree\<lparr>root := set_color rb_black n, bh := bh tree + 1\<rparr>)
      | f # st' \<Rightarrow> do {
          (t, grown) \<leftarrow> rb_insert_fixup n st;
          Some (tree\<lparr>root := t, bh := (if grown then bh tree + 1 else bh tree)\<rparr>)
        })"

definition rb_parent_key :: "'d rb_frame list \<Rightarrow> 'd rb_key option" where
  "rb_parent_key st = (case st of [] \<Rightarrow> None | (d, c, k, s) # st' \<Rightarrow> Some k)"

definition rb_join :: "'d rbtree_t \<Rightarrow> 'd rb_key \<Rightarrow> 'd rbtree_t \<Rightarrow> 'd rbtree_t option" where
  "rb_join tree1 x tree2 =
     (if root tree1 = the_nil then Some tree2
      else if root tree2 = the_nil then Some tree1
      else if bh tree1 \<ge> bh tree2 then do {
        tree1 \<leftarrow> rb_grow_stack tree1;
        (node, h, st) \<leftarrow> rb_spine Rgt (bh tree1 * 2) (bh tree2) (bh tree1) (root tree1) [];
        check (h = bh tree2);
        check (case rb_parent_key st of None \<Rightarrow> True | Some k \<Rightarrow> \<not> rb_cmp_less x k);
        rb_join_at tree1 (RBNODE rb_red node x (root tree2)) st
      }
      else do {
        tree2 \<leftarrow> rb_grow_stack tree2;
        (node, h, st) \<leftarrow> rb_spine Lft (bh tree2 * 2) (bh tree1) (bh tree2) (root tree2) [];
        check (h = bh tree1);
        check (case rb_parent_key st of None \<Rightarrow> True | Some k \<Rightarrow> \<not> rb_cmp_less k x);
        rb_join_at tree2 (RBNODE rb_red (root tree1) x node) st
      })"

subsection \<open>Size, copy, traversal\<close>

fun do_rb_size :: "'d rbnode_t \<Rightarrow> u32" where
  "do_rb_size the_nil = 0"
| "do_rb_size (RBNODE c l k r) = do_rb_size r + 1 + do_rb_size l"

definition rb_size :: "'d rbtree_t \<Rightarrow> u32" where
  "rb_size tree = do_rb_size (root tree)"

definition rb_clear :: "'d rbtree_t \<Rightarrow> 'd rbtree_t" where
  "rb_clear tree = tree\<lparr>root := the_nil, bh := 0\<rparr>"

fun rb_copy_subtree :: "'d rbnode_t \<Rightarrow> 'd rbnode_t" where
  "rb_copy_subtree the_nil = the_nil"
| "rb_copy_subtree (RBNODE c l k r) = RBNODE c (rb_copy_subtree l) k (rb_copy_subtree r)"

definition rb_copy :: "'d rbtree_t \<Rightarrow> 'd rbtree_t" where
  \<comment> \<open>the field \<open>bh\<close> of the copy keeps the value \<open>rb_new\<close> gave it\<close>
  "rb_copy tree = rb_new\<lparr>root := rb_copy_subtree (root tree)\<rparr>"

text \<open>
  \<open>rb_for_each\<close> calls a function on every element; the model threads the state the
  function works on.  A node comes before its left subtree, that before its right one.
\<close>

fun do_rb_for_each :: "('d rb_key \<Rightarrow> 's \<Rightarrow> 's) \<Rightarrow> 'd rbnode_t \<Rightarrow> 's \<Rightarrow> 's" where
  "do_rb_for_each f the_nil s = s"
| "do_rb_for_each f (RBNODE c l k r) s = do_rb_for_each f r (do_rb_for_each f l (f k s))"

definition rb_for_each :: "'d rbtree_t \<Rightarrow> ('d rb_key \<Rightarrow> 's \<Rightarrow> 's) \<Rightarrow> 's \<Rightarrow> 's" where
  "rb_for_each tree f s = do_rb_for_each f (root tree) s"

subsection \<open>Writing through the returned node\<close>

text \<open>
  \<open>rb_search\<close> and \<open>rb_insert_if_absent\<close> return a node, and the callers write to the
  struct its key points to, never to the compared word: the rest of the element with the
  word \<open>a\<close> is replaced.
\<close>

fun rb_write_node :: "addr \<Rightarrow> 'd \<Rightarrow> 'd rbnode_t \<Rightarrow> 'd rbnode_t" where
  "rb_write_node a d the_nil = the_nil"
| "rb_write_node a d (RBNODE c l k r) =
     (if a = fst k then RBNODE c l (a, d) r
      else if a < fst k then RBNODE c (rb_write_node a d l) k r
      else RBNODE c l k (rb_write_node a d r))"

definition rb_write :: "'d rbtree_t \<Rightarrow> addr \<Rightarrow> 'd \<Rightarrow> 'd rbtree_t" where
  "rb_write tree a d = tree\<lparr>root := rb_write_node a d (root tree)\<rparr>"

end
