(* ===== verification/Rbtree_Correct.thy ===== *)
theory Rbtree_Correct
  imports Rbtree "HOL-Library.Multiset"
begin

text \<open>
  Correctness of \<open>Rbtree\<close>: the red-black invariant and the order of the keys, what
  each operation does to them, the bound on the stack, and the interface \<open>keyed_set\<close>
  that the users of the trees rely on.
\<close>

subsection \<open>Invariants of a tree\<close>

fun inorder :: "'d rbnode_t \<Rightarrow> 'd rb_key list" where
  "inorder the_nil = []"
| "inorder (RBNODE c l k r) = inorder l @ k # inorder r"

fun bheight :: "'d rbnode_t \<Rightarrow> nat" where
  "bheight the_nil = 0"
| "bheight (RBNODE c l k r) = bheight l + (if c = rb_black then 1 else 0)"

fun bal :: "'d rbnode_t \<Rightarrow> bool" where
  \<comment> \<open>every path to nil has the same number of black nodes\<close>
  "bal the_nil \<longleftrightarrow> True"
| "bal (RBNODE c l k r) \<longleftrightarrow> bal l \<and> bal r \<and> bheight l = bheight r"

fun nrr :: "'d rbnode_t \<Rightarrow> bool" where
  \<comment> \<open>no red node has a red child\<close>
  "nrr the_nil \<longleftrightarrow> True"
| "nrr (RBNODE c l k r) \<longleftrightarrow>
     nrr l \<and> nrr r \<and> (c = rb_red \<longrightarrow> color l = rb_black \<and> color r = rb_black)"

definition rb_shape :: "'d rbnode_t \<Rightarrow> bool" where
  "rb_shape t \<longleftrightarrow> bal t \<and> nrr t \<and> color t = rb_black"

definition rb_wf :: "'d rbtree_t \<Rightarrow> bool" where
  \<comment> \<open>the shape, and the field \<open>bh\<close> is the black height\<close>
  "rb_wf tree \<longleftrightarrow> rb_shape (root tree) \<and> bh tree = bheight (root tree)"

definition rb_set :: "'d rbtree_t \<Rightarrow> bool" where
  \<comment> \<open>no two elements have equal keys\<close>
  "rb_set tree \<longleftrightarrow> rb_wf tree \<and> sorted_wrt rb_cmp_less (inorder (root tree))"

definition rb_bag :: "'d rbtree_t \<Rightarrow> bool" where
  \<comment> \<open>equal keys allowed\<close>
  "rb_bag tree \<longleftrightarrow> rb_wf tree \<and> sorted_wrt (\<lambda>x y. \<not> rb_cmp_less y x) (inorder (root tree))"

definition rb_elems :: "'d rbtree_t \<Rightarrow> 'd rb_key set" where
  "rb_elems tree = set (inorder (root tree))"

definition rb_map :: "'d rbtree_t \<Rightarrow> addr \<rightharpoonup> 'd" where
  \<comment> \<open>the tree as a map from the compared word to the rest of the element\<close>
  "rb_map tree = map_of (inorder (root tree))"

subsection \<open>Invariants of the stack\<close>

fun st_left :: "'d rb_frame list \<Rightarrow> 'd rb_key list" where
  "st_left [] = []"
| "st_left ((Lft, c, k, s) # st) = st_left st"
| "st_left ((Rgt, c, k, s) # st) = st_left st @ inorder s @ [k]"

fun st_right :: "'d rb_frame list \<Rightarrow> 'd rb_key list" where
  "st_right [] = []"
| "st_right ((Lft, c, k, s) # st) = k # inorder s @ st_right st"
| "st_right ((Rgt, c, k, s) # st) = st_right st"

fun path_bal :: "nat \<Rightarrow> 'd rb_frame list \<Rightarrow> bool" where
  \<comment> \<open>a subtree of black height \<open>h\<close> fits at the cursor\<close>
  "path_bal h [] \<longleftrightarrow> True"
| "path_bal h ((d, c, k, s) # st) \<longleftrightarrow>
     bal s \<and> bheight s = h \<and> path_bal (h + (if c = rb_black then 1 else 0)) st"

fun path_nrr :: "color_t \<Rightarrow> 'd rb_frame list \<Rightarrow> bool" where
  \<comment> \<open>a subtree whose root has the colour \<open>hc\<close> fits at the cursor\<close>
  "path_nrr hc [] \<longleftrightarrow> hc = rb_black"
| "path_nrr hc ((d, c, k, s) # st) \<longleftrightarrow>
     nrr s \<and> (c = rb_red \<longrightarrow> hc = rb_black \<and> color s = rb_black) \<and> path_nrr c st"

fun path_height :: "nat \<Rightarrow> 'd rb_frame list \<Rightarrow> nat" where
  "path_height h [] = h"
| "path_height h ((d, c, k, s) # st) = path_height (h + (if c = rb_black then 1 else 0)) st"

lemma side_cases: "d = Lft \<or> d = Rgt"
  by (cases d) auto

lemma color_set_color [simp]: "color (set_color c t) = (if t = the_nil then rb_black else c)"
  by (cases t) auto

lemma set_color_nil [simp]: "set_color c t = the_nil \<longleftrightarrow> t = the_nil"
  by (cases t) auto

lemma inorder_set_color [simp]: "inorder (set_color c t) = inorder t"
  by (cases t) auto

lemma bal_set_color [simp]: "bal (set_color c t) = bal t"
  by (cases t) auto

lemma nrr_set_black [simp]: "nrr t \<Longrightarrow> nrr (set_color rb_black t)"
  by (cases t) auto

lemma set_color_same [simp]: "color t = c \<Longrightarrow> set_color c t = t"
  by (cases t) auto

lemma red_cases:
  assumes "color t = rb_red"
  obtains l k r where "t = RBNODE rb_red l k r"
  using assms by (cases t) auto

lemma bheight_set_black:
  "bheight (set_color rb_black t) = bheight t + (if color t = rb_red then 1 else 0)"
  by (cases t) auto

lemma inorder_plug [simp]: "inorder (plug n st) = st_left st @ inorder n @ st_right st"
proof (induction st arbitrary: n)
  case (Cons f st)
  obtain d c k s where "f = (d, c, k, s)" by (cases f)
  then show ?case by (cases d) (simp_all add: Cons)
qed simp

lemma bal_plug:
  "bal n \<Longrightarrow> path_bal (bheight n) st \<Longrightarrow>
    bal (plug n st) \<and> bheight (plug n st) = path_height (bheight n) st"
proof (induction st arbitrary: n)
  case (Cons f st)
  obtain d c k s where "f = (d, c, k, s)" by (cases f)
  with Cons.prems Cons.IH[of "rb_child n f"] show ?case
    by (cases d) auto
qed simp

lemma nrr_plug:
  "nrr n \<Longrightarrow> path_nrr (color n) st \<Longrightarrow> nrr (plug n st) \<and> color (plug n st) = rb_black"
proof (induction st arbitrary: n)
  case (Cons f st)
  obtain d c k s where "f = (d, c, k, s)" by (cases f)
  with Cons.prems Cons.IH[of "rb_child n f"] show ?case
    by (cases d) auto
qed simp

lemma shape_plug:
  "bal n \<Longrightarrow> nrr n \<Longrightarrow> path_bal (bheight n) st \<Longrightarrow> path_nrr (color n) st \<Longrightarrow>
    rb_shape (plug n st) \<and> bheight (plug n st) = path_height (bheight n) st"
  by (simp add: rb_shape_def bal_plug nrr_plug)

lemma path_nrr_black: "path_nrr c st \<Longrightarrow> path_nrr rb_black st"
  by (cases st) auto

text \<open>The stack never holds more than twice the black height: the bound of the assertions.\<close>

lemma path_length:
  "path_bal h st \<Longrightarrow> path_nrr hc st \<Longrightarrow>
    length st + 2 * h + (if hc = rb_red then 1 else 0) \<le> 2 * path_height h st"
proof (induction st arbitrary: h hc)
  case (Cons f st)
  obtain d c k s where f: "f = (d, c, k, s)" by (cases f)
  with Cons.prems have "length st + 2 * (h + (if c = rb_black then 1 else 0))
      + (if c = rb_red then 1 else 0) \<le> 2 * path_height (h + (if c = rb_black then 1 else 0)) st"
    by (intro Cons.IH) auto
  with f Cons.prems show ?case by (cases c) (auto split: if_splits)
qed simp

subsection \<open>Insertion\<close>

lemma insert_fixup_shape:
  "bal n \<Longrightarrow> nrr n \<Longrightarrow> color n = rb_red \<Longrightarrow> path_bal (bheight n) st \<Longrightarrow> path_nrr rb_black st \<Longrightarrow>
    \<exists>t g. rb_insert_fixup n st = Some (t, g) \<and> rb_shape t \<and>
      bheight t = path_height (bheight n) st + (if g then 1 else 0) \<and>
      inorder t = st_left st @ inorder n @ st_right st"
proof (induction n st rule: rb_insert_fixup.induct)
  case (1 node)
  then show ?case by (auto simp: rb_shape_def bheight_set_black elim!: red_cases)
next
  case (2 node d k s st)
  then have "path_nrr (color node) ((d, rb_black, k, s) # st)" by simp
  from shape_plug[OF 2(1,2,4) this] show ?case by (auto simp del: plug.simps)
next
  case (3 node d k s)
  then show ?case by simp
next
  case (4 node d k s c' k' u st)
  then have c': "c' = rb_black" by (cases c') auto
  from 4(4) obtain nl nk nr where node: "node = RBNODE rb_red nl nk nr" by (rule red_cases)
  show ?case
  proof (cases "color u = rb_red")
    case True
    then obtain ul uk ur where u: "u = RBNODE rb_red ul uk ur" by (rule red_cases)
    have "path_bal (Suc (bheight node)) st" "bheight u = bheight node"
      "path_nrr rb_black st" "bal u" "nrr u" "bal s" "nrr s" "bheight s = bheight node"
      using 4(2-) c' by auto
    then show ?thesis
      using 4(1)[OF refl True] 4(2,3) node u c' by (cases d) simp_all
  next
    case False
    define q where "q = set_right_color rb_red (set_color rb_black (rb_right_rotate
      (RBNODE c' (if d = Rgt then rb_left_rotate (rb_child node (d, rb_red, k, s))
                  else rb_child node (d, rb_red, k, s)) k' u)))"
    have q: "bal q \<and> nrr q \<and> color q = rb_black \<and> bheight q = bheight node + 1 \<and>
        inorder q = inorder (rb_child (rb_child node (d, rb_red, k, s)) (Lft, c', k', u))"
      using 4(2-) False node c' by (cases d) (auto simp: q_def)
    have "rb_shape (plug q st) \<and> bheight (plug q st) = path_height (bheight q) st"
      using q 4(5,6) c' by (intro shape_plug) auto
    moreover have "rb_insert_fixup node ((d, rb_red, k, s) # (Lft, c', k', u) # st)
        = Some (plug q st, False)"
      using False by (simp add: q_def Let_def)
    ultimately show ?thesis
      using q c' by (cases d) auto
  qed
next
  case (5 node d k s c' k' u st)
  then have c': "c' = rb_black" by (cases c') auto
  from 5(4) obtain nl nk nr where node: "node = RBNODE rb_red nl nk nr" by (rule red_cases)
  show ?case
  proof (cases "color u = rb_red")
    case True
    then obtain ul uk ur where u: "u = RBNODE rb_red ul uk ur" by (rule red_cases)
    have "path_bal (Suc (bheight node)) st" "bheight u = bheight node"
      "path_nrr rb_black st" "bal u" "nrr u" "bal s" "nrr s" "bheight s = bheight node"
      using 5(2-) c' by auto
    then show ?thesis
      using 5(1)[OF refl True] 5(2,3) node u c' by (cases d) simp_all
  next
    case False
    define q where "q = set_left_color rb_red (set_color rb_black (rb_left_rotate
      (RBNODE c' u k' (if d = Lft then rb_right_rotate (rb_child node (d, rb_red, k, s))
                  else rb_child node (d, rb_red, k, s)))))"
    have q: "bal q \<and> nrr q \<and> color q = rb_black \<and> bheight q = bheight node + 1 \<and>
        inorder q = inorder (rb_child (rb_child node (d, rb_red, k, s)) (Rgt, c', k', u))"
      using 5(2-) False node c' by (cases d) (auto simp: q_def)
    have "rb_shape (plug q st) \<and> bheight (plug q st) = path_height (bheight q) st"
      using q 5(5,6) c' by (intro shape_plug) auto
    moreover have "rb_insert_fixup node ((d, rb_red, k, s) # (Rgt, c', k', u) # st)
        = Some (plug q st, False)"
      using False by (simp add: q_def Let_def)
    ultimately show ?thesis
      using q c' by (cases d) auto
  qed
qed

subsection \<open>The walks\<close>

definition top_side :: "'d rb_key \<Rightarrow> 'd rb_frame list \<Rightarrow> bool" where
  \<comment> \<open>the side taken at the nearest ancestor is the one the comparison gives\<close>
  "top_side x st = (case st of [] \<Rightarrow> True | (d, c, k, s) # st' \<Rightarrow> d = (if rb_cmp_less x k then Lft else Rgt))"

definition path_ok :: "nat \<Rightarrow> color_t \<Rightarrow> 'd rb_frame list \<Rightarrow> bool" where
  "path_ok h c st \<longleftrightarrow> path_bal h st \<and> path_nrr c st"

lemma path_step:
  assumes "path_ok (bheight (RBNODE c l k r)) c st" "bal (RBNODE c l k r)" "nrr (RBNODE c l k r)"
  shows "path_ok (bheight l) (color l) ((Lft, c, k, r) # st)"
    and "path_ok (bheight r) (color r) ((Rgt, c, k, l) # st)"
    and "length st + 1 \<le> 2 * path_height (bheight (RBNODE c l k r)) st"
proof -
  show 1: "path_ok (bheight l) (color l) ((Lft, c, k, r) # st)"
    and "path_ok (bheight r) (color r) ((Rgt, c, k, l) # st)"
    using assms by (auto simp: path_ok_def)
  from 1 have "path_bal (bheight l) ((Lft, c, k, r) # st)" "path_nrr (color l) ((Lft, c, k, r) # st)"
    by (auto simp: path_ok_def)
  from path_length[OF this] show "length st + 1 \<le> 2 * path_height (bheight (RBNODE c l k r)) st"
    by auto
qed

lemma descend_ok:
  assumes "bal n" "nrr n" "path_ok (bheight n) (color n) st" "top_side x st"
    and "lim = 2 * path_height (bheight n) st"
  shows "\<exists>st'. rb_descend lim x n st = Some st' \<and> path_ok 0 rb_black st' \<and> top_side x st' \<and>
    path_height 0 st' = path_height (bheight n) st \<and>
    st_left st' @ st_right st' = st_left st @ inorder n @ st_right st"
  using assms
proof (induction n arbitrary: st)
  case (RBNODE c l k r)
  note step = path_step[OF RBNODE.prems(3)[unfolded color.simps] RBNODE.prems(1,2)]
  show ?case
  proof (cases "rb_cmp_less x k")
    case True
    then show ?thesis
      using RBNODE.IH(1)[of "(Lft, c, k, r) # st"] step RBNODE.prems by (auto simp: top_side_def)
  next
    case False
    then show ?thesis
      using RBNODE.IH(2)[of "(Rgt, c, k, l) # st"] step RBNODE.prems by (auto simp: top_side_def)
  qed
qed simp

lemma descend_sorted:
  assumes "rb_descend lim x n st = Some st'"
    and "sorted_wrt (\<lambda>x y. \<not> rb_cmp_less y x) (inorder n)"
    and "\<forall>y \<in> set (st_left st). \<not> rb_cmp_less x y" "\<forall>y \<in> set (st_right st). rb_cmp_less x y"
  shows "(\<forall>y \<in> set (st_left st'). \<not> rb_cmp_less x y) \<and> (\<forall>y \<in> set (st_right st'). rb_cmp_less x y)"
  using assms
proof (induction n arbitrary: st)
  case (RBNODE c l k r)
  show ?case
  proof (cases "rb_cmp_less x k")
    case True
    have "\<forall>y \<in> set (st_right ((Lft, c, k, r) # st)). rb_cmp_less x y"
      using True RBNODE.prems(2,4) by (auto simp: sorted_wrt_append rb_cmp_less_def)
    then show ?thesis
      using True RBNODE.IH(1)[of "(Lft, c, k, r) # st"] RBNODE.prems
      by (auto simp: sorted_wrt_append split: if_splits)
  next
    case False
    have "\<forall>y \<in> set (st_left ((Rgt, c, k, l) # st)). \<not> rb_cmp_less x y"
      using False RBNODE.prems(2,3) by (auto simp: sorted_wrt_append rb_cmp_less_def)
    then show ?thesis
      using False RBNODE.IH(2)[of "(Rgt, c, k, l) # st"] RBNODE.prems
      by (auto simp: sorted_wrt_append split: if_splits)
  qed
qed simp

lemma descend_eq_ok:
  assumes "bal n" "nrr n" "path_ok (bheight n) (color n) st" "top_side x st"
    and "lim = 2 * path_height (bheight n) st"
  shows "\<exists>m st'. rb_descend_eq lim x n st = Some (m, st') \<and> bal m \<and> nrr m \<and>
    path_ok (bheight m) (color m) st' \<and> top_side x st' \<and>
    path_height (bheight m) st' = path_height (bheight n) st \<and> plug m st' = plug n st \<and>
    (case m of the_nil \<Rightarrow> True | RBNODE c l k r \<Rightarrow> rb_cmp_eq x k)"
  using assms
proof (induction n arbitrary: st)
  case (RBNODE c l k r)
  note step = path_step[OF RBNODE.prems(3)[unfolded color.simps] RBNODE.prems(1,2)]
  consider "rb_cmp_eq x k" | "\<not> rb_cmp_eq x k" "rb_cmp_less x k" | "\<not> rb_cmp_eq x k" "\<not> rb_cmp_less x k"
    by blast
  then show ?case
  proof cases
    case 1
    then show ?thesis using RBNODE.prems by auto
  next
    case 2
    then show ?thesis
      using RBNODE.IH(1)[of "(Lft, c, k, r) # st"] step RBNODE.prems by (auto simp: top_side_def)
  next
    case 3
    then show ?thesis
      using RBNODE.IH(2)[of "(Rgt, c, k, l) # st"] step RBNODE.prems by (auto simp: top_side_def)
  qed
qed simp

lemma descend_eq_fits:
  assumes "rb_descend_eq lim x n st = Some (m, st')" "sorted_wrt rb_cmp_less (inorder n)"
    and "\<forall>y \<in> set (st_left st). rb_cmp_less y x" "\<forall>y \<in> set (st_right st). rb_cmp_less x y"
  shows "(\<forall>y \<in> set (st_left st' @ (case m of the_nil \<Rightarrow> [] | RBNODE c l k r \<Rightarrow> inorder l)). rb_cmp_less y x) \<and>
    (\<forall>y \<in> set ((case m of the_nil \<Rightarrow> [] | RBNODE c l k r \<Rightarrow> inorder r) @ st_right st'). rb_cmp_less x y)"
  using assms
proof (induction n arbitrary: st)
  case (RBNODE c l k r)
  consider "rb_cmp_eq x k" | "\<not> rb_cmp_eq x k" "rb_cmp_less x k"
    | "\<not> rb_cmp_eq x k" "rb_cmp_less k x"
    using less_linear[of "fst x" "fst k"] by (auto simp: rb_cmp_eq_def rb_cmp_less_def)
  then show ?case
  proof cases
    case 1
    then show ?thesis
      using RBNODE.prems by (fastforce simp: sorted_wrt_append rb_cmp_eq_def rb_cmp_less_def)
  next
    case 2
    have "\<forall>y \<in> set (st_right ((Lft, c, k, r) # st)). rb_cmp_less x y"
      using 2 RBNODE.prems(2,4) by (auto simp: sorted_wrt_append rb_cmp_less_def)
    then show ?thesis
      using 2 RBNODE.IH(1)[of "(Lft, c, k, r) # st"] RBNODE.prems
      by (auto simp: sorted_wrt_append split: if_splits)
  next
    case 3
    have "\<forall>y \<in> set (st_left ((Rgt, c, k, l) # st)). rb_cmp_less y x"
      using 3 RBNODE.prems(2,3) by (auto simp: sorted_wrt_append rb_cmp_less_def)
    moreover have "\<not> rb_cmp_less x k" using 3 by (auto simp: rb_cmp_less_def)
    ultimately show ?thesis
      using 3 RBNODE.IH(2)[of "(Rgt, c, k, l) # st"] RBNODE.prems
      by (auto simp: sorted_wrt_append split: if_splits)
  qed
qed simp

lemma do_insert_ok:
  assumes "path_ok 0 rb_black st" "top_side x st" "bh tree = path_height 0 st"
  shows "\<exists>tree'. rb_do_insert tree x st = Some tree' \<and> rb_wf tree' \<and>
    inorder (root tree') = st_left st @ [x] @ st_right st \<and> stack_size tree' = stack_size tree"
proof (cases st)
  case Nil
  then show ?thesis
    using assms by (auto simp: rb_do_insert_def rb_wf_def rb_shape_def Let_def)
next
  case (Cons f st')
  obtain d c k s where f: "f = (d, c, k, s)" by (cases f)
  obtain t g where "rb_insert_fixup (RBNODE rb_red the_nil x the_nil) st = Some (t, g)" "rb_shape t"
    "bheight t = path_height 0 st + (if g then 1 else 0)" "inorder t = st_left st @ [x] @ st_right st"
    using insert_fixup_shape[of "RBNODE rb_red the_nil x the_nil" st] assms(1)
    by (auto simp: path_ok_def)
  then show ?thesis
    using Cons f assms by (auto simp: rb_do_insert_def rb_wf_def top_side_def Let_def)
qed

subsection \<open>Deletion\<close>

definition delfix_pre :: "nat \<Rightarrow> 'd rbnode_t \<Rightarrow> 'd rb_frame list \<Rightarrow> bool" where
  \<comment> \<open>the subtree at the cursor has one black node too few on every path\<close>
  "delfix_pre cap n st \<longleftrightarrow> bal n \<and> nrr (set_color rb_black n) \<and> path_bal (bheight n + 1) st \<and>
     path_nrr rb_black st \<and> 2 * path_height (bheight n + 1) st < cap"

definition delfix_post :: "nat \<Rightarrow> 'd rbnode_t \<Rightarrow> 'd rb_frame list \<Rightarrow> bool" where
  "delfix_post cap n st \<longleftrightarrow> (\<exists>t g. rb_delete_fixup cap n st = Some (t, g) \<and> rb_shape t \<and>
     bheight t + (if g then 1 else 0) = path_height (bheight n + 1) st \<and>
     inorder t = st_left st @ inorder n @ st_right st)"

text \<open>One unfolding of the loop at a black cursor with a sibling.\<close>

lemma delfix_Lft:
  "color n = rb_black \<Longrightarrow> rb_delete_fixup cap n ((Lft, c, k, RBNODE wc wl wk wr) # st') =
    (if color wl = rb_black \<and> color wr = rb_black then
       if wc = rb_black then rb_delete_fixup cap (RBNODE c n k (RBNODE rb_red wl wk wr)) st'
       else if c = rb_black \<and> length st' + 2 < cap
         then rb_delete_fixup cap n ((Lft, rb_red, k, wl) # (Lft, rb_black, wk, wr) # st')
         else None
     else if wc = rb_black then
       Some (plug (set_right_color rb_black (set_left_color rb_black (set_color c (rb_left_rotate
         (RBNODE c n k (if color wr = rb_black
            then set_right_color rb_red (set_color rb_black (rb_right_rotate (RBNODE wc wl wk wr)))
            else RBNODE wc wl wk wr)))))) st', False)
     else None)"
  by (subst rb_delete_fixup.simps) (simp add: Let_def)

lemma delfix_Rgt:
  "color n = rb_black \<Longrightarrow> rb_delete_fixup cap n ((Rgt, c, k, RBNODE wc wl wk wr) # st') =
    (if color wl = rb_black \<and> color wr = rb_black then
       if wc = rb_black then rb_delete_fixup cap (RBNODE c (RBNODE rb_red wl wk wr) k n) st'
       else if c = rb_black \<and> length st' + 2 < cap
         then rb_delete_fixup cap n ((Rgt, rb_red, k, wr) # (Rgt, rb_black, wk, wl) # st')
         else None
     else if wc = rb_black then
       Some (plug (set_left_color rb_black (set_right_color rb_black (set_color c (rb_right_rotate
         (RBNODE c (if color wl = rb_black
            then set_left_color rb_red (set_color rb_black (rb_left_rotate (RBNODE wc wl wk wr)))
            else RBNODE wc wl wk wr) k n))))) st', False)
     else None)"
  by (subst rb_delete_fixup.simps) (simp add: Let_def)

lemma delfix_plug:
  assumes "rb_delete_fixup cap n st = Some (plug q st', False)" "bal q" "nrr q"
    and "path_bal (bheight q) st'" "path_nrr (color q) st'"
    and "path_height (bheight q) st' = path_height (bheight n + 1) st"
    and "st_left st' @ inorder q @ st_right st' = st_left st @ inorder n @ st_right st"
  shows "delfix_post cap n st"
  using assms shape_plug[of q st'] by (auto simp: delfix_post_def)

lemma delfix_case_up:
  assumes n: "color n = rb_black" and st: "st = (d, c, k, RBNODE rb_black wl wk wr) # st'"
    and w: "color wl = rb_black" "color wr = rb_black"
    and m: "m = rb_child n (d, c, k, RBNODE rb_red wl wk wr)"
    and pre: "delfix_pre cap n st" and IH: "delfix_pre cap m st' \<Longrightarrow> delfix_post cap m st'"
  shows "delfix_post cap n st"
proof -
  have "path_nrr rb_black st'"
    using pre st path_nrr_black[of c st'] by (simp add: delfix_pre_def)
  moreover have h: "bheight wl = bheight n" "bheight wr = bheight n"
    using pre st by (simp_all add: delfix_pre_def)
  ultimately have "delfix_pre cap m st'"
    using pre st w m n by (cases d; cases c) (simp_all add: delfix_pre_def)
  from IH[OF this] have "delfix_post cap m st'" .
  moreover have "rb_delete_fixup cap n st = rb_delete_fixup cap m st'"
    using st w m n by (cases d) (simp_all add: delfix_Lft delfix_Rgt)
  moreover have "path_height (bheight m + 1) st' = path_height (bheight n + 1) st"
    "st_left st' @ inorder m @ st_right st' = st_left st @ inorder n @ st_right st"
    using st m h by (cases d; cases c; simp)+
  ultimately show ?thesis by (simp add: delfix_post_def)
qed

lemma delfix_case_red_sibling:
  assumes n: "color n = rb_black" and st: "st = (d, c, k, RBNODE rb_red wl wk wr) # st'"
    and w: "color wl = rb_black" "color wr = rb_black"
    and st2: "st2 = (case d of Lft \<Rightarrow> (Lft, rb_red, k, wl) # (Lft, rb_black, wk, wr) # st'
                             | Rgt \<Rightarrow> (Rgt, rb_red, k, wr) # (Rgt, rb_black, wk, wl) # st')"
    and pre: "delfix_pre cap n st"
    and IH: "c = rb_black \<and> length st + 1 < cap \<Longrightarrow> delfix_pre cap n st2 \<Longrightarrow> delfix_post cap n st2"
  shows "delfix_post cap n st"
proof -
  have c: "c = rb_black" using pre st by (cases c) (auto simp: delfix_pre_def)
  have "length st + 2 * (bheight n + 1) \<le> 2 * path_height (bheight n + 1) st"
    using path_length[of "bheight n + 1" st rb_black] pre by (auto simp: delfix_pre_def)
  then have len: "c = rb_black \<and> length st + 1 < cap" using pre c by (auto simp: delfix_pre_def)
  have "delfix_pre cap n st2"
    using assms(1-4) pre st2 c by (cases d) (auto simp: delfix_pre_def)
  from IH[OF len this] show ?thesis
    using assms(1-4) len st2
    by (cases d) (auto simp: delfix_post_def delfix_Lft delfix_Rgt)
qed

lemma delfix_case_rotate:
  assumes n: "color n = rb_black" and st: "st = (d, c, k, RBNODE rb_black wl wk wr) # st'"
    and w: "\<not> (color wl = rb_black \<and> color wr = rb_black)"
    and pre: "delfix_pre cap n st"
  shows "delfix_post cap n st"
proof (cases d)
  case Lft
  define w where "w = (if color wr = rb_black
      then set_right_color rb_red (set_color rb_black (rb_right_rotate (RBNODE rb_black wl wk wr)))
      else RBNODE rb_black wl wk wr)"
  define q where "q = set_right_color rb_black (set_left_color rb_black
      (set_color c (rb_left_rotate (RBNODE c n k w))))"
  have "rb_delete_fixup cap n st = Some (plug q st', False)"
    using n st Lft assms(3) by (auto simp add: delfix_Lft delfix_Rgt q_def w_def)
  then show ?thesis
  proof (rule delfix_plug)
    have "bal q \<and> nrr q \<and> color q = c \<and> bheight q = bheight n + 1 + (if c = rb_black then 1 else 0) \<and>
        inorder q = inorder n @ k # inorder wl @ wk # inorder wr"
      using pre n st Lft assms(3) by (auto simp: delfix_pre_def q_def w_def elim!: red_cases)
    then show "bal q" "nrr q" "path_bal (bheight q) st'" "path_nrr (color q) st'"
      "path_height (bheight q) st' = path_height (bheight n + 1) st"
      "st_left st' @ inorder q @ st_right st' = st_left st @ inorder n @ st_right st"
      using pre st Lft by (auto simp: delfix_pre_def)
  qed
next
  case Rgt
  define w where "w = (if color wl = rb_black
      then set_left_color rb_red (set_color rb_black (rb_left_rotate (RBNODE rb_black wl wk wr)))
      else RBNODE rb_black wl wk wr)"
  define q where "q = set_left_color rb_black (set_right_color rb_black
      (set_color c (rb_right_rotate (RBNODE c w k n))))"
  have "rb_delete_fixup cap n st = Some (plug q st', False)"
    using n st Rgt assms(3) by (auto simp add: delfix_Lft delfix_Rgt q_def w_def)
  then show ?thesis
  proof (rule delfix_plug)
    have "bal q \<and> nrr q \<and> color q = c \<and> bheight q = bheight n + 1 + (if c = rb_black then 1 else 0) \<and>
        inorder q = inorder wl @ wk # inorder wr @ k # inorder n"
      using pre n st Rgt assms(3) by (auto simp: delfix_pre_def q_def w_def elim!: red_cases)
    then show "bal q" "nrr q" "path_bal (bheight q) st'" "path_nrr (color q) st'"
      "path_height (bheight q) st' = path_height (bheight n + 1) st"
      "st_left st' @ inorder q @ st_right st' = st_left st @ inorder n @ st_right st"
      using pre st Rgt by (auto simp: delfix_pre_def)
  qed
qed

lemma delete_fixup_shape: "delfix_pre cap n st \<Longrightarrow> delfix_post cap n st"
proof (induction cap n st rule: rb_delete_fixup.induct)
  case (1 cap n st)
  show ?case
  proof (cases "color n = rb_red")
    case True
    then obtain l k r where n: "n = RBNODE rb_red l k r" by (rule red_cases)
    have eq: "rb_delete_fixup cap n st = Some (plug (set_color rb_black n) st, False)"
      using True by (simp add: rb_delete_fixup.simps)
    show ?thesis
      by (rule delfix_plug[OF eq]) (use 1(5) n in \<open>auto simp: delfix_pre_def\<close>)
  next
    case black: False
    show ?thesis
    proof (cases st)
      case Nil
      then show ?thesis
        using black 1(5)
        by (auto simp: delfix_pre_def delfix_post_def rb_shape_def rb_delete_fixup.simps[of cap n])
    next
      case (Cons f st')
      obtain d c k w where f: "f = (d, c, k, w)" by (cases f)
      obtain wc wl wk wr where w: "w = RBNODE wc wl wk wr"
        using 1(5) Cons f by (cases w) (auto simp: delfix_pre_def)
      note IH = 1(1-4)[of f st' d "(c, k, w)" c "(k, w)" k w wc wl wk wr, OF black Cons]
      have wb: "wc = rb_black" if "\<not> (color wl = rb_black \<and> color wr = rb_black)"
        using that 1(5) Cons f w by (cases wc) (auto simp: delfix_pre_def)
      show ?thesis
      proof (cases "color wl = rb_black \<and> color wr = rb_black")
        case False
        then show ?thesis
          using delfix_case_rotate[of n st d c k wl wk wr st' cap] black 1(5) Cons f w wb by auto
      next
        case True
        show ?thesis
        proof (cases wc)
          case rb_black
          then show ?thesis
            using delfix_case_up[of n st d c k wl wk wr st' _ cap] black 1(5) Cons f w True
              IH(1,3)
            by (cases d) auto
        next
          case rb_red
          then show ?thesis
            using delfix_case_red_sibling[of n st d c k wl wk wr st' _ cap] black 1(5) Cons f w True
              IH(2,4)
            by (cases d) auto
        qed
      qed
    qed
  qed
qed

lemma st_left_append [simp]: "st_left (xs @ ys) = st_left ys @ st_left xs"
  by (induction xs rule: st_left.induct) simp_all

lemma st_right_append [simp]: "st_right (xs @ ys) = st_right xs @ st_right ys"
  by (induction xs rule: st_right.induct) simp_all

lemma path_bal_append: "path_bal h (xs @ ys) \<longleftrightarrow> path_bal h xs \<and> path_bal (path_height h xs) ys"
  by (induction h xs rule: path_bal.induct) auto

lemma path_height_append: "path_height h (xs @ ys) = path_height (path_height h xs) ys"
  by (induction h xs rule: path_height.induct) auto

lemma replace_frame_key_mid [simp]:
  "replace_frame_key (length ps) k' (ps @ (d, c, k, s) # st) = ps @ (d, c, k', s) # st"
  by (induction ps) auto

lemma path_nrr_mid: "path_nrr hc (ps @ (d, c, k, s) # st) \<longleftrightarrow> path_nrr hc (ps @ (d, c, k', s) # st)"
  by (induction ps arbitrary: hc) auto

lemma path_bal_mid: "path_bal h (ps @ (d, c, k, s) # st) \<longleftrightarrow> path_bal h (ps @ (d, c, k', s) # st)"
  by (simp add: path_bal_append)

lemma path_height_mid: "path_height h (ps @ (d, c, k, s) # st) = path_height h (ps @ (d, c, k', s) # st)"
  by (simp add: path_height_append)

lemma leftmost_ok:
  assumes "m \<noteq> the_nil" "bal m" "nrr m" "path_ok (bheight m) (color m) st"
    and "lim = 2 * path_height (bheight m) st"
  shows "\<exists>c k r ps. rb_leftmost lim m st = Some (RBNODE c the_nil k r, ps @ st) \<and>
    bal (RBNODE c the_nil k r) \<and> nrr (RBNODE c the_nil k r) \<and>
    path_ok (bheight (RBNODE c the_nil k r)) c (ps @ st) \<and>
    path_height (bheight (RBNODE c the_nil k r)) (ps @ st) = path_height (bheight m) st \<and>
    st_left ps = [] \<and> inorder m = k # inorder r @ st_right ps"
  using assms
proof (induction lim m st rule: rb_leftmost.induct)
  case (1 lim c cl ll kl rl k r st)
  note step = path_step[OF "1.prems"(4)[unfolded color.simps] "1.prems"(2,3)]
  obtain c' k' r' ps where *: "rb_leftmost lim (RBNODE cl ll kl rl) ((Lft, c, k, r) # st)
      = Some (RBNODE c' the_nil k' r', ps @ (Lft, c, k, r) # st)"
    "bal (RBNODE c' the_nil k' r')" "nrr (RBNODE c' the_nil k' r')"
    "path_ok (bheight (RBNODE c' the_nil k' r')) c' (ps @ (Lft, c, k, r) # st)"
    "path_height (bheight (RBNODE c' the_nil k' r')) (ps @ (Lft, c, k, r) # st)
      = path_height (bheight (RBNODE cl ll kl rl)) ((Lft, c, k, r) # st)"
    "st_left ps = []" "inorder (RBNODE cl ll kl rl) = k' # inorder r' @ st_right ps"
    using 1 step by auto
  have "ps @ (Lft, c, k, r) # st = (ps @ [(Lft, c, k, r)]) @ st" by simp
  then show ?case
    using * step "1.prems"(5)
    by (intro exI[of _ c'] exI[of _ k'] exI[of _ r'] exI[of _ "ps @ [(Lft, c, k, r)]"]) auto
qed (auto intro!: exI[of _ "[]"])

lemma remove_ok:
  assumes y: "y = RBNODE c l k r" "l = the_nil \<or> r = the_nil" "bal y" "nrr y"
    and st: "path_ok (bheight y) (color y) st" "bh tree = path_height (bheight y) st"
    and cap: "2 * bh tree < stack_size tree"
  shows "\<exists>tree'. rb_remove tree y st = Some tree' \<and> rb_wf tree' \<and>
    inorder (root tree') = st_left st @ inorder l @ inorder r @ st_right st"
proof (cases c)
  case rb_black
  have io: "inorder (rb_splice y) = inorder l @ inorder r" using y by auto
  have "delfix_pre (stack_size tree) (rb_splice y) st"
    using y st cap rb_black by (auto simp: delfix_pre_def path_ok_def)
  from delete_fixup_shape[OF this] obtain t g where
    "rb_delete_fixup (stack_size tree) (rb_splice y) st = Some (t, g)" "rb_shape t"
    "bheight t + (if g then 1 else 0) = path_height (bheight (rb_splice y) + 1) st"
    "inorder t = st_left st @ inorder (rb_splice y) @ st_right st"
    by (auto simp: delfix_post_def)
  moreover have "path_height (bheight (rb_splice y) + 1) st = bh tree"
    using y st rb_black by auto
  ultimately show ?thesis
    using y(1) rb_black io by (auto simp: rb_remove_def rb_wf_def simp del: rb_splice.simps)
next
  case rb_red
  with y have lr: "l = the_nil" "r = the_nil" by (auto, cases l, auto, cases r, auto)
  have "path_nrr rb_black st" using st rb_red y(1) path_nrr_black[of rb_red st] by (auto simp: path_ok_def)
  then have "rb_shape (plug the_nil st) \<and> bheight (plug the_nil st) = path_height 0 st"
    using shape_plug[of the_nil st] st y lr rb_red by (auto simp: path_ok_def)
  then show ?thesis
    using st y lr rb_red by (auto simp: rb_remove_def rb_wf_def)
qed

lemma delete_node_ok:
  assumes n: "node = RBNODE c l k r" "bal node" "nrr node"
    and st: "path_ok (bheight node) (color node) st" "bh tree = path_height (bheight node) st"
    and cap: "2 * bh tree < stack_size tree"
  shows "\<exists>tree'. rb_delete_node tree node st = Some tree' \<and> rb_wf tree' \<and>
    inorder (root tree') = st_left st @ inorder l @ inorder r @ st_right st"
proof (cases "r = the_nil \<or> l = the_nil")
  case True
  then show ?thesis
    using remove_ok[OF n(1) _ n(2,3) st cap] n(1) by (auto simp: rb_delete_node_def)
next
  case False
  let ?f = "(Rgt, c, k, l)"
  have "path_ok (bheight (RBNODE c l k r)) c st" "bal (RBNODE c l k r)" "nrr (RBNODE c l k r)"
    using st n by auto
  note step = path_step[OF this]
  have len: "length st + 1 < stack_size tree" using step(3) st(2) n(1) cap by simp
  have ph: "path_height (bheight r) (?f # st) = bh tree" using st n by auto
  obtain c' k' r' ps where lm: "rb_leftmost (bh tree * 2) r (?f # st) = Some (RBNODE c' the_nil k' r', ps @ ?f # st)"
    and y: "bal (RBNODE c' the_nil k' r')" "nrr (RBNODE c' the_nil k' r')"
    and p: "path_ok (bheight (RBNODE c' the_nil k' r')) c' (ps @ ?f # st)"
      "path_height (bheight (RBNODE c' the_nil k' r')) (ps @ ?f # st) = bh tree"
    and io: "st_left ps = []" "inorder r = k' # inorder r' @ st_right ps"
    using leftmost_ok[of r "?f # st" "bh tree * 2"] False step(2) n ph by auto
  let ?st = "ps @ (Rgt, c, k', l) # st"
  have "path_ok (bheight (RBNODE c' the_nil k' r')) (color (RBNODE c' the_nil k' r')) ?st"
    "bh tree = path_height (bheight (RBNODE c' the_nil k' r')) ?st"
    using p path_bal_mid[of _ ps Rgt c k l st k'] path_nrr_mid[of _ ps Rgt c k l st k']
      path_height_mid[of _ ps Rgt c k l st k'] by (auto simp: path_ok_def)
  from remove_ok[OF refl _ y this cap] obtain tree' where
    "rb_remove tree (RBNODE c' the_nil k' r') ?st = Some tree'" "rb_wf tree'"
    "inorder (root tree') = st_left ?st @ inorder the_nil @ inorder r' @ st_right ?st"
    by auto
  then show ?thesis
    using False n(1) lm len io by (auto simp: rb_delete_node_def)
qed

subsection \<open>The public operations\<close>

lemma grow_stack_ok:
  "\<exists>tree'. rb_grow_stack tree = Some tree' \<and> root tree' = root tree \<and> bh tree' = bh tree \<and>
    2 * bh tree' < stack_size tree'"
  by (auto simp: rb_grow_stack_def rb_reallocate_stack_def Let_def)

lemma shape_start:
  assumes "rb_wf tree"
  shows "bal (root tree)" "nrr (root tree)" "path_ok (bheight (root tree)) (color (root tree)) []"
    "top_side x []" "2 * bh tree = 2 * path_height (bheight (root tree)) []"
  using assms by (auto simp: rb_wf_def rb_shape_def path_ok_def top_side_def)

lemma map_of_mid:
  assumes "a \<notin> fst ` set xs"
  shows "map_of (xs @ (a, b) # ys) = (map_of (xs @ ys))(a \<mapsto> b)"
proof -
  have "map_of xs a = None" using assms by (simp add: map_of_eq_None_iff)
  then show ?thesis by (auto simp: fun_eq_iff map_add_def split: option.split)
qed

lemma map_of_outside: "a \<notin> fst ` set xs \<Longrightarrow> map_of xs a = None"
  by (auto simp: map_of_eq_None_iff)

lemma fits_not_in:
  assumes "\<forall>y \<in> set xs. rb_cmp_less y x" "\<forall>y \<in> set ys. rb_cmp_less x y"
  shows "fst x \<notin> fst ` set (xs @ ys)"
  using assms by (auto simp: rb_cmp_less_def)

definition eq_walk ::
  "'d rbtree_t \<Rightarrow> 'd rb_key \<Rightarrow> 'd rbnode_t \<Rightarrow> 'd rb_frame list \<Rightarrow> bool"
where
  \<comment> \<open>what the search loop of insertion and deletion leaves: the cursor and the stack\<close>
  "eq_walk tree x m st \<longleftrightarrow>
     rb_descend_eq (bh tree * 2) x (root tree) [] = Some (m, st) \<and> bal m \<and> nrr m \<and>
     path_ok (bheight m) (color m) st \<and> top_side x st \<and> path_height (bheight m) st = bh tree \<and>
     st_left st @ inorder m @ st_right st = inorder (root tree) \<and>
     (case m of
        the_nil \<Rightarrow> (\<forall>y \<in> set (st_left st). rb_cmp_less y x) \<and> (\<forall>y \<in> set (st_right st). rb_cmp_less x y)
      | RBNODE c l k r \<Rightarrow> fst x = fst k \<and> (\<forall>y \<in> set (st_left st @ inorder l). rb_cmp_less y x) \<and>
         (\<forall>y \<in> set (inorder r @ st_right st). rb_cmp_less x y))"

lemma eq_walk_exists:
  assumes "rb_set tree"
  shows "\<exists>m st. eq_walk tree x m st"
proof -
  have wf: "rb_wf tree" and so: "sorted_wrt rb_cmp_less (inorder (root tree))"
    using assms by (auto simp: rb_set_def)
  obtain m st where m: "rb_descend_eq (bh tree * 2) x (root tree) [] = Some (m, st)" "bal m" "nrr m"
    "path_ok (bheight m) (color m) st" "top_side x st" "path_height (bheight m) st = bh tree"
    "plug m st = root tree" "case m of the_nil \<Rightarrow> True | RBNODE c l k r \<Rightarrow> rb_cmp_eq x k"
    using descend_eq_ok[OF shape_start(1-4)[OF wf], of "bh tree * 2" x] shape_start(5)[OF wf] by auto
  have "st_left st @ inorder m @ st_right st = inorder (root tree)"
    using m(7) inorder_plug[of m st] by simp
  with m descend_eq_fits[OF m(1) so] have "eq_walk tree x m st"
    by (cases m) (auto simp: rb_cmp_eq_def eq_walk_def)
  then show ?thesis by blast
qed

lemma eq_walk_found:
  assumes "eq_walk tree x (RBNODE c l k r) st"
  shows "fst k = fst x"
    and "rb_map tree = (map_of ((st_left st @ inorder l) @ inorder r @ st_right st))(fst x \<mapsto> snd k)"
    and "map_of ((st_left st @ inorder l) @ inorder r @ st_right st) (fst x) = None"
    and "inorder (root tree) = (st_left st @ inorder l) @ k # inorder r @ st_right st"
proof -
  let ?xs = "st_left st @ inorder l" and ?ys = "inorder r @ st_right st"
  show k: "fst k = fst x" and io: "inorder (root tree) = ?xs @ k # ?ys"
    using assms by (simp_all add: eq_walk_def)
  have ni: "fst x \<notin> fst ` set (?xs @ ?ys)"
    using assms by (intro fits_not_in) (auto simp: eq_walk_def)
  then show "map_of (?xs @ ?ys) (fst x) = None" by (rule map_of_outside)
  have "k = (fst x, snd k)" using k by (cases k) auto
  then have "rb_map tree = map_of (?xs @ (fst x, snd k) # ?ys)"
    using io by (simp only: rb_map_def)
  also have "\<dots> = (map_of (?xs @ ?ys))(fst x \<mapsto> snd k)"
    using ni by (intro map_of_mid) auto
  finally show "rb_map tree = (map_of (?xs @ ?ys))(fst x \<mapsto> snd k)" .
qed

lemma eq_walk_absent:
  assumes "eq_walk tree x the_nil st"
  shows "fst x \<notin> fst ` set (st_left st @ st_right st)"
    and "rb_map tree = map_of (st_left st @ st_right st)" and "rb_map tree (fst x) = None"
proof -
  show ni: "fst x \<notin> fst ` set (st_left st @ st_right st)"
    using assms by (intro fits_not_in) (auto simp: eq_walk_def)
  have io: "inorder (root tree) = st_left st @ st_right st" using assms by (simp add: eq_walk_def)
  show "rb_map tree = map_of (st_left st @ st_right st)" by (simp only: rb_map_def io)
  with map_of_outside[OF ni] show "rb_map tree (fst x) = None" by simp
qed

lemma search_core:
  assumes "rb_set tree"
  shows "rb_search tree x = map_option (\<lambda>d. (fst x, d)) (rb_map tree (fst x))"
proof -
  have "sorted_wrt rb_cmp_less (inorder n) \<Longrightarrow>
      rb_search_node x n = map_option (\<lambda>d. (fst x, d)) (map_of (inorder n) (fst x))" for n
  proof (induction n)
    case (RBNODE c l k r)
    have l: "\<forall>y \<in> set (inorder l). fst y < fst k" and r: "\<forall>y \<in> set (inorder r). fst k < fst y"
      using RBNODE.prems by (auto simp: sorted_wrt_append rb_cmp_less_def)
    have nl: "map_of (inorder l) a = None" if "fst k \<le> a" for a
      using l that by (force intro!: map_of_outside)
    have nr: "map_of (inorder r) a = None" if "a \<le> fst k" for a
      using r that by (force intro!: map_of_outside)
    show ?case
      using RBNODE nl nr
      by (cases k) (auto simp: sorted_wrt_append rb_cmp_eq_def rb_cmp_less_def map_add_def
          split: option.splits)
  qed simp
  then show ?thesis using assms by (simp add: rb_search_def rb_map_def rb_set_def)
qed

lemma insert_absent_core:
  assumes "rb_set tree"
  shows "\<exists>tree'. rb_insert_if_absent tree x
        = Some (map_option (\<lambda>d. (fst x, d)) (rb_map tree (fst x)), tree') \<and> rb_set tree' \<and>
      rb_map tree' = (if fst x \<in> dom (rb_map tree) then rb_map tree
                      else (rb_map tree)(fst x \<mapsto> snd x))"
proof -
  obtain tr where tr: "rb_grow_stack tree = Some tr" "root tr = root tree" "bh tr = bh tree"
    using grow_stack_ok[of tree] by auto
  have set: "rb_set tr" using assms tr by (simp add: rb_set_def rb_wf_def)
  obtain m st where w: "eq_walk tr x m st" using eq_walk_exists[OF set] by blast
  then have m: "rb_descend_eq (bh tr * 2) x (root tr) [] = Some (m, st)"
    "path_ok (bheight m) (color m) st" "top_side x st" "path_height (bheight m) st = bh tr"
    and io: "st_left st @ inorder m @ st_right st = inorder (root tr)"
    by (simp_all add: eq_walk_def)
  note fits = w[unfolded eq_walk_def]
  show ?thesis
  proof (cases m)
    case the_nil
    obtain tr' where tr': "rb_do_insert tr x st = Some tr'" "rb_wf tr'"
      "inorder (root tr') = st_left st @ [x] @ st_right st"
      using do_insert_ok[of st x tr] m the_nil by auto
    note ab = eq_walk_absent[OF w[unfolded the_nil]]
    have "sorted_wrt rb_cmp_less (st_left st @ st_right st)"
      using set io the_nil by (simp add: rb_set_def)
    then have "rb_set tr'"
      using tr' fits the_nil by (auto simp: rb_set_def sorted_wrt_append_mid)
    moreover have "rb_map tr' = (rb_map tr)(fst x \<mapsto> snd x)"
    proof -
      have "rb_map tr' = map_of (st_left st @ (fst x, snd x) # st_right st)"
        by (simp add: rb_map_def tr'(3))
      also have "\<dots> = (map_of (st_left st @ st_right st))(fst x \<mapsto> snd x)"
        using ab(1) by (intro map_of_mid) auto
      finally show ?thesis using ab(2) by (simp only:)
    qed
    moreover have "rb_map tr = rb_map tree" by (simp add: rb_map_def tr(2))
    ultimately show ?thesis
      using tr m(1) the_nil tr'(1) ab(3) by (auto simp: rb_insert_if_absent_def dom_def)
  next
    case (RBNODE c l k r)
    note fo = eq_walk_found[OF w[unfolded RBNODE]]
    have k: "k = (fst x, snd k)" using fo(1) by (cases k) auto
    have "rb_map tree = rb_map tr" by (simp add: rb_map_def tr(2))
    moreover have "rb_map tr (fst x) = Some (snd k)" using fo(2) by simp
    moreover have "rb_insert_if_absent tree x = Some (Some k, tr)"
      using tr m(1) RBNODE by (simp add: rb_insert_if_absent_def)
    ultimately show ?thesis using set k by auto
  qed
qed

lemma delete_core:
  assumes "rb_set tree"
  shows "\<exists>tree'. rb_delete tree x = Some tree' \<and> rb_set tree' \<and>
      rb_map tree' = (rb_map tree)(fst x := None)"
proof -
  obtain tr where tr: "rb_grow_stack tree = Some tr" "root tr = root tree" "bh tr = bh tree"
    and cap: "2 * bh tr < stack_size tr"
    using grow_stack_ok[of tree] by auto
  have set: "rb_set tr" using assms tr by (simp add: rb_set_def rb_wf_def)
  obtain m st where w: "eq_walk tr x m st" using eq_walk_exists[OF set] by blast
  then have m: "rb_descend_eq (bh tr * 2) x (root tr) [] = Some (m, st)" "bal m" "nrr m"
    "path_ok (bheight m) (color m) st" "path_height (bheight m) st = bh tr"
    and io: "st_left st @ inorder m @ st_right st = inorder (root tr)"
    by (simp_all add: eq_walk_def)
  note fits = w[unfolded eq_walk_def]
  show ?thesis
  proof (cases m)
    case the_nil
    have "rb_map tree = rb_map tr" by (simp add: rb_map_def tr(2))
    then have "(rb_map tree)(fst x := None) = rb_map tr"
      using eq_walk_absent(3)[OF w[unfolded the_nil]] by (simp add: fun_upd_idem)
    then show ?thesis
      using tr m(1) the_nil set by (auto simp: rb_delete_def)
  next
    case (RBNODE c l k r)
    obtain tr' where tr': "rb_delete_node tr m st = Some tr'" "rb_wf tr'"
      "inorder (root tr') = st_left st @ inorder l @ inorder r @ st_right st"
      using delete_node_ok[OF RBNODE m(2-4)] m(5) cap by auto
    note fo = eq_walk_found[OF w[unfolded RBNODE]]
    let ?xs = "st_left st @ inorder l" and ?ys = "inorder r @ st_right st"
    have "sorted_wrt rb_cmp_less (inorder (root tr'))"
      using set fo(4) tr'(3) by (auto simp: rb_set_def sorted_wrt_append)
    moreover have "rb_map tr' = (rb_map tree)(fst x := None)"
    proof -
      have "rb_map tree = rb_map tr" by (simp add: rb_map_def tr(2))
      then have "(rb_map tree)(fst x := None) = (map_of (?xs @ ?ys))(fst x := None)" using fo(2) by simp
      also have "\<dots> = map_of (?xs @ ?ys)" using fo(3) by (simp add: fun_upd_idem)
      finally show ?thesis by (simp add: rb_map_def tr'(3))
    qed
    ultimately show ?thesis
      using tr m(1) RBNODE tr' by (auto simp: rb_delete_def rb_set_def)
  qed
qed

text \<open>
  C27: \<open>rb_insert\<close>, which allows equal keys, never fails an assertion, keeps the
  invariant, and adds the element after the equal ones.
\<close>

theorem rb_insert_correct:
  assumes "rb_bag tree"
  shows "\<exists>tree' xs ys. rb_insert tree x = Some tree' \<and> rb_bag tree' \<and>
      inorder (root tree) = xs @ ys \<and> inorder (root tree') = xs @ [x] @ ys \<and>
      (\<forall>y \<in> set xs. \<not> rb_cmp_less x y) \<and> (\<forall>y \<in> set ys. rb_cmp_less x y)"
proof -
  obtain tr where tr: "rb_grow_stack tree = Some tr" "root tr = root tree" "bh tr = bh tree"
    using grow_stack_ok[of tree] by auto
  have wf: "rb_wf tr" and so: "sorted_wrt (\<lambda>x y. \<not> rb_cmp_less y x) (inorder (root tr))"
    using assms tr by (auto simp: rb_bag_def rb_wf_def)
  obtain st where st: "rb_descend (bh tr * 2) x (root tr) [] = Some st" "path_ok 0 rb_black st"
    "top_side x st" "path_height 0 st = bh tr" "st_left st @ st_right st = inorder (root tr)"
    using descend_ok[OF shape_start(1-4)[OF wf], of "bh tr * 2" x] shape_start(5)[OF wf] by auto
  have fits: "(\<forall>y \<in> set (st_left st). \<not> rb_cmp_less x y) \<and> (\<forall>y \<in> set (st_right st). rb_cmp_less x y)"
    using descend_sorted[OF st(1) so] by simp
  obtain tr' where tr': "rb_do_insert tr x st = Some tr'" "rb_wf tr'"
    "inorder (root tr') = st_left st @ [x] @ st_right st"
    using do_insert_ok[of st x tr] st by auto
  have "rb_bag tr'"
    using tr' fits so st(5)
    by (fastforce simp: rb_bag_def sorted_wrt_append_mid rb_cmp_less_def)
  then show ?thesis
    using tr st tr' fits
    by (intro exI[of _ tr'] exI[of _ "st_left st"] exI[of _ "st_right st"]) (auto simp: rb_insert_def)
qed

subsection \<open>Minimum, size, traversal\<close>

text \<open>
  \<open>rb_minimum\<close> returns 0 on the empty tree and the first element in key order otherwise.
\<close>

theorem rb_minimum_correct:
  "rb_minimum tree = (case inorder (root tree) of [] \<Rightarrow> None | k # ks \<Rightarrow> Some k)"
proof -
  have "rb_minimum_node p n = (case inorder n of [] \<Rightarrow> p | k # ks \<Rightarrow> Some k)" for p and n :: "'a rbnode_t"
  proof (induction n arbitrary: p)
    case (RBNODE c l k r)
    show ?case by (cases "inorder l") (simp_all add: RBNODE.IH(1))
  qed simp
  then show ?thesis by (simp add: rb_minimum_def)
qed

lemma rb_size_core: "rb_size tree = of_nat (length (inorder (root tree)))"
proof -
  have "do_rb_size n = of_nat (length (inorder n))" for n :: "'a rbnode_t"
    by (induction n) (simp_all add: algebra_simps)
  then show ?thesis by (simp add: rb_size_def)
qed

text \<open>
  C31: \<open>rb_size\<close> counts the elements, modulo \<open>2 ^ 32\<close> as its result type does.
\<close>

theorem rb_size_correct: "rb_size tree = of_nat (length (inorder (root tree)))"
  by (rule rb_size_core)

fun preorder :: "'d rbnode_t \<Rightarrow> 'd rb_key list" where
  "preorder the_nil = []"
| "preorder (RBNODE c l k r) = k # preorder l @ preorder r"

lemma mset_preorder: "mset (preorder n) = mset (inorder n)"
  by (induction n) simp_all

text \<open>
  \<open>rb_for_each\<close> calls its function exactly once on every element of the tree.
\<close>

theorem rb_for_each_correct:
  "\<exists>ks. rb_for_each tree f s = fold f ks s \<and> mset ks = mset (inorder (root tree))"
proof -
  have "do_rb_for_each f n s = fold f (preorder n) s" for n s
    by (induction n arbitrary: s) simp_all
  then show ?thesis
    using mset_preorder by (metis rb_for_each_def)
qed

subsection \<open>Join\<close>

lemma spine_ok:
  assumes "bal n" "nrr n" "path_ok (bheight n) (color n) st" "lim = 2 * path_height (bheight n) st"
    and "h = bheight n + (if color n = rb_red then 1 else 0)" "0 < target"
    and "target \<le> h" "color n = rb_red \<longrightarrow> target < h"
  shows "\<exists>m ps. rb_spine sd lim target h n st = Some (m, target, ps @ st) \<and> bal m \<and> nrr m \<and>
    bheight m = target \<and> color m = rb_black \<and> path_ok target rb_black (ps @ st) \<and>
    path_height target (ps @ st) = path_height (bheight n) st \<and>
    (case sd of Rgt \<Rightarrow> st_right ps = [] \<and> st_left ps @ inorder m = inorder n
              | Lft \<Rightarrow> st_left ps = [] \<and> inorder m @ st_right ps = inorder n)"
  using assms
proof (induction n arbitrary: st h)
  case (RBNODE c l k r)
  note step = path_step[OF RBNODE.prems(3)[unfolded color.simps] RBNODE.prems(1,2)]
  show ?case
  proof (cases "h = target")
    case True
    then have "c = rb_black" using RBNODE.prems by (cases c) auto
    then show ?thesis
      using True RBNODE.prems by (auto intro!: exI[of _ "[]"] split: side.split)
  next
    case False
    show ?thesis
    proof (cases sd)
      case Rgt
      have "\<exists>m ps. rb_spine sd lim target (if color r = rb_black then h - 1 else h) r ((Rgt, c, k, l) # st)
          = Some (m, target, ps @ (Rgt, c, k, l) # st) \<and> bal m \<and> nrr m \<and>
        bheight m = target \<and> color m = rb_black \<and> path_ok target rb_black (ps @ (Rgt, c, k, l) # st) \<and>
        path_height target (ps @ (Rgt, c, k, l) # st) = path_height (bheight r) ((Rgt, c, k, l) # st) \<and>
        st_right ps = [] \<and> st_left ps @ inorder m = inorder r"
        using RBNODE.IH(2)[of "(Rgt, c, k, l) # st" "if color r = rb_black then h - 1 else h"]
          step(2) RBNODE.prems False Rgt
        by (cases c; cases "color r") auto
      then obtain m ps where *: "rb_spine sd lim target (if color r = rb_black then h - 1 else h) r
          ((Rgt, c, k, l) # st) = Some (m, target, (ps @ [(Rgt, c, k, l)]) @ st)" "bal m" "nrr m"
        "bheight m = target" "color m = rb_black" "path_ok target rb_black ((ps @ [(Rgt, c, k, l)]) @ st)"
        "path_height target ((ps @ [(Rgt, c, k, l)]) @ st) = path_height (bheight r) ((Rgt, c, k, l) # st)"
        "st_right ps = []" "st_left ps @ inorder m = inorder r" by auto
      then show ?thesis
        using Rgt False step(3) RBNODE.prems(1,4)
        by (intro exI[of _ m] exI[of _ "ps @ [(Rgt, c, k, l)]"]) auto
    next
      case Lft
      have hl: "bheight l = bheight r" using RBNODE.prems by simp
      have "\<exists>m ps. rb_spine sd lim target (if color l = rb_black then h - 1 else h) l ((Lft, c, k, r) # st)
          = Some (m, target, ps @ (Lft, c, k, r) # st) \<and> bal m \<and> nrr m \<and>
        bheight m = target \<and> color m = rb_black \<and> path_ok target rb_black (ps @ (Lft, c, k, r) # st) \<and>
        path_height target (ps @ (Lft, c, k, r) # st) = path_height (bheight l) ((Lft, c, k, r) # st) \<and>
        st_left ps = [] \<and> inorder m @ st_right ps = inorder l"
        using RBNODE.IH(1)[of "(Lft, c, k, r) # st" "if color l = rb_black then h - 1 else h"]
          step(1) RBNODE.prems False Lft hl
        by (cases c; cases "color l") auto
      then obtain m ps where *: "rb_spine sd lim target (if color l = rb_black then h - 1 else h) l
          ((Lft, c, k, r) # st) = Some (m, target, (ps @ [(Lft, c, k, r)]) @ st)" "bal m" "nrr m"
        "bheight m = target" "color m = rb_black" "path_ok target rb_black ((ps @ [(Lft, c, k, r)]) @ st)"
        "path_height target ((ps @ [(Lft, c, k, r)]) @ st) = path_height (bheight l) ((Lft, c, k, r) # st)"
        "st_left ps = []" "inorder m @ st_right ps = inorder l" by auto
      then show ?thesis
        using Lft False step(3) RBNODE.prems(1,4)
        by (intro exI[of _ m] exI[of _ "ps @ [(Lft, c, k, r)]"]) auto
    qed
  qed
qed simp

lemma join_at_ok:
  assumes "bal a" "bal b" "nrr a" "nrr b" "color a = rb_black" "color b = rb_black"
    and "bheight a = h" "bheight b = h" "path_ok h rb_black st" "bh tree = path_height h st"
  shows "\<exists>tree'. rb_join_at tree (RBNODE rb_red a x b) st = Some tree' \<and> rb_wf tree' \<and>
    inorder (root tree') = st_left st @ inorder a @ [x] @ inorder b @ st_right st"
proof (cases st)
  case Nil
  then show ?thesis using assms by (auto simp: rb_join_at_def rb_wf_def rb_shape_def)
next
  case (Cons f st')
  obtain t g where "rb_insert_fixup (RBNODE rb_red a x b) st = Some (t, g)" "rb_shape t"
    "bheight t = path_height h st + (if g then 1 else 0)"
    "inorder t = st_left st @ (inorder a @ [x] @ inorder b) @ st_right st"
    using insert_fixup_shape[of "RBNODE rb_red a x b" st] assms by (auto simp: path_ok_def)
  then show ?thesis
    using Cons assms by (auto simp: rb_join_at_def rb_wf_def)
qed

lemma parent_key_elem:
  "rb_parent_key st = Some k \<Longrightarrow> k \<in> set (st_left st) \<union> set (st_right st)"
  by (cases st rule: st_left.cases) (auto simp: rb_parent_key_def)

lemma root_not_nil_height: "rb_shape t \<Longrightarrow> t \<noteq> the_nil \<Longrightarrow> 0 < bheight t"
  by (cases t) (auto simp: rb_shape_def)

text \<open>
  C30: For two trees that are not empty and an element \<open>x\<close> between them, \<open>rb_join\<close> never fails an
  assertion and gives what \<open>rbtree.h\<close> promises, a well-formed tree with the elements of the first
  tree, \<open>x\<close>, and the elements of the second tree, in this order.
\<close>

theorem rb_join_correct:
  assumes t1: "rb_bag t1" "root t1 \<noteq> the_nil" and t2: "rb_bag t2" "root t2 \<noteq> the_nil"
    and le1: "\<forall>y \<in> rb_elems t1. \<not> rb_cmp_less x y" and le2: "\<forall>z \<in> rb_elems t2. \<not> rb_cmp_less z x"
  shows "\<exists>t. rb_join t1 x t2 = Some t \<and> rb_bag t \<and> inorder (root t) = inorder (root t1) @ [x] @ inorder (root t2)"
proof -
  have False: "\<not> (root t1 = the_nil \<or> root t2 = the_nil)" using t1(2) t2(2) by simp
  have shape: "rb_shape (root t1)" "bh t1 = bheight (root t1)" "rb_shape (root t2)" "bh t2 = bheight (root t2)"
    using t1 t2 by (auto simp: rb_bag_def rb_wf_def)
  have pos: "0 < bh t1" "0 < bh t2" using shape False root_not_nil_height by metis+
  have so: "sorted_wrt (\<lambda>x y. \<not> rb_cmp_less y x) (inorder (root t1) @ [x] @ inorder (root t2))"
    using t1 t2 le1 le2 by (fastforce simp: rb_bag_def rb_elems_def sorted_wrt_append rb_cmp_less_def)
  have wf_bag: "\<exists>t. rb_join t1 x t2 = Some t \<and> rb_wf t \<and>
      inorder (root t) = inorder (root t1) @ [x] @ inorder (root t2)"
  proof (cases "bh t1 \<ge> bh t2")
    case True
    obtain tr where tr: "rb_grow_stack t1 = Some tr" "root tr = root t1" "bh tr = bh t1"
      using grow_stack_ok[of t1] by auto
    obtain m st where m: "rb_spine Rgt (bh tr * 2) (bh t2) (bh tr) (root tr) [] = Some (m, bh t2, st)"
      "bal m" "nrr m" "bheight m = bh t2" "color m = rb_black" "path_ok (bh t2) rb_black st"
      "path_height (bh t2) st = bh tr" "st_right st = []" "st_left st @ inorder m = inorder (root t1)"
      using spine_ok[of "root tr" "[]" "bh tr * 2" "bh tr" "bh t2" Rgt] shape pos True tr
      by (auto simp: rb_shape_def path_ok_def)
    have "k \<in> rb_elems t1" if "rb_parent_key st = Some k" for k
      using parent_key_elem[OF that] m(8,9) by (auto simp: rb_elems_def simp flip: m(9))
    then have "case rb_parent_key st of None \<Rightarrow> True | Some k \<Rightarrow> \<not> rb_cmp_less x k"
      using le1 by (auto split: option.split)
    moreover obtain t where "rb_join_at tr (RBNODE rb_red m x (root t2)) st = Some t" "rb_wf t"
      "inorder (root t) = st_left st @ inorder m @ [x] @ inorder (root t2) @ st_right st"
      using join_at_ok[of m "root t2" "bh t2" st tr x] m(2-7) shape(3,4)
      unfolding rb_shape_def by metis
    ultimately show ?thesis
      using True False tr(1) m(1,8) by (auto simp: rb_join_def simp flip: m(9))
  next
    case less: False
    obtain tr where tr: "rb_grow_stack t2 = Some tr" "root tr = root t2" "bh tr = bh t2"
      using grow_stack_ok[of t2] by auto
    obtain m st where m: "rb_spine Lft (bh tr * 2) (bh t1) (bh tr) (root tr) [] = Some (m, bh t1, st)"
      "bal m" "nrr m" "bheight m = bh t1" "color m = rb_black" "path_ok (bh t1) rb_black st"
      "path_height (bh t1) st = bh tr" "st_left st = []" "inorder m @ st_right st = inorder (root t2)"
      using spine_ok[of "root tr" "[]" "bh tr * 2" "bh tr" "bh t1" Lft] shape pos less tr
      by (auto simp: rb_shape_def path_ok_def)
    have "k \<in> rb_elems t2" if "rb_parent_key st = Some k" for k
      using parent_key_elem[OF that] m(8,9) by (auto simp: rb_elems_def simp flip: m(9))
    then have "case rb_parent_key st of None \<Rightarrow> True | Some k \<Rightarrow> \<not> rb_cmp_less k x"
      using le2 by (auto split: option.split)
    moreover obtain t where "rb_join_at tr (RBNODE rb_red (root t1) x m) st = Some t" "rb_wf t"
      "inorder (root t) = st_left st @ inorder (root t1) @ [x] @ inorder m @ st_right st"
      using join_at_ok[of "root t1" m "bh t1" st tr x] m(2-7) shape(1,2)
      unfolding rb_shape_def by metis
    ultimately show ?thesis
      using less False tr(1) m(1,8) by (auto simp: rb_join_def simp flip: m(9))
  qed
  then obtain t where "rb_join t1 x t2 = Some t" "rb_wf t"
    "inorder (root t) = inorder (root t1) @ [x] @ inorder (root t2)" by blast
  then show ?thesis using so False by (simp add: rb_bag_def)
qed

text \<open>When one of the trees is empty, \<open>x\<close> is dropped.\<close>

lemma rb_join_drops:
  "root t1 = the_nil \<or> root t2 = the_nil \<Longrightarrow> rb_join t1 x t2 = Some (if root t1 = the_nil then t2 else t1)"
  by (auto simp: rb_join_def)

subsection \<open>Copy\<close>

lemma rb_copy_subtree_id [simp]: "rb_copy_subtree n = n"
  by (induction n) simp_all

text \<open>
  \<open>rb_copy\<close> copies the elements but leaves the field \<open>bh\<close> at 0, so that the copy of
  a non-empty well-formed tree is not a well-formed tree.
\<close>

theorem rb_copy_loses_bh:
  assumes "rb_wf tree" and "root tree \<noteq> the_nil"
  shows "root (rb_copy tree) = root tree \<and> bh (rb_copy tree) = 0 \<and> \<not> rb_wf (rb_copy tree)"
  using assms root_not_nil_height[of "root tree"]
  by (auto simp: rb_copy_def rb_new_def rb_wf_def)

subsection \<open>The interface of the users\<close>

text \<open>
  The liveness analysis uses a tree as a map from variables to data: search, insertion of
  an absent key, deletion, and writes to the data of a key that is present.
\<close>

locale keyed_set =
  fixes empty :: "'t"
    and search :: "'t \<Rightarrow> 'd rb_key \<Rightarrow> 'd rb_key option"
    and insert_absent :: "'t \<Rightarrow> 'd rb_key \<Rightarrow> ('d rb_key option \<times> 't) option"
    and remove :: "'t \<Rightarrow> 'd rb_key \<Rightarrow> 't option"
    and store :: "'t \<Rightarrow> addr \<Rightarrow> 'd \<Rightarrow> 't"
    and inv :: "'t \<Rightarrow> bool"
    and view :: "'t \<Rightarrow> addr \<rightharpoonup> 'd"
  assumes inv_empty: "inv empty"
    and view_empty: "view empty = Map.empty"
    and search_view: "inv t \<Longrightarrow> search t x = map_option (\<lambda>d. (fst x, d)) (view t (fst x))"
    and insert_view: "inv t \<Longrightarrow> \<exists>t'. insert_absent t x
          = Some (map_option (\<lambda>d. (fst x, d)) (view t (fst x)), t') \<and> inv t' \<and>
        view t' = (if fst x \<in> dom (view t) then view t else (view t)(fst x \<mapsto> snd x))"
    and remove_view: "inv t \<Longrightarrow> \<exists>t'. remove t x = Some t' \<and> inv t' \<and> view t' = (view t)(fst x := None)"
    and store_inv: "inv t \<Longrightarrow> inv (store t a d)"
    and store_view: "inv t \<Longrightarrow> view (store t a d) = (if a \<in> dom (view t) then (view t)(a \<mapsto> d) else view t)"
begin

lemma insertD:
  assumes "insert_absent t x = Some (r, t')" and "inv t"
  shows "inv t'" and "dom (view t') = insert (fst x) (dom (view t))"
    and "r = None \<longleftrightarrow> fst x \<notin> dom (view t)"
  using insert_view[OF assms(2), of x] assms(1) by (auto simp: insert_absorb split: if_splits)

lemma removeD:
  assumes "remove t x = Some t'" and "inv t"
  shows "inv t'" and "view t' = (view t)(fst x := None)" and "dom (view t') = dom (view t) - {fst x}"
  using remove_view[OF assms(2), of x] assms(1) by auto

lemma search_None: "inv t \<Longrightarrow> search t x = None \<longleftrightarrow> fst x \<notin> dom (view t)"
  by (auto simp: search_view)

lemma store_dom: "inv t \<Longrightarrow> dom (view (store t a d)) = dom (view t)"
  by (auto simp: store_view)

lemma insert_ex: "inv t \<Longrightarrow> \<exists>r t'. insert_absent t x = Some (r, t')"
  using insert_view by blast

lemma remove_ex: "inv t \<Longrightarrow> \<exists>t'. remove t x = Some t'"
  using remove_view by blast

end

lemma write_node_shape:
  "bal (rb_write_node a d n) = bal n" "nrr (rb_write_node a d n) = nrr n"
  "bheight (rb_write_node a d n) = bheight n" "color (rb_write_node a d n) = color n"
  "map fst (inorder (rb_write_node a d n)) = map fst (inorder n)"
  by (induction n) auto

lemma sorted_rb_cmp: "sorted_wrt rb_cmp_less xs \<longleftrightarrow> sorted_wrt (<) (map fst xs)"
  by (simp add: sorted_wrt_map rb_cmp_less_def[abs_def])

lemma write_node_map:
  "sorted_wrt rb_cmp_less (inorder n) \<Longrightarrow>
    map_of (inorder (rb_write_node a d n)) =
      (if a \<in> fst ` set (inorder n) then (map_of (inorder n))(a \<mapsto> d) else map_of (inorder n))"
proof (induction n)
  case (RBNODE c l k r)
  have so: "sorted_wrt rb_cmp_less (inorder l)" "sorted_wrt rb_cmp_less (inorder r)"
    and lk: "\<forall>y \<in> set (inorder l). fst y < fst k" and kr: "\<forall>y \<in> set (inorder r). fst k < fst y"
    using RBNODE.prems by (simp_all add: sorted_wrt_append) (simp_all add: rb_cmp_less_def)
  obtain k1 k2 where k: "k = (k1, k2)" by (cases k)
  have nl: "map_of (inorder l) b = None" if "k1 \<le> b" for b
    using lk that k by (force intro!: map_of_outside)
  have nr: "b \<notin> fst ` set (inorder r)" if "b \<le> k1" for b
    using kr that k by force
  have nl': "b \<notin> fst ` set (inorder l)" if "k1 \<le> b" for b
    using lk that k by force
  consider "a = k1" | "a < k1" | "k1 < a" by linarith
  then show ?case
  proof cases
    case 1
    then show ?thesis using nl k by (auto simp: fun_eq_iff map_add_def split: option.splits)
  next
    case 2
    then have "a \<notin> fst ` set (inorder r)" using nr by simp
    then show ?thesis
      using 2 k RBNODE.IH(1)[OF so(1)] by (auto simp: fun_eq_iff map_add_def split: option.splits)
  next
    case 3
    then have "a \<notin> fst ` set (inorder l)" "map_of (inorder l) a = None" using nl nl' by auto
    then show ?thesis
      using 3 k RBNODE.IH(2)[OF so(2)] by (auto simp: fun_eq_iff map_add_def split: option.splits)
  qed
qed simp

interpretation rbs: keyed_set rb_new rb_search rb_insert_if_absent rb_delete rb_write rb_set rb_map
proof (unfold_locales, goal_cases)
  case 1
  show ?case by (simp add: rb_set_def rb_wf_def rb_shape_def rb_new_def)
next
  case 2
  show ?case by (simp add: rb_map_def rb_new_def)
next
  case (3 t x)
  then show ?case by (rule search_core)
next
  case (4 t x)
  then show ?case by (rule insert_absent_core)
next
  case (5 t x)
  then show ?case by (rule delete_core)
next
  case (6 t a d)
  then show ?case
    by (simp add: rb_set_def rb_wf_def rb_shape_def rb_write_def write_node_shape sorted_rb_cmp)
next
  case (7 t a d)
  then show ?case
    by (auto simp: rb_set_def rb_map_def rb_write_def write_node_map dom_map_of_conv_image_fst)
qed

text \<open>
  \<open>rb_search\<close> on a search tree returns the element with an equal key if there is
  one, and 0 otherwise.
\<close>

theorem rb_search_correct:
  assumes "rb_set tree"
  shows "rb_search tree x = map_option (\<lambda>d. (fst x, d)) (rb_map tree (fst x))"
  using assms by (rule rbs.search_view)

text \<open>
  C19: \<open>rb_insert_if_absent\<close> on a well-formed search tree never fails an assertion (every
  push fits the stack), keeps the red-black invariant and the field \<open>bh\<close>, returns the
  element with an equal key and changes nothing when there is one, and adds \<open>x\<close> otherwise.
\<close>

theorem rb_insert_if_absent_correct:
  assumes "rb_set tree"
  shows "\<exists>tree'. rb_insert_if_absent tree x
        = Some (map_option (\<lambda>d. (fst x, d)) (rb_map tree (fst x)), tree') \<and> rb_set tree' \<and>
      rb_map tree' = (if fst x \<in> dom (rb_map tree) then rb_map tree
                      else (rb_map tree)(fst x \<mapsto> snd x))"
  using assms by (rule rbs.insert_view)

text \<open>
  C5: \<open>rb_delete\<close> on a well-formed search tree never fails an assertion (in particular
  no push of the fixup runs past the end of the stack), keeps the invariant and removes
  exactly the element with an equal key.
\<close>

theorem rb_delete_correct:
  assumes "rb_set tree"
  shows "\<exists>tree'. rb_delete tree x = Some tree' \<and> rb_set tree' \<and>
      rb_map tree' = (rb_map tree)(fst x := None)"
  using assms by (rule rbs.remove_view)

subsection \<open>Concrete trees\<close>

definition tree3 :: "nat rbtree_t" where
  "tree3 = \<lparr>root = RBNODE rb_black (RBNODE rb_red the_nil (1, 10) the_nil) (2, 20)
      (RBNODE rb_red the_nil (3, 30) the_nil), stack_size = 3, bh = 1\<rparr>"

definition tree1 :: "nat rbtree_t" where
  "tree1 = \<lparr>root = RBNODE rb_black the_nil (7, 70) the_nil, stack_size = 0, bh = 1\<rparr>"

lemma tree3_ok: "rb_set tree3" "rb_bag tree3" "rb_wf tree3" "root tree3 \<noteq> the_nil"
  by (simp_all add: rb_set_def rb_bag_def rb_wf_def rb_shape_def tree3_def rb_cmp_less_def)

lemma tree1_ok: "rb_bag tree1" "root tree1 \<noteq> the_nil"
  by (simp_all add: rb_bag_def rb_wf_def rb_shape_def tree1_def)

lemma rb_search_correct_witness: "rb_search tree3 (2, 0) = Some (2, 20)"
  using rb_search_correct[OF tree3_ok(1), of "(2, 0)"] by (simp add: rb_map_def tree3_def)

lemma rb_insert_if_absent_correct_witness:
  "\<exists>t. rb_insert_if_absent tree3 (4, 40) = Some (None, t) \<and> rb_set t \<and>
    rb_map t = [1 \<mapsto> 10, 2 \<mapsto> 20, 3 \<mapsto> 30, 4 \<mapsto> 40]"
  using rb_insert_if_absent_correct[OF tree3_ok(1), of "(4, 40)"]
  by (simp add: rb_map_def tree3_def fun_upd_twist)

lemma rb_delete_correct_witness:
  "\<exists>t. rb_delete tree3 (2, 0) = Some t \<and> rb_set t \<and> rb_map t = [1 \<mapsto> 10, 3 \<mapsto> 30]"
  using rb_delete_correct[OF tree3_ok(1), of "(2, 0)"]
  by (auto simp: rb_map_def tree3_def fun_upd_twist)

lemma rb_insert_correct_witness:
  "\<exists>t xs ys. rb_insert tree3 (2, 21) = Some t \<and> rb_bag t \<and> inorder (root t) = xs @ [(2, 21)] @ ys"
  using rb_insert_correct[OF tree3_ok(2), of "(2, 21)"] by blast

lemma rb_join_correct_witness:
  "\<exists>t. rb_join tree3 (5, 50) tree1 = Some t \<and> rb_bag t \<and>
    inorder (root t) = [(1, 10), (2, 20), (3, 30), (5, 50), (7, 70)]"
  using rb_join_correct[OF tree3_ok(2,4) tree1_ok(1,2), of "(5, 50)"]
  by (simp add: tree3_def tree1_def rb_elems_def rb_cmp_less_def)

lemma rb_copy_loses_bh_witness: "bh (rb_copy tree3) = 0 \<and> \<not> rb_wf (rb_copy tree3)"
  using rb_copy_loses_bh[OF tree3_ok(3,4)] by simp

end
