(* ===== verification/Types.thy ===== *)
theory Types
  imports Prelude
begin

text \<open>
  \<open>src/src/types.h\<close> and \<open>types.c\<close>: the types of the language and the test
  \<open>type_equiv\<close>.

  The five basic types are the five static objects \<open>type_void\<close> to
  \<open>type_boolean\<close>.  A function or an array type is allocated at each use of
  \<open>cons_type\<close> and carries the number of that allocation, so that \<open>=\<close> on the model is the
  comparison of pointers in the code (\<open>node->left->type == node->right->type\<close>), while
  \<open>type_equiv\<close> compares the structure.
\<close>

datatype type_cons_t =
  TYPE_VOID | TYPE_INT | TYPE_DOUBLE | TYPE_STR | TYPE_BOOLEAN | TYPE_FUNC | TYPE_ARRAY

datatype type_t =
    type_void | type_int | type_double | type_str | type_boolean
  | func_type addr type_t nat "type_t list"   \<comment> \<open>return type, \<open>args_num\<close>, argument types\<close>
  | array_type addr type_t i32                \<comment> \<open>type of the elements, \<open>array_size\<close>\<close>

fun cons :: "type_t \<Rightarrow> type_cons_t" where
  "cons type_void = TYPE_VOID"
| "cons type_int = TYPE_INT"
| "cons type_double = TYPE_DOUBLE"
| "cons type_str = TYPE_STR"
| "cons type_boolean = TYPE_BOOLEAN"
| "cons (func_type p r n as) = TYPE_FUNC"
| "cons (array_type p b n) = TYPE_ARRAY"

text \<open>
  The allocations of \<open>cons_type\<close>: the next free number is the state.
\<close>

definition cons_type_func :: "type_t \<Rightarrow> nat \<Rightarrow> type_t list \<Rightarrow> addr \<Rightarrow> type_t \<times> addr" where
  "cons_type_func r n as p = (func_type p r n as, p + 1)"

definition cons_type_array :: "type_t \<Rightarrow> i32 \<Rightarrow> addr \<Rightarrow> type_t \<times> addr" where
  "cons_type_array b n p = (array_type p b n, p + 1)"

subsection \<open>Equivalence\<close>

text \<open>
  \<open>type_equiv\<close> calls \<open>do_type_equiv\<close> only on two function types or two array types,
  which is what the latter asserts: the remaining cases of \<open>do_type_equiv\<close> are not
  reached.  \<open>args_equiv\<close> is its loop over the two argument lists.
\<close>

fun type_equiv :: "type_t \<Rightarrow> type_t \<Rightarrow> bool"
  and do_type_equiv :: "type_t \<Rightarrow> type_t \<Rightarrow> bool"
  and args_equiv :: "type_t list \<Rightarrow> type_t list \<Rightarrow> bool"
where
  "type_equiv t1 t2 =
     (if cons t1 = cons t2 then
        if cons t1 = TYPE_FUNC \<or> cons t1 = TYPE_ARRAY then do_type_equiv t1 t2 else True
      else if cons t2 = TYPE_VOID then
        cons t1 \<noteq> TYPE_STR \<and> cons t1 \<noteq> TYPE_FUNC \<and> cons t1 \<noteq> TYPE_ARRAY
      else if cons t1 = TYPE_VOID then
        cons t2 \<noteq> TYPE_STR \<and> cons t2 \<noteq> TYPE_FUNC \<and> cons t2 \<noteq> TYPE_ARRAY
      else False)"
| "do_type_equiv (array_type p1 b1 n1) (array_type p2 b2 n2) \<longleftrightarrow> type_equiv b1 b2 \<and> n1 = n2"
| "do_type_equiv (func_type p1 r1 n1 as1) (func_type p2 r2 n2 as2) \<longleftrightarrow>
     n1 = n2 \<and> type_equiv r1 r2 \<and> args_equiv as1 as2"
| "do_type_equiv _ _ \<longleftrightarrow> False"
| "args_equiv (a1 # as1) (a2 # as2) \<longleftrightarrow> type_equiv a1 a2 \<and> args_equiv as1 as2"
| "args_equiv [] [] \<longleftrightarrow> True"
| "args_equiv _ _ \<longleftrightarrow> False"

declare type_equiv.simps [simp del]

lemma type_equiv_basic:
  "type_equiv type_int t \<longleftrightarrow> t = type_int \<or> t = type_void"
  "type_equiv type_double t \<longleftrightarrow> t = type_double \<or> t = type_void"
  "type_equiv type_boolean t \<longleftrightarrow> t = type_boolean \<or> t = type_void"
  "type_equiv type_str t \<longleftrightarrow> t = type_str"
  "type_equiv type_void t \<longleftrightarrow> t \<in> {type_void, type_int, type_double, type_boolean}"
  by (cases t; simp add: type_equiv.simps)+

lemma type_equiv_array [simp]:
  "type_equiv (array_type p b n) (array_type p' b' n') \<longleftrightarrow> type_equiv b b' \<and> n = n'"
  by (simp add: type_equiv.simps)

lemma type_equiv_func [simp]:
  "type_equiv (func_type p r n as) (func_type p' r' n' as') \<longleftrightarrow>
    n = n' \<and> type_equiv r r' \<and> args_equiv as as'"
  by (simp add: type_equiv.simps)

lemma args_equiv_list: "args_equiv as bs \<longleftrightarrow> list_all2 type_equiv as bs"
  by (induction as bs rule: list_induct2') simp_all

text \<open>The structure of a type, without the numbers of its allocations.\<close>

fun shape :: "type_t \<Rightarrow> type_t" where
  "shape (func_type p r n as) = func_type 0 (shape r) n (map shape as)"
| "shape (array_type p b n) = array_type 0 (shape b) n"
| "shape t = t"

fun void_free :: "type_t \<Rightarrow> bool" where
  "void_free type_void = False"
| "void_free (func_type p r n as) \<longleftrightarrow> void_free r \<and> list_all void_free as"
| "void_free (array_type p b n) \<longleftrightarrow> void_free b"
| "void_free t = True"

lemma type_equiv_refl: "type_equiv t t"
proof (induction t)
  case (func_type p r n as)
  then show ?case by (simp add: args_equiv_list list_all2_same)
qed (simp_all add: type_equiv_basic)

lemma type_equiv_sym_imp: "type_equiv a b \<Longrightarrow> type_equiv b a"
proof (induction a arbitrary: b)
  case (func_type p r n as)
  obtain p' r' n' as' where b: "b = func_type p' r' n' as'"
    using func_type.prems by (cases b) (simp_all add: type_equiv.simps)
  have "list_all2 type_equiv as' as"
    using func_type b by (auto simp: args_equiv_list list_all2_conv_all_nth)
  then show ?case using func_type b by (simp add: args_equiv_list)
next
  case (array_type p e n)
  then show ?case by (cases b) (simp_all add: type_equiv.simps(1)[of "array_type _ _ _"])
qed (auto simp: type_equiv_basic)

lemma type_equiv_shape:
  "void_free a \<Longrightarrow> void_free b \<Longrightarrow> type_equiv a b \<longleftrightarrow> shape a = shape b"
proof (induction a arbitrary: b)
  case (func_type p r n as)
  show ?case
  proof (cases b)
    case b: (func_type p' r' n' as')
    have "list_all2 type_equiv as as' \<longleftrightarrow> map shape as = map shape as'"
      using func_type b by (auto simp: list_all2_conv_all_nth list_eq_iff_nth_eq list_all_length)
    then show ?thesis using func_type b by (auto simp: args_equiv_list)
  qed (simp_all add: type_equiv.simps)
next
  case (array_type p e n)
  then show ?case by (cases b) (simp_all add: type_equiv.simps(1)[of "array_type _ _ _"])
next
  case type_void
  then show ?case by simp
qed (case_tac b, simp_all add: type_equiv_basic)+

text \<open>
  C24: \<open>type_equiv\<close> is reflexive and symmetric, and on types without \<open>void\<close> it is
  equality of structure.
\<close>

theorem type_equiv_spec:
  "type_equiv a a \<and> (type_equiv a b \<longleftrightarrow> type_equiv b a) \<and>
    (void_free a \<longrightarrow> void_free b \<longrightarrow> type_equiv a b = (shape a = shape b))"
  using type_equiv_refl type_equiv_sym_imp type_equiv_shape by blast

lemma type_equiv_spec_witness:
  "type_equiv (array_type 1 type_int 5) (array_type 2 type_int 5)"
  using type_equiv_spec[of "array_type 1 type_int 5" "array_type 2 type_int 5"] by simp

text \<open>
  \<open>type_equiv\<close> is not an equivalence: \<open>void\<close> is equivalent to \<open>int\<close>, to
  \<open>double\<close> and to \<open>boolean\<close>, which are not equivalent to each other, and this
  extends below function types, so that \<open>Void main()\<close> passes where \<open>int main()\<close> is
  required.
\<close>

theorem type_equiv_void:
  "type_equiv type_int type_void \<and> type_equiv type_void type_boolean \<and>
    \<not> type_equiv type_int type_boolean \<and>
    type_equiv (func_type p type_void 0 []) (func_type q type_int 0 [])"
  by (simp add: type_equiv_basic)

end
