(* ===== verification/Ast.thy ===== *)
theory Ast
  imports Types
begin

text \<open>
  \<open>src/src/tree.h\<close>: the abstract syntax tree.

  A tree node is a struct whose first field \<open>node_type\<close> says which struct it is.  The
  values of \<open>node_type_t\<close> are constructors here, with \<open>node_type_code\<close> giving the numbers of
  the enumeration, on which the masks of \<open>is_expr\<close> and the like work.  A node is a value of
  \<open>expr\<close>, \<open>node\<close> or \<open>func_t\<close>; the field \<open>type\<close> of an expression, \<open>NULL\<close>
  until the type check has set it, is \<open>type_t option\<close>.  The linked lists of the tree
  (\<open>expr_list_t\<close>, \<open>instr_t\<close>, \<open>declarator_t\<close>, \<open>arg_t\<close>, \<open>func_t\<close>) are lists.  A symbol,
  a pointer to the entry of the symbol table for a string, is that string.
\<close>

type_synonym sym = string

type_synonym double = "64 word"   \<comment> \<open>the bits of a \<open>double\<close>\<close>

record src_pos_t =
  line :: nat
  col :: nat
  len :: nat

subsection \<open>Node types\<close>

datatype node_type_t =
    NODE_ADD | NODE_SUB | NODE_MUL | NODE_DIV | NODE_MOD
  | NODE_INT | NODE_DOUBLE | NODE_BOOL | NODE_STR | NODE_IDENT | NODE_ARRAY
  | NODE_EQ | NODE_NEQ | NODE_GT | NODE_LT | NODE_GEQ | NODE_LEQ | NODE_OR | NODE_AND
  | NODE_NEG | NODE_NOT | NODE_PLUS
  | NODE_EXPR_LIST | NODE_BLOCK | NODE_INSTR | NODE_DECLARATOR | NODE_DECLARATION
  | NODE_ASSIGN | NODE_INC | NODE_DEC | NODE_IF | NODE_IF_ELSE | NODE_WHILE | NODE_FOR
  | NODE_RETURN | NODE_CALL | NODE_ARG | NODE_FUNC

fun node_type_code :: "node_type_t \<Rightarrow> u32" where
  "node_type_code NODE_ADD = 0x11000000"
| "node_type_code NODE_SUB = 0x11000001"
| "node_type_code NODE_MUL = 0x11000002"
| "node_type_code NODE_DIV = 0x11000003"
| "node_type_code NODE_MOD = 0x11000004"
| "node_type_code NODE_INT = 0x30000005"
| "node_type_code NODE_DOUBLE = 0x30000006"
| "node_type_code NODE_BOOL = 0x30000007"
| "node_type_code NODE_STR = 0x30000008"
| "node_type_code NODE_IDENT = 0x10000009"
| "node_type_code NODE_ARRAY = 0x1000000A"
| "node_type_code NODE_EQ = 0x1110000B"
| "node_type_code NODE_NEQ = 0x1110000C"
| "node_type_code NODE_GT = 0x1110000D"
| "node_type_code NODE_LT = 0x1110000E"
| "node_type_code NODE_GEQ = 0x1110000F"
| "node_type_code NODE_LEQ = 0x11100010"
| "node_type_code NODE_OR = 0x11000011"
| "node_type_code NODE_AND = 0x11000012"
| "node_type_code NODE_NEG = 0x12000013"
| "node_type_code NODE_NOT = 0x12000014"
| "node_type_code NODE_PLUS = 0x10000015"
| "node_type_code NODE_EXPR_LIST = 0x16"
| "node_type_code NODE_BLOCK = 0x17"
| "node_type_code NODE_INSTR = 0x18"
| "node_type_code NODE_DECLARATOR = 0x19"
| "node_type_code NODE_DECLARATION = 0x1A"
| "node_type_code NODE_ASSIGN = 0x1B"
| "node_type_code NODE_INC = 0x1C"
| "node_type_code NODE_DEC = 0x1D"
| "node_type_code NODE_IF = 0x1E"
| "node_type_code NODE_IF_ELSE = 0x1F"
| "node_type_code NODE_WHILE = 0x20"
| "node_type_code NODE_FOR = 0x21"
| "node_type_code NODE_RETURN = 0x22"
| "node_type_code NODE_CALL = 0x10000023"
| "node_type_code NODE_ARG = 0x24"
| "node_type_code NODE_FUNC = 0x25"

definition is_expr :: "node_type_t \<Rightarrow> bool" where
  "is_expr x \<longleftrightarrow> node_type_code x AND 0x10000000 \<noteq> 0"

definition is_value :: "node_type_t \<Rightarrow> bool" where
  "is_value x \<longleftrightarrow> node_type_code x AND 0x20000000 \<noteq> 0"

definition is_binop :: "node_type_t \<Rightarrow> bool" where
  "is_binop x \<longleftrightarrow> node_type_code x AND 0x01000000 \<noteq> 0"

definition is_unop :: "node_type_t \<Rightarrow> bool" where
  "is_unop x \<longleftrightarrow> node_type_code x AND 0x02000000 \<noteq> 0"

definition is_cmp_op :: "node_type_t \<Rightarrow> bool" where
  "is_cmp_op x \<longleftrightarrow> node_type_code x AND 0x00100000 \<noteq> 0"

subsection \<open>Expressions\<close>

text \<open>
  The first argument of \<open>BINARY\<close> and \<open>UNARY\<close> is \<open>node_type\<close>; \<open>new_node\<close>
  makes a \<open>binary_t\<close> and a \<open>unary_t\<close> for the node types of \<open>binary_nodes\<close> and
  \<open>unary_nodes\<close> only.
\<close>

datatype expr =
    BINARY node_type_t src_pos_t "type_t option" expr expr
  | UNARY node_type_t src_pos_t "type_t option" expr
  | INT_NODE src_pos_t "type_t option" i32
  | DOUBLE_NODE src_pos_t "type_t option" double
  | BOOL_NODE src_pos_t "type_t option" i32
  | STR_NODE src_pos_t "type_t option" string
  | IDENT src_pos_t "type_t option" sym
  | ARRAY src_pos_t "type_t option" sym expr
  | CALL src_pos_t "type_t option" sym "(src_pos_t \<times> expr) list"

definition binary_nodes :: "node_type_t list" where
  "binary_nodes = [NODE_ADD, NODE_SUB, NODE_DIV, NODE_MUL, NODE_MOD, NODE_EQ, NODE_NEQ,
     NODE_GEQ, NODE_LEQ, NODE_GT, NODE_LT, NODE_OR, NODE_AND]"

definition unary_nodes :: "node_type_t list" where
  "unary_nodes = [NODE_NEG, NODE_NOT, NODE_PLUS]"

fun expr_node :: "expr \<Rightarrow> node_type_t" where
  "expr_node (BINARY nt p t l r) = nt"
| "expr_node (UNARY nt p t a) = nt"
| "expr_node (INT_NODE p t v) = NODE_INT"
| "expr_node (DOUBLE_NODE p t v) = NODE_DOUBLE"
| "expr_node (BOOL_NODE p t v) = NODE_BOOL"
| "expr_node (STR_NODE p t v) = NODE_STR"
| "expr_node (IDENT p t s) = NODE_IDENT"
| "expr_node (ARRAY p t s i) = NODE_ARRAY"
| "expr_node (CALL p t s as) = NODE_CALL"

fun expr_pos :: "expr \<Rightarrow> src_pos_t" where
  "expr_pos (BINARY nt p t l r) = p"
| "expr_pos (UNARY nt p t a) = p"
| "expr_pos (INT_NODE p t v) = p"
| "expr_pos (DOUBLE_NODE p t v) = p"
| "expr_pos (BOOL_NODE p t v) = p"
| "expr_pos (STR_NODE p t v) = p"
| "expr_pos (IDENT p t s) = p"
| "expr_pos (ARRAY p t s i) = p"
| "expr_pos (CALL p t s as) = p"

fun expr_type :: "expr \<Rightarrow> type_t option" where
  "expr_type (BINARY nt p t l r) = t"
| "expr_type (UNARY nt p t a) = t"
| "expr_type (INT_NODE p t v) = t"
| "expr_type (DOUBLE_NODE p t v) = t"
| "expr_type (BOOL_NODE p t v) = t"
| "expr_type (STR_NODE p t v) = t"
| "expr_type (IDENT p t s) = t"
| "expr_type (ARRAY p t s i) = t"
| "expr_type (CALL p t s as) = t"

fun wf_expr :: "expr \<Rightarrow> bool" where
  \<comment> \<open>the node types that \<open>new_node\<close> can give the node\<close>
  "wf_expr (BINARY nt p t l r) \<longleftrightarrow> nt \<in> set binary_nodes \<and> wf_expr l \<and> wf_expr r"
| "wf_expr (UNARY nt p t a) \<longleftrightarrow> nt \<in> set unary_nodes \<and> wf_expr a"
| "wf_expr (ARRAY p t s i) \<longleftrightarrow> wf_expr i"
| "wf_expr (CALL p t s as) \<longleftrightarrow> (\<forall>(q, a) \<in> set as. wf_expr a)"
| "wf_expr _ \<longleftrightarrow> True"

fun untyped :: "expr \<Rightarrow> bool" where
  \<comment> \<open>as \<open>new_node\<close> leaves it: no \<open>type\<close> is set\<close>
  "untyped (BINARY nt p t l r) \<longleftrightarrow> t = None \<and> untyped l \<and> untyped r"
| "untyped (UNARY nt p t a) \<longleftrightarrow> t = None \<and> untyped a"
| "untyped (ARRAY p t s i) \<longleftrightarrow> t = None \<and> untyped i"
| "untyped (CALL p t s as) \<longleftrightarrow> t = None \<and> (\<forall>(q, a) \<in> set as. untyped a)"
| "untyped e \<longleftrightarrow> expr_type e = None"

subsection \<open>Instructions and functions\<close>

datatype declarator_t =
    VAR_DECLARATOR src_pos_t sym "expr option"
  | ARRAY_DECLARATOR src_pos_t sym i32

text \<open>
  \<open>NULL_NODE\<close> is the null pointer, which stands for the empty instruction.  An
  \<open>instr_t\<close> is the list that its \<open>next\<close> fields make; each element has its own
  \<open>node_type\<close>, \<open>NODE_BLOCK\<close> (true) or \<open>NODE_INSTR\<close> (false).
\<close>

datatype node =
    NULL_NODE
  | EXPR_NODE expr
  | INSTR "(bool \<times> node) list"
  | DECLARATION src_pos_t type_t "declarator_t list"
  | ASSIGN src_pos_t expr expr
  | INC src_pos_t expr
  | DEC src_pos_t expr
  | IF expr node
  | IF_ELSE expr node node
  | WHILE expr node
  | FOR node expr node node
  | RETURN src_pos_t "expr option"

record arg_t =
  a_pos :: src_pos_t
  a_type :: type_t
  a_ident :: sym

record func_t =
  f_pos :: src_pos_t
  f_type :: type_t
  f_ident :: sym
  f_args :: "arg_t list"
  f_body :: node

subsection \<open>The masks\<close>

text \<open>
  The masks of the node types select what their names say: \<open>is_expr\<close> the node
  types of the expression structs, \<open>is_binop\<close> those of \<open>binary_t\<close>, \<open>is_cmp_op\<close> the six
  comparisons, \<open>is_value\<close> the literals; but \<open>is_unop\<close> leaves out \<open>NODE_PLUS\<close>,
  which \<open>new_node\<close> makes a \<open>unary_t\<close>.
\<close>

theorem node_masks:
  "(is_binop x \<longleftrightarrow> x \<in> set binary_nodes) \<and>
   (is_cmp_op x \<longleftrightarrow> x \<in> {NODE_EQ, NODE_NEQ, NODE_GT, NODE_LT, NODE_GEQ, NODE_LEQ}) \<and>
   (is_value x \<longleftrightarrow> x \<in> {NODE_INT, NODE_DOUBLE, NODE_BOOL, NODE_STR}) \<and>
   (is_expr x \<longleftrightarrow> x \<in> set binary_nodes \<union> set unary_nodes \<union>
      {NODE_INT, NODE_DOUBLE, NODE_BOOL, NODE_STR, NODE_IDENT, NODE_ARRAY, NODE_CALL}) \<and>
   (is_unop x \<longleftrightarrow> x \<in> set unary_nodes - {NODE_PLUS})"
  by (cases x)
     (simp_all add: is_binop_def is_cmp_op_def is_value_def is_expr_def is_unop_def
        binary_nodes_def unary_nodes_def)

end
