(* ===== verification/Decls.thy ===== *)
theory Decls
  imports Ast
begin

text \<open>
  The part of \<open>src/src/tree.c\<close> that keeps the declarations and the scopes, and the error
  counters of \<open>utils.c\<close>.

  \<open>sym->decl\<close> with its chain of \<open>prev\<close> pointers is the list \<open>sym_decl st sym\<close>, the
  innermost declaration first; the empty list is \<open>NULL\<close>.  \<open>decls\<close> holds the elements
  \<open>0\<close> to \<open>decls_free - 1\<close> of the array of that name, \<open>decls_bytes\<close> the bytes it
  was allocated with.
\<close>

subsection \<open>State\<close>

type_synonym var_id = nat    \<comment> \<open>a \<open>var_t *\<close>\<close>
type_synonym func_id = nat   \<comment> \<open>a \<open>quadr_func_t *\<close>\<close>

datatype decl_u = U_NULL | U_VAR var_id | U_FUNC func_id

record decl_t =
  d_type :: type_t
  d_scope :: nat
  initialized :: bool
  d_u :: decl_u

type_synonym message = "nat \<times> nat \<times> string"   \<comment> \<open>line, column, text\<close>

record tree_st =
  errors :: "message list"
  warnings :: "message list"
  suppress_type_errors :: bool
  sym_decl :: "sym \<Rightarrow> decl_t list"
  decls :: "sym list"
  decls_size :: nat
  decls_bytes :: nat
  scopes :: "nat list"
  cur_scope :: nat
  type_next :: addr

definition MAX_SCOPES :: nat where "MAX_SCOPES = 64"

definition sizeof_ptr :: nat where "sizeof_ptr = 8"

definition errors_num :: "'a tree_st_scheme \<Rightarrow> nat" where
  "errors_num st = length (errors st)"

definition error :: "src_pos_t \<Rightarrow> string \<Rightarrow> 'a tree_st_scheme \<Rightarrow> 'a tree_st_scheme" where
  "error p s st = st\<lparr>errors := errors st @ [(line p, col p, s)]\<rparr>"

definition warn :: "src_pos_t \<Rightarrow> string \<Rightarrow> 'a tree_st_scheme \<Rightarrow> 'a tree_st_scheme" where
  "warn p s st = st\<lparr>warnings := warnings st @ [(line p, col p, s)]\<rparr>"

text \<open>The state after \<open>decl_init\<close>, with an empty symbol table.\<close>

definition decl_init :: "tree_st" where
  "decl_init = \<lparr>errors = [], warnings = [], suppress_type_errors = False,
     sym_decl = (\<lambda>s. []), decls = [], decls_size = 1024, decls_bytes = sizeof_ptr * 1024,
     scopes = replicate MAX_SCOPES 0, cur_scope = 0, type_next = 0\<rparr>"

subsection \<open>Operations\<close>

definition push_scope :: "'a tree_st_scheme \<Rightarrow> 'a tree_st_scheme option" where
  "push_scope st =
     (let st = st\<lparr>cur_scope := cur_scope st + 1\<rparr> in
      if cur_scope st \<ge> MAX_SCOPES then None   \<comment> \<open>too many nested blocks\<close>
      else Some (st\<lparr>scopes := (scopes st)[cur_scope st := length (decls st)]\<rparr>))"

text \<open>
  The loop of \<open>pop_scope\<close> over the symbols of the innermost scope: each one loses its
  first declaration.
\<close>

fun pop_decls :: "sym list \<Rightarrow> (sym \<Rightarrow> decl_t list) \<Rightarrow> (sym \<Rightarrow> decl_t list) option" where
  "pop_decls [] sd = Some sd"
| "pop_decls (s # ss) sd =
     (case sd s of
        [] \<Rightarrow> None
      | d # ds \<Rightarrow> pop_decls ss (sd(s := ds)))"

definition pop_scope :: "'a tree_st_scheme \<Rightarrow> 'a tree_st_scheme option" where
  "pop_scope st = do {
     check (cur_scope st > 0);
     let i = scopes st ! cur_scope st;
     sd \<leftarrow> pop_decls (drop i (decls st)) (sym_decl st);
     Some (st\<lparr>sym_decl := sd, decls := take i (decls st), cur_scope := cur_scope st - 1\<rparr>)
   }"

text \<open>
  \<open>declare\<close>.  When the array \<open>decls\<close> is full, its size is doubled and it is reallocated
  to \<open>decls_size\<close> bytes; a write past the end of the array is \<open>None\<close>.
\<close>

definition grow_decls :: "'a tree_st_scheme \<Rightarrow> 'a tree_st_scheme" where
  "grow_decls st =
     (if length (decls st) = decls_size st
      then st\<lparr>decls_size := decls_size st * 2, decls_bytes := decls_size st * 2\<rparr>
      else st)"

definition declared_here :: "'a tree_st_scheme \<Rightarrow> sym \<Rightarrow> bool" where
  "declared_here st s = (case sym_decl st s of [] \<Rightarrow> False | d # ds \<Rightarrow> d_scope d = cur_scope st)"

definition declare_sym ::
  "sym \<Rightarrow> type_t \<Rightarrow> src_pos_t \<Rightarrow> 'a tree_st_scheme \<Rightarrow> 'a tree_st_scheme option"
where
  "declare_sym s t p st =
     (if declared_here st s then Some (error p ''duplicate identifier'' st)
      else
        let d = \<lparr>d_type = t, d_scope = cur_scope st, initialized = False, d_u = U_NULL\<rparr>;
            st = st\<lparr>sym_decl := (sym_decl st)(s := d # sym_decl st s)\<rparr>;
            st = grow_decls st
        in if (length (decls st) + 1) * sizeof_ptr \<le> decls_bytes st
           then Some (st\<lparr>decls := decls st @ [s]\<rparr>)
           else None)"

text \<open>
  Writes to the innermost declaration of a symbol: \<open>sym->decl->u = u\<close>,
  \<open>sym->decl->initialized = true\<close>.  \<open>sym->decl == NULL\<close> is \<open>None\<close>.
\<close>

definition update_decl ::
  "sym \<Rightarrow> (decl_t \<Rightarrow> decl_t) \<Rightarrow> 'a tree_st_scheme \<Rightarrow> 'a tree_st_scheme option"
where
  "update_decl s f st =
     (case sym_decl st s of
        [] \<Rightarrow> None
      | d # ds \<Rightarrow> Some (st\<lparr>sym_decl := (sym_decl st)(s := f d # ds)\<rparr>))"

definition set_initialized :: "sym \<Rightarrow> 'a tree_st_scheme \<Rightarrow> 'a tree_st_scheme option" where
  "set_initialized s = update_decl s (\<lambda>d. d\<lparr>initialized := True\<rparr>)"

definition set_decl_u :: "sym \<Rightarrow> decl_u \<Rightarrow> 'a tree_st_scheme \<Rightarrow> 'a tree_st_scheme option" where
  "set_decl_u s u = update_decl s (\<lambda>d. d\<lparr>d_u := u\<rparr>)"

end
