(* ===== verification/Decls_Correct.thy ===== *)
theory Decls_Correct
  imports Decls
begin

text \<open>
  The scopes of \<open>tree.c\<close> implement a stack of frames.  \<open>frame st k\<close> is the map from the
  symbols to their declarations in scope \<open>k\<close>, \<open>env st\<close> the list of the frames, the
  innermost first; \<open>scope_inv\<close> relates the three places where the code keeps this: the
  chains of the symbols, the array \<open>decls\<close> and the indices \<open>scopes\<close>.
\<close>

definition frame :: "'a tree_st_scheme \<Rightarrow> nat \<Rightarrow> sym \<Rightarrow> decl_t option" where
  "frame st k s = find (\<lambda>d. d_scope d = k) (sym_decl st s)"

definition env :: "'a tree_st_scheme \<Rightarrow> (sym \<rightharpoonup> decl_t) list" where
  "env st = map (frame st) (rev [0..<Suc (cur_scope st)])"

definition lookup :: "'a tree_st_scheme \<Rightarrow> sym \<Rightarrow> decl_t option" where
  \<comment> \<open>\<open>sym->decl\<close>\<close>
  "lookup st s = (case sym_decl st s of [] \<Rightarrow> None | d # ds \<Rightarrow> Some d)"

fun env_lookup :: "(sym \<rightharpoonup> 'd) list \<Rightarrow> sym \<Rightarrow> 'd option" where
  "env_lookup [] s = None"
| "env_lookup (f # fs) s = (case f s of Some d \<Rightarrow> Some d | None \<Rightarrow> env_lookup fs s)"

definition chain_ok :: "nat \<Rightarrow> decl_t list \<Rightarrow> bool" where
  "chain_ok k ds \<longleftrightarrow> sorted_wrt (\<lambda>d e. d_scope e < d_scope d) ds \<and> (\<forall>d \<in> set ds. d_scope d \<le> k)"

definition segs_ok :: "'a tree_st_scheme \<Rightarrow> sym list list \<Rightarrow> bool" where
  "segs_ok st segs \<longleftrightarrow> decls st = concat segs \<and> length segs = Suc (cur_scope st) \<and>
    (\<forall>k \<le> cur_scope st. scopes st ! k = length (concat (take k segs)) \<and> distinct (segs ! k) \<and>
      set (segs ! k) = dom (frame st k))"

definition scope_inv :: "'a tree_st_scheme \<Rightarrow> bool" where
  "scope_inv st \<longleftrightarrow> cur_scope st < MAX_SCOPES \<and> length (scopes st) = MAX_SCOPES \<and>
    (\<forall>s. chain_ok (cur_scope st) (sym_decl st s)) \<and> (\<exists>segs. segs_ok st segs) \<and>
    decls_size st = 1024 \<and> decls_bytes st = sizeof_ptr * 1024 \<and> length (decls st) \<le> 1024"

lemma segs_okD:
  assumes "segs_ok st segs" and "k \<le> cur_scope st"
  shows "scopes st ! k = length (concat (take k segs))" and "distinct (segs ! k)"
    and "set (segs ! k) = dom (frame st k)"
  using assms by (simp_all add: segs_ok_def)

subsection \<open>Chains\<close>

lemma find_None: "find P xs = None \<longleftrightarrow> (\<forall>x \<in> set xs. \<not> P x)"
  by (induction xs) auto

lemma chain_ok_Nil [simp]: "chain_ok k []"
  by (simp add: chain_ok_def)

lemma chain_ok_Cons [simp]:
  "chain_ok k (d # ds) \<longleftrightarrow> d_scope d \<le> k \<and> (\<forall>e \<in> set ds. d_scope e < d_scope d) \<and> chain_ok k ds"
  by (auto simp: chain_ok_def)

lemma chain_ok_mono: "chain_ok k ds \<Longrightarrow> k \<le> k' \<Longrightarrow> chain_ok k' ds"
  by (auto simp: chain_ok_def)

lemma chain_ok_tl: "chain_ok k (d # ds) \<Longrightarrow> d_scope d = k \<Longrightarrow> 0 < k \<Longrightarrow> chain_ok (k - 1) ds"
  by (force simp: chain_ok_def)

lemma chain_ok_hd:
  "chain_ok k ds \<Longrightarrow> find (\<lambda>d. d_scope d = k) ds = (case ds of [] \<Rightarrow> None | d # _ \<Rightarrow>
    if d_scope d = k then Some d else None)"
  by (cases ds) (auto simp: find_None)

lemma chain_lookup:
  "chain_ok n ds \<Longrightarrow>
    env_lookup (map (\<lambda>k s. find (\<lambda>d. d_scope d = k) (sd s)) (rev [0..<Suc n])) s =
      (case sd s of [] \<Rightarrow> None | d # _ \<Rightarrow> Some d)" if "ds = sd s"
  using that
proof (induction n arbitrary: ds)
  case 0
  then show ?case using chain_ok_hd[of 0 ds] by (auto split: list.splits if_splits)
next
  case (Suc n)
  show ?case
  proof (cases "find (\<lambda>d. d_scope d = Suc n) ds")
    case None
    then have "chain_ok n ds"
      using Suc.prems by (force simp: chain_ok_def find_None le_Suc_eq)
    then show ?thesis using Suc.IH[of ds] Suc.prems None by simp
  next
    case (Some d)
    then show ?thesis
      using Suc.prems chain_ok_hd[of "Suc n" ds] by (auto split: list.splits if_splits)
  qed
qed

subsection \<open>Operations\<close>

lemma env_nth: "env st = frame st (cur_scope st) # map (frame st) (rev [0..<cur_scope st])"
  by (simp add: env_def)

lemma declared_here_frame:
  assumes "scope_inv st"
  shows "declared_here st s \<longleftrightarrow> s \<in> dom (frame st (cur_scope st))"
proof -
  have "chain_ok (cur_scope st) (sym_decl st s)" using assms by (simp add: scope_inv_def)
  then show ?thesis
    using chain_ok_hd[of "cur_scope st" "sym_decl st s"]
    by (auto simp: declared_here_def frame_def split: list.splits if_splits)
qed

lemma lookup_env: "scope_inv st \<Longrightarrow> lookup st s = env_lookup (env st) s"
  using chain_lookup[of "sym_decl st s" "sym_decl st" s "cur_scope st"]
  by (simp add: lookup_def env_def frame_def[abs_def] scope_inv_def)

lemma push_scope_core:
  assumes "push_scope st = Some st'" and "scope_inv st"
  shows "scope_inv st' \<and> env st' = Map.empty # env st"
proof -
  obtain segs where segs: "segs_ok st segs" using assms(2) by (auto simp: scope_inv_def)
  have eq: "sym_decl st' = sym_decl st" "decls st' = decls st" "cur_scope st' = Suc (cur_scope st)"
    "scopes st' = (scopes st)[Suc (cur_scope st) := length (decls st)]"
    "Suc (cur_scope st) < MAX_SCOPES" "decls_size st' = decls_size st" "decls_bytes st' = decls_bytes st"
    using assms(1) by (auto simp: push_scope_def Let_def split: if_splits)
  have fr: "frame st' = frame st" by (simp add: frame_def[abs_def] eq fun_eq_iff)
  have top: "frame st (Suc (cur_scope st)) = Map.empty"
    using assms(2) by (fastforce simp: frame_def scope_inv_def chain_ok_def find_None fun_eq_iff)
  have "segs_ok st' (segs @ [[]])"
    using segs top assms(2) eq(5)
    by (auto simp: segs_ok_def eq fr le_Suc_eq nth_append scope_inv_def)
  then have "scope_inv st'"
    using assms(2) eq chain_ok_mono[of "cur_scope st" _ "Suc (cur_scope st)"]
    by (auto simp: scope_inv_def)
  then show ?thesis using fr top eq by (simp add: env_def)
qed

lemma pop_decls_ok:
  "distinct ss \<Longrightarrow> \<forall>s \<in> set ss. sd s \<noteq> [] \<Longrightarrow>
    pop_decls ss sd = Some (\<lambda>s. if s \<in> set ss then tl (sd s) else sd s)"
  by (induction ss arbitrary: sd) (auto split: list.splits simp: fun_eq_iff)

lemma pop_scope_core:
  assumes "scope_inv st" and "0 < cur_scope st"
  shows "\<exists>st'. pop_scope st = Some st' \<and> scope_inv st' \<and> env st' = tl (env st)"
proof -
  let ?c = "cur_scope st"
  obtain segs where segs: "segs_ok st segs" using assms(1) by (auto simp: scope_inv_def)
  then obtain ss last where sl: "segs = ss @ [last]" "length ss = ?c"
    by (cases segs rule: rev_cases) (auto simp: segs_ok_def)
  have last: "distinct last" "set last = dom (frame st ?c)" "scopes st ! ?c = length (concat ss)"
    "decls st = concat ss @ last"
    using segs sl unfolding segs_ok_def by (force simp: nth_append)+
  have ch: "chain_ok ?c (sym_decl st s)" for s using assms(1) by (simp add: scope_inv_def)
  have fr: "frame st ?c s = (case sym_decl st s of [] \<Rightarrow> None | d # _ \<Rightarrow>
      if d_scope d = ?c then Some d else None)" for s
    using chain_ok_hd[OF ch] by (simp add: frame_def)
  let ?sd = "\<lambda>s. if s \<in> set last then tl (sym_decl st s) else sym_decl st s"
  have pop: "pop_decls last (sym_decl st) = Some ?sd"
    using last fr by (intro pop_decls_ok) (auto split: list.splits)
  define st' where "st' = st\<lparr>sym_decl := ?sd, decls := concat ss, cur_scope := ?c - 1\<rparr>"
  have eval: "pop_scope st = Some st'"
    using assms(2) last pop by (simp add: pop_scope_def st'_def)
  have ch': "chain_ok (?c - 1) (?sd s)" for s
  proof (cases "sym_decl st s")
    case (Cons d ds)
    show ?thesis
    proof (cases "d_scope d = ?c")
      case True
      then show ?thesis using ch[of s] chain_ok_tl[of ?c d ds] Cons last(2) fr assms(2) by auto
    next
      case False
      then show ?thesis using ch[of s] Cons last(2) fr by (fastforce simp: chain_ok_def)
    qed
  qed simp
  have fr': "frame st' k = frame st k" if "k < ?c" for k
  proof
    fix s
    show "frame st' k s = frame st k s"
      using that last(2) fr[of s] by (auto simp: frame_def st'_def split: list.splits if_splits)
  qed
  have "scopes st ! k = length (concat (take k ss)) \<and> distinct (ss ! k) \<and>
      set (ss ! k) = dom (frame st' k)" if "k \<le> ?c - 1" for k
  proof -
    have "k < ?c" using that assms(2) by simp
    then have "segs ! k = ss ! k" "take k segs = take k ss" "k \<le> ?c"
      using sl by (simp_all add: nth_append)
    then show ?thesis using segs_okD[OF segs, of k] fr'[OF \<open>k < ?c\<close>] by simp
  qed
  then have "segs_ok st' ss"
    using sl assms(2) by (simp add: segs_ok_def st'_def)
  then have "scope_inv st'"
    using assms(1) ch' last(4) by (auto simp: scope_inv_def st'_def)
  moreover have "env st' = tl (env st)"
  proof -
    have "Suc (?c - 1) = ?c" using assms(2) by simp
    then show ?thesis using fr' by (simp add: env_def st'_def)
  qed
  ultimately show ?thesis using eval by blast
qed

lemma frame_declare:
  "frame (st\<lparr>sym_decl := (sym_decl st)(s := d # sym_decl st s)\<rparr>) k =
    (if d_scope d = k then (frame st k)(s \<mapsto> d) else frame st k)"
  by (auto simp: frame_def fun_eq_iff)

lemma declare_sym_core:
  assumes "declare_sym s t p st = Some st'" and "scope_inv st"
  shows "scope_inv st' \<and> tl (env st') = tl (env st) \<and>
    hd (env st') = (if s \<in> dom (hd (env st)) then hd (env st)
      else (hd (env st))(s \<mapsto> \<lparr>d_type = t, d_scope = cur_scope st, initialized = False, d_u = U_NULL\<rparr>))"
proof (cases "declared_here st s")
  case True
  then have "st' = error p ''duplicate identifier'' st"
    using assms(1) by (simp add: declare_sym_def)
  then have "scope_inv st' \<and> env st' = env st"
    using assms(2)
    by (simp add: scope_inv_def segs_ok_def env_def error_def frame_def[abs_def])
  moreover have "s \<in> dom (hd (env st))"
    using declared_here_frame[OF assms(2)] True by (simp add: env_nth)
  ultimately show ?thesis by simp
next
  case False
  let ?c = "cur_scope st"
  define d where "d = \<lparr>d_type = t, d_scope = ?c, initialized = False, d_u = U_NULL\<rparr>"
  have notin: "s \<notin> dom (frame st ?c)" using declared_here_frame[OF assms(2)] False by simp
  have sz: "decls_size st = 1024" "decls_bytes st = sizeof_ptr * 1024" "length (decls st) \<le> 1024"
    using assms(2) by (simp_all add: scope_inv_def)
  have "length (decls st) \<noteq> 1024"
    using assms(1) False sz
    by (auto simp: declare_sym_def grow_decls_def sizeof_ptr_def Let_def split: if_splits)
  then have st': "st' = st\<lparr>sym_decl := (sym_decl st)(s := d # sym_decl st s), decls := decls st @ [s]\<rparr>"
    and len: "length (decls st) < 1024"
    using assms(1) False sz
    by (auto simp: declare_sym_def grow_decls_def Let_def d_def split: if_splits)
  have ch: "chain_ok ?c (sym_decl st x)" for x using assms(2) by (simp add: scope_inv_def)
  have lt: "\<forall>e \<in> set (sym_decl st s). d_scope e < ?c"
    using ch[of s] False by (cases "sym_decl st s") (force simp: declared_here_def)+
  have fr: "frame st' k = (if k = ?c then (frame st k)(s \<mapsto> d) else frame st k)" for k
    using frame_declare[of st s d k] by (auto simp: frame_def fun_eq_iff st' d_def)
  obtain segs where segs: "segs_ok st segs" using assms(2) by (auto simp: scope_inv_def)
  then obtain ss la where sl: "segs = ss @ [la]" "length ss = ?c"
    by (cases segs rule: rev_cases) (auto simp: segs_ok_def)
  have la: "distinct la \<and> set la = dom (frame st ?c) \<and> scopes st ! ?c = length (concat ss) \<and>
      decls st = concat ss @ la"
    using segs sl unfolding segs_ok_def by (force simp: nth_append)
  have "scopes st' ! k = length (concat (take k (ss @ [la @ [s]]))) \<and>
      distinct ((ss @ [la @ [s]]) ! k) \<and> set ((ss @ [la @ [s]]) ! k) = dom (frame st' k)"
    if "k \<le> ?c" for k
  proof (cases "k = ?c")
    case True
    then show ?thesis using sl la notin fr[of k] by (auto simp: st' nth_append)
  next
    case False
    then have "segs ! k = ss ! k" "take k segs = take k ss" "k \<le> ?c"
      using sl that by (simp_all add: nth_append)
    moreover have "(ss @ [la @ [s]]) ! k = ss ! k" "take k (ss @ [la @ [s]]) = take k ss"
      using False sl that by (simp_all add: nth_append)
    ultimately show ?thesis using segs_okD[OF segs, of k] fr[of k] False by (simp add: st')
  qed
  then have "segs_ok st' (ss @ [la @ [s]])"
    using sl la by (simp add: segs_ok_def) (simp add: st')
  then have "scope_inv st'"
    using assms(2) ch lt len by (auto simp: scope_inv_def st' d_def)
  moreover have "env st' = (frame st ?c)(s \<mapsto> d) # tl (env st)"
    using fr by (simp add: env_nth) (simp add: st')
  ultimately show ?thesis using notin by (simp add: d_def) (simp add: env_nth d_def dom_def)
qed

lemma scope_inv_init: "scope_inv decl_init"
proof -
  have "segs_ok decl_init [[]]"
    by (auto simp: segs_ok_def decl_init_def frame_def MAX_SCOPES_def)
  then show ?thesis by (auto simp: scope_inv_def decl_init_def MAX_SCOPES_def)
qed

text \<open>Writes to a declaration do not touch the scopes.\<close>

lemma update_decl_frame:
  assumes "update_decl s f st = Some st'" and "\<And>d. d_scope (f d) = d_scope d"
  shows "dom (frame st' k) = dom (frame st k)" and "cur_scope st' = cur_scope st"
    and "decls st' = decls st" and "scopes st' = scopes st"
    and "map d_scope (sym_decl st' x) = map d_scope (sym_decl st x)"
proof -
  obtain d ds where d: "sym_decl st s = d # ds" "st' = st\<lparr>sym_decl := (sym_decl st)(s := f d # ds)\<rparr>"
    using assms(1) by (auto simp: update_decl_def split: list.splits)
  show "dom (frame st' k) = dom (frame st k)"
    using d assms(2) by (auto simp: frame_def split: if_splits)
  show "cur_scope st' = cur_scope st" "decls st' = decls st" "scopes st' = scopes st"
    "map d_scope (sym_decl st' x) = map d_scope (sym_decl st x)"
    using d assms(2) by simp_all
qed

lemma update_decl_inv:
  assumes "update_decl s f st = Some st'" and "\<And>d. d_scope (f d) = d_scope d" and "scope_inv st"
  shows "scope_inv st' \<and> map dom (env st') = map dom (env st)"
proof -
  note fr = update_decl_frame[OF assms(1,2)]
  have chains: "chain_ok k ds \<longleftrightarrow> sorted_wrt (>) (map d_scope ds) \<and> (\<forall>n \<in> set (map d_scope ds). n \<le> k)"
    for k ds by (simp add: chain_ok_def sorted_wrt_map)
  have "chain_ok k (sym_decl st' x) \<longleftrightarrow> chain_ok k (sym_decl st x)" for k x
    unfolding chains fr(5) ..
  moreover have "segs_ok st' segs = segs_ok st segs" for segs by (simp add: segs_ok_def fr)
  moreover have "decls_size st' = decls_size st" "decls_bytes st' = decls_bytes st"
    using assms(1) by (auto simp: update_decl_def split: list.splits)
  ultimately have "scope_inv st'" using assms(3) fr by (simp add: scope_inv_def)
  then show ?thesis using fr by (simp add: env_def)
qed

subsection \<open>The interface of the semantic check\<close>

locale scope_stack =
  fixes inv :: "'s \<Rightarrow> bool"
    and view :: "'s \<Rightarrow> (sym \<rightharpoonup> 'd) list"
    and push :: "'s \<Rightarrow> 's option"
    and pop :: "'s \<Rightarrow> 's option"
    and enter :: "sym \<Rightarrow> 'a \<Rightarrow> 's \<Rightarrow> 's option"
    and find_sym :: "'s \<Rightarrow> sym \<Rightarrow> 'd option"
  assumes view_nonempty: "view s \<noteq> []"
    and push_view: "push s = Some s' \<Longrightarrow> inv s \<Longrightarrow> inv s' \<and> view s' = Map.empty # view s"
    and pop_view: "inv s \<Longrightarrow> 1 < length (view s) \<Longrightarrow>
      \<exists>s'. pop s = Some s' \<and> inv s' \<and> view s' = tl (view s)"
    and enter_view: "enter x a s = Some s' \<Longrightarrow> inv s \<Longrightarrow>
      inv s' \<and> tl (view s') = tl (view s) \<and> dom (hd (view s')) = insert x (dom (hd (view s))) \<and>
      (\<forall>y \<in> dom (hd (view s)). hd (view s') y = hd (view s) y)"
    and find_view: "inv s \<Longrightarrow> find_sym s x = env_lookup (view s) x"
begin

fun enters :: "(sym \<times> 'a) list \<Rightarrow> 's \<Rightarrow> 's option" where
  "enters [] s = Some s"
| "enters ((x, a) # xs) s = do { s \<leftarrow> enter x a s; enters xs s }"

lemma enters_view:
  "enters xs s = Some s' \<Longrightarrow> inv s \<Longrightarrow>
    inv s' \<and> tl (view s') = tl (view s) \<and> dom (hd (view s')) = fst ` set xs \<union> dom (hd (view s))"
proof (induction xs arbitrary: s)
  case (Cons xa xs)
  obtain x a where xa: "xa = (x, a)" by (cases xa)
  obtain s1 where s1: "enter x a s = Some s1" "enters xs s1 = Some s'"
    using Cons.prems(1) xa by auto
  show ?case
    using Cons.IH[OF s1(2)] enter_view[OF s1(1) Cons.prems(2)] xa by auto
qed auto

lemma block_restores:
  assumes "inv s" "push s = Some s1" "enters xs s1 = Some s2"
  shows "\<exists>s3. pop s2 = Some s3 \<and> inv s3 \<and> view s3 = view s"
proof -
  have s2: "inv s2" "tl (view s2) = view s"
    using push_view[OF assms(2,1)] enters_view[OF assms(3)] by auto
  then have "1 < length (view s2)"
    using view_nonempty[of s] view_nonempty[of s2] by (cases "view s2") auto
  then show ?thesis using pop_view[OF s2(1)] s2(2) by auto
qed

lemma inner_hides:
  assumes "inv s" "push s = Some s1" "enters xs s1 = Some s2"
  shows "find_sym s2 x = (if x \<in> fst ` set xs then hd (view s2) x else find_sym s x)"
proof -
  have s2: "inv s2" "tl (view s2) = view s" "dom (hd (view s2)) = fst ` set xs"
    using push_view[OF assms(2,1)] enters_view[OF assms(3)] by auto
  then have "view s2 = hd (view s2) # view s" using view_nonempty[of s2] by (cases "view s2") auto
  then have *: "find_sym s2 x = env_lookup (hd (view s2) # view s) x"
    using find_view[OF s2(1), of x] by metis
  have "x \<in> fst ` set xs \<longleftrightarrow> hd (view s2) x \<noteq> None" using s2(3) by blast
  then show ?thesis
    unfolding * find_view[OF assms(1), of x] by (auto split: option.splits)
qed

end

definition enter_sym :: "sym \<Rightarrow> type_t \<times> src_pos_t \<Rightarrow> 'a tree_st_scheme \<Rightarrow> 'a tree_st_scheme option" where
  "enter_sym s tp st = declare_sym s (fst tp) (snd tp) st"

interpretation scp: scope_stack scope_inv env push_scope pop_scope enter_sym lookup
proof (unfold_locales, goal_cases)
  case (1 s)
  show ?case by (simp add: env_def)
next
  case (2 s s')
  then show ?case by (rule push_scope_core)
next
  case (3 s)
  then show ?case by (intro pop_scope_core) (simp_all add: env_def)
next
  case (4 x a s s')
  then show ?case
    using declare_sym_core[of x "fst a" "snd a" s s'] by (auto simp: enter_sym_def split: if_splits)
next
  case (5 s x)
  then show ?case by (rule lookup_env)
qed

fun declare_all :: "(sym \<times> type_t \<times> src_pos_t) list \<Rightarrow> 'a tree_st_scheme \<Rightarrow> 'a tree_st_scheme option" where
  "declare_all [] st = Some st"
| "declare_all ((s, t, p) # ds) st = do { st \<leftarrow> declare_sym s t p st; declare_all ds st }"

lemma declare_all_enters:
  "declare_all ds = (scp.enters ds :: 'a tree_st_scheme \<Rightarrow> 'a tree_st_scheme option)"
proof (induction ds)
  case (Cons d ds)
  obtain s t p where d: "d = (s, t, p)" by (cases d)
  have "declare_sym s t p = (enter_sym s (t, p) :: 'a tree_st_scheme \<Rightarrow> 'a tree_st_scheme option)"
    by (simp add: enter_sym_def fun_eq_iff)
  then have "declare_all (d # ds) st = scp.enters (d # ds) st" for st :: "'a tree_st_scheme"
    by (simp only: d declare_all.simps scp.enters.simps Cons.IH)
  then show ?case by blast
qed (simp add: fun_eq_iff)

text \<open>The first declaration of a symbol in a scope stays.\<close>

lemma declare_all_frame:
  assumes "declare_all ds st = Some st'" and "scope_inv st"
  shows "hd (env st') x = (case hd (env st) x of Some d \<Rightarrow> Some d
    | None \<Rightarrow> (case map_of ds x of
        Some (t, p) \<Rightarrow> Some \<lparr>d_type = t, d_scope = cur_scope st, initialized = False, d_u = U_NULL\<rparr> | None \<Rightarrow> None))"
  using assms
proof (induction ds arbitrary: st)
  case Nil
  then show ?case by (simp split: option.split)
next
  case (Cons d ds)
  obtain s t p where d: "d = (s, t, p)" by (cases d)
  obtain st1 where st1: "declare_sym s t p st = Some st1" "declare_all ds st1 = Some st'" using Cons.prems(1) d by auto
  note c = declare_sym_core[OF st1(1) Cons.prems(2)]
  have "cur_scope st1 = cur_scope st"
    using st1(1) by (auto simp: declare_sym_def error_def grow_decls_def Let_def split: if_splits)
  then show ?case
    using Cons.IH[OF st1(2)] c d by (cases "hd (env st) x") (auto simp: domIff split: option.splits if_splits)
qed

text \<open>
  C23: Declaring a symbol, as long as the array of declared symbols has no more than 1023 elements
  (see the overflow below), does not fail.  It refines the insertion into the innermost frame: it
  keeps the invariant and does not touch the outer frames.  If the symbol is already declared in
  this scope, the error "duplicate identifier" is reported and nothing else changes; otherwise the
  new declaration is added to the innermost frame and nothing is reported.
\<close>

theorem declare_sym_correct:
  assumes "scope_inv st" and "length (decls st) < 1024"
  shows "\<exists>st'. declare_sym s t p st = Some st' \<and> scope_inv st' \<and> tl (env st') = tl (env st) \<and>
    hd (env st') = (if s \<in> dom (hd (env st)) then hd (env st)
      else (hd (env st))(s \<mapsto> \<lparr>d_type = t, d_scope = cur_scope st, initialized = False, d_u = U_NULL\<rparr>)) \<and>
    errors st' = errors st @ (if s \<in> dom (hd (env st)) then [(line p, col p, ''duplicate identifier'')] else []) \<and>
    warnings st' = warnings st \<and> cur_scope st' = cur_scope st \<and>
    (s \<in> dom (hd (env st)) \<longrightarrow> st' = st\<lparr>errors := errors st'\<rparr>)"
proof -
  have d: "s \<in> dom (hd (env st)) \<longleftrightarrow> declared_here st s"
    using declared_here_frame[OF assms(1)] by (simp add: env_nth)
  obtain st' where st': "declare_sym s t p st = Some st'"
    using assms
    by (cases "declared_here st s")
      (auto simp: declare_sym_def grow_decls_def Let_def scope_inv_def sizeof_ptr_def)
  have "errors st' = errors st @ (if s \<in> dom (hd (env st)) then [(line p, col p, ''duplicate identifier'')] else []) \<and>
    warnings st' = warnings st \<and> cur_scope st' = cur_scope st \<and> (s \<in> dom (hd (env st)) \<longrightarrow> st' = st\<lparr>errors := errors st'\<rparr>)"
    using st' unfolding d
    by (auto simp: declare_sym_def error_def grow_decls_def Let_def split: if_splits)
  then show ?thesis using st' declare_sym_core[OF st' assms(1)] by blast
qed

text \<open>
  C13: Entering a scope, declaring any symbols and leaving the scope again never fails an
  assertion and gives back exactly the declarations that were visible before, in every frame.
\<close>

theorem scope_roundtrip:
  assumes "scope_inv st" and "push_scope st = Some st1" and "declare_all ds st1 = Some st2"
  shows "\<exists>st3. pop_scope st2 = Some st3 \<and> scope_inv st3 \<and> env st3 = env st"
  using scp.block_restores[OF assms(1,2)] assms(3) by (simp add: declare_all_enters)

text \<open>
  C26: Inside a scope a symbol that has been declared there is what its first declaration in this
  scope says, whatever it is outside; every other symbol is still what it was outside.  Closing
  the scope does not fail, and afterwards every symbol is again what it was before.
\<close>

theorem scope_hides:
  assumes "scope_inv st" and "push_scope st = Some st1" and "declare_all ds st1 = Some st2"
  shows "lookup st2 x = (case map_of ds x of
      Some (t, p) \<Rightarrow> Some \<lparr>d_type = t, d_scope = Suc (cur_scope st), initialized = False, d_u = U_NULL\<rparr>
    | None \<Rightarrow> lookup st x) \<and>
    (\<exists>st3. pop_scope st2 = Some st3 \<and> lookup st3 = lookup st)"
proof
  have inv1: "scope_inv st1" "env st1 = Map.empty # env st" using push_scope_core[OF assms(2,1)] by simp_all
  have cs: "cur_scope st1 = Suc (cur_scope st)" using assms(2) by (auto simp: push_scope_def Let_def split: if_splits)
  have l: "lookup st2 x = (if x \<in> fst ` set ds then hd (env st2) x else lookup st x)"
    using scp.inner_hides[OF assms(1,2), of ds st2 x] assms(3) by (simp add: declare_all_enters)
  have "hd (env st2) x = (case map_of ds x of
      Some (t, p) \<Rightarrow> Some \<lparr>d_type = t, d_scope = Suc (cur_scope st), initialized = False, d_u = U_NULL\<rparr> | None \<Rightarrow> None)"
    using declare_all_frame[OF assms(3) inv1(1), of x] inv1(2) cs by (simp split: option.splits)
  then show "lookup st2 x = (case map_of ds x of
      Some (t, p) \<Rightarrow> Some \<lparr>d_type = t, d_scope = Suc (cur_scope st), initialized = False, d_u = U_NULL\<rparr>
    | None \<Rightarrow> lookup st x)"
    using l map_of_eq_None_iff[of ds x] by (cases "map_of ds x") (auto split: if_splits dest: map_of_SomeD)
  obtain st3 where st3: "pop_scope st2 = Some st3" "scope_inv st3" "env st3 = env st"
    using scp.block_restores[OF assms(1,2)] assms(3) by (auto simp: declare_all_enters)
  then have "lookup st3 = lookup st" using lookup_env[OF st3(2)] lookup_env[OF assms(1)] by (simp add: fun_eq_iff)
  then show "\<exists>st3. pop_scope st2 = Some st3 \<and> lookup st3 = lookup st" using st3(1) by blast
qed

text \<open>
  C28: The array of declared symbols is reallocated to \<open>decls_size\<close> bytes instead of
  \<open>decls_size\<close> elements, so that declaring the 1025th symbol writes past its end; up to
  that point \<open>declare\<close> does not fail.
\<close>

theorem declare_overflow:
  assumes "scope_inv st" and "\<not> declared_here st s"
  shows "declare_sym s t p st = None \<longleftrightarrow> length (decls st) = 1024"
  using assms
  by (auto simp: declare_sym_def grow_decls_def Let_def scope_inv_def sizeof_ptr_def)

subsection \<open>Concrete runs\<close>

definition pos0 :: src_pos_t where "pos0 = \<lparr>line = 1, col = 1, len = 1\<rparr>"

lemma declare_sym_correct_witness:
  "\<exists>st' st''. declare_sym ''x'' type_int pos0 decl_init = Some st' \<and> ''x'' \<in> dom (hd (env st')) \<and> errors st' = [] \<and>
     declare_sym ''x'' type_int pos0 st' = Some st'' \<and> errors st'' = [(1, 1, ''duplicate identifier'')]"
proof -
  have e: "dom (hd (env decl_init)) = {}" "errors decl_init = []" "length (decls decl_init) < 1024"
    by (auto simp: env_def frame_def[abs_def] decl_init_def)
  obtain st' where st': "declare_sym ''x'' type_int pos0 decl_init = Some st'"
    and c: "scope_inv st'" "''x'' \<in> dom (hd (env st'))" "errors st' = []"
    using declare_sym_correct[OF scope_inv_init e(3), of "''x''" type_int pos0] e(1,2) by auto
  have "length (decls st') < 1024"
    using st' by (auto simp: declare_sym_def decl_init_def grow_decls_def declared_here_def sizeof_ptr_def error_def split: if_splits)
  from declare_sym_correct[OF c(1) this, of "''x''" type_int pos0] c obtain st'' where
    "declare_sym ''x'' type_int pos0 st' = Some st''" "errors st'' = [(1, 1, ''duplicate identifier'')]"
    by (auto simp: pos0_def)
  then show ?thesis using st' c by blast
qed

lemma scope_run:
  "\<exists>st1 st2. push_scope decl_init = Some st1 \<and> declare_all [(''x'', type_int, pos0)] st1 = Some st2"
  by (simp add: push_scope_def decl_init_def declare_sym_def grow_decls_def declared_here_def
      sizeof_ptr_def MAX_SCOPES_def)

lemma scope_roundtrip_witness:
  "\<exists>st1 st2 st3. push_scope decl_init = Some st1 \<and> declare_all [(''x'', type_int, pos0)] st1 = Some st2 \<and>
    pop_scope st2 = Some st3 \<and> env st3 = env decl_init"
  using scope_run scope_roundtrip[OF scope_inv_init] by metis

lemma scope_hides_witness:
  "\<exists>st1 st2 st3. push_scope decl_init = Some st1 \<and> declare_all [(''x'', type_int, pos0)] st1 = Some st2 \<and>
    lookup st2 ''x'' = Some \<lparr>d_type = type_int, d_scope = 1, initialized = False, d_u = U_NULL\<rparr> \<and>
    pop_scope st2 = Some st3 \<and> lookup st3 ''x'' = None"
proof -
  obtain st1 st2 where st: "push_scope decl_init = Some st1"
    "declare_all [(''x'', type_int, pos0)] st1 = Some st2"
    using scope_run by blast
  have "lookup decl_init ''x'' = None" "cur_scope decl_init = 0" by (simp_all add: lookup_def decl_init_def)
  then show ?thesis using st scope_hides[OF scope_inv_init st(1,2), of "''x''"] by auto
qed

lemma declare_overflow_witness: "declare_sym ''x'' type_int pos0 decl_init \<noteq> None"
proof -
  have "\<not> declared_here decl_init ''x''" by (simp add: declared_here_def decl_init_def)
  from declare_overflow[OF scope_inv_init this, of type_int pos0]
  show ?thesis by (simp add: decl_init_def)
qed

end
