(* ===== verification/Typecheck.thy ===== *)
theory Typecheck
  imports Decls_Correct
begin

text \<open>
  The type checker of \<open>src/src/tree.c\<close> (\<open>do_type_check\<close>, \<open>check_array_index\<close>,
  \<open>check_lvalue\<close>) and \<open>type_check\<close> of \<open>types.h\<close>.

  The code writes the \<open>type\<close> fields of the tree in place; the model returns the
  expression with these fields set, the C result \<open>ret\<close> and the state with the messages.
\<close>

type_synonym 'a checked = "(bool \<times> expr \<times> 'a tree_st_scheme) option"

text \<open>The last lines of \<open>do_type_check\<close>: one "type error" per expression.\<close>

definition type_error :: "bool \<Rightarrow> src_pos_t \<Rightarrow> 'a tree_st_scheme \<Rightarrow> 'a tree_st_scheme" where
  "type_error ret p st =
     (if \<not> suppress_type_errors st \<and> \<not> ret
      then (error p ''type error'' st)\<lparr>suppress_type_errors := True\<rparr> else st)"

definition suppressed_error :: "src_pos_t \<Rightarrow> string \<Rightarrow> 'a tree_st_scheme \<Rightarrow> 'a tree_st_scheme" where
  "suppressed_error p s st = (error p s st)\<lparr>suppress_type_errors := True\<rparr>"

text \<open>
  The inner switches: the type of the node from the common type of the operands of a binary
  node and from the type of the operand of a unary one, \<open>None\<close> where \<open>ret\<close> becomes 0.
\<close>

definition binary_type :: "node_type_t \<Rightarrow> type_t \<Rightarrow> type_t option" where
  "binary_type nt t =
     (if nt \<in> {NODE_OR, NODE_AND} then if t = type_boolean then Some type_boolean else None
      else if nt \<in> {NODE_ADD, NODE_SUB, NODE_DIV, NODE_MUL}
      then if t = type_int \<or> t = type_double then Some t else None
      else if nt = NODE_MOD then if t = type_int then Some t else None
      else if nt \<in> {NODE_GEQ, NODE_LEQ, NODE_GT, NODE_LT}
      then if t = type_int \<or> t = type_double then Some type_boolean else None
      else Some type_boolean)"

definition unary_type :: "node_type_t \<Rightarrow> type_t \<Rightarrow> type_t option" where
  "unary_type nt t =
     (case cons t of
        TYPE_INT \<Rightarrow> if nt \<noteq> NODE_NOT then Some t else None
      | TYPE_DOUBLE \<Rightarrow> if nt \<noteq> NODE_NOT then Some t else None
      | TYPE_BOOLEAN \<Rightarrow> if nt = NODE_NOT then Some t else None
      | _ \<Rightarrow> None)"

text \<open>The end of \<open>check_array_index\<close>, after \<open>type_check(index)\<close> has returned \<open>ret\<close>.\<close>

definition check_index_type ::
  "bool \<Rightarrow> expr \<Rightarrow> i32 \<Rightarrow> 'a tree_st_scheme \<Rightarrow> bool \<times> 'a tree_st_scheme"
where
  "check_index_type ret index n st =
     (if ret \<and> expr_type index = Some type_int then
        (True,
         case index of
           INT_NODE p t v \<Rightarrow>
             if v <s 0 \<or> n \<le>s v then warn p ''array index out of range'' st else st
         | _ \<Rightarrow> st)
      else (False, error (expr_pos index) ''bad array index'' st))"

fun do_type_check :: "expr \<Rightarrow> 'a tree_st_scheme \<Rightarrow> 'a checked"
  and check_array_index :: "expr \<Rightarrow> i32 \<Rightarrow> 'a tree_st_scheme \<Rightarrow> 'a checked"
  and check_args ::
    "(src_pos_t \<times> expr) list \<Rightarrow> type_t list \<Rightarrow> 'a tree_st_scheme \<Rightarrow>
      (bool \<times> (src_pos_t \<times> expr) list \<times> bool \<times> 'a tree_st_scheme) option"
where
  "do_type_check (BINARY nt p ty l r) st =
     (case ty of Some t \<Rightarrow> Some (True, BINARY nt p ty l r, st) | None \<Rightarrow>
        if nt \<notin> set binary_nodes then None
        else do {
          (ret, l, st) \<leftarrow> do_type_check l st;
          (if \<not> ret then Some (False, BINARY nt p None l r, type_error False p st)
           else do {
             (ret, r, st) \<leftarrow> do_type_check r st;
             t \<leftarrow> expr_type l;
             let ty = (if ret \<and> expr_type l = expr_type r then binary_type nt t else None)
             in Some (ty \<noteq> None, BINARY nt p ty l r, type_error (ty \<noteq> None) p st)
           })
        })"
| "do_type_check (UNARY nt p ty a) st =
     (case ty of Some t \<Rightarrow> Some (True, UNARY nt p ty a, st) | None \<Rightarrow>
        if nt \<notin> set unary_nodes then None
        else do {
          (ret, a, st) \<leftarrow> do_type_check a st;
          (if \<not> ret then Some (False, UNARY nt p None a, type_error False p st)
           else do {
             t \<leftarrow> expr_type a;
             let ty = unary_type nt t
             in Some (ty \<noteq> None, UNARY nt p ty a, type_error (ty \<noteq> None) p st)
           })
        })"
| "do_type_check (INT_NODE p ty v) st =
     Some (True, INT_NODE p (Some (case ty of None \<Rightarrow> type_int | Some t \<Rightarrow> t)) v, st)"
| "do_type_check (BOOL_NODE p ty v) st =
     Some (True, BOOL_NODE p (Some (case ty of None \<Rightarrow> type_boolean | Some t \<Rightarrow> t)) v, st)"
| "do_type_check (DOUBLE_NODE p ty v) st =
     Some (True, DOUBLE_NODE p (Some (case ty of None \<Rightarrow> type_double | Some t \<Rightarrow> t)) v, st)"
| "do_type_check (STR_NODE p ty v) st =
     Some (True, STR_NODE p (Some (case ty of None \<Rightarrow> type_str | Some t \<Rightarrow> t)) v, st)"
| "do_type_check (IDENT p ty s) st =
     (case ty of Some t \<Rightarrow> Some (True, IDENT p ty s, st) | None \<Rightarrow>
       (case lookup st s of
          Some d \<Rightarrow>
            Some (True, IDENT p (Some (d_type d)) s,
              if initialized d then st else error p ''using uninitialized variable'' st)
        | None \<Rightarrow> Some (False, IDENT p None s, suppressed_error p ''undefined identifier'' st)))"
| "do_type_check (ARRAY p ty s i) st =
     (case ty of Some t \<Rightarrow> Some (True, ARRAY p ty s i, st) | None \<Rightarrow>
       (case lookup st s of
          Some d \<Rightarrow>
            (case d_type d of
               array_type _ b n \<Rightarrow> do {
                 (ret, i, st) \<leftarrow> check_array_index i n st;
                 Some (ret, ARRAY p (Some b) s i, type_error ret p st)
               }
             | _ \<Rightarrow> None)
        | None \<Rightarrow> Some (False, ARRAY p None s i, suppressed_error p ''undefined identifier'' st)))"
| "do_type_check (CALL p ty s as) st =
     (case ty of Some t \<Rightarrow> Some (True, CALL p ty s as, st) | None \<Rightarrow>
       (case lookup st s of
          Some d \<Rightarrow>
            (case d_type d of
               func_type _ rt n ts \<Rightarrow> do {
                 (ret, as, left, st) \<leftarrow> check_args as ts st;
                 let st = (if left then suppressed_error p ''wrong number of arguments'' st else st);
                     ret = (ret \<and> \<not> left)
                 in Some (ret, CALL p (if ret then Some rt else None) s as, type_error ret p st)
               }
             | _ \<Rightarrow> Some (False, CALL p None s as, suppressed_error p ''not a function'' st))
        | None \<Rightarrow> Some (False, CALL p None s as, suppressed_error p ''undefined function'' st)))"
| "check_array_index i n st = do {
     (ret, i, st) \<leftarrow> do_type_check i (st\<lparr>suppress_type_errors := False\<rparr>);
     let (ret, st) = check_index_type ret i n st
     in Some (ret, i, st)
   }"
| "check_args ((q, a) # as) (t # ts) st = do {
     (ret, a, st) \<leftarrow> do_type_check a st;
     t' \<leftarrow> (if ret then expr_type a else Some t);
     (if ret \<and> type_equiv t' t
      then do {
        (ret, as, left, st) \<leftarrow> check_args as ts st;
        Some (ret, (q, a) # as, left, st)
      }
      else Some (False, (q, a) # as, as \<noteq> [] \<or> ts \<noteq> [],
             error q ''type error: wrong type of argument'' (st\<lparr>suppress_type_errors := True\<rparr>)))
   }"
| "check_args as ts st = Some (True, as, as \<noteq> [] \<or> ts \<noteq> [], st)"

definition type_check :: "expr \<Rightarrow> 'a tree_st_scheme \<Rightarrow> 'a checked" where
  "type_check e st = do_type_check e (st\<lparr>suppress_type_errors := False\<rparr>)"

text \<open>
  \<open>check_lvalue\<close>.  The assertion \<open>atype->cons == TYPE_ARRAY\<close> is the last \<open>None\<close>.
\<close>

definition check_lvalue :: "expr \<Rightarrow> 'a tree_st_scheme \<Rightarrow> 'a checked" where
  "check_lvalue e st =
     (case e of
        IDENT p ty s \<Rightarrow>
          (case lookup st s of
             Some d \<Rightarrow> do {
               st \<leftarrow> set_initialized s st;
               Some (True, IDENT p (Some (d_type d)) s, st)
             }
           | None \<Rightarrow> Some (False, e, error p ''undefined identifier'' st))
      | ARRAY p ty s i \<Rightarrow>
          (case lookup st s of
             Some d \<Rightarrow>
               (case d_type d of
                  array_type _ b n \<Rightarrow> do {
                    (ret, i, st) \<leftarrow> check_array_index i n st;
                    Some (ret, ARRAY p (Some b) s i, st)
                  }
                | _ \<Rightarrow> None)
           | None \<Rightarrow> Some (False, e, error p ''undefined identifier'' st))
      | _ \<Rightarrow> Some (False, e, error (expr_pos e) ''invalid lvalue'' st))"

end
