(* ===== verification/Typecheck_Correct.thy ===== *)
theory Typecheck_Correct
  imports Typecheck
begin

text \<open>
  The type checker against the typing rules of the language: \<open>has_type G e t\<close> is the
  declarative judgement for an expression without annotations, \<open>typed G e\<close> says that the
  annotations of a tree are what the rules give.
\<close>

subsection \<open>The rules\<close>

inductive has_type :: "(sym \<rightharpoonup> type_t) \<Rightarrow> expr \<Rightarrow> type_t \<Rightarrow> bool" for G where
  ht_int: "has_type G (INT_NODE p ty v) type_int"
| ht_bool: "has_type G (BOOL_NODE p ty v) type_boolean"
| ht_double: "has_type G (DOUBLE_NODE p ty d) type_double"
| ht_str: "has_type G (STR_NODE p ty w) type_str"
| ht_ident: "G s = Some t \<Longrightarrow> has_type G (IDENT p ty s) t"
| ht_array: "G s = Some (array_type q b n) \<Longrightarrow> has_type G i type_int \<Longrightarrow> has_type G (ARRAY p ty s i) b"
| ht_call: "G s = Some (func_type q rt n ts) \<Longrightarrow>
    list_all2 (\<lambda>a t. \<exists>t'. has_type G (snd a) t' \<and> type_equiv t' t) as ts \<Longrightarrow>
    has_type G (CALL p ty s as) rt"
| ht_logic: "nt \<in> {NODE_AND, NODE_OR} \<Longrightarrow> has_type G l type_boolean \<Longrightarrow> has_type G r type_boolean \<Longrightarrow>
    has_type G (BINARY nt p ty l r) type_boolean"
| ht_arith: "nt \<in> {NODE_ADD, NODE_SUB, NODE_MUL, NODE_DIV} \<Longrightarrow> t \<in> {type_int, type_double} \<Longrightarrow>
    has_type G l t \<Longrightarrow> has_type G r t \<Longrightarrow> has_type G (BINARY nt p ty l r) t"
| ht_mod: "has_type G l type_int \<Longrightarrow> has_type G r type_int \<Longrightarrow>
    has_type G (BINARY NODE_MOD p ty l r) type_int"
| ht_order: "nt \<in> {NODE_LT, NODE_GT, NODE_LEQ, NODE_GEQ} \<Longrightarrow> t \<in> {type_int, type_double} \<Longrightarrow>
    has_type G l t \<Longrightarrow> has_type G r t \<Longrightarrow> has_type G (BINARY nt p ty l r) type_boolean"
| ht_eq: "nt \<in> {NODE_EQ, NODE_NEQ} \<Longrightarrow> has_type G l t \<Longrightarrow> has_type G r t \<Longrightarrow>
    has_type G (BINARY nt p ty l r) type_boolean"
| ht_sign: "nt \<in> {NODE_NEG, NODE_PLUS} \<Longrightarrow> t \<in> {type_int, type_double} \<Longrightarrow> has_type G a t \<Longrightarrow>
    has_type G (UNARY nt p ty a) t"
| ht_not: "has_type G a type_boolean \<Longrightarrow> has_type G (UNARY NODE_NOT p ty a) type_boolean"
monos list_all2_mono

inductive_cases has_type_binaryE: "has_type G (BINARY nt p ty l r) t"
inductive_cases has_type_unaryE: "has_type G (UNARY nt p ty a) t"
inductive_simps has_type_simps [simp]:
  "has_type G (IDENT p ty s) t" "has_type G (ARRAY p ty s i) t" "has_type G (CALL p ty s as) t"
  "has_type G (INT_NODE p ty v) t" "has_type G (BOOL_NODE p ty v) t"
  "has_type G (DOUBLE_NODE p ty d) t" "has_type G (STR_NODE p ty w) t"

lemma binary_type_cases:
  "binary_type nt t = Some t' \<longleftrightarrow>
    (if nt \<in> {NODE_OR, NODE_AND} then t = type_boolean \<and> t' = type_boolean
     else if nt \<in> {NODE_ADD, NODE_SUB, NODE_DIV, NODE_MUL} then t \<in> {type_int, type_double} \<and> t' = t
     else if nt = NODE_MOD then t = type_int \<and> t' = type_int
     else if nt \<in> {NODE_GEQ, NODE_LEQ, NODE_GT, NODE_LT} then t \<in> {type_int, type_double} \<and> t' = type_boolean
     else t' = type_boolean)"
  unfolding binary_type_def by (simp split: if_split) blast

lemma has_type_binary:
  assumes "nt \<in> set binary_nodes"
  shows "has_type G (BINARY nt p ty l r) t' \<longleftrightarrow>
    (\<exists>t. has_type G l t \<and> has_type G r t \<and> binary_type nt t = Some t')"
proof
  assume "has_type G (BINARY nt p ty l r) t'"
  then show "\<exists>t. has_type G l t \<and> has_type G r t \<and> binary_type nt t = Some t'"
    by (rule has_type_binaryE) (auto simp: binary_type_cases)
next
  assume "\<exists>t. has_type G l t \<and> has_type G r t \<and> binary_type nt t = Some t'"
  then obtain t where t: "has_type G l t" "has_type G r t" "binary_type nt t = Some t'" by blast
  consider "nt \<in> {NODE_AND, NODE_OR}" | "nt \<in> {NODE_ADD, NODE_SUB, NODE_MUL, NODE_DIV}"
    | "nt = NODE_MOD" | "nt \<in> {NODE_LT, NODE_GT, NODE_LEQ, NODE_GEQ}" | "nt \<in> {NODE_EQ, NODE_NEQ}"
    using assms by (simp add: binary_nodes_def) blast
  then show "has_type G (BINARY nt p ty l r) t'"
  proof cases
    case 1
    then show ?thesis using t by (auto simp: binary_type_cases intro: ht_logic)
  next
    case 2
    then have "t \<in> {type_int, type_double}" "t' = t" using t(3) by (auto simp: binary_type_cases)
    then show ?thesis using ht_arith[OF 2 _ t(1,2)] by simp
  next
    case 3
    then show ?thesis using t by (auto simp: binary_type_cases intro: ht_mod)
  next
    case 4
    then have "t \<in> {type_int, type_double}" "t' = type_boolean" using t(3) by (auto simp: binary_type_cases)
    then show ?thesis using ht_order[OF 4 _ t(1,2)] by simp
  next
    case 5
    then have "t' = type_boolean" using t(3) by (auto simp: binary_type_cases)
    then show ?thesis using ht_eq[OF 5 t(1,2)] by simp
  qed
qed

lemma unary_type_cases:
  "unary_type nt t = Some t' \<longleftrightarrow>
    t' = t \<and> (if nt = NODE_NOT then t = type_boolean else t \<in> {type_int, type_double})"
  by (cases t) (auto simp: unary_type_def)

lemma has_type_unary:
  assumes "nt \<in> set unary_nodes"
  shows "has_type G (UNARY nt p ty a) t' \<longleftrightarrow> (\<exists>t. has_type G a t \<and> unary_type nt t = Some t')"
proof
  assume "has_type G (UNARY nt p ty a) t'"
  then show "\<exists>t. has_type G a t \<and> unary_type nt t = Some t'"
    by (rule has_type_unaryE) (auto simp: unary_type_cases)
next
  assume "\<exists>t. has_type G a t \<and> unary_type nt t = Some t'"
  then show "has_type G (UNARY nt p ty a) t'"
    using assms ht_not[of G a] ht_sign[of nt t' G a p ty]
    by (cases "nt = NODE_NOT") (auto simp: unary_type_cases unary_nodes_def)
qed

lemma has_type_unique: "has_type G e t \<Longrightarrow> has_type G e t' \<Longrightarrow> t' = t"
proof (induction arbitrary: t' rule: has_type.induct)
  case (ht_ident s t p ty)
  then show ?case by auto
next
  case (ht_array s q b n i p ty)
  then show ?case by auto
next
  case (ht_call s q rt n ts as p ty)
  then show ?case by (auto simp del: list_all2_conv_all_nth)
next
  case (ht_logic nt l r p ty)
  have "nt \<in> set binary_nodes" using ht_logic.hyps by (auto simp: binary_nodes_def)
  then show ?case using ht_logic by (auto simp: has_type_binary binary_type_cases)
next
  case (ht_arith nt t l r p ty)
  have "nt \<in> set binary_nodes" using ht_arith.hyps by (auto simp: binary_nodes_def)
  then obtain u where "has_type G l u" "binary_type nt u = Some t'"
    using ht_arith.prems by (auto simp: has_type_binary)
  then show ?case using ht_arith.IH(1)[of u] ht_arith.hyps(1) by (auto simp: binary_type_cases)
next
  case (ht_mod l r p ty)
  have "NODE_MOD \<in> set binary_nodes" by (auto simp: binary_nodes_def)
  then show ?case using ht_mod by (auto simp: has_type_binary binary_type_cases)
next
  case (ht_order nt t l r p ty)
  have "nt \<in> set binary_nodes" using ht_order.hyps by (auto simp: binary_nodes_def)
  then obtain u where "binary_type nt u = Some t'"
    using ht_order.prems by (auto simp: has_type_binary)
  then show ?case using ht_order.hyps(1) by (auto simp: binary_type_cases)
next
  case (ht_eq nt l t r p ty)
  have "nt \<in> set binary_nodes" using ht_eq.hyps by (auto simp: binary_nodes_def)
  then obtain u where "binary_type nt u = Some t'"
    using ht_eq.prems by (auto simp: has_type_binary)
  then show ?case using ht_eq.hyps(1) by (auto simp: binary_type_cases)
next
  case (ht_sign nt t a p ty)
  have "nt \<in> set unary_nodes" using ht_sign.hyps by (auto simp: unary_nodes_def)
  then obtain u where "has_type G a u" "unary_type nt u = Some t'"
    using ht_sign.prems by (auto simp: has_type_unary)
  then show ?case using ht_sign.IH[of u] by (simp add: unary_type_cases)
next
  case (ht_not a p ty)
  have "NODE_NOT \<in> set unary_nodes" by (auto simp: unary_nodes_def)
  then show ?case using ht_not by (auto simp: has_type_unary unary_type_cases)
qed simp_all

subsection \<open>Annotated trees\<close>

fun typed :: "(sym \<rightharpoonup> type_t) \<Rightarrow> expr \<Rightarrow> bool" where
  "typed G (BINARY nt p ty l r) \<longleftrightarrow> nt \<in> set binary_nodes \<and> typed G l \<and> typed G r \<and>
     expr_type l = expr_type r \<and> ty \<noteq> None \<and> Option.bind (expr_type l) (binary_type nt) = ty"
| "typed G (UNARY nt p ty a) \<longleftrightarrow> nt \<in> set unary_nodes \<and> typed G a \<and>
     ty \<noteq> None \<and> Option.bind (expr_type a) (unary_type nt) = ty"
| "typed G (INT_NODE p ty v) \<longleftrightarrow> ty = Some type_int"
| "typed G (BOOL_NODE p ty v) \<longleftrightarrow> ty = Some type_boolean"
| "typed G (DOUBLE_NODE p ty v) \<longleftrightarrow> ty = Some type_double"
| "typed G (STR_NODE p ty v) \<longleftrightarrow> ty = Some type_str"
| "typed G (IDENT p ty s) \<longleftrightarrow> ty \<noteq> None \<and> ty = G s"
| "typed G (ARRAY p ty s i) \<longleftrightarrow> typed G i \<and> expr_type i = Some type_int \<and>
     (case G s of Some (array_type q b n) \<Rightarrow> ty = Some b | _ \<Rightarrow> False)"
| "typed G (CALL p ty s as) \<longleftrightarrow> (\<forall>a \<in> set as. typed G (snd a)) \<and>
     (case G s of Some (func_type q rt n ts) \<Rightarrow> ty = Some rt \<and>
        list_all2 (\<lambda>a t. \<exists>t'. expr_type (snd a) = Some t' \<and> type_equiv t' t) as ts
      | _ \<Rightarrow> False)"

text \<open>The tree without its annotations.\<close>

fun erase :: "expr \<Rightarrow> expr" where
  "erase (BINARY nt p ty l r) = BINARY nt p None (erase l) (erase r)"
| "erase (UNARY nt p ty a) = UNARY nt p None (erase a)"
| "erase (INT_NODE p ty v) = INT_NODE p None v"
| "erase (BOOL_NODE p ty v) = BOOL_NODE p None v"
| "erase (DOUBLE_NODE p ty v) = DOUBLE_NODE p None v"
| "erase (STR_NODE p ty v) = STR_NODE p None v"
| "erase (IDENT p ty s) = IDENT p None s"
| "erase (ARRAY p ty s i) = ARRAY p None s (erase i)"
| "erase (CALL p ty s as) = CALL p None s (map (\<lambda>a. (fst a, erase (snd a))) as)"

text \<open>The uses of variables that have not been initialized.\<close>

fun uninit_uses :: "'a tree_st_scheme \<Rightarrow> expr \<Rightarrow> nat" where
  "uninit_uses st (BINARY nt p ty l r) = uninit_uses st l + uninit_uses st r"
| "uninit_uses st (UNARY nt p ty a) = uninit_uses st a"
| "uninit_uses st (IDENT p ty s) =
     (case lookup st s of Some d \<Rightarrow> if initialized d then 0 else 1 | None \<Rightarrow> 0)"
| "uninit_uses st (ARRAY p ty s i) = uninit_uses st i"
| "uninit_uses st (CALL p ty s as) = (\<Sum>a\<leftarrow>as. uninit_uses st (snd a))"
| "uninit_uses st e = 0"

subsection \<open>The messages are the only part of the state that changes\<close>

definition decl_part :: "'a tree_st_scheme \<Rightarrow> 'a tree_st_scheme" where
  "decl_part st = st\<lparr>errors := [], warnings := [], suppress_type_errors := False\<rparr>"

lemma decl_part_simps [simp]:
  "decl_part (error p s st) = decl_part st" "decl_part (warn p s st) = decl_part st"
  "decl_part (type_error ret p st) = decl_part st" "decl_part (suppressed_error p s st) = decl_part st"
  "decl_part (st\<lparr>suppress_type_errors := b\<rparr>) = decl_part st"
  by (simp_all add: decl_part_def error_def warn_def type_error_def suppressed_error_def)

lemma decl_part_eq:
  assumes "decl_part st' = decl_part st"
  shows "sym_decl st' = sym_decl st" "decls st' = decls st" "scopes st' = scopes st"
    "cur_scope st' = cur_scope st" "decls_size st' = decls_size st" "decls_bytes st' = decls_bytes st"
    "type_next st' = type_next st"
  using arg_cong[OF assms, of sym_decl] arg_cong[OF assms, of decls] arg_cong[OF assms, of scopes]
    arg_cong[OF assms, of cur_scope] arg_cong[OF assms, of decls_size]
    arg_cong[OF assms, of decls_bytes] arg_cong[OF assms, of type_next]
  by (simp_all add: decl_part_def)

lemma decl_part_lookup: "decl_part st' = decl_part st \<Longrightarrow> lookup st' = lookup st"
  using decl_part_eq(1) by (fastforce simp: lookup_def[abs_def])

lemma decl_part_uninit:
  "decl_part st' = decl_part st \<Longrightarrow> uninit_uses st' e = uninit_uses st e"
proof (induction e)
  case (CALL p ty s as)
  then have "map (\<lambda>a. uninit_uses st' (snd a)) as = map (\<lambda>a. uninit_uses st (snd a)) as"
    by (auto simp: snds.simps)
  then show ?case by (simp only: uninit_uses.simps)
qed (simp_all add: decl_part_lookup[of st' st])

definition types_of :: "'a tree_st_scheme \<Rightarrow> sym \<rightharpoonup> type_t" where
  "types_of st s = map_option d_type (lookup st s)"

lemma decl_part_types: "decl_part st' = decl_part st \<Longrightarrow> types_of st' = types_of st"
  using decl_part_lookup[of st' st] by (simp add: types_of_def fun_eq_iff)

subsection \<open>The checker follows the rules\<close>

definition check_post ::
  "'a tree_st_scheme \<Rightarrow> expr \<Rightarrow> bool \<Rightarrow> expr \<Rightarrow> 'a tree_st_scheme \<Rightarrow> bool"
where
  "check_post st e ret e' st' \<longleftrightarrow>
    decl_part st' = decl_part st \<and> erase e' = erase e \<and> errors_num st \<le> errors_num st' \<and>
    (ret \<longleftrightarrow> (\<exists>t. has_type (types_of st) e t)) \<and>
    (ret \<longrightarrow> typed (types_of st) e' \<and> (\<exists>t. expr_type e' = Some t \<and> has_type (types_of st) e t) \<and>
       errors_num st' = errors_num st + uninit_uses st e \<and>
       (suppress_type_errors st' \<longrightarrow> suppress_type_errors st)) \<and>
    (\<not> ret \<longrightarrow> suppress_type_errors st' \<and>
       (suppress_type_errors st \<or> errors_num st < errors_num st'))"

abbreviation arg_ok :: "(sym \<rightharpoonup> type_t) \<Rightarrow> src_pos_t \<times> expr \<Rightarrow> type_t \<Rightarrow> bool" where
  "arg_ok G a t \<equiv> \<exists>t'. has_type G (snd a) t' \<and> type_equiv t' t"

abbreviation arg_annot :: "src_pos_t \<times> expr \<Rightarrow> type_t \<Rightarrow> bool" where
  "arg_annot a t \<equiv> \<exists>t'. expr_type (snd a) = Some t' \<and> type_equiv t' t"

definition args_post ::
  "'a tree_st_scheme \<Rightarrow> (src_pos_t \<times> expr) list \<Rightarrow> type_t list \<Rightarrow> bool \<Rightarrow>
    (src_pos_t \<times> expr) list \<Rightarrow> bool \<Rightarrow> 'a tree_st_scheme \<Rightarrow> bool"
where
  "args_post st as ts ret as' left st' \<longleftrightarrow>
    decl_part st' = decl_part st \<and> errors_num st \<le> errors_num st' \<and>
    map (\<lambda>a. (fst a, erase (snd a))) as' = map (\<lambda>a. (fst a, erase (snd a))) as \<and>
    (ret \<and> \<not> left \<longleftrightarrow> list_all2 (arg_ok (types_of st)) as ts) \<and>
    (ret \<and> \<not> left \<longrightarrow> (\<forall>a \<in> set as'. typed (types_of st) (snd a)) \<and> list_all2 arg_annot as' ts \<and>
       errors_num st' = errors_num st + (\<Sum>a\<leftarrow>as. uninit_uses st (snd a)) \<and>
       (suppress_type_errors st' \<longrightarrow> suppress_type_errors st)) \<and>
    (\<not> ret \<longrightarrow> suppress_type_errors st' \<and> errors_num st < errors_num st')"

lemma errors_num_simps [simp]:
  "errors_num (error p s st) = Suc (errors_num st)" "errors_num (warn p s st) = errors_num st"
  "errors_num (suppressed_error p s st) = Suc (errors_num st)"
  "errors_num (st\<lparr>suppress_type_errors := b\<rparr>) = errors_num st"
  "errors_num (type_error ret p st) =
    (if suppress_type_errors st \<or> ret then errors_num st else Suc (errors_num st))"
  by (simp_all add: errors_num_def error_def warn_def suppressed_error_def type_error_def)

lemma suppress_simps [simp]:
  "suppress_type_errors (error p s st) = suppress_type_errors st"
  "suppress_type_errors (warn p s st) = suppress_type_errors st"
  "suppress_type_errors (suppressed_error p s st)"
  "suppress_type_errors (type_error ret p st) \<longleftrightarrow> suppress_type_errors st \<or> \<not> ret"
  by (simp_all add: error_def warn_def suppressed_error_def type_error_def)

lemma check_index_type_spec:
  "\<exists>st'. check_index_type ret i n st = (ret \<and> expr_type i = Some type_int, st') \<and>
    decl_part st' = decl_part st \<and> suppress_type_errors st' = suppress_type_errors st \<and>
    errors_num st' = errors_num st + (if ret \<and> expr_type i = Some type_int then 0 else 1)"
  by (cases i) (auto simp: check_index_type_def)

lemma check_postD:
  assumes "check_post st e ret e' st'"
  shows "decl_part st' = decl_part st" "types_of st' = types_of st" "erase e' = erase e"
    "uninit_uses st' e2 = uninit_uses st e2"
  using assms decl_part_types[of st' st] decl_part_uninit[of st' st e2] by (auto simp: check_post_def)

lemma binary_post:
  assumes l: "check_post st l True l' st1" and r: "check_post st1 r ret r' st2"
    and nt: "nt \<in> set binary_nodes" and t: "expr_type l' = Some t"
    and ty: "ty = (if ret \<and> expr_type l' = expr_type r' then binary_type nt t else None)"
  shows "check_post st (BINARY nt p None l r) (ty \<noteq> None) (BINARY nt p ty l' r')
    (type_error (ty \<noteq> None) p st2)"
proof -
  have lt: "has_type (types_of st) l u \<longleftrightarrow> u = t" for u
    using l t has_type_unique by (auto simp: check_post_def)
  have rt: "has_type (types_of st) r u \<longleftrightarrow> ret \<and> expr_type r' = Some u" for u
    using r check_postD(2)[OF l] has_type_unique[of "types_of st" r] by (auto simp: check_post_def)
  have "(ty \<noteq> None) \<longleftrightarrow> (\<exists>u. has_type (types_of st) (BINARY nt p None l r) u)"
    "ty = Some u \<Longrightarrow> has_type (types_of st) (BINARY nt p None l r) u" for u
    using t by (auto simp: has_type_binary[OF nt] lt rt ty split: if_splits)
  moreover have "ty \<noteq> None \<Longrightarrow> ret \<and> expr_type r' = expr_type l' \<and> binary_type nt t = ty"
    by (auto simp: ty split: if_splits)
  ultimately show ?thesis
    using l r nt t check_postD[OF l] by (auto simp: check_post_def)
qed

lemma binary_left_fails:
  assumes "check_post st l False l' st1" and "nt \<in> set binary_nodes"
  shows "check_post st (BINARY nt p None l r) False (BINARY nt p None l' r) (type_error False p st1)"
  using assms by (auto simp: check_post_def has_type_binary)

lemma unary_post:
  assumes a: "check_post st a ret a' st1" and nt: "nt \<in> set unary_nodes"
    and ty: "ty = (if ret then Option.bind (expr_type a') (unary_type nt) else None)"
  shows "check_post st (UNARY nt p None a) (ty \<noteq> None) (UNARY nt p ty a') (type_error (ty \<noteq> None) p st1)"
proof -
  have at: "has_type (types_of st) a u \<longleftrightarrow> ret \<and> expr_type a' = Some u" for u
    using a has_type_unique[of "types_of st" a] by (auto simp: check_post_def)
  have "has_type (types_of st) (UNARY nt p None a) u \<longleftrightarrow> ty = Some u" for u
    by (auto simp: has_type_unary[OF nt] at ty)
  moreover have "ty \<noteq> None \<Longrightarrow> ret \<and> Option.bind (expr_type a') (unary_type nt) = ty"
    by (auto simp: ty split: if_splits)
  ultimately show ?thesis using a nt by (auto simp: check_post_def)
qed

lemma ident_post:
  assumes "do_type_check (IDENT p None s) st = Some (ret, e', st')"
  shows "check_post st (IDENT p None s) ret e' st'"
  using assms by (cases "lookup st s") (auto simp: check_post_def types_of_def intro: has_type.intros)

lemma array_post:
  assumes i: "check_post (st\<lparr>suppress_type_errors := False\<rparr>) i r i' st1"
    and d: "lookup st s = Some d" "d_type d = array_type q b n"
    and c: "check_index_type r i' n st1 = (ret, st2)"
  shows "check_post st (ARRAY p None s i) ret (ARRAY p (Some b) s i') (type_error ret p st2)"
proof -
  have ty: "types_of (st\<lparr>suppress_type_errors := False\<rparr>) = types_of st"
    "uninit_uses (st\<lparr>suppress_type_errors := False\<rparr>) i = uninit_uses st i"
    by (rule decl_part_types decl_part_uninit, simp)+
  have G: "types_of st s = Some (array_type q b n)" using d by (simp add: types_of_def)
  have "has_type (types_of st) (ARRAY p None s i) u \<longleftrightarrow> u = b \<and> has_type (types_of st) i type_int" for u
    using G by (auto intro: ht_array)
  moreover have "ret \<longleftrightarrow> has_type (types_of st) i type_int"
    using check_index_type_spec[of r i' n st1] c i ty has_type_unique[of "types_of st" i]
    by (auto simp: check_post_def)
  ultimately show ?thesis
    using check_index_type_spec[of r i' n st1] c i ty G by (auto simp: check_post_def)
qed

lemma call_post:
  assumes "args_post st as ts r as' left st1"
    and "lookup st s = Some d" "d_type d = func_type q rt n ts"
  shows "check_post st (CALL p None s as) (r \<and> \<not> left)
    (CALL p (if r \<and> \<not> left then Some rt else None) s as')
    (type_error (r \<and> \<not> left) p
      (if left then suppressed_error p ''wrong number of arguments'' st1 else st1))"
proof -
  have G: "types_of st s = Some (func_type q rt n ts)" using assms by (simp add: types_of_def)
  have "has_type (types_of st) (CALL p None s as) u \<longleftrightarrow>
      u = rt \<and> list_all2 (arg_ok (types_of st)) as ts" for u
    using G by (auto intro: ht_call)
  then show ?thesis using assms(1) G by (auto simp: check_post_def args_post_def)
qed

lemma args_step:
  assumes a: "check_post st a True a' st1" and t: "expr_type a' = Some t'" "type_equiv t' t"
    and as: "args_post st1 as ts ret as' left st2"
  shows "args_post st ((q, a) # as) (t # ts) ret ((q, a') # as') left st2"
proof -
  note d = check_postD[OF a]
  have "arg_ok (types_of st) (q, a) t" using a t by (auto simp: check_post_def)
  moreover have "(\<Sum>x\<leftarrow>as. uninit_uses st1 (snd x)) = (\<Sum>x\<leftarrow>as. uninit_uses st (snd x))"
    by (simp add: d(4))
  ultimately show ?thesis using a as t d by (auto simp: check_post_def args_post_def)
qed

lemma args_fail:
  assumes a: "check_post st a ret a' st1" and t: "ret \<Longrightarrow> \<exists>t'. expr_type a' = Some t' \<and> \<not> type_equiv t' t"
  shows "args_post st ((q, a) # as) (t # ts) False ((q, a') # as) left
    (error q s (st1\<lparr>suppress_type_errors := True\<rparr>))"
proof -
  have "\<not> arg_ok (types_of st) (q, a) t"
    using a t has_type_unique[of "types_of st" a] by (fastforce simp: check_post_def)
  then show ?thesis using a by (auto simp: check_post_def args_post_def)
qed

lemma do_type_check_post:
  shows "untyped e \<Longrightarrow> do_type_check e st = Some (ret, e', st') \<Longrightarrow> check_post st e ret e' st'"
    and "untyped i \<Longrightarrow> check_array_index i n st = Some (r, i', st2) \<Longrightarrow>
      \<exists>ri st1. check_post (st\<lparr>suppress_type_errors := False\<rparr>) i ri i' st1 \<and>
        check_index_type ri i' n st1 = (r, st2)"
    and "\<forall>a \<in> set as. untyped (snd a) \<Longrightarrow> check_args as ts st = Some (ra, as', left, st3) \<Longrightarrow>
      args_post st as ts ra as' left st3"
proof (induction e st and i n st and as ts st arbitrary: ret e' st' and r i' st2 and ra as' left st3
    rule: do_type_check_check_array_index_check_args.induct)
  case (1 nt p ty l r st)
  have ty: "ty = None" "untyped l" "untyped r" using 1(3) by auto
  have nt: "nt \<in> set binary_nodes" using 1(4) ty by (auto split: if_splits)
  obtain rl l' st1 where l: "do_type_check l st = Some (rl, l', st1)"
    using 1(4) ty nt by auto
  note pl = 1(1)[OF ty(1) _ ty(2) l] nt
  show ?case
  proof (cases rl)
    case False
    then show ?thesis using 1(4) ty nt l pl binary_left_fails[of st l l' st1 nt p r] by auto
  next
    case True
    obtain rr r' st2 t where r: "do_type_check r st1 = Some (rr, r', st2)" "expr_type l' = Some t"
      using 1(4) ty nt l True by (auto simp: Let_def)
    have "check_post st1 r rr r' st2"
      using 1(2)[OF ty(1) _ l _ _ _ ty(3) r(1)] nt True by auto
    then show ?thesis
      using binary_post[of st l l' st1 r rr r' st2 nt t _ p] 1(4) ty nt l pl True r
      by (auto simp: Let_def)
  qed
next
  case (2 nt p ty a st)
  have ty: "ty = None" "untyped a" using 2(2) by auto
  have nt: "nt \<in> set unary_nodes" using 2(3) ty by (auto split: if_splits)
  obtain ra a' st1 where a: "do_type_check a st = Some (ra, a', st1)"
    using 2(3) ty nt by auto
  have "check_post st a ra a' st1" using 2(1)[OF ty(1) _ ty(2) a] nt by simp
  then show ?case
    using unary_post[of st a ra a' st1 nt _ p] 2(3) ty nt a by (cases ra) (auto simp: Let_def)
next
  case (7 p ty s st)
  then show ?case using ident_post[of p s st] by auto
next
  case (8 p ty s i st)
  have ty: "ty = None" "untyped i" using 8(2) by auto
  show ?case
  proof (cases "lookup st s")
    case None
    then show ?thesis using 8(3) ty by (auto simp: check_post_def types_of_def)
  next
    case (Some d)
    obtain q b n r i' st2 where *: "d_type d = array_type q b n" "check_array_index i n st = Some (r, i', st2)"
      "ret = r" "e' = ARRAY p (Some b) s i'" "st' = type_error r p st2"
      using 8(3) ty Some by (auto split: type_t.splits)
    then show ?thesis
      using 8(1)[OF ty(1) Some *(1) ty(2) *(2)] array_post[OF _ Some *(1)] unfolding ty(1) by blast
  qed
next
  case (9 p ty s as st)
  have ty: "ty = None" "\<forall>a \<in> set as. untyped (snd a)" using 9(2) by auto
  show ?case
  proof (cases "lookup st s")
    case None
    then show ?thesis using 9(3) ty by (auto simp: check_post_def types_of_def)
  next
    case (Some d)
    show ?thesis
    proof (cases "cons (d_type d) = TYPE_FUNC")
      case True
      then obtain q rt n ts where dt: "d_type d = func_type q rt n ts" by (cases "d_type d") auto
      obtain r as' left st1 where c: "check_args as ts st = Some (r, as', left, st1)"
        "ret = (r \<and> \<not> left)" "e' = CALL p (if r \<and> \<not> left then Some rt else None) s as'"
        "st' = type_error (r \<and> \<not> left) p
          (if left then suppressed_error p ''wrong number of arguments'' st1 else st1)"
        using 9(3) ty Some dt by (auto simp: Let_def)
      show ?thesis using 9(1)[OF ty(1) Some dt ty(2) c(1)] call_post[OF _ Some dt]
        unfolding c(2-4) ty(1) by blast
    next
      case False
      then show ?thesis
        using 9(3) ty Some by (cases "d_type d") (auto simp: check_post_def types_of_def)
    qed
  qed
next
  case (10 i n st)
  obtain ri i1 st1 where c: "do_type_check i (st\<lparr>suppress_type_errors := False\<rparr>) = Some (ri, i1, st1)"
    using 10(3) by auto
  have "i' = i1" "check_index_type ri i1 n st1 = (r, st2)"
    using 10(3) c by (auto simp: Let_def split: prod.splits)
  then show ?case using 10(1)[OF 10(2) c] by blast
next
  case (11 q a as t ts st)
  obtain r a' st1 where a1: "do_type_check a st = Some (r, a', st1)"
    using 11(4) by (cases "do_type_check a st") auto
  obtain t' where t': "(if r then expr_type a' else Some t) = Some t'"
    using 11(4) a1 by (cases "if r then expr_type a' else Some t") simp_all
  note a = a1 t'
  have pa: "check_post st a r a' st1" using 11(1)[OF _ a(1)] 11(3) by simp
  show ?case
  proof (cases "r \<and> type_equiv t' t")
    case True
    obtain ret2 as2 left2 st2 where as: "check_args as ts st1 = Some (ret2, as2, left2, st2)"
      "ra = ret2" "as' = (q, a') # as2" "left = left2" "st3 = st2"
      using 11(4) a True by auto
    have "args_post st1 as ts ret2 as2 left2 st2"
      using 11(2)[OF a(1) _ _ _ True _ as(1)] a(2) 11(3) by auto
    then show ?thesis using args_step[of st a a' st1 t' t as ts] pa a(2) True as by auto
  next
    case False
    then show ?thesis
      using 11(4) a pa args_fail[of st a r a' st1 t q as ts] by (auto split: if_splits)
  qed
qed (auto simp: check_post_def args_post_def)

subsection \<open>When the checker stops\<close>

fun arrays_ok :: "(sym \<rightharpoonup> type_t) \<Rightarrow> expr \<Rightarrow> bool" where
  \<comment> \<open>no declared symbol that is not an array is indexed\<close>
  "arrays_ok G (BINARY nt p ty l r) \<longleftrightarrow> arrays_ok G l \<and> arrays_ok G r"
| "arrays_ok G (UNARY nt p ty a) \<longleftrightarrow> arrays_ok G a"
| "arrays_ok G (ARRAY p ty s i) \<longleftrightarrow> arrays_ok G i \<and>
     (case G s of None \<Rightarrow> True | Some t \<Rightarrow> cons t = TYPE_ARRAY)"
| "arrays_ok G (CALL p ty s as) \<longleftrightarrow> (\<forall>a \<in> set as. arrays_ok G (snd a))"
| "arrays_ok G e \<longleftrightarrow> True"

lemma cons_array: "cons t = TYPE_ARRAY \<longleftrightarrow> (\<exists>q b n. t = array_type q b n)"
  by (cases t) simp_all

lemma check_ret_type:
  "untyped e \<Longrightarrow> do_type_check e st = Some (True, e', st') \<Longrightarrow> \<exists>t. expr_type e' = Some t"
  using do_type_check_post(1) by (fastforce simp: check_post_def)

lemma check_types: "untyped e \<Longrightarrow> do_type_check e st = Some (r, e', st') \<Longrightarrow> types_of st' = types_of st"
  using do_type_check_post(1) check_postD(2) by blast

lemma do_type_check_progress:
  shows "untyped e \<Longrightarrow> wf_expr e \<Longrightarrow> arrays_ok (types_of st) e \<Longrightarrow> do_type_check e st \<noteq> None"
    and "untyped i \<Longrightarrow> wf_expr i \<Longrightarrow> arrays_ok (types_of st) i \<Longrightarrow> check_array_index i n st \<noteq> None"
    and "\<forall>a \<in> set as. untyped (snd a) \<and> wf_expr (snd a) \<and> arrays_ok (types_of st) (snd a) \<Longrightarrow>
      check_args as ts st \<noteq> None"
proof (induction e st and i n st and as ts st rule: do_type_check_check_array_index_check_args.induct)
  case (1 nt p ty l r st)
  have l: "do_type_check l st \<noteq> None" using 1(1) 1(3-5) by auto
  then obtain rl l' st1 where l: "do_type_check l st = Some (rl, l', st1)" by auto
  show ?case
  proof (cases rl)
    case True
    have r: "do_type_check r st1 \<noteq> None"
      using 1(2)[of "(rl, l', st1)" rl "(l', st1)" l' st1] 1(3-5) l True check_types[OF _ l] by auto
    obtain t where t: "expr_type l' = Some t" using check_ret_type[of l st l' st1] l True 1(3) by auto
    obtain rr r' st2 where r: "do_type_check r st1 = Some (rr, r', st2)" using r by auto
    show ?thesis using l True 1(3-5) r t by (simp add: Let_def)
  qed (use l 1(3-5) in auto)
next
  case (2 nt p ty a st)
  then obtain ra a' st1 where a: "do_type_check a st = Some (ra, a', st1)" by fastforce
  then show ?case
    using 2(2-4) check_ret_type[of a st a' st1] by (cases ra) (auto simp: Let_def)
next
  case (8 p ty s i st)
  show ?case
  proof (cases "lookup st s")
    case (Some d)
    then obtain q b n where d: "d_type d = array_type q b n"
      using 8(4) by (auto simp: types_of_def cons_array)
    have "check_array_index i n st \<noteq> None" using 8(1)[OF _ Some d] 8(2-4) by simp
    then show ?thesis using 8(2) Some d by auto
  qed (use 8(2) in simp)
next
  case (9 p ty s as st)
  show ?case
  proof (cases "lookup st s")
    case (Some d)
    show ?thesis
    proof (cases "d_type d")
      case (func_type q rt n ts)
      have "check_args as ts st \<noteq> None"
        using 9(1)[OF _ Some func_type] 9(2-4) by fastforce
      then show ?thesis using 9(2) Some func_type by (auto simp: Let_def)
    qed (use 9(2) Some in simp_all)
  qed (use 9(2) in simp)
next
  case (10 i n st)
  have "types_of (st\<lparr>suppress_type_errors := False\<rparr>) = types_of st" by (rule decl_part_types) simp
  then show ?case using 10 by (fastforce simp: Let_def split: prod.splits)
next
  case (11 q a as t ts st)
  then obtain r a' st1 where a: "do_type_check a st = Some (r, a', st1)" by fastforce
  then obtain t' where t': "(if r then expr_type a' else Some t) = Some t'"
    using check_ret_type[of a st a' st1] 11(3) by (cases r) auto
  have "r \<and> type_equiv t' t \<Longrightarrow> check_args as ts st1 \<noteq> None"
    using 11(2)[OF a _ _ t'] check_types[OF _ a] 11(3) by auto
  then show ?case using a t' by (cases "r \<and> type_equiv t' t") (auto simp del: not_None_eq)
qed (auto split: option.split)

subsection \<open>The results\<close>

lemma start_check [simp]:
  "types_of (st\<lparr>suppress_type_errors := False\<rparr>) = types_of st"
  "uninit_uses (st\<lparr>suppress_type_errors := False\<rparr>) e = uninit_uses st e"
  by (rule decl_part_types decl_part_uninit, simp)+

lemma lookup_error [simp]: "lookup (error p s st) = lookup st" "types_of (error p s st) = types_of st"
  by (simp_all add: fun_eq_iff lookup_def types_of_def error_def)

lemma type_check_core:
  "untyped e \<Longrightarrow> type_check e st = Some (ret, e', st') \<Longrightarrow>
    check_post (st\<lparr>suppress_type_errors := False\<rparr>) e ret e' st'"
  unfolding type_check_def by (rule do_type_check_post(1))

text \<open>
  C3: \<open>type_check\<close> returns true exactly for the expressions that have a type by the
  typing rules.  It then leaves an annotated tree that agrees with the rules, and it reports one
  error for each use of an uninitialized variable and none else; when it returns
  false it has reported an error.  It changes nothing but the messages and the annotations.
\<close>

theorem type_check_correct:
  assumes "untyped e" and "type_check e st = Some (ret, e', st')"
  shows "decl_part st' = decl_part st \<and> erase e' = erase e \<and>
    (ret \<longleftrightarrow> (\<exists>t. has_type (types_of st) e t)) \<and>
    (if ret then typed (types_of st) e' \<and> (\<exists>t. expr_type e' = Some t \<and> has_type (types_of st) e t) \<and>
       errors_num st' = errors_num st + uninit_uses st e
     else errors_num st < errors_num st')"
  using type_check_core[OF assms] by (auto simp: check_post_def)

text \<open>
  C20: On a tree that the parser can build, \<open>type_check\<close> returns unless a
  declared symbol is indexed that is not an array.
\<close>

theorem type_check_returns:
  assumes "untyped e" and "wf_expr e" and "arrays_ok (types_of st) e"
  shows "\<exists>ret e' st'. type_check e st = Some (ret, e', st')"
proof -
  have "do_type_check e (st\<lparr>suppress_type_errors := False\<rparr>) \<noteq> None"
    by (rule do_type_check_progress(1)) (simp_all add: assms)
  then show ?thesis by (auto simp: type_check_def)
qed

text \<open>
  Indexing a declared variable that is not an array is not reported as an error: the
  assertion \<open>Atype->cons == TYPE_ARRAY\<close> stops the compiler, in expressions and in
  lvalues.
\<close>

theorem index_scalar_stops:
  assumes "lookup st s = Some d" and "cons (d_type d) \<noteq> TYPE_ARRAY"
  shows "type_check (ARRAY p None s i) st = None \<and> check_lvalue (ARRAY p None s i) st = None"
proof -
  have "lookup (st\<lparr>suppress_type_errors := False\<rparr>) s = Some d"
    using assms(1) by (simp add: lookup_def)
  then show ?thesis using assms
    by (cases "d_type d") (simp_all add: type_check_def check_lvalue_def)
qed

text \<open>
  C25: \<open>check_lvalue\<close> accepts exactly the declared variables and the array elements with an
  index of type \<open>int\<close>, leaves the type of the lvalue in the tree, and marks an assigned
  variable as initialized, which is its only effect on the declarations.
\<close>

theorem check_lvalue_correct:
  assumes "untyped e" and "check_lvalue e st = Some (ret, e', st')"
  shows "types_of st' = types_of st \<and> (\<exists>k. errors_num st' = errors_num st + k \<and> (ret \<or> 0 < k)) \<and>
    (case e of
       IDENT p ty s \<Rightarrow> (ret \<longleftrightarrow> lookup st s \<noteq> None) \<and>
         (ret \<longrightarrow> expr_type e' = types_of st s \<and> (\<exists>d. lookup st' s = Some d \<and> initialized d)) \<and>
         (\<forall>x. x \<noteq> s \<longrightarrow> lookup st' x = lookup st x)
     | ARRAY p ty s i \<Rightarrow> (ret \<longleftrightarrow> (\<exists>t. has_type (types_of st) e t)) \<and>
         (ret \<longrightarrow> typed (types_of st) e' \<and> (\<exists>t. expr_type e' = Some t \<and> has_type (types_of st) e t)) \<and>
         lookup st' = lookup st
     | _ \<Rightarrow> \<not> ret)"
proof (cases e)
  case (IDENT p ty s)
  show ?thesis
  proof (cases "lookup st s")
    case (Some d)
    then obtain ds where ds: "sym_decl st s = d # ds" by (auto simp: lookup_def split: list.splits)
    then have st': "ret" "e' = IDENT p (Some (d_type d)) s"
      "st' = st\<lparr>sym_decl := (sym_decl st)(s := d\<lparr>initialized := True\<rparr> # ds)\<rparr>"
      using assms(2) IDENT Some by (auto simp: check_lvalue_def set_initialized_def update_decl_def)
    have lk: "lookup st' x = (if x = s then Some (d\<lparr>initialized := True\<rparr>) else lookup st x)" for x
      by (simp add: st' lookup_def)
    then have "types_of st' = types_of st" using Some by (auto simp: types_of_def fun_eq_iff)
    then show ?thesis using IDENT Some st' lk by (simp add: errors_num_def types_of_def)
  next
    case None
    then show ?thesis
      using assms(2) IDENT by (auto simp: check_lvalue_def)
  qed
next
  case (ARRAY p ty s i)
  show ?thesis
  proof (cases "lookup st s")
    case (Some d)
    obtain q b n i' where *: "d_type d = array_type q b n" "check_array_index i n st = Some (ret, i', st')"
      "e' = ARRAY p (Some b) s i'"
      using assms(2) ARRAY Some by (auto simp: check_lvalue_def split: type_t.splits)
    obtain ri st1 where i: "check_post (st\<lparr>suppress_type_errors := False\<rparr>) i ri i' st1"
      "check_index_type ri i' n st1 = (ret, st')"
      using do_type_check_post(2)[OF _ *(2)] assms(1) ARRAY by auto
    have post: "check_post st (ARRAY p None s i) ret (ARRAY p (Some b) s i') (type_error ret p st')"
      by (rule array_post[OF i(1) Some *(1) i(2)])
    have d: "decl_part st' = decl_part st" "errors_num st \<le> errors_num st'"
      "\<not> ret \<longrightarrow> errors_num st < errors_num st'"
      using i check_index_type_spec[of ri i' n st1] by (auto simp: check_post_def)
    show ?thesis
      using post d decl_part_types[OF d(1)] decl_part_lookup[OF d(1)] ARRAY *(3)
      by (auto simp: check_post_def le_iff_add less_iff_Suc_add simp del: typed.simps)
  next
    case None
    then show ?thesis
      using assms(2) ARRAY by (auto simp: check_lvalue_def types_of_def)
  qed
qed (use assms(2) in \<open>auto simp: check_lvalue_def\<close>)

subsection \<open>Concrete checks\<close>

text \<open>A state in which \<open>x\<close> is an initialized \<open>int\<close> and \<open>a\<close> an array of three.\<close>

definition st_xa :: tree_st where
  "st_xa = decl_init\<lparr>sym_decl := (\<lambda>s.
     if s = ''x'' then [\<lparr>d_type = type_int, d_scope = 0, initialized = True, d_u = U_VAR 0\<rparr>]
     else if s = ''a'' then [\<lparr>d_type = array_type 1 type_int 3, d_scope = 0, initialized = True, d_u = U_VAR 1\<rparr>]
     else [])\<rparr>"

lemma st_xa_lookup [simp]:
  "lookup st_xa ''x'' = Some \<lparr>d_type = type_int, d_scope = 0, initialized = True, d_u = U_VAR 0\<rparr>"
  "lookup st_xa ''a'' = Some \<lparr>d_type = array_type 1 type_int 3, d_scope = 0, initialized = True, d_u = U_VAR 1\<rparr>"
  "lookup st_xa ''y'' = None"
  by (simp_all add: lookup_def st_xa_def)

definition sum_xa :: expr where
  \<comment> \<open>\<open>x + a[2]\<close>\<close>
  "sum_xa = BINARY NODE_ADD pos0 None (IDENT pos0 None ''x'') (ARRAY pos0 None ''a'' (INT_NODE pos0 None 2))"

lemma sum_xa_ok: "untyped sum_xa" "wf_expr sum_xa" "arrays_ok (types_of st_xa) sum_xa"
  by (simp_all add: sum_xa_def binary_nodes_def types_of_def)

lemma sum_xa_type: "has_type (types_of st_xa) sum_xa type_int"
  by (auto simp: sum_xa_def types_of_def has_type_binary binary_nodes_def binary_type_def)

lemma type_check_returns_witness: "type_check sum_xa st_xa \<noteq> None"
  using type_check_returns[OF sum_xa_ok] by auto

lemma type_check_correct_witness:
  "\<exists>e' st'. type_check sum_xa st_xa = Some (True, e', st') \<and> typed (types_of st_xa) e'"
proof -
  have "do_type_check sum_xa (st_xa\<lparr>suppress_type_errors := False\<rparr>) \<noteq> None"
    by (rule do_type_check_progress(1)) (simp_all add: sum_xa_ok)
  then obtain ret e' st' where c: "type_check sum_xa st_xa = Some (ret, e', st')"
    by (auto simp: type_check_def)
  show ?thesis using type_check_correct[OF sum_xa_ok(1) c] c sum_xa_type by (auto split: if_splits)
qed

lemma index_scalar_stops_witness:
  "type_check (ARRAY pos0 None ''x'' (INT_NODE pos0 None 0)) st_xa = None"
  using index_scalar_stops[OF st_xa_lookup(1)] by simp

lemma check_lvalue_correct_witness:
  "\<exists>e' st'. check_lvalue (IDENT pos0 None ''x'') st_xa = Some (True, e', st') \<and>
    expr_type e' = Some type_int"
proof -
  have ds: "sym_decl st_xa ''x'' = [\<lparr>d_type = type_int, d_scope = 0, initialized = True, d_u = U_VAR 0\<rparr>]"
    by (simp add: st_xa_def)
  then obtain ret e' st' where c: "check_lvalue (IDENT pos0 None ''x'') st_xa = Some (ret, e', st')"
    by (simp add: check_lvalue_def set_initialized_def update_decl_def)
  show ?thesis
    using check_lvalue_correct[OF _ c] c by (auto simp: types_of_def)
qed

end
