(* ===== verification/Quadr.thy ===== *)
theory Quadr
  imports Decls Rbtree
begin

text \<open>
  \<open>src/src/quadr.h\<close> and the first half of \<open>quadr.c\<close>: variables, quadruples, basic blocks,
  functions, and the operations that build them.

  A pointer to a variable is its number in \<open>vars\<close>, a pointer to a basic block its number
  in \<open>blocks\<close> (which is also its field \<open>id\<close>), a pointer to a function its index in
  \<open>quadr_func\<close>.  A block that has been freed is no longer in \<open>blocks\<close>, so that following
  a pointer to it is \<open>None\<close>.  The list of quadruples of a block (\<open>lst.head\<close>, \<open>lst.tail\<close>,
  \<open>next\<close>) is a list, its \<open>tail\<close> the last element.
\<close>

subsection \<open>Data\<close>

datatype var_type_t = VT_BYTE | VT_INT | VT_DOUBLE | VT_ARRAY | VT_PTR | VT_STR | VT_INVALID

record var_t =
  v_type :: type_t
  v_loc :: "addr option"
  v_size :: int
  v_live :: bool
  v_qtype :: var_type_t

type_synonym block_id = nat

datatype quadr_arg_t =
    QA_NONE | QA_VAR var_id | QA_INT i32 | QA_DOUBLE double | QA_LABEL block_id
  | QA_STR string | QA_FUNC func_id

datatype quadr_op_t =
    Q_ADD | Q_SUB | Q_DIV | Q_MUL | Q_MOD | Q_COPY | Q_READ_PTR | Q_WRITE_PTR | Q_GET_ADDR
  | Q_RETURN | Q_PARAM | Q_CALL
  | Q_IF_EQ | Q_IF_NE | Q_IF_LT | Q_IF_GT | Q_IF_LE | Q_IF_GE | Q_GOTO | Q_NONE

record quadr_t =
  q_op :: quadr_op_t
  q_result :: quadr_arg_t
  q_arg1 :: quadr_arg_t
  q_arg2 :: quadr_arg_t

text \<open>
  The element of \<open>vars_at_start\<close> without its first field \<open>var\<close>, which is the key; the
  elements \<open>var_key_t\<close> of the other trees are only keys.
\<close>

record var_descr_t =
  loc :: "addr option"
  nearest_use_dist :: u32

record flow_data_t =
  live_def :: "unit rbtree_t option"
  live_in :: "var_descr_t rbtree_t option"
  live_out :: "unit rbtree_t option"
  instr_num :: nat

definition MARK_GENERATED :: u8 where "MARK_GENERATED = 0x01"
definition MARK_REFERENCED :: u8 where "MARK_REFERENCED = 0x02"

record basic_block_t =
  lst :: "quadr_t list"
  nxt :: "block_id option"
  live_at_end :: "var_id list"
  lsize :: nat
  vars_at_start :: "var_descr_t rbtree_t option"
  child1 :: "block_id option"
  child2 :: "block_id option"
  flow_data :: "flow_data_t option"
  visited_mark :: "16 word"
  mark :: u8

datatype quadr_func_tag_t =
  QF_USER_DEFINED | QF_PRINT_INT | QF_PRINT_DOUBLE | QF_PRINT_STRING | QF_READ_INT | QF_READ_DOUBLE | QF_ERROR

text \<open>
  An array of variables of a function: the variables declared in it so far (the first
  \<open>last_var + 1\<close> elements) and its capacity.
\<close>

record vars_node_t =
  node_vars :: "var_id list"
  vars_size :: nat

record quadr_func_t =
  qf_type :: type_t
  qf_blocks :: "block_id option"
  vars_lst :: "vars_node_t list"
  qf_name :: string
  qf_tag :: quadr_func_tag_t

record quadr_st =
  quadr_func :: "quadr_func_t list"
  func_cap :: nat
  blocks :: "block_id \<rightharpoonup> basic_block_t"
  next_block_id :: block_id
  prev_block :: "block_id option"
  cur_block :: "block_id option"
  cur_func :: "func_id option"
  vars :: "var_t list"
  cur_visited_mark :: "16 word"
  cur_root :: "block_id option"

definition quadr_init :: quadr_st where
  "quadr_init = \<lparr>quadr_func = [], func_cap = 512, blocks = Map.empty, next_block_id = 0,
     prev_block = None, cur_block = None, cur_func = None, vars = [],
     cur_visited_mark = 0, cur_root = None\<rparr>"

subsection \<open>Quadruples\<close>

definition var_arg :: "var_id option \<Rightarrow> quadr_arg_t" where
  "var_arg v = (case v of None \<Rightarrow> QA_NONE | Some v \<Rightarrow> QA_VAR v)"

definition new_quadr :: "quadr_op_t \<Rightarrow> var_id option \<Rightarrow> var_id option \<Rightarrow> var_id option \<Rightarrow> quadr_t" where
  "new_quadr op result left right =
     \<lparr>q_op = op, q_result = var_arg result, q_arg1 = var_arg left, q_arg2 = var_arg right\<rparr>"

definition new_copy_quadr :: "var_id \<Rightarrow> quadr_arg_t \<Rightarrow> quadr_t" where
  "new_copy_quadr result arg = \<lparr>q_op = Q_COPY, q_result = QA_VAR result, q_arg1 = arg, q_arg2 = QA_NONE\<rparr>"

definition new_copy_var_quadr :: "var_id \<Rightarrow> var_id \<Rightarrow> quadr_t" where
  "new_copy_var_quadr result arg =
     \<lparr>q_op = Q_COPY, q_result = QA_VAR result, q_arg1 = QA_VAR arg, q_arg2 = QA_NONE\<rparr>"

fun is_if_op :: "quadr_op_t \<Rightarrow> bool" where
  "is_if_op Q_IF_EQ = True"
| "is_if_op Q_IF_NE = True"
| "is_if_op Q_IF_LT = True"
| "is_if_op Q_IF_GT = True"
| "is_if_op Q_IF_LE = True"
| "is_if_op Q_IF_GE = True"
| "is_if_op _ = False"

fun is_block_end :: "quadr_op_t \<Rightarrow> bool" where
  "is_block_end Q_PARAM = False"
| "is_block_end Q_ADD = False"
| "is_block_end Q_SUB = False"
| "is_block_end Q_DIV = False"
| "is_block_end Q_MUL = False"
| "is_block_end Q_MOD = False"
| "is_block_end Q_COPY = False"
| "is_block_end Q_CALL = False"
| "is_block_end Q_READ_PTR = False"
| "is_block_end Q_WRITE_PTR = False"
| "is_block_end Q_GET_ADDR = False"
| "is_block_end _ = True"

definition used_in_quadr :: "quadr_t \<Rightarrow> var_id \<Rightarrow> bool" where
  "used_in_quadr quadr var \<longleftrightarrow> q_arg1 quadr = QA_VAR var \<or> q_arg2 quadr = QA_VAR var \<or>
     (q_op quadr = Q_WRITE_PTR \<and> q_result quadr = QA_VAR var)"

definition assigned_in_quadr :: "quadr_t \<Rightarrow> var_id \<Rightarrow> bool" where
  "assigned_in_quadr quadr var \<longleftrightarrow> q_op quadr \<noteq> Q_WRITE_PTR \<and> q_result quadr = QA_VAR var"

fun quadr_if_op :: "node_type_t \<Rightarrow> bool \<Rightarrow> quadr_op_t option" where
  "quadr_if_op NODE_EQ jmp_if_true = Some (if jmp_if_true then Q_IF_EQ else Q_IF_NE)"
| "quadr_if_op NODE_NEQ jmp_if_true = Some (if jmp_if_true then Q_IF_NE else Q_IF_EQ)"
| "quadr_if_op NODE_GT jmp_if_true = Some (if jmp_if_true then Q_IF_GT else Q_IF_LE)"
| "quadr_if_op NODE_LT jmp_if_true = Some (if jmp_if_true then Q_IF_LT else Q_IF_GE)"
| "quadr_if_op NODE_GEQ jmp_if_true = Some (if jmp_if_true then Q_IF_GE else Q_IF_LT)"
| "quadr_if_op NODE_LEQ jmp_if_true = Some (if jmp_if_true then Q_IF_LE else Q_IF_GT)"
| "quadr_if_op _ _ = None"

text \<open>\<open>quadr_type\<close>: the type of the first argument that has one.\<close>

definition arg_qtype :: "quadr_st \<Rightarrow> quadr_arg_t \<Rightarrow> var_type_t option" where
  "arg_qtype q a =
     (case a of
        QA_VAR v \<Rightarrow> Some (v_qtype (vars q ! v))
      | QA_INT i \<Rightarrow> Some VT_INT
      | QA_DOUBLE d \<Rightarrow> Some VT_DOUBLE
      | _ \<Rightarrow> None)"

definition quadr_type :: "quadr_st \<Rightarrow> quadr_t \<Rightarrow> var_type_t" where
  "quadr_type q quadr =
     (case arg_qtype q (q_arg1 quadr) of Some t \<Rightarrow> t | None \<Rightarrow>
       (case arg_qtype q (q_arg2 quadr) of Some t \<Rightarrow> t | None \<Rightarrow>
         (case arg_qtype q (q_result quadr) of Some t \<Rightarrow> t | None \<Rightarrow> VT_INVALID)))"

definition arg_type :: "quadr_st \<Rightarrow> quadr_arg_t \<Rightarrow> type_t option" where
  "arg_type q a =
     (case a of
        QA_INT i \<Rightarrow> Some type_int
      | QA_DOUBLE d \<Rightarrow> Some type_double
      | QA_VAR v \<Rightarrow> Some (v_type (vars q ! v))
      | _ \<Rightarrow> None)"

subsection \<open>Functions and variables\<close>

definition set_func :: "func_id \<Rightarrow> (quadr_func_t \<Rightarrow> quadr_func_t) \<Rightarrow> quadr_st \<Rightarrow> quadr_st" where
  "set_func f g q = q\<lparr>quadr_func := (quadr_func q)[f := g (quadr_func q ! f)]\<rparr>"

definition declare_function ::
  "type_t \<Rightarrow> quadr_func_tag_t \<Rightarrow> string \<Rightarrow> quadr_st \<Rightarrow> (func_id \<times> quadr_st) option"
where
  "declare_function t tag name q = do {
     check (cons t = TYPE_FUNC);
     if length (quadr_func q) \<ge> func_cap q then None   \<comment> \<open>too many functions\<close>
     else
       let node = \<lparr>node_vars = [], vars_size = 64\<rparr>;
           qf = \<lparr>qf_type = t, qf_blocks = None,
                 vars_lst = (if tag = QF_USER_DEFINED then [node] else []),
                 qf_name = name, qf_tag = tag\<rparr>
       in Some (length (quadr_func q), q\<lparr>quadr_func := quadr_func q @ [qf]\<rparr>)
   }"

fun var_qtype :: "type_t \<Rightarrow> var_type_t option" where
  "var_qtype type_boolean = Some VT_INT"
| "var_qtype type_int = Some VT_INT"
| "var_qtype type_double = Some VT_DOUBLE"
| "var_qtype (array_type p b n) = Some VT_ARRAY"
| "var_qtype _ = None"

text \<open>
  The choice of the place of a new variable: the last array of the function, or a new one of twice its
  size when it is full.
\<close>

definition push_var :: "var_id \<Rightarrow> vars_node_t list \<Rightarrow> vars_node_t list option" where
  "push_var v nodes =
     (if nodes = [] then None
      else
        let node = last nodes in
        if length (node_vars node) \<ge> vars_size node
        then Some (nodes @ [\<lparr>node_vars = [v], vars_size = vars_size node * 2\<rparr>])
        else Some (butlast nodes @ [node\<lparr>node_vars := node_vars node @ [v]\<rparr>]))"

definition declare_var :: "func_id option \<Rightarrow> type_t \<Rightarrow> quadr_st \<Rightarrow> (var_id \<times> quadr_st) option" where
  "declare_var func t q = do {
     f \<leftarrow> func;
     check (f < length (quadr_func q));
     let v = length (vars q);
     nodes \<leftarrow> push_var v (vars_lst (quadr_func q ! f));
     qt \<leftarrow> var_qtype t;
     let var = \<lparr>v_type = t, v_loc = None, v_size = -1, v_live = False, v_qtype = qt\<rparr>;
         q = q\<lparr>vars := vars q @ [var]\<rparr>
     in Some (v, set_func f (\<lambda>qf. qf\<lparr>vars_lst := nodes\<rparr>) q)
   }"

definition declare_var0 :: "type_t \<Rightarrow> quadr_st \<Rightarrow> (var_id \<times> quadr_st) option" where
  "declare_var0 t q = declare_var (cur_func q) t q"

subsection \<open>Basic blocks\<close>

definition set_block :: "block_id \<Rightarrow> (basic_block_t \<Rightarrow> basic_block_t) \<Rightarrow> quadr_st \<Rightarrow> quadr_st option" where
  \<comment> \<open>a write to a block that is not allocated is \<open>None\<close>\<close>
  "set_block b g q = do { B \<leftarrow> blocks q b; Some (q\<lparr>blocks := (blocks q)(b \<mapsto> g B)\<rparr>) }"

definition empty_block :: basic_block_t where
  "empty_block = \<lparr>lst = [], nxt = None, live_at_end = [], lsize = 0, vars_at_start = None,
     child1 = None, child2 = None, flow_data = None, visited_mark = 0, mark = 0\<rparr>"

definition new_basic_block :: "quadr_st \<Rightarrow> block_id \<times> quadr_st" where
  "new_basic_block q =
     (next_block_id q,
      q\<lparr>blocks := (blocks q)(next_block_id q \<mapsto> empty_block), next_block_id := next_block_id q + 1\<rparr>)"

definition free_basic_block :: "block_id \<Rightarrow> quadr_st \<Rightarrow> quadr_st option" where
  "free_basic_block b q = do { B \<leftarrow> blocks q b; Some (q\<lparr>blocks := (blocks q)(b := None)\<rparr>) }"

definition block_tail_op :: "basic_block_t \<Rightarrow> quadr_op_t option" where
  "block_tail_op B = (if lst B = [] then None else Some (q_op (last (lst B))))"

definition add_quadr :: "block_id option \<Rightarrow> quadr_t \<Rightarrow> quadr_st \<Rightarrow> quadr_st option" where
  "add_quadr block quadr q = do {
     b \<leftarrow> block;
     B \<leftarrow> blocks q b;
     check (case block_tail_op B of None \<Rightarrow> True | Some op \<Rightarrow> \<not> is_block_end op);
     set_block b (\<lambda>B. B\<lparr>lst := lst B @ [quadr]\<rparr>) q
   }"

definition is_referenced :: "basic_block_t \<Rightarrow> bool" where
  "is_referenced B \<longleftrightarrow> mark B AND MARK_REFERENCED \<noteq> 0"

definition set_referenced :: "basic_block_t \<Rightarrow> basic_block_t" where
  "set_referenced B = B\<lparr>mark := mark B OR MARK_REFERENCED\<rparr>"

text \<open>
  The loop at the end of \<open>add_basic_blocks\<close>: from \<open>b\<close> along \<open>next\<close> to the last block;
  the result is \<open>prev_block\<close> and \<open>cur_block\<close>.  The fuel is the number of blocks ever made,
  which a chain without a cycle does not exceed.
\<close>

fun last_block ::
  "nat \<Rightarrow> (block_id \<rightharpoonup> basic_block_t) \<Rightarrow> block_id option \<Rightarrow> block_id \<Rightarrow>
    (block_id option \<times> block_id) option"
where
  "last_block 0 bs prev b = None"
| "last_block (Suc n) bs prev b = do {
     B \<leftarrow> bs b;
     (case nxt B of
        None \<Rightarrow> Some (prev, b)
      | Some b' \<Rightarrow> last_block n bs (Some b) b')
   }"

definition add_basic_blocks :: "block_id \<Rightarrow> quadr_st \<Rightarrow> quadr_st option" where
  "add_basic_blocks bs q = do {
     f \<leftarrow> cur_func q;
     (bs, q) \<leftarrow>
       (case cur_block q of
          Some c \<Rightarrow> do {
            C \<leftarrow> blocks q c;
            (bs, q) \<leftarrow>
              (if (case block_tail_op C of None \<Rightarrow> False | Some op \<Rightarrow> is_if_op op)
               then
                 let (dummy, q) = new_basic_block q in do {
                   q \<leftarrow> set_block dummy (\<lambda>B. set_referenced (B\<lparr>nxt := Some bs\<rparr>)) q;
                   Some (dummy, q)
                 }
               else Some (bs, q));
            (if prev_block q = None \<or> lst C \<noteq> [] \<or> is_referenced C
             then do {
               q \<leftarrow> set_block c (\<lambda>B. B\<lparr>nxt := Some bs\<rparr>) q;
               Some (bs, q\<lparr>prev_block := Some c\<rparr>)
             }
             else do {
               p \<leftarrow> prev_block q;
               P \<leftarrow> blocks q p;
               check (nxt P = Some c);
               q \<leftarrow> free_basic_block c q;
               q \<leftarrow> set_block p (\<lambda>B. B\<lparr>nxt := Some bs\<rparr>) q;
               Some (bs, q)
             })
          }
        | None \<Rightarrow>
            Some (bs, (set_func f (\<lambda>qf. qf\<lparr>qf_blocks := Some bs\<rparr>) q)\<lparr>prev_block := None\<rparr>));
     (prev, cur) \<leftarrow> last_block (next_block_id q) (blocks q) (prev_block q) bs;
     Some (q\<lparr>prev_block := prev, cur_block := Some cur\<rparr>)
   }"

definition start_function :: "func_id \<Rightarrow> quadr_st \<Rightarrow> quadr_st option" where
  "start_function func q = do {
     check (cur_func q = None);
     check (func < length (quadr_func q));
     let (b, q) = new_basic_block q;
     Some ((set_func func (\<lambda>qf. qf\<lparr>qf_blocks := Some b\<rparr>) q)
       \<lparr>cur_func := Some func, cur_block := Some b, prev_block := None\<rparr>)
   }"

definition end_function :: "quadr_st \<Rightarrow> quadr_st" where
  "end_function q = q\<lparr>cur_func := None\<rparr>"

definition quadr_arg_label :: "block_id \<Rightarrow> quadr_st \<Rightarrow> (quadr_arg_t \<times> quadr_st) option" where
  "quadr_arg_label label q = do {
     L \<leftarrow> blocks q label;
     (if lst L = [] then do {
        (label, q) \<leftarrow>
          (if is_referenced L then
             let (block, q) = new_basic_block q in do {
               q \<leftarrow> set_block block (\<lambda>B. B\<lparr>nxt := nxt L\<rparr>) q;
               q \<leftarrow> set_block label (\<lambda>B. B\<lparr>nxt := Some block\<rparr>) q;
               Some (block, q)
             }
           else Some (label, q));
        q \<leftarrow> set_block label set_referenced q;
        Some (QA_LABEL label, q)
      }
      else Some (QA_LABEL label, q))
   }"

subsection \<open>Lists of variables\<close>

fun var_list_len :: "var_id list \<Rightarrow> nat" where
  "var_list_len [] = 0"
| "var_list_len (v # vl) = Suc (var_list_len vl)"

fun vl_erase_loop :: "var_id list \<Rightarrow> var_id \<Rightarrow> var_id list" where
  "vl_erase_loop [] var = []"
| "vl_erase_loop (v # vl) var = (if v = var then vl else v # vl_erase_loop vl var)"

definition vl_erase :: "var_id list \<Rightarrow> var_id \<Rightarrow> var_id list option" where
  "vl_erase vl var = do { check (vl \<noteq> []); Some (vl_erase_loop vl var) }"

fun vl_find :: "var_id list \<Rightarrow> var_id \<Rightarrow> bool" where
  "vl_find [] var = False"
| "vl_find (v # vl) var = (if v = var then True else vl_find vl var)"

definition vl_insert :: "var_id list \<Rightarrow> var_id \<Rightarrow> var_id list" where
  "vl_insert vl var = var # vl"

definition vl_insert_if_absent :: "var_id list \<Rightarrow> var_id \<Rightarrow> bool \<times> var_id list" where
  "vl_insert_if_absent vl var = (if vl_find vl var then (False, vl) else (True, var # vl))"

fun vl_copy_loop :: "var_id list \<Rightarrow> var_id list \<Rightarrow> var_id list" where
  "vl_copy_loop [] vl2 = vl2"
| "vl_copy_loop (v # vl) vl2 = vl_copy_loop vl (v # vl2)"

fun reverse_list :: "'a list \<Rightarrow> 'a list \<Rightarrow> 'a list" where
  "reverse_list [] lst2 = lst2"
| "reverse_list (x # xs) lst2 = reverse_list xs (x # lst2)"

definition vl_copy :: "var_id list \<Rightarrow> var_id list" where
  "vl_copy vl = reverse_list (vl_copy_loop vl []) []"

end
