(* ===== verification/Gen.thy ===== *)
theory Gen
  imports Quadr Decls_Correct
begin

text \<open>
  The code generator of \<open>src/src/quadr.c\<close>: from annotated expressions and simple
  instructions to quadruples (\<open>gen_quadr_expr\<close>, \<open>gen_quadr_bool_expr\<close>, \<open>gen_call\<close>,
  \<open>gen_quadr\<close>).

  \<open>D\<close> is the field \<open>decl\<close> of the symbols, which this code only reads.  A failed
  assertion, \<open>xabort\<close>, a null pointer, and the wrong member of the union \<open>u\<close> are
  \<open>None\<close>.
\<close>

type_synonym decl_env = "sym \<Rightarrow> decl_t option"

definition sym_var :: "decl_env \<Rightarrow> sym \<Rightarrow> var_id option" where
  \<comment> \<open>\<open>ident->decl->u.var\<close>\<close>
  "sym_var D s = do { d \<leftarrow> D s; (case d_u d of U_VAR v \<Rightarrow> Some v | _ \<Rightarrow> None) }"

definition sym_func :: "decl_env \<Rightarrow> sym \<Rightarrow> func_id option" where
  \<comment> \<open>\<open>ident->decl->u.func\<close>\<close>
  "sym_func D s = do { d \<leftarrow> D s; (case d_u d of U_FUNC f \<Rightarrow> Some f | _ \<Rightarrow> None) }"

subsection \<open>Single quadruples\<close>

definition gen_copy :: "var_id \<Rightarrow> quadr_arg_t \<Rightarrow> quadr_st \<Rightarrow> quadr_st option" where
  "gen_copy var arg q =
     add_quadr (cur_block q) \<lparr>q_op = Q_COPY, q_result = QA_VAR var, q_arg1 = arg, q_arg2 = QA_NONE\<rparr> q"

definition gen_binop ::
  "quadr_op_t \<Rightarrow> var_id \<Rightarrow> quadr_arg_t \<Rightarrow> quadr_arg_t \<Rightarrow> quadr_st \<Rightarrow> quadr_st option"
where
  "gen_binop qop result arg1 arg2 q =
     add_quadr (cur_block q) \<lparr>q_op = qop, q_result = QA_VAR result, q_arg1 = arg1, q_arg2 = arg2\<rparr> q"

definition new_var :: "type_t \<Rightarrow> quadr_st \<Rightarrow> (var_id \<times> quadr_st) option" where
  "new_var t q = declare_var (cur_func q) t q"

text \<open>
  \<open>quadr_arg0\<close> and \<open>quadr_arg\<close> take their value from a variable argument list.  To read
  a \<open>double\<close> as an \<open>int\<close>, or an \<open>int\<close> as a \<open>double\<close>, is undefined behaviour: the
  value is \<open>None\<close>.
\<close>

datatype va_arg = VA_INT i32 | VA_DOUBLE double

fun va_int :: "va_arg \<Rightarrow> i32 option" where
  "va_int (VA_INT i) = Some i"
| "va_int (VA_DOUBLE d) = None"

fun va_double :: "va_arg \<Rightarrow> double option" where
  "va_double (VA_DOUBLE d) = Some d"
| "va_double (VA_INT i) = None"

definition quadr_arg0 :: "type_cons_t \<Rightarrow> va_arg \<Rightarrow> quadr_arg_t option" where
  "quadr_arg0 tc a =
     (case tc of
        TYPE_INT \<Rightarrow> do { i \<leftarrow> va_int a; Some (QA_INT i) }
      | TYPE_DOUBLE \<Rightarrow> do { d \<leftarrow> va_double a; Some (QA_DOUBLE d) }
      | TYPE_BOOLEAN \<Rightarrow> do { i \<leftarrow> va_int a; Some (QA_INT i) }
      | _ \<Rightarrow> None)"

definition quadr_arg :: "type_cons_t \<Rightarrow> va_arg \<Rightarrow> quadr_st \<Rightarrow> (quadr_arg_t \<times> quadr_st) option" where
  "quadr_arg tc a q = do {
     (var, q) \<leftarrow>
       (case tc of
          TYPE_INT \<Rightarrow> declare_var (cur_func q) type_int q
        | TYPE_DOUBLE \<Rightarrow> declare_var (cur_func q) type_double q
        | TYPE_BOOLEAN \<Rightarrow> declare_var (cur_func q) type_boolean q
        | _ \<Rightarrow> None);
     c \<leftarrow> quadr_arg0 tc a;
     q \<leftarrow> gen_copy var c q;
     Some (QA_VAR var, q)
   }"

definition gen_get_addr :: "var_id \<Rightarrow> quadr_st \<Rightarrow> (var_id \<times> quadr_st) option" where
  "gen_get_addr var q = do {
     check (var < length (vars q));
     check (v_qtype (vars q ! var) = VT_ARRAY);
     (ptr, q) \<leftarrow> declare_var (cur_func q) (v_type (vars q ! var)) q;
     let q = q\<lparr>vars := (vars q)[ptr := (vars q ! ptr)\<lparr>v_qtype := VT_PTR\<rparr>]\<rparr> in do {
       q \<leftarrow> add_quadr (cur_block q)
         \<lparr>q_op = Q_GET_ADDR, q_result = QA_VAR ptr, q_arg1 = QA_VAR var, q_arg2 = QA_NONE\<rparr> q;
       Some (ptr, q)
     }
   }"

definition gen_read_ptr :: "var_id \<Rightarrow> var_id \<Rightarrow> quadr_arg_t \<Rightarrow> quadr_st \<Rightarrow> quadr_st option" where
  "gen_read_ptr result base offset q =
     add_quadr (cur_block q)
       \<lparr>q_op = Q_READ_PTR, q_result = QA_VAR result, q_arg1 = QA_VAR base, q_arg2 = offset\<rparr> q"

definition gen_write_ptr :: "var_id \<Rightarrow> quadr_arg_t \<Rightarrow> quadr_arg_t \<Rightarrow> quadr_st \<Rightarrow> quadr_st option" where
  "gen_write_ptr base offset value q =
     add_quadr (cur_block q)
       \<lparr>q_op = Q_WRITE_PTR, q_result = QA_VAR base, q_arg1 = offset, q_arg2 = value\<rparr> q"

definition add_new_block :: "quadr_st \<Rightarrow> quadr_st option" where
  \<comment> \<open>\<open>add_basic_blocks(new_basic_block())\<close>\<close>
  "add_new_block q = (let (b, q) = new_basic_block q in add_basic_blocks b q)"

definition gen_goto :: "block_id \<Rightarrow> quadr_st \<Rightarrow> quadr_st option" where
  "gen_goto to_block q = do {
     (l, q) \<leftarrow> quadr_arg_label to_block q;
     q \<leftarrow> add_quadr (cur_block q) \<lparr>q_op = Q_GOTO, q_result = l, q_arg1 = QA_NONE, q_arg2 = QA_NONE\<rparr> q;
     add_new_block q
   }"

definition gen_if :: "quadr_op_t \<Rightarrow> quadr_arg_t \<Rightarrow> quadr_arg_t \<Rightarrow> quadr_arg_t \<Rightarrow> quadr_st \<Rightarrow> quadr_st option" where
  \<comment> \<open>the end of the branches of \<open>gen_quadr_bool_expr\<close> that make a conditional jump\<close>
  "gen_if op label arg1 arg2 q = do {
     q \<leftarrow> add_quadr (cur_block q) \<lparr>q_op = op, q_result = label, q_arg1 = arg1, q_arg2 = arg2\<rparr> q;
     add_new_block q
   }"

definition gen_return :: "quadr_arg_t \<Rightarrow> quadr_st \<Rightarrow> quadr_st option" where
  "gen_return arg q =
     add_quadr (cur_block q) \<lparr>q_op = Q_RETURN, q_result = QA_NONE, q_arg1 = arg, q_arg2 = QA_NONE\<rparr> q"

definition gen_quadr_return :: "quadr_st \<Rightarrow> quadr_st option" where
  "gen_quadr_return q = gen_return QA_NONE q"

definition gen_copy_var :: "var_id \<Rightarrow> var_id \<Rightarrow> quadr_st \<Rightarrow> quadr_st option" where
  "gen_copy_var var0 var q = gen_copy var0 (QA_VAR var) q"

subsection \<open>Calls\<close>

fun add_params :: "quadr_arg_t list \<Rightarrow> quadr_st \<Rightarrow> quadr_st option" where
  \<comment> \<open>the second loop of \<open>gen_call\<close>\<close>
  "add_params [] q = Some q"
| "add_params (a # as) q = do {
     q \<leftarrow> add_quadr (cur_block q) \<lparr>q_op = Q_PARAM, q_result = QA_NONE, q_arg1 = a, q_arg2 = QA_NONE\<rparr> q;
     add_params as q
   }"

definition emit_call ::
  "decl_env \<Rightarrow> sym \<Rightarrow> type_t option \<Rightarrow> quadr_arg_t list \<Rightarrow> quadr_st \<Rightarrow> (quadr_arg_t \<times> quadr_st) option"
where
  \<comment> \<open>\<open>gen_call\<close> after its first loop; \<open>params\<close> is \<open>param_lst\<close>, the last argument first\<close>
  "emit_call D s ty params q = do {
     q \<leftarrow> add_params params q;
     f \<leftarrow> sym_func D s;
     t \<leftarrow> ty;
     (r, q) \<leftarrow> (if t \<noteq> type_void then do { (v, q) \<leftarrow> new_var t q; Some (QA_VAR v, q) }
                else Some (QA_NONE, q));
     q \<leftarrow> add_quadr (cur_block q)
       \<lparr>q_op = Q_CALL, q_result = r, q_arg1 = QA_FUNC f, q_arg2 = QA_NONE\<rparr> q;
     Some (r, q)
   }"

subsection \<open>Expressions\<close>

fun binop_op :: "node_type_t \<Rightarrow> quadr_op_t option" where
  "binop_op NODE_ADD = Some Q_ADD"
| "binop_op NODE_SUB = Some Q_SUB"
| "binop_op NODE_MUL = Some Q_MUL"
| "binop_op NODE_DIV = Some Q_DIV"
| "binop_op NODE_MOD = Some Q_MOD"
| "binop_op _ = None"

definition is_bool_value :: "expr \<Rightarrow> bool" where
  \<comment> \<open>the first test of \<open>gen_quadr_expr\<close>\<close>
  "is_bool_value e \<longleftrightarrow> expr_node e \<noteq> NODE_IDENT \<and> expr_node e \<noteq> NODE_ARRAY \<and>
     expr_type e = Some type_boolean"

function (sequential)
  gen_quadr_expr :: "decl_env \<Rightarrow> expr \<Rightarrow> quadr_st \<Rightarrow> (quadr_arg_t \<times> quadr_st) option"
  and gen_value :: "decl_env \<Rightarrow> expr \<Rightarrow> quadr_st \<Rightarrow> (quadr_arg_t \<times> quadr_st) option"
  and gen_quadr_bool_expr :: "decl_env \<Rightarrow> expr \<Rightarrow> block_id \<Rightarrow> bool \<Rightarrow> quadr_st \<Rightarrow> quadr_st option"
  and gen_call ::
    "decl_env \<Rightarrow> sym \<Rightarrow> type_t option \<Rightarrow> (src_pos_t \<times> expr) list \<Rightarrow> quadr_st \<Rightarrow> (quadr_arg_t \<times> quadr_st) option"
  and gen_args ::
    "decl_env \<Rightarrow> (src_pos_t \<times> expr) list \<Rightarrow> quadr_arg_t list \<Rightarrow> quadr_st \<Rightarrow>
      (quadr_arg_t list \<times> quadr_st) option"
where
  "gen_quadr_expr D e q =
     (if is_bool_value e then do {
        (var, q) \<leftarrow> new_var type_boolean q;
        let (if_true, q) = new_basic_block q in do {
          q \<leftarrow> gen_quadr_bool_expr D e if_true True q;
          q \<leftarrow> add_new_block q;
          let (end, q) = new_basic_block q in do {
            q \<leftarrow> gen_copy var (QA_INT 0) q;
            q \<leftarrow> gen_goto end q;
            q \<leftarrow> add_basic_blocks if_true q;
            q \<leftarrow> gen_copy var (QA_INT 1) q;
            q \<leftarrow> add_basic_blocks end q;
            Some (QA_VAR var, q)
          }
        }
      }
      else gen_value D e q)"
| "gen_value D (BINARY nt p ty l r) q = do {
     op \<leftarrow> binop_op nt;
     t \<leftarrow> ty;
     (v, q) \<leftarrow> new_var t q;
     (a1, q) \<leftarrow> gen_quadr_expr D l q;
     (a2, q) \<leftarrow> gen_quadr_expr D r q;
     q \<leftarrow> add_quadr (cur_block q) \<lparr>q_op = op, q_result = QA_VAR v, q_arg1 = a1, q_arg2 = a2\<rparr> q;
     Some (QA_VAR v, q)
   }"
| "gen_value D (INT_NODE p ty v) q = do { t \<leftarrow> ty; quadr_arg (cons t) (VA_INT v) q }"
| "gen_value D (DOUBLE_NODE p ty v) q = do { t \<leftarrow> ty; quadr_arg (cons t) (VA_DOUBLE v) q }"
| "gen_value D (BOOL_NODE p ty v) q = do { t \<leftarrow> ty; quadr_arg (cons t) (VA_INT v) q }"
| "gen_value D (STR_NODE p ty s) q = Some (QA_STR s, q)"
| "gen_value D (IDENT p ty s) q = do { v \<leftarrow> sym_var D s; Some (QA_VAR v, q) }"
| "gen_value D (ARRAY p ty s i) q = do {
     base \<leftarrow> sym_var D s;
     check (base < length (vars q));
     (case v_type (vars q ! base) of
        array_type _ b n \<Rightarrow> do {
          (tmp1, q) \<leftarrow> new_var b q;
          (off, q) \<leftarrow> gen_quadr_expr D i q;
          (ptr, q) \<leftarrow> gen_get_addr base q;
          q \<leftarrow> gen_read_ptr tmp1 ptr off q;
          Some (QA_VAR tmp1, q)
        }
      | _ \<Rightarrow> None)
   }"
| "gen_value D (CALL p ty s as) q = gen_call D s ty as q"
| "gen_value D (UNARY nt p ty a) q =
     (if nt = NODE_PLUS then gen_quadr_expr D a q
      else if nt = NODE_NEG then do {
        t \<leftarrow> ty;
        (v, q) \<leftarrow> new_var t q;
        (a1, q) \<leftarrow> quadr_arg (cons t) (VA_DOUBLE 0) q;
        (a2, q) \<leftarrow> gen_quadr_expr D a q;
        q \<leftarrow> add_quadr (cur_block q) \<lparr>q_op = Q_SUB, q_result = QA_VAR v, q_arg1 = a1, q_arg2 = a2\<rparr> q;
        Some (QA_VAR v, q)
      }
      else if nt = NODE_NOT then do {
        t \<leftarrow> ty;
        check (t = type_boolean);
        (v, q) \<leftarrow> new_var t q;
        (a1, q) \<leftarrow> quadr_arg (cons t) (VA_INT 1) q;
        (a2, q) \<leftarrow> gen_quadr_expr D a q;
        q \<leftarrow> add_quadr (cur_block q) \<lparr>q_op = Q_SUB, q_result = QA_VAR v, q_arg1 = a1, q_arg2 = a2\<rparr> q;
        Some (QA_VAR v, q)
      }
      else None)"
| "gen_quadr_bool_expr D (BINARY nt p ty l r) jmp_dest jmp_if_true q = do {
     check (ty = Some type_boolean);
     if is_cmp_op nt then do {
       (label, q) \<leftarrow> quadr_arg_label jmp_dest q;
       (a1, q) \<leftarrow> gen_quadr_expr D l q;
       (a2, q) \<leftarrow> gen_quadr_expr D r q;
       op \<leftarrow> quadr_if_op nt jmp_if_true;
       gen_if op label a1 a2 q
     }
     else if nt = NODE_AND then
       if jmp_if_true then
         let (end, q) = new_basic_block q in do {
           q \<leftarrow> gen_quadr_bool_expr D l end False q;
           q \<leftarrow> gen_quadr_bool_expr D r end False q;
           q \<leftarrow> gen_goto jmp_dest q;
           add_basic_blocks end q
         }
       else do {
         q \<leftarrow> gen_quadr_bool_expr D l jmp_dest False q;
         gen_quadr_bool_expr D r jmp_dest False q
       }
     else if nt = NODE_OR then
       if \<not> jmp_if_true then
         let (end, q) = new_basic_block q in do {
           q \<leftarrow> gen_quadr_bool_expr D l end True q;
           q \<leftarrow> gen_quadr_bool_expr D r end True q;
           q \<leftarrow> gen_goto jmp_dest q;
           add_basic_blocks end q
         }
       else do {
         q \<leftarrow> gen_quadr_bool_expr D l jmp_dest True q;
         gen_quadr_bool_expr D r jmp_dest True q
       }
     else None
   }"
| "gen_quadr_bool_expr D (UNARY nt p ty a) jmp_dest jmp_if_true q = do {
     check (ty = Some type_boolean);
     if nt = NODE_NOT then gen_quadr_bool_expr D a jmp_dest (\<not> jmp_if_true) q else None
   }"
| "gen_quadr_bool_expr D (BOOL_NODE p ty v) jmp_dest jmp_if_true q = do {
     check (ty = Some type_boolean);
     if (v \<noteq> 0 \<and> jmp_if_true) \<or> (v = 0 \<and> \<not> jmp_if_true) then gen_goto jmp_dest q else Some q
   }"
| "gen_quadr_bool_expr D (IDENT p ty s) jmp_dest jmp_if_true q = do {
     check (ty = Some type_boolean);
     v \<leftarrow> sym_var D s;
     (label, q) \<leftarrow> quadr_arg_label jmp_dest q;
     (zero, q) \<leftarrow> quadr_arg TYPE_BOOLEAN (VA_INT 0) q;
     op \<leftarrow> quadr_if_op NODE_NEQ jmp_if_true;
     gen_if op label (QA_VAR v) zero q
   }"
| "gen_quadr_bool_expr D (CALL p ty s as) jmp_dest jmp_if_true q = do {
     check (ty = Some type_boolean);
     (label, q) \<leftarrow> quadr_arg_label jmp_dest q;
     (a1, q) \<leftarrow> gen_call D s ty as q;
     (zero, q) \<leftarrow> quadr_arg TYPE_BOOLEAN (VA_INT 0) q;
     op \<leftarrow> quadr_if_op NODE_NEQ jmp_if_true;
     gen_if op label a1 zero q
   }"
| "gen_quadr_bool_expr D e jmp_dest jmp_if_true q = None"
| "gen_call D s ty as q = do {
     (params, q) \<leftarrow> gen_args D as [] q;
     emit_call D s ty params q
   }"
| "gen_args D [] params q = Some (params, q)"
| "gen_args D ((p, a) # as) params q = do {
     (x, q) \<leftarrow> gen_quadr_expr D a q;
     gen_args D as (x # params) q
   }"
  by pat_completeness auto
termination
  by (relation "measure (\<lambda>x. case x of
        Inl (Inl (D, e, q)) \<Rightarrow> 4 * size e + 3
      | Inl (Inr (D, e, q)) \<Rightarrow> 4 * size e + 2
      | Inr (Inl (D, e, b, j, q)) \<Rightarrow> 4 * size e + 2
      | Inr (Inr (Inl (D, s, ty, as, q))) \<Rightarrow> 4 * size_list (size_prod (\<lambda>_. 0) size) as + 1
      | Inr (Inr (Inr (D, as, ps, q))) \<Rightarrow> 4 * size_list (size_prod (\<lambda>_. 0) size) as)")
     auto

declare gen_quadr_expr.simps [simp del]

subsection \<open>Instructions\<close>

definition gen_assign :: "decl_env \<Rightarrow> var_id \<Rightarrow> expr \<Rightarrow> quadr_st \<Rightarrow> quadr_st option" where
  "gen_assign D var e q = do { (a, q) \<leftarrow> gen_quadr_expr D e q; gen_copy var a q }"

text \<open>The case \<open>NODE_ASSIGN\<close> of \<open>gen_quadr\<close>.\<close>

definition gen_assign_node :: "decl_env \<Rightarrow> expr \<Rightarrow> expr \<Rightarrow> quadr_st \<Rightarrow> quadr_st option" where
  "gen_assign_node D lvalue e q =
     (case lvalue of
        IDENT p ty s \<Rightarrow> do { v \<leftarrow> sym_var D s; gen_assign D v e q }
      | ARRAY p ty s i \<Rightarrow> do {
          (value, q) \<leftarrow> gen_quadr_expr D e q;
          (off, q) \<leftarrow> gen_quadr_expr D i q;
          v \<leftarrow> sym_var D s;
          (ptr, q) \<leftarrow> gen_get_addr v q;
          gen_write_ptr ptr off value q
        }
      | _ \<Rightarrow> None)"

definition double_one :: double where "double_one = 0x3FF0000000000000"

definition gen_one :: "type_t \<Rightarrow> quadr_st \<Rightarrow> (quadr_arg_t \<times> quadr_st) option" where
  "gen_one t q =
     (if t = type_double then quadr_arg TYPE_DOUBLE (VA_DOUBLE double_one) q
      else quadr_arg TYPE_INT (VA_INT 1) q)"

text \<open>
  The cases \<open>NODE_INC\<close> and \<open>NODE_DEC\<close>.  For an array element the code casts the type
  of the lvalue, which is the type of the element, to \<open>array_type_t *\<close> and reads its field
  \<open>basic_type\<close>: the read is past the end of the object when that type is not an array type.
\<close>

definition gen_inc_node :: "decl_env \<Rightarrow> quadr_op_t \<Rightarrow> expr \<Rightarrow> quadr_st \<Rightarrow> quadr_st option" where
  "gen_inc_node D op lvalue q =
     (case lvalue of
        IDENT p ty s \<Rightarrow> do {
          t \<leftarrow> ty;
          v \<leftarrow> sym_var D s;
          check (t = type_double \<or> t = type_int);
          (one, q) \<leftarrow> gen_one t q;
          gen_binop op v (QA_VAR v) one q
        }
      | ARRAY p ty s i \<Rightarrow> do {
          lt \<leftarrow> ty;
          t \<leftarrow> (case lt of array_type _ b n \<Rightarrow> Some b | _ \<Rightarrow> None);
          check (t = type_double \<or> t = type_int);
          (tmp, q) \<leftarrow> new_var t q;
          (off, q) \<leftarrow> gen_quadr_expr D i q;
          v \<leftarrow> sym_var D s;
          (ptr, q) \<leftarrow> gen_get_addr v q;
          q \<leftarrow> gen_read_ptr tmp ptr off q;
          (one, q) \<leftarrow> gen_one t q;
          q \<leftarrow> gen_binop op v (QA_VAR v) one q;
          (ptr, q) \<leftarrow> gen_get_addr v q;
          gen_write_ptr ptr off (QA_VAR tmp) q
        }
      | _ \<Rightarrow> None)"

definition gen_return_node :: "decl_env \<Rightarrow> expr option \<Rightarrow> quadr_st \<Rightarrow> quadr_st option" where
  "gen_return_node D e q = do {
     (a, q) \<leftarrow> (case e of Some e \<Rightarrow> gen_quadr_expr D e q | None \<Rightarrow> Some (QA_NONE, q));
     q \<leftarrow> gen_return a q;
     add_new_block q
   }"

definition gen_quadr :: "decl_env \<Rightarrow> node \<Rightarrow> quadr_st \<Rightarrow> quadr_st option" where
  "gen_quadr D n q =
     (case n of
        EXPR_NODE e \<Rightarrow> do { (a, q) \<leftarrow> gen_quadr_expr D e q; Some q }
      | ASSIGN p lv e \<Rightarrow> gen_assign_node D lv e q
      | INC p lv \<Rightarrow> gen_inc_node D Q_ADD lv q
      | DEC p lv \<Rightarrow> gen_inc_node D Q_SUB lv q
      | RETURN p e \<Rightarrow> gen_return_node D e q
      | _ \<Rightarrow> None)"

end
