(* ===== verification/Semantic.thy ===== *)
theory Semantic
  imports Typecheck_Correct Gen
begin

text \<open>
  The context checks of \<open>src/src/tree.c\<close> (\<open>semantic_check\<close>), which walk over the program
  once, check each instruction and generate its quadruples as long as no error has been
  reported; \<open>declare_builtins\<close> of \<open>jl.c\<close> and the function case of \<open>new_node\<close>, which
  declare the functions before.

  The state adds to the declarations the statics of this part and the state of the code
  generator.  The result of \<open>do_semantic_check\<close> is what the code writes to
  \<open>*was_return\<close>.
\<close>

record comp_st = tree_st +
  qst :: quadr_st
  suppress_code_generation :: bool
  last_func_type :: "type_t option"
  main_type :: "type_t option"
  main_sym :: "sym option"
  was_main :: bool

definition init_st :: "bool \<Rightarrow> comp_st" where
  "init_st no_gencode =
     tree_st.extend decl_init \<lparr>qst = quadr_init, suppress_code_generation = no_gencode,
       last_func_type = None, main_type = None, main_sym = None, was_main = False\<rparr>"

definition should_generate_code :: "comp_st \<Rightarrow> bool" where
  "should_generate_code st \<longleftrightarrow> errors_num st = 0 \<and> \<not> suppress_code_generation st"

definition on_qst :: "(quadr_st \<Rightarrow> quadr_st option) \<Rightarrow> comp_st \<Rightarrow> comp_st option" where
  "on_qst f st = do { q \<leftarrow> f (qst st); Some (st\<lparr>qst := q\<rparr>) }"

definition when_gen :: "(quadr_st \<Rightarrow> quadr_st option) \<Rightarrow> comp_st \<Rightarrow> comp_st option" where
  "when_gen f st = (if should_generate_code st then on_qst f st else Some st)"

definition gencode_node :: "node \<Rightarrow> comp_st \<Rightarrow> comp_st option" where
  \<comment> \<open>\<open>gencode\<close>\<close>
  "gencode_node n st = when_gen (gen_quadr (lookup st) n) st"

definition declare_var_st :: "type_t \<Rightarrow> comp_st \<Rightarrow> (var_id \<times> comp_st) option" where
  "declare_var_st t st = do { (v, q) \<leftarrow> declare_var0 t (qst st); Some (v, st\<lparr>qst := q\<rparr>) }"

subsection \<open>Simple instructions\<close>

text \<open>An expression used as an instruction.\<close>

definition sem_expr :: "expr \<Rightarrow> comp_st \<Rightarrow> comp_st option" where
  "sem_expr e st = do {
     (ret, e, st) \<leftarrow> type_check e st;
     st \<leftarrow>
       (if ret then do {
          t \<leftarrow> expr_type e;
          Some (if \<not> type_equiv t type_void then error (expr_pos e) ''invalid statement'' st else st)
        }
        else Some st);
     gencode_node (EXPR_NODE e) st
   }"

text \<open>
  One declarator with an initializer, one without, and one of an array.  The
  value is computed into \<open>var0\<close> before the symbol is declared.
\<close>

definition sem_var_init :: "type_t \<Rightarrow> expr \<Rightarrow> comp_st \<Rightarrow> (var_id \<times> comp_st) option" where
  "sem_var_init t init st = do {
     (ret, init, st) \<leftarrow> type_check init st;
     st \<leftarrow>
       (if ret then do {
          it \<leftarrow> expr_type init;
          Some (if \<not> type_equiv it t then error (expr_pos init) ''type error'' st else st)
        }
        else Some st);
     (var0, st) \<leftarrow> declare_var_st t st;
     st \<leftarrow> when_gen (gen_assign (lookup st) var0 init) st;
     Some (var0, st)
   }"

definition sem_declarator :: "type_t \<Rightarrow> declarator_t \<Rightarrow> comp_st \<Rightarrow> comp_st option" where
  "sem_declarator t declar st =
     (case declar of
        VAR_DECLARATOR p s init \<Rightarrow> do {
          (var0, st) \<leftarrow>
            (case init of
               Some e \<Rightarrow> do { (v, st) \<leftarrow> sem_var_init t e st; Some (Some v, st) }
             | None \<Rightarrow> Some (None, st));
          st \<leftarrow> declare_sym s t p st;
          (var, st) \<leftarrow> declare_var_st t st;
          st \<leftarrow> set_decl_u s (U_VAR var) st;
          (case init of
             Some e \<Rightarrow> do {
               st \<leftarrow> set_initialized s st;
               when_gen (\<lambda>q. do { v0 \<leftarrow> var0; gen_copy_var var v0 q }) st
             }
           | None \<Rightarrow> Some st)
        }
      | ARRAY_DECLARATOR p s n \<Rightarrow>
          let (st, n) = (if n <s 0 then (error p ''negative array size'' st, 0x7FFFFFFF) else (st, n));
              (at, next) = cons_type_array t n (type_next st);
              st = st\<lparr>type_next := next\<rparr>
          in do {
            st \<leftarrow> declare_sym s at p st;
            st \<leftarrow> set_initialized s st;
            (var, st) \<leftarrow> declare_var_st at st;
            set_decl_u s (U_VAR var) st
          })"

fun sem_declarators :: "type_t \<Rightarrow> declarator_t list \<Rightarrow> comp_st \<Rightarrow> comp_st option" where
  "sem_declarators t [] st = Some st"
| "sem_declarators t (d # ds) st = do { st \<leftarrow> sem_declarator t d st; sem_declarators t ds st }"

definition sem_declaration :: "src_pos_t \<Rightarrow> type_t \<Rightarrow> declarator_t list \<Rightarrow> comp_st \<Rightarrow> comp_st option" where
  "sem_declaration p t ds st =
     (if t = type_void then Some (error p ''declaring identifier(s) as void'' st)
      else sem_declarators t ds st)"

definition sem_assign :: "src_pos_t \<Rightarrow> expr \<Rightarrow> expr \<Rightarrow> comp_st \<Rightarrow> comp_st option" where
  "sem_assign p lvalue e st = do {
     (flag, e, st) \<leftarrow> type_check e st;
     (ret, lvalue, st) \<leftarrow> check_lvalue lvalue st;
     st \<leftarrow>
       (if ret \<and> flag then do {
          t1 \<leftarrow> expr_type e;
          t2 \<leftarrow> expr_type lvalue;
          Some (if \<not> type_equiv t1 t2 then error (expr_pos e) ''type error'' st else st)
        }
        else Some st);
     gencode_node (ASSIGN p lvalue e) st
   }"

definition sem_inc :: "bool \<Rightarrow> src_pos_t \<Rightarrow> expr \<Rightarrow> comp_st \<Rightarrow> comp_st option" where
  "sem_inc inc p lvalue st = do {
     (ret, lvalue, st) \<leftarrow> check_lvalue lvalue st;
     let st = (if ret \<and> expr_type lvalue \<noteq> Some type_int then error p ''type error'' st else st)
     in gencode_node (if inc then INC p lvalue else DEC p lvalue) st
   }"

text \<open>The check of a condition: the typed condition and the state.\<close>

definition sem_cond :: "expr \<Rightarrow> string \<Rightarrow> comp_st \<Rightarrow> (expr \<times> comp_st) option" where
  "sem_cond cond msg st = do {
     (ret, cond, st) \<leftarrow> type_check cond st;
     (if ret then do {
        t \<leftarrow> expr_type cond;
        Some (cond, if \<not> type_equiv t type_boolean then error (expr_pos cond) msg st else st)
      }
      else Some (cond, st))
   }"

definition sem_return :: "src_pos_t \<Rightarrow> expr option \<Rightarrow> comp_st \<Rightarrow> comp_st option" where
  "sem_return p e st = do {
     ft \<leftarrow> last_func_type st;
     rt \<leftarrow> (case ft of func_type _ rt _ _ \<Rightarrow> Some rt | _ \<Rightarrow> None);
     (e, st) \<leftarrow>
       (case e of
          Some e \<Rightarrow>
            if rt \<noteq> type_void then do {
              (ret, e, st) \<leftarrow> type_check e st;
              (if ret then do {
                 t \<leftarrow> expr_type e;
                 Some (Some e, if \<not> type_equiv rt t then error p ''return type error'' st else st)
               }
               else Some (Some e, st))
            }
            else Some (Some e, error p ''return type error'' st)
        | None \<Rightarrow>
            Some (None, if rt \<noteq> type_void then error p ''return type error'' st else st));
     gencode_node (RETURN p e) st
   }"

subsection \<open>Jumps around the parts of an instruction\<close>

text \<open>
  The blocks that a compound instruction makes live in local variables of the C function
  that are set only while code is generated; reading one that is not set is \<open>None\<close>.
\<close>

definition start_cond :: "expr \<Rightarrow> comp_st \<Rightarrow> (block_id option \<times> comp_st) option" where
  \<comment> \<open>before the \<open>then\<close> part: jump to \<open>if_false\<close>\<close>
  "start_cond cond st =
     (if should_generate_code st then
        let (if_false, q) = new_basic_block (qst st) in do {
          q \<leftarrow> gen_quadr_bool_expr (lookup st) cond if_false False q;
          q \<leftarrow> add_new_block q;
          Some (Some if_false, st\<lparr>qst := q\<rparr>)
        }
      else Some (None, st))"

definition add_blocks_st :: "block_id option \<Rightarrow> comp_st \<Rightarrow> comp_st option" where
  "add_blocks_st b st = when_gen (\<lambda>q. do { b \<leftarrow> b; add_basic_blocks b q }) st"

definition start_else :: "block_id option \<Rightarrow> comp_st \<Rightarrow> (block_id option \<times> comp_st) option" where
  \<comment> \<open>between \<open>then\<close> and \<open>else\<close>\<close>
  "start_else if_false st =
     (if should_generate_code st then
        let (if_end, q) = new_basic_block (qst st) in do {
          q \<leftarrow> gen_goto if_end q;
          b \<leftarrow> if_false;
          q \<leftarrow> add_basic_blocks b q;
          Some (Some if_end, st\<lparr>qst := q\<rparr>)
        }
      else Some (None, st))"

definition start_loop :: "comp_st \<Rightarrow> ((block_id \<times> block_id) option \<times> comp_st) option" where
  \<comment> \<open>before the body of a loop: jump to the condition, which comes after the body\<close>
  "start_loop st =
     (if should_generate_code st then
        let (b_cond, q) = new_basic_block (qst st) in do {
          q \<leftarrow> gen_goto b_cond q;
          let (b_body, q) = new_basic_block q in do {
            q \<leftarrow> add_basic_blocks b_body q;
            Some (Some (b_cond, b_body), st\<lparr>qst := q\<rparr>)
          }
        }
      else Some (None, st))"

definition end_loop :: "expr \<Rightarrow> (block_id \<times> block_id) option \<Rightarrow> comp_st \<Rightarrow> comp_st option" where
  "end_loop cond bs st =
     when_gen (\<lambda>q. do {
       (b_cond, b_body) \<leftarrow> bs;
       q \<leftarrow> add_basic_blocks b_cond q;
       q \<leftarrow> gen_quadr_bool_expr (lookup st) cond b_body True q;
       add_new_block q
     }) st"

subsection \<open>The walk over the program\<close>

fun do_semantic_check :: "node \<Rightarrow> comp_st \<Rightarrow> (bool \<times> comp_st) option"
  and sem_instrs :: "(bool \<times> node) list \<Rightarrow> comp_st \<Rightarrow> (bool \<times> comp_st) option"
where
  "do_semantic_check NULL_NODE st = Some (False, st)"
| "do_semantic_check (EXPR_NODE e) st = do { st \<leftarrow> sem_expr e st; Some (False, st) }"
| "do_semantic_check (INSTR is) st = sem_instrs is st"
| "do_semantic_check (DECLARATION p t ds) st = do { st \<leftarrow> sem_declaration p t ds st; Some (False, st) }"
| "do_semantic_check (ASSIGN p lv e) st = do { st \<leftarrow> sem_assign p lv e st; Some (False, st) }"
| "do_semantic_check (INC p lv) st = do { st \<leftarrow> sem_inc True p lv st; Some (False, st) }"
| "do_semantic_check (DEC p lv) st = do { st \<leftarrow> sem_inc False p lv st; Some (False, st) }"
| "do_semantic_check (IF cond th) st = do {
     (cond, st) \<leftarrow> sem_cond cond ''type error'' st;
     (if_false, st) \<leftarrow> start_cond cond st;
     (dummy_wr, st) \<leftarrow> do_semantic_check th st;
     st \<leftarrow> add_blocks_st if_false st;
     Some (False, st)
   }"
| "do_semantic_check (IF_ELSE cond th el) st = do {
     (cond, st) \<leftarrow> sem_cond cond ''type error'' st;
     (if_false, st) \<leftarrow> start_cond cond st;
     (wr1, st) \<leftarrow> do_semantic_check th st;
     (if_end, st) \<leftarrow> start_else if_false st;
     (wr2, st) \<leftarrow> do_semantic_check el st;
     st \<leftarrow> add_blocks_st if_end st;
     Some (wr1 \<and> wr2, st)
   }"
| "do_semantic_check (WHILE cond body) st = do {
     (cond, st) \<leftarrow> sem_cond cond ''type error: expected boolean expression'' st;
     (bs, st) \<leftarrow> start_loop st;
     (dummy_wr, st) \<leftarrow> do_semantic_check body st;
     st \<leftarrow> end_loop cond bs st;
     Some (False, st)
   }"
| "do_semantic_check (FOR instr1 cond instr3 body) st = do {
     (dummy_wr, st) \<leftarrow> do_semantic_check instr1 st;
     (cond, st) \<leftarrow> sem_cond cond ''type error: expected boolean expression'' st;
     (bs, st) \<leftarrow> start_loop st;
     (dummy_wr, st) \<leftarrow> do_semantic_check body st;
     (dummy_wr, st) \<leftarrow> do_semantic_check instr3 st;
     st \<leftarrow> end_loop cond bs st;
     Some (False, st)
   }"
| "do_semantic_check (RETURN p e) st = do { st \<leftarrow> sem_return p e st; Some (True, st) }"
| "sem_instrs [] st = Some (False, st)"
| "sem_instrs ((block, n) # is) st = do {
     st \<leftarrow> (if block then push_scope st else Some st);
     (wr1, st) \<leftarrow> do_semantic_check n st;
     st \<leftarrow> (if block then pop_scope st else Some st);
     (wr, st) \<leftarrow> sem_instrs is st;
     Some (wr1 \<or> wr, st)
   }"

subsection \<open>Functions\<close>

text \<open>\<open>new_node(NODE_FUNC, ...)\<close>: the parser declares each function as it reads it.\<close>

definition declare_func ::
  "sym \<Rightarrow> type_t \<Rightarrow> type_t list \<Rightarrow> quadr_func_tag_t \<Rightarrow> src_pos_t \<Rightarrow> comp_st \<Rightarrow> (type_t \<times> comp_st) option"
where
  "declare_func s ret args tag p st =
     (let (ft, next) = cons_type_func ret (length args) args (type_next st);
          st = st\<lparr>type_next := next\<rparr>
      in do {
        st \<leftarrow> declare_sym s ft p st;
        (f, q) \<leftarrow> declare_function ft tag s (qst st);
        st \<leftarrow> set_decl_u s (U_FUNC f) (st\<lparr>qst := q\<rparr>);
        Some (ft, st)
      })"

definition new_func_node ::
  "type_t \<Rightarrow> sym \<Rightarrow> arg_t list \<Rightarrow> node \<Rightarrow> src_pos_t \<Rightarrow> comp_st \<Rightarrow> (func_t \<times> comp_st) option"
where
  "new_func_node ret s args body p st = do {
     (ft, st) \<leftarrow> declare_func s ret (map a_type args) QF_USER_DEFINED p st;
     Some (\<lparr>f_pos = p, f_type = ft, f_ident = s, f_args = args, f_body = body\<rparr>, st)
   }"

fun sem_args :: "arg_t list \<Rightarrow> comp_st \<Rightarrow> comp_st option" where
  "sem_args [] st = Some st"
| "sem_args (a # as) st = do {
     st \<leftarrow> declare_sym (a_ident a) (a_type a) (a_pos a) st;
     st \<leftarrow> set_initialized (a_ident a) st;
     (v, st) \<leftarrow> declare_var_st (a_type a) st;
     st \<leftarrow> set_decl_u (a_ident a) (U_VAR v) st;
     sem_args as st
   }"

definition return_type :: "type_t \<Rightarrow> type_t option" where
  "return_type t = (case t of func_type _ rt _ _ \<Rightarrow> Some rt | _ \<Rightarrow> None)"

definition is_block_node :: "node \<Rightarrow> bool" where
  "is_block_node n = (case n of INSTR ((b, m) # is) \<Rightarrow> b | _ \<Rightarrow> False)"

definition check_main :: "func_t \<Rightarrow> comp_st \<Rightarrow> comp_st option" where
  "check_main f st =
     (if Some (f_ident f) = main_sym st then do {
        mt \<leftarrow> main_type st;
        let st = st\<lparr>was_main := True\<rparr> in
        Some (if \<not> type_equiv (f_type f) mt
              then error (f_pos f) ''wrong type of function main()'' st else st)
      }
      else Some st)"

definition sem_func :: "func_t \<Rightarrow> comp_st \<Rightarrow> comp_st option" where
  "sem_func f st = do {
     st \<leftarrow> check_main f (st\<lparr>last_func_type := Some (f_type f)\<rparr>);
     st \<leftarrow> push_scope st;
     g \<leftarrow> sym_func (lookup st) (f_ident f);
     st \<leftarrow> on_qst (start_function g) st;
     st \<leftarrow> sem_args (f_args f) st;
     check (is_block_node (f_body f));
     (wr, st) \<leftarrow> do_semantic_check (f_body f) st;
     rt \<leftarrow> return_type (f_type f);
     let st = (if \<not> wr \<and> rt \<noteq> type_void
               then error (f_pos f) ''missing return statement in function'' st else st)
     in do {
       st \<leftarrow> (if \<not> wr \<and> rt = type_void
              then on_qst (\<lambda>q. do { q \<leftarrow> add_new_block q; gen_quadr_return q }) st
              else Some st);
       pop_scope (st\<lparr>qst := end_function (qst st)\<rparr>)
     }
   }"

fun sem_funcs :: "func_t list \<Rightarrow> comp_st \<Rightarrow> comp_st option" where
  "sem_funcs [] st = Some st"
| "sem_funcs (f # fs) st = do { st \<leftarrow> sem_func f st; sem_funcs fs st }"

definition semantic_check :: "func_t list \<Rightarrow> comp_st \<Rightarrow> comp_st option" where
  "semantic_check program st =
     (let (mt, next) = cons_type_func type_int 0 [] (type_next st);
          st = st\<lparr>last_func_type := None, was_main := False, main_sym := Some ''main'',
                  type_next := next, main_type := Some mt\<rparr>
      in do {
        st \<leftarrow> sem_funcs program st;
        Some (if \<not> was_main st
              then error \<lparr>line = 0, col = 0, len = 0\<rparr> ''no main function'' st else st)
      })"

text \<open>\<open>declare_builtins\<close> of \<open>jl.c\<close>.\<close>

fun declare_funcs ::
  "(sym \<times> type_t \<times> type_t list \<times> quadr_func_tag_t) list \<Rightarrow> comp_st \<Rightarrow> comp_st option"
where
  "declare_funcs [] st = Some st"
| "declare_funcs ((s, ret, args, tag) # fs) st = do {
     (ft, st) \<leftarrow> declare_func s ret args tag \<lparr>line = 0, col = 0, len = 0\<rparr> st;
     declare_funcs fs st
   }"

definition declare_builtins :: "comp_st \<Rightarrow> comp_st option" where
  "declare_builtins = declare_funcs
     [(''printInt'', type_void, [type_int], QF_PRINT_INT),
      (''printDouble'', type_void, [type_double], QF_PRINT_DOUBLE),
      (''printString'', type_void, [type_str], QF_PRINT_STRING),
      (''error'', type_void, [], QF_ERROR),
      (''readInt'', type_int, [], QF_READ_INT),
      (''readDouble'', type_double, [], QF_READ_DOUBLE)]"

end
