(* ===== verification/Flow.thy ===== *)
theory Flow
  imports Quadr Rbtree_Correct
begin

text \<open>
  \<open>src/src/flow.c\<close>: the flow graph and the liveness analysis, with the graph traversal of
  \<open>quadr.c\<close>.

  The red-black trees hold the sets of variables: \<open>live_def\<close> and \<open>live_out\<close> keys only,
  \<open>live_in\<close> variable descriptors, which the analysis changes in place.
\<close>

subsection \<open>Traversal of the blocks\<close>

text \<open>
  \<open>for (block = b; block != NULL; block = block->next)\<close> with a body that does not change
  \<open>next\<close>.  The fuel is the number of blocks ever made.
\<close>

fun for_blocks ::
  "nat \<Rightarrow> (block_id \<Rightarrow> quadr_st \<Rightarrow> quadr_st option) \<Rightarrow> block_id option \<Rightarrow> quadr_st \<Rightarrow> quadr_st option"
where
  "for_blocks n f None q = Some q"
| "for_blocks 0 f (Some b) q = None"
| "for_blocks (Suc n) f (Some b) q = do {
     q \<leftarrow> f b q;
     B \<leftarrow> blocks q b;
     for_blocks n f (nxt B) q
   }"

definition block_graph_zero_mark :: "block_id option \<Rightarrow> quadr_st \<Rightarrow> quadr_st option" where
  "block_graph_zero_mark rt q = do {
     q \<leftarrow> for_blocks (next_block_id q) (\<lambda>b. set_block b (\<lambda>B. B\<lparr>visited_mark := 0\<rparr>)) rt q;
     Some (q\<lparr>cur_visited_mark := 1\<rparr>)
   }"

definition set_root :: "block_id option \<Rightarrow> quadr_st \<Rightarrow> quadr_st" where
  "set_root rt q = q\<lparr>cur_visited_mark := 0, cur_root := rt\<rparr>"

definition begin_traversal :: "quadr_st \<Rightarrow> quadr_st option" where
  "begin_traversal q =
     (let q = q\<lparr>cur_visited_mark := cur_visited_mark q + 1\<rparr> in
      if cur_visited_mark q = 0 then block_graph_zero_mark (cur_root q) q else Some q)"

definition visited :: "block_id \<Rightarrow> quadr_st \<Rightarrow> bool option" where
  \<comment> \<open>an \<open>unsigned short\<close> is compared to a \<open>short\<close>, both converted to \<open>int\<close>\<close>
  "visited b q = do {
     B \<leftarrow> blocks q b;
     Some (uint (visited_mark B) = sint (cur_visited_mark q))
   }"

definition visit :: "block_id \<Rightarrow> quadr_st \<Rightarrow> quadr_st option" where
  "visit b q = set_block b (\<lambda>B. B\<lparr>visited_mark := cur_visited_mark q\<rparr>) q"

subsection \<open>The flow graph\<close>

definition block_children :: "basic_block_t \<Rightarrow> (block_id option \<times> block_id option) option" where
  "block_children B =
     (if lst B = [] then Some (nxt B, None)
      else
        let last = last (lst B) in
        if q_op last = Q_RETURN then Some (None, None)
        else if q_op last = Q_GOTO then
          (case q_result last of QA_LABEL l \<Rightarrow> Some (Some l, None) | _ \<Rightarrow> None)
        else if is_if_op (q_op last) then
          (case q_result last of QA_LABEL l \<Rightarrow> Some (Some l, nxt B) | _ \<Rightarrow> None)
        else Some (nxt B, None))"

definition set_children :: "block_id \<Rightarrow> quadr_st \<Rightarrow> quadr_st option" where
  "set_children b q = do {
     B \<leftarrow> blocks q b;
     (c1, c2) \<leftarrow> block_children B;
     set_block b (\<lambda>B. B\<lparr>child1 := c1, child2 := c2\<rparr>) q
   }"

definition create_block_graph :: "func_id \<Rightarrow> quadr_st \<Rightarrow> quadr_st option" where
  "create_block_graph func q = do {
     check (func < length (quadr_func q));
     let block = qf_blocks (quadr_func q ! func);
         q = set_root block q
     in for_blocks (next_block_id q) set_children block q
   }"

subsection \<open>The sets of one block\<close>

definition rb_delete_key :: "'d rbtree_t \<Rightarrow> var_id \<Rightarrow> 'd \<Rightarrow> 'd rbtree_t option" where
  \<comment> \<open>\<open>rb_delete_vk\<close> and \<open>rb_delete_vd\<close>\<close>
  "rb_delete_key tree var d =
     (case rb_search tree (var, d) of
        Some k \<Rightarrow> rb_delete tree (var, d)
      | None \<Rightarrow> Some tree)"

definition update_live ::
  "var_descr_t rbtree_t \<Rightarrow> unit rbtree_t \<Rightarrow> var_id \<Rightarrow> nat \<Rightarrow>
    (var_descr_t rbtree_t \<times> unit rbtree_t) option"
where
  "update_live use def var nud = do {
     let vd = \<lparr>loc = None, nearest_use_dist = of_nat nud\<rparr> in do {
       def \<leftarrow> rb_delete_key def var ();
       (node, use) \<leftarrow> rb_insert_if_absent use (var, vd);
       (case node of
          Some k \<Rightarrow> Some (rb_write use (fst k) ((snd k)\<lparr>nearest_use_dist := of_nat nud\<rparr>), def)
        | None \<Rightarrow> Some (use, def))
     }
   }"

definition update_arg ::
  "quadr_arg_t \<Rightarrow> nat \<Rightarrow> var_descr_t rbtree_t \<times> unit rbtree_t \<Rightarrow>
    (var_descr_t rbtree_t \<times> unit rbtree_t) option"
where
  "update_arg a i ud =
     (case a of QA_VAR var \<Rightarrow> update_live (fst ud) (snd ud) var i | _ \<Rightarrow> Some ud)"

definition update_result ::
  "quadr_t \<Rightarrow> nat \<Rightarrow> var_descr_t rbtree_t \<times> unit rbtree_t \<Rightarrow>
    (var_descr_t rbtree_t \<times> unit rbtree_t) option"
where
  "update_result quadr i ud =
     (case q_result quadr of
        QA_VAR var \<Rightarrow>
          if assigned_in_quadr quadr var then do {
            use \<leftarrow> rb_delete_key (fst ud) var \<lparr>loc = None, nearest_use_dist = of_nat i\<rparr>;
            (node, def) \<leftarrow> rb_insert_if_absent (snd ud) (var, ());
            Some (use, def)
          }
          else if used_in_quadr quadr var then update_live (fst ud) (snd ud) var i
          else Some ud
      | _ \<Rightarrow> Some ud)"

definition live_step ::
  "nat \<Rightarrow> quadr_t \<Rightarrow> var_descr_t rbtree_t \<times> unit rbtree_t \<Rightarrow>
    (var_descr_t rbtree_t \<times> unit rbtree_t) option"
where
  \<comment> \<open>the body of the second loop of \<open>compute_live_def_use\<close>\<close>
  "live_step i quadr ud = do {
     ud \<leftarrow> update_result quadr i ud;
     ud \<leftarrow> update_arg (q_arg1 quadr) i ud;
     update_arg (q_arg2 quadr) i ud
   }"

fun live_loop ::
  "nat \<Rightarrow> quadr_t list \<Rightarrow> var_descr_t rbtree_t \<times> unit rbtree_t \<Rightarrow>
    (var_descr_t rbtree_t \<times> unit rbtree_t) option"
where
  \<comment> \<open>the quadruples are \<open>qstack[i]\<close> and the following; the loop goes down to \<open>i\<close>\<close>
  "live_loop i [] ud = Some ud"
| "live_loop i (quadr # qs) ud = do {
     ud \<leftarrow> live_loop (i + 1) qs ud;
     live_step i quadr ud
   }"

definition compute_live_def_use :: "block_id \<Rightarrow> quadr_st \<Rightarrow> quadr_st option" where
  "compute_live_def_use b q = do {
     B \<leftarrow> blocks q b;
     fd \<leftarrow> flow_data B;
     (use, def) \<leftarrow> live_loop 0 (lst B) (rb_new, rb_new);
     set_block b (\<lambda>B. B\<lparr>flow_data := Some (fd\<lparr>live_def := Some def, live_in := Some use,
       live_out := Some rb_new, instr_num := length (lst B)\<rparr>)\<rparr>) q
   }"

subsection \<open>One step along an edge of the graph\<close>

definition get_fd :: "block_id \<Rightarrow> quadr_st \<Rightarrow> flow_data_t option" where
  "get_fd b q = do { B \<leftarrow> blocks q b; flow_data B }"

definition set_fd :: "block_id \<Rightarrow> (flow_data_t \<Rightarrow> flow_data_t) \<Rightarrow> quadr_st \<Rightarrow> quadr_st option" where
  "set_fd b g q = set_block b (\<lambda>B. B\<lparr>flow_data := map_option g (flow_data B)\<rparr>) q"

text \<open>
  The loop body of \<open>compute_in_out\<close> for one element \<open>vd\<close> of the tree \<open>live_in\<close> of
  \<open>child\<close>.  The static \<open>changed\<close> goes along with the state.  When the element is already
  in \<open>in\<close>, the code compares with, and writes to, the descriptor \<open>node->key\<close>, the element of
  the child.
\<close>

definition in_out_key ::
  "block_id \<Rightarrow> block_id \<Rightarrow> var_descr_t rb_key \<Rightarrow> bool \<times> quadr_st \<Rightarrow> (bool \<times> quadr_st) option"
where
  "in_out_key block child vd = (\<lambda>(changed, q). do {
     fd \<leftarrow> get_fd block q;
     def \<leftarrow> live_def fd;
     use \<leftarrow> live_in fd;
     (changed, q) \<leftarrow>
       (if rb_search def (fst vd, ()) = None then
          let nud = nearest_use_dist (snd vd) + of_nat (instr_num fd) in do {
            (node2, use) \<leftarrow> rb_insert_if_absent use (fst vd, \<lparr>loc = None, nearest_use_dist = nud\<rparr>);
            q \<leftarrow> set_fd block (\<lambda>fd. fd\<lparr>live_in := Some use\<rparr>) q;
            (if node2 \<noteq> None then
               if nearest_use_dist (snd vd) > nud then do {
                 q \<leftarrow> set_fd child (\<lambda>fd. fd\<lparr>live_in := map_option
                        (\<lambda>t. rb_write t (fst vd) ((snd vd)\<lparr>nearest_use_dist := nud\<rparr>)) (live_in fd)\<rparr>) q;
                 Some (changed, q)
               }
               else Some (changed, q)
             else Some (True, q))
          }
        else Some (changed, q));
     out \<leftarrow> live_out fd;
     (r, out) \<leftarrow> rb_insert_if_absent out (fst vd, ());
     q \<leftarrow> set_fd block (\<lambda>fd. fd\<lparr>live_out := Some out\<rparr>) q;
     Some (changed, q)
   })"

text \<open>
  \<open>compute_in_out\<close> on the subtree at \<open>node\<close> of the tree \<open>live_in\<close> of \<open>child\<close>.  The
  recursion runs over that tree as it is at the call: the tree may be that of \<open>block\<close> itself,
  but then every element is found, so that no insertion changes its shape.
\<close>

fun compute_in_out ::
  "block_id \<Rightarrow> block_id \<Rightarrow> var_descr_t rbnode_t \<Rightarrow> bool \<times> quadr_st \<Rightarrow> (bool \<times> quadr_st) option"
where
  "compute_in_out block child the_nil cq = Some cq"
| "compute_in_out block child (RBNODE c l vd r) cq = do {
     cq \<leftarrow> in_out_key block child vd cq;
     cq \<leftarrow> compute_in_out block child r cq;
     compute_in_out block child l cq
   }"

definition in_out_child :: "block_id \<Rightarrow> block_id option \<Rightarrow> bool \<times> quadr_st \<Rightarrow> (bool \<times> quadr_st) option" where
  "in_out_child block child cq =
     (case child of
        None \<Rightarrow> Some cq
      | Some c \<Rightarrow> do {
          fd \<leftarrow> get_fd c (snd cq);
          t \<leftarrow> live_in fd;
          compute_in_out block c (root t) cq
        })"

subsection \<open>One iteration, depth first\<close>

fun do_liveness :: "nat \<Rightarrow> block_id \<Rightarrow> bool \<times> quadr_st \<Rightarrow> (bool \<times> quadr_st) option"
  and liveness_child :: "nat \<Rightarrow> block_id option \<Rightarrow> bool \<times> quadr_st \<Rightarrow> (bool \<times> quadr_st) option"
where
  "do_liveness 0 b cq = None"
| "do_liveness (Suc n) b (changed, q) = do {
     B \<leftarrow> blocks q b;
     q \<leftarrow> visit b q;
     cq \<leftarrow> liveness_child n (child1 B) (changed, q);
     cq \<leftarrow> liveness_child n (child2 B) cq;
     cq \<leftarrow> in_out_child b (child1 B) cq;
     in_out_child b (child2 B) cq
   }"
| "liveness_child n None cq = Some cq"
| "liveness_child n (Some c) cq = do {
     v \<leftarrow> visited c (snd cq);
     if v then Some cq else do_liveness n c cq
   }"

fun liveness_loop :: "nat \<Rightarrow> block_id \<Rightarrow> quadr_st \<Rightarrow> quadr_st option" where
  \<comment> \<open>\<open>while (changed)\<close>\<close>
  "liveness_loop 0 rt q = None"
| "liveness_loop (Suc n) rt q = do {
     q \<leftarrow> begin_traversal q;
     (changed, q) \<leftarrow> do_liveness (next_block_id q + 1) rt (False, q);
     if changed then liveness_loop n rt q else Some q
   }"

subsection \<open>The result\<close>

fun make_live_at_end :: "nat \<Rightarrow> unit rbnode_t \<Rightarrow> var_id list \<Rightarrow> var_id list option" where
  \<comment> \<open>the array filled so far; the assertion is \<open>i < block->lsize\<close>\<close>
  "make_live_at_end lsz the_nil acc = Some acc"
| "make_live_at_end lsz (RBNODE c l k r) acc = do {
     check (length acc < lsz);
     let acc = acc @ [fst k] in
     if l \<noteq> the_nil then
       if r \<noteq> the_nil then do {
         acc \<leftarrow> make_live_at_end lsz l acc;
         make_live_at_end lsz r acc
       }
       else make_live_at_end lsz l acc
     else make_live_at_end lsz r acc
   }"

definition finish_liveness_computation :: "block_id \<Rightarrow> quadr_st \<Rightarrow> quadr_st option" where
  "finish_liveness_computation b q = do {
     fd \<leftarrow> get_fd b q;
     out \<leftarrow> live_out fd;
     let lsz = unat (rb_size out) in do {
       vs \<leftarrow> make_live_at_end lsz (root out) [];
       check (length vs = unat (rb_size out));
       set_block b (\<lambda>B. B\<lparr>vars_at_start := live_in fd, lsize := lsz, live_at_end := vs,
         flow_data := Some (fd\<lparr>live_def := None, live_out := None, live_in := None\<rparr>)\<rparr>) q
     }
   }"

definition liveness_fuel :: "quadr_st \<Rightarrow> nat" where
  "liveness_fuel q = next_block_id q * length (vars q) + 1"

definition analyze_liveness :: "block_id \<Rightarrow> quadr_st \<Rightarrow> quadr_st option" where
  "analyze_liveness rt q = do {
     q \<leftarrow> for_blocks (next_block_id q) compute_live_def_use (Some rt) q;
     q \<leftarrow> liveness_loop (liveness_fuel q) rt q;
     for_blocks (next_block_id q) finish_liveness_computation (Some rt) q
   }"

definition new_flow_data :: flow_data_t where
  "new_flow_data = \<lparr>live_def = None, live_in = None, live_out = None, instr_num = 0\<rparr>"

definition perform_global_optimizations :: "func_id \<Rightarrow> quadr_st \<Rightarrow> quadr_st" where
  \<comment> \<open>\<open>opt.cpp\<close>: the body is empty\<close>
  "perform_global_optimizations func q = q"

definition analyze_flow :: "func_id \<Rightarrow> quadr_st \<Rightarrow> quadr_st option" where
  "analyze_flow func q = do {
     check (func < length (quadr_func q));
     (case qf_blocks (quadr_func q ! func) of
        None \<Rightarrow> Some q
      | Some rt \<Rightarrow> do {
          q \<leftarrow> for_blocks (next_block_id q)
                (\<lambda>b. set_block b (\<lambda>B. B\<lparr>flow_data := Some new_flow_data\<rparr>)) (Some rt) q;
          q \<leftarrow> analyze_liveness rt q;
          let q = perform_global_optimizations func q in
          for_blocks (next_block_id q) (\<lambda>b. set_block b (\<lambda>B. B\<lparr>flow_data := None\<rparr>)) (Some rt) q
        })
   }"

subsection \<open>The distance to the next use\<close>

fun use_dist_loop :: "quadr_st \<Rightarrow> var_id \<Rightarrow> nat \<Rightarrow> quadr_t list \<Rightarrow> (nat \<times> bool) option" where
  \<comment> \<open>the loop of \<open>nearest_use_distance_from_quadr\<close>: the distance and whether a use was found\<close>
  "use_dist_loop q var dist [] = Some (dist, False)"
| "use_dist_loop q var dist (quadr # qs) =
     (if used_in_quadr quadr var then Some (dist, True)
      else do {
        check (\<not> (v_live (vars q ! var) \<and> assigned_in_quadr quadr var));
        use_dist_loop q var (dist + 1) qs
      })"

definition child_use_dist :: "block_id option \<Rightarrow> block_id option \<Rightarrow> var_id \<Rightarrow> quadr_st \<Rightarrow> i32 option option" where
  \<comment> \<open>if \<open>child\<close> is not null, look \<open>var\<close> up in \<open>vars_at_start\<close> of the block \<open>where\<close>\<close>
  "child_use_dist child block var q =
     (case child of
        None \<Rightarrow> Some None
      | Some c \<Rightarrow> do {
          b \<leftarrow> block;
          B \<leftarrow> blocks q b;
          t \<leftarrow> vars_at_start B;
          Some (map_option (\<lambda>k. nearest_use_dist (snd k)) (rb_search t (var, \<lparr>loc = None, nearest_use_dist = 0\<rparr>)))
        })"

definition nearest_use_distance_from_quadr ::
  "block_id \<Rightarrow> quadr_t list \<Rightarrow> var_id \<Rightarrow> quadr_st \<Rightarrow> i32 option"
where
  "nearest_use_distance_from_quadr block quadrs var q = do {
     B \<leftarrow> blocks q block;
     (dist, found) \<leftarrow> use_dist_loop q var 0 quadrs;
     if found then Some (of_nat dist)
     else do {
       bd1 \<leftarrow> child_use_dist (child1 B) (child1 B) var q;
       bd2 \<leftarrow> child_use_dist (child2 B) (child1 B) var q;
       let bd1 = (case bd1 of None \<Rightarrow> -1 | Some d \<Rightarrow> d);
           bd2 = (case bd2 of None \<Rightarrow> -1 | Some d \<Rightarrow> d);
           dist = of_nat dist
       in Some
         (if bd1 = -1 \<and> bd2 = -1 then dist + 0x1FFFFFF   \<comment> \<open>\<open>INT_MAX / 64\<close>\<close>
          else if bd1 \<noteq> -1 \<and> bd2 \<noteq> -1 then dist + (if bd1 <s bd2 then bd2 else bd1)
          else if bd1 \<noteq> -1 then dist + bd1
          else dist + bd2)
     }
   }"

end
