(* ===== verification/Blocks.thy ===== *)
theory Blocks
  imports Quadr
begin

text \<open>
  The lists of basic blocks: \<open>linked bs s xs\<close> says that the blocks \<open>xs\<close> are the list that
  starts at the pointer \<open>s\<close>, \<open>seg bs s xs t\<close> that they are the segment of a list from \<open>s\<close>
  to \<open>t\<close>.
\<close>

fun linked :: "(block_id \<rightharpoonup> basic_block_t) \<Rightarrow> block_id option \<Rightarrow> block_id list \<Rightarrow> bool" where
  "linked bs None [] \<longleftrightarrow> True"
| "linked bs (Some b) (x # xs) \<longleftrightarrow> b = x \<and> (\<exists>B. bs b = Some B \<and> linked bs (nxt B) xs)"
| "linked bs _ _ \<longleftrightarrow> False"

definition nxt_same :: "quadr_st \<Rightarrow> quadr_st \<Rightarrow> bool" where
  "nxt_same q q' \<longleftrightarrow> (\<forall>b B. blocks q b = Some B \<longrightarrow> (\<exists>B'. blocks q' b = Some B' \<and> nxt B' = nxt B))"

lemma linked_nxt: "nxt_same q q' \<Longrightarrow> linked (blocks q) s xs \<Longrightarrow> linked (blocks q') s xs"
proof (induction xs arbitrary: s)
  case Nil
  then show ?case by (cases s) auto
next
  case (Cons x xs)
  then obtain B where B: "s = Some x" "blocks q x = Some B" "linked (blocks q) (nxt B) xs" by (cases s) auto
  then show ?case using Cons by (auto simp: nxt_same_def dest!: spec[of _ x])
qed

lemma linked_blocks: "linked bs s xs \<Longrightarrow> x \<in> set xs \<Longrightarrow> \<exists>B. bs x = Some B"
proof (induction xs arbitrary: s)
  case (Cons y ys)
  then show ?case by (cases s) auto
qed simp

subsection \<open>Segments\<close>

fun seg :: "(block_id \<rightharpoonup> basic_block_t) \<Rightarrow> block_id option \<Rightarrow> block_id list \<Rightarrow> block_id option \<Rightarrow> bool" where
  "seg bs s [] t \<longleftrightarrow> s = t"
| "seg bs s (x # xs) t \<longleftrightarrow> s = Some x \<and> (\<exists>B. bs x = Some B \<and> seg bs (nxt B) xs t)"

lemma linked_seg: "linked bs s xs \<longleftrightarrow> seg bs s xs None"
proof (induction xs arbitrary: s)
  case Nil
  then show ?case by (cases s) auto
next
  case (Cons x xs)
  then show ?case by (cases s) auto
qed

lemma seg_append [simp]: "seg bs s (xs @ ys) t \<longleftrightarrow> (\<exists>u. seg bs s xs u \<and> seg bs u ys t)"
  by (induction xs arbitrary: s) auto

lemma seg_upd [simp]: "x \<notin> set xs \<Longrightarrow> seg (bs(x := B)) s xs t = seg bs s xs t"
  by (induction xs arbitrary: s) auto

lemma seg_cong: "\<forall>x \<in> set xs. map_option nxt (bs' x) = map_option nxt (bs x) \<Longrightarrow> seg bs s xs t \<Longrightarrow> seg bs' s xs t"
  by (induction xs arbitrary: s) (fastforce simp: map_option_case split: option.splits)+

lemma seg_hd: "seg bs s xs t \<Longrightarrow> xs \<noteq> [] \<Longrightarrow> s = Some (hd xs)"
  by (cases xs) auto

lemma seg_last: "seg bs s xs t \<Longrightarrow> xs \<noteq> [] \<Longrightarrow> \<exists>B. bs (last xs) = Some B \<and> nxt B = t"
  by (induction xs arbitrary: s) auto

text \<open>The end of a segment is changed by a write to \<open>next\<close> of its last block.\<close>

lemma seg_relink:
  assumes "seg bs s (xs @ [x]) t" and "x \<notin> set xs" and "nxt B = u"
  shows "seg (bs(x \<mapsto> B)) s (xs @ [x]) u"
  using assms by auto

lemma seg_blocks: "seg bs s xs t \<Longrightarrow> x \<in> set xs \<Longrightarrow> \<exists>B. bs x = Some B"
  by (induction xs arbitrary: s) auto

lemma last_block_seg:
  assumes "seg bs (Some b) xs None" and "xs \<noteq> []" and "length xs \<le> n"
  shows "last_block n bs p b = Some (if butlast xs = [] then p else Some (last (butlast xs)), last xs)"
  using assms
proof (induction n arbitrary: xs b p)
  case (Suc n)
  then obtain ys B where xs: "xs = b # ys" "bs b = Some B" "seg bs (nxt B) ys None" by (cases xs) auto
  show ?case
  proof (cases ys)
    case Nil
    then show ?thesis using xs by simp
  next
    case (Cons c zs)
    then have "nxt B = Some c" using xs by simp
    then show ?thesis using Suc.IH[of c ys "Some b"] Suc.prems(3) xs Cons by simp
  qed
qed simp

end
