(* ===== verification/Flow_Correct.thy ===== *)
theory Flow_Correct
  imports Flow Blocks
begin

text \<open>
  The liveness analysis computes the live variables.  \<open>exposed\<close> and \<open>kills\<close> are the
  textbook sets of a block, \<open>live_at\<close> is liveness by paths of the flow graph.  The lemmas
  about single operations go through the interface \<open>rbs\<close> of the red-black trees.
\<close>

subsection \<open>One block\<close>

fun exposed :: "quadr_t list \<Rightarrow> var_id \<Rightarrow> bool" where
  "exposed [] v = False"
| "exposed (x # xs) v \<longleftrightarrow> used_in_quadr x v \<or> (\<not> assigned_in_quadr x v \<and> exposed xs v)"

fun first_use :: "quadr_t list \<Rightarrow> var_id \<Rightarrow> nat" where
  "first_use [] v = 0"
| "first_use (x # xs) v = (if used_in_quadr x v then 0 else Suc (first_use xs v))"

definition kills :: "quadr_t list \<Rightarrow> var_id \<Rightarrow> bool" where
  "kills xs v \<longleftrightarrow> (\<exists>x \<in> set xs. assigned_in_quadr x v) \<and> \<not> exposed xs v"

lemma kills_simps [simp]:
  "\<not> kills [] v"
  "kills (x # xs) v \<longleftrightarrow> \<not> used_in_quadr x v \<and> (assigned_in_quadr x v \<or> kills xs v)"
  by (auto simp: kills_def)

definition uses :: "var_descr_t rbtree_t \<Rightarrow> var_id \<rightharpoonup> u32" where
  "uses t v = map_option nearest_use_dist (rb_map t v)"

lemma dom_uses [simp]: "dom (uses t) = dom (rb_map t)"
  by (auto simp: uses_def)

lemma delete_key_view:
  "rb_set t \<Longrightarrow> \<exists>t'. rb_delete_key t v d = Some t' \<and> rb_set t' \<and> rb_map t' = (rb_map t)(v := None)"
  using rbs.remove_view[of t "(v, d)"] rbs.search_view[of t "(v, d)"]
  by (cases "rb_map t v") (auto simp: rb_delete_key_def fun_upd_idem)

lemma uses_delete: "rb_map t' = (rb_map t)(v := None) \<Longrightarrow> uses t' = (uses t)(v := None)"
  by (auto simp: uses_def fun_eq_iff)

lemma insert_key_view:
  assumes "rb_set t"
  shows "\<exists>r t'. rb_insert_if_absent t (v, ()) = Some (r, t') \<and> rb_set t' \<and>
    dom (rb_map t') = insert v (dom (rb_map t))"
  using rbs.insert_view[OF assms, of "(v, ())"] by (auto split: if_splits)

lemma update_live_view:
  assumes "rb_set use" and "rb_set def"
  shows "\<exists>use' def'. update_live use def v i = Some (use', def') \<and> rb_set use' \<and> rb_set def' \<and>
    uses use' = (uses use)(v \<mapsto> of_nat i) \<and> dom (rb_map def') = dom (rb_map def) - {v}"
proof -
  let ?vd = "\<lparr>loc = None, nearest_use_dist = of_nat i\<rparr>"
  obtain def' where d: "rb_delete_key def v () = Some def'" "rb_set def'" "rb_map def' = (rb_map def)(v := None)"
    using delete_key_view[OF assms(2)] by blast
  obtain use' where u: "rb_insert_if_absent use (v, ?vd) = Some (map_option (\<lambda>d. (v, d)) (rb_map use v), use')"
    "rb_set use'" "rb_map use' = (if v \<in> dom (rb_map use) then rb_map use else (rb_map use)(v \<mapsto> ?vd))"
    using rbs.insert_view[OF assms(1), of "(v, ?vd)"] by auto
  have dd: "dom (rb_map def') = dom (rb_map def) - {v}" unfolding d(3) by simp
  show ?thesis
  proof (cases "rb_map use v")
    case None
    then have "rb_map use' = (rb_map use)(v \<mapsto> ?vd)" using u(3) by (simp add: domIff)
    then have "uses use' = (uses use)(v \<mapsto> of_nat i)" by (simp add: uses_def[abs_def] fun_eq_iff)
    then show ?thesis using d(1,2) u(1,2) None dd by (simp add: update_live_def Let_def)
  next
    case (Some vd)
    let ?t = "rb_write use' v (vd\<lparr>nearest_use_dist := of_nat i\<rparr>)"
    have t: "rb_set ?t" "rb_map ?t = (rb_map use)(v \<mapsto> vd\<lparr>nearest_use_dist := of_nat i\<rparr>)"
      using u Some rbs.store_inv[OF u(2)] rbs.store_view[OF u(2)] by (auto simp: dom_def)
    moreover have "update_live use def v i = Some (?t, def')"
      using d u Some by (simp add: update_live_def Let_def)
    moreover have "uses ?t = (uses use)(v \<mapsto> of_nat i)"
      using t(2) by (simp add: uses_def[abs_def] fun_eq_iff)
    ultimately show ?thesis using d(2) dd by blast
  qed
qed

definition live_view ::
  "var_descr_t rbtree_t \<times> unit rbtree_t \<Rightarrow> (var_id \<rightharpoonup> u32) \<Rightarrow> var_id set \<Rightarrow> bool"
where
  "live_view ud U D \<longleftrightarrow> rb_set (fst ud) \<and> rb_set (snd ud) \<and> uses (fst ud) = U \<and> dom (rb_map (snd ud)) = D"

lemma update_live_live_view:
  assumes "live_view ud U D"
  shows "\<exists>ud'. update_live (fst ud) (snd ud) w i = Some ud' \<and> live_view ud' (U(w \<mapsto> of_nat i)) (D - {w})"
  using update_live_view[of "fst ud" "snd ud" w i] assms by (auto simp: live_view_def)

lemma update_arg_view:
  assumes "live_view ud U D"
  shows "\<exists>ud'. update_arg a i ud = Some ud' \<and>
    live_view ud' (\<lambda>v. if a = QA_VAR v then Some (of_nat i) else U v) (D - {v. a = QA_VAR v})"
proof (cases a)
  case (QA_VAR w)
  have "(\<lambda>v. if a = QA_VAR v then Some (of_nat i) else U v) = U(w \<mapsto> of_nat i)" "{v. a = QA_VAR v} = {w}"
    using QA_VAR by auto
  then show ?thesis
    using update_live_live_view[OF assms, of w i] QA_VAR by (simp add: update_arg_def)
qed (use assms in \<open>auto simp: update_arg_def\<close>)

lemma update_result_view:
  assumes "live_view ud U D"
  shows "\<exists>ud'. update_result x i ud = Some ud' \<and> live_view ud'
    (\<lambda>v. if q_op x = Q_WRITE_PTR \<and> q_result x = QA_VAR v then Some (of_nat i)
         else if assigned_in_quadr x v then None else U v)
    (D - {v. q_op x = Q_WRITE_PTR \<and> q_result x = QA_VAR v} \<union> {v. assigned_in_quadr x v})"
    (is "\<exists>ud'. _ \<and> live_view ud' ?U ?D")
proof (cases "q_result x")
  case (QA_VAR w)
  show ?thesis
  proof (cases "q_op x = Q_WRITE_PTR")
    case True
    have "?U = U(w \<mapsto> of_nat i)" "?D = D - {w}" "\<not> assigned_in_quadr x w" "used_in_quadr x w"
      using QA_VAR True by (auto simp: assigned_in_quadr_def used_in_quadr_def)
    then show ?thesis
      using update_live_live_view[OF assms, of w i] QA_VAR by (simp add: update_result_def)
  next
    case False
    have eq: "?U = U(w := None)" "?D = insert w D" "assigned_in_quadr x w"
      using QA_VAR False by (auto simp: assigned_in_quadr_def)
    obtain use' where u: "rb_delete_key (fst ud) w \<lparr>loc = None, nearest_use_dist = of_nat i\<rparr> = Some use'"
      "rb_set use'" "uses use' = U(w := None)"
      using delete_key_view[of "fst ud" w] assms uses_delete by (fastforce simp: live_view_def)
    obtain r def' where d: "rb_insert_if_absent (snd ud) (w, ()) = Some (r, def')" "rb_set def'"
      "dom (rb_map def') = insert w D"
      using insert_key_view[of "snd ud" w] assms by (auto simp: live_view_def)
    have "update_result x i ud = Some (use', def')" using u d QA_VAR eq(3) by (simp add: update_result_def)
    then show ?thesis using u d unfolding eq(1,2) by (simp add: live_view_def)
  qed
qed (use assms in \<open>auto simp: update_result_def assigned_in_quadr_def\<close>)

lemma live_step_view:
  assumes "live_view ud U D"
  shows "\<exists>ud'. live_step i x ud = Some ud' \<and> live_view ud'
    (\<lambda>v. if used_in_quadr x v then Some (of_nat i) else if assigned_in_quadr x v then None else U v)
    (D \<union> {v. assigned_in_quadr x v} - {v. used_in_quadr x v})"
proof -
  obtain ud1 where 1: "update_result x i ud = Some ud1" "live_view ud1
    (\<lambda>v. if q_op x = Q_WRITE_PTR \<and> q_result x = QA_VAR v then Some (of_nat i)
         else if assigned_in_quadr x v then None else U v)
    (D - {v. q_op x = Q_WRITE_PTR \<and> q_result x = QA_VAR v} \<union> {v. assigned_in_quadr x v})"
    using update_result_view[OF assms] by blast
  obtain ud2 where 2: "update_arg (q_arg1 x) i ud1 = Some ud2" "live_view ud2
     (\<lambda>v. if q_arg1 x = QA_VAR v then Some (of_nat i)
          else if q_op x = Q_WRITE_PTR \<and> q_result x = QA_VAR v then Some (of_nat i)
          else if assigned_in_quadr x v then None else U v)
     (D - {v. q_op x = Q_WRITE_PTR \<and> q_result x = QA_VAR v} \<union> {v. assigned_in_quadr x v}
       - {v. q_arg1 x = QA_VAR v})"
    using update_arg_view[OF 1(2)] by blast
  obtain ud3 where 3: "update_arg (q_arg2 x) i ud2 = Some ud3" "live_view ud3
     (\<lambda>v. if q_arg2 x = QA_VAR v then Some (of_nat i) else if q_arg1 x = QA_VAR v then Some (of_nat i)
          else if q_op x = Q_WRITE_PTR \<and> q_result x = QA_VAR v then Some (of_nat i)
          else if assigned_in_quadr x v then None else U v)
     (D - {v. q_op x = Q_WRITE_PTR \<and> q_result x = QA_VAR v} \<union> {v. assigned_in_quadr x v}
       - {v. q_arg1 x = QA_VAR v} - {v. q_arg2 x = QA_VAR v})"
    using update_arg_view[OF 2(2)] by blast
  have "live_step i x ud = Some ud3" using 1 2 3 by (simp add: live_step_def)
  moreover have "live_view ud3
    (\<lambda>v. if used_in_quadr x v then Some (of_nat i) else if assigned_in_quadr x v then None else U v)
    (D \<union> {v. assigned_in_quadr x v} - {v. used_in_quadr x v})"
  proof -
    have "(\<lambda>v. if q_arg2 x = QA_VAR v then Some (of_nat i) else if q_arg1 x = QA_VAR v then Some (of_nat i)
          else if q_op x = Q_WRITE_PTR \<and> q_result x = QA_VAR v then Some (of_nat i)
          else if assigned_in_quadr x v then None else U v) =
        (\<lambda>v. if used_in_quadr x v then Some (of_nat i) else if assigned_in_quadr x v then None else U v)"
      by (auto simp: used_in_quadr_def)
    moreover have "D - {v. q_op x = Q_WRITE_PTR \<and> q_result x = QA_VAR v} \<union> {v. assigned_in_quadr x v}
        - {v. q_arg1 x = QA_VAR v} - {v. q_arg2 x = QA_VAR v} =
        D \<union> {v. assigned_in_quadr x v} - {v. used_in_quadr x v}"
      by (auto simp: used_in_quadr_def assigned_in_quadr_def)
    ultimately show ?thesis using 3(2) by simp
  qed
  ultimately show ?thesis by blast
qed

lemma live_loop_view:
  "\<exists>ud. live_loop i xs (rb_new, rb_new) = Some ud \<and> live_view ud
    (\<lambda>v. if exposed xs v then Some (of_nat (i + first_use xs v)) else None) {v. kills xs v}"
proof (induction xs arbitrary: i)
  case Nil
  then show ?case by (simp add: live_view_def rbs.inv_empty uses_def[abs_def] rbs.view_empty)
next
  case (Cons x xs)
  obtain ud where ud: "live_loop (i + 1) xs (rb_new, rb_new) = Some ud" "live_view ud
    (\<lambda>v. if exposed xs v then Some (of_nat (i + 1 + first_use xs v)) else None) {v. kills xs v}"
    using Cons.IH by blast
  obtain ud' where ud': "live_step i x ud = Some ud'" "live_view ud'
    (\<lambda>v. if used_in_quadr x v then Some (of_nat i) else if assigned_in_quadr x v then None
         else if exposed xs v then Some (of_nat (i + 1 + first_use xs v)) else None)
    ({v. kills xs v} \<union> {v. assigned_in_quadr x v} - {v. used_in_quadr x v})"
    using live_step_view[OF ud(2)] by blast
  have "(\<lambda>v. if used_in_quadr x v then Some (of_nat i) else if assigned_in_quadr x v then None
         else if exposed xs v then Some (of_nat (i + 1 + first_use xs v)) else None) =
       (\<lambda>v. if exposed (x # xs) v then Some (of_nat (i + first_use (x # xs) v)) else None :: u32 option)"
    by (auto simp: fun_eq_iff)
  moreover have "{v. kills xs v} \<union> {v. assigned_in_quadr x v} - {v. used_in_quadr x v} = {v. kills (x # xs) v}"
    by auto
  ultimately have "live_view ud'
     (\<lambda>v. if exposed (x # xs) v then Some (of_nat (i + first_use (x # xs) v)) else None)
     {v. kills (x # xs) v}"
    using ud'(2) by simp
  then show ?case using ud ud' by auto
qed

subsection \<open>Views of the state\<close>

text \<open>What the analysis does not change: \<open>skel\<close>; and the marks of the traversal.\<close>

definition skel :: "quadr_st \<Rightarrow> quadr_st" where
  "skel q = q\<lparr>blocks := (\<lambda>b. map_option (\<lambda>B. B\<lparr>flow_data := None, visited_mark := 0\<rparr>) (blocks q b)),
     cur_visited_mark := 0\<rparr>"

definition marks :: "quadr_st \<Rightarrow> (block_id \<rightharpoonup> 16 word) \<times> 16 word" where
  "marks q = ((\<lambda>b. map_option visited_mark (blocks q b)), cur_visited_mark q)"

definition insets :: "quadr_st \<Rightarrow> block_id \<Rightarrow> var_id set" where
  "insets q b = {v. \<exists>fd t. get_fd b q = Some fd \<and> live_in fd = Some t \<and> v \<in> dom (rb_map t)}"

definition outsets :: "quadr_st \<Rightarrow> block_id \<Rightarrow> var_id set" where
  "outsets q b = {v. \<exists>fd t. get_fd b q = Some fd \<and> live_out fd = Some t \<and> v \<in> dom (rb_map t)}"

definition defsets :: "quadr_st \<Rightarrow> block_id \<Rightarrow> var_id set" where
  "defsets q b = {v. \<exists>fd t. get_fd b q = Some fd \<and> live_def fd = Some t \<and> v \<in> dom (rb_map t)}"

definition fd_ok :: "quadr_st \<Rightarrow> block_id \<Rightarrow> bool" where
  "fd_ok q b \<longleftrightarrow> (\<exists>fd i d x. get_fd b q = Some fd \<and> live_in fd = Some i \<and> live_def fd = Some d \<and>
     live_out fd = Some x \<and> rb_set i \<and> rb_set d \<and> rb_set x)"

definition same_rest :: "quadr_st \<Rightarrow> quadr_st \<Rightarrow> bool" where
  "same_rest q q' \<longleftrightarrow> skel q' = skel q \<and> (\<forall>x. fd_ok q x \<longrightarrow> fd_ok q' x) \<and> defsets q' = defsets q"

lemma same_rest_refl [simp]: "same_rest q q"
  by (simp add: same_rest_def)

lemma same_rest_trans: "same_rest q q' \<Longrightarrow> same_rest q' q'' \<Longrightarrow> same_rest q q''"
  by (simp add: same_rest_def)

lemma skel_blocks:
  assumes "skel q' = skel q" and "blocks q b = Some B"
  shows "\<exists>B'. blocks q' b = Some B' \<and> lst B' = lst B \<and> nxt B' = nxt B \<and> child1 B' = child1 B \<and>
    child2 B' = child2 B"
proof -
  have "blocks (skel q') b = blocks (skel q) b" using assms(1) by simp
  then obtain B' where B': "blocks q' b = Some B'"
    "B'\<lparr>flow_data := None, visited_mark := 0\<rparr> = B\<lparr>flow_data := None, visited_mark := 0\<rparr>"
    using assms(2) by (auto simp: skel_def)
  have "lst B' = lst B" "nxt B' = nxt B" "child1 B' = child1 B" "child2 B' = child2 B"
    using arg_cong[OF B'(2), of lst] arg_cong[OF B'(2), of nxt] arg_cong[OF B'(2), of child1]
      arg_cong[OF B'(2), of child2] by simp_all
  then show ?thesis using B'(1) by blast
qed

lemma skel_fields:
  assumes "skel q' = skel q"
  shows "next_block_id q' = next_block_id q" "vars q' = vars q" "quadr_func q' = quadr_func q"
    "cur_root q' = cur_root q"
  using arg_cong[OF assms, of next_block_id] arg_cong[OF assms, of vars] arg_cong[OF assms, of quadr_func]
    arg_cong[OF assms, of cur_root]
  by (simp_all add: skel_def)

lemma set_fd_view:
  assumes "get_fd b q = Some fd"
  shows "\<exists>q'. set_fd b g q = Some q' \<and> skel q' = skel q \<and> marks q' = marks q \<and>
    (\<forall>x. get_fd x q' = (if x = b then Some (g fd) else get_fd x q))"
proof -
  obtain B where B: "blocks q b = Some B" "flow_data B = Some fd" using assms by (auto simp: get_fd_def)
  let ?q = "q\<lparr>blocks := (blocks q)(b \<mapsto> B\<lparr>flow_data := Some (g fd)\<rparr>)\<rparr>"
  have "set_fd b g q = Some ?q" using B by (simp add: set_fd_def set_block_def)
  moreover have "skel ?q = skel q" using B by (auto simp: skel_def fun_eq_iff)
  moreover have "marks ?q = marks q" using B by (auto simp: marks_def fun_eq_iff)
  moreover have "\<forall>x. get_fd x ?q = (if x = b then Some (g fd) else get_fd x q)"
    by (simp add: get_fd_def)
  ultimately show ?thesis by blast
qed

lemma in_out_key_view:
  assumes b: "fd_ok q b" and c: "fd_ok q c"
  shows "\<exists>ch' q'. in_out_key b c vd (ch, q) = Some (ch', q') \<and> same_rest q q' \<and> marks q' = marks q \<and>
    insets q' = (insets q)(b := insets q b \<union> ({fst vd} - defsets q b)) \<and>
    outsets q' = (outsets q)(b := insert (fst vd) (outsets q b)) \<and>
    ch' = (ch \<or> insets q' \<noteq> insets q)"
proof -
  let ?v = "fst vd"
  obtain fd i d x where fd: "get_fd b q = Some fd" "live_in fd = Some i" "live_def fd = Some d"
    "live_out fd = Some x" "rb_set i" "rb_set d" "rb_set x"
    using b by (auto simp: fd_ok_def)
  obtain r x' where x': "rb_insert_if_absent x (?v, ()) = Some (r, x')" "rb_set x'"
    "dom (rb_map x') = insert ?v (dom (rb_map x))"
    using insert_key_view[OF fd(7)] by blast
  have search: "rb_search d (?v, ()) = None \<longleftrightarrow> ?v \<notin> defsets q b"
    using rbs.search_None[OF fd(6), of "(?v, ())"] fd by (simp add: defsets_def)
  define mid where "mid = (if ?v \<in> defsets q b then Some (ch, q)
      else do {
        let nud = nearest_use_dist (snd vd) + of_nat (instr_num fd) in do {
            (node2, use) \<leftarrow> rb_insert_if_absent i (fst vd, \<lparr>loc = None, nearest_use_dist = nud\<rparr>);
            q \<leftarrow> set_fd b (\<lambda>fd. fd\<lparr>live_in := Some use\<rparr>) q;
            (if node2 \<noteq> None then
               if nearest_use_dist (snd vd) > nud then do {
                 q \<leftarrow> set_fd c (\<lambda>fd. fd\<lparr>live_in := map_option
                        (\<lambda>t. rb_write t (fst vd) ((snd vd)\<lparr>nearest_use_dist := nud\<rparr>)) (live_in fd)\<rparr>) q;
                 Some (ch, q)
               }
               else Some (ch, q)
             else Some (True, q))
          }
        })"
  have "\<exists>ch' q'. mid = Some (ch', q') \<and> skel q' = skel q \<and> marks q' = marks q \<and>
      (\<forall>y. fd_ok q y \<longrightarrow> fd_ok q' y) \<and> defsets q' = defsets q \<and> outsets q' = outsets q \<and>
      (\<exists>fd'. get_fd b q' = Some fd' \<and> live_out fd' = Some x) \<and>
      insets q' = (insets q)(b := insets q b \<union> ({?v} - defsets q b)) \<and>
      ch' = (ch \<or> insets q' \<noteq> insets q)"
  proof (cases "?v \<in> defsets q b")
    case True
    then show ?thesis using fd by (simp add: mid_def)
  next
    case False
    let ?nud = "nearest_use_dist (snd vd) + of_nat (instr_num fd)"
    obtain n2 i' where i': "rb_insert_if_absent i (?v, \<lparr>loc = None, nearest_use_dist = ?nud\<rparr>) = Some (n2, i')"
      "rb_set i'" "dom (rb_map i') = insert ?v (dom (rb_map i))" "n2 = None \<longleftrightarrow> ?v \<notin> dom (rb_map i)"
      using rbs.insert_ex[OF fd(5)] rbs.insertD[OF _ fd(5)] by fastforce
    obtain q1 where q1: "set_fd b (\<lambda>fd. fd\<lparr>live_in := Some i'\<rparr>) q = Some q1" "skel q1 = skel q"
      "marks q1 = marks q" "\<forall>y. get_fd y q1 = (if y = b then Some (fd\<lparr>live_in := Some i'\<rparr>) else get_fd y q)"
      using set_fd_view[OF fd(1)] by blast
    have ok1: "\<forall>y. fd_ok q y \<longrightarrow> fd_ok q1 y" using q1(4) fd i' by (auto simp: fd_ok_def)
    have sets1: "defsets q1 = defsets q" "outsets q1 = outsets q"
      "insets q1 = (insets q)(b := insert ?v (insets q b))"
      using q1(4) fd i'(3) by (auto simp: defsets_def outsets_def insets_def fun_eq_iff split: if_splits)
    have ib: "insets q b = dom (rb_map i)" using fd by (simp add: insets_def)
    show ?thesis
    proof (cases "n2 \<noteq> None \<and> nearest_use_dist (snd vd) > ?nud")
      case True
      obtain fdc ic where fdc: "get_fd c q1 = Some fdc" "live_in fdc = Some ic" "rb_set ic"
        using ok1[rule_format, OF c] by (auto simp: fd_ok_def)
      let ?w = "\<lambda>t. rb_write t ?v ((snd vd)\<lparr>nearest_use_dist := ?nud\<rparr>)"
      let ?g = "\<lambda>fd. fd\<lparr>live_in := map_option ?w (live_in fd)\<rparr>"
      obtain q2 where q2: "set_fd c ?g q1 = Some q2" "skel q2 = skel q1" "marks q2 = marks q1"
        "\<forall>y. get_fd y q2 = (if y = c then Some (?g fdc) else get_fd y q1)"
        using set_fd_view[OF fdc(1)] by blast
      have w: "rb_set (?w ic)" "dom (rb_map (?w ic)) = dom (rb_map ic)"
        using rbs.store_inv[OF fdc(3)] rbs.store_dom[OF fdc(3)] by simp_all
      have ok2: "\<forall>y. fd_ok q1 y \<longrightarrow> fd_ok q2 y" using q2(4) fdc w by (auto simp: fd_ok_def)
      have sets2: "defsets q2 = defsets q1" "outsets q2 = outsets q1" "insets q2 = insets q1"
        using q2(4) fdc w(2) by (auto simp: defsets_def outsets_def insets_def fun_eq_iff split: if_splits)
      have "mid = Some (ch, q2)" using False True i'(1) q1(1) q2(1) by (auto simp: mid_def Let_def)
      moreover have "\<exists>fd'. get_fd b q2 = Some fd' \<and> live_out fd' = Some x"
        using q2(4) q1(4) fdc fd by auto
      moreover have "(insets q)(b := insets q b \<union> ({?v} - defsets q b)) = insets q" "insets q1 = insets q"
        using i'(4) ib True sets1(3) by (auto simp: fun_eq_iff insert_absorb)
      ultimately show ?thesis
        using q1(2,3) q2(2,3) ok1 ok2 sets1(1,2) sets2 by simp
    next
      case nowrite: False
      have "mid = Some (ch \<or> n2 = None, q1)"
        using False nowrite i'(1) q1(1) by (auto simp: mid_def Let_def)
      moreover have "\<exists>fd'. get_fd b q1 = Some fd' \<and> live_out fd' = Some x" using q1(4) fd by auto
      moreover have "insets q1 \<noteq> insets q \<longleftrightarrow> n2 = None"
        using sets1(3) i'(4) ib by (auto simp: insert_absorb fun_eq_iff)
      moreover have "(insets q)(b := insets q b \<union> ({?v} - defsets q b)) = insets q1"
      proof -
        have "{?v} - defsets q b = {?v}" using False by auto
        then show ?thesis using sets1(3) by simp
      qed
      ultimately show ?thesis
        using q1(2,3) ok1 sets1(1,2) by simp
    qed
  qed
  then obtain ch' q1 fd' where m: "mid = Some (ch', q1)" "skel q1 = skel q" "marks q1 = marks q"
      "\<forall>y. fd_ok q y \<longrightarrow> fd_ok q1 y" "defsets q1 = defsets q" "outsets q1 = outsets q"
      "get_fd b q1 = Some fd'" "live_out fd' = Some x"
      "insets q1 = (insets q)(b := insets q b \<union> ({?v} - defsets q b))"
      "ch' = (ch \<or> insets q1 \<noteq> insets q)"
    by blast
  obtain q2 where q2: "set_fd b (\<lambda>fd. fd\<lparr>live_out := Some x'\<rparr>) q1 = Some q2" "skel q2 = skel q1"
    "marks q2 = marks q1" "\<forall>y. get_fd y q2 = (if y = b then Some (fd'\<lparr>live_out := Some x'\<rparr>) else get_fd y q1)"
    using set_fd_view[OF m(7)] by blast
  have "in_out_key b c vd (ch, q) = Some (ch', q2)"
    using fd(1-4) search x'(1) q2(1) m(1) unfolding in_out_key_def mid_def by (auto split: if_splits)
  moreover have "\<forall>y. fd_ok q1 y \<longrightarrow> fd_ok q2 y" using q2(4) m(7,8) x'(2) by (auto simp: fd_ok_def)
  moreover have "defsets q2 = defsets q1" "insets q2 = insets q1"
      "outsets q2 = (outsets q1)(b := insert ?v (outsets q1 b))"
    using q2(4) m(7,8) x'(3) by (auto simp: defsets_def outsets_def insets_def fun_eq_iff split: if_splits)
  ultimately show ?thesis using m q2 by (auto simp: same_rest_def)
qed

subsection \<open>One edge\<close>

definition tree_keys :: "'d rbnode_t \<Rightarrow> var_id set" where
  "tree_keys n = fst ` set (inorder n)"

lemma tree_keys_simps [simp]:
  "tree_keys the_nil = {}"
  "tree_keys (RBNODE c l k r) = insert (fst k) (tree_keys l \<union> tree_keys r)"
  by (auto simp: tree_keys_def)

lemma dom_rb_map: "dom (rb_map t) = tree_keys (root t)"
  by (simp add: rb_map_def tree_keys_def dom_map_of_conv_image_fst)

definition edge_post ::
  "block_id \<Rightarrow> var_id set \<Rightarrow> bool \<Rightarrow> quadr_st \<Rightarrow> bool \<Rightarrow> quadr_st \<Rightarrow> bool"
where
  "edge_post b K ch q ch' q' \<longleftrightarrow> same_rest q q' \<and> marks q' = marks q \<and>
    insets q' = (insets q)(b := insets q b \<union> (K - defsets q b)) \<and>
    outsets q' = (outsets q)(b := outsets q b \<union> K) \<and>
    ch' = (ch \<or> insets q' \<noteq> insets q)"

lemma edge_post_refl: "edge_post b {} ch q ch q"
  by (simp add: edge_post_def)

lemma edge_post_trans:
  assumes "edge_post b K1 ch q ch1 q1" and "edge_post b K2 ch1 q1 ch2 q2"
  shows "edge_post b (K1 \<union> K2) ch q ch2 q2"
proof -
  have d: "defsets q1 = defsets q" using assms(1) by (simp add: edge_post_def same_rest_def)
  have i1: "insets q1 = (insets q)(b := insets q b \<union> (K1 - defsets q b))"
    and i2: "insets q2 = (insets q1)(b := insets q1 b \<union> (K2 - defsets q b))"
    and o: "outsets q1 = (outsets q)(b := outsets q b \<union> K1)"
      "outsets q2 = (outsets q1)(b := outsets q1 b \<union> K2)"
    using assms d by (simp_all add: edge_post_def)
  have i: "insets q2 = (insets q)(b := insets q b \<union> (K1 \<union> K2 - defsets q b))"
    unfolding i2 unfolding i1 by (auto simp: fun_eq_iff)
  have "insets q2 \<noteq> insets q \<longleftrightarrow> insets q1 \<noteq> insets q \<or> insets q2 \<noteq> insets q1"
    unfolding i2 unfolding i1 by (auto simp: fun_eq_iff)
  moreover have "outsets q2 = (outsets q)(b := outsets q b \<union> (K1 \<union> K2))"
    unfolding o(2) unfolding o(1) by (auto simp: fun_eq_iff)
  ultimately show ?thesis
    using assms i same_rest_trans[of q q1 q2] unfolding edge_post_def by (metis (no_types, lifting))
qed

lemma compute_in_out_view:
  "fd_ok q b \<Longrightarrow> fd_ok q c \<Longrightarrow>
    \<exists>ch' q'. compute_in_out b c n (ch, q) = Some (ch', q') \<and> edge_post b (tree_keys n) ch q ch' q'"
proof (induction n arbitrary: ch q)
  case the_nil
  then show ?case by (simp add: edge_post_refl)
next
  case (RBNODE col l k r)
  obtain ch1 q1 where 1: "in_out_key b c k (ch, q) = Some (ch1, q1)" "edge_post b {fst k} ch q ch1 q1"
    using in_out_key_view[OF RBNODE.prems, of k ch] by (auto simp: edge_post_def)
  have ok1: "fd_ok q1 b" "fd_ok q1 c" using 1(2) RBNODE.prems by (simp_all add: edge_post_def same_rest_def)
  obtain ch2 q2 where 2: "compute_in_out b c r (ch1, q1) = Some (ch2, q2)"
    "edge_post b (tree_keys r) ch1 q1 ch2 q2" using RBNODE.IH(2)[OF ok1] by blast
  have ok2: "fd_ok q2 b" "fd_ok q2 c" using 2(2) ok1 by (simp_all add: edge_post_def same_rest_def)
  obtain ch3 q3 where 3: "compute_in_out b c l (ch2, q2) = Some (ch3, q3)"
    "edge_post b (tree_keys l) ch2 q2 ch3 q3" using RBNODE.IH(1)[OF ok2] by blast
  have "edge_post b ({fst k} \<union> tree_keys r \<union> tree_keys l) ch q ch3 q3"
    using edge_post_trans[OF edge_post_trans[OF 1(2) 2(2)] 3(2)] .
  moreover have "{fst k} \<union> tree_keys r \<union> tree_keys l = tree_keys (RBNODE col l k r)" by auto
  ultimately show ?case using 1(1) 2(1) 3(1) by simp
qed

lemma in_out_child_view:
  assumes "fd_ok q b" and "\<And>c. child = Some c \<Longrightarrow> fd_ok q c"
  shows "\<exists>ch' q'. in_out_child b child (ch, q) = Some (ch', q') \<and>
    edge_post b (case child of None \<Rightarrow> {} | Some c \<Rightarrow> insets q c) ch q ch' q'"
proof (cases child)
  case None
  then show ?thesis by (simp add: in_out_child_def edge_post_refl)
next
  case (Some c)
  obtain fd t where fd: "get_fd c q = Some fd" "live_in fd = Some t"
    using assms(2)[OF Some] by (auto simp: fd_ok_def)
  have "insets q c = tree_keys (root t)" using fd by (auto simp: insets_def dom_rb_map[symmetric])
  then show ?thesis
    using compute_in_out_view[OF assms(1) assms(2)[OF Some], of "root t" ch] fd Some
    by (auto simp: in_out_child_def)
qed

subsection \<open>One iteration\<close>

definition child :: "quadr_st \<Rightarrow> block_id \<Rightarrow> block_id \<Rightarrow> bool" where
  "child q b c \<longleftrightarrow> (\<exists>B. blocks q b = Some B \<and> (child1 B = Some c \<or> child2 B = Some c))"

definition marked :: "quadr_st \<Rightarrow> block_id set" where
  "marked q = {b. visited b q = Some True}"

definition graph_ok :: "block_id set \<Rightarrow> quadr_st \<Rightarrow> bool" where
  "graph_ok V q \<longleftrightarrow> finite V \<and> (\<forall>x \<in> V. fd_ok q x \<and> (\<forall>c. child q x c \<longrightarrow> c \<in> V))"

text \<open>A family of sets that is closed under the liveness equations bounds the sets.\<close>

definition pre_fix :: "quadr_st \<Rightarrow> (block_id \<Rightarrow> var_id set) \<Rightarrow> bool" where
  "pre_fix q L \<longleftrightarrow> (\<forall>x c. child q x c \<longrightarrow> L c - defsets q x \<subseteq> L x)"

definition below :: "quadr_st \<Rightarrow> (block_id \<Rightarrow> var_id set) \<Rightarrow> bool" where
  "below q L \<longleftrightarrow> (\<forall>x. insets q x \<subseteq> L x \<and> outsets q x \<subseteq> (\<Union>c \<in> {c. child q x c}. L c))"

definition flows :: "quadr_st \<Rightarrow> quadr_st \<Rightarrow> block_id \<Rightarrow> bool" where
  \<comment> \<open>the equations hold at \<open>x\<close>\<close>
  "flows q q' x \<longleftrightarrow> (\<forall>c. child q x c \<longrightarrow> insets q c - defsets q x \<subseteq> insets q x \<and> insets q c \<subseteq> outsets q' x)"

definition marks_step :: "quadr_st \<Rightarrow> quadr_st \<Rightarrow> bool" where
  "marks_step q q' \<longleftrightarrow>
    (\<forall>x. fst (marks q') x = fst (marks q) x \<or> fst (marks q') x = Some (cur_visited_mark q))"

definition dfs_post :: "bool \<Rightarrow> quadr_st \<Rightarrow> bool \<Rightarrow> quadr_st \<Rightarrow> bool" where
  "dfs_post ch q ch' q' \<longleftrightarrow> same_rest q q' \<and> cur_visited_mark q' = cur_visited_mark q \<and>
    (\<forall>x. insets q x \<subseteq> insets q' x) \<and> (\<forall>x. outsets q x \<subseteq> outsets q' x) \<and>
    ch' = (ch \<or> insets q' \<noteq> insets q) \<and>
    (\<forall>L. pre_fix q L \<longrightarrow> below q L \<longrightarrow> below q' L) \<and>
    marks_step q q' \<and> marked q \<subseteq> marked q' \<and>
    (\<forall>x \<in> marked q' - marked q. (\<forall>c. child q x c \<longrightarrow> c \<in> marked q') \<and>
       (insets q' = insets q \<longrightarrow> flows q q' x))"

lemma child_skel: "skel q' = skel q \<Longrightarrow> child q' = child q"
  using skel_blocks[of q' q] skel_blocks[of q q'] by (fastforce simp: child_def fun_eq_iff)

lemma same_rest_views:
  assumes "same_rest q q'"
  shows "child q' = child q" "defsets q' = defsets q" "pre_fix q' = pre_fix q"
    "graph_ok V q \<Longrightarrow> graph_ok V q'"
proof -
  show c: "child q' = child q" "defsets q' = defsets q"
    using assms child_skel[of q' q] by (simp_all add: same_rest_def)
  show "pre_fix q' = pre_fix q" by (simp add: pre_fix_def[abs_def] c)
  show "graph_ok V q \<Longrightarrow> graph_ok V q'" using assms by (simp add: graph_ok_def c same_rest_def)
qed

lemma marked_marks: "marked q = {b. \<exists>m. fst (marks q) b = Some m \<and> uint m = sint (snd (marks q))}"
  by (auto simp: marked_def visited_def marks_def)

lemma marks_step_eq: "marks q' = marks q \<Longrightarrow> marks_step q q'"
  by (simp add: marks_step_def)

lemma marks_step_trans:
  assumes "marks_step q q1" and "marks_step q1 q2" and "cur_visited_mark q1 = cur_visited_mark q"
  shows "marks_step q q2"
  using assms unfolding marks_step_def by metis

lemma dfs_post_refl: "dfs_post ch q ch q"
  by (simp add: dfs_post_def marks_step_eq)

lemma sandwich:
  assumes "\<And>x. A x \<subseteq> B x" and "\<And>x. B x \<subseteq> (C x :: 'a set)" and "C = A"
  shows "B = A"
  using assms by (auto simp: fun_eq_iff)

lemma dfs_post_new:
  assumes "dfs_post ch q ch' q'" and "x \<in> marked q'" and "x \<notin> marked q"
  shows "child q x c \<Longrightarrow> c \<in> marked q'" and "insets q' = insets q \<Longrightarrow> flows q q' x"
  using assms by (simp_all add: dfs_post_def)

lemma dfs_post_trans:
  assumes a: "dfs_post ch q ch1 q1" and b: "dfs_post ch1 q1 ch2 q2"
  shows "dfs_post ch q ch2 q2"
proof -
  have views: "child q1 = child q" "defsets q1 = defsets q" "pre_fix q1 = pre_fix q"
    using a same_rest_views[of q q1] by (auto simp: dfs_post_def)
  have mono: "\<And>x. insets q x \<subseteq> insets q1 x" "\<And>x. insets q1 x \<subseteq> insets q2 x"
    "\<And>x. outsets q1 x \<subseteq> outsets q2 x" using a b by (auto simp: dfs_post_def)
  have eq: "insets q2 = insets q \<Longrightarrow> insets q1 = insets q" using sandwich[OF mono(1,2)] .
  have fl: "flows q q1 x \<Longrightarrow> flows q q2 x" for x using mono(3) by (fastforce simp: flows_def)
  have fl2: "flows q1 q2 x \<Longrightarrow> insets q1 = insets q \<Longrightarrow> flows q q2 x" for x
    by (simp add: flows_def views)
  have "(\<forall>c. child q x c \<longrightarrow> c \<in> marked q2) \<and> (insets q2 = insets q \<longrightarrow> flows q q2 x)"
    if "x \<in> marked q2 - marked q" for x
  proof (cases "x \<in> marked q1")
    case True
    then have "child q x c \<Longrightarrow> c \<in> marked q1" "insets q2 = insets q \<Longrightarrow> flows q q2 x" for c
      using dfs_post_new[OF a True] that eq fl by simp_all
    moreover have "marked q1 \<subseteq> marked q2" using b by (simp add: dfs_post_def)
    ultimately show ?thesis by blast
  next
    case False
    then show ?thesis using dfs_post_new[OF b _ False] that eq fl2 views by simp
  qed
  moreover have "ch2 = (ch \<or> insets q2 \<noteq> insets q)"
    using a b eq by (auto simp: dfs_post_def)
  moreover have "\<forall>x. insets q x \<subseteq> insets q2 x" using mono(1,2) by blast
  moreover have "\<forall>x. outsets q x \<subseteq> outsets q1 x" using a by (simp add: dfs_post_def)
  then have "\<forall>x. outsets q x \<subseteq> outsets q2 x" using mono(3) by blast
  moreover have "below q2 L" if "pre_fix q L" "below q L" for L
    using a b that views(3) by (simp add: dfs_post_def)
  moreover have "same_rest q q2" "cur_visited_mark q2 = cur_visited_mark q" "marked q \<subseteq> marked q2"
    using a b same_rest_trans[of q q1 q2] by (simp_all add: dfs_post_def) blast
  moreover have "marks_step q q2" using a b marks_step_trans[of q q1 q2] by (simp add: dfs_post_def)
  ultimately show ?thesis unfolding dfs_post_def by blast
qed

lemma edge_dfs_post:
  assumes "edge_post b K ch q ch' q'" and "K = (case c of None \<Rightarrow> {} | Some c \<Rightarrow> insets q c)"
    and "\<And>x. c = Some x \<Longrightarrow> child q b x"
  shows "dfs_post ch q ch' q'"
proof -
  have "below q' L" if "pre_fix q L" "below q L" for L
  proof (cases c)
    case None
    then show ?thesis
      using that assms same_rest_views(1)[of q q'] by (simp add: below_def edge_post_def)
  next
    case (Some x)
    have "insets q x \<subseteq> L x" "L x - defsets q b \<subseteq> L b" "child q b x"
      using that assms(3)[OF Some] by (auto simp: below_def pre_fix_def)
    then show ?thesis
      using that assms(1,2) Some same_rest_views(1)[of q q']
      by (fastforce simp: below_def edge_post_def)
  qed
  then show ?thesis
    using assms(1) marks_step_eq[of q' q]
    by (auto simp: dfs_post_def edge_post_def marked_marks) (auto simp: marks_def)
qed

lemma uint_sint: "0 \<le> sint w \<Longrightarrow> uint w = sint w" for w :: "16 word"
proof -
  assume "0 \<le> sint w"
  then have nb: "\<not> bit (uint w) 15" by (simp add: sint_uint)
  then have "take_bit 16 (uint w) = take_bit 15 (uint w)"
    using take_bit_Suc_from_most[of 15 "uint w"] by (simp add: numeral_eq_Suc)
  moreover have "take_bit 16 (uint w) = uint w"
    using uint_lt2p[of w] by (simp add: take_bit_int_eq_self)
  ultimately show ?thesis using nb by (simp add: sint_uint signed_take_bit_eq_if_positive)
qed

lemma visit_view:
  assumes "fd_ok q b" and "0 \<le> sint (cur_visited_mark q)"
  shows "\<exists>q'. visit b q = Some q' \<and> same_rest q q' \<and> cur_visited_mark q' = cur_visited_mark q \<and>
    insets q' = insets q \<and> outsets q' = outsets q \<and> marked q' = insert b (marked q) \<and> marks_step q q'"
proof -
  obtain B where B: "blocks q b = Some B" using assms(1) by (auto simp: fd_ok_def get_fd_def)
  let ?q = "q\<lparr>blocks := (blocks q)(b \<mapsto> B\<lparr>visited_mark := cur_visited_mark q\<rparr>)\<rparr>"
  have fd: "get_fd x ?q = get_fd x q" for x using B by (simp add: get_fd_def)
  have "visit b q = Some ?q" using B by (simp add: visit_def set_block_def)
  moreover have "skel ?q = skel q" using B by (auto simp: skel_def fun_eq_iff)
  moreover have "marked ?q = insert b (marked q)"
    using B uint_sint[OF assms(2)] by (auto simp: marked_def visited_def split: if_splits)
  moreover have "marks_step q ?q" by (simp add: marks_step_def marks_def)
  ultimately show ?thesis using fd
    by (intro exI[of _ ?q]) (simp add: same_rest_def fd_ok_def insets_def[abs_def] outsets_def[abs_def] defsets_def[abs_def])
qed

lemma graph_okD:
  assumes "graph_ok V q" and "x \<in> V"
  shows "fd_ok q x" and "child q x c \<Longrightarrow> c \<in> V" and "finite V"
  using assms by (auto simp: graph_ok_def)

lemma fd_ok_block: "fd_ok q b \<Longrightarrow> \<exists>B. blocks q b = Some B"
  by (auto simp: fd_ok_def get_fd_def)

text \<open>The last part of \<open>do_liveness\<close>, with the marks of its first part.\<close>

lemma dfs_finish:
  assumes q1: "same_rest q q1" "cur_visited_mark q1 = cur_visited_mark q" "insets q1 = insets q"
      "outsets q1 = outsets q" "marked q1 = insert b (marked q)" "marks_step q q1"
    and d: "dfs_post ch q1 ch3 q3" and ch: "\<And>c. child q b c \<Longrightarrow> c \<in> marked q3"
    and B: "blocks q b = Some B"
    and e1: "edge_post b (case child1 B of None \<Rightarrow> {} | Some c \<Rightarrow> insets q3 c) ch3 q3 ch4 q4"
    and e2: "edge_post b (case child2 B of None \<Rightarrow> {} | Some c \<Rightarrow> insets q4 c) ch4 q4 ch5 q5"
  shows "dfs_post ch q ch5 q5 \<and> b \<in> marked q5"
proof -
  have v1: "child q1 = child q" "pre_fix q1 = pre_fix q" "defsets q1 = defsets q" using same_rest_views[OF q1(1)] by auto
  have r3: "same_rest q1 q3" using d by (simp add: dfs_post_def)
  have v3: "child q3 = child q" "defsets q3 = defsets q" using same_rest_views[OF r3] v1 by auto
  have r4: "same_rest q3 q4" using e1 by (simp add: edge_post_def)
  have v4: "child q4 = child q" "defsets q4 = defsets q" using same_rest_views[OF r4] v3 by auto
  have cb: "child q b c \<longleftrightarrow> child1 B = Some c \<or> child2 B = Some c" for c using B by (simp add: child_def)
  have d4: "dfs_post ch3 q3 ch4 q4" by (rule edge_dfs_post[OF e1 refl]) (simp add: v3 cb)
  have d5: "dfs_post ch4 q4 ch5 q5" by (rule edge_dfs_post[OF e2 refl]) (simp add: v4 cb)
  note D = dfs_post_trans[OF dfs_post_trans[OF d d4] d5]
  have m: "marked q5 = marked q3" using e1 e2 by (simp add: edge_post_def marked_marks)
  have sub: "marked q1 \<subseteq> marked q5" using D by (simp add: dfs_post_def)
  have "flows q q5 b" if eq: "insets q5 = insets q"
  proof -
    have "insets q1 = insets q5" using eq q1(3) by simp
    moreover have "insets q1 x \<subseteq> insets q3 x" "insets q3 x \<subseteq> insets q4 x" "insets q4 x \<subseteq> insets q5 x" for x
      using d d4 d5 by (simp_all add: dfs_post_def)
    ultimately have "\<And>x. insets q x \<subseteq> insets q3 x" "\<And>x. insets q3 x \<subseteq> insets q5 x"
      "\<And>x. insets q x \<subseteq> insets q4 x" "\<And>x. insets q4 x \<subseteq> insets q5 x"
      unfolding q1(3) by blast+
    then have i3: "insets q3 = insets q" and i4: "insets q4 = insets q"
      using sandwich[OF _ _ eq] by blast+
    have o: "outsets q4 b \<subseteq> outsets q5 b" using d5 by (simp add: dfs_post_def)
    show ?thesis unfolding flows_def
    proof (intro allI impI)
      fix c assume "child q b c"
      then consider "child1 B = Some c" | "child2 B = Some c" using cb by blast
      then show "insets q c - defsets q b \<subseteq> insets q b \<and> insets q c \<subseteq> outsets q5 b"
      proof cases
        case 1
        then have "insets q4 b = insets q3 b \<union> (insets q3 c - defsets q b)" "insets q3 c \<subseteq> outsets q4 b"
          using e1 v3 by (auto simp: edge_post_def)
        then show ?thesis using i3 i4 o by auto
      next
        case 2
        then have "insets q5 b = insets q4 b \<union> (insets q4 c - defsets q b)" "insets q4 c \<subseteq> outsets q5 b"
          using e2 v4 by (auto simp: edge_post_def)
        then show ?thesis using i4 eq by auto
      qed
    qed
  qed
  moreover have "child q b c \<Longrightarrow> c \<in> marked q5" for c using ch m by simp
  moreover have "(\<forall>c. child q x c \<longrightarrow> c \<in> marked q5) \<and> (insets q5 = insets q \<longrightarrow> flows q q5 x)"
    if "x \<in> marked q5" "x \<notin> marked q" "x \<noteq> b" for x
  proof -
    have x: "x \<notin> marked q1" using that q1(5) by simp
    have "flows q1 q5 x \<Longrightarrow> flows q q5 x" using v1 q1(3) by (simp add: flows_def)
    then show ?thesis
      using dfs_post_new[OF D that(1) x] v1(1) q1(3) by simp
  qed
  ultimately have new: "\<forall>x \<in> marked q5 - marked q. (\<forall>c. child q x c \<longrightarrow> c \<in> marked q5) \<and>
      (insets q5 = insets q \<longrightarrow> flows q q5 x)" by blast
  have "below q L = below q1 L" for L using q1(3,4) v1(1) by (simp add: below_def)
  then have "below q5 L" if "pre_fix q L" "below q L" for L
    using D that v1(2) by (simp add: dfs_post_def)
  moreover have "same_rest q q5" "cur_visited_mark q5 = cur_visited_mark q"
    using D q1(1,2) same_rest_trans[of q q1 q5] by (simp_all add: dfs_post_def)
  moreover have "ch5 = (ch \<or> insets q5 \<noteq> insets q)" "\<forall>x. insets q x \<subseteq> insets q5 x"
    "\<forall>x. outsets q x \<subseteq> outsets q5 x"
    using D unfolding dfs_post_def q1(3,4) by blast+
  moreover have "marked q \<subseteq> marked q5" "b \<in> marked q5" using sub q1(5) by auto
  moreover have "marks_step q q5"
    using D marks_step_trans[OF q1(6) _ q1(2)] by (simp add: dfs_post_def)
  ultimately show ?thesis using new unfolding dfs_post_def by blast
qed

lemma do_liveness_view:
  shows "graph_ok V q \<Longrightarrow> b \<in> V \<Longrightarrow> b \<notin> marked q \<Longrightarrow> card (V - marked q) \<le> n \<Longrightarrow>
      0 \<le> sint (cur_visited_mark q) \<Longrightarrow>
      \<exists>ch' q'. do_liveness n b (ch, q) = Some (ch', q') \<and> dfs_post ch q ch' q' \<and> b \<in> marked q'"
    and "graph_ok V q \<Longrightarrow> (\<And>c. bo = Some c \<Longrightarrow> c \<in> V) \<Longrightarrow> card (V - marked q) \<le> n \<Longrightarrow>
      0 \<le> sint (cur_visited_mark q) \<Longrightarrow>
      \<exists>ch' q'. liveness_child n bo (ch, q) = Some (ch', q') \<and> dfs_post ch q ch' q' \<and>
        (\<forall>c. bo = Some c \<longrightarrow> c \<in> marked q')"
proof (induction n arbitrary: q b bo ch)
  case 0
  {
    case 1
    have "finite (V - marked q)" "V - marked q \<noteq> {}" using 1 by (auto simp: graph_ok_def)
    then show ?case using 1(4) by (simp add: card_eq_0_iff)
  next
    case 2
    show ?case
    proof (cases bo)
      case None
      then show ?thesis by (simp add: dfs_post_refl)
    next
      case (Some c)
      have "finite (V - marked q)" using 2 by (auto simp: graph_ok_def)
      then have "c \<in> marked q" using 2(2)[OF Some] 2(3) by (auto simp: card_eq_0_iff)
      then show ?thesis using Some by (auto simp: marked_def dfs_post_refl)
    qed
  }
next
  case (Suc n)
  {
    fix q b ch
    assume g: "graph_ok V q" and b: "b \<in> V" "b \<notin> marked q" and n: "card (V - marked q) \<le> Suc n"
      and m: "0 \<le> sint (cur_visited_mark q)"
    obtain B where B: "blocks q b = Some B" using fd_ok_block graph_okD(1)[OF g b(1)] by blast
    obtain q1 where q1: "visit b q = Some q1" "same_rest q q1" "cur_visited_mark q1 = cur_visited_mark q"
      "insets q1 = insets q" "outsets q1 = outsets q" "marked q1 = insert b (marked q)" "marks_step q q1"
      using visit_view[OF graph_okD(1)[OF g b(1)] m] by blast
    have g1: "graph_ok V q1" using same_rest_views(4)[OF q1(2) g] .
    have "V - marked q1 = V - marked q - {b}" using q1(6) by auto
    then have n1: "card (V - marked q1) \<le> n" using n b g by (simp add: graph_ok_def)
    have cb: "child q b c \<longleftrightarrow> child1 B = Some c \<or> child2 B = Some c" for c using B by (simp add: child_def)
    have inV: "child1 B = Some c \<Longrightarrow> c \<in> V" "child2 B = Some c \<Longrightarrow> c \<in> V" for c
      using graph_okD(2)[OF g b(1)] cb by blast+
    obtain ch2 q2 where q2: "liveness_child n (child1 B) (ch, q1) = Some (ch2, q2)"
      "dfs_post ch q1 ch2 q2" "\<forall>c. child1 B = Some c \<longrightarrow> c \<in> marked q2"
      using Suc.IH(2)[where bo = "child1 B" and ch = ch, OF g1 inV(1) n1] m q1(3) by auto
    have g2: "graph_ok V q2" using same_rest_views(4)[of q1 q2] g1 q2(2) by (simp add: dfs_post_def)
    have "marked q1 \<subseteq> marked q2" using q2(2) by (simp add: dfs_post_def)
    then have "card (V - marked q2) \<le> card (V - marked q1)"
      using g by (auto simp: graph_ok_def intro!: card_mono)
    then have n2: "card (V - marked q2) \<le> n" using n1 by simp
    obtain ch3 q3 where q3: "liveness_child n (child2 B) (ch2, q2) = Some (ch3, q3)"
      "dfs_post ch2 q2 ch3 q3" "\<forall>c. child2 B = Some c \<longrightarrow> c \<in> marked q3"
      using Suc.IH(2)[where bo = "child2 B" and ch = ch2, OF g2 inV(2) n2] m q1(3) q2(2) by (auto simp: dfs_post_def)
    have d3: "dfs_post ch q1 ch3 q3" by (rule dfs_post_trans[OF q2(2) q3(2)])
    have g3: "graph_ok V q3" using same_rest_views(4)[of q2 q3] g2 q3(2) by (simp add: dfs_post_def)
    have "marked q2 \<subseteq> marked q3" using q3(2) by (simp add: dfs_post_def)
    then have mk: "child q b c \<Longrightarrow> c \<in> marked q3" for c using cb q2(3) q3(3) by blast
    have ok: "fd_ok q3 b" "child1 B = Some c \<Longrightarrow> fd_ok q3 c" "child2 B = Some c \<Longrightarrow> fd_ok q3 c" for c
      using graph_okD(1)[OF g3] b(1) inV by blast+
    obtain ch4 q4 where q4: "in_out_child b (child1 B) (ch3, q3) = Some (ch4, q4)"
      "edge_post b (case child1 B of None \<Rightarrow> {} | Some c \<Rightarrow> insets q3 c) ch3 q3 ch4 q4"
      using in_out_child_view[where ch = ch3, OF ok(1,2)] by blast
    have "\<And>x. fd_ok q3 x \<Longrightarrow> fd_ok q4 x" using q4(2) by (simp add: edge_post_def same_rest_def)
    then obtain ch5 q5 where q5: "in_out_child b (child2 B) (ch4, q4) = Some (ch5, q5)"
      "edge_post b (case child2 B of None \<Rightarrow> {} | Some c \<Rightarrow> insets q4 c) ch4 q4 ch5 q5"
      using in_out_child_view[of q4 b "child2 B" ch4] ok by blast
    have "do_liveness (Suc n) b (ch, q) = Some (ch5, q5)" using B q1(1) q2(1) q3(1) q4(1) q5(1) by simp
    moreover have "dfs_post ch q ch5 q5 \<and> b \<in> marked q5"
      by (rule dfs_finish[OF q1(2-7) d3 mk B q4(2) q5(2)])
    ultimately have "\<exists>ch' q'. do_liveness (Suc n) b (ch, q) = Some (ch', q') \<and> dfs_post ch q ch' q' \<and> b \<in> marked q'"
      by blast
  }
  note step = this
  {
    case 1
    then show ?case by (intro step)
  next
    case 2
    show ?case
    proof (cases bo)
      case None
      then show ?thesis by (simp add: dfs_post_refl)
    next
      case (Some c)
      obtain B where B: "blocks q c = Some B" using fd_ok_block graph_okD(1)[OF 2(1) 2(2)[OF Some]] by blast
      show ?thesis
      proof (cases "c \<in> marked q")
        case True
        then show ?thesis using Some by (auto simp: marked_def dfs_post_refl)
      next
        case False
        then have "visited c q = Some False" using B by (auto simp: marked_def visited_def)
        then show ?thesis using step[OF 2(1) 2(2)[OF Some] False 2(3,4), of ch] Some by simp
      qed
    qed
  }
qed

subsection \<open>The loop\<close>

definition marks_le :: "block_id set \<Rightarrow> nat \<Rightarrow> quadr_st \<Rightarrow> bool" where
  "marks_le V k q \<longleftrightarrow> cur_visited_mark q = of_nat k \<and>
    (\<forall>x \<in> V. \<forall>m. fst (marks q) x = Some m \<longrightarrow> uint m \<le> int k)"

lemma mark_bounds:
  assumes "m < 32768"
  shows "sint (of_nat m :: 16 word) = int m" and "uint (of_nat m :: 16 word) = int m"
proof -
  show u: "uint (of_nat m :: 16 word) = int m" using assms by (simp add: unsigned_of_nat take_bit_nat_eq_self)
  show "sint (of_nat m :: 16 word) = int m"
    unfolding sint_uint u using assms by (simp add: signed_take_bit_int_eq_self)
qed

lemma begin_traversal_view:
  assumes "marks_le V k q" and "k < 32767"
  shows "\<exists>q'. begin_traversal q = Some q' \<and> same_rest q q' \<and> insets q' = insets q \<and>
    outsets q' = outsets q \<and> marks_le V (Suc k) q' \<and> marked q' \<inter> V = {} \<and>
    0 \<le> sint (cur_visited_mark q') \<and> next_block_id q' = next_block_id q"
proof -
  let ?q = "q\<lparr>cur_visited_mark := of_nat (Suc k)\<rparr>"
  note b = mark_bounds[of "Suc k"]
  have k: "Suc k < 32768" using assms(2) by simp
  have nz: "(of_nat (Suc k) :: 16 word) \<noteq> 0" using b(2)[OF k] by (metis of_nat_0_less_iff unsigned_0 zero_less_Suc less_irrefl)
  have c: "cur_visited_mark q + 1 = of_nat (Suc k)" using assms(1) by (simp add: marks_le_def)
  have "begin_traversal q = Some ?q" using nz unfolding begin_traversal_def c by (simp add: Let_def)
  moreover have fd: "get_fd x ?q = get_fd x q" for x by (simp add: get_fd_def)
  moreover have "skel ?q = skel q" by (simp add: skel_def)
  moreover have "marks_le V (Suc k) ?q" using assms(1) by (fastforce simp: marks_le_def marks_def)
  moreover have "b \<notin> marked ?q" if "b \<in> V" for b
    using that assms(1) b(1)[OF k] by (force simp: marked_marks marks_le_def marks_def)
  moreover have "0 \<le> sint (cur_visited_mark ?q)" using b(1)[OF k] by simp
  ultimately show ?thesis
    by (intro exI[of _ ?q]) (auto simp: same_rest_def fd_ok_def insets_def[abs_def] outsets_def[abs_def]
        defsets_def[abs_def])
qed

lemma flows_reach:
  assumes "\<And>x. x \<in> M - M0 \<Longrightarrow> (\<forall>c. child q x c \<longrightarrow> c \<in> M)" and "rt \<in> M" and "V \<inter> M0 = {}"
    and "\<And>x c. x \<in> V \<Longrightarrow> child q x c \<Longrightarrow> c \<in> V" and "rt \<in> V" and "(child q)\<^sup>*\<^sup>* rt x"
  shows "x \<in> M - M0 \<and> x \<in> V"
  using assms(6)
proof (induction rule: rtranclp_induct)
  case base
  then show ?case using assms by blast
next
  case (step x c)
  then show ?case using assms by blast
qed

lemma iteration:
  assumes g: "graph_ok V q" and rt: "rt \<in> V" and m: "marks_le V k q" and k: "k < 32767"
    and n: "card V \<le> next_block_id q"
  shows "\<exists>q1 ch q'. begin_traversal q = Some q1 \<and>
    do_liveness (next_block_id q1 + 1) rt (False, q1) = Some (ch, q') \<and>
    same_rest q q' \<and> (\<forall>x. insets q x \<subseteq> insets q' x) \<and> ch = (insets q' \<noteq> insets q) \<and>
    (\<forall>L. pre_fix q L \<longrightarrow> below q L \<longrightarrow> below q' L) \<and> marks_le V (Suc k) q' \<and>
    (\<not> ch \<longrightarrow> (\<forall>x. (child q)\<^sup>*\<^sup>* rt x \<longrightarrow> flows q q' x))"
proof -
  obtain q1 where q1: "begin_traversal q = Some q1" "same_rest q q1" "insets q1 = insets q"
    "outsets q1 = outsets q" "marks_le V (Suc k) q1" "marked q1 \<inter> V = {}"
    "0 \<le> sint (cur_visited_mark q1)" "next_block_id q1 = next_block_id q"
    using begin_traversal_view[OF m k] by blast
  have g1: "graph_ok V q1" using same_rest_views(4)[OF q1(2) g] .
  have v1: "child q1 = child q" "pre_fix q1 = pre_fix q" "defsets q1 = defsets q"
    using same_rest_views[OF q1(2)] by auto
  have "V - marked q1 = V" using q1(6) by auto
  then have c: "card (V - marked q1) \<le> next_block_id q1 + 1" using n q1(8) by simp
  obtain ch q' where d: "do_liveness (next_block_id q1 + 1) rt (False, q1) = Some (ch, q')"
    "dfs_post False q1 ch q'" "rt \<in> marked q'"
    using do_liveness_view(1)[OF g1 rt _ c q1(7), of False] rt q1(6) by blast
  have sr: "same_rest q q'" using d(2) q1(2) same_rest_trans[of q q1 q'] by (simp add: dfs_post_def)
  have "marks_le V (Suc k) q'"
    unfolding marks_le_def
  proof (intro conjI ballI allI impI)
    show "cur_visited_mark q' = of_nat (Suc k)" using d(2) q1(5) by (simp add: dfs_post_def marks_le_def)
    fix x m assume x: "x \<in> V" "fst (marks q') x = Some m"
    have "fst (marks q') x = fst (marks q1) x \<or> fst (marks q') x = Some (of_nat (Suc k))"
      using d(2) q1(5) by (simp add: dfs_post_def marks_step_def marks_le_def)
    then show "uint m \<le> int (Suc k)"
    proof
      assume "fst (marks q') x = fst (marks q1) x"
      then show ?thesis using q1(5) x by (simp add: marks_le_def)
    next
      assume "fst (marks q') x = Some (of_nat (Suc k))"
      then have "m = of_nat (Suc k)" using x(2) by simp
      then show ?thesis using mark_bounds(2)[of "Suc k"] k by simp
    qed
  qed
  moreover have "flows q q' x" if "\<not> ch" "(child q)\<^sup>*\<^sup>* rt x" for x
  proof -
    have "x \<in> marked q' - marked q1 \<and> x \<in> V"
    proof (rule flows_reach[OF _ d(3) _ _ rt that(2)])
      show "\<forall>c. child q y c \<longrightarrow> c \<in> marked q'" if "y \<in> marked q' - marked q1" for y
        using dfs_post_new(1)[OF d(2), of y] that v1(1) by simp
      show "V \<inter> marked q1 = {}" using q1(6) by blast
      show "c \<in> V" if "y \<in> V" "child q y c" for y c using graph_okD(2)[OF g that] .
    qed
    then have "x \<in> marked q' - marked q1" by blast
    moreover have "insets q' = insets q1" using d(2) that(1) by (simp add: dfs_post_def)
    ultimately have "flows q1 q' x" using dfs_post_new(2)[OF d(2), of x] by simp
    then show ?thesis using v1 q1(3) by (simp add: flows_def)
  qed
  moreover have "below q L = below q1 L" for L using q1(3,4) v1(1) by (simp add: below_def)
  moreover have "\<forall>x. insets q x \<subseteq> insets q' x" "ch = (insets q' \<noteq> insets q)"
    using d(2) unfolding dfs_post_def q1(3) by blast+
  moreover have "\<forall>L. pre_fix q1 L \<longrightarrow> below q1 L \<longrightarrow> below q' L" using d(2) by (simp add: dfs_post_def)
  ultimately show ?thesis
    using q1(1) d(1) sr v1(2) by (intro exI[of _ q1] exI[of _ ch] exI[of _ q'] conjI) simp_all
qed

definition total :: "block_id set \<Rightarrow> quadr_st \<Rightarrow> nat" where
  "total V q = (\<Sum>x \<in> V. card (insets q x))"

lemma total_less:
  assumes "finite V" and "\<And>x. insets q x \<subseteq> insets q' x" and "insets q' \<noteq> insets q"
    and "\<And>x. insets q' x \<subseteq> (if x \<in> V then {..<N} else {})"
  shows "total V q < total V q'"
proof -
  obtain y where y: "insets q' y \<noteq> insets q y" using assms(3) by blast
  have fin: "finite (insets q' x)" for x using assms(4)[of x] by (auto intro: finite_subset split: if_splits)
  have yV: "y \<in> V" using y assms(2)[of y] assms(4)[of y] by (auto split: if_splits)
  show ?thesis unfolding total_def
  proof (rule sum_strict_mono_ex1[OF assms(1)])
    show "\<forall>x \<in> V. card (insets q x) \<le> card (insets q' x)" using assms(2) fin by (simp add: card_mono)
    show "\<exists>x \<in> V. card (insets q x) < card (insets q' x)"
      using yV y assms(2)[of y] fin by (auto intro!: bexI[of _ y] psubset_card_mono)
  qed
qed

lemma total_bound:
  assumes "finite V" and "\<And>x. insets q x \<subseteq> (if x \<in> V then {..<N} else {})"
  shows "total V q \<le> card V * N"
proof -
  have "card (insets q x) \<le> N" if "x \<in> V" for x
    using card_mono[of "{..<N}" "insets q x"] assms(2)[of x] that by simp
  then show ?thesis unfolding total_def using sum_bounded_above[of V "\<lambda>x. card (insets q x)" N] by simp
qed

text \<open>
  With enough fuel and as long as the marks do not overflow the loop ends in a state in
  which the equations hold for the blocks that can be reached.
\<close>

lemma liveness_loop_view:
  assumes "graph_ok V q" and "rt \<in> V" and "marks_le V k q" and "card V \<le> next_block_id q"
    and "card V * N < total V q + n" and "k + n \<le> 32767"
    and "below q (\<lambda>x. if x \<in> V then {..<N} else {})" and "pre_fix q (\<lambda>x. if x \<in> V then {..<N} else {})"
  shows "\<exists>q'. liveness_loop n rt q = Some q' \<and> same_rest q q' \<and> (\<forall>x. insets q x \<subseteq> insets q' x) \<and>
    (\<forall>L. pre_fix q L \<longrightarrow> below q L \<longrightarrow> below q' L) \<and>
    (\<forall>x. (child q)\<^sup>*\<^sup>* rt x \<longrightarrow> flows q' q' x)"
  using assms
proof (induction n arbitrary: q k)
  case 0
  have "finite V" using 0(1) by (simp add: graph_ok_def)
  then have "total V q \<le> card V * N" using 0(7) total_bound[of V q N] by (simp add: below_def)
  then show ?case using 0(5) by simp
next
  case (Suc n)
  let ?L = "\<lambda>x. if x \<in> V then {..<N} else {}"
  have fin: "finite V" using Suc.prems(1) by (simp add: graph_ok_def)
  obtain q1 ch q2 where it: "begin_traversal q = Some q1"
    "do_liveness (next_block_id q1 + 1) rt (False, q1) = Some (ch, q2)" "same_rest q q2"
    "\<forall>x. insets q x \<subseteq> insets q2 x" "ch = (insets q2 \<noteq> insets q)"
    "\<forall>L. pre_fix q L \<longrightarrow> below q L \<longrightarrow> below q2 L" "marks_le V (Suc k) q2"
    "\<not> ch \<longrightarrow> (\<forall>x. (child q)\<^sup>*\<^sup>* rt x \<longrightarrow> flows q q2 x)"
    using iteration[OF Suc.prems(1-3) _ Suc.prems(4)] Suc.prems(6) by auto
  have v: "child q2 = child q" "pre_fix q2 = pre_fix q" "defsets q2 = defsets q" using same_rest_views[OF it(3)] by auto
  show ?case
  proof (cases ch)
    case False
    have "flows q2 q2 x" if "(child q)\<^sup>*\<^sup>* rt x" for x
      using it(5,8) False that v by (simp add: flows_def)
    moreover have "liveness_loop (Suc n) rt q = Some q2" using it(1,2) False by (simp del: do_liveness.simps)
    ultimately show ?thesis using it(3,4,6) by blast
  next
    case True
    have g2: "graph_ok V q2" using same_rest_views(4)[OF it(3) Suc.prems(1)] .
    have b2: "below q2 ?L" using it(6) Suc.prems(7,8) by blast
    have "total V q < total V q2"
      using total_less[OF fin, of q q2 N] it(4,5) True b2 by (simp add: below_def)
    then have t: "card V * N < total V q2 + n" using Suc.prems(5) by simp
    have nb: "card V \<le> next_block_id q2" using Suc.prems(4) skel_fields(1)[of q2 q] it(3) by (simp add: same_rest_def)
    have pf: "pre_fix q2 ?L" using Suc.prems(8) v by simp
    obtain q' where q': "liveness_loop n rt q2 = Some q'" "same_rest q2 q'" "\<forall>x. insets q2 x \<subseteq> insets q' x"
      "\<forall>L. pre_fix q2 L \<longrightarrow> below q2 L \<longrightarrow> below q' L" "\<forall>x. (child q2)\<^sup>*\<^sup>* rt x \<longrightarrow> flows q' q' x"
      using Suc.IH[OF g2 Suc.prems(2) it(7) nb t _ b2 pf] Suc.prems(6) by auto
    have "liveness_loop (Suc n) rt q = Some q'" using it(1,2) True q'(1) by (simp del: do_liveness.simps)
    moreover have "\<forall>x. insets q x \<subseteq> insets q' x" using it(4) q'(3) by blast
    moreover have "below q' L" if "pre_fix q L" "below q L" for L
      using that it(6) q'(4) v(2) by simp
    ultimately show ?thesis
      using same_rest_trans[OF it(3) q'(2)] q'(5) v(1) by (intro exI[of _ q'] conjI) simp_all
  qed
qed

subsection \<open>Walks along the blocks\<close>

lemma skel_nxt: "skel q' = skel q \<Longrightarrow> nxt_same q q'"
  using skel_blocks by (fastforce simp: nxt_same_def)

lemma for_blocks_rule:
  assumes "linked (blocks q) s xs" and "length xs \<le> n" and "I [] q"
    and step: "\<And>ys b zs q. xs = ys @ b # zs \<Longrightarrow> I ys q \<Longrightarrow>
      \<exists>q'. f b q = Some q' \<and> I (ys @ [b]) q' \<and> nxt_same q q'"
  shows "\<exists>q'. for_blocks n f s q = Some q' \<and> I xs q'"
proof -
  have "\<exists>q'. for_blocks n f s q = Some q' \<and> I xs q'"
    if "xs = ys @ zs" "linked (blocks q) s zs" "length zs \<le> n" "I ys q" for ys zs n s q
    using that
  proof (induction n arbitrary: ys zs s q)
    case 0
    then show ?case by (cases s) auto
  next
    case (Suc n)
    show ?case
    proof (cases zs)
      case Nil
      then show ?thesis using Suc.prems by (cases s) auto
    next
      case (Cons b zs')
      then obtain B where B: "s = Some b" "blocks q b = Some B" "linked (blocks q) (nxt B) zs'"
        using Suc.prems(2) by (cases s) auto
      obtain q1 where q1: "f b q = Some q1" "I (ys @ [b]) q1" "nxt_same q q1"
        using step[of ys b zs'] Suc.prems Cons by blast
      obtain B1 where B1: "blocks q1 b = Some B1" "nxt B1 = nxt B"
        using q1(3) B(2) by (auto simp: nxt_same_def)
      have "linked (blocks q1) (nxt B1) zs'" using linked_nxt[OF q1(3) B(3)] B1(2) by simp
      then show ?thesis
        using Suc.IH[where ys = "ys @ [b]" and zs = zs' and s = "nxt B1" and q = q1] Suc.prems Cons B(1) q1 B1
        by auto
    qed
  qed
  from this[of "[]" xs q s n] show ?thesis using assms by simp
qed

subsection \<open>The sets of all blocks\<close>

lemma compute_live_def_use_view:
  assumes "blocks q b = Some B" and "flow_data B = Some fd"
  shows "\<exists>q' fd' i d x. compute_live_def_use b q = Some q' \<and> skel q' = skel q \<and> marks q' = marks q \<and>
    (\<forall>y. get_fd y q' = (if y = b then Some fd' else get_fd y q)) \<and>
    live_in fd' = Some i \<and> live_def fd' = Some d \<and> live_out fd' = Some x \<and>
    rb_set i \<and> rb_set d \<and> rb_set x \<and> instr_num fd' = length (lst B) \<and>
    uses i = (\<lambda>v. if exposed (lst B) v then Some (of_nat (first_use (lst B) v)) else None) \<and>
    dom (rb_map d) = {v. kills (lst B) v} \<and> dom (rb_map x) = {}"
proof -
  obtain i d where ud: "live_loop 0 (lst B) (rb_new, rb_new) = Some (i, d)" "rb_set i" "rb_set d"
    "uses i = (\<lambda>v. if exposed (lst B) v then Some (of_nat (first_use (lst B) v)) else None)"
    "dom (rb_map d) = {v. kills (lst B) v}"
    using live_loop_view[of 0 "lst B", unfolded add_0] by (auto simp: live_view_def)
  have "get_fd b q = Some fd" using assms by (simp add: get_fd_def)
  then obtain q' where q': "set_fd b (\<lambda>_. fd\<lparr>live_def := Some d, live_in := Some i,
       live_out := Some rb_new, instr_num := length (lst B)\<rparr>) q = Some q'"
    "skel q' = skel q" "marks q' = marks q" "\<forall>y. get_fd y q' = (if y = b then
       Some (fd\<lparr>live_def := Some d, live_in := Some i, live_out := Some rb_new, instr_num := length (lst B)\<rparr>)
       else get_fd y q)"
    using set_fd_view by meson
  have "compute_live_def_use b q = Some q'"
    using ud(1) assms q'(1) by (simp add: compute_live_def_use_def set_fd_def set_block_def)
  then show ?thesis
    using q'(2-4) ud(2-5) rbs.inv_empty rbs.view_empty
    by (intro exI[of _ q'] exI[of _ "fd\<lparr>live_def := Some d, live_in := Some i, live_out := Some rb_new,
          instr_num := length (lst B)\<rparr>"] exI[of _ i] exI[of _ d] exI[of _ rb_new]) simp
qed

definition sets_start :: "quadr_st \<Rightarrow> quadr_st \<Rightarrow> block_id \<Rightarrow> bool" where
  "sets_start q0 q x \<longleftrightarrow> fd_ok q x \<and> (\<exists>B. blocks q0 x = Some B \<and> insets q x = {v. exposed (lst B) v} \<and>
     defsets q x = {v. kills (lst B) v} \<and> outsets q x = {})"

lemma sets_start_fd:
  "get_fd x q' = get_fd x q \<Longrightarrow> sets_start q0 q x \<Longrightarrow> sets_start q0 q' x"
  by (simp add: sets_start_def fd_ok_def insets_def outsets_def defsets_def)

lemma compute_all:
  assumes l: "linked (blocks q) s xs" and d: "distinct xs" and n: "length xs \<le> n"
    and fd: "\<And>x. x \<in> set xs \<Longrightarrow> get_fd x q \<noteq> None"
  shows "\<exists>q'. for_blocks n compute_live_def_use s q = Some q' \<and> skel q' = skel q \<and> marks q' = marks q \<and>
    (\<forall>x. x \<notin> set xs \<longrightarrow> get_fd x q' = get_fd x q) \<and> (\<forall>x \<in> set xs. sets_start q q' x)"
proof -
  let ?I = "\<lambda>ys q'. skel q' = skel q \<and> marks q' = marks q \<and>
    (\<forall>x. x \<notin> set ys \<longrightarrow> get_fd x q' = get_fd x q) \<and> (\<forall>x \<in> set ys. sets_start q q' x)"
  have "\<exists>q'. for_blocks n compute_live_def_use s q = Some q' \<and> ?I xs q'"
  proof (rule for_blocks_rule[OF l n])
    show "?I [] q" by simp
    fix ys b zs q1 assume xs: "xs = ys @ b # zs" and I: "?I ys q1"
    have b: "b \<in> set xs" "b \<notin> set ys" using xs d by auto
    then obtain fd where "get_fd b q1 = Some fd" using I fd[OF b(1)] by fastforce
    then obtain B where B: "blocks q1 b = Some B" "flow_data B = Some fd" by (auto simp: get_fd_def)
    obtain q2 fd' i d x where q2: "compute_live_def_use b q1 = Some q2" "skel q2 = skel q1" "marks q2 = marks q1"
      "\<forall>y. get_fd y q2 = (if y = b then Some fd' else get_fd y q1)"
      "live_in fd' = Some i" "live_def fd' = Some d" "live_out fd' = Some x" "rb_set i" "rb_set d" "rb_set x"
      "uses i = (\<lambda>v. if exposed (lst B) v then Some (of_nat (first_use (lst B) v)) else None)"
      "dom (rb_map d) = {v. kills (lst B) v}" "dom (rb_map x) = {}"
      using compute_live_def_use_view[OF B] by blast
    obtain B0 where B0: "blocks q b = Some B0" "lst B0 = lst B" using skel_blocks[of q q1] I B(1) by fastforce
    have "dom (rb_map i) = {v. exposed (lst B) v}"
      unfolding dom_uses[symmetric] q2(11) by (auto simp: dom_def)
    then have "sets_start q q2 b"
      using q2 B0 by (auto simp: sets_start_def fd_ok_def insets_def defsets_def outsets_def)
    moreover have "sets_start q q2 y" if "y \<in> set ys" for y
    proof -
      have "y \<noteq> b" using that b(2) by blast
      then have "get_fd y q2 = get_fd y q1" using q2(4) by simp
      then show ?thesis by (rule sets_start_fd) (use that I in blast)
    qed
    ultimately show "\<exists>q'. compute_live_def_use b q1 = Some q' \<and> ?I (ys @ [b]) q' \<and> nxt_same q1 q'"
      using q2(1-4) I skel_nxt[OF q2(2)] by (intro exI[of _ q2]) auto
  qed
  then show ?thesis by blast
qed

subsection \<open>The result of the analysis\<close>

lemma make_live_at_end_ok:
  "length acc + length (preorder n) \<le> m \<Longrightarrow> make_live_at_end m n acc = Some (acc @ map fst (preorder n))"
proof (induction n arbitrary: acc)
  case (RBNODE c l k r)
  show ?case
  proof (cases "l = the_nil")
    case False
    show ?thesis
    proof (cases "r = the_nil")
      case True
      then show ?thesis using RBNODE.IH(1)[of "acc @ [fst k]"] RBNODE.prems False by simp
    next
      case rr: False
      show ?thesis
        using RBNODE.IH(1)[of "acc @ [fst k]"] RBNODE.IH(2)[of "acc @ fst k # map fst (preorder l)"]
          RBNODE.prems False rr by simp
    qed
  qed (use RBNODE.IH(2)[of "acc @ [fst k]"] RBNODE.prems in simp)
qed simp

lemma preorder_keys:
  assumes "rb_set t"
  shows "distinct (map fst (preorder (root t)))" and "fst ` set (preorder (root t)) = dom (rb_map t)"
    and "length (preorder (root t)) = card (dom (rb_map t))"
proof -
  have m: "mset (preorder (root t)) = mset (inorder (root t))" by (rule mset_preorder)
  have s: "sorted_wrt (<) (map fst (inorder (root t)))" using assms by (simp add: rb_set_def sorted_rb_cmp)
  then have "distinct (map fst (inorder (root t)))" by (simp add: strict_sorted_iff)
  moreover have "mset (map fst (preorder (root t))) = mset (map fst (inorder (root t)))" using m by simp
  ultimately show d: "distinct (map fst (preorder (root t)))" using mset_eq_imp_distinct_iff by blast
  show f: "fst ` set (preorder (root t)) = dom (rb_map t)"
    using mset_eq_setD[OF m] by (simp add: dom_rb_map tree_keys_def)
  show "length (preorder (root t)) = card (dom (rb_map t))"
    using distinct_card[OF d] f by simp
qed

definition finished :: "quadr_st \<Rightarrow> block_id \<Rightarrow> basic_block_t \<Rightarrow> bool" where
  "finished q3 x B \<longleftrightarrow> (\<exists>fd i ou. get_fd x q3 = Some fd \<and> live_in fd = Some i \<and> live_out fd = Some ou \<and>
     vars_at_start B = Some i \<and> lsize B = length (live_at_end B) \<and>
     set (live_at_end B) = dom (rb_map ou) \<and> distinct (live_at_end B))"

lemma finish_view:
  assumes ok: "fd_ok q b" and B: "blocks q b = Some B" and small: "card (outsets q b) < 2 ^ 32"
  shows "\<exists>B'. finish_liveness_computation b q = Some (q\<lparr>blocks := (blocks q)(b \<mapsto> B')\<rparr>) \<and>
    finished q b B' \<and> nxt B' = nxt B"
proof -
  obtain fd i d x where fd: "get_fd b q = Some fd" "live_in fd = Some i" "live_out fd = Some x" "rb_set x"
    using ok by (auto simp: fd_ok_def)
  have "length (inorder (root x)) = length (preorder (root x))" by (metis mset_preorder size_mset)
  also have "\<dots> = card (outsets q b)" using preorder_keys(3)[OF fd(4)] fd by (simp add: outsets_def dom_def)
  finally have len: "length (inorder (root x)) = length (preorder (root x))" "length (preorder (root x)) < 2 ^ 32"
    using small \<open>length (inorder (root x)) = length (preorder (root x))\<close> by simp_all
  have sz: "unat (rb_size x) = length (preorder (root x))"
    using len by (simp add: rb_size_core unsigned_of_nat take_bit_nat_eq_self)
  let ?vs = "map fst (preorder (root x))"
  let ?B = "B\<lparr>vars_at_start := live_in fd, lsize := length ?vs, live_at_end := ?vs,
         flow_data := Some (fd\<lparr>live_def := None, live_out := None, live_in := None\<rparr>)\<rparr>"
  have "make_live_at_end (unat (rb_size x)) (root x) [] = Some ?vs"
    using make_live_at_end_ok[of "[]" "root x" "unat (rb_size x)"] sz by simp
  then have "finish_liveness_computation b q = Some (q\<lparr>blocks := (blocks q)(b \<mapsto> ?B)\<rparr>)"
    using fd B sz by (simp add: finish_liveness_computation_def set_block_def Let_def)
  moreover have "finished q b ?B"
    using fd preorder_keys[OF fd(4)] by (auto simp: finished_def)
  ultimately show ?thesis by (intro exI[of _ ?B]) simp
qed

lemma finish_all:
  assumes l: "linked (blocks q) s xs" and d: "distinct xs" and n: "length xs \<le> n"
    and ok: "\<And>x. x \<in> set xs \<Longrightarrow> fd_ok q x \<and> card (outsets q x) < 2 ^ 32"
  shows "\<exists>q'. for_blocks n finish_liveness_computation s q = Some q' \<and> nxt_same q q' \<and>
    quadr_func q' = quadr_func q \<and> next_block_id q' = next_block_id q \<and>
    (\<forall>x \<in> set xs. \<exists>B. blocks q' x = Some B \<and> finished q x B)"
proof -
  let ?I = "\<lambda>ys q'. nxt_same q q' \<and> quadr_func q' = quadr_func q \<and> next_block_id q' = next_block_id q \<and>
    (\<forall>x. x \<notin> set ys \<longrightarrow> blocks q' x = blocks q x) \<and> (\<forall>x \<in> set ys. \<exists>B. blocks q' x = Some B \<and> finished q x B)"
  have "\<exists>q'. for_blocks n finish_liveness_computation s q = Some q' \<and> ?I xs q'"
  proof (rule for_blocks_rule[OF l n])
    show "?I [] q" by (auto simp: nxt_same_def)
    fix ys b zs q1 assume xs: "xs = ys @ b # zs" and I: "?I ys q1"
    have b: "b \<in> set xs" "b \<notin> set ys" using xs d by auto
    have eq: "blocks q1 b = blocks q b" using I b(2) by blast
    then have fd: "get_fd b q1 = get_fd b q" by (simp add: get_fd_def)
    then have "fd_ok q1 b" "card (outsets q1 b) < 2 ^ 32" "finished q1 b = finished q b"
      using ok[OF b(1)] by (simp_all add: fd_ok_def outsets_def finished_def[abs_def])
    moreover obtain B where B: "blocks q1 b = Some B" using fd_ok_block[OF \<open>fd_ok q1 b\<close>] by blast
    ultimately obtain B' where B': "finish_liveness_computation b q1 = Some (q1\<lparr>blocks := (blocks q1)(b \<mapsto> B')\<rparr>)"
      "finished q b B'" "nxt B' = nxt B" using finish_view by metis
    have "nxt_same q1 (q1\<lparr>blocks := (blocks q1)(b \<mapsto> B')\<rparr>)" using B B'(3) by (auto simp: nxt_same_def)
    moreover have "nxt_same q (q1\<lparr>blocks := (blocks q1)(b \<mapsto> B')\<rparr>)"
      using I B B'(3) by (fastforce simp: nxt_same_def)
    ultimately show "\<exists>q'. finish_liveness_computation b q1 = Some q' \<and> ?I (ys @ [b]) q' \<and> nxt_same q1 q'"
      using B'(1,2) I b(2) by (intro exI[of _ "q1\<lparr>blocks := (blocks q1)(b \<mapsto> B')\<rparr>"]) auto
  qed
  then show ?thesis by blast
qed

text \<open>Resetting \<open>flow_data\<close>, before and after.\<close>

lemma set_flow_data_all:
  assumes l: "linked (blocks q) s xs" and d: "distinct xs" and n: "length xs \<le> n"
  shows "\<exists>q'. for_blocks n (\<lambda>b. set_block b (\<lambda>B. B\<lparr>flow_data := fdo\<rparr>)) s q = Some q' \<and>
    skel q' = skel q \<and> marks q' = marks q \<and>
    (\<forall>x. blocks q' x = (if x \<in> set xs then map_option (\<lambda>B. B\<lparr>flow_data := fdo\<rparr>) (blocks q x) else blocks q x))"
    (is "\<exists>q'. for_blocks n ?f s q = Some q' \<and> ?P xs q'")
proof (rule for_blocks_rule[OF l n, of ?P])
  show "?P [] q" by simp
  fix ys b zs q1 assume xs: "xs = ys @ b # zs" and I: "?P ys q1"
  have b: "b \<in> set xs" "b \<notin> set ys" using xs d by auto
  obtain B where B: "blocks q b = Some B" using linked_blocks[OF l b(1)] by blast
  then have B1: "blocks q1 b = Some B" using I b(2) by simp
  let ?q = "q1\<lparr>blocks := (blocks q1)(b \<mapsto> B\<lparr>flow_data := fdo\<rparr>)\<rparr>"
  have "skel ?q = skel q1" "marks ?q = marks q1" using B1 by (auto simp: skel_def marks_def fun_eq_iff)
  moreover have "set_block b (\<lambda>B. B\<lparr>flow_data := fdo\<rparr>) q1 = Some ?q" using B1 by (simp add: set_block_def)
  ultimately show "\<exists>q'. ?f b q1 = Some q' \<and> ?P (ys @ [b]) q' \<and> nxt_same q1 q'"
    using I B skel_nxt[of ?q q1] by (intro exI[of _ ?q]) auto
qed

subsection \<open>Liveness\<close>

inductive live_at :: "quadr_st \<Rightarrow> block_id \<Rightarrow> var_id \<Rightarrow> bool" for q where
  live_use: "blocks q b = Some B \<Longrightarrow> exposed (lst B) v \<Longrightarrow> live_at q b v"
| live_through: "child q b c \<Longrightarrow> live_at q c v \<Longrightarrow> blocks q b = Some B \<Longrightarrow> \<not> kills (lst B) v \<Longrightarrow>
    live_at q b v"

definition quad_vars :: "quadr_t \<Rightarrow> var_id set" where
  "quad_vars x = {v. used_in_quadr x v}"

text \<open>
  What the analysis needs of the function: its blocks are a list, the edges stay inside
  it, no block has \<open>flow_data\<close>, the marks are those that \<open>create_block_graph\<close> and
  \<open>new_basic_block\<close> leave, and the variables are declared.  The last condition bounds
  the number of iterations, each of which uses up one value of the 16 bit mark.
\<close>

definition flow_graph :: "quadr_st \<Rightarrow> func_id \<Rightarrow> block_id \<Rightarrow> block_id list \<Rightarrow> bool" where
  "flow_graph q func rt xs \<longleftrightarrow> func < length (quadr_func q) \<and>
    qf_blocks (quadr_func q ! func) = Some rt \<and>
    linked (blocks q) (Some rt) xs \<and> distinct xs \<and> set xs \<subseteq> {..<next_block_id q} \<and>
    (\<forall>x c. child q x c \<longrightarrow> (x \<in> set xs \<longleftrightarrow> c \<in> set xs)) \<and>
    (\<forall>x B. blocks q x = Some B \<longrightarrow> flow_data B = None) \<and> marks_le (set xs) 0 q \<and>
    (\<forall>x \<in> set xs. \<forall>B. blocks q x = Some B \<longrightarrow> (\<forall>y \<in> set (lst B). quad_vars y \<subseteq> {..<length (vars q)})) \<and>
    next_block_id q * length (vars q) < 32767"

lemma exposed_bound: "\<forall>y \<in> set ys. quad_vars y \<subseteq> {..<N} \<Longrightarrow> exposed ys v \<Longrightarrow> v < N"
  by (induction ys) (auto simp: quad_vars_def)

lemma exposed_not_kills: "exposed ys v \<Longrightarrow> \<not> kills ys v"
  by (simp add: kills_def)

lemma flow_graphD:
  assumes "flow_graph q func rt xs"
  shows "func < length (quadr_func q)" "qf_blocks (quadr_func q ! func) = Some rt"
    "linked (blocks q) (Some rt) xs" "distinct xs" "set xs \<subseteq> {..<next_block_id q}"
    "child q x c \<Longrightarrow> x \<in> set xs \<longleftrightarrow> c \<in> set xs"
    "blocks q x = Some B \<Longrightarrow> flow_data B = None" "marks_le (set xs) 0 q"
    "x \<in> set xs \<Longrightarrow> blocks q x = Some B \<Longrightarrow> y \<in> set (lst B) \<Longrightarrow> quad_vars y \<subseteq> {..<length (vars q)}"
    "next_block_id q * length (vars q) < 32767"
    "length xs = card (set xs)" "card (set xs) \<le> next_block_id q" "rt \<in> set xs"
proof -
  show f: "func < length (quadr_func q)" "qf_blocks (quadr_func q ! func) = Some rt"
    "linked (blocks q) (Some rt) xs" "distinct xs" "set xs \<subseteq> {..<next_block_id q}"
    "child q x c \<Longrightarrow> x \<in> set xs \<longleftrightarrow> c \<in> set xs"
    "blocks q x = Some B \<Longrightarrow> flow_data B = None" "marks_le (set xs) 0 q"
    "x \<in> set xs \<Longrightarrow> blocks q x = Some B \<Longrightarrow> y \<in> set (lst B) \<Longrightarrow> quad_vars y \<subseteq> {..<length (vars q)}"
    "next_block_id q * length (vars q) < 32767"
    using assms unfolding flow_graph_def by blast+
  show "length xs = card (set xs)" "card (set xs) \<le> next_block_id q"
    using distinct_card[OF f(4)] card_mono[OF _ f(5)] by simp_all
  show "rt \<in> set xs" using f(3) by (cases xs) auto
qed

lemma flow_graph_reach:
  assumes "flow_graph q func rt xs" and "(child q)\<^sup>*\<^sup>* rt x"
  shows "x \<in> set xs"
  using assms(2) by (induction rule: rtranclp_induct) (use flow_graphD(6,13)[OF assms(1)] in auto)

text \<open>The state when the loop starts.\<close>

definition start_ok :: "quadr_st \<Rightarrow> block_id list \<Rightarrow> quadr_st \<Rightarrow> bool" where
  "start_ok q xs q2 \<longleftrightarrow> skel q2 = skel q \<and> marks_le (set xs) 0 q2 \<and>
    (\<forall>x. if x \<in> set xs then sets_start q q2 x else insets q2 x = {} \<and> outsets q2 x = {})"

lemma flow_start:
  assumes fg: "flow_graph q func rt xs"
  shows "\<exists>q1 q2. for_blocks (next_block_id q)
      (\<lambda>b. set_block b (\<lambda>B. B\<lparr>flow_data := Some new_flow_data\<rparr>)) (Some rt) q = Some q1 \<and>
    next_block_id q1 = next_block_id q \<and>
    for_blocks (next_block_id q1) compute_live_def_use (Some rt) q1 = Some q2 \<and> start_ok q xs q2"
proof -
  let ?V = "set xs"
  note f = flow_graphD[OF fg]
  obtain q1 where q1: "for_blocks (next_block_id q)
      (\<lambda>b. set_block b (\<lambda>B. B\<lparr>flow_data := Some new_flow_data\<rparr>)) (Some rt) q = Some q1"
    "skel q1 = skel q" "marks q1 = marks q"
    "\<forall>x. blocks q1 x = (if x \<in> ?V then map_option (\<lambda>B. B\<lparr>flow_data := Some new_flow_data\<rparr>) (blocks q x)
      else blocks q x)"
    using set_flow_data_all[OF f(3,4), of "next_block_id q" "Some new_flow_data"] f(11,12) by auto
  have nb1: "next_block_id q1 = next_block_id q" using skel_fields[OF q1(2)] by auto
  have l1: "linked (blocks q1) (Some rt) xs" using linked_nxt[OF skel_nxt[OF q1(2)] f(3)] .
  have fd1: "get_fd x q1 = (if x \<in> ?V then Some new_flow_data else None)" for x
    using q1(4) linked_blocks[OF f(3), of x] f(7)[of x] by (auto simp: get_fd_def split: Option.bind_splits)
  obtain q2 where q2: "for_blocks (next_block_id q1) compute_live_def_use (Some rt) q1 = Some q2"
    "skel q2 = skel q1" "marks q2 = marks q1" "\<forall>x. x \<notin> ?V \<longrightarrow> get_fd x q2 = get_fd x q1"
    "\<forall>x \<in> ?V. sets_start q1 q2 x"
    using compute_all[OF l1 f(4), of "next_block_id q1"] fd1 f(11,12) nb1 by auto
  have "sets_start q q2 x" if "x \<in> ?V" for x
    using q2(5) that q1(4) linked_blocks[OF f(3) that] by (auto simp: sets_start_def)
  moreover have "insets q2 x = {}" "outsets q2 x = {}" if "x \<notin> ?V" for x
    using that q2(4) fd1[of x] by (simp_all add: insets_def outsets_def)
  moreover have "marks_le ?V 0 q2" using f(8) q1(3) q2(3) by (simp add: marks_le_def marks_def)
  ultimately show ?thesis using q1(1,2) q2(1,2) nb1 by (auto simp: start_ok_def)
qed

lemma start_okD:
  assumes fg: "flow_graph q func rt xs" and st: "start_ok q xs q2"
  defines "L \<equiv> \<lambda>x. if x \<in> set xs then {..<length (vars q)} else {}"
    and "M \<equiv> \<lambda>x. if x \<in> set xs then {v. live_at q x v} else UNIV"
  shows "graph_ok (set xs) q2" "child q2 = child q" "pre_fix q2 L" "below q2 L" "pre_fix q2 M" "below q2 M"
proof -
  note f = flow_graphD[OF fg]
  have blk: "\<exists>B. blocks q x = Some B" if "x \<in> set xs" for x using linked_blocks[OF f(3) that] .
  have s: "insets q2 x = {v. exposed (lst B) v}" "defsets q2 x = {v. kills (lst B) v}" "outsets q2 x = {}" "fd_ok q2 x"
    if "x \<in> set xs" "blocks q x = Some B" for x B
    using st that by (auto simp: start_ok_def sets_start_def dest!: spec[of _ x])
  have out: "insets q2 x = {} \<and> outsets q2 x = {}" if "x \<notin> set xs" for x
    using st that by (simp add: start_ok_def)
  show ch: "child q2 = child q" using child_skel[of q2 q] st by (simp add: start_ok_def)
  show "graph_ok (set xs) q2"
    unfolding graph_ok_def ch
  proof (intro conjI ballI allI impI)
    fix x assume x: "x \<in> set xs"
    then obtain B where "blocks q x = Some B" using blk by blast
    then show "fd_ok q2 x" using s(4)[OF x] by blast
    show "c \<in> set xs" if "child q x c" for c using f(6)[OF that] x by simp
  qed simp
  show "pre_fix q2 L" unfolding pre_fix_def ch
  proof (intro allI impI)
    fix x c assume "child q x c"
    then have "x \<in> set xs \<longleftrightarrow> c \<in> set xs" by (rule f(6))
    then show "L c - defsets q2 x \<subseteq> L x" unfolding L_def by auto
  qed
  have o: "outsets q2 x = {}" for x
  proof (cases "x \<in> set xs")
    case True
    obtain B where "blocks q x = Some B" using blk[OF True] by blast
    then show ?thesis by (rule s(3)[OF True])
  next
    case False
    show ?thesis using out[OF False] by blast
  qed
  have "insets q2 x \<subseteq> L x" for x
  proof (cases "x \<in> set xs")
    case True
    then obtain B where B: "blocks q x = Some B" using blk by blast
    then show ?thesis
      using s[OF True B] f(9)[OF True B] exposed_bound[of "lst B" "length (vars q)"] True by (auto simp: L_def)
  qed (simp add: out L_def)
  then show "below q2 L" using o by (simp add: below_def)
  show "pre_fix q2 M" unfolding pre_fix_def ch
  proof (intro allI impI)
    fix x c assume c: "child q x c"
    show "M c - defsets q2 x \<subseteq> M x"
    proof (cases "x \<in> set xs")
      case True
      then obtain B where B: "blocks q x = Some B" using blk by blast
      then show ?thesis using s[OF True B] True f(6)[OF c] live_through[OF c _ B] by (auto simp: M_def)
    qed (simp add: M_def)
  qed
  have "insets q2 x \<subseteq> M x" for x
  proof (cases "x \<in> set xs")
    case True
    obtain B where B: "blocks q x = Some B" using blk[OF True] by blast
    have "live_at q x v" if "v \<in> insets q2 x" for v
      using that s(1)[OF True B] live_use[OF B] by simp
    then show ?thesis using True by (auto simp: M_def)
  qed (simp add: M_def)
  then show "below q2 M" using o by (simp add: below_def)
qed

text \<open>The state when the loop has ended.\<close>

lemma in_live:
  assumes fg: "flow_graph q func rt xs" and st: "start_ok q xs q2" and r: "same_rest q2 q3"
    and mono: "\<forall>x. insets q2 x \<subseteq> insets q3 x" and fl: "\<forall>x. (child q2)\<^sup>*\<^sup>* rt x \<longrightarrow> flows q3 q3 x"
  shows "live_at q y v \<Longrightarrow> (child q)\<^sup>*\<^sup>* rt y \<Longrightarrow> v \<in> insets q3 y"
proof (induction rule: live_at.induct)
  case (live_use b B v)
  have "b \<in> set xs" using flow_graph_reach[OF fg live_use(3)] .
  then have "v \<in> insets q2 b" using st live_use by (auto simp: start_ok_def sets_start_def dest!: spec[of _ b])
  then show ?case using mono by blast
next
  case (live_through b c v B)
  have v: "child q3 = child q" "defsets q3 = defsets q2" "child q2 = child q"
    using same_rest_views[OF r] start_okD(2)[OF fg st] by auto
  have "b \<in> set xs" using flow_graph_reach[OF fg live_through(6)] .
  then have "v \<notin> defsets q3 b"
    using st live_through v by (auto simp: start_ok_def sets_start_def dest!: spec[of _ b])
  moreover have "v \<in> insets q3 c"
    using live_through rtranclp.rtrancl_into_rtrancl[OF live_through(6,1)] by blast
  moreover have "flows q3 q3 b" using fl live_through(6) v by simp
  ultimately show ?case using live_through(1) v(1) by (auto simp: flows_def)
qed

lemma flow_loop:
  assumes fg: "flow_graph q func rt xs" and st: "start_ok q xs q2"
  shows "\<exists>q3. liveness_loop (liveness_fuel q2) rt q2 = Some q3 \<and> skel q3 = skel q \<and>
    (\<forall>x \<in> set xs. fd_ok q3 x \<and> card (outsets q3 x) < 2 ^ 32) \<and>
    (\<forall>x. (child q)\<^sup>*\<^sup>* rt x \<longrightarrow> insets q3 x = {v. live_at q x v} \<and>
       outsets q3 x = {v. \<exists>c. child q x c \<and> live_at q c v})"
proof -
  let ?V = "set xs" and ?N = "length (vars q)"
  let ?L = "\<lambda>x. if x \<in> ?V then {..<?N} else {}" and ?M = "\<lambda>x. if x \<in> ?V then {v. live_at q x v} else UNIV"
  note f = flow_graphD[OF fg] and s = start_okD[OF fg st]
  have sk: "skel q2 = skel q" and m: "marks_le ?V 0 q2" using st by (simp_all add: start_ok_def)
  have nb: "next_block_id q2 = next_block_id q" "vars q2 = vars q" using skel_fields[OF sk] by auto
  have fuel: "card ?V * ?N < total ?V q2 + liveness_fuel q2"
    using f(12) nb by (simp add: liveness_fuel_def less_Suc_eq_le trans_le_add2)
  obtain q3 where q3: "liveness_loop (liveness_fuel q2) rt q2 = Some q3" "same_rest q2 q3"
    "\<forall>x. insets q2 x \<subseteq> insets q3 x" "\<forall>L. pre_fix q2 L \<longrightarrow> below q2 L \<longrightarrow> below q3 L"
    "\<forall>x. (child q2)\<^sup>*\<^sup>* rt x \<longrightarrow> flows q3 q3 x"
    using liveness_loop_view[OF s(1) f(13) m _ fuel _ s(4,3)] f(10,12) nb by (auto simp: liveness_fuel_def)
  have ch: "child q3 = child q" using same_rest_views(1)[OF q3(2)] s(2) by simp
  have b: "below q3 ?L" "below q3 ?M" using q3(4) s(3-6) by blast+
  have "fd_ok q3 x" if "x \<in> ?V" for x using graph_okD(1)[OF s(1) that] q3(2) by (simp add: same_rest_def)
  moreover have "card (outsets q3 x) < 2 ^ 32" if "x \<in> ?V" for x
  proof -
    have "outsets q3 x \<subseteq> {..<?N}" using b(1) by (fastforce simp: below_def split: if_splits)
    then have "card (outsets q3 x) \<le> ?N" using card_mono[of "{..<?N}"] by simp
    moreover have "?N < 32767" using f(5,10,13) by (cases "next_block_id q") auto
    ultimately show ?thesis by simp
  qed
  moreover have il: "insets q3 x = {v. live_at q x v}" if r: "(child q)\<^sup>*\<^sup>* rt x" for x
  proof -
    have "insets q3 x \<subseteq> ?M x" using b(2) unfolding below_def by blast
    then show ?thesis using flow_graph_reach[OF fg r] in_live[OF fg st q3(2,3,5) _ r] by auto
  qed
  moreover have "outsets q3 x = {v. \<exists>c. child q x c \<and> live_at q c v}" if r: "(child q)\<^sup>*\<^sup>* rt x" for x
  proof -
    have "outsets q3 x \<subseteq> (\<Union>c \<in> {c. child q x c}. ?M c)" using b(2) unfolding below_def ch by blast
    moreover have "?M c = {v. live_at q c v}" if "child q x c" for c
      using f(6)[OF that] flow_graph_reach[OF fg r] by simp
    moreover have "{v. live_at q c v} \<subseteq> outsets q3 x" if "child q x c" for c
    proof -
      have "flows q3 q3 x" using q3(5) r s(2) by simp
      then have "insets q3 c \<subseteq> outsets q3 x" using that ch by (simp add: flows_def)
      then show ?thesis using il[OF rtranclp.rtrancl_into_rtrancl[OF r that]] by simp
    qed
    ultimately show ?thesis by blast
  qed
  moreover have "skel q3 = skel q" using q3(2) sk by (simp add: same_rest_def)
  ultimately show ?thesis using q3(1) by blast
qed

lemma analyze_flow_core:
  assumes fg: "flow_graph q func rt xs"
  shows "\<exists>q'. analyze_flow func q = Some q' \<and>
    (\<forall>x. (child q)\<^sup>*\<^sup>* rt x \<longrightarrow> (\<exists>B t. blocks q' x = Some B \<and> vars_at_start B = Some t \<and> rb_set t \<and>
       dom (rb_map t) = {v. live_at q x v} \<and>
       set (live_at_end B) = {v. \<exists>c. child q x c \<and> live_at q c v} \<and>
       distinct (live_at_end B) \<and> lsize B = length (live_at_end B) \<and> flow_data B = None))"
proof -
  note f = flow_graphD[OF fg]
  obtain q1 q2 where q12: "for_blocks (next_block_id q)
      (\<lambda>b. set_block b (\<lambda>B. B\<lparr>flow_data := Some new_flow_data\<rparr>)) (Some rt) q = Some q1"
    "next_block_id q1 = next_block_id q"
    "for_blocks (next_block_id q1) compute_live_def_use (Some rt) q1 = Some q2" "start_ok q xs q2"
    using flow_start[OF fg] by blast
  obtain q3 where q3: "liveness_loop (liveness_fuel q2) rt q2 = Some q3" "skel q3 = skel q"
    "\<forall>x \<in> set xs. fd_ok q3 x \<and> card (outsets q3 x) < 2 ^ 32"
    "\<forall>x. (child q)\<^sup>*\<^sup>* rt x \<longrightarrow> insets q3 x = {v. live_at q x v} \<and>
       outsets q3 x = {v. \<exists>c. child q x c \<and> live_at q c v}"
    using flow_loop[OF fg q12(4)] by blast
  have nb3: "next_block_id q3 = next_block_id q" using skel_fields[OF q3(2)] by auto
  have l3: "linked (blocks q3) (Some rt) xs" using linked_nxt[OF skel_nxt[OF q3(2)] f(3)] .
  obtain q4 where q4: "for_blocks (next_block_id q3) finish_liveness_computation (Some rt) q3 = Some q4"
    "nxt_same q3 q4" "quadr_func q4 = quadr_func q3" "next_block_id q4 = next_block_id q3"
    "\<forall>x \<in> set xs. \<exists>B. blocks q4 x = Some B \<and> finished q3 x B"
    using finish_all[OF l3 f(4), of "next_block_id q3"] q3(3) f(11,12) nb3 by auto
  have an: "analyze_liveness rt q1 = Some q4"
    using q12(3) q3(1) q4(1) by (simp add: analyze_liveness_def)
  have l4: "linked (blocks q4) (Some rt) xs" using linked_nxt[OF q4(2) l3] .
  obtain q5 where q5: "for_blocks (next_block_id q4) (\<lambda>b. set_block b (\<lambda>B. B\<lparr>flow_data := None\<rparr>)) (Some rt) q4 = Some q5"
    "\<forall>x. blocks q5 x = (if x \<in> set xs then map_option (\<lambda>B. B\<lparr>flow_data := None\<rparr>) (blocks q4 x) else blocks q4 x)"
    using set_flow_data_all[OF l4 f(4), of "next_block_id q4" None] f(11,12) nb3 q4(4) by auto
  have run: "analyze_flow func q = Some q5"
    using f(1,2) q12(1) an q5(1) by (simp add: analyze_flow_def perform_global_optimizations_def)
  have "\<exists>B t. blocks q5 x = Some B \<and> vars_at_start B = Some t \<and> rb_set t \<and>
       dom (rb_map t) = {v. live_at q x v} \<and> set (live_at_end B) = {v. \<exists>c. child q x c \<and> live_at q c v} \<and>
       distinct (live_at_end B) \<and> lsize B = length (live_at_end B) \<and> flow_data B = None"
    if r: "(child q)\<^sup>*\<^sup>* rt x" for x
  proof -
    have x: "x \<in> set xs" using flow_graph_reach[OF fg r] .
    obtain B where B: "blocks q4 x = Some B" "finished q3 x B" using q4(5) x by blast
    then obtain fd i ou where fd: "get_fd x q3 = Some fd" "live_in fd = Some i" "live_out fd = Some ou"
      "vars_at_start B = Some i" "lsize B = length (live_at_end B)" "set (live_at_end B) = dom (rb_map ou)"
      "distinct (live_at_end B)" by (auto simp: finished_def)
    have "dom (rb_map i) = insets q3 x" "dom (rb_map ou) = outsets q3 x"
      using fd by (auto simp: insets_def outsets_def)
    moreover have "rb_set i" using q3(3) x fd by (auto simp: fd_ok_def)
    ultimately show ?thesis using q5(2) x B(1) fd q3(4) r by simp
  qed
  then show ?thesis using run by blast
qed

end
