(* ===== verification/Flow_Props.thy ===== *)
theory Flow_Props
  imports Flow_Correct
begin

text \<open>
  The properties of the flow analysis, and a small function with a loop on which they are
  applied.
\<close>

subsection \<open>A function with a loop\<close>

text \<open>\<open>x0 = 1; while (x0 < x1) x0 = x0 + x1; return x0\<close>, as the code generator lays it out.\<close>

definition ex_block :: "quadr_t list \<Rightarrow> block_id option \<Rightarrow> block_id option \<Rightarrow> block_id option \<Rightarrow> basic_block_t" where
  "ex_block qs n c1 c2 = empty_block\<lparr>lst := qs, nxt := n, child1 := c1, child2 := c2\<rparr>"

definition ex_var :: var_t where
  "ex_var = \<lparr>v_type = type_int, v_loc = None, v_size = -1, v_live = False, v_qtype = VT_INT\<rparr>"

definition ex_code :: "block_id \<Rightarrow> quadr_t list" where
  "ex_code b =
     (if b = 0 then [new_copy_quadr 0 (QA_INT 1), \<lparr>q_op = Q_GOTO, q_result = QA_LABEL 2, q_arg1 = QA_NONE, q_arg2 = QA_NONE\<rparr>]
      else if b = 1 then [new_quadr Q_ADD (Some 0) (Some 0) (Some 1)]
      else if b = 2 then [\<lparr>q_op = Q_IF_LT, q_result = QA_LABEL 1, q_arg1 = QA_VAR 0, q_arg2 = QA_VAR 1\<rparr>]
      else [new_quadr Q_RETURN None (Some 0) None])"

definition ex_func :: quadr_func_t where
  "ex_func = \<lparr>qf_type = func_type 0 type_int 0 [], qf_blocks = Some 0,
     vars_lst = [\<lparr>node_vars = [0, 1], vars_size = 64\<rparr>], qf_name = ''f'', qf_tag = QF_USER_DEFINED\<rparr>"

definition ex_layout :: quadr_st where
  \<comment> \<open>before \<open>create_block_graph\<close>\<close>
  "ex_layout = quadr_init\<lparr>quadr_func := [ex_func], next_block_id := 4, vars := [ex_var, ex_var],
     blocks := [0 \<mapsto> ex_block (ex_code 0) (Some 1) None None, 1 \<mapsto> ex_block (ex_code 1) (Some 2) None None,
       2 \<mapsto> ex_block (ex_code 2) (Some 3) None None, 3 \<mapsto> ex_block (ex_code 3) None None None]\<rparr>"

definition ex_graph :: quadr_st where
  \<comment> \<open>after it\<close>
  "ex_graph = ex_layout\<lparr>cur_root := Some 0,
     blocks := [0 \<mapsto> ex_block (ex_code 0) (Some 1) (Some 2) None, 1 \<mapsto> ex_block (ex_code 1) (Some 2) (Some 2) None,
       2 \<mapsto> ex_block (ex_code 2) (Some 3) (Some 1) (Some 3), 3 \<mapsto> ex_block (ex_code 3) None None None]\<rparr>"

lemmas ex_defs = ex_layout_def ex_graph_def ex_block_def ex_var_def ex_code_def ex_func_def empty_block_def
  quadr_init_def new_copy_quadr_def new_quadr_def var_arg_def

lemma ex_linked: "linked (blocks ex_graph) (Some 0) [0, 1, 2, 3]"
  by (simp add: ex_defs)

lemma ex_child: "child ex_graph x c \<longleftrightarrow> (x, c) \<in> {(0, 2), (1, 2), (2, 1), (2, 3)}"
  by (auto simp: child_def ex_defs split: if_splits)

lemma ex_blocks: "blocks ex_graph x = Some B \<Longrightarrow> x < 4 \<and> lst B = ex_code x \<and> flow_data B = None"
  by (auto simp: ex_defs split: if_splits)

lemma ex_quad_vars: "y \<in> set (ex_code x) \<Longrightarrow> quad_vars y \<subseteq> {..<2}"
  by (auto simp: quad_vars_def used_in_quadr_def ex_defs split: if_splits)

lemma ex_flow_graph: "flow_graph ex_graph 0 0 [0, 1, 2, 3]"
  unfolding flow_graph_def
proof (intro conjI allI ballI impI)
  show "linked (blocks ex_graph) (Some 0) [0, 1, 2, 3]" by (rule ex_linked)
  show "flow_data B = None" if "blocks ex_graph x = Some B" for x B using ex_blocks[OF that] by simp
  show "quad_vars y \<subseteq> {..<length (vars ex_graph)}"
    if "x \<in> set [0, 1, 2, 3]" "blocks ex_graph x = Some B" "y \<in> set (lst B)" for x B y
    using ex_quad_vars[of y x] ex_blocks[OF that(2)] that(3) by (simp add: ex_graph_def ex_layout_def numeral_2_eq_2)
  show "marks_le (set [0, 1, 2, 3]) 0 ex_graph" by (auto simp: marks_le_def marks_def ex_defs)
  show "(x \<in> set [0, 1, 2, 3]) = (c \<in> set [0, 1, 2, 3])" if "child ex_graph x c" for x c
    using that by (auto simp: ex_child)
qed (auto simp: ex_defs)

subsection \<open>Properties\<close>

text \<open>
  C2: \<open>analyze_flow\<close> returns on every function whose blocks form a flow graph, and leaves in
  \<open>vars_at_start\<close> of every block that can be reached a red-black tree with exactly the
  variables that are live at its start (used on some path before they are assigned), in
  \<open>live_at_end\<close> those live at the start of a child, each once, with their number in \<open>lsize\<close>.
\<close>

theorem analyze_flow_correct:
  assumes "flow_graph q func rt xs"
  shows "\<exists>q'. analyze_flow func q = Some q' \<and>
    (\<forall>x. (child q)\<^sup>*\<^sup>* rt x \<longrightarrow> (\<exists>B t. blocks q' x = Some B \<and> vars_at_start B = Some t \<and> rb_set t \<and>
       dom (rb_map t) = {v. live_at q x v} \<and>
       set (live_at_end B) = {v. \<exists>c. child q x c \<and> live_at q c v} \<and>
       distinct (live_at_end B) \<and> lsize B = length (live_at_end B) \<and> flow_data B = None))"
  using assms by (rule analyze_flow_core)

text \<open>On the loop: the upper bound is live at the start of the function, the counter is not.\<close>

lemma ex_live: "live_at ex_graph 0 1" "\<not> live_at ex_graph 0 0"
proof -
  have "live_at ex_graph 2 1"
    by (rule live_use[of _ _ "ex_block (ex_code 2) (Some 3) (Some 1) (Some 3)"])
      (simp_all add: ex_defs used_in_quadr_def)
  moreover have "child ex_graph 0 2" by (simp add: ex_child)
  ultimately show "live_at ex_graph 0 1"
    by (intro live_through[of _ 0 2 1 "ex_block (ex_code 0) (Some 1) (Some 2) None"])
      (simp_all add: ex_defs used_in_quadr_def assigned_in_quadr_def)
  have "live_at ex_graph b v \<Longrightarrow> b = 0 \<Longrightarrow> v \<noteq> 0" for b v
    by (induction rule: live_at.induct) (auto simp: ex_defs used_in_quadr_def assigned_in_quadr_def)
  then show "\<not> live_at ex_graph 0 0" by blast
qed

lemma analyze_flow_correct_witness:
  "\<exists>q' B t. analyze_flow 0 ex_graph = Some q' \<and> blocks q' 0 = Some B \<and> vars_at_start B = Some t \<and>
     1 \<in> dom (rb_map t) \<and> 0 \<notin> dom (rb_map t)"
proof -
  obtain q' where q': "analyze_flow 0 ex_graph = Some q'" "\<forall>x. (child ex_graph)\<^sup>*\<^sup>* 0 x \<longrightarrow>
     (\<exists>B t. blocks q' x = Some B \<and> vars_at_start B = Some t \<and> rb_set t \<and>
       dom (rb_map t) = {v. live_at ex_graph x v} \<and>
       set (live_at_end B) = {v. \<exists>c. child ex_graph x c \<and> live_at ex_graph c v} \<and>
       distinct (live_at_end B) \<and> lsize B = length (live_at_end B) \<and> flow_data B = None)"
    using analyze_flow_correct[OF ex_flow_graph] by blast
  then obtain B t where "blocks q' 0 = Some B" "vars_at_start B = Some t" "dom (rb_map t) = {v. live_at ex_graph 0 v}"
    by blast
  then show ?thesis using q'(1) ex_live by blast
qed

text \<open>
  C16: the fixed-point loop \<open>while (changed)\<close> of the liveness analysis ends: the fuel of the
  model, one more than the number of blocks times the number of variables, is enough, and
  more fuel gives the same state.
\<close>

theorem liveness_loop_terminates:
  assumes "flow_graph q func rt xs" and "start_ok q xs q2"
  shows "\<exists>q3. \<forall>n. liveness_loop (liveness_fuel q2 + n) rt q2 = Some q3"
proof -
  have more: "liveness_loop k rt s = Some s' \<Longrightarrow> liveness_loop (k + n) rt s = Some s'" for k n s s'
    by (induction k arbitrary: s) (auto split: Option.bind_splits if_splits)
  show ?thesis using flow_loop[OF assms] more by blast
qed

lemma liveness_loop_terminates_witness:
  "\<exists>q1 q2 q3. for_blocks 4 (\<lambda>b. set_block b (\<lambda>B. B\<lparr>flow_data := Some new_flow_data\<rparr>)) (Some 0) ex_graph = Some q1 \<and>
     for_blocks 4 compute_live_def_use (Some 0) q1 = Some q2 \<and>
     liveness_loop (liveness_fuel q2 + 1) 0 q2 = Some q3"
proof -
  have n: "next_block_id ex_graph = 4" by (simp add: ex_defs)
  obtain q1 q2 where q: "for_blocks 4 (\<lambda>b. set_block b (\<lambda>B. B\<lparr>flow_data := Some new_flow_data\<rparr>)) (Some 0) ex_graph = Some q1"
    "for_blocks 4 compute_live_def_use (Some 0) q1 = Some q2" "start_ok ex_graph [0, 1, 2, 3] q2"
    using flow_start[OF ex_flow_graph] unfolding n by auto
  then show ?thesis using liveness_loop_terminates[OF ex_flow_graph q(3)] by blast
qed

text \<open>
  C22: \<open>compute_live_def_use\<close> puts the variables that a block uses before it assigns them into
  \<open>live_in\<close>, with the number of quadruples before the first use as their distance, and
  those it assigns without such a use into \<open>live_def\<close>; \<open>live_out\<close> is empty.
\<close>

theorem compute_live_def_use_correct:
  assumes "blocks q b = Some B" and "flow_data B = Some fd"
  shows "\<exists>q' fd' i d x. compute_live_def_use b q = Some q' \<and> get_fd b q' = Some fd' \<and>
    live_in fd' = Some i \<and> live_def fd' = Some d \<and> live_out fd' = Some x \<and>
    (\<forall>v. uses i v = (if exposed (lst B) v then Some (of_nat (first_use (lst B) v)) else None)) \<and>
    (\<forall>v. v \<in> dom (rb_map d) \<longleftrightarrow> kills (lst B) v) \<and> dom (rb_map x) = {}"
proof -
  obtain q' fd' i d x where *: "compute_live_def_use b q = Some q'"
    "\<forall>y. get_fd y q' = (if y = b then Some fd' else get_fd y q)"
    "live_in fd' = Some i" "live_def fd' = Some d" "live_out fd' = Some x"
    "uses i = (\<lambda>v. if exposed (lst B) v then Some (of_nat (first_use (lst B) v)) else None)"
    "dom (rb_map d) = {v. kills (lst B) v}" "dom (rb_map x) = {}"
    using compute_live_def_use_view[OF assms] by blast
  have "get_fd b q' = Some fd'" using *(2) by simp
  moreover have "\<forall>v. v \<in> dom (rb_map d) \<longleftrightarrow> kills (lst B) v" using *(7) by blast
  moreover have "\<forall>v. uses i v = (if exposed (lst B) v then Some (of_nat (first_use (lst B) v)) else None)"
    using *(6) by simp
  ultimately show ?thesis using *(1,3,4,5,8) by blast
qed

lemma compute_live_def_use_correct_witness:
  "\<exists>q1 q' fd' i d. set_block 1 (\<lambda>B. B\<lparr>flow_data := Some new_flow_data\<rparr>) ex_graph = Some q1 \<and>
     compute_live_def_use 1 q1 = Some q' \<and> get_fd 1 q' = Some fd' \<and> live_in fd' = Some i \<and>
     live_def fd' = Some d \<and> uses i 0 = Some 0 \<and> uses i 1 = Some 0 \<and> 0 \<notin> dom (rb_map d)"
proof -
  define q1 where "q1 = ex_graph\<lparr>blocks := (blocks ex_graph)(1 \<mapsto>
    (ex_block (ex_code 1) (Some 2) (Some 2) None)\<lparr>flow_data := Some new_flow_data\<rparr>)\<rparr>"
  define qs where "qs = [new_quadr Q_ADD (Some 0) (Some 0) (Some 1)]"
  have s: "set_block 1 (\<lambda>B. B\<lparr>flow_data := Some new_flow_data\<rparr>) ex_graph = Some q1"
    by (simp add: set_block_def ex_graph_def q1_def)
  obtain B where B: "blocks q1 1 = Some B" "flow_data B = Some new_flow_data" "lst B = qs"
    by (simp add: q1_def qs_def ex_block_def ex_code_def)
  obtain q' fd' i d where *: "compute_live_def_use 1 q1 = Some q'" "get_fd 1 q' = Some fd'"
    "live_in fd' = Some i" "live_def fd' = Some d"
    "\<forall>v. uses i v = (if exposed qs v then Some (of_nat (first_use qs v)) else None)"
    "\<forall>v. v \<in> dom (rb_map d) \<longleftrightarrow> kills qs v"
    using compute_live_def_use_correct[OF B(1,2)] unfolding B(3) by blast
  have "exposed qs 0" "exposed qs 1" "first_use qs 0 = 0" "first_use qs 1 = 0"
    by (simp_all add: qs_def used_in_quadr_def new_quadr_def var_arg_def)
  then have "uses i 0 = Some 0" "uses i 1 = Some 0" "0 \<notin> dom (rb_map d)"
    using *(5,6) exposed_not_kills by simp_all
  then show ?thesis using s *(1-4) by blast
qed

text \<open>
  When control leaves a block: by a jump of its last quadruple, or by falling through to the
  next block, unless the last quadruple returns or jumps always.
\<close>

definition jumps_to :: "basic_block_t \<Rightarrow> block_id \<Rightarrow> bool" where
  "jumps_to B c \<longleftrightarrow> lst B \<noteq> [] \<and> (q_op (last (lst B)) = Q_GOTO \<or> is_if_op (q_op (last (lst B)))) \<and>
    q_result (last (lst B)) = QA_LABEL c"

definition falls_to :: "basic_block_t \<Rightarrow> block_id \<Rightarrow> bool" where
  "falls_to B c \<longleftrightarrow> nxt B = Some c \<and>
    (lst B = [] \<or> q_op (last (lst B)) \<noteq> Q_GOTO \<and> q_op (last (lst B)) \<noteq> Q_RETURN)"

definition jumps_ok :: "basic_block_t \<Rightarrow> bool" where
  "jumps_ok B \<longleftrightarrow> (lst B \<noteq> [] \<longrightarrow> (q_op (last (lst B)) = Q_GOTO \<or> is_if_op (q_op (last (lst B)))) \<longrightarrow>
    (\<exists>c. q_result (last (lst B)) = QA_LABEL c))"

lemma block_children_view:
  assumes "jumps_ok B"
  shows "\<exists>c1 c2. block_children B = Some (c1, c2) \<and>
    (\<forall>c. (c1 = Some c \<or> c2 = Some c) \<longleftrightarrow> jumps_to B c \<or> falls_to B c)"
proof (cases "lst B = []")
  case False
  then show ?thesis
    using assms
    by (auto simp: block_children_def jumps_ok_def jumps_to_def falls_to_def Let_def)
qed (simp add: block_children_def jumps_to_def falls_to_def)

lemma jumps_to_children [simp]:
  "jumps_to (B\<lparr>child1 := c1, child2 := c2\<rparr>) c = jumps_to B c"
  "falls_to (B\<lparr>child1 := c1, child2 := c2\<rparr>) c = falls_to B c"
  by (simp_all add: jumps_to_def falls_to_def)

text \<open>
  C21: \<open>create_block_graph\<close> returns when the jumps of a function have labels, and the children
  of a block of it are exactly the blocks to which control can pass: the target of its last
  quadruple, and the next block unless the last quadruple is a \<open>Q_GOTO\<close> or a \<open>Q_RETURN\<close>.
  Nothing else changes.
\<close>

theorem create_block_graph_correct:
  assumes f: "f < length (quadr_func q)" and l: "linked (blocks q) (qf_blocks (quadr_func q ! f)) xs"
    and d: "distinct xs" and n: "length xs \<le> next_block_id q"
    and j: "\<forall>x \<in> set xs. \<forall>B. blocks q x = Some B \<longrightarrow> jumps_ok B"
  shows "\<exists>q'. create_block_graph f q = Some q' \<and>
    (\<forall>x \<in> set xs. \<exists>B c1 c2. blocks q x = Some B \<and> blocks q' x = Some (B\<lparr>child1 := c1, child2 := c2\<rparr>) \<and>
      (\<forall>c. child q' x c \<longleftrightarrow> jumps_to B c \<or> falls_to B c)) \<and>
    (\<forall>x. x \<notin> set xs \<longrightarrow> blocks q' x = blocks q x)"
proof -
  let ?q = "set_root (qf_blocks (quadr_func q ! f)) q"
  let ?I = "\<lambda>ys (q' :: quadr_st). (\<forall>x \<in> set ys. \<exists>B c1 c2. blocks q x = Some B \<and>
      blocks q' x = Some (B\<lparr>child1 := c1, child2 := c2\<rparr>) \<and>
      (\<forall>c. (c1 = Some c \<or> c2 = Some c) \<longleftrightarrow> jumps_to B c \<or> falls_to B c)) \<and>
    (\<forall>x. x \<notin> set ys \<longrightarrow> blocks q' x = blocks q x)"
  have bq: "blocks ?q = blocks q" "next_block_id ?q = next_block_id q" by (simp_all add: set_root_def)
  have "\<exists>q'. for_blocks (next_block_id q) set_children (qf_blocks (quadr_func q ! f)) ?q = Some q' \<and> ?I xs q'"
  proof (rule for_blocks_rule[of ?q _ xs])
    show "linked (blocks ?q) (qf_blocks (quadr_func q ! f)) xs" using l bq by simp
    show "?I [] ?q" using bq by simp
    fix ys b zs and q1 :: quadr_st assume xs: "xs = ys @ b # zs" and I: "?I ys q1"
    have b: "b \<in> set xs" "b \<notin> set ys" using xs d by auto
    obtain B where B: "blocks q b = Some B" using linked_blocks[OF l b(1)] by blast
    then have B1: "blocks q1 b = Some B" using I b(2) by simp
    obtain c1 c2 where c: "block_children B = Some (c1, c2)"
      "\<forall>c. (c1 = Some c \<or> c2 = Some c) \<longleftrightarrow> jumps_to B c \<or> falls_to B c"
      using block_children_view j B b(1) by blast
    let ?q1 = "q1\<lparr>blocks := (blocks q1)(b \<mapsto> B\<lparr>child1 := c1, child2 := c2\<rparr>)\<rparr>"
    have "set_children b q1 = Some ?q1" using B1 c(1) by (simp add: set_children_def set_block_def)
    moreover have "nxt_same q1 ?q1" using B1 by (simp add: nxt_same_def)
    moreover have "?I (ys @ [b]) ?q1" using I B c(2) b(2) by auto
    ultimately show "\<exists>q'. set_children b q1 = Some q' \<and> ?I (ys @ [b]) q' \<and> nxt_same q1 q'" by blast
  qed (use n in simp)
  then obtain q' where q': "create_block_graph f q = Some q'" "?I xs q'"
    using f bq(2) by (auto simp: create_block_graph_def Let_def)
  have "\<exists>B c1 c2. blocks q x = Some B \<and> blocks q' x = Some (B\<lparr>child1 := c1, child2 := c2\<rparr>) \<and>
      (\<forall>c. child q' x c \<longleftrightarrow> jumps_to B c \<or> falls_to B c)" if x: "x \<in> set xs" for x
  proof -
    obtain B c1 c2 where B: "blocks q x = Some B" "blocks q' x = Some (B\<lparr>child1 := c1, child2 := c2\<rparr>)"
      "\<forall>c. (c1 = Some c \<or> c2 = Some c) \<longleftrightarrow> jumps_to B c \<or> falls_to B c"
      using q'(2) x by blast
    then show ?thesis by (intro exI[of _ B] exI[of _ c1] exI[of _ c2]) (simp add: child_def)
  qed
  then show ?thesis using q' by blast
qed

lemma create_block_graph_correct_witness:
  "\<exists>q' B. create_block_graph 0 ex_layout = Some q' \<and> blocks ex_layout 2 = Some B \<and>
     (\<forall>c. child q' 2 c \<longleftrightarrow> jumps_to B c \<or> falls_to B c) \<and> jumps_to B 1 \<and> falls_to B 3"
proof -
  have a: "0 < length (quadr_func ex_layout)" "linked (blocks ex_layout) (qf_blocks (quadr_func ex_layout ! 0)) [0, 1, 2, 3]"
    "distinct [0 :: nat, 1, 2, 3]" "length [0 :: nat, 1, 2, 3] \<le> next_block_id ex_layout"
    by (simp_all add: ex_defs)
  have j: "\<forall>x \<in> set [0, 1, 2, 3]. \<forall>B. blocks ex_layout x = Some B \<longrightarrow> jumps_ok B"
    by (simp add: ex_defs jumps_ok_def)
  have "(2 :: nat) \<in> set [0, 1, 2, 3]" by simp
  then obtain q' B where q': "create_block_graph 0 ex_layout = Some q'" "blocks ex_layout 2 = Some B"
    "\<forall>c. child q' 2 c \<longleftrightarrow> jumps_to B c \<or> falls_to B c"
    using create_block_graph_correct[OF a j] by blast
  have "jumps_to B 1" "falls_to B 3" using q'(2) by (auto simp: ex_defs jumps_to_def falls_to_def)
  then show ?thesis using q' by blast
qed

text \<open>
  \<open>nearest_use_distance_from_quadr\<close> does not look at \<open>vars_at_start\<close> of the second child
  of the block: when that is another block, any contents of it give the same result, because
  both look-ups are made in the tree of the first child.
\<close>

theorem nearest_use_ignores_child2:
  assumes "blocks q block = Some B" and "child2 B = Some c" and "child1 B \<noteq> Some c" and "block \<noteq> c"
    and "blocks q c = Some C"
  shows "nearest_use_distance_from_quadr block quadrs var
      (q\<lparr>blocks := (blocks q)(c \<mapsto> C\<lparr>vars_at_start := t\<rparr>)\<rparr>) =
    nearest_use_distance_from_quadr block quadrs var q"
proof -
  let ?q = "q\<lparr>blocks := (blocks q)(c \<mapsto> C\<lparr>vars_at_start := t\<rparr>)\<rparr>"
  have u: "use_dist_loop ?q var n qs = use_dist_loop q var n qs" for n qs
    by (induction qs arbitrary: n) simp_all
  have b: "blocks ?q block = blocks q block" using assms(4) by simp
  have c: "child_use_dist x (child1 B) var ?q = child_use_dist x (child1 B) var q" for x
    using assms(3) by (cases "child1 B") (auto simp: child_use_dist_def split: option.split)
  show ?thesis
    unfolding nearest_use_distance_from_quadr_def b assms(1) bind.bind_lunit u c by (rule refl)
qed

lemma nearest_use_ignores_child2_witness:
  "nearest_use_distance_from_quadr 2 [] 1 (ex_graph\<lparr>blocks := (blocks ex_graph)(3 \<mapsto>
      (ex_block (ex_code 3) None None None)\<lparr>vars_at_start := Some rb_new\<rparr>)\<rparr>) =
    nearest_use_distance_from_quadr 2 [] 1 ex_graph"
  by (rule nearest_use_ignores_child2[of _ _ "ex_block (ex_code 2) (Some 3) (Some 1) (Some 3)"])
    (simp_all add: ex_defs)

end
