(* ===== verification/Exec.thy ===== *)
theory Exec
  imports Gen Typecheck_Correct "HOL-Library.Signed_Division"
begin

text \<open>
  The meaning of expressions and of quadruples, against which the code generator is
  verified.  The two do not refer to each other or to the tables of the generator.  What the
  target machine and the called functions do is a parameter: the
  operations on doubles, and the effect of a call on the world outside the function.
  Undefined results (a division by zero, an index out of bounds, the comparison of doubles
  one of which is not a number) are \<open>None\<close>.
\<close>

subsection \<open>Values\<close>

datatype val = VInt i32 | VDbl double | VStr string | VPtr var_id | VVoid

text \<open>
  The store of a function: its variables, its arrays, the parameters that have been passed
  for the next call, and the world.
\<close>

record 'w store =
  s_var :: "var_id \<Rightarrow> val"
  s_arr :: "var_id \<Rightarrow> i32 \<Rightarrow> val option"
  s_par :: "val list"
  s_world :: 'w

record 'w machine =
  m_dadd :: "double \<Rightarrow> double \<Rightarrow> double"
  m_dsub :: "double \<Rightarrow> double \<Rightarrow> double"
  m_dmul :: "double \<Rightarrow> double \<Rightarrow> double"
  m_ddiv :: "double \<Rightarrow> double \<Rightarrow> double"
  m_deq :: "double \<Rightarrow> double \<Rightarrow> bool option"
  m_dlt :: "double \<Rightarrow> double \<Rightarrow> bool option"
  m_call :: "func_id \<Rightarrow> val list \<Rightarrow> 'w \<Rightarrow> (val \<times> 'w) option"

definition int_div :: "i32 \<Rightarrow> i32 \<Rightarrow> i32 option" where
  "int_div a b = (if b = 0 \<or> (a = 0x80000000 \<and> b = -1) then None else Some (word_of_int (sint a sdiv sint b)))"

definition int_mod :: "i32 \<Rightarrow> i32 \<Rightarrow> i32 option" where
  "int_mod a b = (if b = 0 \<or> (a = 0x80000000 \<and> b = -1) then None else Some (word_of_int (sint a smod sint b)))"

text \<open>The operators of the language.\<close>

fun node_int :: "node_type_t \<Rightarrow> i32 \<Rightarrow> i32 \<Rightarrow> i32 option" where
  "node_int NODE_ADD a b = Some (a + b)"
| "node_int NODE_SUB a b = Some (a - b)"
| "node_int NODE_MUL a b = Some (a * b)"
| "node_int NODE_DIV a b = int_div a b"
| "node_int NODE_MOD a b = int_mod a b"
| "node_int _ a b = None"

fun node_dbl :: "'w machine \<Rightarrow> node_type_t \<Rightarrow> double \<Rightarrow> double \<Rightarrow> double option" where
  "node_dbl M NODE_ADD a b = Some (m_dadd M a b)"
| "node_dbl M NODE_SUB a b = Some (m_dsub M a b)"
| "node_dbl M NODE_MUL a b = Some (m_dmul M a b)"
| "node_dbl M NODE_DIV a b = Some (m_ddiv M a b)"
| "node_dbl M _ a b = None"

fun node_arith :: "'w machine \<Rightarrow> node_type_t \<Rightarrow> val \<Rightarrow> val \<Rightarrow> val option" where
  "node_arith M k (VInt a) (VInt b) = map_option VInt (node_int k a b)"
| "node_arith M k (VDbl a) (VDbl b) = map_option VDbl (node_dbl M k a b)"
| "node_arith M k x y = None"

fun node_neg :: "'w machine \<Rightarrow> type_t option \<Rightarrow> val \<Rightarrow> val option" where
  "node_neg M ty (VInt a) = (if ty = Some type_int then Some (VInt (- a)) else None)"
| "node_neg M ty (VDbl a) = (if ty = Some type_double then Some (VDbl (m_dsub M 0 a)) else None)"
| "node_neg M ty x = None"

fun node_cmp_int :: "node_type_t \<Rightarrow> i32 \<Rightarrow> i32 \<Rightarrow> bool option" where
  "node_cmp_int NODE_EQ a b = Some (a = b)"
| "node_cmp_int NODE_NEQ a b = Some (a \<noteq> b)"
| "node_cmp_int NODE_LT a b = Some (sint a < sint b)"
| "node_cmp_int NODE_GT a b = Some (sint b < sint a)"
| "node_cmp_int NODE_LEQ a b = Some (sint a \<le> sint b)"
| "node_cmp_int NODE_GEQ a b = Some (sint b \<le> sint a)"
| "node_cmp_int _ a b = None"

fun node_cmp_dbl :: "'w machine \<Rightarrow> node_type_t \<Rightarrow> double \<Rightarrow> double \<Rightarrow> bool option" where
  "node_cmp_dbl M NODE_EQ a b = m_deq M a b"
| "node_cmp_dbl M NODE_NEQ a b = map_option Not (m_deq M a b)"
| "node_cmp_dbl M NODE_LT a b = m_dlt M a b"
| "node_cmp_dbl M NODE_GT a b = m_dlt M b a"
| "node_cmp_dbl M NODE_LEQ a b = map_option Not (m_dlt M b a)"
| "node_cmp_dbl M NODE_GEQ a b = map_option Not (m_dlt M a b)"
| "node_cmp_dbl M _ a b = None"

fun node_compare :: "'w machine \<Rightarrow> node_type_t \<Rightarrow> val \<Rightarrow> val \<Rightarrow> bool option" where
  "node_compare M k (VInt a) (VInt b) = node_cmp_int k a b"
| "node_compare M k (VDbl a) (VDbl b) = node_cmp_dbl M k a b"
| "node_compare M k x y = None"

abbreviation cmp_nodes :: "node_type_t set" where
  "cmp_nodes \<equiv> {NODE_EQ, NODE_NEQ, NODE_GT, NODE_LT, NODE_GEQ, NODE_LEQ}"

text \<open>The operations of the quadruples.\<close>

fun op_int :: "quadr_op_t \<Rightarrow> i32 \<Rightarrow> i32 \<Rightarrow> i32 option" where
  "op_int Q_ADD a b = Some (a + b)"
| "op_int Q_SUB a b = Some (a - b)"
| "op_int Q_MUL a b = Some (a * b)"
| "op_int Q_DIV a b = int_div a b"
| "op_int Q_MOD a b = int_mod a b"
| "op_int _ a b = None"

fun op_dbl :: "'w machine \<Rightarrow> quadr_op_t \<Rightarrow> double \<Rightarrow> double \<Rightarrow> double option" where
  "op_dbl M Q_ADD a b = Some (m_dadd M a b)"
| "op_dbl M Q_SUB a b = Some (m_dsub M a b)"
| "op_dbl M Q_MUL a b = Some (m_dmul M a b)"
| "op_dbl M Q_DIV a b = Some (m_ddiv M a b)"
| "op_dbl M _ a b = None"

fun arith :: "'w machine \<Rightarrow> quadr_op_t \<Rightarrow> val \<Rightarrow> val \<Rightarrow> val option" where
  "arith M k (VInt a) (VInt b) = map_option VInt (op_int k a b)"
| "arith M k (VDbl a) (VDbl b) = map_option VDbl (op_dbl M k a b)"
| "arith M k x y = None"

fun cmp_int :: "quadr_op_t \<Rightarrow> i32 \<Rightarrow> i32 \<Rightarrow> bool option" where
  "cmp_int Q_IF_EQ a b = Some (a = b)"
| "cmp_int Q_IF_NE a b = Some (a \<noteq> b)"
| "cmp_int Q_IF_LT a b = Some (a <s b)"
| "cmp_int Q_IF_GT a b = Some (b <s a)"
| "cmp_int Q_IF_LE a b = Some (a \<le>s b)"
| "cmp_int Q_IF_GE a b = Some (b \<le>s a)"
| "cmp_int _ a b = None"

fun cmp_dbl :: "'w machine \<Rightarrow> quadr_op_t \<Rightarrow> double \<Rightarrow> double \<Rightarrow> bool option" where
  "cmp_dbl M Q_IF_EQ a b = m_deq M a b"
| "cmp_dbl M Q_IF_NE a b = map_option Not (m_deq M a b)"
| "cmp_dbl M Q_IF_LT a b = m_dlt M a b"
| "cmp_dbl M Q_IF_GT a b = m_dlt M b a"
| "cmp_dbl M Q_IF_LE a b = map_option Not (m_dlt M b a)"
| "cmp_dbl M Q_IF_GE a b = map_option Not (m_dlt M a b)"
| "cmp_dbl M _ a b = None"

fun compare_val :: "'w machine \<Rightarrow> quadr_op_t \<Rightarrow> val \<Rightarrow> val \<Rightarrow> bool option" where
  "compare_val M k (VInt a) (VInt b) = cmp_int k a b"
| "compare_val M k (VDbl a) (VDbl b) = cmp_dbl M k a b"
| "compare_val M k x y = None"

fun as_bool :: "val \<Rightarrow> bool option" where
  "as_bool (VInt i) = Some (i \<noteq> 0)"
| "as_bool _ = None"

definition of_bool_val :: "bool \<Rightarrow> val" where
  "of_bool_val b = VInt (if b then 1 else 0)"

subsection \<open>Expressions\<close>

text \<open>
  Operands are evaluated from left to right, \<open>&&\<close> and \<open>||\<close> only as far as needed.  An
  expression changes nothing but the world.
\<close>

fun eval :: "'w machine \<Rightarrow> decl_env \<Rightarrow> 'w store \<Rightarrow> expr \<Rightarrow> 'w \<Rightarrow> (val \<times> 'w) option"
  and eval_args :: "'w machine \<Rightarrow> decl_env \<Rightarrow> 'w store \<Rightarrow> (src_pos_t \<times> expr) list \<Rightarrow> 'w \<Rightarrow> (val list \<times> 'w) option"
where
  "eval M D st (INT_NODE p ty v) w = Some (VInt v, w)"
| "eval M D st (DOUBLE_NODE p ty v) w = Some (VDbl v, w)"
| "eval M D st (BOOL_NODE p ty v) w = Some (of_bool_val (v \<noteq> 0), w)"
| "eval M D st (STR_NODE p ty v) w = Some (VStr v, w)"
| "eval M D st (IDENT p ty s) w = do { v \<leftarrow> sym_var D s; Some (s_var st v, w) }"
| "eval M D st (ARRAY p ty s i) w = do {
     a \<leftarrow> sym_var D s;
     (k, w) \<leftarrow> eval M D st i w;
     (case k of VInt k \<Rightarrow> do { x \<leftarrow> s_arr st a k; Some (x, w) } | _ \<Rightarrow> None)
   }"
| "eval M D st (CALL p ty s as) w = do {
     (vs, w) \<leftarrow> eval_args M D st as w;
     f \<leftarrow> sym_func D s;
     (r, w) \<leftarrow> m_call M f vs w;
     (if ty = Some type_boolean then do { b \<leftarrow> as_bool r; Some (of_bool_val b, w) }
      else if ty = Some type_void then Some (VVoid, w)
      else Some (r, w))
   }"
| "eval M D st (UNARY nt p ty a) w = do {
     (x, w) \<leftarrow> eval M D st a w;
     (if nt = NODE_NOT then do { b \<leftarrow> as_bool x; Some (of_bool_val (\<not> b), w) }
      else if nt = NODE_NEG then do {
        y \<leftarrow> node_neg M ty x;
        Some (y, w)
      }
      else Some (x, w))
   }"
| "eval M D st (BINARY nt p ty l r) w = do {
     (x, w) \<leftarrow> eval M D st l w;
     (if nt = NODE_AND \<or> nt = NODE_OR then do {
        b \<leftarrow> as_bool x;
        (if b = (nt = NODE_OR) then Some (of_bool_val b, w)
         else do {
           (y, w) \<leftarrow> eval M D st r w;
           c \<leftarrow> as_bool y;
           Some (of_bool_val c, w)
         })
      }
      else do {
        (y, w) \<leftarrow> eval M D st r w;
        (if nt \<in> cmp_nodes then do { c \<leftarrow> node_compare M nt x y; Some (of_bool_val c, w) }
         else do { z \<leftarrow> node_arith M nt x y; Some (z, w) })
      })
   }"
| "eval_args M D st [] w = Some ([], w)"
| "eval_args M D st ((p, a) # as) w = do {
     (v, w) \<leftarrow> eval M D st a w;
     (vs, w) \<leftarrow> eval_args M D st as w;
     Some (v # vs, w)
   }"

subsection \<open>Quadruples\<close>

definition arg_val :: "'w store \<Rightarrow> quadr_arg_t \<Rightarrow> val option" where
  "arg_val st a =
     (case a of
        QA_VAR v \<Rightarrow> Some (s_var st v)
      | QA_INT i \<Rightarrow> Some (VInt i)
      | QA_DOUBLE d \<Rightarrow> Some (VDbl d)
      | QA_STR s \<Rightarrow> Some (VStr s)
      | QA_NONE \<Rightarrow> Some VVoid
      | _ \<Rightarrow> None)"

definition set_result :: "quadr_arg_t \<Rightarrow> val \<Rightarrow> 'w store \<Rightarrow> 'w store option" where
  "set_result r x st =
     (case r of
        QA_VAR v \<Rightarrow> Some (st\<lparr>s_var := (s_var st)(v := x)\<rparr>)
      | QA_NONE \<Rightarrow> Some st
      | _ \<Rightarrow> None)"

definition arith_ops :: "quadr_op_t set" where
  "arith_ops = {Q_ADD, Q_SUB, Q_MUL, Q_DIV, Q_MOD}"

definition exec_op :: "'w machine \<Rightarrow> quadr_t \<Rightarrow> 'w store \<Rightarrow> 'w store option" where
  \<comment> \<open>a quadruple that does not jump\<close>
  "exec_op M x st =
     (if q_op x \<in> arith_ops then do {
        a \<leftarrow> arg_val st (q_arg1 x);
        b \<leftarrow> arg_val st (q_arg2 x);
        c \<leftarrow> arith M (q_op x) a b;
        set_result (q_result x) c st
      }
      else if q_op x = Q_COPY then do { a \<leftarrow> arg_val st (q_arg1 x); set_result (q_result x) a st }
      else if q_op x = Q_GET_ADDR then
        (case q_arg1 x of QA_VAR v \<Rightarrow> set_result (q_result x) (VPtr v) st | _ \<Rightarrow> None)
      else if q_op x = Q_READ_PTR then do {
        base \<leftarrow> arg_val st (q_arg1 x);
        off \<leftarrow> arg_val st (q_arg2 x);
        (case (base, off) of
           (VPtr a, VInt k) \<Rightarrow> do { c \<leftarrow> s_arr st a k; set_result (q_result x) c st }
         | _ \<Rightarrow> None)
      }
      else if q_op x = Q_WRITE_PTR then do {
        base \<leftarrow> arg_val st (q_result x);
        off \<leftarrow> arg_val st (q_arg1 x);
        c \<leftarrow> arg_val st (q_arg2 x);
        (case (base, off) of
           (VPtr a, VInt k) \<Rightarrow> do {
             old \<leftarrow> s_arr st a k;
             Some (st\<lparr>s_arr := (s_arr st)(a := (s_arr st a)(k \<mapsto> c))\<rparr>)
           }
         | _ \<Rightarrow> None)
      }
      else if q_op x = Q_PARAM then do {
        a \<leftarrow> arg_val st (q_arg1 x);
        Some (st\<lparr>s_par := a # s_par st\<rparr>)
      }
      else if q_op x = Q_CALL then
        (case q_arg1 x of
           QA_FUNC f \<Rightarrow> do {
             (r, w) \<leftarrow> m_call M f (s_par st) (s_world st);
             set_result (q_result x) r (st\<lparr>s_par := [], s_world := w\<rparr>)
           }
         | _ \<Rightarrow> None)
      else None)"

definition jump_dest :: "(block_id \<Rightarrow> nat option) \<Rightarrow> quadr_t \<Rightarrow> nat option" where
  "jump_dest tgt x = (case q_result x of QA_LABEL l \<Rightarrow> tgt l | _ \<Rightarrow> None)"

text \<open>
  One step of a function whose blocks have been laid out in their order: \<open>code\<close> is the
  sequence of their quadruples and \<open>tgt\<close> gives the start of each block in it.
\<close>

definition qnext ::
  "'w machine \<Rightarrow> quadr_t list \<Rightarrow> (block_id \<Rightarrow> nat option) \<Rightarrow> nat \<times> 'w store \<Rightarrow> (nat \<times> 'w store) option"
where
  "qnext M code tgt = (\<lambda>(pc, st).
     if pc < length code then
       let x = code ! pc in
       if is_if_op (q_op x) then do {
         a \<leftarrow> arg_val st (q_arg1 x);
         b \<leftarrow> arg_val st (q_arg2 x);
         c \<leftarrow> compare_val M (q_op x) a b;
         (if c then do { l \<leftarrow> jump_dest tgt x; Some (l, st) } else Some (pc + 1, st))
       }
       else if q_op x = Q_GOTO then do { l \<leftarrow> jump_dest tgt x; Some (l, st) }
       else do { st \<leftarrow> exec_op M x st; Some (pc + 1, st) }
     else None)"

definition runs ::
  "'w machine \<Rightarrow> quadr_t list \<Rightarrow> (block_id \<Rightarrow> nat option) \<Rightarrow> nat \<times> 'w store \<Rightarrow> nat \<times> 'w store \<Rightarrow> bool"
where
  "runs M code tgt = (\<lambda>c c'. qnext M code tgt c = Some c')\<^sup>*\<^sup>*"

lemma runs_refl [simp]: "runs M code tgt c c"
  by (simp add: runs_def)

lemma runs_trans [trans]: "runs M code tgt c c' \<Longrightarrow> runs M code tgt c' c'' \<Longrightarrow> runs M code tgt c c''"
  by (simp add: runs_def)

lemma runs_step: "qnext M code tgt c = Some c' \<Longrightarrow> runs M code tgt c c'"
  by (simp add: runs_def r_into_rtranclp)

lemma qnext_op:
  assumes "pc < length code" and "\<not> is_if_op (q_op (code ! pc))" and "q_op (code ! pc) \<noteq> Q_GOTO"
    and "exec_op M (code ! pc) st = Some st'"
  shows "qnext M code tgt (pc, st) = Some (Suc pc, st')"
  using assms by (simp add: qnext_def Let_def)

end
