(* ===== verification/Layout.thy ===== *)
theory Layout
  imports Blocks Exec
begin

text \<open>
  The blocks of the function that is being generated.  \<open>cs\<close> are the blocks that have been
  placed, in their order, with the current block as the last one; \<open>P\<close> maps a label that is
  still to be placed to its list of blocks, which are all empty: \<open>quadr_arg_label\<close> gives every
  jump to such a label a block of its own.
\<close>

type_synonym pending = "block_id \<rightharpoonup> block_id list"

definition qs :: "quadr_st \<Rightarrow> block_id \<Rightarrow> quadr_t list" where
  "qs q b = (case blocks q b of Some B \<Rightarrow> lst B | None \<Rightarrow> [])"

definition refd :: "quadr_st \<Rightarrow> block_id \<Rightarrow> bool" where
  "refd q b \<longleftrightarrow> (\<exists>B. blocks q b = Some B \<and> is_referenced B)"

definition lin :: "quadr_st \<Rightarrow> block_id list \<Rightarrow> quadr_t list" where
  "lin q cs = concat (map (qs q) cs)"

definition pos :: "quadr_st \<Rightarrow> block_id list \<Rightarrow> block_id \<Rightarrow> nat" where
  "pos q cs b = length (lin q (takeWhile (\<lambda>x. x \<noteq> b) cs))"

definition committed :: "quadr_st \<Rightarrow> block_id \<Rightarrow> bool" where
  "committed q b \<longleftrightarrow> refd q b \<or> qs q b \<noteq> []"

definition fun_ok :: "quadr_st \<Rightarrow> block_id list \<Rightarrow> bool" where
  "fun_ok q cs \<longleftrightarrow> (\<exists>f. cur_func q = Some f \<and> f < length (quadr_func q) \<and>
     qf_blocks (quadr_func q ! f) = Some (hd cs) \<and> vars_lst (quadr_func q ! f) \<noteq> [])"

definition placed_ok :: "quadr_st \<Rightarrow> block_id list \<Rightarrow> bool" where
  "placed_ok q cs \<longleftrightarrow> cs \<noteq> [] \<and> distinct cs \<and> seg (blocks q) (Some (hd cs)) cs None \<and>
     set cs \<subseteq> {..<next_block_id q} \<and> cur_block q = Some (last cs) \<and>
     prev_block q = (if butlast cs = [] then None else Some (last (butlast cs))) \<and> fun_ok q cs"

definition detached :: "quadr_st \<Rightarrow> block_id list \<Rightarrow> block_id list \<Rightarrow> bool" where
  \<comment> \<open>a list of empty blocks that have not been placed\<close>
  "detached q cs ps \<longleftrightarrow> ps \<noteq> [] \<and> distinct ps \<and> seg (blocks q) (Some (hd ps)) ps None \<and>
     set ps \<subseteq> {..<next_block_id q} \<and> set ps \<inter> set cs = {} \<and> (\<forall>l \<in> set ps. qs q l = [])"

definition pend_ok :: "quadr_st \<Rightarrow> block_id list \<Rightarrow> pending \<Rightarrow> bool" where
  "pend_ok q cs P \<longleftrightarrow> (\<forall>L ps. P L = Some ps \<longrightarrow> detached q cs ps \<and> hd ps = L \<and>
     (tl ps \<noteq> [] \<longrightarrow> (\<forall>l \<in> set ps. refd q l)) \<and>
     (\<forall>L' ps'. L' \<noteq> L \<longrightarrow> P L' = Some ps' \<longrightarrow> set ps \<inter> set ps' = {}))"

definition layout :: "quadr_st \<Rightarrow> block_id list \<Rightarrow> pending \<Rightarrow> bool" where
  "layout q cs P \<longleftrightarrow> placed_ok q cs \<and> pend_ok q cs P"

definition open_end :: "quadr_st \<Rightarrow> block_id list \<Rightarrow> bool" where
  \<comment> \<open>a quadruple can be added to the current block\<close>
  "open_end q cs \<longleftrightarrow> (qs q (last cs) = [] \<or> \<not> is_block_end (q_op (last (qs q (last cs)))))"

text \<open>
  What the final code has to do with a state of the generation: it begins with what has been
  generated, a block to which a jump can lead starts where it does now, and the blocks of a
  pending label all start at the same place.
\<close>

definition agrees ::
  "quadr_st \<Rightarrow> block_id list \<Rightarrow> pending \<Rightarrow> quadr_t list \<Rightarrow> (block_id \<Rightarrow> nat option) \<Rightarrow> (block_id \<Rightarrow> nat) \<Rightarrow> bool"
where
  "agrees q cs P code tgt T \<longleftrightarrow> (\<exists>xs. code = lin q cs @ xs) \<and>
     (\<forall>l \<in> set cs. committed q l \<longrightarrow> tgt l = Some (pos q cs l)) \<and>
     (\<forall>L ps. P L = Some ps \<longrightarrow> (\<forall>l \<in> set ps. refd q l \<longrightarrow> tgt l = Some (T L)))"

subsection \<open>Lists\<close>

lemma lin_simps [simp]: "lin q [] = []" "lin q (b # cs) = qs q b @ lin q cs" "lin q (xs @ ys) = lin q xs @ lin q ys"
  by (simp_all add: lin_def)

lemma lin_cong: "(\<And>b. b \<in> set cs \<Longrightarrow> qs q' b = qs q b) \<Longrightarrow> lin q' cs = lin q cs"
  by (induction cs) auto

lemma lin_empty: "\<forall>b \<in> set ps. qs q b = [] \<Longrightarrow> lin q ps = []"
  by (induction ps) auto

lemma pos_append [simp]: "b \<in> set xs \<Longrightarrow> pos q (xs @ ys) b = pos q xs b"
  by (simp add: pos_def takeWhile_append1)

lemma pos_append2: "b \<notin> set xs \<Longrightarrow> pos q (xs @ ys) b = length (lin q xs) + pos q ys b"
proof -
  assume "b \<notin> set xs"
  then have "takeWhile (\<lambda>x. x \<noteq> b) (xs @ ys) = xs @ takeWhile (\<lambda>x. x \<noteq> b) ys"
    by (intro takeWhile_append2) auto
  then show ?thesis by (simp add: pos_def)
qed

lemma pos_cong: "(\<And>b. b \<in> set cs \<Longrightarrow> qs q' b = qs q b) \<Longrightarrow> pos q' cs b = pos q cs b"
  unfolding pos_def by (rule arg_cong[where f = length], rule lin_cong) (auto dest: set_takeWhileD)

lemma pos_empty: "\<forall>b \<in> set ps. qs q b = [] \<Longrightarrow> pos q ps b = 0"
  unfolding pos_def using lin_empty[of "takeWhile (\<lambda>x. x \<noteq> b) ps" q] set_takeWhileD by fastforce

lemma pos_snoc:
  assumes "\<And>b. b \<in> set cs \<Longrightarrow> b \<noteq> c \<Longrightarrow> qs q' b = qs q b" and "c \<notin> set cs" and "b \<in> set (cs @ [c])"
  shows "pos q' (cs @ [c]) b = pos q (cs @ [c]) b"
proof -
  have *: "\<And>b. b \<in> set cs \<Longrightarrow> qs q' b = qs q b" using assms(1,2) by metis
  show ?thesis
  proof (cases "b \<in> set cs")
    case True
    then show ?thesis using pos_cong[of cs q' q b] * by simp
  next
    case False
    then have "b = c" using assms(3) by simp
    then show ?thesis using False lin_cong[of cs q' q] * by (simp add: pos_append2) (simp add: pos_def)
  qed
qed

lemma chain_cur: "placed_ok q cs \<Longrightarrow> cs = butlast cs @ [last cs]"
  by (simp add: placed_ok_def)

lemma qs_upd [simp]: "qs (q\<lparr>blocks := (blocks q)(b \<mapsto> B)\<rparr>) = (qs q)(b := lst B)"
  by (auto simp: qs_def)

lemma refd_upd [simp]: "refd (q\<lparr>blocks := (blocks q)(b \<mapsto> B)\<rparr>) = (refd q)(b := is_referenced B)"
  by (auto simp: refd_def fun_eq_iff)

lemma empty_block_simps [simp]:
  "lst empty_block = []" "nxt empty_block = None" "\<not> is_referenced empty_block"
  by (simp_all add: empty_block_def is_referenced_def)

lemma set_referenced_simps [simp]:
  "lst (set_referenced B) = lst B" "nxt (set_referenced B) = nxt B" "is_referenced (set_referenced B)"
  by (simp_all add: set_referenced_def is_referenced_def MARK_REFERENCED_def bit.conj_disj_distrib2)

lemma agrees_irrelevant:
  assumes "\<And>L. L \<in> dom P \<Longrightarrow> T' L = T L" and "agrees q cs P code tgt T"
  shows "agrees q cs P code tgt T'"
  using assms unfolding agrees_def by (metis domI)

subsection \<open>Operations that leave the blocks alone\<close>

definition same_blocks :: "quadr_st \<Rightarrow> quadr_st \<Rightarrow> bool" where
  "same_blocks q q' \<longleftrightarrow> blocks q' = blocks q \<and> cur_block q' = cur_block q \<and> prev_block q' = prev_block q \<and>
     next_block_id q' = next_block_id q"

lemma same_blocks_qs: "same_blocks q q' \<Longrightarrow> qs q' = qs q" "same_blocks q q' \<Longrightarrow> refd q' = refd q"
  by (simp_all add: same_blocks_def qs_def[abs_def] refd_def[abs_def])

lemma same_blocks_views:
  assumes "same_blocks q q'"
  shows "lin q' = lin q" "pos q' = pos q" "committed q' = committed q" "agrees q' = agrees q"
    "open_end q' = open_end q" "detached q' = detached q" "pend_ok q' = pend_ok q"
proof -
  have b: "blocks q' = blocks q" "next_block_id q' = next_block_id q" using assms by (simp_all add: same_blocks_def)
  show l: "lin q' = lin q" by (simp add: fun_eq_iff lin_def same_blocks_qs[OF assms])
  show p: "pos q' = pos q" by (simp add: fun_eq_iff pos_def l)
  show c: "committed q' = committed q" by (simp add: fun_eq_iff committed_def same_blocks_qs[OF assms])
  show "agrees q' = agrees q" by (simp add: fun_eq_iff agrees_def l p c same_blocks_qs[OF assms])
  show "open_end q' = open_end q" by (simp add: fun_eq_iff open_end_def same_blocks_qs[OF assms])
  show d: "detached q' = detached q" by (simp add: fun_eq_iff detached_def b same_blocks_qs[OF assms])
  show "pend_ok q' = pend_ok q" by (simp add: fun_eq_iff pend_ok_def d same_blocks_qs[OF assms])
qed

lemma same_blocks_layout: "same_blocks q q' \<Longrightarrow> fun_ok q' cs \<Longrightarrow> layout q cs P \<Longrightarrow> layout q' cs P"
  using same_blocks_views(7)[of q q'] by (simp add: layout_def placed_ok_def same_blocks_def)

subsection \<open>Steps of the generation\<close>

text \<open>
  \<open>step0\<close>: the layout is kept, variables are only added, a block with code stays, and the
  final code that agrees with the later state agrees with the earlier one.
\<close>

definition step0 ::
  "quadr_st \<Rightarrow> block_id list \<Rightarrow> pending \<Rightarrow> quadr_st \<Rightarrow> block_id list \<Rightarrow> pending \<Rightarrow> bool"
where
  "step0 q cs P q' cs' P' \<longleftrightarrow> layout q' cs' P' \<and> (\<exists>ys. vars q' = vars q @ ys) \<and> dom P' = dom P \<and>
     (\<forall>l \<in> set cs. qs q l \<noteq> [] \<longrightarrow> l \<in> set cs' \<and> qs q' l \<noteq> []) \<and>
     (\<forall>code tgt T. agrees q' cs' P' code tgt T \<longrightarrow> agrees q cs P code tgt T)"

definition gstep ::
  "quadr_st \<Rightarrow> block_id list \<Rightarrow> pending \<Rightarrow> quadr_st \<Rightarrow> block_id list \<Rightarrow> pending \<Rightarrow> bool"
where
  "gstep q cs P q' cs' P' \<longleftrightarrow> step0 q cs P q' cs' P' \<and> open_end q' cs'"

lemma step0_trans:
  assumes a: "step0 q cs P q' cs' P'" and b: "step0 q' cs' P' q'' cs'' P''"
  shows "step0 q cs P q'' cs'' P''"
proof -
  obtain ys zs where v: "vars q' = vars q @ ys" "vars q'' = vars q' @ zs" using a b by (auto simp: step0_def)
  show ?thesis
    unfolding step0_def
  proof (intro conjI ballI allI impI)
    show "\<exists>ys. vars q'' = vars q @ ys" using v by simp
    fix l assume "l \<in> set cs" "qs q l \<noteq> []"
    then have "l \<in> set cs'" "qs q' l \<noteq> []" using a by (auto simp: step0_def)
    then show "l \<in> set cs''" "qs q'' l \<noteq> []" using b by (auto simp: step0_def)
  next
    fix code tgt T assume "agrees q'' cs'' P'' code tgt T"
    then have "agrees q' cs' P' code tgt T" using b by (simp add: step0_def)
    then show "agrees q cs P code tgt T" using a by (simp add: step0_def)
  qed (use a b in \<open>simp_all add: step0_def\<close>)
qed

lemma gstep_trans [trans]: "gstep q cs P q' cs' P' \<Longrightarrow> gstep q' cs' P' q'' cs'' P'' \<Longrightarrow> gstep q cs P q'' cs'' P''"
  using step0_trans by (auto simp: gstep_def)

lemma step0_gstep: "step0 q cs P q' cs' P' \<Longrightarrow> gstep q' cs' P' q'' cs'' P'' \<Longrightarrow> gstep q cs P q'' cs'' P''"
  using step0_trans by (auto simp: gstep_def)

lemma step0D:
  assumes "step0 q cs P q' cs' P'"
  shows "layout q' cs' P'" "\<exists>ys. vars q' = vars q @ ys" "dom P' = dom P" "length (vars q) \<le> length (vars q')"
    "l \<in> set cs \<Longrightarrow> qs q l \<noteq> [] \<Longrightarrow> l \<in> set cs' \<and> qs q' l \<noteq> []"
    "agrees q' cs' P' code tgt T \<Longrightarrow> agrees q cs P code tgt T"
  using assms unfolding step0_def by auto

lemma gstepD:
  assumes "gstep q cs P q' cs' P'"
  shows "layout q' cs' P'" "\<exists>ys. vars q' = vars q @ ys" "dom P' = dom P" "length (vars q) \<le> length (vars q')"
    "l \<in> set cs \<Longrightarrow> qs q l \<noteq> [] \<Longrightarrow> l \<in> set cs' \<and> qs q' l \<noteq> []"
    "agrees q' cs' P' code tgt T \<Longrightarrow> agrees q cs P code tgt T" "open_end q' cs'" "step0 q cs P q' cs' P'"
  using assms step0D[of q cs P q' cs' P'] unfolding gstep_def by blast+

lemma gstep_refl: "layout q cs P \<Longrightarrow> open_end q cs \<Longrightarrow> gstep q cs P q cs P"
  by (auto simp: gstep_def step0_def)

lemma push_var_Some:
  assumes "ns \<noteq> []"
  shows "\<exists>nodes. push_var v ns = Some nodes \<and> nodes \<noteq> []"
  using assms by (cases "vars_size (last ns) \<le> length (node_vars (last ns))") (simp_all add: push_var_def Let_def)

lemma declare_var_view:
  assumes l: "layout q cs P" and o: "open_end q cs" and t: "var_qtype t = Some qt"
  shows "\<exists>q'. declare_var (cur_func q) t q = Some (length (vars q), q') \<and> gstep q cs P q' cs P \<and>
    vars q' = vars q @ [\<lparr>v_type = t, v_loc = None, v_size = -1, v_live = False, v_qtype = qt\<rparr>] \<and>
    lin q' cs = lin q cs"
proof -
  obtain f where f: "cur_func q = Some f" "f < length (quadr_func q)"
    "qf_blocks (quadr_func q ! f) = Some (hd cs)" "vars_lst (quadr_func q ! f) \<noteq> []"
    using l by (auto simp: layout_def placed_ok_def fun_ok_def)
  obtain nodes where n: "push_var (length (vars q)) (vars_lst (quadr_func q ! f)) = Some nodes" "nodes \<noteq> []"
    using push_var_Some[OF f(4)] by blast
  let ?var = "\<lparr>v_type = t, v_loc = None, v_size = -1, v_live = False, v_qtype = qt\<rparr>"
  let ?q = "set_func f (\<lambda>qf. qf\<lparr>vars_lst := nodes\<rparr>) (q\<lparr>vars := vars q @ [?var]\<rparr>)"
  have d: "declare_var (cur_func q) t q = Some (length (vars q), ?q)"
    using f n t by (simp add: declare_var_def Let_def)
  have s: "same_blocks q ?q" by (simp add: same_blocks_def set_func_def)
  have "fun_ok ?q cs" using f n by (auto simp: fun_ok_def set_func_def)
  then have "layout ?q cs P" using same_blocks_layout[OF s _ l] by blast
  moreover have "vars ?q = vars q @ [?var]" by (simp add: set_func_def)
  ultimately have "gstep q cs P ?q cs P"
    using o same_blocks_views[OF s] same_blocks_qs[OF s] by (simp add: gstep_def step0_def)
  then show ?thesis using d same_blocks_views(1)[OF s] by (auto simp: set_func_def)
qed

text \<open>Adding a quadruple.\<close>

lemma add_quadr_view:
  assumes l: "layout q cs P" and o: "open_end q cs"
  shows "\<exists>q'. add_quadr (cur_block q) x q = Some q' \<and> step0 q cs P q' cs P \<and> vars q' = vars q \<and>
    lin q' cs = lin q cs @ [x] \<and> (\<not> is_block_end (q_op x) \<longrightarrow> open_end q' cs) \<and> qs q' (last cs) \<noteq> []"
proof -
  let ?c = "last cs"
  have c: "cs \<noteq> []" "distinct cs" "seg (blocks q) (Some (hd cs)) cs None" "cur_block q = Some ?c"
    using l by (simp_all add: layout_def placed_ok_def)
  obtain C where C: "blocks q ?c = Some C" "nxt C = None" using seg_last[OF c(3,1)] by blast
  let ?C = "C\<lparr>lst := lst C @ [x]\<rparr>"
  let ?q = "q\<lparr>blocks := (blocks q)(?c \<mapsto> ?C)\<rparr>"
  have a: "add_quadr (cur_block q) x q = Some ?q"
    using o C(1) c(4) by (auto simp: add_quadr_def block_tail_op_def open_end_def qs_def set_block_def)
  have qs': "qs ?q b = (if b = ?c then qs q ?c @ [x] else qs q b)" for b using C(1) by (simp add: qs_def)
  have r': "refd ?q = refd q" using C(1) by (auto simp: refd_def fun_eq_iff is_referenced_def)
  obtain ds where ds: "cs = ds @ [?c]" "?c \<notin> set ds" using c(1,2) by (metis append_butlast_last_id distinct_butlast last_in_set not_distinct_conv_prefix)
  have lin: "lin ?q cs = lin q cs @ [x]"
  proof -
    have "lin ?q ds = lin q ds" by (rule lin_cong) (use ds(2) qs' in auto)
    then show ?thesis using qs'[of ?c] by (subst (1 2) ds(1)) simp
  qed
  have pos: "pos ?q cs b = pos q cs b" if "b \<in> set cs" for b
    using pos_snoc[of ds ?c ?q q b] qs' ds that by simp
  have seg: "seg (blocks ?q) s xs t" if "seg (blocks q) s xs t" for s xs t
    using C(1) by (intro seg_cong[OF _ that]) auto
  have "placed_ok ?q cs"
    using l seg c by (simp add: layout_def placed_ok_def fun_ok_def)
  moreover have "pend_ok ?q cs P"
  proof -
    have "detached ?q cs ps" if "detached q cs ps" for ps
      using that seg qs' c(1) unfolding detached_def by auto
    then show ?thesis using l unfolding layout_def pend_ok_def r' by blast
  qed
  ultimately have "layout ?q cs P" by (simp add: layout_def)
  moreover have "agrees q cs P code tgt T" if "agrees ?q cs P code tgt T" for code tgt T
  proof -
    have "committed q b \<Longrightarrow> committed ?q b" for b by (auto simp: committed_def r' qs')
    then show ?thesis using that pos unfolding agrees_def lin r' by auto
  qed
  ultimately have "step0 q cs P ?q cs P" using qs' by (auto simp: step0_def)
  moreover have "\<not> is_block_end (q_op x) \<longrightarrow> open_end ?q cs" "qs ?q ?c \<noteq> []" using qs' by (simp_all add: open_end_def)
  ultimately show ?thesis using a lin by (intro exI[of _ ?q]) simp
qed

subsection \<open>Placing blocks\<close>

text \<open>
  \<open>place\<close> is \<open>add_basic_blocks\<close> without the dummy block: the blocks from \<open>b\<close> on are put
  after the current block, or in its place when it is empty and no jump leads to it.
\<close>

definition place :: "block_id \<Rightarrow> quadr_st \<Rightarrow> quadr_st option" where
  "place bs q = do {
     c \<leftarrow> cur_block q;
     C \<leftarrow> blocks q c;
     (bs, q) \<leftarrow>
       (if prev_block q = None \<or> lst C \<noteq> [] \<or> is_referenced C
        then do {
          q \<leftarrow> set_block c (\<lambda>B. B\<lparr>nxt := Some bs\<rparr>) q;
          Some (bs, q\<lparr>prev_block := Some c\<rparr>)
        }
        else do {
          p \<leftarrow> prev_block q;
          P \<leftarrow> blocks q p;
          check (nxt P = Some c);
          q \<leftarrow> free_basic_block c q;
          q \<leftarrow> set_block p (\<lambda>B. B\<lparr>nxt := Some bs\<rparr>) q;
          Some (bs, q)
        });
     (prev, cur) \<leftarrow> last_block (next_block_id q) (blocks q) (prev_block q) bs;
     Some (q\<lparr>prev_block := prev, cur_block := Some cur\<rparr>)
   }"

definition ends_if :: "quadr_st \<Rightarrow> block_id \<Rightarrow> bool" where
  "ends_if q c \<longleftrightarrow> qs q c \<noteq> [] \<and> is_if_op (q_op (last (qs q c)))"

lemma add_basic_blocks_place:
  assumes "cur_func q = Some f" and c: "cur_block q = Some c" and C: "blocks q c = Some C" and "c < next_block_id q"
  shows "add_basic_blocks L q =
    (if ends_if q c then
       let (dummy, q) = new_basic_block q in do {
         q \<leftarrow> set_block dummy (\<lambda>B. set_referenced (B\<lparr>nxt := Some L\<rparr>)) q;
         place dummy q
       }
     else place L q)"
proof -
  have e: "(case block_tail_op C of None \<Rightarrow> False | Some op \<Rightarrow> is_if_op op) \<longleftrightarrow> ends_if q c"
    using C by (simp add: block_tail_op_def ends_if_def qs_def)
  show ?thesis
    using assms unfolding add_basic_blocks_def place_def
    by (auto simp: e new_basic_block_def set_block_def Let_def cong: if_cong)
qed

lemma detached_length: "detached q cs ps \<Longrightarrow> length ps \<le> next_block_id q"
  using card_mono[of "{..<next_block_id q}" "set ps"] distinct_card[of ps] by (simp add: detached_def)

text \<open>The current block stays.\<close>

lemma place_keep:
  assumes ch: "placed_ok q cs" and d: "detached q cs ps"
    and C: "blocks q (last cs) = Some C" and k: "prev_block q = None \<or> lst C \<noteq> [] \<or> is_referenced C"
  shows "\<exists>q'. place (hd ps) q = Some q' \<and> placed_ok q' (cs @ ps) \<and> qs q' = qs q \<and> refd q' = refd q \<and>
    vars q' = vars q \<and> next_block_id q' = next_block_id q \<and>
    (\<forall>s xs t. set xs \<inter> set cs = {} \<longrightarrow> seg (blocks q') s xs t = seg (blocks q) s xs t)"
proof -
  let ?c = "last cs"
  have c: "cs \<noteq> []" "distinct cs" "seg (blocks q) (Some (hd cs)) cs None" "cur_block q = Some ?c"
    "set cs \<subseteq> {..<next_block_id q}" "fun_ok q cs"
    using ch by (simp_all add: placed_ok_def)
  have p: "ps \<noteq> []" "distinct ps" "seg (blocks q) (Some (hd ps)) ps None" "set ps \<subseteq> {..<next_block_id q}"
    "set ps \<inter> set cs = {}" using d by (simp_all add: detached_def)
  obtain ds where ds: "cs = ds @ [?c]" "?c \<notin> set ds"
    using c(1,2) by (metis append_butlast_last_id distinct_butlast last_in_set not_distinct_conv_prefix)
  let ?bs = "(blocks q)(?c \<mapsto> C\<lparr>nxt := Some (hd ps)\<rparr>)"
  have fr: "seg ?bs s xs t = seg (blocks q) s xs t" if "set xs \<inter> set cs = {}" for s xs t
    using that c(1) by (intro seg_upd) auto
  have s1: "seg ?bs (Some (hd cs)) cs (Some (hd ps))"
    using seg_relink[of "blocks q" "Some (hd cs)" ds ?c None "C\<lparr>nxt := Some (hd ps)\<rparr>"] c(3) ds by simp
  have s2: "seg ?bs (Some (hd ps)) ps None" using p(3,5) fr by blast
  have lb: "last_block (next_block_id q) ?bs (Some ?c) (hd ps) =
      Some (if butlast ps = [] then Some ?c else Some (last (butlast ps)), last ps)"
    by (rule last_block_seg[OF s2 p(1) detached_length[OF d]])
  let ?q = "q\<lparr>blocks := ?bs, prev_block := Some (last (butlast (cs @ ps))), cur_block := Some (last (cs @ ps))\<rparr>"
  have bl: "last (butlast (cs @ ps)) = (if butlast ps = [] then ?c else last (butlast ps))"
    using p(1) c(1) by (simp add: butlast_append)
  have "place (hd ps) q = Some ?q"
    using c(4) C k lb p(1) bl by (simp add: place_def set_block_def)
  moreover have "placed_ok ?q (cs @ ps)"
    using c p s1 s2 by (auto simp: placed_ok_def fun_ok_def butlast_append)
  moreover have "qs ?q = qs q" "refd ?q = refd q"
    using C by (auto simp: qs_def refd_def fun_eq_iff is_referenced_def)
  ultimately show ?thesis using fr by (intro exI[of _ ?q]) auto
qed

text \<open>The current block goes.\<close>

lemma place_drop:
  assumes ch: "placed_ok q cs" and d: "detached q cs ps"
    and C: "blocks q (last cs) = Some C" and k: "prev_block q \<noteq> None" "lst C = []" "\<not> is_referenced C"
  shows "\<exists>q'. place (hd ps) q = Some q' \<and> placed_ok q' (butlast cs @ ps) \<and> qs q' = qs q \<and> refd q' = refd q \<and>
    vars q' = vars q \<and> next_block_id q' = next_block_id q \<and>
    (\<forall>s xs t. set xs \<inter> set cs = {} \<longrightarrow> seg (blocks q') s xs t = seg (blocks q) s xs t)"
proof -
  have c: "cs \<noteq> []" "distinct cs" "seg (blocks q) (Some (hd cs)) cs None" "cur_block q = Some (last cs)"
    "set cs \<subseteq> {..<next_block_id q}" "fun_ok q cs"
    using ch by (simp_all add: placed_ok_def)
  have b: "butlast cs \<noteq> []" "prev_block q = Some (last (butlast cs))"
    using ch k(1) by (auto simp: placed_ok_def split: if_splits)
  have p: "ps \<noteq> []" "distinct ps" "seg (blocks q) (Some (hd ps)) ps None" "set ps \<subseteq> {..<next_block_id q}"
    "set ps \<inter> set cs = {}" using d by (simp_all add: detached_def)
  obtain ds y where ds2: "butlast cs = ds @ [y]" using b(1) by (cases "butlast cs" rule: rev_cases) auto
  obtain x where ds: "cs = ds @ [y, x]" using ds2 c(1) by (cases cs rule: rev_cases) auto
  have dd: "y \<notin> set ds" "x \<notin> set ds" "y \<noteq> x" using c(2) ds by auto
  have C: "blocks q x = Some C" using C ds by simp
  obtain P where P: "blocks q y = Some P" "nxt P = Some x" "seg (blocks q) (Some (hd cs)) ds (Some y)"
    using c(3) unfolding ds by auto
  let ?bs = "(blocks q)(x := None, y \<mapsto> P\<lparr>nxt := Some (hd ps)\<rparr>)"
  have fr: "seg ?bs s xs t = seg (blocks q) s xs t" if "set xs \<inter> set cs = {}" for s xs t
  proof -
    have "x \<notin> set xs" "y \<notin> set xs" using that ds by auto
    then show ?thesis by simp
  qed
  have s1: "seg ?bs (Some (hd cs)) (ds @ [y]) (Some (hd ps))"
    using P(3) dd by simp
  have s2: "seg ?bs (Some (hd ps)) ps None" using p(3,5) fr by blast
  have lb: "last_block (next_block_id q) ?bs (Some y) (hd ps) =
      Some (if butlast ps = [] then Some y else Some (last (butlast ps)), last ps)"
    by (rule last_block_seg[OF s2 p(1) detached_length[OF d]])
  let ?cs = "ds @ [y] @ ps"
  let ?q = "q\<lparr>blocks := ?bs, prev_block := Some (last (butlast ?cs)), cur_block := Some (last ?cs)\<rparr>"
  have bl: "last (butlast ?cs) = (if butlast ps = [] then y else last (butlast ps))"
    using p(1) by (simp add: butlast_append)
  have "place (hd ps) q = Some ?q"
    using c(4) C k b(2) ds ds2 P dd(3) lb bl p(1) by (simp add: place_def set_block_def free_basic_block_def)
  moreover have "hd ?cs = hd cs" using ds by (cases ds) auto
  then have "placed_ok ?q ?cs"
    using c p ds s1 s2 by (auto simp: placed_ok_def fun_ok_def butlast_append)
  moreover have "qs ?q = qs q" "refd ?q = refd q"
    using C P(1) k dd(3) by (auto simp: qs_def refd_def fun_eq_iff is_referenced_def)
  ultimately show ?thesis using fr ds2 by (intro exI[of _ ?q]) auto
qed

text \<open>What is left of the placed blocks.\<close>

definition kept :: "quadr_st \<Rightarrow> block_id list \<Rightarrow> block_id list \<Rightarrow> bool" where
  "kept q cs ks \<longleftrightarrow> set ks \<subseteq> set cs \<and> lin q ks = lin q cs \<and> (\<forall>l \<in> set cs. committed q l \<longrightarrow> l \<in> set ks) \<and>
     (\<forall>l \<in> set ks. pos q ks l = pos q cs l)"

lemma kept_refl: "kept q cs cs"
  by (simp add: kept_def)

lemma kept_butlast:
  assumes "cs \<noteq> []" and "\<not> committed q (last cs)"
  shows "kept q cs (butlast cs)"
proof -
  obtain ds x where ds: "cs = ds @ [x]" using assms(1) by (cases cs rule: rev_cases) auto
  then show ?thesis using assms(2) by (auto simp: kept_def committed_def)
qed

lemma place_view:
  assumes ch: "placed_ok q cs" and d: "detached q cs ps" and pe: "pend_ok q cs P"
    and dj: "\<And>L xs. P L = Some xs \<Longrightarrow> set xs \<inter> set ps = {}"
  shows "\<exists>q' ks. place (hd ps) q = Some q' \<and> layout q' (ks @ ps) P \<and> kept q cs ks \<and> qs q' = qs q \<and>
    refd q' = refd q \<and> vars q' = vars q"
proof -
  obtain C where C: "blocks q (last cs) = Some C"
    using seg_last[of "blocks q" "Some (hd cs)" cs None] ch unfolding placed_ok_def by blast
  have "\<exists>q' ks. place (hd ps) q = Some q' \<and> placed_ok q' (ks @ ps) \<and> kept q cs ks \<and> qs q' = qs q \<and>
    refd q' = refd q \<and> vars q' = vars q \<and> next_block_id q' = next_block_id q \<and>
    (\<forall>s xs t. set xs \<inter> set cs = {} \<longrightarrow> seg (blocks q') s xs t = seg (blocks q) s xs t)"
  proof (cases "prev_block q = None \<or> lst C \<noteq> [] \<or> is_referenced C")
    case True
    then show ?thesis using place_keep[OF ch d C] kept_refl by blast
  next
    case False
    then have "\<not> committed q (last cs)" using C by (simp add: committed_def refd_def qs_def)
    then have "kept q cs (butlast cs)" using ch kept_butlast by (simp add: placed_ok_def)
    moreover have "prev_block q \<noteq> None" "lst C = []" "\<not> is_referenced C" using False by simp_all
    ultimately show ?thesis using place_drop[OF ch d C] by blast
  qed
  then obtain q' ks where q': "place (hd ps) q = Some q'" "placed_ok q' (ks @ ps)" "kept q cs ks" "qs q' = qs q"
    "refd q' = refd q" "vars q' = vars q" "next_block_id q' = next_block_id q"
    "\<forall>s xs t. set xs \<inter> set cs = {} \<longrightarrow> seg (blocks q') s xs t = seg (blocks q) s xs t"
    by blast
  have "pend_ok q' (ks @ ps) P"
    unfolding pend_ok_def
  proof (intro allI impI)
    fix L xs assume L: "P L = Some xs"
    then have x: "detached q cs xs" "hd xs = L" "tl xs \<noteq> [] \<longrightarrow> (\<forall>l \<in> set xs. refd q l)"
      "\<forall>L' ps'. L' \<noteq> L \<longrightarrow> P L' = Some ps' \<longrightarrow> set xs \<inter> set ps' = {}"
      using pe unfolding pend_ok_def by blast+
    have dc: "set xs \<inter> set cs = {}" using x(1) by (simp add: detached_def)
    moreover have "set ks \<subseteq> set cs" using q'(3) by (simp add: kept_def)
    moreover have "seg (blocks q') (Some (hd xs)) xs None" using x(1) q'(8) dc by (simp add: detached_def)
    ultimately have "detached q' (ks @ ps) xs"
      using x(1) q'(4,7) dj[OF L] unfolding detached_def by auto
    then show "detached q' (ks @ ps) xs \<and> hd xs = L \<and> (tl xs \<noteq> [] \<longrightarrow> (\<forall>l \<in> set xs. refd q' l)) \<and>
      (\<forall>L' ps'. L' \<noteq> L \<longrightarrow> P L' = Some ps' \<longrightarrow> set xs \<inter> set ps' = {})"
      using x q'(5) by simp
  qed
  then show ?thesis using q' unfolding layout_def by blast
qed

text \<open>The positions after placing.\<close>

lemma placed_views:
  assumes k: "kept q cs ks" and e: "\<forall>l \<in> set ps. qs q l = []" and dj: "set ps \<inter> set ks = {}" and ne: "ps \<noteq> []"
    and q': "qs q' = qs q" "refd q' = refd q"
  shows "lin q' (ks @ ps) = lin q cs" "open_end q' (ks @ ps)"
    "agrees q' (ks @ ps) P code tgt T \<Longrightarrow> agrees q cs P code tgt T \<and>
       (\<forall>l \<in> set ps. refd q l \<longrightarrow> tgt l = Some (length (lin q cs)))"
    "l \<in> set cs \<Longrightarrow> qs q l \<noteq> [] \<Longrightarrow> l \<in> set (ks @ ps) \<and> qs q' l \<noteq> []"
proof -
  have l: "lin q' = lin q" and p: "pos q' = pos q" and c: "committed q' = committed q"
    using q' by (simp_all add: lin_def[abs_def] pos_def[abs_def] committed_def[abs_def])
  have k': "lin q ks = lin q cs" "\<And>l. l \<in> set cs \<Longrightarrow> committed q l \<Longrightarrow> l \<in> set ks \<and> pos q ks l = pos q cs l"
    using k by (auto simp: kept_def)
  show "lin q' (ks @ ps) = lin q cs" using k'(1) lin_empty[OF e] by (simp add: l)
  show "open_end q' (ks @ ps)" using e ne q'(1) by (simp add: open_end_def)
  show "l \<in> set (ks @ ps) \<and> qs q' l \<noteq> []" if "l \<in> set cs" "qs q l \<noteq> []"
    using k'(2)[of l] that q'(1) by (simp add: committed_def)
  have pp: "pos q (ks @ ps) l = length (lin q cs)" if "l \<in> set ps" for l
  proof -
    have "l \<notin> set ks" using dj that by auto
    then show ?thesis using pos_empty[OF e] k'(1) by (simp add: pos_append2)
  qed
  assume a: "agrees q' (ks @ ps) P code tgt T"
  then have t: "\<And>l. l \<in> set (ks @ ps) \<Longrightarrow> committed q l \<Longrightarrow> tgt l = Some (pos q (ks @ ps) l)"
    unfolding agrees_def l p c by blast
  have "tgt l = Some (pos q cs l)" if "l \<in> set cs" "committed q l" for l
    using t[of l] k'(2)[OF that] that by simp
  moreover have "tgt l = Some (length (lin q cs))" if "l \<in> set ps" "refd q l" for l
    using t[of l] pp[OF that(1)] that by (simp add: committed_def)
  ultimately show "agrees q cs P code tgt T \<and> (\<forall>l \<in> set ps. refd q l \<longrightarrow> tgt l = Some (length (lin q cs)))"
    using a k'(1) lin_empty[OF e] unfolding agrees_def l q'(2) by auto
qed

subsection \<open>New blocks\<close>

definition fresh_block :: "basic_block_t \<Rightarrow> quadr_st \<Rightarrow> quadr_st" where
  "fresh_block B q = q\<lparr>blocks := (blocks q)(next_block_id q \<mapsto> B), next_block_id := next_block_id q + 1\<rparr>"

lemma fresh_block_simps [simp]:
  "vars (fresh_block B q) = vars q" "cur_block (fresh_block B q) = cur_block q" "cur_func (fresh_block B q) = cur_func q"
  "prev_block (fresh_block B q) = prev_block q" "next_block_id (fresh_block B q) = Suc (next_block_id q)"
  "quadr_func (fresh_block B q) = quadr_func q" "blocks (fresh_block B q) (next_block_id q) = Some B"
  by (simp_all add: fresh_block_def)

lemma fresh_block_views:
  assumes "lst B = []"
  shows "qs (fresh_block B q) b = (if b = next_block_id q then [] else qs q b)"
    "refd (fresh_block B q) b = (if b = next_block_id q then is_referenced B else refd q b)"
  using assms by (simp_all add: fresh_block_def qs_def refd_def)

lemma fresh_seg: "set xs \<subseteq> {..<next_block_id q} \<Longrightarrow> seg (blocks (fresh_block B q)) s xs t = seg (blocks q) s xs t"
  unfolding fresh_block_def by (simp, rule seg_upd) auto

lemma fresh_detached:
  "lst B = [] \<Longrightarrow> detached q cs ps \<Longrightarrow> detached (fresh_block B q) cs ps"
  by (auto simp: detached_def fresh_seg fresh_block_views)

lemma fresh_placed: "placed_ok q cs \<Longrightarrow> placed_ok (fresh_block B q) cs"
  by (auto simp: placed_ok_def fresh_seg fun_ok_def)

lemma fresh_pend:
  assumes B: "lst B = []" and p: "pend_ok q cs P"
  shows "pend_ok (fresh_block B q) cs P"
proof -
  have "refd (fresh_block B q) l" if "P L = Some ps" "l \<in> set ps" "refd q l" for L ps l
  proof -
    have "l < next_block_id q" using that p unfolding pend_ok_def detached_def by blast
    then show ?thesis using that(3) fresh_block_views[OF B, of q l] by simp
  qed
  then show ?thesis using p fresh_detached[OF B] unfolding pend_ok_def by blast
qed

lemma fresh_lin:
  assumes "lst B = []" and "set cs \<subseteq> {..<next_block_id q}"
  shows "lin (fresh_block B q) cs = lin q cs" "pos (fresh_block B q) cs = pos q cs"
    "l \<in> set cs \<Longrightarrow> committed (fresh_block B q) l = committed q l" "l \<in> set cs \<Longrightarrow> qs (fresh_block B q) l = qs q l"
proof -
  have v: "l \<in> set cs \<Longrightarrow> qs (fresh_block B q) l = qs q l \<and> refd (fresh_block B q) l = refd q l" for l
    using assms by (auto simp: fresh_block_views)
  show "lin (fresh_block B q) cs = lin q cs" using v by (intro lin_cong) auto
  show "pos (fresh_block B q) cs = pos q cs" using v by (intro ext pos_cong) auto
  show "l \<in> set cs \<Longrightarrow> committed (fresh_block B q) l = committed q l" "l \<in> set cs \<Longrightarrow> qs (fresh_block B q) l = qs q l"
    using v by (auto simp: committed_def)
qed

lemma fresh_agrees:
  assumes B: "lst B = []" and l: "layout q cs P" and a: "agrees (fresh_block B q) cs P code tgt T"
  shows "agrees q cs P code tgt T"
proof -
  have b: "set cs \<subseteq> {..<next_block_id q}" and pb: "\<And>L ps l. P L = Some ps \<Longrightarrow> l \<in> set ps \<Longrightarrow> l < next_block_id q"
    using l unfolding layout_def placed_ok_def pend_ok_def detached_def by blast+
  note v = fresh_lin[OF B b]
  have "refd (fresh_block B q) l = refd q l" if "P L = Some ps" "l \<in> set ps" for L ps l
    using pb[OF that] fresh_block_views[OF B, of q l] by simp
  then show ?thesis using a v unfolding agrees_def by auto
qed

lemma new_basic_block_fresh: "new_basic_block q = (next_block_id q, fresh_block empty_block q)"
  by (simp add: new_basic_block_def fresh_block_def)

lemma pend_bound:
  assumes "layout q cs P" and "P L = Some ps" and "l \<in> set ps"
  shows "l < next_block_id q"
  using assms unfolding layout_def pend_ok_def detached_def by blast

lemma pend_dom_bound: "layout q cs P \<Longrightarrow> L \<in> dom P \<Longrightarrow> L < next_block_id q"
  unfolding layout_def pend_ok_def detached_def by (metis domD hd_in_set lessThan_iff subsetD)

text \<open>\<open>new_basic_block\<close>: one more pending label.\<close>

lemma new_block_view:
  assumes l: "layout q cs P"
  defines "n \<equiv> next_block_id q" and "q' \<equiv> fresh_block empty_block q"
  shows "new_basic_block q = (n, q')" "layout q' cs (P(n \<mapsto> [n]))" "open_end q cs \<Longrightarrow> open_end q' cs" "n \<notin> dom P" "n \<notin> set cs"
    "lin q' cs = lin q cs" "vars q' = vars q" "l \<in> set cs \<Longrightarrow> qs q l \<noteq> [] \<Longrightarrow> qs q' l \<noteq> []"
    "agrees q' cs (P(n \<mapsto> [n])) code tgt T \<Longrightarrow> agrees q cs P code tgt T"
proof -
  have b: "set cs \<subseteq> {..<n}" "placed_ok q cs" "pend_ok q cs P" using l by (simp_all add: layout_def placed_ok_def n_def)
  show "new_basic_block q = (n, q')" by (simp add: new_basic_block_fresh n_def q'_def)
  show nd: "n \<notin> dom P" using pend_dom_bound[OF l, of n] by (auto simp: n_def)
  show nc: "n \<notin> set cs" using b(1) by auto
  note v = fresh_lin[of empty_block cs q, OF _ b(1)[unfolded n_def], simplified]
  show "lin q' cs = lin q cs" "vars q' = vars q" using v(1) by (simp_all add: q'_def)
  show "l \<in> set cs \<Longrightarrow> qs q l \<noteq> [] \<Longrightarrow> qs q' l \<noteq> []" using v(4)[of l] by (simp add: q'_def)
  have "last cs \<in> set cs" using b(2) by (simp add: placed_ok_def)
  then show "open_end q cs \<Longrightarrow> open_end q' cs" using v(4) by (simp add: open_end_def q'_def)
  have pe: "pend_ok q' cs P" using fresh_pend[OF _ b(3), of empty_block] by (simp add: q'_def)
  have "detached q' cs [n]" using nc by (simp add: detached_def q'_def n_def fresh_block_views)
  moreover have "n \<notin> set ps" if "P L = Some ps" for L ps using pend_bound[OF l that, of n] by (auto simp: n_def)
  ultimately have "pend_ok q' cs (P(n \<mapsto> [n]))"
    using pe unfolding pend_ok_def by (auto split: if_splits)
  then show "layout q' cs (P(n \<mapsto> [n]))" using fresh_placed[OF b(2)] by (simp add: layout_def q'_def)
  assume a: "agrees q' cs (P(n \<mapsto> [n])) code tgt T"
  have "L \<noteq> n" if "P L = Some ps" for L ps using nd that by auto
  then have "agrees q' cs P code tgt T" using a unfolding agrees_def by (metis fun_upd_other)
  then show "agrees q cs P code tgt T" using fresh_agrees[OF _ l, of empty_block] by (simp add: q'_def)
qed

text \<open>\<open>add_basic_blocks\<close>: a pending label is placed at the end of the code.\<close>

lemma pend_ok_remove: "pend_ok q cs P \<Longrightarrow> pend_ok q cs (P(L := None))"
  unfolding pend_ok_def by (auto split: if_splits)

lemma agrees_place:
  assumes "P L = Some ps" and "agrees q cs (P(L := None)) code tgt T"
    and "\<forall>l \<in> set ps. refd q l \<longrightarrow> tgt l = Some n"
  shows "agrees q cs P code tgt (T(L := n))"
  using assms unfolding agrees_def by (auto split: if_splits)

lemma add_blocks_view:
  assumes l: "layout q cs P" and L: "P L = Some ps"
  shows "\<exists>q' cs'. add_basic_blocks L q = Some q' \<and> layout q' cs' (P(L := None)) \<and> open_end q' cs' \<and>
    lin q' cs' = lin q cs \<and> vars q' = vars q \<and> last cs' = last ps \<and> (\<forall>l \<in> set cs. qs q l \<noteq> [] \<longrightarrow> l \<in> set cs' \<and> qs q' l \<noteq> []) \<and>
    (\<forall>code tgt T. agrees q' cs' (P(L := None)) code tgt T \<longrightarrow>
       agrees q cs P code tgt (T(L := length (lin q cs))))"
proof -
  let ?P = "P(L := None)"
  have c: "placed_ok q cs" "pend_ok q cs P" using l by (simp_all add: layout_def)
  have b: "set cs \<subseteq> {..<next_block_id q}" "last cs \<in> set cs" "cur_block q = Some (last cs)"
    using c(1) by (simp_all add: placed_ok_def)
  obtain f where f: "cur_func q = Some f" using c(1) by (auto simp: placed_ok_def fun_ok_def)
  obtain C where C: "blocks q (last cs) = Some C"
    using seg_last[of "blocks q" "Some (hd cs)" cs None] c(1) unfolding placed_ok_def by blast
  have p: "detached q cs ps" "hd ps = L" "\<And>M xs. ?P M = Some xs \<Longrightarrow> set xs \<inter> set ps = {}"
    using c(2) L unfolding pend_ok_def by (auto split: if_splits) blast+
  have pp: "ps \<noteq> []" "set ps \<inter> set cs = {}" "\<forall>l \<in> set ps. qs q l = []" "set ps \<subseteq> {..<next_block_id q}" "distinct ps"
    "seg (blocks q) (Some L) ps None"
    using p(1,2) by (auto simp: detached_def)
  note abp = add_basic_blocks_place[OF f b(3) C, of L]
  show ?thesis
  proof (cases "ends_if q (last cs)")
    case False
    obtain q' ks where q': "place L q = Some q'" "layout q' (ks @ ps) ?P" "kept q cs ks" "qs q' = qs q"
      "refd q' = refd q" "vars q' = vars q"
      using place_view[of q cs ps ?P, OF c(1) p(1) pend_ok_remove[OF c(2)]] p(2,3) by blast
    have dj: "set ps \<inter> set ks = {}" using pp(2) q'(3) by (auto simp: kept_def)
    note v = placed_views[OF q'(3) pp(3) dj pp(1) q'(4,5)]
    have "add_basic_blocks L q = Some q'" using abp False b q'(1) by auto
    moreover have "agrees q cs P code tgt (T(L := length (lin q cs)))" if "agrees q' (ks @ ps) ?P code tgt T" for code tgt T
      using v(3)[OF that] agrees_place[of P L ps q cs, OF L] by blast
    ultimately show ?thesis
      using q' v(1,2,4) pp(1) by (intro exI[of _ q'] exI[of _ "ks @ ps"]) simp
  next
    case True
    define B where "B = set_referenced (empty_block\<lparr>nxt := Some L\<rparr>)"
    define n where "n = next_block_id q"
    have B: "lst B = []" "nxt B = Some L" "is_referenced B" by (simp_all add: B_def)
    let ?q = "fresh_block B q"
    have abq: "add_basic_blocks L q = place n ?q"
    proof -
      have "set_block n (\<lambda>B. set_referenced (B\<lparr>nxt := Some L\<rparr>)) (fresh_block empty_block q) = Some ?q"
        by (cases q) (simp add: set_block_def B_def fresh_block_def n_def)
      then show ?thesis using abp True b by (auto simp: new_basic_block_fresh n_def)
    qed
    have nn: "n \<notin> set cs" "n \<notin> set ps" using b(1) pp(4) by (auto simp: n_def)
    have d: "detached ?q cs (n # ps)"
      using pp nn fresh_seg[OF pp(4), of B] B by (auto simp: detached_def fresh_block_views n_def)
    have dis: "set xs \<inter> set (n # ps) = {}" if "?P M = Some xs" for M xs
    proof -
      have "P M = Some xs" using that by (auto split: if_splits)
      then have "n \<notin> set xs" using pend_bound[OF l, of M xs n] by (auto simp: n_def)
      then show ?thesis using p(3)[OF that] by auto
    qed
    obtain q' ks where q': "place n ?q = Some q'" "layout q' (ks @ n # ps) ?P" "kept ?q cs ks" "qs q' = qs ?q"
      "refd q' = refd ?q" "vars q' = vars ?q"
      using place_view[of ?q cs "n # ps" ?P, OF fresh_placed[OF c(1)] d fresh_pend[OF B(1) pend_ok_remove[OF c(2)]]] dis
      by auto
    have dj: "set (n # ps) \<inter> set ks = {}" "\<forall>l \<in> set (n # ps). qs ?q l = []"
      using pp(2) nn q'(3) d by (auto simp: kept_def detached_def)
    note v = placed_views[OF q'(3) dj(2,1) _ q'(4,5)] and w = fresh_lin[OF B(1) b(1)]
    have ag: "agrees q cs P code tgt (T(L := length (lin q cs)))" if a: "agrees q' (ks @ n # ps) ?P code tgt T" for code tgt T
    proof -
      have *: "agrees ?q cs ?P code tgt T" "\<forall>l \<in> set (n # ps). refd ?q l \<longrightarrow> tgt l = Some (length (lin q cs))"
        using v(3)[OF _ a] w(1) by auto
      have "\<forall>l \<in> set ps. refd q l \<longrightarrow> tgt l = Some (length (lin q cs))"
      proof (intro ballI impI)
        fix l assume a: "l \<in> set ps" "refd q l"
        then have "l \<noteq> n" using nn(2) by auto
        then have "refd ?q l" using a(2) by (simp add: fresh_block_views[OF B(1)] n_def)
        then show "tgt l = Some (length (lin q cs))" using *(2) a(1) by simp
      qed
      moreover have "layout q cs ?P" using c pend_ok_remove by (simp add: layout_def)
      then have "agrees q cs ?P code tgt T" using fresh_agrees[OF B(1) _ *(1)] by blast
      ultimately show ?thesis using agrees_place[of P L ps q cs, OF L] by blast
    qed
    have "add_basic_blocks L q = Some q'" using abq q'(1) by simp
    moreover have "l \<in> set (ks @ n # ps) \<and> qs q' l \<noteq> []" if "l \<in> set cs" "qs q l \<noteq> []" for l
      using v(4)[of l] w(4)[of l] that by simp
    ultimately show ?thesis
      using q' v(1,2) w(1) ag pp(1) by (intro exI[of _ q'] exI[of _ "ks @ n # ps"]) simp
  qed
qed

subsection \<open>Labels\<close>

definition label_ok :: "quadr_st \<Rightarrow> block_id list \<Rightarrow> pending \<Rightarrow> block_id \<Rightarrow> bool" where
  "label_ok q cs P L \<longleftrightarrow> L \<in> dom P \<or> (L \<in> set cs \<and> qs q L \<noteq> [])"

definition dest :: "pending \<Rightarrow> (block_id \<Rightarrow> nat option) \<Rightarrow> (block_id \<Rightarrow> nat) \<Rightarrow> block_id \<Rightarrow> nat option" where
  "dest P tgt T L = (if L \<in> dom P then Some (T L) else tgt L)"

lemma label_ok_step: "step0 q cs P q' cs' P' \<Longrightarrow> label_ok q cs P L \<Longrightarrow> label_ok q' cs' P' L"
  unfolding step0_def label_ok_def by blast

text \<open>The blocks of one pending label change.\<close>

lemma layout_relabel:
  assumes l: "layout q cs P" and o: "open_end q cs" and L: "P L = Some ps"
    and d: "detached q' cs ps'" "hd ps' = L" "\<forall>l \<in> set ps'. refd q' l" "set ps \<subseteq> set ps'"
    and fr: "\<And>l. l \<notin> set ps' \<Longrightarrow> map_option nxt (blocks q' l) = map_option nxt (blocks q l) \<and> qs q' l = qs q l \<and> refd q' l = refd q l"
    and dj: "\<And>M xs. M \<noteq> L \<Longrightarrow> P M = Some xs \<Longrightarrow> set xs \<inter> set ps' = {}"
    and same: "cur_block q' = cur_block q" "prev_block q' = prev_block q" "cur_func q' = cur_func q"
      "quadr_func q' = quadr_func q" "next_block_id q \<le> next_block_id q'" "vars q' = vars q"
  shows "gstep q cs P q' cs (P(L \<mapsto> ps'))" "lin q' cs = lin q cs"
    "agrees q' cs (P(L \<mapsto> ps')) code tgt T \<Longrightarrow> l \<in> set ps' \<Longrightarrow> tgt l = Some (T L)"
proof -
  have c: "placed_ok q cs" "pend_ok q cs P" using l by (simp_all add: layout_def)
  have cd: "l \<notin> set ps'" if "l \<in> set cs" for l using d(1) that by (auto simp: detached_def)
  have sg: "seg (blocks q') s xs t" if "seg (blocks q) s xs t" "set xs \<inter> set ps' = {}" for s xs t
    by (rule seg_cong[OF _ that(1)]) (use fr that(2) in auto)
  have qc: "qs q' l = qs q l" "refd q' l = refd q l" if "l \<in> set cs" for l using fr cd[OF that] by simp_all
  have c': "placed_ok q' cs"
    using c(1) sg[of _ cs] cd same unfolding placed_ok_def fun_ok_def by auto
  have "detached q' cs xs \<and> hd xs = M \<and> (tl xs \<noteq> [] \<longrightarrow> (\<forall>l \<in> set xs. refd q' l)) \<and>
      (\<forall>M' ys. M' \<noteq> M \<longrightarrow> (P(L \<mapsto> ps')) M' = Some ys \<longrightarrow> set xs \<inter> set ys = {})"
    if M: "(P(L \<mapsto> ps')) M = Some xs" for M xs
  proof (cases "M = L")
    case True
    then have "xs = ps'" using M by simp
    moreover have "set ps' \<inter> set ys = {}" if "M' \<noteq> L" "P M' = Some ys" for M' ys using dj[OF that] by blast
    ultimately show ?thesis using d True by (simp split: if_splits)
  next
    case False
    then have PM: "P M = Some xs" using M by simp
    have x: "detached q cs xs" "hd xs = M" "tl xs \<noteq> [] \<longrightarrow> (\<forall>l \<in> set xs. refd q l)"
      "\<forall>M' ys. M' \<noteq> M \<longrightarrow> P M' = Some ys \<longrightarrow> set xs \<inter> set ys = {}"
      using c(2) PM unfolding pend_ok_def by blast+
    have dx: "set xs \<inter> set ps' = {}" using dj[OF False PM] .
    then have "l \<in> set xs \<Longrightarrow> qs q' l = qs q l \<and> refd q' l = refd q l" for l using fr by blast
    moreover have "detached q' cs xs"
      using x(1) sg[OF _ dx] calculation same(5) unfolding detached_def by (auto intro: less_le_trans)
    ultimately show ?thesis using x dx False by auto
  qed
  then have "pend_ok q' cs (P(L \<mapsto> ps'))" unfolding pend_ok_def by blast
  then have lay: "layout q' cs (P(L \<mapsto> ps'))" using c' by (simp add: layout_def)
  show lin: "lin q' cs = lin q cs" using qc by (intro lin_cong) auto
  have pos: "pos q' cs = pos q cs" using qc by (intro ext pos_cong) auto
  have ag: "agrees q cs P code tgt T" if a: "agrees q' cs (P(L \<mapsto> ps')) code tgt T" for code tgt T
    unfolding agrees_def
  proof (intro conjI allI impI ballI)
    show "\<exists>xs. code = lin q cs @ xs" using a lin by (simp add: agrees_def)
    show "tgt l = Some (pos q cs l)" if "l \<in> set cs" "committed q l" for l
    proof -
      have "committed q' l" using that qc[OF that(1)] by (simp add: committed_def)
      then show ?thesis using a that(1) pos unfolding agrees_def by metis
    qed
    fix M xs l assume M: "P M = Some xs" "l \<in> set xs" "refd q l"
    show "tgt l = Some (T M)"
    proof (cases "M = L")
      case True
      then have "l \<in> set ps'" "refd q' l" using M L d(3,4) by auto
      then show ?thesis using a True by (simp add: agrees_def)
    next
      case False
      then have "refd q' l" using fr[of l] dj[OF False M(1)] M(2,3) by blast
      then show ?thesis using a M False by (simp add: agrees_def)
    qed
  qed
  have "last cs \<in> set cs" using c(1) by (simp add: placed_ok_def)
  then have "open_end q' cs" using o qc by (simp add: open_end_def)
  then show "gstep q cs P q' cs (P(L \<mapsto> ps'))"
    using lay ag same(6) qc L by (auto simp: gstep_def step0_def)
  show "agrees q' cs (P(L \<mapsto> ps')) code tgt T \<Longrightarrow> l \<in> set ps' \<Longrightarrow> tgt l = Some (T L)"
    using d(3) by (simp add: agrees_def)
qed

lemma label_pending:
  assumes l: "layout q cs P" and o: "open_end q cs" and L: "P L = Some ps"
  shows "\<exists>l q' P'. quadr_arg_label L q = Some (QA_LABEL l, q') \<and> gstep q cs P q' cs P' \<and> lin q' cs = lin q cs \<and>
    vars q' = vars q \<and> (\<forall>code tgt T. agrees q' cs P' code tgt T \<longrightarrow> tgt l = Some (T L))"
proof -
  have p: "ps \<noteq> []" "hd ps = L" "distinct ps" "seg (blocks q) (Some L) ps None" "set ps \<subseteq> {..<next_block_id q}"
    "set ps \<inter> set cs = {}" "\<forall>l \<in> set ps. qs q l = []" "tl ps \<noteq> [] \<longrightarrow> (\<forall>l \<in> set ps. refd q l)"
    "\<And>M xs. M \<noteq> L \<Longrightarrow> P M = Some xs \<Longrightarrow> set xs \<inter> set ps = {}"
    using l L unfolding layout_def pend_ok_def detached_def by blast+
  obtain rs where rs: "ps = L # rs" using p(1,2) by (cases ps) auto
  obtain B where B: "blocks q L = Some B" "seg (blocks q) (nxt B) rs None" using p(4) rs by auto
  have e: "lst B = []" using p(7) rs B(1) by (simp add: qs_def)
  show ?thesis
  proof (cases "is_referenced B")
    case False
    then have "rs = []" using p(8) rs B(1) by (auto simp: refd_def)
    let ?q = "q\<lparr>blocks := (blocks q)(L \<mapsto> set_referenced B)\<rparr>"
    have q: "quadr_arg_label L q = Some (QA_LABEL L, ?q)"
      using B(1) e False by (simp add: quadr_arg_label_def set_block_def)
    have d: "detached ?q cs ps" "\<forall>l \<in> set ps. refd ?q l"
      using p rs \<open>rs = []\<close> B e by (auto simp: detached_def)
    note v = layout_relabel[OF l o L d(1) p(2) d(2) subset_refl _ p(9), simplified]
    show ?thesis
      using q v(1-3) rs by (intro exI[of _ L] exI[of _ ?q] exI[of _ "P(L \<mapsto> ps)"]) auto
  next
    case True
    let ?n = "next_block_id q"
    let ?N = "set_referenced (empty_block\<lparr>nxt := nxt B\<rparr>)"
    let ?q = "q\<lparr>next_block_id := Suc ?n, blocks := (blocks q)(?n \<mapsto> ?N, L \<mapsto> B\<lparr>nxt := Some ?n\<rparr>)\<rparr>"
    let ?ps = "L # ?n # rs"
    have nn: "?n \<notin> set ps" "?n \<notin> set cs" using p(5) l by (auto simp: layout_def placed_ok_def)
    have nL: "?n \<noteq> L" "L \<notin> set rs" "?n \<notin> set rs" using nn(1) rs p(3) by auto
    have q: "quadr_arg_label L q = Some (QA_LABEL ?n, ?q)"
      using B(1) e True nL(1) by (cases q) (simp add: quadr_arg_label_def set_block_def new_basic_block_def fun_upd_twist)
    have r: "\<forall>l \<in> set ps. refd q l" using p(8) rs B(1) True by (cases "rs = []") (auto simp: refd_def)
    have sg: "seg (blocks ?q) (Some L) ?ps None" using B nL by simp
    have q1: "qs ?q l = (if l \<in> {L, ?n} then [] else qs q l)" for l using e by (auto simp: qs_def)
    have r1: "refd ?q l = (if l \<in> {L, ?n} then True else refd q l)" for l
      using True set_referenced_simps(3) by (auto simp: refd_def is_referenced_def)
    have d: "detached ?q cs ?ps" "\<forall>l \<in> set ?ps. refd ?q l"
      using p rs nn nL sg r unfolding detached_def q1 r1 by auto
    have fr: "map_option nxt (blocks ?q l) = map_option nxt (blocks q l) \<and> qs ?q l = qs q l \<and> refd ?q l = refd q l"
      if "l \<notin> set ?ps" for l using that by (auto simp: qs_def refd_def)
    have dj: "set xs \<inter> set ?ps = {}" if "M \<noteq> L" "P M = Some xs" for M xs
      using p(9)[OF that] rs pend_bound[OF l that(2), of ?n] by auto
    have sub: "set ps \<subseteq> set ?ps" using rs by auto
    note v = layout_relabel[OF l o L d(1) _ d(2) sub fr dj, simplified]
    show ?thesis
      using q v(1-3) by (intro exI[of _ ?n] exI[of _ ?q] exI[of _ "P(L \<mapsto> ?ps)"]) auto
  qed
qed

lemma label_view:
  assumes l: "layout q cs P" and o: "open_end q cs" and L: "label_ok q cs P L"
  shows "\<exists>l q' P'. quadr_arg_label L q = Some (QA_LABEL l, q') \<and> gstep q cs P q' cs P' \<and> lin q' cs = lin q cs \<and>
    vars q' = vars q \<and> (\<forall>code tgt T. agrees q' cs P' code tgt T \<longrightarrow> tgt l = dest P tgt T L)"
proof (cases "L \<in> dom P")
  case True
  then show ?thesis using label_pending[OF l o] by (auto simp: dest_def)
next
  case False
  then have "qs q L \<noteq> []" using L by (simp add: label_ok_def)
  then obtain B where "blocks q L = Some B" "lst B \<noteq> []" by (auto simp: qs_def split: option.splits)
  then have "quadr_arg_label L q = Some (QA_LABEL L, q)" by (simp add: quadr_arg_label_def)
  then show ?thesis using gstep_refl[OF l o] False by (auto simp: dest_def)
qed

subsection \<open>Jumps\<close>

lemma add_new_block_view:
  assumes l: "layout q cs P"
  shows "\<exists>q' cs'. add_new_block q = Some q' \<and> gstep q cs P q' cs' P \<and> lin q' cs' = lin q cs \<and> vars q' = vars q"
proof -
  note n = new_block_view[OF l]
  let ?n = "next_block_id q" and ?q = "fresh_block empty_block q"
  let ?P = "P(?n \<mapsto> [?n])"
  obtain q' cs' where q': "add_basic_blocks ?n ?q = Some q'" "layout q' cs' (?P(?n := None))" "open_end q' cs'"
    "lin q' cs' = lin ?q cs" "vars q' = vars ?q" "\<forall>l \<in> set cs. qs ?q l \<noteq> [] \<longrightarrow> l \<in> set cs' \<and> qs q' l \<noteq> []"
    "\<forall>code tgt T. agrees q' cs' (?P(?n := None)) code tgt T \<longrightarrow>
       agrees ?q cs ?P code tgt (T(?n := length (lin ?q cs)))"
    using add_blocks_view[OF n(2), of ?n "[?n]"] by auto
  have P: "?P(?n := None) = P" using n(4) by (auto simp: fun_eq_iff domIff)
  have "agrees q cs P code tgt T" if a: "agrees q' cs' P code tgt T" for code tgt T
  proof -
    have "agrees ?q cs ?P code tgt (T(?n := length (lin ?q cs)))" using q'(7) a unfolding P by blast
    then have "agrees q cs P code tgt (T(?n := length (lin ?q cs)))" by (rule n(9))
    then show ?thesis by (rule agrees_irrelevant[rotated]) (use n(4) in auto)
  qed
  then have "gstep q cs P q' cs' P"
    using q' n(7,8) unfolding P by (simp add: gstep_def step0_def)
  moreover have "add_new_block q = Some q'" using n(1) q'(1) by (simp add: add_new_block_def)
  ultimately show ?thesis using q'(4,5) n(6,7) by auto
qed

lemma gen_if_view:
  assumes l: "layout q cs P" and o: "open_end q cs"
  shows "\<exists>q' cs'. gen_if op lab a1 a2 q = Some q' \<and> gstep q cs P q' cs' P \<and> vars q' = vars q \<and>
    lin q' cs' = lin q cs @ [\<lparr>q_op = op, q_result = lab, q_arg1 = a1, q_arg2 = a2\<rparr>]"
proof -
  let ?x = "\<lparr>q_op = op, q_result = lab, q_arg1 = a1, q_arg2 = a2\<rparr>"
  obtain q1 where q1: "add_quadr (cur_block q) ?x q = Some q1" "step0 q cs P q1 cs P" "vars q1 = vars q"
    "lin q1 cs = lin q cs @ [?x]"
    using add_quadr_view[OF l o, of ?x] by blast
  obtain q2 cs2 where q2: "add_new_block q1 = Some q2" "gstep q1 cs P q2 cs2 P" "lin q2 cs2 = lin q1 cs" "vars q2 = vars q1"
    using add_new_block_view[OF step0D(1)[OF q1(2)]] by blast
  show ?thesis
    using q1 q2 step0_gstep[OF q1(2) q2(2)] by (intro exI[of _ q2] exI[of _ cs2]) (simp add: gen_if_def)
qed

lemma gen_goto_view:
  assumes l: "layout q cs P" and o: "open_end q cs" and L: "label_ok q cs P L"
  shows "\<exists>q' cs' P' l. gen_goto L q = Some q' \<and> gstep q cs P q' cs' P' \<and> vars q' = vars q \<and>
    lin q' cs' = lin q cs @ [\<lparr>q_op = Q_GOTO, q_result = QA_LABEL l, q_arg1 = QA_NONE, q_arg2 = QA_NONE\<rparr>] \<and>
    (\<forall>code tgt T. agrees q' cs' P' code tgt T \<longrightarrow> tgt l = dest P tgt T L)"
proof -
  obtain m q1 P' where q1: "quadr_arg_label L q = Some (QA_LABEL m, q1)" "gstep q cs P q1 cs P'" "lin q1 cs = lin q cs"
    "vars q1 = vars q" "\<forall>code tgt T. agrees q1 cs P' code tgt T \<longrightarrow> tgt m = dest P tgt T L"
    using label_view[OF l o L] by blast
  obtain q2 cs2 where q2: "gen_if Q_GOTO (QA_LABEL m) QA_NONE QA_NONE q1 = Some q2" "gstep q1 cs P' q2 cs2 P'" "vars q2 = vars q1"
    "lin q2 cs2 = lin q1 cs @ [\<lparr>q_op = Q_GOTO, q_result = QA_LABEL m, q_arg1 = QA_NONE, q_arg2 = QA_NONE\<rparr>]"
    using gen_if_view[OF gstepD(1,7)[OF q1(2)]] by blast
  have "gen_goto L q = Some q2" using q1(1) q2(1) by (simp add: gen_goto_def gen_if_def)
  moreover have "tgt m = dest P tgt T L" if "agrees q2 cs2 P' code tgt T" for code tgt T
    using gstepD(6)[OF q2(2) that] q1(5) by blast
  ultimately show ?thesis
    using q1 q2 gstep_trans[OF q1(2) q2(2)] by (intro exI[of _ q2] exI[of _ cs2] exI[of _ P'] exI[of _ m]) simp
qed

end
