(* ===== verification/Gen_Correct.thy ===== *)
theory Gen_Correct
  imports Layout
begin

text \<open>
  The code generator for expressions is correct: on a typed expression it returns, and the
  quadruples compute the value that the expression has, or jump on it.
\<close>

subsection \<open>What the generator needs\<close>

definition storable :: "type_t \<Rightarrow> bool" where
  "storable t \<longleftrightarrow> t \<in> {type_int, type_double, type_boolean}"

definition var_ok :: "quadr_st \<Rightarrow> type_t \<Rightarrow> var_id \<Rightarrow> bool" where
  "var_ok q t v \<longleftrightarrow> v < length (vars q) \<and> v_type (vars q ! v) = t \<and> var_qtype t = Some (v_qtype (vars q ! v))"

text \<open>A declared symbol is a function, or a variable that has been declared in the current function.\<close>

definition decl_ok :: "quadr_st \<Rightarrow> decl_t \<Rightarrow> bool" where
  "decl_ok q d \<longleftrightarrow>
     (case d_type d of
        func_type p rt n ts \<Rightarrow> (storable rt \<or> rt = type_void) \<and> (\<exists>f. d_u d = U_FUNC f)
      | array_type p b n \<Rightarrow> storable b \<and> (\<exists>v. d_u d = U_VAR v \<and> var_ok q (d_type d) v)
      | t \<Rightarrow> storable t \<and> (\<exists>v. d_u d = U_VAR v \<and> var_ok q t v))"

definition env_ok :: "decl_env \<Rightarrow> quadr_st \<Rightarrow> bool" where
  "env_ok D q \<longleftrightarrow> (\<forall>s d. D s = Some d \<longrightarrow> decl_ok q d)"

definition env_types :: "decl_env \<Rightarrow> sym \<rightharpoonup> type_t" where
  "env_types D s = map_option d_type (D s)"

text \<open>The type of a well-typed expression, from the types of its symbols alone.\<close>

fun static_type :: "(sym \<rightharpoonup> type_t) \<Rightarrow> expr \<Rightarrow> type_t option" where
  "static_type G (BINARY nt p ty l r) =
     (if is_cmp_op nt \<or> nt \<in> {NODE_AND, NODE_OR} then Some type_boolean else static_type G l)"
| "static_type G (UNARY nt p ty a) = static_type G a"
| "static_type G (INT_NODE p ty v) = Some type_int"
| "static_type G (BOOL_NODE p ty v) = Some type_boolean"
| "static_type G (DOUBLE_NODE p ty v) = Some type_double"
| "static_type G (STR_NODE p ty v) = Some type_str"
| "static_type G (IDENT p ty s) = G s"
| "static_type G (ARRAY p ty s i) = (case G s of Some (array_type q b n) \<Rightarrow> Some b | _ \<Rightarrow> None)"
| "static_type G (CALL p ty s as) = (case G s of Some (func_type q rt n ts) \<Rightarrow> Some rt | _ \<Rightarrow> None)"

lemma binary_static_type:
  assumes "binary_type nt u = Some v" and "nt \<in> set binary_nodes"
  shows "v = (if is_cmp_op nt \<or> nt \<in> {NODE_AND, NODE_OR} then type_boolean else u)"
  using assms by (cases nt) (auto simp: binary_type_cases is_cmp_op_def binary_nodes_def)

lemma typed_static_type: "typed G e \<Longrightarrow> expr_type e = static_type G e"
proof (induction e)
  case (BINARY nt p ty l r)
  then obtain u v where u: "expr_type l = Some u" "ty = Some v" "binary_type nt u = Some v" "nt \<in> set binary_nodes"
    by (auto simp: bind_eq_Some_conv)
  have "static_type G l = Some u" using BINARY.IH(1) BINARY.prems u(1) by simp
  then show ?case using binary_static_type[OF u(3,4)] u(2) by simp
next
  case (UNARY nt p ty a)
  then obtain u v where u: "expr_type a = Some u" "ty = Some v" "unary_type nt u = Some v"
    by (auto simp: bind_eq_Some_conv)
  have "static_type G a = Some u" using UNARY.IH UNARY.prems u(1) by simp
  then show ?case using u by (simp add: unary_type_cases)
next
  case (ARRAY p ty s i)
  then show ?case by (auto split: option.splits type_t.splits)
next
  case (CALL p ty s as)
  then show ?case by (auto split: option.splits type_t.splits)
qed simp_all

text \<open>
  The expressions for which there is defined code: no function is used as a variable, no element
  of an array is used as a condition or as an operand of \<open>&&\<close>, \<open>||\<close> or \<open>!\<close> (for which
  \<open>gen_quadr_bool_expr\<close> aborts), and only doubles are negated (the zero of the negation of an
  int is a \<open>double\<close> that is read as an \<open>int\<close>).
\<close>

fun code_ok :: "(sym \<rightharpoonup> type_t) \<Rightarrow> expr \<Rightarrow> bool" where
  "code_ok G (BINARY nt p ty l r) \<longleftrightarrow> code_ok G l \<and> code_ok G r \<and>
     (nt \<in> {NODE_AND, NODE_OR} \<longrightarrow> expr_node l \<noteq> NODE_ARRAY \<and> expr_node r \<noteq> NODE_ARRAY)"
| "code_ok G (UNARY nt p ty a) \<longleftrightarrow> code_ok G a \<and> (nt = NODE_NOT \<longrightarrow> expr_node a \<noteq> NODE_ARRAY) \<and>
     (nt = NODE_NEG \<longrightarrow> static_type G a = Some type_double)"
| "code_ok G (IDENT p ty s) \<longleftrightarrow> (case G s of Some (func_type q rt n ts) \<Rightarrow> False | _ \<Rightarrow> True)"
| "code_ok G (ARRAY p ty s i) \<longleftrightarrow> code_ok G i"
| "code_ok G (CALL p ty s as) \<longleftrightarrow> (\<forall>a \<in> set as. code_ok G (snd a))"
| "code_ok G e \<longleftrightarrow> True"

lemma var_ok_more: "var_ok q t v \<Longrightarrow> vars q' = vars q @ ys \<Longrightarrow> var_ok q' t v"
  by (auto simp: var_ok_def nth_append)

lemma decl_ok_more: "decl_ok q d \<Longrightarrow> vars q' = vars q @ ys \<Longrightarrow> decl_ok q' d"
  using var_ok_more[of q _ _ q' ys] by (cases "d_type d") (auto simp: decl_ok_def)

lemma env_ok_step:
  assumes "gstep q cs P q' cs' P'" and "env_ok D q"
  shows "env_ok D q'"
  using gstepD(2)[OF assms(1)] assms(2) decl_ok_more unfolding env_ok_def by blast

lemma env_var:
  assumes "env_ok D q" and "env_types D s = Some t" and "cons t \<noteq> TYPE_FUNC"
  shows "\<exists>v. sym_var D s = Some v \<and> var_ok q t v"
proof -
  obtain d where d: "D s = Some d" "d_type d = t" using assms(2) by (auto simp: env_types_def)
  have "decl_ok q d" using assms(1) d(1) by (simp add: env_ok_def)
  then show ?thesis using d assms(3) by (cases t) (auto simp: decl_ok_def sym_var_def)
qed

lemma env_func:
  assumes "env_ok D q" and "env_types D s = Some (func_type p rt n ts)"
  shows "\<exists>f. sym_func D s = Some f \<and> (storable rt \<or> rt = type_void)"
proof -
  obtain d where d: "D s = Some d" "d_type d = func_type p rt n ts" using assms(2) by (auto simp: env_types_def)
  have "decl_ok q d" using assms(1) d(1) by (simp add: env_ok_def)
  then show ?thesis using d by (auto simp: decl_ok_def sym_func_def)
qed

lemma env_array:
  assumes "env_ok D q" and "env_types D s = Some (array_type p b n)"
  shows "storable b"
proof -
  obtain d where d: "D s = Some d" "d_type d = array_type p b n" using assms(2) by (auto simp: env_types_def)
  have "decl_ok q d" using assms(1) d(1) by (simp add: env_ok_def)
  then show ?thesis using d by (auto simp: decl_ok_def)
qed

subsection \<open>Stores\<close>

definition same_upto :: "nat \<Rightarrow> 'w store \<Rightarrow> 'w store \<Rightarrow> bool" where
  "same_upto n st st' \<longleftrightarrow> (\<forall>v < n. s_var st' v = s_var st v) \<and> s_arr st' = s_arr st"

lemma same_upto_refl [simp]: "same_upto n st st"
  by (simp add: same_upto_def)

lemma same_upto_trans: "same_upto n st st' \<Longrightarrow> same_upto m st' st'' \<Longrightarrow> n \<le> m \<Longrightarrow> same_upto n st st''"
  by (simp add: same_upto_def)

lemma same_upto_set [simp]:
  "n \<le> v \<Longrightarrow> same_upto n st (st'\<lparr>s_var := (s_var st')(v := x)\<rparr>) \<longleftrightarrow> same_upto n st st'"
  "same_upto n st (st'\<lparr>s_par := ps\<rparr>) \<longleftrightarrow> same_upto n st st'"
  "same_upto n st (st'\<lparr>s_world := w\<rparr>) \<longleftrightarrow> same_upto n st st'"
  by (auto simp: same_upto_def)

definition arg_in :: "quadr_arg_t \<Rightarrow> quadr_st \<Rightarrow> bool" where
  "arg_in a q \<longleftrightarrow> (\<forall>v. a = QA_VAR v \<longrightarrow> v < length (vars q))"

lemma arg_val_same: "same_upto (length (vars q)) st st' \<Longrightarrow> arg_in a q \<Longrightarrow> arg_val st' a = arg_val st a"
  by (auto simp: arg_val_def arg_in_def same_upto_def split: quadr_arg_t.splits)

lemma sym_var_bound:
  assumes "env_ok D q" and "sym_var D s = Some v"
  shows "v < length (vars q)"
proof -
  obtain d where d: "D s = Some d" "d_u d = U_VAR v"
    using assms(2) unfolding sym_var_def by (cases "D s") (auto split: decl_u.splits)
  have "decl_ok q d" using assms(1) d(1) by (simp add: env_ok_def)
  then show ?thesis using d(2) by (cases "d_type d") (auto simp: decl_ok_def var_ok_def)
qed

lemma eval_same:
  "env_ok D q \<Longrightarrow> same_upto (length (vars q)) st st' \<Longrightarrow> eval M D st' e w = eval M D st e w"
  "env_ok D q \<Longrightarrow> same_upto (length (vars q)) st st' \<Longrightarrow> eval_args M D st' as w = eval_args M D st as w"
proof (induction M D st e w and M D st as w rule: eval_eval_args.induct)
  case (5 M D st p ty s w)
  then show ?case using sym_var_bound[of D q s] by (cases "sym_var D s") (auto simp: same_upto_def)
next
  case (6 M D st p ty s i w)
  have "s_arr st' = s_arr st" using 6 by (simp add: same_upto_def)
  then show ?case using 6 by (cases "sym_var D s") (auto cong: val.case_cong)
next
  case (9 M D st nt p ty l r w)
  show ?case
  proof (cases "eval M D st l w")
    case (Some xw)
    then show ?thesis using 9 by (cases xw; cases "as_bool (fst xw)") (auto cong: if_cong)
  qed (use 9 in simp)
next
  case (11 M D st p a as w)
  show ?case
  proof (cases "eval M D st a w")
    case (Some xw)
    then show ?thesis using 11 by (cases xw) auto
  qed (use 11 in simp)
qed (auto cong: if_cong)

subsection \<open>What the code of an expression does\<close>

text \<open>
  \<open>code_runs\<close>: in every final code that agrees with the later state, the code between the
  ends of the two states takes the store \<open>st\<close> to \<open>st'\<close>.
\<close>

definition val_code ::
  "'w machine \<Rightarrow> decl_env \<Rightarrow> expr \<Rightarrow> quadr_st \<Rightarrow> block_id list \<Rightarrow> quadr_arg_t \<Rightarrow>
    quadr_st \<Rightarrow> block_id list \<Rightarrow> pending \<Rightarrow> bool"
where
  "val_code M D e q cs a q' cs' P' \<longleftrightarrow> (\<forall>code tgt T st v w'.
     agrees q' cs' P' code tgt T \<longrightarrow> s_par st = [] \<longrightarrow> eval M D st e (s_world st) = Some (v, w') \<longrightarrow>
     (\<exists>st'. runs M code tgt (length (lin q cs), st) (length (lin q' cs'), st') \<and> arg_val st' a = Some v \<and>
        same_upto (length (vars q)) st st' \<and> s_par st' = [] \<and> s_world st' = w'))"

definition args_code ::
  "'w machine \<Rightarrow> decl_env \<Rightarrow> (src_pos_t \<times> expr) list \<Rightarrow> quadr_st \<Rightarrow> block_id list \<Rightarrow> quadr_arg_t list \<Rightarrow>
    quadr_st \<Rightarrow> block_id list \<Rightarrow> pending \<Rightarrow> bool"
where
  "args_code M D as q cs xs q' cs' P' \<longleftrightarrow> (\<forall>code tgt T st vs w'.
     agrees q' cs' P' code tgt T \<longrightarrow> s_par st = [] \<longrightarrow> eval_args M D st as (s_world st) = Some (vs, w') \<longrightarrow>
     (\<exists>st'. runs M code tgt (length (lin q cs), st) (length (lin q' cs'), st') \<and>
        map (arg_val st') xs = map Some vs \<and>
        same_upto (length (vars q)) st st' \<and> s_par st' = [] \<and> s_world st' = w'))"

definition cond_code ::
  "'w machine \<Rightarrow> decl_env \<Rightarrow> expr \<Rightarrow> block_id \<Rightarrow> bool \<Rightarrow> quadr_st \<Rightarrow> block_id list \<Rightarrow> pending \<Rightarrow>
    quadr_st \<Rightarrow> block_id list \<Rightarrow> pending \<Rightarrow> bool"
where
  "cond_code M D e L j q cs P q' cs' P' \<longleftrightarrow> (\<forall>code tgt T st v b w'.
     agrees q' cs' P' code tgt T \<longrightarrow> s_par st = [] \<longrightarrow> eval M D st e (s_world st) = Some (v, w') \<longrightarrow>
     as_bool v = Some b \<longrightarrow>
     (\<exists>st' pc. runs M code tgt (length (lin q cs), st) (pc, st') \<and>
        (if b = j then dest P tgt T L = Some pc else pc = length (lin q' cs')) \<and>
        same_upto (length (vars q)) st st' \<and> s_par st' = [] \<and> s_world st' = w'))"

definition gen_ready :: "decl_env \<Rightarrow> quadr_st \<Rightarrow> block_id list \<Rightarrow> pending \<Rightarrow> bool" where
  "gen_ready D q cs P \<longleftrightarrow> layout q cs P \<and> open_end q cs \<and> env_ok D q"

definition expr_ok :: "'w machine \<Rightarrow> decl_env \<Rightarrow> expr \<Rightarrow> (quadr_st \<Rightarrow> (quadr_arg_t \<times> quadr_st) option) \<Rightarrow> bool" where
  "expr_ok M D e g \<longleftrightarrow> (\<forall>q cs P. gen_ready D q cs P \<longrightarrow>
     (\<exists>a q' cs' P'. g q = Some (a, q') \<and> gstep q cs P q' cs' P' \<and> arg_in a q' \<and> val_code M D e q cs a q' cs' P'))"

definition cond_ok :: "'w machine \<Rightarrow> decl_env \<Rightarrow> expr \<Rightarrow> bool" where
  "cond_ok M D e \<longleftrightarrow> (\<forall>q cs P L j. gen_ready D q cs P \<longrightarrow> label_ok q cs P L \<longrightarrow>
     (\<exists>q' cs' P'. gen_quadr_bool_expr D e L j q = Some q' \<and> gstep q cs P q' cs' P' \<and>
        cond_code M D e L j q cs P q' cs' P'))"

abbreviation value_ok :: "'w machine \<Rightarrow> decl_env \<Rightarrow> expr \<Rightarrow> bool" where
  "value_ok M D e \<equiv> expr_ok M D e (gen_quadr_expr D e)"

lemma gen_ready_step: "gen_ready D q cs P \<Longrightarrow> gstep q cs P q' cs' P' \<Longrightarrow> gen_ready D q' cs' P'"
  using gstepD(1,7) env_ok_step by (simp add: gen_ready_def)

lemma arg_in_step: "arg_in a q \<Longrightarrow> gstep q cs P q' cs' P' \<Longrightarrow> arg_in a q'"
  using gstepD(4) by (fastforce simp: arg_in_def)

lemma expr_okD:
  assumes "expr_ok M D e g" and "gen_ready D q cs P"
  shows "\<exists>a q' cs' P'. g q = Some (a, q') \<and> gstep q cs P q' cs' P' \<and> gen_ready D q' cs' P' \<and> arg_in a q' \<and>
    val_code M D e q cs a q' cs' P'"
  using assms gen_ready_step unfolding expr_ok_def by blast

lemma cond_okD:
  assumes "cond_ok M D e" and "gen_ready D q cs P" and "label_ok q cs P L"
  shows "\<exists>q' cs' P'. gen_quadr_bool_expr D e L j q = Some q' \<and> gstep q cs P q' cs' P' \<and> gen_ready D q' cs' P' \<and>
    cond_code M D e L j q cs P q' cs' P'"
  using assms gen_ready_step unfolding cond_ok_def by blast

lemma label_ok_gstep: "gstep q cs P q' cs' P' \<Longrightarrow> label_ok q cs P L \<Longrightarrow> label_ok q' cs' P' L"
  using label_ok_step gstepD(8) by blast

lemma dest_gstep: "gstep q cs P q' cs' P' \<Longrightarrow> dest P' tgt T L = dest P tgt T L"
  by (simp add: dest_def gstepD(3))

lemma dest_Some:
  assumes "label_ok q cs P L" and "agrees q cs P code tgt T"
  shows "\<exists>n. dest P tgt T L = Some n"
  using assms by (auto simp: dest_def label_ok_def agrees_def committed_def)

subsection \<open>Single quadruples\<close>

lemma agrees_nth:
  assumes "agrees q cs P code tgt T" and "lin q cs = pre @ [x]"
  shows "length pre < length code" and "code ! length pre = x"
  using assms by (auto simp: agrees_def nth_append)

lemma runs_op:
  assumes "agrees q cs P code tgt T" and "lin q cs = pre @ [x]" and "\<not> is_if_op (q_op x)" and "q_op x \<noteq> Q_GOTO"
    and "exec_op M x st = Some st'"
  shows "runs M code tgt (length pre, st) (length (lin q cs), st')"
proof -
  note n = agrees_nth[OF assms(1,2)]
  have "qnext M code tgt (length pre, st) = Some (Suc (length pre), st')"
    by (rule qnext_op) (use n assms(3-5) in simp_all)
  then show ?thesis using assms(2) runs_step by fastforce
qed

lemma runs_goto:
  assumes "agrees q cs P code tgt T" and "lin q cs = pre @ [x]" and "q_op x = Q_GOTO" and "jump_dest tgt x = Some l"
  shows "runs M code tgt (length pre, st) (l, st)"
proof -
  note n = agrees_nth[OF assms(1,2)]
  have "qnext M code tgt (length pre, st) = Some (l, st)" using n assms(3,4) by (simp add: qnext_def Let_def)
  then show ?thesis by (rule runs_step)
qed

lemma runs_if:
  assumes "agrees q cs P code tgt T" and "lin q cs = pre @ [x]" and "is_if_op (q_op x)"
    and "arg_val st (q_arg1 x) = Some a" and "arg_val st (q_arg2 x) = Some b"
    and "compare_val M (q_op x) a b = Some c" and "c \<Longrightarrow> jump_dest tgt x = Some l"
  shows "runs M code tgt (length pre, st) (if c then l else length (lin q cs), st)"
proof -
  note n = agrees_nth[OF assms(1,2)]
  have "qnext M code tgt (length pre, st) = Some (if c then l else Suc (length pre), st)"
    using n assms(3-7) by (cases c) (simp_all add: qnext_def Let_def)
  then have "runs M code tgt (length pre, st) (if c then l else Suc (length pre), st)" by (rule runs_step)
  then show ?thesis using assms(2) by (cases c) simp_all
qed

lemma emit_view:
  assumes r: "gen_ready D q cs P" and x: "\<not> is_block_end (q_op x)"
  shows "\<exists>q'. add_quadr (cur_block q) x q = Some q' \<and> gstep q cs P q' cs P \<and> gen_ready D q' cs P \<and> vars q' = vars q \<and>
    lin q' cs = lin q cs @ [x]"
proof -
  obtain q' where q': "add_quadr (cur_block q) x q = Some q'" "step0 q cs P q' cs P" "vars q' = vars q"
    "lin q' cs = lin q cs @ [x]" "open_end q' cs"
    using add_quadr_view[of q cs P x] r x by (auto simp: gen_ready_def)
  then have "gstep q cs P q' cs P" by (simp add: gstep_def)
  then show ?thesis using q' gen_ready_step[OF r] by blast
qed

lemma new_var_view:
  assumes r: "gen_ready D q cs P" and t: "var_qtype t = Some qt"
  shows "\<exists>q'. new_var t q = Some (length (vars q), q') \<and> gstep q cs P q' cs P \<and> gen_ready D q' cs P \<and>
    vars q' = vars q @ [\<lparr>v_type = t, v_loc = None, v_size = -1, v_live = False, v_qtype = qt\<rparr>] \<and> lin q' cs = lin q cs"
  using declare_var_view[of q cs P t qt] r t gen_ready_step[OF r] unfolding new_var_def gen_ready_def by blast

lemma storable_qtype: "storable t \<Longrightarrow> \<exists>qt. var_qtype t = Some qt"
  by (auto simp: storable_def)

lemma const_view:
  fixes M :: "'w machine"
  assumes r: "gen_ready D q cs P" and tc: "tc \<in> {TYPE_INT, TYPE_DOUBLE, TYPE_BOOLEAN}" and c: "quadr_arg0 tc va = Some c"
  shows "\<exists>q'. quadr_arg tc va q = Some (QA_VAR (length (vars q)), q') \<and> gstep q cs P q' cs P \<and> gen_ready D q' cs P \<and>
    length (vars q') = Suc (length (vars q)) \<and>
    (\<forall>code tgt T st x. agrees q' cs P code tgt T \<longrightarrow> arg_val st c = Some x \<longrightarrow>
       runs M code tgt (length (lin q cs), st) (length (lin q' cs), st\<lparr>s_var := (s_var st)(length (vars q) := x)\<rparr>))"
proof -
  let ?t = "case tc of TYPE_INT \<Rightarrow> type_int | TYPE_DOUBLE \<Rightarrow> type_double | _ \<Rightarrow> type_boolean"
  let ?v = "length (vars q)"
  let ?x = "\<lparr>q_op = Q_COPY, q_result = QA_VAR ?v, q_arg1 = c, q_arg2 = QA_NONE\<rparr>"
  obtain qt where "var_qtype ?t = Some qt" using tc by auto
  then obtain q1 where q1: "new_var ?t q = Some (?v, q1)" "gstep q cs P q1 cs P" "gen_ready D q1 cs P"
    "length (vars q1) = Suc ?v" "lin q1 cs = lin q cs"
    using new_var_view[OF r, of ?t qt] by fastforce
  obtain q2 where q2: "add_quadr (cur_block q1) ?x q1 = Some q2" "gstep q1 cs P q2 cs P" "gen_ready D q2 cs P"
    "vars q2 = vars q1" "lin q2 cs = lin q1 cs @ [?x]"
    using emit_view[OF q1(3), of ?x] by auto
  have "quadr_arg tc va q = Some (QA_VAR ?v, q2)"
    using tc q1(1) q2(1) c by (auto simp: quadr_arg_def new_var_def gen_copy_def)
  moreover have "runs M code tgt (length (lin q cs), st) (length (lin q2 cs), st\<lparr>s_var := (s_var st)(?v := x)\<rparr>)"
    if "agrees q2 cs P code tgt T" "arg_val st c = Some x" for code tgt T x and st :: "'w store"
  proof -
    have "exec_op M ?x st = Some (st\<lparr>s_var := (s_var st)(?v := x)\<rparr>)"
      using that(2) by (simp add: exec_op_def arith_ops_def set_result_def)
    then show ?thesis using runs_op[OF that(1) q2(5)] q1(5) by simp
  qed
  ultimately show ?thesis using q1 q2 gstep_trans[OF q1(2) q2(2)] by (intro exI[of _ q2]) auto
qed

subsection \<open>Constants and variables\<close>

lemma const_ok:
  fixes M :: "'w machine"
  assumes tc: "tc \<in> {TYPE_INT, TYPE_DOUBLE, TYPE_BOOLEAN}" and c: "quadr_arg0 tc va = Some c"
    and e: "\<And>st w. eval M D st e w = Some (x, w)" and x: "\<And>st :: 'w store. arg_val st c = Some x"
  shows "expr_ok M D e (quadr_arg tc va)"
  unfolding expr_ok_def
proof (intro allI impI)
  fix q cs P assume r: "gen_ready D q cs P"
  obtain q' where q': "quadr_arg tc va q = Some (QA_VAR (length (vars q)), q')" "gstep q cs P q' cs P"
    "length (vars q') = Suc (length (vars q))"
    "\<forall>code tgt T st x. agrees q' cs P code tgt T \<longrightarrow> arg_val st c = Some x \<longrightarrow>
       runs M code tgt (length (lin q cs), st) (length (lin q' cs), st\<lparr>s_var := (s_var st)(length (vars q) := x)\<rparr>)"
    using const_view[OF r tc c, of M] by blast
  have "val_code M D e q cs (QA_VAR (length (vars q))) q' cs P"
    unfolding val_code_def
  proof (intro allI impI)
    fix code tgt T and st :: "'w store" and v w'
    assume a: "agrees q' cs P code tgt T" "s_par st = []" "eval M D st e (s_world st) = Some (v, w')"
    have v: "v = x" "w' = s_world st" using a(3) e by simp_all
    have "runs M code tgt (length (lin q cs), st) (length (lin q' cs), st\<lparr>s_var := (s_var st)(length (vars q) := x)\<rparr>)"
      using q'(4) a(1) x by blast
    then show "\<exists>st'. runs M code tgt (length (lin q cs), st) (length (lin q' cs), st') \<and>
        arg_val st' (QA_VAR (length (vars q))) = Some v \<and> same_upto (length (vars q)) st st' \<and> s_par st' = [] \<and> s_world st' = w'"
      using a(2) v by (intro exI[of _ "st\<lparr>s_var := (s_var st)(length (vars q) := x)\<rparr>"]) (simp add: arg_val_def)
  qed
  then show "\<exists>a q' cs' P'. quadr_arg tc va q = Some (a, q') \<and> gstep q cs P q' cs' P' \<and> arg_in a q' \<and>
      val_code M D e q cs a q' cs' P'"
    using q' by (intro exI[of _ "QA_VAR (length (vars q))"] exI[of _ q'] exI[of _ cs] exI[of _ P]) (simp add: arg_in_def)
qed

text \<open>An expression without code of its own.\<close>

lemma no_code_ok:
  fixes M :: "'w machine"
  assumes g: "\<And>q. env_ok D q \<Longrightarrow> g q = Some (a, q) \<and> arg_in a q"
    and e: "\<And>st w v w'. eval M D st e w = Some (v, w') \<Longrightarrow> arg_val st a = Some v \<and> w' = w"
  shows "expr_ok M D e g"
  unfolding expr_ok_def
proof (intro allI impI)
  fix q cs P assume r: "gen_ready D q cs P"
  have "val_code M D e q cs a q cs P"
    unfolding val_code_def
  proof (intro allI impI)
    fix code tgt T and st :: "'w store" and v w'
    assume "s_par st = []" "eval M D st e (s_world st) = Some (v, w')"
    then show "\<exists>st'. runs M code tgt (length (lin q cs), st) (length (lin q cs), st') \<and> arg_val st' a = Some v \<and>
        same_upto (length (vars q)) st st' \<and> s_par st' = [] \<and> s_world st' = w'"
      using e by (intro exI[of _ st]) fastforce
  qed
  then show "\<exists>a q' cs' P'. g q = Some (a, q') \<and> gstep q cs P q' cs' P' \<and> arg_in a q' \<and> val_code M D e q cs a q' cs' P'"
    using g[of q] r gstep_refl[of q cs P] unfolding gen_ready_def by blast
qed

lemma ident_ok:
  assumes "env_types D s = Some t" and "cons t \<noteq> TYPE_FUNC"
  shows "expr_ok M D (IDENT p ty s) (gen_value D (IDENT p ty s))"
proof (cases "sym_var D s")
  case None
  then have "\<not> env_ok D q" for q using env_var[OF _ assms] by auto
  then show ?thesis by (simp add: expr_ok_def gen_ready_def)
next
  case (Some v)
  show ?thesis
    by (rule no_code_ok[where a = "QA_VAR v"]) (auto simp: Some arg_in_def arg_val_def sym_var_bound[OF _ Some])
qed

subsection \<open>Operators\<close>

lemma val_codeD:
  assumes "val_code M D e q cs a q' cs' P'" and "agrees q' cs' P' code tgt T" and "s_par st = []"
    and "eval M D st e (s_world st) = Some (v, w')"
  shows "\<exists>st'. runs M code tgt (length (lin q cs), st) (length (lin q' cs'), st') \<and> arg_val st' a = Some v \<and>
    same_upto (length (vars q)) st st' \<and> s_par st' = [] \<and> s_world st' = w'"
  using assms unfolding val_code_def by blast

lemma val_code2:
  assumes env: "env_ok D q1" and g: "gstep q1 cs1 P1 q2 cs2 P2" "gstep q2 cs2 P2 q3 cs3 P3"
    and l: "val_code M D l q1 cs1 a1 q2 cs2 P2" "arg_in a1 q2" and r: "val_code M D r q2 cs2 a2 q3 cs3 P3"
    and a: "agrees q3 cs3 P3 code tgt T" "s_par st = []"
    and e: "eval M D st l (s_world st) = Some (x, w1)" "eval M D st r w1 = Some (y, w2)"
  shows "\<exists>st'. runs M code tgt (length (lin q1 cs1), st) (length (lin q3 cs3), st') \<and>
    arg_val st' a1 = Some x \<and> arg_val st' a2 = Some y \<and> same_upto (length (vars q1)) st st' \<and>
    s_par st' = [] \<and> s_world st' = w2"
proof -
  obtain st1 where st1: "runs M code tgt (length (lin q1 cs1), st) (length (lin q2 cs2), st1)" "arg_val st1 a1 = Some x"
    "same_upto (length (vars q1)) st st1" "s_par st1 = []" "s_world st1 = w1"
    using val_codeD[OF l(1) gstepD(6)[OF g(2) a(1)] a(2) e(1)] by blast
  have "eval M D st1 r (s_world st1) = Some (y, w2)" using eval_same(1)[OF env st1(3)] e(2) st1(5) by simp
  then obtain st2 where st2: "runs M code tgt (length (lin q2 cs2), st1) (length (lin q3 cs3), st2)" "arg_val st2 a2 = Some y"
    "same_upto (length (vars q2)) st1 st2" "s_par st2 = []" "s_world st2 = w2"
    using val_codeD[OF r a(1) st1(4)] by blast
  have "arg_val st2 a1 = Some x" using arg_val_same[OF st2(3) l(2)] st1(2) by simp
  then show ?thesis
    using runs_trans[OF st1(1) st2(1)] st2 same_upto_trans[OF st1(3) st2(3) gstepD(4)[OF g(1)]] by blast
qed

lemma binop_arith:
  "binop_op nt = Some op \<Longrightarrow> arith M op x y = node_arith M nt x y"
  by (cases nt; cases x; cases y) auto

lemma cmp_op_iff: "is_cmp_op nt \<longleftrightarrow> nt \<in> cmp_nodes"
  by (cases nt) (simp_all add: is_cmp_op_def)

lemma binop_ok:
  fixes M :: "'w machine"
  assumes l: "value_ok M D l" and r: "value_ok M D r" and op: "binop_op nt = Some op" and t: "storable t"
    and nt: "nt \<notin> {NODE_AND, NODE_OR}" "\<not> is_cmp_op nt"
  shows "expr_ok M D (BINARY nt p (Some t) l r) (gen_value D (BINARY nt p (Some t) l r))"
  unfolding expr_ok_def
proof (intro allI impI)
  fix q cs P assume rd: "gen_ready D q cs P"
  let ?v = "length (vars q)" and ?e = "BINARY nt p (Some t) l r"
  have ops: "op \<in> arith_ops" "\<not> is_block_end op" "\<not> is_if_op op" "op \<noteq> Q_GOTO"
    using op by (cases nt; auto simp: arith_ops_def)+
  obtain q1 where q1: "new_var t q = Some (?v, q1)" "gstep q cs P q1 cs P" "gen_ready D q1 cs P"
    "length (vars q1) = Suc ?v" "lin q1 cs = lin q cs"
    using storable_qtype[OF t] new_var_view[OF rd, of t] by fastforce
  obtain a1 q2 cs2 P2 where q2: "gen_quadr_expr D l q1 = Some (a1, q2)" "gstep q1 cs P q2 cs2 P2" "gen_ready D q2 cs2 P2"
    "arg_in a1 q2" "val_code M D l q1 cs a1 q2 cs2 P2" using expr_okD[OF l q1(3)] by blast
  obtain a2 q3 cs3 P3 where q3: "gen_quadr_expr D r q2 = Some (a2, q3)" "gstep q2 cs2 P2 q3 cs3 P3" "gen_ready D q3 cs3 P3"
    "val_code M D r q2 cs2 a2 q3 cs3 P3" using expr_okD[OF r q2(3)] by blast
  let ?x = "\<lparr>q_op = op, q_result = QA_VAR ?v, q_arg1 = a1, q_arg2 = a2\<rparr>"
  obtain q4 where q4: "add_quadr (cur_block q3) ?x q3 = Some q4" "gstep q3 cs3 P3 q4 cs3 P3" "vars q4 = vars q3"
    "lin q4 cs3 = lin q3 cs3 @ [?x]"
    using emit_view[OF q3(3), of ?x] ops(2) by auto
  have g: "gstep q cs P q4 cs3 P3" by (rule gstep_trans[OF q1(2) gstep_trans[OF q2(2) gstep_trans[OF q3(2) q4(2)]]])
  have run: "gen_value D ?e q = Some (QA_VAR ?v, q4)" using op q1(1) q2(1) q3(1) q4(1) by simp
  have "val_code M D ?e q cs (QA_VAR ?v) q4 cs3 P3"
    unfolding val_code_def
  proof (intro allI impI)
    fix code tgt T and st :: "'w store" and v w'
    assume a: "agrees q4 cs3 P3 code tgt T" "s_par st = []" "eval M D st ?e (s_world st) = Some (v, w')"
    obtain x w1 y z where e: "eval M D st l (s_world st) = Some (x, w1)" "eval M D st r w1 = Some (y, w')"
      "arith M op x y = Some v"
      using a(3) nt unfolding cmp_op_iff by (auto simp: binop_arith[OF op] bind_eq_Some_conv split: if_splits)
    obtain st2 where st2: "runs M code tgt (length (lin q1 cs), st) (length (lin q3 cs3), st2)" "arg_val st2 a1 = Some x"
      "arg_val st2 a2 = Some y" "same_upto (length (vars q1)) st st2" "s_par st2 = []" "s_world st2 = w'"
      using val_code2[OF _ q2(2) q3(2) q2(5,4) q3(4) gstepD(6)[OF q4(2) a(1)] a(2) e(1,2)] q1(3)
      by (auto simp: gen_ready_def)
    let ?st = "st2\<lparr>s_var := (s_var st2)(?v := v)\<rparr>"
    have "exec_op M ?x st2 = Some ?st" using st2(2,3) e(3) ops(1) by (simp add: exec_op_def set_result_def)
    then have "runs M code tgt (length (lin q3 cs3), st2) (length (lin q4 cs3), ?st)"
      using runs_op[OF a(1) q4(4)] ops(3,4) by simp
    then have "runs M code tgt (length (lin q cs), st) (length (lin q4 cs3), ?st)"
      using runs_trans[OF st2(1)] q1(5) by simp
    moreover have "same_upto ?v st ?st" using st2(4) q1(4) by (simp add: same_upto_def)
    ultimately show "\<exists>st'. runs M code tgt (length (lin q cs), st) (length (lin q4 cs3), st') \<and>
        arg_val st' (QA_VAR ?v) = Some v \<and> same_upto ?v st st' \<and> s_par st' = [] \<and> s_world st' = w'"
      using st2(5,6) by (intro exI[of _ ?st]) (simp add: arg_val_def)
  qed
  moreover have "arg_in (QA_VAR ?v) q4"
    using gstepD(4)[OF q2(2)] gstepD(4)[OF q3(2)] q1(4) q4(3) by (simp add: arg_in_def)
  ultimately show "\<exists>a q' cs' P'. gen_value D ?e q = Some (a, q') \<and> gstep q cs P q' cs' P' \<and> arg_in a q' \<and>
      val_code M D ?e q cs a q' cs' P'"
    using run g by blast
qed

lemma int_neg_undefined: "gen_value D (UNARY NODE_NEG p (Some type_int) a) q = None"
  by (cases "new_var type_int q") (auto simp: quadr_arg_def quadr_arg0_def)

lemma neg_ok:
  fixes M :: "'w machine"
  assumes l: "value_ok M D a" and t: "t = type_double"
  shows "expr_ok M D (UNARY NODE_NEG p (Some t) a) (gen_value D (UNARY NODE_NEG p (Some t) a))"
  unfolding expr_ok_def
proof (intro allI impI)
  fix q cs P assume rd: "gen_ready D q cs P"
  let ?v = "length (vars q)" and ?e = "UNARY NODE_NEG p (Some t) a"
  let ?z = "VDbl 0"
  have tt: "storable t" "cons t \<in> {TYPE_INT, TYPE_DOUBLE, TYPE_BOOLEAN}" using t by (auto simp: storable_def)
  obtain c where c: "quadr_arg0 (cons t) (VA_DOUBLE 0) = Some c" "\<And>st :: 'w store. arg_val st c = Some ?z"
    using t by (auto simp: quadr_arg0_def arg_val_def)
  obtain q1 where q1: "new_var t q = Some (?v, q1)" "gstep q cs P q1 cs P" "gen_ready D q1 cs P"
    "length (vars q1) = Suc ?v" "lin q1 cs = lin q cs"
    using storable_qtype[OF tt(1)] new_var_view[OF rd, of t] by fastforce
  obtain q2 where q2: "quadr_arg (cons t) (VA_DOUBLE 0) q1 = Some (QA_VAR (Suc ?v), q2)" "gstep q1 cs P q2 cs P"
    "gen_ready D q2 cs P" "length (vars q2) = Suc (Suc ?v)"
    "\<forall>code tgt T (st :: 'w store) x. agrees q2 cs P code tgt T \<longrightarrow> arg_val st c = Some x \<longrightarrow>
       runs M code tgt (length (lin q1 cs), st) (length (lin q2 cs), st\<lparr>s_var := (s_var st)(Suc ?v := x)\<rparr>)"
    using const_view[OF q1(3) tt(2) c(1), of M] q1(4) by auto
  obtain a2 q3 cs3 P3 where q3: "gen_quadr_expr D a q2 = Some (a2, q3)" "gstep q2 cs P q3 cs3 P3" "gen_ready D q3 cs3 P3"
    "val_code M D a q2 cs a2 q3 cs3 P3" using expr_okD[OF l q2(3)] by blast
  let ?x = "\<lparr>q_op = Q_SUB, q_result = QA_VAR ?v, q_arg1 = QA_VAR (Suc ?v), q_arg2 = a2\<rparr>"
  obtain q4 where q4: "add_quadr (cur_block q3) ?x q3 = Some q4" "gstep q3 cs3 P3 q4 cs3 P3" "vars q4 = vars q3"
    "lin q4 cs3 = lin q3 cs3 @ [?x]"
    using emit_view[OF q3(3), of ?x] by auto
  have g: "gstep q cs P q4 cs3 P3" by (rule gstep_trans[OF q1(2) gstep_trans[OF q2(2) gstep_trans[OF q3(2) q4(2)]]])
  have run: "gen_value D ?e q = Some (QA_VAR ?v, q4)" using q1(1) q2(1) q3(1) q4(1) by simp
  have "val_code M D ?e q cs (QA_VAR ?v) q4 cs3 P3"
    unfolding val_code_def
  proof (intro allI impI)
    fix code tgt T and st :: "'w store" and v w'
    assume ag: "agrees q4 cs3 P3 code tgt T" "s_par st = []" "eval M D st ?e (s_world st) = Some (v, w')"
    obtain y where e: "eval M D st a (s_world st) = Some (y, w')" "arith M Q_SUB ?z y = Some v"
    proof -
      obtain y where y: "eval M D st a (s_world st) = Some (y, w')" "node_neg M (Some t) y = Some v"
        using ag(3) by (auto simp: bind_eq_Some_conv)
      then show ?thesis using that[OF y(1)] t by (cases y) (auto split: if_splits)
    qed
    let ?st1 = "st\<lparr>s_var := (s_var st)(Suc ?v := ?z)\<rparr>"
    have a3: "agrees q3 cs3 P3 code tgt T" using gstepD(6)[OF q4(2) ag(1)] .
    have r1: "runs M code tgt (length (lin q1 cs), st) (length (lin q2 cs), ?st1)"
      using q2(5) gstepD(6)[OF q3(2) a3] c(2) by blast
    have s1: "same_upto ?v st ?st1" by simp
    have "eval M D ?st1 a (s_world ?st1) = Some (y, w')"
      using eval_same(1)[of D q st ?st1 M a] s1 rd e(1) by (simp add: gen_ready_def)
    then obtain st2 where st2: "runs M code tgt (length (lin q2 cs), ?st1) (length (lin q3 cs3), st2)" "arg_val st2 a2 = Some y"
      "same_upto (length (vars q2)) ?st1 st2" "s_par st2 = []" "s_world st2 = w'"
      using val_codeD[OF q3(4) a3, of ?st1] ag(2) by auto
    have z: "arg_val st2 (QA_VAR (Suc ?v)) = Some ?z" using st2(3) q2(4) by (simp add: arg_val_def same_upto_def)
    let ?st = "st2\<lparr>s_var := (s_var st2)(?v := v)\<rparr>"
    have "exec_op M ?x st2 = Some ?st" using st2(2) z e(2) by (simp add: exec_op_def arith_ops_def set_result_def)
    then have "runs M code tgt (length (lin q3 cs3), st2) (length (lin q4 cs3), ?st)"
      using runs_op[OF ag(1) q4(4)] by simp
    then have "runs M code tgt (length (lin q cs), st) (length (lin q4 cs3), ?st)"
      using runs_trans[OF runs_trans[OF r1 st2(1)]] q1(5) by simp
    moreover have "same_upto ?v st ?st" using st2(3) q2(4) by (simp add: same_upto_def)
    ultimately show "\<exists>st'. runs M code tgt (length (lin q cs), st) (length (lin q4 cs3), st') \<and>
        arg_val st' (QA_VAR ?v) = Some v \<and> same_upto ?v st st' \<and> s_par st' = [] \<and> s_world st' = w'"
      using st2(4,5) by (intro exI[of _ ?st]) (simp add: arg_val_def)
  qed
  moreover have "arg_in (QA_VAR ?v) q4"
    using gstepD(4)[OF q3(2)] q2(4) q4(3) by (simp add: arg_in_def)
  ultimately show "\<exists>a q' cs' P'. gen_value D ?e q = Some (a, q') \<and> gstep q cs P q' cs' P' \<and> arg_in a q' \<and>
      val_code M D ?e q cs a q' cs' P'"
    using run g by blast
qed

lemma plus_ok:
  assumes "value_ok M D a"
  shows "expr_ok M D (UNARY NODE_PLUS p ty a) (gen_value D (UNARY NODE_PLUS p ty a))"
proof -
  have e: "eval M D st (UNARY NODE_PLUS p ty a) w = eval M D st a w" for st w
    by (cases "eval M D st a w") auto
  have "val_code M D (UNARY NODE_PLUS p ty a) = val_code M D a" by (simp only: val_code_def[abs_def] e)
  moreover have "gen_value D (UNARY NODE_PLUS p ty a) = gen_quadr_expr D a" by (simp add: fun_eq_iff)
  ultimately show ?thesis using assms by (simp add: expr_ok_def)
qed

subsection \<open>Arrays\<close>

lemma get_addr_view:
  fixes M :: "'w machine"
  assumes rd: "gen_ready D q cs P" and v: "var_ok q (array_type p b n) v"
  shows "\<exists>q'. gen_get_addr v q = Some (length (vars q), q') \<and> gstep q cs P q' cs P \<and> gen_ready D q' cs P \<and>
    length (vars q') = Suc (length (vars q)) \<and>
    (\<forall>code tgt T (st :: 'w store). agrees q' cs P code tgt T \<longrightarrow>
       runs M code tgt (length (lin q cs), st)
         (length (lin q' cs), st\<lparr>s_var := (s_var st)(length (vars q) := VPtr v)\<rparr>))"
proof -
  let ?t = "array_type p b n" and ?p = "length (vars q)"
  have v': "v < ?p" "v_type (vars q ! v) = ?t" "v_qtype (vars q ! v) = VT_ARRAY"
    using v by (auto simp: var_ok_def)
  obtain q1 where q1: "new_var ?t q = Some (?p, q1)" "gstep q cs P q1 cs P" "gen_ready D q1 cs P"
    "vars q1 = vars q @ [\<lparr>v_type = ?t, v_loc = None, v_size = -1, v_live = False, v_qtype = VT_ARRAY\<rparr>]" "lin q1 cs = lin q cs"
    using new_var_view[OF rd, of ?t VT_ARRAY] by auto
  let ?q = "q1\<lparr>vars := (vars q1)[?p := (vars q1 ! ?p)\<lparr>v_qtype := VT_PTR\<rparr>]\<rparr>"
  have s: "same_blocks q1 ?q" by (simp add: same_blocks_def)
  have "fun_ok ?q cs" using q1(3) by (auto simp: gen_ready_def layout_def placed_ok_def fun_ok_def)
  then have lay: "layout ?q cs P" using same_blocks_layout[OF s] q1(3) by (auto simp: gen_ready_def)
  have vars: "\<exists>ys. vars ?q = vars q @ ys" "length (vars ?q) = Suc ?p" using q1(4) by (simp_all add: list_update_append)
  have gq: "gstep q cs P ?q cs P"
    using q1(2,3) lay vars(1) same_blocks_views[OF s] same_blocks_qs[OF s]
    by (simp add: gstep_def step0_def gen_ready_def)
  have rq: "gen_ready D ?q cs P" by (rule gen_ready_step[OF rd gq])
  let ?x = "\<lparr>q_op = Q_GET_ADDR, q_result = QA_VAR ?p, q_arg1 = QA_VAR v, q_arg2 = QA_NONE\<rparr>"
  obtain q2 where q2: "add_quadr (cur_block ?q) ?x ?q = Some q2" "gstep ?q cs P q2 cs P" "gen_ready D q2 cs P"
    "vars q2 = vars ?q" "lin q2 cs = lin ?q cs @ [?x]"
    using emit_view[OF rq, of ?x] by auto
  have "gen_get_addr v q = Some (?p, q2)"
    using v' q1(1) q2(1) by (simp add: gen_get_addr_def new_var_def)
  moreover have "runs M code tgt (length (lin q cs), st) (length (lin q2 cs), st\<lparr>s_var := (s_var st)(?p := VPtr v)\<rparr>)"
    if "agrees q2 cs P code tgt T" for code tgt T and st :: "'w store"
  proof -
    have "exec_op M ?x st = Some (st\<lparr>s_var := (s_var st)(?p := VPtr v)\<rparr>)"
      by (simp add: exec_op_def arith_ops_def set_result_def)
    then show ?thesis using runs_op[OF that q2(5)] q1(5) same_blocks_views(1)[OF s] by simp
  qed
  ultimately show ?thesis using gstep_trans[OF gq q2(2)] q2(3,4) vars(2) by (intro exI[of _ q2]) simp
qed

lemma array_ok:
  fixes M :: "'w machine"
  assumes l: "value_ok M D i" and s: "env_types D s = Some (array_type p0 b n)"
  shows "expr_ok M D (ARRAY p ty s i) (gen_value D (ARRAY p ty s i))"
  unfolding expr_ok_def
proof (intro allI impI)
  fix q cs P assume rd: "gen_ready D q cs P"
  let ?v = "length (vars q)" and ?e = "ARRAY p ty s i"
  have env: "env_ok D q" using rd by (simp add: gen_ready_def)
  obtain v where v: "sym_var D s = Some v" "var_ok q (array_type p0 b n) v" using env_var[OF env s] by auto
  have b: "storable b" using env_array[OF env s] .
  obtain q1 where q1: "new_var b q = Some (?v, q1)" "gstep q cs P q1 cs P" "gen_ready D q1 cs P"
    "length (vars q1) = Suc ?v" "lin q1 cs = lin q cs"
    using storable_qtype[OF b] new_var_view[OF rd, of b] by fastforce
  obtain a q2 cs2 P2 where q2: "gen_quadr_expr D i q1 = Some (a, q2)" "gstep q1 cs P q2 cs2 P2" "gen_ready D q2 cs2 P2"
    "arg_in a q2" "val_code M D i q1 cs a q2 cs2 P2" using expr_okD[OF l q1(3)] by blast
  have n2: "Suc ?v \<le> length (vars q2)" using gstepD(4)[OF q2(2)] q1(4) by simp
  have "var_ok q2 (array_type p0 b n) v"
    using v(2) var_ok_more gstepD(2)[OF gstep_trans[OF q1(2) q2(2)]] by blast
  then obtain q3 where q3: "gen_get_addr v q2 = Some (length (vars q2), q3)" "gstep q2 cs2 P2 q3 cs2 P2" "gen_ready D q3 cs2 P2"
    "length (vars q3) = Suc (length (vars q2))"
    "\<forall>code tgt T (st :: 'w store). agrees q3 cs2 P2 code tgt T \<longrightarrow> runs M code tgt (length (lin q2 cs2), st)
         (length (lin q3 cs2), st\<lparr>s_var := (s_var st)(length (vars q2) := VPtr v)\<rparr>)"
    using get_addr_view[OF q2(3), of p0 b n v M] by blast
  let ?x = "\<lparr>q_op = Q_READ_PTR, q_result = QA_VAR ?v, q_arg1 = QA_VAR (length (vars q2)), q_arg2 = a\<rparr>"
  obtain q4 where q4: "add_quadr (cur_block q3) ?x q3 = Some q4" "gstep q3 cs2 P2 q4 cs2 P2" "vars q4 = vars q3"
    "lin q4 cs2 = lin q3 cs2 @ [?x]"
    using emit_view[OF q3(3), of ?x] by auto
  have g: "gstep q cs P q4 cs2 P2" by (rule gstep_trans[OF q1(2) gstep_trans[OF q2(2) gstep_trans[OF q3(2) q4(2)]]])
  have run: "gen_value D ?e q = Some (QA_VAR ?v, q4)"
    using v q1(1) q2(1) q3(1) q4(1) by (auto simp: var_ok_def gen_read_ptr_def)
  have "val_code M D ?e q cs (QA_VAR ?v) q4 cs2 P2"
    unfolding val_code_def
  proof (intro allI impI)
    fix code tgt T and st :: "'w store" and x w'
    assume ag: "agrees q4 cs2 P2 code tgt T" "s_par st = []" "eval M D st ?e (s_world st) = Some (x, w')"
    obtain k where e: "eval M D st i (s_world st) = Some (VInt k, w')" "s_arr st v k = Some x"
    proof -
      obtain y w1 where y: "eval M D st i (s_world st) = Some (y, w1)"
        "(case y of VInt k \<Rightarrow> do { x \<leftarrow> s_arr st v k; Some (x, w1) } | _ \<Rightarrow> None) = Some (x, w')"
        using ag(3) v(1) by auto
      then show ?thesis using that by (cases y) auto
    qed
    have a3: "agrees q3 cs2 P2 code tgt T" using gstepD(6)[OF q4(2) ag(1)] .
    obtain st1 where st1: "runs M code tgt (length (lin q1 cs), st) (length (lin q2 cs2), st1)" "arg_val st1 a = Some (VInt k)"
      "same_upto (length (vars q1)) st st1" "s_par st1 = []" "s_world st1 = w'"
      using val_codeD[OF q2(5) gstepD(6)[OF q3(2) a3] ag(2) e(1)] by blast
    let ?st2 = "st1\<lparr>s_var := (s_var st1)(length (vars q2) := VPtr v)\<rparr>"
    let ?st = "?st2\<lparr>s_var := (s_var ?st2)(?v := x)\<rparr>"
    have r2: "runs M code tgt (length (lin q2 cs2), st1) (length (lin q3 cs2), ?st2)" using q3(5) a3 by blast
    have "arg_val ?st2 a = Some (VInt k)" using arg_val_same[OF _ q2(4), of st1 ?st2] st1(2) by simp
    moreover have "s_arr ?st2 v k = Some x" using st1(3) e(2) by (simp add: same_upto_def)
    ultimately have "exec_op M ?x ?st2 = Some ?st"
      by (simp add: exec_op_def arith_ops_def) (simp add: arg_val_def set_result_def)
    then have "runs M code tgt (length (lin q3 cs2), ?st2) (length (lin q4 cs2), ?st)"
      using runs_op[OF ag(1) q4(4)] by simp
    then have "runs M code tgt (length (lin q cs), st) (length (lin q4 cs2), ?st)"
      using runs_trans[OF runs_trans[OF st1(1) r2]] q1(5) by simp
    moreover have "same_upto ?v st ?st" using st1(3) q1(4) n2 by (simp add: same_upto_def)
    ultimately show "\<exists>st'. runs M code tgt (length (lin q cs), st) (length (lin q4 cs2), st') \<and>
        arg_val st' (QA_VAR ?v) = Some x \<and> same_upto ?v st st' \<and> s_par st' = [] \<and> s_world st' = w'"
      using st1(4,5) by (intro exI[of _ ?st]) (simp add: arg_val_def)
  qed
  moreover have "arg_in (QA_VAR ?v) q4" using n2 q3(4) q4(3) by (simp add: arg_in_def)
  ultimately show "\<exists>a q' cs' P'. gen_value D ?e q = Some (a, q') \<and> gstep q cs P q' cs' P' \<and> arg_in a q' \<and>
      val_code M D ?e q cs a q' cs' P'"
    using run g by blast
qed

subsection \<open>Calls\<close>

lemma args_ok:
  fixes M :: "'w machine"
  assumes "\<forall>a \<in> set as. value_ok M D (snd a)" and "gen_ready D q cs P"
  shows "\<exists>xs q' cs' P'. gen_args D as ps q = Some (rev xs @ ps, q') \<and> gstep q cs P q' cs' P' \<and> gen_ready D q' cs' P' \<and>
    (\<forall>x \<in> set xs. arg_in x q') \<and> args_code M D as q cs xs q' cs' P'"
  using assms
proof (induction as arbitrary: q cs P ps)
  case Nil
  have "args_code M D [] q cs [] q cs P"
    unfolding args_code_def
  proof (intro allI impI)
    fix code tgt T and st :: "'w store" and vs w'
    assume "s_par st = []" "eval_args M D st [] (s_world st) = Some (vs, w')"
    then show "\<exists>st'. runs M code tgt (length (lin q cs), st) (length (lin q cs), st') \<and>
        map (arg_val st') [] = map Some vs \<and> same_upto (length (vars q)) st st' \<and> s_par st' = [] \<and> s_world st' = w'"
      by (intro exI[of _ st]) simp
  qed
  then show ?case using Nil(2) gstep_refl[of q cs P] by (intro exI[of _ "[]"]) (auto simp: gen_ready_def)
next
  case (Cons pe as)
  obtain p e where pe: "pe = (p, e)" by (cases pe)
  have ok: "value_ok M D e" "\<forall>a \<in> set as. value_ok M D (snd a)" using Cons.prems(1) pe by auto
  obtain a q1 cs1 P1 where q1: "gen_quadr_expr D e q = Some (a, q1)" "gstep q cs P q1 cs1 P1" "gen_ready D q1 cs1 P1"
    "arg_in a q1" "val_code M D e q cs a q1 cs1 P1" using expr_okD[OF ok(1) Cons.prems(2)] by blast
  obtain xs q2 cs2 P2 where q2: "gen_args D as (a # ps) q1 = Some (rev xs @ a # ps, q2)" "gstep q1 cs1 P1 q2 cs2 P2"
    "gen_ready D q2 cs2 P2" "\<forall>x \<in> set xs. arg_in x q2" "args_code M D as q1 cs1 xs q2 cs2 P2"
    using Cons.IH[OF ok(2) q1(3)] by blast
  have "args_code M D (pe # as) q cs (a # xs) q2 cs2 P2"
    unfolding args_code_def
  proof (intro allI impI)
    fix code tgt T and st :: "'w store" and vs w'
    assume ag: "agrees q2 cs2 P2 code tgt T" "s_par st = []" "eval_args M D st (pe # as) (s_world st) = Some (vs, w')"
    obtain v w1 us where e: "eval M D st e (s_world st) = Some (v, w1)" "eval_args M D st as w1 = Some (us, w')" "vs = v # us"
      using ag(3) pe by auto
    obtain st1 where st1: "runs M code tgt (length (lin q cs), st) (length (lin q1 cs1), st1)" "arg_val st1 a = Some v"
      "same_upto (length (vars q)) st st1" "s_par st1 = []" "s_world st1 = w1"
      using val_codeD[OF q1(5) gstepD(6)[OF q2(2) ag(1)] ag(2) e(1)] by blast
    have "eval_args M D st1 as (s_world st1) = Some (us, w')"
      using eval_same(2)[of D q st st1 M as] st1(3,5) Cons.prems(2) e(2) by (simp add: gen_ready_def)
    then obtain st2 where st2: "runs M code tgt (length (lin q1 cs1), st1) (length (lin q2 cs2), st2)"
      "map (arg_val st2) xs = map Some us" "same_upto (length (vars q1)) st1 st2" "s_par st2 = []" "s_world st2 = w'"
      using q2(5) ag(1) st1(4) unfolding args_code_def by blast
    have "arg_val st2 a = Some v" using arg_val_same[OF st2(3) q1(4)] st1(2) by simp
    then show "\<exists>st'. runs M code tgt (length (lin q cs), st) (length (lin q2 cs2), st') \<and>
        map (arg_val st') (a # xs) = map Some vs \<and> same_upto (length (vars q)) st st' \<and> s_par st' = [] \<and> s_world st' = w'"
      using runs_trans[OF st1(1) st2(1)] st2(2,4,5) same_upto_trans[OF st1(3) st2(3) gstepD(4)[OF q1(2)]] e(3)
      by (intro exI[of _ st2]) simp
  qed
  then show ?case
    using q1 q2 gstep_trans[OF q1(2) q2(2)] arg_in_step[OF q1(4) q2(2)] pe
    by (intro exI[of _ "a # xs"] exI[of _ q2] exI[of _ cs2] exI[of _ P2]) simp
qed

lemma params_view:
  fixes M :: "'w machine"
  assumes "gen_ready D q cs P"
  shows "\<exists>q'. add_params xs q = Some q' \<and> gstep q cs P q' cs P \<and> gen_ready D q' cs P \<and> vars q' = vars q \<and>
    (\<forall>code tgt T (st :: 'w store) vs. agrees q' cs P code tgt T \<longrightarrow> map (arg_val st) xs = map Some vs \<longrightarrow>
       runs M code tgt (length (lin q cs), st) (length (lin q' cs), st\<lparr>s_par := rev vs @ s_par st\<rparr>))"
  using assms
proof (induction xs arbitrary: q)
  case Nil
  then show ?case using gstep_refl[of q cs P] by (auto simp: gen_ready_def)
next
  case (Cons a xs)
  let ?x = "\<lparr>q_op = Q_PARAM, q_result = QA_NONE, q_arg1 = a, q_arg2 = QA_NONE\<rparr>"
  obtain q1 where q1: "add_quadr (cur_block q) ?x q = Some q1" "gstep q cs P q1 cs P" "gen_ready D q1 cs P"
    "vars q1 = vars q" "lin q1 cs = lin q cs @ [?x]"
    using emit_view[OF Cons.prems, of ?x] by auto
  obtain q2 where q2: "add_params xs q1 = Some q2" "gstep q1 cs P q2 cs P" "gen_ready D q2 cs P" "vars q2 = vars q1"
    "\<forall>code tgt T (st :: 'w store) vs. agrees q2 cs P code tgt T \<longrightarrow> map (arg_val st) xs = map Some vs \<longrightarrow>
       runs M code tgt (length (lin q1 cs), st) (length (lin q2 cs), st\<lparr>s_par := rev vs @ s_par st\<rparr>)"
    using Cons.IH[OF q1(3)] by blast
  have "runs M code tgt (length (lin q cs), st) (length (lin q2 cs), st\<lparr>s_par := rev vs @ s_par st\<rparr>)"
    if ag: "agrees q2 cs P code tgt T" and m: "map (arg_val st) (a # xs) = map Some vs"
    for code tgt T and st :: "'w store" and vs
  proof -
    obtain v us where vs: "vs = v # us" "arg_val st a = Some v" "map (arg_val st) xs = map Some us"
      using m by (cases vs) auto
    let ?st = "st\<lparr>s_par := v # s_par st\<rparr>"
    have "exec_op M ?x st = Some ?st" using vs(2) by (simp add: exec_op_def arith_ops_def)
    then have r1: "runs M code tgt (length (lin q cs), st) (length (lin q1 cs), ?st)"
      using runs_op[OF gstepD(6)[OF q2(2) ag] q1(5)] by simp
    have "arg_val ?st = arg_val st" by (simp add: fun_eq_iff arg_val_def split: quadr_arg_t.splits)
    then have "runs M code tgt (length (lin q1 cs), ?st) (length (lin q2 cs), ?st\<lparr>s_par := rev us @ s_par ?st\<rparr>)"
      using q2(5) ag vs(3) by metis
    then show ?thesis using runs_trans[OF r1] vs(1) by simp
  qed
  then show ?case using q1 q2 gstep_trans[OF q1(2) q2(2)] by (intro exI[of _ q2]) simp
qed

lemma call_view:
  fixes M :: "'w machine"
  assumes as: "\<forall>a \<in> set as. value_ok M D (snd a)" and s: "env_types D s = Some (func_type p0 t n ts)"
    and rd: "gen_ready D q cs P"
  shows "\<exists>a q' cs' P'. gen_call D s (Some t) as q = Some (a, q') \<and> gstep q cs P q' cs' P' \<and> gen_ready D q' cs' P' \<and>
    arg_in a q' \<and>
    (\<forall>code tgt T (st :: 'w store) vs w1 f r w2. agrees q' cs' P' code tgt T \<longrightarrow> s_par st = [] \<longrightarrow>
       eval_args M D st as (s_world st) = Some (vs, w1) \<longrightarrow> sym_func D s = Some f \<longrightarrow> m_call M f vs w1 = Some (r, w2) \<longrightarrow>
       (\<exists>st'. runs M code tgt (length (lin q cs), st) (length (lin q' cs'), st') \<and>
          arg_val st' a = Some (if t = type_void then VVoid else r) \<and>
          same_upto (length (vars q)) st st' \<and> s_par st' = [] \<and> s_world st' = w2))"
proof -
  obtain f where f: "sym_func D s = Some f" "storable t \<or> t = type_void"
    using env_func[OF _ s] rd by (auto simp: gen_ready_def)
  obtain xs q1 cs1 P1 where q1: "gen_args D as [] q = Some (rev xs, q1)" "gstep q cs P q1 cs1 P1" "gen_ready D q1 cs1 P1"
    "\<forall>x \<in> set xs. arg_in x q1" "args_code M D as q cs xs q1 cs1 P1"
    using args_ok[OF as rd, of "[]"] by auto
  obtain q2 where q2: "add_params (rev xs) q1 = Some q2" "gstep q1 cs1 P1 q2 cs1 P1" "gen_ready D q2 cs1 P1" "vars q2 = vars q1"
    "\<forall>code tgt T (st :: 'w store) vs. agrees q2 cs1 P1 code tgt T \<longrightarrow> map (arg_val st) (rev xs) = map Some vs \<longrightarrow>
       runs M code tgt (length (lin q1 cs1), st) (length (lin q2 cs1), st\<lparr>s_par := rev vs @ s_par st\<rparr>)"
    using params_view[OF q1(3), of "rev xs" M] by blast
  let ?r = "if t = type_void then QA_NONE else QA_VAR (length (vars q2))"
  obtain q3 where q3: "(if t \<noteq> type_void then do { (v, q) \<leftarrow> new_var t q2; Some (QA_VAR v, q) } else Some (QA_NONE, q2)) = Some (?r, q3)"
    "gstep q2 cs1 P1 q3 cs1 P1" "gen_ready D q3 cs1 P1" "lin q3 cs1 = lin q2 cs1" "arg_in ?r q3"
  proof (cases "t = type_void")
    case True
    then show ?thesis using that[of q2] q2(3) gstep_refl[of q2 cs1 P1] by (simp add: gen_ready_def arg_in_def)
  next
    case False
    then obtain qt where "var_qtype t = Some qt" using f(2) storable_qtype by blast
    then show ?thesis using that new_var_view[OF q2(3), of t qt] False by (auto simp: arg_in_def)
  qed
  let ?x = "\<lparr>q_op = Q_CALL, q_result = ?r, q_arg1 = QA_FUNC f, q_arg2 = QA_NONE\<rparr>"
  obtain q4 where q4: "add_quadr (cur_block q3) ?x q3 = Some q4" "gstep q3 cs1 P1 q4 cs1 P1" "gen_ready D q4 cs1 P1"
    "vars q4 = vars q3" "lin q4 cs1 = lin q3 cs1 @ [?x]"
    using emit_view[OF q3(3), of ?x] by auto
  have g: "gstep q cs P q4 cs1 P1" by (rule gstep_trans[OF q1(2) gstep_trans[OF q2(2) gstep_trans[OF q3(2) q4(2)]]])
  have "emit_call D s (Some t) (rev xs) q1 = Some (?r, q4)"
    unfolding emit_call_def q2(1) f(1) using q3(1) q4(1) by simp
  then have run: "gen_call D s (Some t) as q = Some (?r, q4)" using q1(1) by simp
  have "\<exists>st'. runs M code tgt (length (lin q cs), st) (length (lin q4 cs1), st') \<and>
      arg_val st' ?r = Some (if t = type_void then VVoid else r) \<and>
      same_upto (length (vars q)) st st' \<and> s_par st' = [] \<and> s_world st' = w2"
    if ag: "agrees q4 cs1 P1 code tgt T" "s_par st = []" "eval_args M D st as (s_world st) = Some (vs, w1)"
      "m_call M f vs w1 = Some (r, w2)" for code tgt T and st :: "'w store" and vs w1 r w2
  proof -
    have a2: "agrees q2 cs1 P1 code tgt T" using gstepD(6)[OF q3(2) gstepD(6)[OF q4(2) ag(1)]] .
    obtain st1 where st1: "runs M code tgt (length (lin q cs), st) (length (lin q1 cs1), st1)"
      "map (arg_val st1) xs = map Some vs" "same_upto (length (vars q)) st st1" "s_par st1 = []" "s_world st1 = w1"
      using q1(5) gstepD(6)[OF q2(2) a2] ag(2,3) unfolding args_code_def by blast
    have "map (arg_val st1) (rev xs) = map Some (rev vs)" using st1(2) by (simp flip: rev_map)
    then have r2: "runs M code tgt (length (lin q1 cs1), st1) (length (lin q2 cs1), st1\<lparr>s_par := vs\<rparr>)"
      using q2(5) a2 st1(4) by fastforce
    let ?st2 = "st1\<lparr>s_par := [], s_world := w2\<rparr>"
    let ?st = "if t = type_void then ?st2 else ?st2\<lparr>s_var := (s_var st1)(length (vars q2) := r)\<rparr>"
    have "exec_op M ?x (st1\<lparr>s_par := vs\<rparr>) = Some ?st"
      using ag(4) st1(5) by (simp add: exec_op_def arith_ops_def set_result_def)
    then have "runs M code tgt (length (lin q3 cs1), st1\<lparr>s_par := vs\<rparr>) (length (lin q4 cs1), ?st)"
      by (rule runs_op[OF ag(1) q4(5), rotated 2]) simp_all
    then have "runs M code tgt (length (lin q2 cs1), st1\<lparr>s_par := vs\<rparr>) (length (lin q4 cs1), ?st)"
      unfolding q3(4) .
    then have "runs M code tgt (length (lin q cs), st) (length (lin q4 cs1), ?st)"
      using runs_trans[OF runs_trans[OF st1(1) r2]] by blast
    moreover have "same_upto (length (vars q)) st ?st"
      using st1(3) gstepD(4)[OF q1(2)] q2(4) by (simp add: same_upto_def)
    ultimately show ?thesis by (intro exI[of _ ?st]) (simp add: arg_val_def)
  qed
  moreover have "arg_in ?r q4" using q3(5) q4(4) by (simp add: arg_in_def)
  ultimately show ?thesis
    using run g q4(3) f(1) by (intro exI[of _ ?r] exI[of _ q4] exI[of _ cs1] exI[of _ P1]) simp
qed

end
