(* ===== verification/Gen_Cond.thy ===== *)
theory Gen_Cond
  imports Gen_Correct
begin

text \<open>
  The code generator for conditions is correct: \<open>gen_quadr_bool_expr\<close> makes code that jumps
  to the label exactly if the condition has the given value, and falls through otherwise.
\<close>

subsection \<open>Comparisons\<close>

text \<open>The jump for \<open>jmp_if_true = False\<close> is on the negated comparison.\<close>

lemma compare_jump:
  assumes "quadr_if_op nt j = Some op" and "node_compare M nt x y = Some c"
  shows "compare_val M op x y = Some (c = j)"
  using assms
  by (cases nt; cases x; cases y; cases j) (auto simp: word_sless_alt word_sle_eq)

lemma cmp_if_op:
  assumes "is_cmp_op nt"
  shows "\<exists>op. quadr_if_op nt j = Some op \<and> is_if_op op"
  using assms by (cases nt) (auto simp: is_cmp_op_def)

text \<open>A conditional jump after the code of its operands.\<close>

lemma cond_jump:
  fixes M :: "'w machine"
  assumes L: "label_ok q cs P L"
    and q1: "gstep q cs P q1 cs P1" "lin q1 cs = lin q cs" "vars q1 = vars q"
      "\<forall>code tgt T. agrees q1 cs P1 code tgt T \<longrightarrow> tgt l = dest P tgt T L"
    and g: "gstep q1 cs P1 q3 cs3 P3" and op: "is_if_op op"
    and run: "\<And>code tgt T (st :: 'w store) v b w'. agrees q3 cs3 P3 code tgt T \<Longrightarrow> s_par st = [] \<Longrightarrow>
      eval M D st e (s_world st) = Some (v, w') \<Longrightarrow> as_bool v = Some b \<Longrightarrow>
      \<exists>st' x y. runs M code tgt (length (lin q1 cs), st) (length (lin q3 cs3), st') \<and>
        arg_val st' a1 = Some x \<and> arg_val st' a2 = Some y \<and> compare_val M op x y = Some (b = j) \<and>
        same_upto (length (vars q1)) st st' \<and> s_par st' = [] \<and> s_world st' = w'"
  shows "\<exists>q' cs' P'. gen_if op (QA_LABEL l) a1 a2 q3 = Some q' \<and> gstep q cs P q' cs' P' \<and>
    cond_code M D e L j q cs P q' cs' P'"
proof -
  let ?x = "\<lparr>q_op = op, q_result = QA_LABEL l, q_arg1 = a1, q_arg2 = a2\<rparr>"
  obtain q4 cs4 where q4: "gen_if op (QA_LABEL l) a1 a2 q3 = Some q4" "gstep q3 cs3 P3 q4 cs4 P3" "vars q4 = vars q3"
    "lin q4 cs4 = lin q3 cs3 @ [?x]"
    using gen_if_view[OF gstepD(1,7)[OF g]] by blast
  have "cond_code M D e L j q cs P q4 cs4 P3"
    unfolding cond_code_def
  proof (intro allI impI)
    fix code tgt T and st :: "'w store" and v b w'
    assume a: "agrees q4 cs4 P3 code tgt T" "s_par st = []" "eval M D st e (s_world st) = Some (v, w')" "as_bool v = Some b"
    have a3: "agrees q3 cs3 P3 code tgt T" by (rule gstepD(6)[OF q4(2) a(1)])
    have a1: "agrees q1 cs P1 code tgt T" by (rule gstepD(6)[OF g a3])
    obtain st' x y where s: "runs M code tgt (length (lin q1 cs), st) (length (lin q3 cs3), st')"
      "arg_val st' a1 = Some x" "arg_val st' a2 = Some y" "compare_val M op x y = Some (b = j)"
      "same_upto (length (vars q1)) st st'" "s_par st' = []" "s_world st' = w'"
      using run[OF a3 a(2-4)] by blast
    obtain k where k: "dest P tgt T L = Some k" using dest_Some[OF L gstepD(6)[OF q1(1) a1]] by blast
    have "jump_dest tgt ?x = Some k" using k q1(4) a1 by (simp add: jump_dest_def)
    then have "runs M code tgt (length (lin q3 cs3), st') (if b = j then k else length (lin q4 cs4), st')"
      using runs_if[OF a(1) q4(4), of st' x y M "b = j" k] op s(2-4) by simp
    then have "runs M code tgt (length (lin q cs), st) (if b = j then k else length (lin q4 cs4), st')"
      using runs_trans[OF s(1)] q1(2) by simp
    then show "\<exists>st' pc. runs M code tgt (length (lin q cs), st) (pc, st') \<and>
        (if b = j then dest P tgt T L = Some pc else pc = length (lin q4 cs4)) \<and>
        same_upto (length (vars q)) st st' \<and> s_par st' = [] \<and> s_world st' = w'"
      using k s(5-7) q1(3) by (intro exI[of _ st'] exI[of _ "if b = j then k else length (lin q4 cs4)"]) simp
  qed
  then show ?thesis using q4(1) gstep_trans[OF gstep_trans[OF q1(1) g] q4(2)] by blast
qed

lemma cmp_ok:
  fixes M :: "'w machine"
  assumes l: "value_ok M D l" and r: "value_ok M D r" and nt: "is_cmp_op nt"
  shows "cond_ok M D (BINARY nt p (Some type_boolean) l r)"
  unfolding cond_ok_def
proof (intro allI impI)
  fix q cs P L j assume rd: "gen_ready D q cs P" and L: "label_ok q cs P L"
  let ?e = "BINARY nt p (Some type_boolean) l r"
  obtain lb q1 P1 where q1: "quadr_arg_label L q = Some (QA_LABEL lb, q1)" "gstep q cs P q1 cs P1" "lin q1 cs = lin q cs"
    "vars q1 = vars q" "\<forall>code tgt T. agrees q1 cs P1 code tgt T \<longrightarrow> tgt lb = dest P tgt T L"
    using label_view[of q cs P L] rd L by (auto simp: gen_ready_def)
  have rd1: "gen_ready D q1 cs P1" by (rule gen_ready_step[OF rd q1(2)])
  obtain a1 q2 cs2 P2 where q2: "gen_quadr_expr D l q1 = Some (a1, q2)" "gstep q1 cs P1 q2 cs2 P2" "gen_ready D q2 cs2 P2"
    "arg_in a1 q2" "val_code M D l q1 cs a1 q2 cs2 P2" using expr_okD[OF l rd1] by blast
  obtain a2 q3 cs3 P3 where q3: "gen_quadr_expr D r q2 = Some (a2, q3)" "gstep q2 cs2 P2 q3 cs3 P3" "gen_ready D q3 cs3 P3"
    "val_code M D r q2 cs2 a2 q3 cs3 P3" using expr_okD[OF r q2(3)] by blast
  obtain op where op: "quadr_if_op nt j = Some op" "is_if_op op" using cmp_if_op[OF nt] by blast
  have "\<exists>q' cs' P'. gen_if op (QA_LABEL lb) a1 a2 q3 = Some q' \<and> gstep q cs P q' cs' P' \<and>
    cond_code M D ?e L j q cs P q' cs' P'"
  proof (rule cond_jump[OF L q1(2-5) gstep_trans[OF q2(2) q3(2)] op(2)])
    fix code tgt T and st :: "'w store" and v b w'
    assume a: "agrees q3 cs3 P3 code tgt T" "s_par st = []" "eval M D st ?e (s_world st) = Some (v, w')" "as_bool v = Some b"
    have "nt \<notin> {NODE_AND, NODE_OR}" using nt by (auto simp: is_cmp_op_def)
    then obtain x w1 y c where e: "eval M D st l (s_world st) = Some (x, w1)" "eval M D st r w1 = Some (y, w')"
      "node_compare M nt x y = Some c" "v = of_bool_val c"
      using a(3) nt unfolding cmp_op_iff by (auto simp: bind_eq_Some_conv split: if_splits)
    have "compare_val M op x y = Some (b = j)"
      using compare_jump[OF op(1) e(3)] a(4) e(4) by (auto simp: of_bool_val_def split: if_splits)
    then show "\<exists>st' x y. runs M code tgt (length (lin q1 cs), st) (length (lin q3 cs3), st') \<and>
        arg_val st' a1 = Some x \<and> arg_val st' a2 = Some y \<and> compare_val M op x y = Some (b = j) \<and>
        same_upto (length (vars q1)) st st' \<and> s_par st' = [] \<and> s_world st' = w'"
      using val_code2[OF _ q2(2) q3(2) q2(5,4) q3(4) a(1,2) e(1,2)] rd1 unfolding gen_ready_def by blast
  qed
  then show "\<exists>q' cs' P'. gen_quadr_bool_expr D ?e L j q = Some q' \<and> gstep q cs P q' cs' P' \<and>
      cond_code M D ?e L j q cs P q' cs' P'"
    using q1(1) q2(1) q3(1) op(1) nt by simp
qed

subsection \<open>Variables and calls\<close>

lemma zero_arg: "quadr_arg0 TYPE_BOOLEAN (VA_INT 0) = Some (QA_INT 0)"
  by (simp add: quadr_arg0_def)

lemma zero_val: "arg_val st (QA_INT 0) = Some (VInt 0)"
  by (simp add: arg_val_def)

lemma compare_zero:
  assumes "as_bool x = Some b"
  shows "compare_val M (if j then Q_IF_NE else Q_IF_EQ) x (VInt 0) = Some (b = j)"
  using assms by (cases x) auto

lemma as_bool_of_bool_val [simp]: "as_bool (of_bool_val b) = Some b"
  by (simp add: of_bool_val_def)

lemma call_evalD:
  assumes "eval M D st (CALL p (Some type_boolean) s as) w = Some (x, w')" and "as_bool x = Some b"
  shows "\<exists>vs w1 f r. eval_args M D st as w = Some (vs, w1) \<and> sym_func D s = Some f \<and>
    m_call M f vs w1 = Some (r, w') \<and> as_bool r = Some b"
proof -
  obtain vs w1 f r w2 c where e: "eval_args M D st as w = Some (vs, w1)" "sym_func D s = Some f"
    "m_call M f vs w1 = Some (r, w2)" "as_bool r = Some c" "x = of_bool_val c" "w' = w2"
    using assms(1) by (auto simp: bind_eq_Some_conv)
  then show ?thesis using assms(2) by simp
qed

lemma ident_cond:
  fixes M :: "'w machine"
  assumes "env_types D s = Some type_boolean"
  shows "cond_ok M D (IDENT p (Some type_boolean) s)"
  unfolding cond_ok_def
proof (intro allI impI)
  fix q cs P L j assume rd: "gen_ready D q cs P" and L: "label_ok q cs P L"
  let ?e = "IDENT p (Some type_boolean) s" and ?op = "if j then Q_IF_NE else Q_IF_EQ"
  obtain v where v: "sym_var D s = Some v" "v < length (vars q)"
    using env_var[OF _ assms] rd by (auto simp: gen_ready_def var_ok_def)
  obtain lb q1 P1 where q1: "quadr_arg_label L q = Some (QA_LABEL lb, q1)" "gstep q cs P q1 cs P1" "lin q1 cs = lin q cs"
    "vars q1 = vars q" "\<forall>code tgt T. agrees q1 cs P1 code tgt T \<longrightarrow> tgt lb = dest P tgt T L"
    using label_view[of q cs P L] rd L by (auto simp: gen_ready_def)
  have rd1: "gen_ready D q1 cs P1" by (rule gen_ready_step[OF rd q1(2)])
  let ?n = "length (vars q1)"
  obtain q2 where q2: "quadr_arg TYPE_BOOLEAN (VA_INT 0) q1 = Some (QA_VAR ?n, q2)" "gstep q1 cs P1 q2 cs P1"
    "\<forall>code tgt T (st :: 'w store) x. agrees q2 cs P1 code tgt T \<longrightarrow> arg_val st (QA_INT 0) = Some x \<longrightarrow>
       runs M code tgt (length (lin q1 cs), st) (length (lin q2 cs), st\<lparr>s_var := (s_var st)(?n := x)\<rparr>)"
    using const_view[OF rd1 _ zero_arg, of M] by blast
  have "\<exists>q' cs' P'. gen_if ?op (QA_LABEL lb) (QA_VAR v) (QA_VAR ?n) q2 = Some q' \<and> gstep q cs P q' cs' P' \<and>
    cond_code M D ?e L j q cs P q' cs' P'"
  proof (rule cond_jump[OF L q1(2-5) q2(2)])
    show "is_if_op ?op" by simp
    fix code tgt T and st :: "'w store" and x b w'
    assume a: "agrees q2 cs P1 code tgt T" "s_par st = []" "eval M D st ?e (s_world st) = Some (x, w')" "as_bool x = Some b"
    let ?st = "st\<lparr>s_var := (s_var st)(?n := VInt 0)\<rparr>"
    have "runs M code tgt (length (lin q1 cs), st) (length (lin q2 cs), ?st)"
      using q2(3) a(1) zero_val by blast
    moreover have "x = s_var st v" "w' = s_world st" using a(3) v(1) by simp_all
    moreover have "v \<noteq> ?n" using v(2) q1(4) by simp
    ultimately show "\<exists>st' x y. runs M code tgt (length (lin q1 cs), st) (length (lin q2 cs), st') \<and>
        arg_val st' (QA_VAR v) = Some x \<and> arg_val st' (QA_VAR ?n) = Some y \<and> compare_val M ?op x y = Some (b = j) \<and>
        same_upto ?n st st' \<and> s_par st' = [] \<and> s_world st' = w'"
      using a(2) compare_zero[OF a(4), of M j] by - (rule exI[of _ ?st], rule exI[of _ x], rule exI[of _ "VInt 0"], simp add: arg_val_def)
  qed
  moreover have "gen_quadr_bool_expr D ?e L j q = gen_if ?op (QA_LABEL lb) (QA_VAR v) (QA_VAR ?n) q2"
    using v(1) q1(1) q2(1) by simp
  ultimately show "\<exists>q' cs' P'. gen_quadr_bool_expr D ?e L j q = Some q' \<and> gstep q cs P q' cs' P' \<and>
      cond_code M D ?e L j q cs P q' cs' P'" by simp
qed

lemma call_cond:
  fixes M :: "'w machine"
  assumes as: "\<forall>a \<in> set as. value_ok M D (snd a)" and s: "env_types D s = Some (func_type p0 type_boolean n ts)"
  shows "cond_ok M D (CALL p (Some type_boolean) s as)"
  unfolding cond_ok_def
proof (intro allI impI)
  fix q cs P L j assume rd: "gen_ready D q cs P" and L: "label_ok q cs P L"
  let ?e = "CALL p (Some type_boolean) s as" and ?op = "if j then Q_IF_NE else Q_IF_EQ"
  obtain lb q1 P1 where q1: "quadr_arg_label L q = Some (QA_LABEL lb, q1)" "gstep q cs P q1 cs P1" "lin q1 cs = lin q cs"
    "vars q1 = vars q" "\<forall>code tgt T. agrees q1 cs P1 code tgt T \<longrightarrow> tgt lb = dest P tgt T L"
    using label_view[of q cs P L] rd L by (auto simp: gen_ready_def)
  have rd1: "gen_ready D q1 cs P1" by (rule gen_ready_step[OF rd q1(2)])
  obtain a q2 cs2 P2 where q2: "gen_call D s (Some type_boolean) as q1 = Some (a, q2)" "gstep q1 cs P1 q2 cs2 P2"
    "gen_ready D q2 cs2 P2" "arg_in a q2"
    "\<forall>code tgt T (st :: 'w store) vs w1 f r w2. agrees q2 cs2 P2 code tgt T \<longrightarrow> s_par st = [] \<longrightarrow>
       eval_args M D st as (s_world st) = Some (vs, w1) \<longrightarrow> sym_func D s = Some f \<longrightarrow> m_call M f vs w1 = Some (r, w2) \<longrightarrow>
       (\<exists>st'. runs M code tgt (length (lin q1 cs), st) (length (lin q2 cs2), st') \<and>
          arg_val st' a = Some (if type_boolean = type_void then VVoid else r) \<and>
          same_upto (length (vars q1)) st st' \<and> s_par st' = [] \<and> s_world st' = w2)"
    using call_view[OF as s rd1] by blast
  let ?n = "length (vars q2)"
  obtain q3 where q3: "quadr_arg TYPE_BOOLEAN (VA_INT 0) q2 = Some (QA_VAR ?n, q3)" "gstep q2 cs2 P2 q3 cs2 P2"
    "\<forall>code tgt T (st :: 'w store) x. agrees q3 cs2 P2 code tgt T \<longrightarrow> arg_val st (QA_INT 0) = Some x \<longrightarrow>
       runs M code tgt (length (lin q2 cs2), st) (length (lin q3 cs2), st\<lparr>s_var := (s_var st)(?n := x)\<rparr>)"
    using const_view[OF q2(3) _ zero_arg, of M] by blast
  have "\<exists>q' cs' P'. gen_if ?op (QA_LABEL lb) a (QA_VAR ?n) q3 = Some q' \<and> gstep q cs P q' cs' P' \<and>
    cond_code M D ?e L j q cs P q' cs' P'"
  proof (rule cond_jump[OF L q1(2-5) gstep_trans[OF q2(2) q3(2)]])
    show "is_if_op ?op" by simp
    fix code tgt T and st :: "'w store" and x b w'
    assume ag: "agrees q3 cs2 P2 code tgt T" "s_par st = []" "eval M D st ?e (s_world st) = Some (x, w')" "as_bool x = Some b"
    obtain vs w1 f r where e: "eval_args M D st as (s_world st) = Some (vs, w1)" "sym_func D s = Some f"
      "m_call M f vs w1 = Some (r, w')" "as_bool r = Some b"
      using call_evalD[OF ag(3,4)] by blast
    obtain st1 where st1: "runs M code tgt (length (lin q1 cs), st) (length (lin q2 cs2), st1)" "arg_val st1 a = Some r"
      "same_upto (length (vars q1)) st st1" "s_par st1 = []" "s_world st1 = w'"
      using q2(5)[rule_format, OF gstepD(6)[OF q3(2) ag(1)] ag(2) e(1-3)] by auto
    let ?st = "st1\<lparr>s_var := (s_var st1)(?n := VInt 0)\<rparr>"
    have "runs M code tgt (length (lin q2 cs2), st1) (length (lin q3 cs2), ?st)"
      using q3(3) ag(1) zero_val by blast
    then have "runs M code tgt (length (lin q1 cs), st) (length (lin q3 cs2), ?st)" by (rule runs_trans[OF st1(1)])
    moreover have "arg_val ?st a = Some r" using arg_val_same[OF _ q2(4), of st1 ?st] st1(2) by simp
    moreover have "same_upto (length (vars q1)) st ?st" using st1(3) gstepD(4)[OF q2(2)] by (simp add: same_upto_def)
    ultimately show "\<exists>st' x y. runs M code tgt (length (lin q1 cs), st) (length (lin q3 cs2), st') \<and>
        arg_val st' a = Some x \<and> arg_val st' (QA_VAR ?n) = Some y \<and> compare_val M ?op x y = Some (b = j) \<and>
        same_upto (length (vars q1)) st st' \<and> s_par st' = [] \<and> s_world st' = w'"
      using st1(4,5) compare_zero[OF e(4), of M j] by - (rule exI[of _ ?st], rule exI[of _ r], rule exI[of _ "VInt 0"], simp add: arg_val_def)
  qed
  moreover have "gen_quadr_bool_expr D ?e L j q = gen_if ?op (QA_LABEL lb) a (QA_VAR ?n) q3"
    using q1(1) q2(1) q3(1) by (simp del: gen_call.simps)
  ultimately show "\<exists>q' cs' P'. gen_quadr_bool_expr D ?e L j q = Some q' \<and> gstep q cs P q' cs' P' \<and>
      cond_code M D ?e L j q cs P q' cs' P'" by simp
qed

subsection \<open>Constants and negation\<close>

lemma bool_cond:
  fixes M :: "'w machine"
  shows "cond_ok M D (BOOL_NODE p (Some type_boolean) v)"
  unfolding cond_ok_def
proof (intro allI impI)
  fix q cs P L j assume rd: "gen_ready D q cs P" and L: "label_ok q cs P L"
  let ?e = "BOOL_NODE p (Some type_boolean) v"
  show "\<exists>q' cs' P'. gen_quadr_bool_expr D ?e L j q = Some q' \<and> gstep q cs P q' cs' P' \<and>
      cond_code M D ?e L j q cs P q' cs' P'"
  proof (cases "(v \<noteq> 0) = j")
    case True
    obtain q1 cs1 P1 l where q1: "gen_goto L q = Some q1" "gstep q cs P q1 cs1 P1"
      "lin q1 cs1 = lin q cs @ [\<lparr>q_op = Q_GOTO, q_result = QA_LABEL l, q_arg1 = QA_NONE, q_arg2 = QA_NONE\<rparr>]"
      "\<forall>code tgt T. agrees q1 cs1 P1 code tgt T \<longrightarrow> tgt l = dest P tgt T L"
      using gen_goto_view[of q cs P L] rd L by (auto simp: gen_ready_def)
    have "cond_code M D ?e L j q cs P q1 cs1 P1"
      unfolding cond_code_def
    proof (intro allI impI)
      fix code tgt T and st :: "'w store" and x b w'
      assume a: "agrees q1 cs1 P1 code tgt T" "s_par st = []" "eval M D st ?e (s_world st) = Some (x, w')" "as_bool x = Some b"
      obtain k where k: "dest P tgt T L = Some k" using dest_Some[OF L gstepD(6)[OF q1(2) a(1)]] by blast
      have "runs M code tgt (length (lin q cs), st) (k, st)"
        by (rule runs_goto[OF a(1) q1(3)]) (use k q1(4) a(1) in \<open>simp_all add: jump_dest_def\<close>)
      then show "\<exists>st' pc. runs M code tgt (length (lin q cs), st) (pc, st') \<and>
          (if b = j then dest P tgt T L = Some pc else pc = length (lin q1 cs1)) \<and>
          same_upto (length (vars q)) st st' \<and> s_par st' = [] \<and> s_world st' = w'"
        using a k True by (intro exI[of _ st] exI[of _ k]) (auto simp: of_bool_val_def)
    qed
    then show ?thesis using q1(1,2) True by (intro exI[of _ q1] exI[of _ cs1] exI[of _ P1]) auto
  next
    case False
    have "cond_code M D ?e L j q cs P q cs P"
      unfolding cond_code_def
    proof (intro allI impI)
      fix code tgt T and st :: "'w store" and x b w'
      assume a: "s_par st = []" "eval M D st ?e (s_world st) = Some (x, w')" "as_bool x = Some b"
      show "\<exists>st' pc. runs M code tgt (length (lin q cs), st) (pc, st') \<and>
          (if b = j then dest P tgt T L = Some pc else pc = length (lin q cs)) \<and>
          same_upto (length (vars q)) st st' \<and> s_par st' = [] \<and> s_world st' = w'"
        using a False by (intro exI[of _ st] exI[of _ "length (lin q cs)"]) (auto simp: of_bool_val_def)
    qed
    then show ?thesis
      using False rd gstep_refl[of q cs P] unfolding gen_ready_def
      by (intro exI[of _ q] exI[of _ cs] exI[of _ P]) auto
  qed
qed

lemma not_cond:
  fixes M :: "'w machine"
  assumes a: "cond_ok M D a"
  shows "cond_ok M D (UNARY NODE_NOT p (Some type_boolean) a)"
  unfolding cond_ok_def
proof (intro allI impI)
  fix q cs P L j assume rd: "gen_ready D q cs P" and L: "label_ok q cs P L"
  let ?e = "UNARY NODE_NOT p (Some type_boolean) a"
  obtain q1 cs1 P1 where q1: "gen_quadr_bool_expr D a L (\<not> j) q = Some q1" "gstep q cs P q1 cs1 P1"
    "cond_code M D a L (\<not> j) q cs P q1 cs1 P1"
    using cond_okD[OF a rd L] by blast
  have "cond_code M D ?e L j q cs P q1 cs1 P1"
    unfolding cond_code_def
  proof (intro allI impI)
    fix code tgt T and st :: "'w store" and x b w'
    assume ag: "agrees q1 cs1 P1 code tgt T" "s_par st = []" "eval M D st ?e (s_world st) = Some (x, w')" "as_bool x = Some b"
    obtain y where y: "eval M D st a (s_world st) = Some (y, w')" "as_bool y = Some (\<not> b)"
      using ag(3,4) by (auto simp: of_bool_val_def split: if_splits)
    then show "\<exists>st' pc. runs M code tgt (length (lin q cs), st) (pc, st') \<and>
        (if b = j then dest P tgt T L = Some pc else pc = length (lin q1 cs1)) \<and>
        same_upto (length (vars q)) st st' \<and> s_par st' = [] \<and> s_world st' = w'"
      using q1(3) ag(1,2) unfolding cond_code_def by fastforce
  qed
  then show "\<exists>q' cs' P'. gen_quadr_bool_expr D ?e L j q = Some q' \<and> gstep q cs P q' cs' P' \<and>
      cond_code M D ?e L j q cs P q' cs' P'"
    using q1 by (intro exI[of _ q1] exI[of _ cs1] exI[of _ P1]) simp
qed

subsection \<open>Local labels\<close>

lemma new_label:
  assumes rd: "gen_ready D q cs P"
  shows "\<exists>n q'. new_basic_block q = (n, q') \<and> gen_ready D q' cs (P(n \<mapsto> [n])) \<and> n \<notin> dom P \<and> n \<notin> set cs \<and>
    lin q' cs = lin q cs \<and> vars q' = vars q \<and> (\<forall>l \<in> set cs. qs q l \<noteq> [] \<longrightarrow> qs q' l \<noteq> []) \<and>
    (\<forall>code tgt T. agrees q' cs (P(n \<mapsto> [n])) code tgt T \<longrightarrow> agrees q cs P code tgt T)"
proof -
  have l: "layout q cs P" "open_end q cs" "env_ok D q" using rd by (simp_all add: gen_ready_def)
  note n = new_block_view[OF l(1)]
  have "env_ok D (fresh_block empty_block q)"
    using l(3) decl_ok_more[of q _ "fresh_block empty_block q" "[]"] n(7) by (simp add: env_ok_def)
  then show ?thesis using n l by (intro exI[of _ "next_block_id q"] exI[of _ "fresh_block empty_block q"]) (simp add: gen_ready_def)
qed

lemma place_label:
  assumes rd: "gen_ready D q cs P" and n: "n \<in> dom P"
  shows "\<exists>q' cs'. add_basic_blocks n q = Some q' \<and> gen_ready D q' cs' (P(n := None)) \<and> lin q' cs' = lin q cs \<and>
    vars q' = vars q \<and> (\<forall>ps. P n = Some ps \<longrightarrow> last cs' = last ps) \<and> (\<forall>l \<in> set cs. qs q l \<noteq> [] \<longrightarrow> l \<in> set cs' \<and> qs q' l \<noteq> []) \<and>
    (\<forall>code tgt T. agrees q' cs' (P(n := None)) code tgt T \<longrightarrow> agrees q cs P code tgt (T(n := length (lin q cs))))"
proof -
  obtain ps where ps: "P n = Some ps" using n by blast
  have l: "layout q cs P" "env_ok D q" using rd by (simp_all add: gen_ready_def)
  obtain q' cs' where q': "add_basic_blocks n q = Some q'" "layout q' cs' (P(n := None))" "open_end q' cs'"
    "lin q' cs' = lin q cs" "vars q' = vars q" "last cs' = last ps" "\<forall>l \<in> set cs. qs q l \<noteq> [] \<longrightarrow> l \<in> set cs' \<and> qs q' l \<noteq> []"
    "\<forall>code tgt T. agrees q' cs' (P(n := None)) code tgt T \<longrightarrow> agrees q cs P code tgt (T(n := length (lin q cs)))"
    using add_blocks_view[OF l(1) ps] by blast
  have "env_ok D q'" using l(2) decl_ok_more[of q _ q' "[]"] q'(5) by (simp add: env_ok_def)
  then show ?thesis using q' ps by (intro exI[of _ q'] exI[of _ cs']) (simp add: gen_ready_def)
qed

text \<open>Between a new label and its placement.\<close>

lemma gstep_label:
  assumes n: "n \<notin> dom P" "vars q1 = vars q" "\<forall>l \<in> set cs. qs q l \<noteq> [] \<longrightarrow> qs q1 l \<noteq> []"
      "\<forall>code tgt T. agrees q1 cs (P(n \<mapsto> [n])) code tgt T \<longrightarrow> agrees q cs P code tgt T"
    and g: "gstep q1 cs (P(n \<mapsto> [n])) q2 cs2 P2"
    and p: "gen_ready D q3 cs3 (P2(n := None))" "vars q3 = vars q2" "\<forall>l \<in> set cs2. qs q2 l \<noteq> [] \<longrightarrow> l \<in> set cs3 \<and> qs q3 l \<noteq> []"
      "\<forall>code tgt T. agrees q3 cs3 (P2(n := None)) code tgt T \<longrightarrow> agrees q2 cs2 P2 code tgt (T(n := k))"
  shows "gstep q cs P q3 cs3 (P2(n := None))"
  unfolding gstep_def step0_def
proof (intro conjI ballI impI allI)
  show "layout q3 cs3 (P2(n := None))" "open_end q3 cs3" using p(1) by (simp_all add: gen_ready_def)
  show "\<exists>ys. vars q3 = vars q @ ys" using gstepD(2)[OF g] n(2) p(2) by simp
  show "dom (P2(n := None)) = dom P" using gstepD(3)[OF g] n(1) by auto
  fix l assume l: "l \<in> set cs" "qs q l \<noteq> []"
  have "l \<in> set cs2 \<and> qs q2 l \<noteq> []" by (rule gstepD(5)[OF g l(1)]) (use n(3) l in blast)
  then show "l \<in> set cs3" "qs q3 l \<noteq> []" using p(3) by blast+
next
  fix code tgt T assume "agrees q3 cs3 (P2(n := None)) code tgt T"
  then have "agrees q1 cs (P(n \<mapsto> [n])) code tgt (T(n := k))" using p(4) gstepD(6)[OF g] by blast
  then have "agrees q cs P code tgt (T(n := k))" using n(4) by blast
  then show "agrees q cs P code tgt T" by (rule agrees_irrelevant[rotated]) (use n(1) in auto)
qed

subsection \<open>Conjunction and disjunction\<close>

text \<open>\<open>sh\<close> is the value of the first operand with which the second one is not evaluated.\<close>

abbreviation andor :: "bool \<Rightarrow> node_type_t" where
  "andor sh \<equiv> if sh then NODE_OR else NODE_AND"

lemma andor_evalD:
  assumes "eval M D st (BINARY (andor sh) p ty l r) w = Some (v, w')" and "as_bool v = Some b"
  shows "\<exists>x w1 c. eval M D st l w = Some (x, w1) \<and> as_bool x = Some c \<and>
    (if c = sh then b = sh \<and> w' = w1 else \<exists>y. eval M D st r w1 = Some (y, w') \<and> as_bool y = Some b)"
proof -
  obtain x w1 c where e: "eval M D st l w = Some (x, w1)" "as_bool x = Some c"
    "(if c = sh then Some (of_bool_val c, w1)
      else do { (y, w) \<leftarrow> eval M D st r w1; d \<leftarrow> as_bool y; Some (of_bool_val d, w) }) = Some (v, w')"
    using assms(1) by (cases sh) (auto simp: bind_eq_Some_conv)
  show ?thesis
  proof (cases "c = sh")
    case True
    then show ?thesis using e assms(2) by auto
  next
    case False
    then obtain y d where "eval M D st r w1 = Some (y, w')" "as_bool y = Some d" "v = of_bool_val d"
      using e(3) by (auto simp: bind_eq_Some_conv)
    then show ?thesis using e(1,2) False assms(2) by auto
  qed
qed

lemma cond_codeD:
  assumes "cond_code M D e L j q cs P q' cs' P'" and "agrees q' cs' P' code tgt T" and "s_par st = []"
    and "eval M D st e (s_world st) = Some (v, w')" and "as_bool v = Some b"
  shows "\<exists>st' pc. runs M code tgt (length (lin q cs), st) (pc, st') \<and>
    (if b = j then dest P tgt T L = Some pc else pc = length (lin q' cs')) \<and>
    same_upto (length (vars q)) st st' \<and> s_par st' = [] \<and> s_world st' = w'"
  using assms unfolding cond_code_def by blast

lemma cond_seq:
  fixes M :: "'w machine"
  assumes l: "cond_ok M D l" and r: "cond_ok M D r" and rd: "gen_ready D q cs P" and L: "label_ok q cs P L"
  shows "\<exists>q1 q2 cs2 P2. gen_quadr_bool_expr D l L sh q = Some q1 \<and> gen_quadr_bool_expr D r L sh q1 = Some q2 \<and>
    gstep q cs P q2 cs2 P2 \<and> cond_code M D (BINARY (andor sh) p ty l r) L sh q cs P q2 cs2 P2"
proof -
  let ?e = "BINARY (andor sh) p ty l r"
  obtain q1 cs1 P1 where q1: "gen_quadr_bool_expr D l L sh q = Some q1" "gstep q cs P q1 cs1 P1" "gen_ready D q1 cs1 P1"
    "cond_code M D l L sh q cs P q1 cs1 P1" using cond_okD[OF l rd L] by blast
  obtain q2 cs2 P2 where q2: "gen_quadr_bool_expr D r L sh q1 = Some q2" "gstep q1 cs1 P1 q2 cs2 P2" "gen_ready D q2 cs2 P2"
    "cond_code M D r L sh q1 cs1 P1 q2 cs2 P2" using cond_okD[OF r q1(3) label_ok_gstep[OF q1(2) L]] by blast
  have "cond_code M D ?e L sh q cs P q2 cs2 P2"
    unfolding cond_code_def
  proof (intro allI impI)
    fix code tgt T and st :: "'w store" and v b w'
    assume a: "agrees q2 cs2 P2 code tgt T" "s_par st = []" "eval M D st ?e (s_world st) = Some (v, w')" "as_bool v = Some b"
    obtain x w1 c where e: "eval M D st l (s_world st) = Some (x, w1)" "as_bool x = Some c"
      "if c = sh then b = sh \<and> w' = w1 else \<exists>y. eval M D st r w1 = Some (y, w') \<and> as_bool y = Some b"
      using andor_evalD[OF a(3,4)] by blast
    obtain st1 pc where st1: "runs M code tgt (length (lin q cs), st) (pc, st1)"
      "if c = sh then dest P tgt T L = Some pc else pc = length (lin q1 cs1)"
      "same_upto (length (vars q)) st st1" "s_par st1 = []" "s_world st1 = w1"
      using cond_codeD[OF q1(4) gstepD(6)[OF q2(2) a(1)] a(2) e(1,2)] by blast
    show "\<exists>st' pc. runs M code tgt (length (lin q cs), st) (pc, st') \<and>
        (if b = sh then dest P tgt T L = Some pc else pc = length (lin q2 cs2)) \<and>
        same_upto (length (vars q)) st st' \<and> s_par st' = [] \<and> s_world st' = w'"
    proof (cases "c = sh")
      case True
      then show ?thesis using st1 e(3) by (intro exI[of _ st1] exI[of _ pc]) simp
    next
      case False
      then obtain y where y: "eval M D st r w1 = Some (y, w')" "as_bool y = Some b" using e(3) by auto
      have "eval M D st1 r (s_world st1) = Some (y, w')"
        using eval_same(1)[of D q st st1 M r] st1(3,5) rd y(1) by (simp add: gen_ready_def)
      then obtain st2 pc2 where st2: "runs M code tgt (length (lin q1 cs1), st1) (pc2, st2)"
        "if b = sh then dest P1 tgt T L = Some pc2 else pc2 = length (lin q2 cs2)"
        "same_upto (length (vars q1)) st1 st2" "s_par st2 = []" "s_world st2 = w'"
        using cond_codeD[OF q2(4) a(1) st1(4) _ y(2)] by blast
      have "runs M code tgt (length (lin q cs), st) (pc2, st2)" using runs_trans[OF st1(1)] st1(2) st2(1) False by simp
      then show ?thesis
        using st2(2,4,5) dest_gstep[OF q1(2), of tgt T L] same_upto_trans[OF st1(3) st2(3) gstepD(4)[OF q1(2)]]
        by (intro exI[of _ st2] exI[of _ pc2]) (simp split: if_splits)
    qed
  qed
  then show ?thesis using q1(1) q2(1) gstep_trans[OF q1(2) q2(2)] by blast
qed

lemma andor_cond:
  fixes M :: "'w machine"
  assumes l: "cond_ok M D l" and r: "cond_ok M D r"
  shows "cond_ok M D (BINARY (andor sh) p (Some type_boolean) l r)"
  unfolding cond_ok_def
proof (intro allI impI)
  fix q cs P L j assume rd: "gen_ready D q cs P" and L: "label_ok q cs P L"
  let ?e = "BINARY (andor sh) p (Some type_boolean) l r"
  show "\<exists>q' cs' P'. gen_quadr_bool_expr D ?e L j q = Some q' \<and> gstep q cs P q' cs' P' \<and>
      cond_code M D ?e L j q cs P q' cs' P'"
  proof (cases "j = sh")
    case True
    then show ?thesis using cond_seq[OF l r rd L, of sh p "Some type_boolean"] by (cases sh) (auto simp: is_cmp_op_def)
  next
    case False
    obtain n q1 where q1: "new_basic_block q = (n, q1)" "gen_ready D q1 cs (P(n \<mapsto> [n]))" "n \<notin> dom P" "n \<notin> set cs"
      "lin q1 cs = lin q cs" "vars q1 = vars q" "\<forall>l \<in> set cs. qs q l \<noteq> [] \<longrightarrow> qs q1 l \<noteq> []"
      "\<forall>code tgt T. agrees q1 cs (P(n \<mapsto> [n])) code tgt T \<longrightarrow> agrees q cs P code tgt T"
      using new_label[OF rd] by blast
    let ?P = "P(n \<mapsto> [n])"
    have Ln: "L \<noteq> n" "label_ok q1 cs ?P L" "label_ok q1 cs ?P n" using L q1(3,4,7) by (auto simp: label_ok_def)
    obtain q2 q3 cs3 P3 where q3: "gen_quadr_bool_expr D l n sh q1 = Some q2" "gen_quadr_bool_expr D r n sh q2 = Some q3"
      "gstep q1 cs ?P q3 cs3 P3" "cond_code M D ?e n sh q1 cs ?P q3 cs3 P3"
      using cond_seq[OF l r q1(2) Ln(3)] by blast
    obtain q4 cs4 P4 lb where q4: "gen_goto L q3 = Some q4" "gstep q3 cs3 P3 q4 cs4 P4" "vars q4 = vars q3"
      "lin q4 cs4 = lin q3 cs3 @ [\<lparr>q_op = Q_GOTO, q_result = QA_LABEL lb, q_arg1 = QA_NONE, q_arg2 = QA_NONE\<rparr>]"
      "\<forall>code tgt T. agrees q4 cs4 P4 code tgt T \<longrightarrow> tgt lb = dest P3 tgt T L"
      using gen_goto_view[OF gstepD(1,7)[OF q3(3)] label_ok_gstep[OF q3(3) Ln(2)]] by blast
    note g4 = gstep_trans[OF q3(3) q4(2)]
    have "n \<in> dom P4" using gstepD(3)[OF g4] by simp
    then obtain q5 cs5 where q5: "add_basic_blocks n q4 = Some q5" "gen_ready D q5 cs5 (P4(n := None))"
      "lin q5 cs5 = lin q4 cs4" "vars q5 = vars q4" "\<forall>l \<in> set cs4. qs q4 l \<noteq> [] \<longrightarrow> l \<in> set cs5 \<and> qs q5 l \<noteq> []"
      "\<forall>code tgt T. agrees q5 cs5 (P4(n := None)) code tgt T \<longrightarrow> agrees q4 cs4 P4 code tgt (T(n := length (lin q4 cs4)))"
      using place_label[OF gen_ready_step[OF q1(2) g4]] by blast
    have g: "gstep q cs P q5 cs5 (P4(n := None))" by (rule gstep_label[OF q1(3,6-8) g4 q5(2,4-6)])
    have "cond_code M D ?e L j q cs P q5 cs5 (P4(n := None))"
      unfolding cond_code_def
    proof (intro allI impI)
      fix code tgt T and st :: "'w store" and v b w'
      assume a: "agrees q5 cs5 (P4(n := None)) code tgt T" "s_par st = []" "eval M D st ?e (s_world st) = Some (v, w')"
        "as_bool v = Some b"
      let ?T = "T(n := length (lin q4 cs4))"
      have a4: "agrees q4 cs4 P4 code tgt ?T" using q5(6) a(1) by blast
      obtain st1 pc where st1: "runs M code tgt (length (lin q1 cs), st) (pc, st1)"
        "if b = sh then dest ?P tgt ?T n = Some pc else pc = length (lin q3 cs3)"
        "same_upto (length (vars q1)) st st1" "s_par st1 = []" "s_world st1 = w'"
        using cond_codeD[OF q3(4) gstepD(6)[OF q4(2) a4] a(2-4)] by blast
      obtain k where k: "dest P tgt T L = Some k" using dest_Some[OF L gstepD(6)[OF g a(1)]] by blast
      have d3: "dest P3 tgt ?T L = Some k"
        using dest_gstep[OF q3(3), of tgt ?T L] k Ln(1) by (simp add: dest_def domIff split: if_splits)
      have "\<exists>pc'. runs M code tgt (pc, st1) (pc', st1) \<and> (if b = j then pc' = k else pc' = length (lin q5 cs5))"
      proof (cases "b = sh")
        case True
        then have "pc = length (lin q5 cs5)" using st1(2) q5(3) by (simp add: dest_def)
        then show ?thesis using True False by (intro exI[of _ pc]) simp
      next
        case b: False
        have "runs M code tgt (length (lin q3 cs3), st1) (k, st1)"
          by (rule runs_goto[OF a4 q4(4)]) (use q4(5) a4 d3 in \<open>simp_all add: jump_dest_def\<close>)
        then show ?thesis using b False st1(2) by (intro exI[of _ k]) auto
      qed
      then obtain pc' where pc': "runs M code tgt (pc, st1) (pc', st1)"
        "if b = j then pc' = k else pc' = length (lin q5 cs5)" by blast
      have "runs M code tgt (length (lin q cs), st) (pc', st1)" using runs_trans[OF st1(1) pc'(1)] q1(5) by simp
      then show "\<exists>st' pc. runs M code tgt (length (lin q cs), st) (pc, st') \<and>
          (if b = j then dest P tgt T L = Some pc else pc = length (lin q5 cs5)) \<and>
          same_upto (length (vars q)) st st' \<and> s_par st' = [] \<and> s_world st' = w'"
        using k pc'(2) st1(3-5) q1(6) by (intro exI[of _ st1] exI[of _ pc']) simp
    qed
    moreover have "gen_quadr_bool_expr D ?e L j q = Some q5"
      using False q1(1) q3(1,2) q4(1) q5(1) by (cases sh) (simp_all add: is_cmp_op_def)
    ultimately show ?thesis using g by blast
  qed
qed

subsection \<open>The value of a condition\<close>

lemma copy_view:
  fixes M :: "'w machine"
  assumes rd: "gen_ready D q cs P" and v: "v < length (vars q)"
  shows "\<exists>q'. gen_copy v (QA_INT i) q = Some q' \<and> gstep q cs P q' cs P \<and> gen_ready D q' cs P \<and> vars q' = vars q \<and>
    (\<forall>code tgt T (st :: 'w store). agrees q' cs P code tgt T \<longrightarrow>
       runs M code tgt (length (lin q cs), st) (length (lin q' cs), st\<lparr>s_var := (s_var st)(v := VInt i)\<rparr>))"
proof -
  let ?x = "\<lparr>q_op = Q_COPY, q_result = QA_VAR v, q_arg1 = QA_INT i, q_arg2 = QA_NONE\<rparr>"
  obtain q' where q': "add_quadr (cur_block q) ?x q = Some q'" "gstep q cs P q' cs P" "gen_ready D q' cs P" "vars q' = vars q"
    "lin q' cs = lin q cs @ [?x]"
    using emit_view[OF rd, of ?x] by auto
  have "runs M code tgt (length (lin q cs), st) (length (lin q' cs), st\<lparr>s_var := (s_var st)(v := VInt i)\<rparr>)"
    if "agrees q' cs P code tgt T" for code tgt T and st :: "'w store"
    by (rule runs_op[OF that q'(5)]) (simp_all add: exec_op_def arith_ops_def set_result_def arg_val_def)
  then show ?thesis using q' by (intro exI[of _ q']) (simp add: gen_copy_def)
qed

lemma bool_value_ok:
  fixes M :: "'w machine"
  assumes e: "cond_ok M D e" "is_bool_value e"
    and canon: "\<And>(st :: 'w store) w v w'. eval M D st e w = Some (v, w') \<Longrightarrow> \<exists>b. v = of_bool_val b"
  shows "value_ok M D e"
  unfolding expr_ok_def
proof (intro allI impI)
  fix q cs P assume rd: "gen_ready D q cs P"
  let ?v = "length (vars q)"
  obtain q1 where q1: "new_var type_boolean q = Some (?v, q1)" "gstep q cs P q1 cs P" "gen_ready D q1 cs P"
    "length (vars q1) = Suc ?v" "lin q1 cs = lin q cs"
    using new_var_view[OF rd, of type_boolean] by fastforce
  obtain t q2 where q2: "new_basic_block q1 = (t, q2)" "gen_ready D q2 cs (P(t \<mapsto> [t]))" "t \<notin> dom P" "t \<notin> set cs"
    "lin q2 cs = lin q1 cs" "vars q2 = vars q1" "\<forall>l \<in> set cs. qs q1 l \<noteq> [] \<longrightarrow> qs q2 l \<noteq> []"
    "\<forall>code tgt T. agrees q2 cs (P(t \<mapsto> [t])) code tgt T \<longrightarrow> agrees q1 cs P code tgt T"
    using new_label[OF q1(3)] by blast
  let ?P2 = "P(t \<mapsto> [t])"
  obtain q3 cs3 P3 where q3: "gen_quadr_bool_expr D e t True q2 = Some q3" "gstep q2 cs ?P2 q3 cs3 P3" "gen_ready D q3 cs3 P3"
    "cond_code M D e t True q2 cs ?P2 q3 cs3 P3"
    using cond_okD[OF e(1) q2(2), of t True] by (auto simp: label_ok_def)
  obtain q4 cs4 where q4: "add_new_block q3 = Some q4" "gstep q3 cs3 P3 q4 cs4 P3" "lin q4 cs4 = lin q3 cs3" "vars q4 = vars q3"
    using add_new_block_view[OF gstepD(1)[OF q3(2)]] by blast
  note g4 = gstep_trans[OF q3(2) q4(2)]
  have rd4: "gen_ready D q4 cs4 P3" by (rule gen_ready_step[OF q3(3) q4(2)])
  have t3: "t \<in> dom P3" using gstepD(3)[OF g4] by simp
  obtain n q5 where q5: "new_basic_block q4 = (n, q5)" "gen_ready D q5 cs4 (P3(n \<mapsto> [n]))" "n \<notin> dom P3"
    "lin q5 cs4 = lin q4 cs4" "vars q5 = vars q4" "\<forall>l \<in> set cs4. qs q4 l \<noteq> [] \<longrightarrow> qs q5 l \<noteq> []"
    "\<forall>code tgt T. agrees q5 cs4 (P3(n \<mapsto> [n])) code tgt T \<longrightarrow> agrees q4 cs4 P3 code tgt T"
    using new_label[OF rd4] by blast
  let ?P5 = "P3(n \<mapsto> [n])"
  have tn: "t \<noteq> n" using t3 q5(3) by blast
  have v5: "Suc ?v \<le> length (vars q5)" using gstepD(4)[OF q3(2)] q1(4) q2(6) q4(4) q5(5) by simp
  obtain q6 where q6: "gen_copy ?v (QA_INT 0) q5 = Some q6" "gstep q5 cs4 ?P5 q6 cs4 ?P5" "gen_ready D q6 cs4 ?P5"
    "vars q6 = vars q5" "\<forall>code tgt T (st :: 'w store). agrees q6 cs4 ?P5 code tgt T \<longrightarrow>
       runs M code tgt (length (lin q5 cs4), st) (length (lin q6 cs4), st\<lparr>s_var := (s_var st)(?v := VInt 0)\<rparr>)"
    using copy_view[OF q5(2), of ?v 0 M] v5 by auto
  obtain q7 cs7 P7 lb where q7: "gen_goto n q6 = Some q7" "gstep q6 cs4 ?P5 q7 cs7 P7" "vars q7 = vars q6"
    "lin q7 cs7 = lin q6 cs4 @ [\<lparr>q_op = Q_GOTO, q_result = QA_LABEL lb, q_arg1 = QA_NONE, q_arg2 = QA_NONE\<rparr>]"
    "\<forall>code tgt T. agrees q7 cs7 P7 code tgt T \<longrightarrow> tgt lb = dest ?P5 tgt T n"
    using gen_goto_view[of q6 cs4 ?P5 n] q6(3) by (auto simp: gen_ready_def label_ok_def)
  note g7 = gstep_trans[OF q6(2) q7(2)]
  have d7: "dom P7 = insert n (dom P3)" using gstepD(3)[OF g7] by simp
  have "t \<in> dom P7" using d7 t3 by simp
  then obtain q8 cs8 where q8: "add_basic_blocks t q7 = Some q8" "gen_ready D q8 cs8 (P7(t := None))"
    "lin q8 cs8 = lin q7 cs7" "vars q8 = vars q7" "\<forall>l \<in> set cs7. qs q7 l \<noteq> [] \<longrightarrow> l \<in> set cs8 \<and> qs q8 l \<noteq> []"
    "\<forall>code tgt T. agrees q8 cs8 (P7(t := None)) code tgt T \<longrightarrow> agrees q7 cs7 P7 code tgt (T(t := length (lin q7 cs7)))"
    using place_label[OF gen_ready_step[OF q6(3) q7(2)]] by blast
  let ?P8 = "P7(t := None)"
  obtain q9 where q9: "gen_copy ?v (QA_INT 1) q8 = Some q9" "gstep q8 cs8 ?P8 q9 cs8 ?P8" "gen_ready D q9 cs8 ?P8"
    "vars q9 = vars q8" "\<forall>code tgt T (st :: 'w store). agrees q9 cs8 ?P8 code tgt T \<longrightarrow>
       runs M code tgt (length (lin q8 cs8), st) (length (lin q9 cs8), st\<lparr>s_var := (s_var st)(?v := VInt 1)\<rparr>)"
    using copy_view[OF q8(2), of ?v 1 M] v5 q6(4) q7(3) q8(4) by auto
  have "n \<in> dom ?P8" using d7 tn by simp
  then obtain qa csa where qa: "add_basic_blocks n q9 = Some qa" "gen_ready D qa csa (?P8(n := None))"
    "lin qa csa = lin q9 cs8" "vars qa = vars q9" "\<forall>l \<in> set cs8. qs q9 l \<noteq> [] \<longrightarrow> l \<in> set csa \<and> qs qa l \<noteq> []"
    "\<forall>code tgt T. agrees qa csa (?P8(n := None)) code tgt T \<longrightarrow> agrees q9 cs8 ?P8 code tgt (T(n := length (lin q9 cs8)))"
    using place_label[OF q9(3)] by blast
  let ?Pa = "?P8(n := None)"
  have run: "gen_quadr_expr D e q = Some (QA_VAR ?v, qa)"
    using e(2) q1(1) q2(1) q3(1) q4(1) q5(1) q6(1) q7(1) q8(1) q9(1) qa(1) by (simp add: gen_quadr_expr.simps)
  have ag: "agrees q9 cs8 ?P8 code tgt (T(n := length (lin q9 cs8))) \<and> agrees q8 cs8 ?P8 code tgt (T(n := length (lin q9 cs8))) \<and>
      agrees q7 cs7 P7 code tgt (T(n := length (lin q9 cs8), t := length (lin q7 cs7))) \<and>
      agrees q6 cs4 ?P5 code tgt (T(n := length (lin q9 cs8), t := length (lin q7 cs7))) \<and>
      agrees q4 cs4 P3 code tgt (T(n := length (lin q9 cs8), t := length (lin q7 cs7))) \<and>
      agrees q3 cs3 P3 code tgt (T(n := length (lin q9 cs8), t := length (lin q7 cs7))) \<and> agrees q cs P code tgt T"
    if a: "agrees qa csa ?Pa code tgt T" for code tgt T
  proof -
    let ?T = "T(n := length (lin q9 cs8))" and ?T' = "T(n := length (lin q9 cs8), t := length (lin q7 cs7))"
    have a9: "agrees q9 cs8 ?P8 code tgt ?T" using qa(6) a by blast
    have a8: "agrees q8 cs8 ?P8 code tgt ?T" by (rule gstepD(6)[OF q9(2) a9])
    have a7: "agrees q7 cs7 P7 code tgt ?T'" using q8(6) a8 by blast
    have a6: "agrees q6 cs4 ?P5 code tgt ?T'" by (rule gstepD(6)[OF q7(2) a7])
    have a4: "agrees q4 cs4 P3 code tgt ?T'" using q5(7) gstepD(6)[OF q6(2) a6] by blast
    have a3: "agrees q3 cs3 P3 code tgt ?T'" by (rule gstepD(6)[OF q4(2) a4])
    have "agrees q1 cs P code tgt ?T'" using q2(8) gstepD(6)[OF q3(2) a3] by blast
    then have "agrees q cs P code tgt ?T'" by (rule gstepD(6)[OF q1(2)])
    then have "agrees q cs P code tgt T"
      by (rule agrees_irrelevant[rotated]) (use q2(3) q5(3) gstepD(3)[OF g4] in auto)
    then show ?thesis using a9 a8 a7 a6 a4 a3 by blast
  qed
  have g: "gstep q cs P qa csa ?Pa"
    unfolding gstep_def step0_def
  proof (intro conjI ballI impI allI)
    show "layout qa csa ?Pa" "open_end qa csa" using qa(2) by (simp_all add: gen_ready_def)
    obtain ys zs where "vars q1 = vars q @ ys" "vars q3 = vars q2 @ zs" using gstepD(2)[OF q1(2)] gstepD(2)[OF q3(2)] by blast
    then show "\<exists>ys. vars qa = vars q @ ys" using q2(6) q4(4) q5(5) q6(4) q7(3) q8(4) q9(4) qa(4) by simp
    show "dom ?Pa = dom P" using d7 gstepD(3)[OF g4] q2(3) q5(3) by auto
    show "\<And>code tgt T. agrees qa csa ?Pa code tgt T \<Longrightarrow> agrees q cs P code tgt T" using ag by blast
    fix l assume l: "l \<in> set cs" "qs q l \<noteq> []"
    have "qs q2 l \<noteq> []" using gstepD(5)[OF q1(2) l] q2(7) by blast
    then have "l \<in> set cs4 \<and> qs q4 l \<noteq> []" by (rule gstepD(5)[OF g4 l(1)])
    then have "l \<in> set cs7 \<and> qs q7 l \<noteq> []" using gstepD(5)[OF g7] q5(6) by blast
    then have "l \<in> set cs8 \<and> qs q9 l \<noteq> []" using gstepD(5)[OF q9(2)] q8(5) by blast
    then show "l \<in> set csa" "qs qa l \<noteq> []" using qa(5) by blast+
  qed
  have "val_code M D e q cs (QA_VAR ?v) qa csa ?Pa"
    unfolding val_code_def
  proof (intro allI impI)
    fix code tgt T and st :: "'w store" and v w'
    assume a: "agrees qa csa ?Pa code tgt T" "s_par st = []" "eval M D st e (s_world st) = Some (v, w')"
    let ?T = "T(n := length (lin q9 cs8), t := length (lin q7 cs7))"
    obtain b where b: "v = of_bool_val b" using canon[OF a(3)] by blast
    obtain st1 pc where st1: "runs M code tgt (length (lin q2 cs), st) (pc, st1)"
      "if b = True then dest ?P2 tgt ?T t = Some pc else pc = length (lin q3 cs3)"
      "same_upto (length (vars q2)) st st1" "s_par st1 = []" "s_world st1 = w'"
      using cond_codeD[OF q3(4) _ a(2,3)] ag[OF a(1)] b by force
    let ?st = "st1\<lparr>s_var := (s_var st1)(?v := v)\<rparr>"
    have "runs M code tgt (pc, st1) (length (lin qa csa), ?st)"
    proof (cases b)
      case True
      then have pc: "pc = length (lin q8 cs8)" using st1(2) q8(3) by (simp add: dest_def)
      have "runs M code tgt (length (lin q8 cs8), st1) (length (lin q9 cs8), st1\<lparr>s_var := (s_var st1)(?v := VInt 1)\<rparr>)"
        using q9(5) ag[OF a(1)] by blast
      then show ?thesis using pc qa(3) True b by (simp add: of_bool_val_def)
    next
      case False
      then have pc: "pc = length (lin q5 cs4)" using st1(2) q4(3) q5(4) by simp
      have r1: "runs M code tgt (length (lin q5 cs4), st1) (length (lin q6 cs4), st1\<lparr>s_var := (s_var st1)(?v := VInt 0)\<rparr>)"
        using q6(5) ag[OF a(1)] by blast
      have "tgt lb = dest ?P5 tgt ?T n" using q7(5) ag[OF a(1)] by blast
      then have lb: "tgt lb = Some (length (lin qa csa))" using tn qa(3) by (simp add: dest_def)
      have a7: "agrees q7 cs7 P7 code tgt ?T" using ag[OF a(1)] by blast
      have "runs M code tgt (length (lin q6 cs4), st1\<lparr>s_var := (s_var st1)(?v := VInt 0)\<rparr>)
          (length (lin qa csa), st1\<lparr>s_var := (s_var st1)(?v := VInt 0)\<rparr>)"
        by (rule runs_goto[OF a7 q7(4)]) (use lb in \<open>simp_all add: jump_dest_def\<close>)
      then show ?thesis using runs_trans[OF r1] pc False b by (simp add: of_bool_val_def)
    qed
    then have "runs M code tgt (length (lin q cs), st) (length (lin qa csa), ?st)"
      using runs_trans[OF st1(1)] q1(5) q2(5) by simp
    moreover have "same_upto ?v st ?st" using st1(3) q1(4) q2(6) by (simp add: same_upto_def)
    ultimately show "\<exists>st'. runs M code tgt (length (lin q cs), st) (length (lin qa csa), st') \<and>
        arg_val st' (QA_VAR ?v) = Some v \<and> same_upto ?v st st' \<and> s_par st' = [] \<and> s_world st' = w'"
      using st1(4,5) by (intro exI[of _ ?st]) (simp add: arg_val_def)
  qed
  moreover have "arg_in (QA_VAR ?v) qa" using v5 q6(4) q7(3) q8(4) q9(4) qa(4) by (simp add: arg_in_def)
  ultimately show "\<exists>a q' cs' P'. gen_quadr_expr D e q = Some (a, q') \<and> gstep q cs P q' cs' P' \<and> arg_in a q' \<and>
      val_code M D e q cs a q' cs' P'"
    using run g by blast
qed

end
