(* ===== verification/Gen_Props.thy ===== *)
theory Gen_Props
  imports Gen_Cond
begin

text \<open>
  The correctness of the code generator for all typed expressions.
\<close>

subsection \<open>All expressions\<close>

lemma canon_eval:
  assumes "typed G e" and "is_bool_value e" and "eval M D st e w = Some (v, w')"
  shows "\<exists>b. v = of_bool_val b"
proof (cases e)
  case (BINARY nt p ty l r)
  then have ty: "ty = Some type_boolean" using assms(2) by (simp add: is_bool_value_def)
  obtain t where "binary_type nt t = Some type_boolean" using assms(1) BINARY ty by (auto simp: bind_eq_Some_conv)
  then have nt: "nt \<in> {NODE_AND, NODE_OR} \<or> is_cmp_op nt"
    using assms(1) BINARY by (auto simp: binary_type_cases is_cmp_op_def binary_nodes_def split: if_splits)
  then show ?thesis using assms(3) BINARY unfolding cmp_op_iff by (auto simp: bind_eq_Some_conv split: if_splits)
next
  case (UNARY nt p ty a)
  then have "nt = NODE_NOT"
    using assms(1,2) by (auto simp: bind_eq_Some_conv unary_type_cases is_bool_value_def split: if_splits)
  then show ?thesis using assms(3) UNARY by (auto simp: bind_eq_Some_conv)
qed (use assms in \<open>auto simp: is_bool_value_def bind_eq_Some_conv split: if_splits\<close>)

lemma value_ok_gen: "\<not> is_bool_value e \<Longrightarrow> expr_ok M D e (gen_value D e) \<Longrightarrow> value_ok M D e"
  by (simp add: gen_quadr_expr.simps[abs_def] expr_ok_def)

definition gen_ok :: "'w machine \<Rightarrow> decl_env \<Rightarrow> expr \<Rightarrow> bool" where
  "gen_ok M D e \<longleftrightarrow> value_ok M D e \<and>
     (expr_type e = Some type_boolean \<longrightarrow> expr_node e \<noteq> NODE_ARRAY \<longrightarrow> cond_ok M D e)"

lemma gen_okI:
  fixes M :: "'w machine"
  assumes "typed (env_types D) e" and "\<not> is_bool_value e \<Longrightarrow> expr_ok M D e (gen_value D e)"
    and "expr_type e = Some type_boolean \<Longrightarrow> expr_node e \<noteq> NODE_ARRAY \<Longrightarrow> cond_ok M D e"
  shows "gen_ok M D e"
proof (cases "is_bool_value e")
  case True
  then have c: "cond_ok M D e" using assms(3) by (simp add: is_bool_value_def)
  have "value_ok M D e" by (rule bool_value_ok[OF c True]) (rule canon_eval[OF assms(1) True])
  then show ?thesis using c by (simp add: gen_ok_def)
next
  case False
  then show ?thesis using value_ok_gen assms(2,3) by (auto simp: gen_ok_def)
qed

lemma const_gen_ok:
  fixes M :: "'w machine"
  shows "gen_ok M D (INT_NODE p (Some type_int) i)" and "gen_ok M D (DOUBLE_NODE p (Some type_double) d)"
    and "gen_ok M D (BOOL_NODE p (Some type_boolean) i)" and "gen_ok M D (STR_NODE p (Some type_str) s)"
proof -
  have "expr_ok M D (INT_NODE p (Some type_int) i) (quadr_arg TYPE_INT (VA_INT i))"
    by (rule const_ok) (auto simp: quadr_arg0_def arg_val_def)
  then have "expr_ok M D (INT_NODE p (Some type_int) i) (gen_value D (INT_NODE p (Some type_int) i))"
    by (simp add: expr_ok_def)
  then show "gen_ok M D (INT_NODE p (Some type_int) i)" by (intro gen_okI) auto
  have "expr_ok M D (DOUBLE_NODE p (Some type_double) d) (quadr_arg TYPE_DOUBLE (VA_DOUBLE d))"
    by (rule const_ok) (auto simp: quadr_arg0_def arg_val_def)
  then have "expr_ok M D (DOUBLE_NODE p (Some type_double) d) (gen_value D (DOUBLE_NODE p (Some type_double) d))"
    by (simp add: expr_ok_def)
  then show "gen_ok M D (DOUBLE_NODE p (Some type_double) d)" by (intro gen_okI) auto
  show "gen_ok M D (BOOL_NODE p (Some type_boolean) i)"
    by (intro gen_okI) (auto simp: bool_cond is_bool_value_def)
  show "gen_ok M D (STR_NODE p (Some type_str) s)"
    by (intro gen_okI no_code_ok[where a = "QA_STR s"]) (auto simp: arg_in_def arg_val_def)
qed

lemma ident_gen_ok:
  assumes "typed (env_types D) (IDENT p ty s)" and "code_ok (env_types D) (IDENT p ty s)"
  shows "gen_ok M D (IDENT p ty s)"
proof -
  obtain t where t: "ty = Some t" "env_types D s = Some t" using assms(1) by auto
  have f: "cons t \<noteq> TYPE_FUNC" using assms(2) t by (cases t) auto
  show ?thesis by (rule gen_okI[OF assms(1)]) (use ident_ok[OF t(2) f] ident_cond t in auto)
qed

lemma array_gen_ok:
  assumes "typed (env_types D) (ARRAY p ty s i)" and "gen_ok M D i"
  shows "gen_ok M D (ARRAY p ty s i)"
proof -
  obtain q b n where s: "env_types D s = Some (array_type q b n)" using assms(1) by (auto split: option.splits type_t.splits)
  have "value_ok M D i" using assms(2) by (simp add: gen_ok_def)
  then show ?thesis using array_ok[OF _ s] by (intro gen_okI[OF assms(1)]) auto
qed

lemma call_gen_ok:
  fixes M :: "'w machine"
  assumes t: "typed (env_types D) (CALL p ty s as)" and as: "\<forall>a \<in> set as. gen_ok M D (snd a)"
  shows "gen_ok M D (CALL p ty s as)"
proof -
  let ?e = "CALL p ty s as"
  obtain q rt n ts where s: "env_types D s = Some (func_type q rt n ts)" "ty = Some rt"
    using t by (auto split: option.splits type_t.splits)
  have as': "\<forall>a \<in> set as. value_ok M D (snd a)" using as by (simp add: gen_ok_def)
  show ?thesis
  proof (rule gen_okI[OF t])
    show "cond_ok M D ?e" if "expr_type ?e = Some type_boolean" using call_cond[OF as'] s that by auto
    assume "\<not> is_bool_value ?e"
    then have nb: "rt \<noteq> type_boolean" using s(2) by (simp add: is_bool_value_def)
    show "expr_ok M D ?e (gen_value D ?e)"
      unfolding expr_ok_def
    proof (intro allI impI)
      fix q0 cs P assume rd: "gen_ready D q0 cs P"
      obtain a q' cs' P' where c: "gen_call D s (Some rt) as q0 = Some (a, q')" "gstep q0 cs P q' cs' P'" "arg_in a q'"
        "\<forall>code tgt T (st :: 'w store) vs w1 f r w2. agrees q' cs' P' code tgt T \<longrightarrow> s_par st = [] \<longrightarrow>
           eval_args M D st as (s_world st) = Some (vs, w1) \<longrightarrow> sym_func D s = Some f \<longrightarrow> m_call M f vs w1 = Some (r, w2) \<longrightarrow>
           (\<exists>st'. runs M code tgt (length (lin q0 cs), st) (length (lin q' cs'), st') \<and>
              arg_val st' a = Some (if rt = type_void then VVoid else r) \<and>
              same_upto (length (vars q0)) st st' \<and> s_par st' = [] \<and> s_world st' = w2)"
        using call_view[OF as' s(1) rd] by blast
      have "val_code M D ?e q0 cs a q' cs' P'"
        unfolding val_code_def
      proof (intro allI impI)
        fix code tgt T and st :: "'w store" and v w'
        assume ag: "agrees q' cs' P' code tgt T" "s_par st = []" "eval M D st ?e (s_world st) = Some (v, w')"
        obtain vs w1 f r w2 where e: "eval_args M D st as (s_world st) = Some (vs, w1)" "sym_func D s = Some f"
          "m_call M f vs w1 = Some (r, w2)" "v = (if rt = type_void then VVoid else r)" "w' = w2"
          using ag(3) s(2) nb by (auto simp: bind_eq_Some_conv split: if_splits)
        show "\<exists>st'. runs M code tgt (length (lin q0 cs), st) (length (lin q' cs'), st') \<and> arg_val st' a = Some v \<and>
            same_upto (length (vars q0)) st st' \<and> s_par st' = [] \<and> s_world st' = w'"
          using c(4)[rule_format, OF ag(1,2) e(1-3)] e(4,5) by simp
      qed
      then show "\<exists>a q' cs' P'. gen_value D ?e q0 = Some (a, q') \<and> gstep q0 cs P q' cs' P' \<and> arg_in a q' \<and>
          val_code M D ?e q0 cs a q' cs' P'"
        using c(1-3) s(2) by (auto simp del: gen_call.simps)
    qed
  qed
qed

lemma unary_gen_ok:
  fixes M :: "'w machine"
  assumes t: "typed (env_types D) (UNARY nt p ty a)" and c: "code_ok (env_types D) (UNARY nt p ty a)" and a: "gen_ok M D a"
  shows "gen_ok M D (UNARY nt p ty a)"
proof -
  obtain u where u: "ty = Some u" "expr_type a = Some u" "if nt = NODE_NOT then u = type_boolean else u \<in> {type_int, type_double}"
    and nt: "nt \<in> {NODE_NOT, NODE_NEG, NODE_PLUS}"
    using t by (auto simp: bind_eq_Some_conv unary_type_cases unary_nodes_def split: if_splits)
  have va: "value_ok M D a" using a by (simp add: gen_ok_def)
  show ?thesis
  proof (rule gen_okI[OF t])
    assume "expr_type (UNARY nt p ty a) = Some type_boolean"
    then have "nt = NODE_NOT" "u = type_boolean" using u by (auto split: if_splits)
    then show "cond_ok M D (UNARY nt p ty a)" using not_cond[of M D a p] a c u by (simp add: gen_ok_def)
  next
    assume "\<not> is_bool_value (UNARY nt p ty a)"
    then have "nt \<noteq> NODE_NOT" using u by (auto simp: is_bool_value_def)
    moreover have "u = type_double" if "nt = NODE_NEG"
      using c that u(2) typed_static_type[of "env_types D" a] t by auto
    ultimately show "expr_ok M D (UNARY nt p ty a) (gen_value D (UNARY nt p ty a))"
      using nt u neg_ok[OF va, of u p] plus_ok[OF va] by auto
  qed
qed

lemma binary_gen_ok:
  fixes M :: "'w machine"
  assumes t: "typed (env_types D) (BINARY nt p ty l r)" and c: "code_ok (env_types D) (BINARY nt p ty l r)"
    and l: "gen_ok M D l" and r: "gen_ok M D r"
  shows "gen_ok M D (BINARY nt p ty l r)"
proof -
  let ?e = "BINARY nt p ty l r"
  obtain u v where u: "expr_type l = Some u" "expr_type r = Some u" "ty = Some v" "binary_type nt u = Some v"
    "nt \<in> set binary_nodes"
    using t by (auto simp: bind_eq_Some_conv)
  have vl: "value_ok M D l" "value_ok M D r" using l r by (simp_all add: gen_ok_def)
  consider (logic) sh where "nt = andor sh" "u = type_boolean" "v = type_boolean" | (cmp) "is_cmp_op nt" "v = type_boolean"
    | (arith) op where "binop_op nt = Some op" "v \<in> {type_int, type_double}" "nt \<notin> {NODE_AND, NODE_OR}" "\<not> is_cmp_op nt"
    using u(4,5) by (auto simp: binary_type_cases binary_nodes_def is_cmp_op_def split: if_splits) force+
  then show ?thesis
  proof cases
    case logic
    have "cond_ok M D l" "cond_ok M D r" using l r c u(1,2) logic by (auto simp: gen_ok_def split: if_splits)
    then have "cond_ok M D ?e" using andor_cond[of M D l r sh p] logic u(3) by simp
    then show ?thesis using logic u(3) by (intro gen_okI[OF t]) (auto simp: is_bool_value_def)
  next
    case cmp
    then have "cond_ok M D ?e" using cmp_ok[OF vl] u(3) by simp
    moreover have "is_bool_value ?e" using cmp u(3) by (auto simp: is_bool_value_def is_cmp_op_def)
    ultimately show ?thesis by (intro gen_okI[OF t]) auto
  next
    case arith
    then show ?thesis
      using binop_ok[OF vl arith(1) _ arith(3,4), of v p] u(3) by (intro gen_okI[OF t]) (auto simp: storable_def)
  qed
qed

lemma expr_gen_ok:
  "typed (env_types D) e \<Longrightarrow> code_ok (env_types D) e \<Longrightarrow> gen_ok M D e"
proof (induction e)
  case (CALL p ty s as)
  then have "\<forall>a \<in> set as. gen_ok M D (snd a)" by (fastforce intro: snds.intros)
  then show ?case using CALL.prems by (intro call_gen_ok) auto
qed (use const_gen_ok in \<open>auto intro!: binary_gen_ok unary_gen_ok ident_gen_ok array_gen_ok\<close>)

subsection \<open>The code of a function without open labels\<close>

definition block_start :: "quadr_st \<Rightarrow> block_id list \<Rightarrow> block_id \<Rightarrow> nat option" where
  "block_start q cs l = (if l \<in> set cs then Some (pos q cs l) else None)"

lemma agrees_final: "dom P = {} \<Longrightarrow> agrees q cs P (lin q cs) (block_start q cs) T"
  by (simp add: agrees_def block_start_def)

text \<open>The first component of a declaration is the type that the type checker sees.\<close>

lemma static_type_erase: "static_type G (erase e) = static_type G e"
  by (induction e) auto

lemma code_ok_erase: "code_ok G (erase e) = code_ok G e"
proof (induction e)
  case (BINARY nt p ty l r)
  have "expr_node (erase x) = expr_node x" for x by (cases x) auto
  then show ?case using BINARY by simp
next
  case (UNARY nt p ty a)
  have "expr_node (erase a) = expr_node a" by (cases a) auto
  then show ?case using UNARY by (simp add: static_type_erase)
next
  case (CALL p ty s as)
  have "code_ok G (erase (snd a)) = code_ok G (snd a)" if "a \<in> set as" for a
    using CALL[OF that] by (cases a) auto
  then show ?case by simp
qed auto

subsection \<open>Assignments\<close>

text \<open>What an assignment means.\<close>

definition assign_store :: "'w machine \<Rightarrow> decl_env \<Rightarrow> expr \<Rightarrow> expr \<Rightarrow> 'w store \<Rightarrow> 'w store option" where
  "assign_store M D lv e st = do {
     (v, w) \<leftarrow> eval M D st e (s_world st);
     (case lv of
        IDENT p ty s \<Rightarrow> do { x \<leftarrow> sym_var D s; Some (st\<lparr>s_var := (s_var st)(x := v), s_world := w\<rparr>) }
      | ARRAY p ty s i \<Rightarrow> do {
          (k, w) \<leftarrow> eval M D st i w;
          a \<leftarrow> sym_var D s;
          (case k of
             VInt k \<Rightarrow> do {
               old \<leftarrow> s_arr st a k;
               Some (st\<lparr>s_arr := (s_arr st)(a := (s_arr st a)(k \<mapsto> v)), s_world := w\<rparr>)
             }
           | _ \<Rightarrow> None)
        }
      | _ \<Rightarrow> None)
   }"

definition store_upto :: "nat \<Rightarrow> 'w store \<Rightarrow> 'w store \<Rightarrow> bool" where
  "store_upto n st st' \<longleftrightarrow> (\<forall>v < n. s_var st' v = s_var st v) \<and> s_arr st' = s_arr st \<and> s_par st' = s_par st \<and>
     s_world st' = s_world st"

fun lvalue_ok :: "(sym \<rightharpoonup> type_t) \<Rightarrow> expr \<Rightarrow> bool" where
  "lvalue_ok G (IDENT p ty s) \<longleftrightarrow> (\<exists>t. G s = Some t \<and> cons t \<noteq> TYPE_FUNC)"
| "lvalue_ok G (ARRAY p ty s i) \<longleftrightarrow> (\<exists>q b n. G s = Some (array_type q b n)) \<and> typed G i \<and> code_ok G i"
| "lvalue_ok G e \<longleftrightarrow> False"

lemma assign_var_ok:
  fixes M :: "'w machine"
  assumes e: "value_ok M D e" and s: "env_types D s = Some t" "cons t \<noteq> TYPE_FUNC" and rd: "gen_ready D q cs P"
  shows "\<exists>q' cs' P'. gen_assign_node D (IDENT p ty s) e q = Some q' \<and> gstep q cs P q' cs' P' \<and> gen_ready D q' cs' P' \<and>
    (\<forall>code tgt T (st :: 'w store) st1. agrees q' cs' P' code tgt T \<longrightarrow> s_par st = [] \<longrightarrow>
       assign_store M D (IDENT p ty s) e st = Some st1 \<longrightarrow>
       (\<exists>st'. runs M code tgt (length (lin q cs), st) (length (lin q' cs'), st') \<and> store_upto (length (vars q)) st1 st'))"
proof -
  obtain x where x: "sym_var D s = Some x" using env_var[OF _ s] rd by (auto simp: gen_ready_def)
  obtain a q1 cs1 P1 where q1: "gen_quadr_expr D e q = Some (a, q1)" "gstep q cs P q1 cs1 P1" "gen_ready D q1 cs1 P1"
    "val_code M D e q cs a q1 cs1 P1" using expr_okD[OF e rd] by blast
  let ?x = "\<lparr>q_op = Q_COPY, q_result = QA_VAR x, q_arg1 = a, q_arg2 = QA_NONE\<rparr>"
  obtain q2 where q2: "add_quadr (cur_block q1) ?x q1 = Some q2" "gstep q1 cs1 P1 q2 cs1 P1" "gen_ready D q2 cs1 P1"
    "lin q2 cs1 = lin q1 cs1 @ [?x]"
    using emit_view[OF q1(3), of ?x] by auto
  have run: "\<exists>st'. runs M code tgt (length (lin q cs), st) (length (lin q2 cs1), st') \<and> store_upto (length (vars q)) st1 st'"
    if ag: "agrees q2 cs1 P1 code tgt T" "s_par st = []" "assign_store M D (IDENT p ty s) e st = Some st1"
    for code tgt T and st :: "'w store" and st1
  proof -
    obtain v w where v: "eval M D st e (s_world st) = Some (v, w)" "st1 = st\<lparr>s_var := (s_var st)(x := v), s_world := w\<rparr>"
      using ag(3) x by (auto simp: assign_store_def bind_eq_Some_conv)
    obtain st2 where st2: "runs M code tgt (length (lin q cs), st) (length (lin q1 cs1), st2)" "arg_val st2 a = Some v"
      "same_upto (length (vars q)) st st2" "s_par st2 = []" "s_world st2 = w"
      using val_codeD[OF q1(4) gstepD(6)[OF q2(2) ag(1)] ag(2) v(1)] by blast
    let ?st = "st2\<lparr>s_var := (s_var st2)(x := v)\<rparr>"
    have "exec_op M ?x st2 = Some ?st" using st2(2) by (simp add: exec_op_def arith_ops_def set_result_def)
    then have "runs M code tgt (length (lin q1 cs1), st2) (length (lin q2 cs1), ?st)" using runs_op[OF ag(1) q2(4)] by simp
    moreover have "store_upto (length (vars q)) st1 ?st"
      using st2(3-5) ag(2) v(2) by (auto simp: store_upto_def same_upto_def)
    ultimately show ?thesis using runs_trans[OF st2(1)] by blast
  qed
  have "gen_assign_node D (IDENT p ty s) e q = Some q2"
    using x q1(1) q2(1) by (simp add: gen_assign_node_def gen_assign_def gen_copy_def)
  then show ?thesis using run q2(3) gstep_trans[OF q1(2) q2(2)] by blast
qed

lemma assign_array_ok:
  fixes M :: "'w machine"
  assumes e: "value_ok M D e" and i: "value_ok M D i" and s: "env_types D s = Some (array_type p0 b n)"
    and rd: "gen_ready D q cs P"
  shows "\<exists>q' cs' P'. gen_assign_node D (ARRAY p ty s i) e q = Some q' \<and> gstep q cs P q' cs' P' \<and> gen_ready D q' cs' P' \<and>
    (\<forall>code tgt T (st :: 'w store) st1. agrees q' cs' P' code tgt T \<longrightarrow> s_par st = [] \<longrightarrow>
       assign_store M D (ARRAY p ty s i) e st = Some st1 \<longrightarrow>
       (\<exists>st'. runs M code tgt (length (lin q cs), st) (length (lin q' cs'), st') \<and> store_upto (length (vars q)) st1 st'))"
proof -
  obtain a1 q1 cs1 P1 where q1: "gen_quadr_expr D e q = Some (a1, q1)" "gstep q cs P q1 cs1 P1" "gen_ready D q1 cs1 P1"
    "arg_in a1 q1" "val_code M D e q cs a1 q1 cs1 P1" using expr_okD[OF e rd] by blast
  obtain a2 q2 cs2 P2 where q2: "gen_quadr_expr D i q1 = Some (a2, q2)" "gstep q1 cs1 P1 q2 cs2 P2" "gen_ready D q2 cs2 P2"
    "arg_in a2 q2" "val_code M D i q1 cs1 a2 q2 cs2 P2" using expr_okD[OF i q1(3)] by blast
  have env: "env_ok D q" "env_ok D q2" using rd q2(3) by (simp_all add: gen_ready_def)
  obtain v where v: "sym_var D s = Some v" "var_ok q2 (array_type p0 b n) v" using env_var[OF env(2) s] by auto
  let ?n = "length (vars q2)"
  obtain q3 where q3: "gen_get_addr v q2 = Some (?n, q3)" "gstep q2 cs2 P2 q3 cs2 P2" "gen_ready D q3 cs2 P2"
    "\<forall>code tgt T (st :: 'w store). agrees q3 cs2 P2 code tgt T \<longrightarrow> runs M code tgt (length (lin q2 cs2), st)
         (length (lin q3 cs2), st\<lparr>s_var := (s_var st)(?n := VPtr v)\<rparr>)"
    using get_addr_view[OF q2(3) v(2), of M] by blast
  let ?x = "\<lparr>q_op = Q_WRITE_PTR, q_result = QA_VAR ?n, q_arg1 = a2, q_arg2 = a1\<rparr>"
  obtain q4 where q4: "add_quadr (cur_block q3) ?x q3 = Some q4" "gstep q3 cs2 P2 q4 cs2 P2" "gen_ready D q4 cs2 P2"
    "lin q4 cs2 = lin q3 cs2 @ [?x]"
    using emit_view[OF q3(3), of ?x] by auto
  note g = gstep_trans[OF q1(2) gstep_trans[OF q2(2) gstep_trans[OF q3(2) q4(2)]]]
  have a1: "arg_in a1 q2" using arg_in_step[OF q1(4) q2(2)] .
  have run: "\<exists>st'. runs M code tgt (length (lin q cs), st) (length (lin q4 cs2), st') \<and> store_upto (length (vars q)) st1 st'"
    if ag: "agrees q4 cs2 P2 code tgt T" "s_par st = []" "assign_store M D (ARRAY p ty s i) e st = Some st1"
    for code tgt T and st :: "'w store" and st1
  proof -
    obtain x w1 y w2 where y: "eval M D st e (s_world st) = Some (x, w1)" "eval M D st i w1 = Some (y, w2)"
      "(case y of VInt k \<Rightarrow> do { old \<leftarrow> s_arr st v k;
          Some (st\<lparr>s_arr := (s_arr st)(v := (s_arr st v)(k \<mapsto> x)), s_world := w2\<rparr>) } | _ \<Rightarrow> None) = Some st1"
      using ag(3) v(1) by (auto simp: assign_store_def bind_eq_Some_conv)
    then obtain k old where k: "y = VInt k" "s_arr st v k = Some old"
      "st1 = st\<lparr>s_arr := (s_arr st)(v := (s_arr st v)(k \<mapsto> x)), s_world := w2\<rparr>"
      by (cases y) (auto simp: bind_eq_Some_conv)
    have a3: "agrees q3 cs2 P2 code tgt T" by (rule gstepD(6)[OF q4(2) ag(1)])
    obtain st2 where st2: "runs M code tgt (length (lin q cs), st) (length (lin q2 cs2), st2)" "arg_val st2 a1 = Some x"
      "arg_val st2 a2 = Some y" "same_upto (length (vars q)) st st2" "s_par st2 = []" "s_world st2 = w2"
      using val_code2[OF env(1) q1(2) q2(2) q1(5,4) q2(5) gstepD(6)[OF q3(2) a3] ag(2) y(1,2)] by blast
    let ?st3 = "st2\<lparr>s_var := (s_var st2)(?n := VPtr v)\<rparr>"
    let ?st = "?st3\<lparr>s_arr := (s_arr st2)(v := (s_arr st2 v)(k \<mapsto> x))\<rparr>"
    have r3: "runs M code tgt (length (lin q2 cs2), st2) (length (lin q3 cs2), ?st3)" using q3(4) a3 by blast
    have "arg_val ?st3 a1 = Some x" "arg_val ?st3 a2 = Some (VInt k)"
      using arg_val_same[OF _ a1, of st2 ?st3] arg_val_same[OF _ q2(4), of st2 ?st3] st2(2,3) k(1) by simp_all
    moreover have "s_arr ?st3 v k = Some old" using st2(4) k(2) by (simp add: same_upto_def)
    ultimately have "exec_op M ?x ?st3 = Some ?st"
      by (simp add: exec_op_def arith_ops_def) (simp add: arg_val_def)
    then have "runs M code tgt (length (lin q3 cs2), ?st3) (length (lin q4 cs2), ?st)" using runs_op[OF ag(1) q4(4)] by simp
    then have "runs M code tgt (length (lin q cs), st) (length (lin q4 cs2), ?st)"
      using runs_trans[OF runs_trans[OF st2(1) r3]] by blast
    moreover have "length (vars q) \<le> ?n" using gstepD(4)[OF gstep_trans[OF q1(2) q2(2)]] .
    then have "store_upto (length (vars q)) st1 ?st"
      using st2(4-6) ag(2) k(3) by (simp add: store_upto_def same_upto_def)
    ultimately show ?thesis by blast
  qed
  have "gen_assign_node D (ARRAY p ty s i) e q = Some q4"
    using v(1) q1(1) q2(1) q3(1) q4(1) by (simp add: gen_assign_node_def gen_write_ptr_def)
  then show ?thesis using run q4(3) g by blast
qed

subsection \<open>An example\<close>

definition exg_M :: "unit machine" where
  "exg_M = \<lparr>m_dadd = \<lambda>a b. a, m_dsub = \<lambda>a b. a, m_dmul = \<lambda>a b. a, m_ddiv = \<lambda>a b. a,
     m_deq = \<lambda>a b. None, m_dlt = \<lambda>a b. None, m_call = \<lambda>f vs w. None\<rparr>"

definition exg_var :: "type_t \<Rightarrow> var_t" where
  "exg_var t = \<lparr>v_type = t, v_loc = None, v_size = -1, v_live = False, v_qtype = VT_INT\<rparr>"

definition exg_D :: decl_env where
  \<comment> \<open>\<open>x\<close> is an int, \<open>b\<close> a boolean\<close>
  "exg_D = [''x'' \<mapsto> \<lparr>d_type = type_int, d_scope = 1, initialized = True, d_u = U_VAR 0\<rparr>,
    ''b'' \<mapsto> \<lparr>d_type = type_boolean, d_scope = 1, initialized = True, d_u = U_VAR 1\<rparr>]"

definition exg_q :: quadr_st where
  "exg_q = quadr_init\<lparr>quadr_func := [\<lparr>qf_type = func_type 0 type_int 0 [], qf_blocks = Some 0,
       vars_lst = [\<lparr>node_vars = [0, 1], vars_size = 64\<rparr>], qf_name = ''f'', qf_tag = QF_USER_DEFINED\<rparr>],
     blocks := [0 \<mapsto> empty_block, 1 \<mapsto> empty_block], next_block_id := 2, cur_block := Some 0, cur_func := Some 0,
     vars := [exg_var type_int, exg_var type_boolean]\<rparr>"

definition exg_st :: "unit store" where
  "exg_st = \<lparr>s_var = (\<lambda>v. VInt (if v = 0 then 5 else 1)), s_arr = (\<lambda>a k. None), s_par = [], s_world = ()\<rparr>"

text \<open>\<open>x + 1\<close> and \<open>b && x < 3\<close>, with \<open>x = 5\<close> and \<open>b = true\<close>.\<close>

definition exg_sum :: expr where
  "exg_sum = BINARY NODE_ADD pos0 (Some type_int) (IDENT pos0 (Some type_int) ''x'') (INT_NODE pos0 (Some type_int) 1)"

definition exg_cond :: expr where
  "exg_cond = BINARY NODE_AND pos0 (Some type_boolean) (IDENT pos0 (Some type_boolean) ''b'')
     (BINARY NODE_LT pos0 (Some type_boolean) (IDENT pos0 (Some type_int) ''x'') (INT_NODE pos0 (Some type_int) 3))"

lemma exg_ready: "gen_ready exg_D exg_q [0] Map.empty"
  by (simp add: gen_ready_def layout_def placed_ok_def pend_ok_def fun_ok_def open_end_def qs_def env_ok_def
      exg_q_def exg_D_def quadr_init_def empty_block_def decl_ok_def var_ok_def storable_def exg_var_def)

lemma exg_label: "gen_ready exg_D exg_q [0] [1 \<mapsto> [1]]"
  using exg_ready
  by (auto simp: gen_ready_def layout_def pend_ok_def detached_def qs_def exg_q_def empty_block_def)

lemma exg_typed: "typed (env_types exg_D) exg_sum" "code_ok (env_types exg_D) exg_sum"
    "typed (env_types exg_D) exg_cond" "code_ok (env_types exg_D) exg_cond"
  by (simp_all add: exg_sum_def exg_cond_def exg_D_def env_types_def binary_nodes_def binary_type_def)

lemma exg_eval: "eval exg_M exg_D exg_st exg_sum (s_world exg_st) = Some (VInt 6, ())"
    "eval exg_M exg_D exg_st exg_cond (s_world exg_st) = Some (of_bool_val False, ())"
  by (simp_all add: exg_sum_def exg_cond_def exg_D_def sym_var_def exg_st_def is_cmp_op_def of_bool_val_def)

subsection \<open>The properties\<close>

text \<open>
  C1: The code generator for expressions.  On a typed expression of \<open>code_ok\<close> (no function used
  as a variable, no array element as an operand of \<open>&&\<close>, \<open>||\<close> or \<open>!\<close>, where quadr.c:618
  aborts, and no negation of an int, where quadr.c:497 is undefined) \<open>gen_quadr_expr\<close> returns,
  the layout of the blocks is kept, and in every final code that agrees with its result the
  quadruples that it has made run to their end and leave the value of the expression in the
  argument \<open>a\<close>, the earlier variables and the arrays as they were, and the world as evaluation
  leaves it.
\<close>

theorem gen_quadr_expr_correct:
  assumes "typed (env_types D) e" and "code_ok (env_types D) e" and "gen_ready D q cs P"
  shows "\<exists>a q' cs' P'. gen_quadr_expr D e q = Some (a, q') \<and> gstep q cs P q' cs' P' \<and> gen_ready D q' cs' P' \<and>
    (\<forall>code tgt T st v w'. agrees q' cs' P' code tgt T \<longrightarrow> s_par st = [] \<longrightarrow>
       eval M D st e (s_world st) = Some (v, w') \<longrightarrow>
       (\<exists>st'. runs M code tgt (length (lin q cs), st) (length (lin q' cs'), st') \<and> arg_val st' a = Some v \<and>
          (\<forall>u < length (vars q). s_var st' u = s_var st u) \<and> s_arr st' = s_arr st \<and> s_par st' = [] \<and> s_world st' = w'))"
proof -
  have "value_ok M D e" using expr_gen_ok[OF assms(1,2), of M] by (simp add: gen_ok_def)
  from expr_okD[OF this assms(3)] show ?thesis by (simp only: val_code_def same_upto_def conj_assoc) blast
qed

lemma gen_quadr_expr_correct_witness:
  "\<exists>a q' cs' st'. gen_quadr_expr exg_D exg_sum exg_q = Some (a, q') \<and>
     runs exg_M (lin q' cs') (block_start q' cs') (length (lin exg_q [0]), exg_st) (length (lin q' cs'), st') \<and>
     arg_val st' a = Some (VInt 6) \<and> s_var st' 0 = VInt 5"
proof -
  obtain a q' cs' P' where q': "gen_quadr_expr exg_D exg_sum exg_q = Some (a, q')" "gstep exg_q [0] Map.empty q' cs' P'"
    "\<forall>code tgt T st v w'. agrees q' cs' P' code tgt T \<longrightarrow> s_par st = [] \<longrightarrow>
       eval exg_M exg_D st exg_sum (s_world st) = Some (v, w') \<longrightarrow>
       (\<exists>st'. runs exg_M code tgt (length (lin exg_q [0]), st) (length (lin q' cs'), st') \<and> arg_val st' a = Some v \<and>
          (\<forall>u < length (vars exg_q). s_var st' u = s_var st u) \<and> s_arr st' = s_arr st \<and> s_par st' = [] \<and> s_world st' = w')"
    using gen_quadr_expr_correct[where M = exg_M, OF exg_typed(1,2) exg_ready] by blast
  have "dom P' = {}" using gstepD(3)[OF q'(2)] by simp
  then have a: "agrees q' cs' P' (lin q' cs') (block_start q' cs') (\<lambda>_. 0)" by (rule agrees_final)
  have "s_par exg_st = []" by (simp add: exg_st_def)
  from q'(3)[rule_format, OF a this exg_eval(1)] obtain st' where st':
    "runs exg_M (lin q' cs') (block_start q' cs') (length (lin exg_q [0]), exg_st) (length (lin q' cs'), st')"
    "arg_val st' a = Some (VInt 6)" "\<forall>u < length (vars exg_q). s_var st' u = s_var exg_st u" by blast
  have "s_var st' 0 = VInt 5" using st'(3) by (simp add: exg_q_def exg_st_def)
  then show ?thesis using q'(1) st' by blast
qed

text \<open>
  C4: The code generator for conditions.  On a typed boolean expression of \<open>code_ok\<close> (as for
  expressions) that is not itself an element of an array (quadr.c:618 aborts on one)
  \<open>gen_quadr_bool_expr\<close> returns, and the quadruples that it has made jump to the label if the condition has the value
  \<open>jmp_if_true\<close>, and run to their end otherwise; nothing but the new variables and the world
  has changed.
\<close>

theorem gen_quadr_bool_expr_correct:
  assumes "typed (env_types D) e" and "code_ok (env_types D) e"
    and "expr_type e = Some type_boolean" and "expr_node e \<noteq> NODE_ARRAY"
    and "gen_ready D q cs P" and "label_ok q cs P L"
  shows "\<exists>q' cs' P'. gen_quadr_bool_expr D e L jmp_if_true q = Some q' \<and> gstep q cs P q' cs' P' \<and> gen_ready D q' cs' P' \<and>
    (\<forall>code tgt T st v b w'. agrees q' cs' P' code tgt T \<longrightarrow> s_par st = [] \<longrightarrow>
       eval M D st e (s_world st) = Some (v, w') \<longrightarrow> as_bool v = Some b \<longrightarrow>
       (\<exists>st' pc. runs M code tgt (length (lin q cs), st) (pc, st') \<and>
          (if b = jmp_if_true then dest P tgt T L = Some pc else pc = length (lin q' cs')) \<and>
          (\<forall>u < length (vars q). s_var st' u = s_var st u) \<and> s_arr st' = s_arr st \<and> s_par st' = [] \<and> s_world st' = w'))"
proof -
  have "cond_ok M D e" using expr_gen_ok[OF assms(1,2), of M] assms(3,4) by (simp add: gen_ok_def)
  from cond_okD[OF this assms(5,6), of jmp_if_true] show ?thesis
    by (simp only: cond_code_def same_upto_def conj_assoc)
qed

lemma gen_quadr_bool_expr_correct_witness:
  "\<exists>q' cs' P'. gen_quadr_bool_expr exg_D exg_cond 1 False exg_q = Some q' \<and>
     (\<forall>code tgt T. agrees q' cs' P' code tgt T \<longrightarrow>
       (\<exists>st'. runs exg_M code tgt (length (lin exg_q [0]), exg_st) (T 1, st')))"
proof -
  have e: "expr_type exg_cond = Some type_boolean" "expr_node exg_cond \<noteq> NODE_ARRAY" by (simp_all add: exg_cond_def)
  have l: "label_ok exg_q [0] [1 \<mapsto> [1]] 1" by (simp add: label_ok_def)
  obtain q' cs' P' where q': "gen_quadr_bool_expr exg_D exg_cond 1 False exg_q = Some q'"
    "\<forall>code tgt T st v b w'. agrees q' cs' P' code tgt T \<longrightarrow> s_par st = [] \<longrightarrow>
       eval exg_M exg_D st exg_cond (s_world st) = Some (v, w') \<longrightarrow> as_bool v = Some b \<longrightarrow>
       (\<exists>st' pc. runs exg_M code tgt (length (lin exg_q [0]), st) (pc, st') \<and>
          (if b = False then dest [1 \<mapsto> [1]] tgt T 1 = Some pc else pc = length (lin q' cs')) \<and>
          (\<forall>u < length (vars exg_q). s_var st' u = s_var st u) \<and> s_arr st' = s_arr st \<and> s_par st' = [] \<and> s_world st' = w')"
    using gen_quadr_bool_expr_correct[where M = exg_M, OF exg_typed(3,4) e exg_label l, of False] by blast
  have s: "s_par exg_st = []" by (simp add: exg_st_def)
  have "\<exists>st'. runs exg_M code tgt (length (lin exg_q [0]), exg_st) (T 1, st')" if "agrees q' cs' P' code tgt T" for code tgt T
    using q'(2)[rule_format, OF that s exg_eval(2) as_bool_of_bool_val] by (auto simp: dest_def)
  then show ?thesis using q'(1) by blast
qed

text \<open>
  C14: Assignments.  For a variable or an element of a declared array, with a typed index of
  \<open>code_ok\<close>, on the left, and a typed expression of \<open>code_ok\<close> on the right, \<open>gen_quadr\<close> on
  the \<open>ASSIGN\<close> node returns, and the code, run from the end of the code before it, changes the variables of the program,
  the arrays and the world as the assignment does; no label is left open.
\<close>

theorem gen_assign_correct:
  assumes "typed (env_types D) e" and "code_ok (env_types D) e" and "lvalue_ok (env_types D) lv"
    and "gen_ready D q cs Map.empty"
  shows "\<exists>q' cs'. gen_quadr D (ASSIGN p lv e) q = Some q' \<and> gen_ready D q' cs' Map.empty \<and>
    (\<forall>st st1. s_par st = [] \<longrightarrow> assign_store M D lv e st = Some st1 \<longrightarrow>
       (\<exists>st'. runs M (lin q' cs') (block_start q' cs') (length (lin q cs), st) (length (lin q' cs'), st') \<and>
          store_upto (length (vars q)) st1 st'))"
proof -
  have e: "value_ok M D e" using expr_gen_ok[OF assms(1,2), of M] by (simp add: gen_ok_def)
  have "\<exists>q' cs' P'. gen_assign_node D lv e q = Some q' \<and> gstep q cs Map.empty q' cs' P' \<and> gen_ready D q' cs' P' \<and>
    (\<forall>code tgt T st st1. agrees q' cs' P' code tgt T \<longrightarrow> s_par st = [] \<longrightarrow> assign_store M D lv e st = Some st1 \<longrightarrow>
       (\<exists>st'. runs M code tgt (length (lin q cs), st) (length (lin q' cs'), st') \<and> store_upto (length (vars q)) st1 st'))"
    using assms(3)
  proof (cases lv)
    case (IDENT p ty s)
    then obtain t where "env_types D s = Some t" "cons t \<noteq> TYPE_FUNC" using assms(3) by auto
    then show ?thesis unfolding IDENT by (rule assign_var_ok[OF e _ _ assms(4)])
  next
    case (ARRAY p ty s i)
    then obtain q b n where "env_types D s = Some (array_type q b n)" "typed (env_types D) i" "code_ok (env_types D) i"
      using assms(3) by auto
    moreover have "value_ok M D i" using expr_gen_ok[of D i M] calculation by (simp add: gen_ok_def)
    ultimately show ?thesis unfolding ARRAY using assign_array_ok[OF e _ _ assms(4)] by blast
  qed auto
  then obtain q' cs' P' where q': "gen_assign_node D lv e q = Some q'" "gstep q cs Map.empty q' cs' P'" "gen_ready D q' cs' P'"
    "\<forall>code tgt T st st1. agrees q' cs' P' code tgt T \<longrightarrow> s_par st = [] \<longrightarrow> assign_store M D lv e st = Some st1 \<longrightarrow>
       (\<exists>st'. runs M code tgt (length (lin q cs), st) (length (lin q' cs'), st') \<and> store_upto (length (vars q)) st1 st')"
    by blast
  have P: "P' = Map.empty" using gstepD(3)[OF q'(2)] by simp
  have "agrees q' cs' P' (lin q' cs') (block_start q' cs') (\<lambda>_. 0)" by (rule agrees_final) (simp add: P)
  moreover have "gen_quadr D (ASSIGN p lv e) q = Some q'" using q'(1) by (simp add: gen_quadr_def)
  ultimately show ?thesis using q'(3,4) unfolding P by blast
qed

lemma gen_assign_correct_witness:
  "\<exists>q' cs' st'. gen_quadr exg_D (ASSIGN pos0 (IDENT pos0 None ''x'') exg_sum) exg_q = Some q' \<and>
     runs exg_M (lin q' cs') (block_start q' cs') (length (lin exg_q [0]), exg_st) (length (lin q' cs'), st') \<and>
     s_var st' 0 = VInt 6 \<and> s_var st' 1 = VInt 1"
proof -
  let ?st1 = "exg_st\<lparr>s_var := (s_var exg_st)(0 := VInt 6), s_world := ()\<rparr>"
  have "lvalue_ok (env_types exg_D) (IDENT pos0 None ''x'')" by (simp add: env_types_def exg_D_def)
  from gen_assign_correct[where M = exg_M, OF exg_typed(1,2) this exg_ready, of pos0] obtain q' cs' where
    q': "gen_quadr exg_D (ASSIGN pos0 (IDENT pos0 None ''x'') exg_sum) exg_q = Some q'"
    "\<forall>st st1. s_par st = [] \<longrightarrow> assign_store exg_M exg_D (IDENT pos0 None ''x'') exg_sum st = Some st1 \<longrightarrow>
       (\<exists>st'. runs exg_M (lin q' cs') (block_start q' cs') (length (lin exg_q [0]), st) (length (lin q' cs'), st') \<and>
          store_upto (length (vars exg_q)) st1 st')"
    by blast
  have s: "s_par exg_st = []" "assign_store exg_M exg_D (IDENT pos0 None ''x'') exg_sum exg_st = Some ?st1"
    using exg_eval(1) by (simp_all add: exg_st_def assign_store_def sym_var_def exg_D_def)
  obtain st' where st': "store_upto (length (vars exg_q)) ?st1 st'"
    "runs exg_M (lin q' cs') (block_start q' cs') (length (lin exg_q [0]), exg_st) (length (lin q' cs'), st')"
    using q'(2)[rule_format, OF s] by blast
  have "s_var st' 0 = VInt 6" "s_var st' 1 = VInt 1" using st'(1) by (simp_all add: store_upto_def exg_q_def exg_st_def)
  then show ?thesis using q'(1) st'(2) by blast
qed

text \<open>
  C15: From the type checker to the code.  When \<open>type_check\<close> accepts an expression of \<open>code_ok\<close>
  (no function used as a variable, no array element as an operand of \<open>&&\<close>, \<open>||\<close> or \<open>!\<close>, no
  negation of an int) and the declarations have the types that the checker has seen, the code
  generator translates the annotated tree, which is the same expression, and the code computes
  the value of the expression.  What \<open>code_ok\<close> leaves out the checker accepts too, but there is
  no defined code for it.
\<close>

theorem checked_expr_compiles:
  assumes "untyped e" and "type_check e ts = Some (True, e', ts')"
    and "env_types D = types_of ts" and "code_ok (env_types D) e" and "gen_ready D q cs P"
  shows "erase e' = erase e \<and> (\<exists>a q' cs' P'. gen_quadr_expr D e' q = Some (a, q') \<and> gen_ready D q' cs' P' \<and>
    (\<forall>code tgt T st v w'. agrees q' cs' P' code tgt T \<longrightarrow> s_par st = [] \<longrightarrow>
       eval M D st e' (s_world st) = Some (v, w') \<longrightarrow>
       (\<exists>st'. runs M code tgt (length (lin q cs), st) (length (lin q' cs'), st') \<and> arg_val st' a = Some v \<and>
          (\<forall>u < length (vars q). s_var st' u = s_var st u) \<and> s_arr st' = s_arr st \<and> s_par st' = [] \<and> s_world st' = w')))"
proof -
  have t: "typed (env_types D) e'" "erase e' = erase e"
    using type_check_core[OF assms(1,2)] assms(3) by (auto simp: check_post_def)
  then have "code_ok (env_types D) e'" using assms(4) code_ok_erase by metis
  then have "value_ok M D e'" using expr_gen_ok[OF t(1), of M] by (simp add: gen_ok_def)
  then obtain a q' cs' P' where "gen_quadr_expr D e' q = Some (a, q')" "gen_ready D q' cs' P'" "val_code M D e' q cs a q' cs' P'"
    using expr_okD[OF _ assms(5)] by blast
  then show ?thesis using t(2) unfolding val_code_def same_upto_def by blast
qed

definition exg_ts :: tree_st where
  "exg_ts = st_xa\<lparr>sym_decl := (\<lambda>s. case exg_D s of Some d \<Rightarrow> [d] | None \<Rightarrow> [])\<rparr>"

lemma checked_expr_compiles_witness:
  "\<exists>e' ts' r. type_check (erase exg_sum) exg_ts = Some (True, e', ts') \<and> gen_quadr_expr exg_D e' exg_q = Some r"
proof -
  have u: "untyped (erase exg_sum)" by (simp add: exg_sum_def)
  have e: "env_types exg_D = types_of exg_ts"
    by (auto simp: env_types_def types_of_def exg_ts_def lookup_def fun_eq_iff split: option.split)
  have "\<exists>e' ts'. type_check (erase exg_sum) exg_ts = Some (True, e', ts')"
    by (simp add: exg_sum_def exg_ts_def exg_D_def type_check_def lookup_def binary_type_def binary_nodes_def
        st_xa_def Let_def)
  then obtain e' ts' where c: "type_check (erase exg_sum) exg_ts = Some (True, e', ts')" by blast
  have "code_ok (env_types exg_D) (erase exg_sum)" using exg_typed(2) by (simp add: code_ok_erase)
  from checked_expr_compiles[where M = exg_M, OF u c e this exg_ready] c show ?thesis by blast
qed

end
