(* ===== verification/Opt.thy ===== *)
theory Opt
  imports Exec
begin

text \<open>
  The local optimizer \<open>src/src/opt.cpp\<close>.  \<open>optimize_local\<close> turns the arithmetic of a
  block into a graph in which equal expressions are shared, and makes new quadruples from the
  graph; \<open>optimize_local_2\<close> removes copies and dead assignments.

  A graph node is a number, the key of the node in \<open>gnodes\<close>; the field \<open>loc\<close> of a
  variable holds the node of the variable, as in the code.  A \<open>quadr_list_t\<close> is a list.
  \<open>new_graph_root\<close> compares the addresses of two nodes: \<open>paddr\<close>, which the memory
  allocator decides.  The arithmetic of doubles is the one of the machine \<open>M\<close>.
\<close>

subsection \<open>The graph\<close>

datatype graph_node_tag_t = GN_LEAF | GN_INTERNAL | GN_ROOT

datatype gn_u = GU_ARG quadr_arg_t | GU_OP quadr_op_t

type_synonym gnode_id = nat

record graph_node_t =
  gn_key :: addr
  gn_left :: "gnode_id option"
  gn_right :: "gnode_id option"
  gn_vars :: "var_id list"
  gn_result :: "var_id option"
  gn_size :: nat
  gn_u :: gn_u
  gn_id :: "16 word"
  gn_tag :: graph_node_tag_t

record opt_st =
  oq :: quadr_st
  opt_cur_func :: "func_id option"
  gnodes :: "gnode_id \<rightharpoonup> graph_node_t"
  next_gnode :: gnode_id
  int_leaves :: "(i32 \<times> gnode_id) list"
  double_leaves :: "(double \<times> gnode_id) list"
  var_leaves :: "gnode_id list"
  graph :: "gnode_id rbtree_t"
  next_id :: "16 word"
  opt_errors :: "message list"

definition gn_arg :: "graph_node_t \<Rightarrow> quadr_arg_t option" where
  "gn_arg n = (case gn_u n of GU_ARG a \<Rightarrow> Some a | GU_OP op \<Rightarrow> None)"

definition gn_op :: "graph_node_t \<Rightarrow> quadr_op_t option" where
  "gn_op n = (case gn_u n of GU_OP op \<Rightarrow> Some op | GU_ARG a \<Rightarrow> None)"

definition set_gnode :: "gnode_id \<Rightarrow> (graph_node_t \<Rightarrow> graph_node_t) \<Rightarrow> opt_st \<Rightarrow> opt_st option" where
  "set_gnode n f st = do { N \<leftarrow> gnodes st n; Some (st\<lparr>gnodes := (gnodes st)(n \<mapsto> f N)\<rparr>) }"

definition var_node :: "opt_st \<Rightarrow> var_id \<Rightarrow> gnode_id option" where
  "var_node st v = v_loc (vars (oq st) ! v)"

definition set_var_node :: "var_id \<Rightarrow> gnode_id \<Rightarrow> opt_st \<Rightarrow> opt_st option" where
  "set_var_node v n st = do {
     check (v < length (vars (oq st)));
     Some (st\<lparr>oq := (oq st)\<lparr>vars := (vars (oq st))[v := (vars (oq st) ! v)\<lparr>v_loc := Some n\<rparr>]\<rparr>\<rparr>)
   }"

fun quadr_op_code :: "quadr_op_t \<Rightarrow> nat" where
  "quadr_op_code Q_ADD = 0"
| "quadr_op_code Q_SUB = 1"
| "quadr_op_code Q_DIV = 2"
| "quadr_op_code Q_MUL = 3"
| "quadr_op_code Q_MOD = 4"
| "quadr_op_code _ = 5"   \<comment> \<open>not used\<close>

definition get_id :: "opt_st \<Rightarrow> gnode_id option \<Rightarrow> nat option" where
  "get_id st x = (case x of None \<Rightarrow> Some 0 | Some n \<Rightarrow> map_option (\<lambda>N. unat (gn_id N)) (gnodes st n))"

definition make_key :: "quadr_op_t \<Rightarrow> nat \<Rightarrow> nat \<Rightarrow> addr" where
  \<comment> \<open>an \<open>unsigned long\<close> of 64 bits has room for the 16 bits of the numbers\<close>
  "make_key op l r = push_bit (13 + 6) l OR push_bit 6 r OR quadr_op_code op"

text \<open>The variables of a function.\<close>

definition func_vars :: "quadr_func_t \<Rightarrow> var_id list" where
  "func_vars f = concat (map node_vars (vars_lst f))"

definition clear_locs :: "var_id list \<Rightarrow> quadr_st \<Rightarrow> quadr_st" where
  "clear_locs vs q = q\<lparr>vars := fold (\<lambda>v xs. xs[v := (xs ! v)\<lparr>v_loc := None\<rparr>]) vs (vars q)\<rparr>"

definition reset_graph :: "opt_st \<Rightarrow> opt_st option" where
  "reset_graph st = do {
     f \<leftarrow> opt_cur_func st;
     check (f < length (quadr_func (oq st)));
     Some (st\<lparr>gnodes := Map.empty, int_leaves := [], double_leaves := [], var_leaves := [], next_id := 0,
              graph := rb_clear (graph st),
              oq := clear_locs (func_vars (quadr_func (oq st) ! f)) (oq st)\<rparr>)
   }"

fun find_roots :: "(gnode_id \<rightharpoonup> graph_node_t) \<Rightarrow> gnode_id rbnode_t \<Rightarrow> gnode_id list \<Rightarrow> gnode_id list option" where
  \<comment> \<open>\<open>roots\<close> grows at its head\<close>
  "find_roots ns the_nil roots = Some roots"
| "find_roots ns (RBNODE c l k r) roots = do {
     N \<leftarrow> ns (snd k);
     roots \<leftarrow> find_roots ns r (if gn_tag N = GN_ROOT then snd k # roots else roots);
     find_roots ns l roots
   }"

subsection \<open>Making the graph\<close>

definition new_graph_leaf :: "quadr_arg_t \<Rightarrow> opt_st \<Rightarrow> gnode_id \<times> opt_st" where
  "new_graph_leaf arg st =
     (let n = next_gnode st;
          N = \<lparr>gn_key = 0, gn_left = None, gn_right = None, gn_vars = [], gn_result = None,
               gn_size = (case arg of QA_VAR v \<Rightarrow> 1 | _ \<Rightarrow> 0), gn_u = GU_ARG arg, gn_id = next_id st, gn_tag = GN_LEAF\<rparr>
      in (n, st\<lparr>gnodes := (gnodes st)(n \<mapsto> N), next_gnode := n + 1, next_id := next_id st + 1\<rparr>))"

definition is_commutative :: "quadr_op_t \<Rightarrow> bool" where
  "is_commutative op \<longleftrightarrow> op = Q_ADD \<or> op = Q_MUL"

definition make_internal :: "gnode_id option \<Rightarrow> opt_st \<Rightarrow> (nat \<times> opt_st) option" where
  \<comment> \<open>what a new root does to one of its operands; the size of the operand is returned\<close>
  "make_internal x st =
     (case x of
        None \<Rightarrow> Some (0, st)
      | Some n \<Rightarrow> do {
          N \<leftarrow> gnodes st n;
          st \<leftarrow> (if gn_tag N = GN_ROOT then set_gnode n (\<lambda>N. N\<lparr>gn_tag := GN_INTERNAL\<rparr>) st else Some st);
          Some (gn_size N, st)
        })"

fun ptr_gt :: "(gnode_id \<Rightarrow> nat) \<Rightarrow> gnode_id option \<Rightarrow> gnode_id option \<Rightarrow> bool" where
  "ptr_gt paddr None y = False"
| "ptr_gt paddr (Some a) None = True"
| "ptr_gt paddr (Some a) (Some b) = (paddr a > paddr b)"

definition new_graph_root ::
  "(gnode_id \<Rightarrow> nat) \<Rightarrow> quadr_op_t \<Rightarrow> gnode_id option \<Rightarrow> gnode_id option \<Rightarrow> opt_st \<Rightarrow> (gnode_id \<times> opt_st) option"
where
  "new_graph_root paddr op left0 right0 st =
     (let swap = is_commutative op \<and> ptr_gt paddr left0 right0;
          left = (if swap then right0 else left0);
          right = (if swap then left0 else right0);
          n = next_gnode st
      in do {
        l \<leftarrow> get_id st left;
        r \<leftarrow> get_id st right;
        let i = next_id st;
        let st = st\<lparr>next_gnode := n + 1, next_id := i + 1\<rparr>;
        (s1, st) \<leftarrow> make_internal left st;
        (s2, st) \<leftarrow> make_internal right st;
        let N = \<lparr>gn_key = make_key op l r, gn_left = left, gn_right = right, gn_vars = [], gn_result = None,
                 gn_size = 1 + s1 + s2, gn_u = GU_OP op, gn_id = i, gn_tag = GN_ROOT\<rparr>;
        Some (n, st\<lparr>gnodes := (gnodes st)(n \<mapsto> N)\<rparr>)
      })"

definition free_graph_node :: "gnode_id \<Rightarrow> opt_st \<Rightarrow> opt_st option" where
  "free_graph_node n st = do {
     N \<leftarrow> gnodes st n;
     Some (st\<lparr>next_id := (if gn_id N = next_id st - 1 then next_id st - 1 else next_id st),
              gnodes := (gnodes st)(n := None)\<rparr>)
   }"

definition add_var :: "gnode_id \<Rightarrow> var_id \<Rightarrow> opt_st \<Rightarrow> opt_st option" where
  "add_var n v st = do {
     st \<leftarrow> set_gnode n (\<lambda>N. N\<lparr>gn_vars := v # gn_vars N\<rparr>) st;
     set_var_node v n st
   }"

definition remove_var :: "gnode_id \<Rightarrow> var_id \<Rightarrow> opt_st \<Rightarrow> opt_st option" where
  "remove_var n v st = do {
     N \<leftarrow> gnodes st n;
     (if gn_tag N = GN_LEAF then Some st
      else do {
        vl \<leftarrow> vl_erase (gn_vars N) v;
        set_gnode n (\<lambda>N. N\<lparr>gn_vars := vl\<rparr>) st
      })
   }"

text \<open>
  \<open>std::map\<close> with the order \<open>lt\<close> of its keys: \<open>operator[]\<close> finds the element that is
  neither less nor greater; \<open>map_put\<close> is the assignment to a key that was not there.
\<close>

fun map_find :: "('k \<Rightarrow> 'k \<Rightarrow> bool) \<Rightarrow> 'k \<Rightarrow> ('k \<times> 'v) list \<Rightarrow> 'v option" where
  "map_find lt k [] = None"
| "map_find lt k ((k', v) # m) =
     (if lt k' k then map_find lt k m else if lt k k' then None else Some v)"

fun map_put :: "('k \<Rightarrow> 'k \<Rightarrow> bool) \<Rightarrow> 'k \<Rightarrow> 'v \<Rightarrow> ('k \<times> 'v) list \<Rightarrow> ('k \<times> 'v) list" where
  "map_put lt k v [] = [(k, v)]"
| "map_put lt k v ((k', v') # m) =
     (if lt k' k then (k', v') # map_put lt k v m else (k, v) # (k', v') # m)"

definition dbl_less :: "'w machine \<Rightarrow> double \<Rightarrow> double \<Rightarrow> bool" where
  "dbl_less M a b \<longleftrightarrow> m_dlt M a b = Some True"

definition get_node :: "'w machine \<Rightarrow> quadr_arg_t \<Rightarrow> opt_st \<Rightarrow> (gnode_id option \<times> opt_st) option" where
  "get_node M arg st =
     (case arg of
        QA_INT i \<Rightarrow>
          (case map_find (<s) i (int_leaves st) of
             Some n \<Rightarrow> Some (Some n, st)
           | None \<Rightarrow>
               let (n, st) = new_graph_leaf arg st
               in Some (Some n, st\<lparr>int_leaves := map_put (<s) i n (int_leaves st)\<rparr>))
      | QA_DOUBLE d \<Rightarrow>
          (case map_find (dbl_less M) d (double_leaves st) of
             Some n \<Rightarrow> Some (Some n, st)
           | None \<Rightarrow>
               let (n, st) = new_graph_leaf arg st
               in Some (Some n, st\<lparr>double_leaves := map_put (dbl_less M) d n (double_leaves st)\<rparr>))
      | QA_VAR v \<Rightarrow> do {
          check (v < length (vars (oq st)));
          (case var_node st v of
             Some n \<Rightarrow> Some (Some n, st)
           | None \<Rightarrow>
               let (n, st) = new_graph_leaf arg st in do {
                 st \<leftarrow> add_var n v (st\<lparr>var_leaves := var_leaves st @ [n]\<rparr>);
                 st \<leftarrow> set_var_node v n st;
                 Some (Some n, st)
               })
        }
      | QA_NONE \<Rightarrow> Some (None, st)
      | _ \<Rightarrow> None)"

subsection \<open>Making quadruples from the graph\<close>

definition result_type :: "opt_st \<Rightarrow> quadr_op_t \<Rightarrow> var_id \<Rightarrow> var_id option \<Rightarrow> type_t option" where
  "result_type st op arg1 arg2 =
     (let t = v_type (vars (oq st) ! arg1) in
      if op = Q_READ_PTR then (case t of array_type _ b n \<Rightarrow> Some b | _ \<Rightarrow> None)
      else do {
        check (case arg2 of None \<Rightarrow> True | Some v \<Rightarrow> t = v_type (vars (oq st) ! v));
        Some t
      })"

definition declare_opt_var :: "type_t \<Rightarrow> opt_st \<Rightarrow> (var_id \<times> opt_st) option" where
  \<comment> \<open>\<open>declare_var(opt_cur_func, type)\<close>\<close>
  "declare_opt_var t st = do { (v, q) \<leftarrow> declare_var (opt_cur_func st) t (oq st); Some (v, st\<lparr>oq := q\<rparr>) }"

definition gencode_for_leaf :: "gnode_id \<Rightarrow> opt_st \<Rightarrow> (quadr_t list \<times> opt_st) option" where
  "gencode_for_leaf n st = do {
     N \<leftarrow> gnodes st n;
     check (gn_tag N = GN_LEAF);
     check (gn_result N = None);
     arg \<leftarrow> gn_arg N;
     t \<leftarrow> arg_type (oq st) arg;
     (v, st) \<leftarrow> declare_opt_var t st;
     st \<leftarrow> set_gnode n (\<lambda>N. N\<lparr>gn_result := Some v\<rparr>) st;
     Some ([new_copy_quadr v arg], st)
   }"

definition update_node_vars :: "gnode_id \<Rightarrow> opt_st \<Rightarrow> (quadr_t list \<times> opt_st) option" where
  "update_node_vars n st = do {
     N \<leftarrow> gnodes st n;
     v \<leftarrow> (if gn_vars N = [] then Some 0 else gn_result N);
     let bad_var = (case gn_u N of GU_ARG (QA_VAR b) \<Rightarrow> if gn_tag N = GN_LEAF then Some b else None | _ \<Rightarrow> None);
     let qs = map (\<lambda>x. new_copy_quadr x (QA_VAR v)) (filter (\<lambda>x. Some x \<noteq> bad_var) (gn_vars N));
     st \<leftarrow> set_gnode n (\<lambda>N. N\<lparr>gn_vars := []\<rparr>) st;
     Some (qs, st)
   }"

text \<open>
  \<open>DO_CONSTANT_OP\<close>: the sum of two \<open>int\<close>s wraps around, the division that overflows stops
  the compiler.  The result is the value, 1 for a division by zero, and whether an error was
  reported.
\<close>

definition constant_op_int :: "quadr_op_t \<Rightarrow> i32 \<Rightarrow> i32 \<Rightarrow> (i32 \<times> bool) option" where
  "constant_op_int op a b =
     (case op of
        Q_ADD \<Rightarrow> Some (a + b, False)
      | Q_SUB \<Rightarrow> Some (a - b, False)
      | Q_MUL \<Rightarrow> Some (a * b, False)
      | Q_DIV \<Rightarrow>
          if b = 0 then Some (1, True)
          else if a = 0x80000000 \<and> b = -1 then None
          else Some (word_of_int (sint a sdiv sint b), False)
      | Q_MOD \<Rightarrow>
          if b = 0 then Some (1, True)
          else if a = 0x80000000 \<and> b = -1 then None
          else Some (word_of_int (sint a smod sint b), False)
      | _ \<Rightarrow> None)"

text \<open>\<open>Q_MOD\<close> is not used on doubles; the code would convert them to \<open>int\<close>.\<close>

definition double_one_bits :: double where "double_one_bits = 0x3FF0000000000000"

definition constant_op_double :: "'w machine \<Rightarrow> quadr_op_t \<Rightarrow> double \<Rightarrow> double \<Rightarrow> (double \<times> bool) option" where
  "constant_op_double M op a b =
     (case op of
        Q_ADD \<Rightarrow> Some (m_dadd M a b, False)
      | Q_SUB \<Rightarrow> Some (m_dsub M a b, False)
      | Q_MUL \<Rightarrow> Some (m_dmul M a b, False)
      | Q_DIV \<Rightarrow> if m_deq M b 0 = Some True then Some (double_one_bits, True) else Some (m_ddiv M a b, False)
      | _ \<Rightarrow> None)"

definition fold_leaves :: "'w machine \<Rightarrow> quadr_op_t \<Rightarrow> graph_node_t \<Rightarrow> graph_node_t \<Rightarrow> (quadr_arg_t \<times> bool) option option" where
  \<comment> \<open>\<open>Some None\<close>: the operands are not two constants of one type\<close>
  "fold_leaves M op L R =
     (if gn_tag L = GN_LEAF \<and> gn_tag R = GN_LEAF then
        (case (gn_u L, gn_u R) of
           (GU_ARG (QA_INT a), GU_ARG (QA_INT b)) \<Rightarrow>
             map_option (\<lambda>(v, e). Some (QA_INT v, e)) (constant_op_int op a b)
         | (GU_ARG (QA_DOUBLE a), GU_ARG (QA_DOUBLE b)) \<Rightarrow>
             map_option (\<lambda>(v, e). Some (QA_DOUBLE v, e)) (constant_op_double M op a b)
         | _ \<Rightarrow> Some None)
      else Some None)"

definition div_error :: "opt_st \<Rightarrow> opt_st option" where
  "div_error st = do {
     f \<leftarrow> opt_cur_func st;
     Some (st\<lparr>opt_errors := opt_errors st @
       [(0, 0, ''division by zero in function '' @ qf_name (quadr_func (oq st) ! f))]\<rparr>)
   }"

definition finish_node :: "'w machine \<Rightarrow> gnode_id \<Rightarrow> opt_st \<Rightarrow> (quadr_t list \<times> opt_st) option" where
  \<comment> \<open>\<open>gencode_for_node\<close> after the code of the operands: the operation, or its folded value\<close>
  "finish_node M n st = do {
     N \<leftarrow> gnodes st n;
     op \<leftarrow> gn_op N;
     l \<leftarrow> gn_left N;
     L \<leftarrow> gnodes st l;
     var1 \<leftarrow> gn_result L;
     R \<leftarrow> (case gn_right N of None \<Rightarrow> Some None | Some r \<Rightarrow> map_option Some (gnodes st r));
     let var2 = (case R of None \<Rightarrow> None | Some R \<Rightarrow> gn_result R);
     t \<leftarrow> result_type st op var1 var2;
     (var0, st) \<leftarrow> declare_opt_var t st;
     st \<leftarrow> set_gnode n (\<lambda>N. N\<lparr>gn_result := Some var0\<rparr>) st;
     c \<leftarrow> (case R of Some R \<Rightarrow> (if var2 \<noteq> None then fold_leaves M op L R else Some None) | None \<Rightarrow> Some None);
     (case c of
        Some (arg, err) \<Rightarrow> do {
          st \<leftarrow> set_gnode n (\<lambda>N. N\<lparr>gn_tag := GN_LEAF, gn_u := GU_ARG arg\<rparr>) st;
          st \<leftarrow> (if err then div_error st else Some st);
          Some ([new_copy_quadr var0 arg], st)
        }
      | None \<Rightarrow> Some ([new_quadr op (Some var0) (Some var1) var2], st))
   }"

fun gencode_for_node :: "nat \<Rightarrow> 'w machine \<Rightarrow> gnode_id \<Rightarrow> opt_st \<Rightarrow> (quadr_t list \<times> opt_st) option" where
  \<comment> \<open>the first argument bounds the depth of the graph\<close>
  "gencode_for_node 0 M n st = None"
| "gencode_for_node (Suc k) M n st = do {
     N \<leftarrow> gnodes st n;
     if gn_result N \<noteq> None then Some ([], st)
     else do {
       (lst, st) \<leftarrow>
         (if gn_tag N = GN_LEAF then gencode_for_leaf n st
          else do {
            l \<leftarrow> gn_left N;
            L \<leftarrow> gnodes st l;
            (lst1, st) \<leftarrow> (if gn_result L = None then gencode_for_node k M l st else Some ([], st));
            (lst2, st) \<leftarrow>
              (case gn_right N of
                 None \<Rightarrow> Some ([], st)
               | Some r \<Rightarrow> do {
                   R \<leftarrow> gnodes st r;
                   (if gn_result R = None then gencode_for_node k M r st else Some ([], st))
                 });
            (lst3, st) \<leftarrow> finish_node M n st;
            Some (lst1 @ lst2 @ lst3, st)
          });
       (lst2, st) \<leftarrow> update_node_vars n st;
       Some (lst @ lst2, st)
     }
   }"

fun gencode_each ::
  "(gnode_id \<Rightarrow> opt_st \<Rightarrow> (quadr_t list \<times> opt_st) option) \<Rightarrow> gnode_id list \<Rightarrow> opt_st \<Rightarrow> (quadr_t list \<times> opt_st) option"
where
  \<comment> \<open>the loops of \<open>gencode_from_graph\<close>\<close>
  "gencode_each f [] st = Some ([], st)"
| "gencode_each f (n # ns) st = do {
     (lst, st) \<leftarrow> f n st;
     (lst2, st) \<leftarrow> gencode_each f ns st;
     Some (lst @ lst2, st)
   }"

definition gencode_from_graph :: "'w machine \<Rightarrow> opt_st \<Rightarrow> (quadr_t list \<times> opt_st) option" where
  "gencode_from_graph M st = do {
     roots \<leftarrow> find_roots (gnodes st) (root (graph st)) [];
     let k = next_gnode st;
     (l1, st) \<leftarrow> gencode_each gencode_for_leaf (var_leaves st) st;
     (l2, st) \<leftarrow> gencode_each (gencode_for_node k M) roots st;
     (l3, st) \<leftarrow> gencode_each (gencode_for_node k M) (map snd (int_leaves st)) st;
     (l4, st) \<leftarrow> gencode_each (gencode_for_node k M) (map snd (double_leaves st)) st;
     (l5, st) \<leftarrow> gencode_each update_node_vars (var_leaves st) st;
     st \<leftarrow> reset_graph st;
     Some (l1 @ l2 @ l3 @ l4 @ l5, st)
   }"

subsection \<open>\<open>optimize_local\<close>\<close>

definition local_arith :: "(gnode_id \<Rightarrow> nat) \<Rightarrow> 'w machine \<Rightarrow> quadr_t \<Rightarrow> opt_st \<Rightarrow> opt_st option" where
  "local_arith paddr M quadr st = do {
     var \<leftarrow> (case q_result quadr of QA_VAR v \<Rightarrow> Some v | _ \<Rightarrow> None);
     check (var < length (vars (oq st)));
     let res = var_node st var;
     (left, st) \<leftarrow> get_node M (q_arg1 quadr) st;
     (right, st) \<leftarrow> get_node M (q_arg2 quadr) st;
     (node, st) \<leftarrow> new_graph_root paddr (q_op quadr) left right st;
     N \<leftarrow> gnodes st node;
     (old, g) \<leftarrow> rb_insert_if_absent (graph st) (gn_key N, node);
     let st = st\<lparr>graph := g\<rparr>;
     (node, st) \<leftarrow>
       (case old of
          Some k \<Rightarrow> do { st \<leftarrow> free_graph_node node st; Some (snd k, st) }
        | None \<Rightarrow> Some (node, st));
     st \<leftarrow> (case res of Some r \<Rightarrow> remove_var r var st | None \<Rightarrow> Some st);
     st \<leftarrow> add_var node var st;
     set_var_node var node st
   }"

definition local_copy :: "'w machine \<Rightarrow> quadr_t \<Rightarrow> opt_st \<Rightarrow> opt_st option" where
  "local_copy M quadr st = do {
     (node, st) \<leftarrow> get_node M (q_arg1 quadr) st;
     var \<leftarrow> (case q_result quadr of QA_VAR v \<Rightarrow> Some v | _ \<Rightarrow> None);
     check (var < length (vars (oq st)));
     st \<leftarrow> (case var_node st var of Some r \<Rightarrow> remove_var r var st | None \<Rightarrow> Some st);
     n \<leftarrow> node;
     st \<leftarrow> add_var n var st;
     set_var_node var n st
   }"

fun local_loop :: "(gnode_id \<Rightarrow> nat) \<Rightarrow> 'w machine \<Rightarrow> quadr_t list \<Rightarrow> opt_st \<Rightarrow> (quadr_t list \<times> opt_st) option" where
  "local_loop paddr M [] st = gencode_from_graph M st"
| "local_loop paddr M (x # xs) st =
     (if q_op x \<in> {Q_ADD, Q_SUB, Q_DIV, Q_MUL, Q_MOD} then do {
        st \<leftarrow> local_arith paddr M x st;
        local_loop paddr M xs st
      }
      else if q_op x = Q_COPY then do { st \<leftarrow> local_copy M x st; local_loop paddr M xs st }
      else do {
        (lst, st) \<leftarrow> gencode_from_graph M st;
        (lst2, st) \<leftarrow> local_loop paddr M xs st;
        Some (lst @ x # lst2, st)
      })"

definition optimize_local :: "(gnode_id \<Rightarrow> nat) \<Rightarrow> 'w machine \<Rightarrow> block_id \<Rightarrow> opt_st \<Rightarrow> opt_st option" where
  "optimize_local paddr M b st = do {
     st \<leftarrow> reset_graph st;
     B \<leftarrow> blocks (oq st) b;
     (lst', st) \<leftarrow> local_loop paddr M (lst B) st;
     q \<leftarrow> set_block b (\<lambda>B. B\<lparr>lst := lst'\<rparr>) (oq st);
     Some (st\<lparr>oq := q\<rparr>)
   }"

subsection \<open>\<open>optimize_local_2\<close>\<close>

text \<open>
  The table \<open>qtab\<close>; a quadruple that has been removed is \<open>None\<close>.  The loops that go down from
  \<open>i\<close> take the part of the table before \<open>i\<close> in reverse.
\<close>

type_synonym qtab = "quadr_t option list"

definition redundant_copy :: "quadr_t \<Rightarrow> bool" where
  "redundant_copy x \<longleftrightarrow> q_op x = Q_COPY \<and> (\<exists>v \<in> (case q_arg1 x of QA_VAR v \<Rightarrow> {v} | _ \<Rightarrow> {}). q_result x = QA_VAR v)"

fun remove_redundant_copy :: "quadr_t option \<Rightarrow> quadr_t option" where
  \<comment> \<open>on one element of the table\<close>
  "remove_redundant_copy None = None"
| "remove_redundant_copy (Some x) = (if redundant_copy x then None else Some x)"

definition remove_redundant_copies :: "qtab \<Rightarrow> qtab" where
  "remove_redundant_copies qtab = map remove_redundant_copy qtab"

fun dead_after :: "var_id \<Rightarrow> qtab \<Rightarrow> bool" where
  "dead_after var [] = False"
| "dead_after var (None # qs) = dead_after var qs"
| "dead_after var (Some x # qs) =
     (if used_in_quadr x var then False else if assigned_in_quadr x var then True else dead_after var qs)"

definition dead_assignment :: "quadr_t \<Rightarrow> qtab \<Rightarrow> bool" where
  "dead_assignment x qs = (case q_result x of QA_VAR var \<Rightarrow> assigned_in_quadr x var \<and> dead_after var qs | _ \<Rightarrow> False)"

fun dead_pass :: "qtab \<Rightarrow> qtab \<times> bool" where
  \<comment> \<open>the loop over \<open>i\<close> and the value of \<open>changed\<close> after it\<close>
  "dead_pass [] = ([], False)"
| "dead_pass (None # qs) = (let (qs', changed) = dead_pass qs in (None # qs', changed))"
| "dead_pass (Some x # qs) =
     (let (qs', changed) = dead_pass qs
      in if dead_assignment x qs then (None # qs', True) else (Some x # qs', changed))"

lemma dead_pass_count:
  "length (filter (\<lambda>x. x \<noteq> None) (fst (dead_pass qs))) \<le> length (filter (\<lambda>x. x \<noteq> None) qs) \<and>
    (snd (dead_pass qs) \<longrightarrow>
      length (filter (\<lambda>x. x \<noteq> None) (fst (dead_pass qs))) < length (filter (\<lambda>x. x \<noteq> None) qs))"
  by (induction qs rule: dead_pass.induct) (auto simp: Let_def split: prod.splits)

function remove_dead_assignments :: "qtab \<Rightarrow> qtab" where
  "remove_dead_assignments qtab =
     (let (qtab', changed) = dead_pass qtab in if changed then remove_dead_assignments qtab' else qtab')"
  by pat_completeness auto
termination
proof (relation "measure (\<lambda>qs. length (filter (\<lambda>x. x \<noteq> None) qs))", goal_cases)
  case (2 qtab x qs changed)
  have "fst (dead_pass qtab) = qs" "snd (dead_pass qtab) = changed" unfolding 2(1)[symmetric] 2(2)[symmetric] by simp_all
  then show ?case using dead_pass_count[of qtab] 2(3) by simp
qed simp

declare remove_dead_assignments.simps [simp del]

fun can_backpropagate :: "var_id \<Rightarrow> var_id \<Rightarrow> qtab \<Rightarrow> bool" where
  "can_backpropagate var0 var1 [] = False"
| "can_backpropagate var0 var1 (None # qs) = can_backpropagate var0 var1 qs"
| "can_backpropagate var0 var1 (Some x # qs) =
     (if assigned_in_quadr x var1 then True
      else if used_in_quadr x var0 \<or> assigned_in_quadr x var0 then False
      else can_backpropagate var0 var1 qs)"

definition change_arg :: "var_id \<Rightarrow> var_id \<Rightarrow> quadr_arg_t \<Rightarrow> quadr_arg_t" where
  "change_arg v v' a = (if a = QA_VAR v then QA_VAR v' else a)"

fun propagate_backwards :: "var_id \<Rightarrow> var_id \<Rightarrow> qtab \<Rightarrow> qtab" where
  "propagate_backwards var0 var1 [] = []"
| "propagate_backwards var0 var1 (None # qs) = None # propagate_backwards var0 var1 qs"
| "propagate_backwards var0 var1 (Some x # qs) =
     (let x = x\<lparr>q_result := change_arg var1 var0 (q_result x)\<rparr> in
      if assigned_in_quadr x var0 then Some x # qs
      else
        let x = x\<lparr>q_arg1 := change_arg var1 var0 (q_arg1 x), q_arg2 := change_arg var1 var0 (q_arg2 x)\<rparr>
        in remove_redundant_copy (Some x) # propagate_backwards var0 var1 qs)"

definition copy_between :: "quadr_t \<Rightarrow> var_id \<Rightarrow> var_id \<Rightarrow> bool" where
  "copy_between x var0 var1 \<longleftrightarrow> q_op x = Q_COPY \<and> (q_arg1 x = QA_VAR var1 \<or> q_arg1 x = QA_VAR var0)"

fun propagate_forwards :: "var_id \<Rightarrow> var_id \<Rightarrow> qtab \<Rightarrow> qtab" where
  "propagate_forwards var0 var1 [] = []"
| "propagate_forwards var0 var1 (None # qs) = None # propagate_forwards var0 var1 qs"
| "propagate_forwards var0 var1 (Some x # qs) =
     (let x = x\<lparr>q_arg1 := change_arg var0 var1 (q_arg1 x), q_arg2 := change_arg var0 var1 (q_arg2 x)\<rparr> in
      if assigned_in_quadr x var0 \<and> \<not> copy_between x var0 var1 then Some x # qs
      else if assigned_in_quadr x var1 \<and> \<not> copy_between x var0 var1 then Some x # qs
      else
        let x = x\<lparr>q_result := change_arg var0 var1 (q_result x)\<rparr>
        in remove_redundant_copy (Some x) # propagate_forwards var0 var1 qs)"

text \<open>The variables of a copy \<open>var0 := var1\<close> that is not redundant.\<close>

definition copy_vars :: "quadr_t \<Rightarrow> (var_id \<times> var_id) option" where
  "copy_vars x =
     (if q_op x = Q_COPY then
        (case (q_result x, q_arg1 x) of (QA_VAR var0, QA_VAR var1) \<Rightarrow> Some (var0, var1) | _ \<Rightarrow> None)
      else None)"

definition backprop_at :: "nat \<Rightarrow> qtab \<Rightarrow> qtab option" where
  "backprop_at i qtab =
     (let qtab = qtab[i := remove_redundant_copy (qtab ! i)] in
      case Option.bind (qtab ! i) copy_vars of
        None \<Rightarrow> Some qtab
      | Some (var0, var1) \<Rightarrow> do {
          check (var0 \<noteq> var1);
          Some (if can_backpropagate var0 var1 (rev (take i qtab)) then
                  rev (propagate_backwards var0 var1 (rev (take i qtab))) @
                  Some ((the (qtab ! i))\<lparr>q_result := QA_VAR var1, q_arg1 := QA_VAR var0\<rparr>) #
                  propagate_forwards var1 var0 (drop (i + 1) qtab)
                else qtab)
        })"

fun backprop_loop :: "nat \<Rightarrow> qtab \<Rightarrow> qtab option" where
  \<comment> \<open>the loop from \<open>i - 1\<close> down to 0\<close>
  "backprop_loop 0 qtab = Some qtab"
| "backprop_loop (Suc i) qtab = do { qtab \<leftarrow> backprop_at i qtab; backprop_loop i qtab }"

definition copy_backpropagation :: "qtab \<Rightarrow> qtab option" where
  "copy_backpropagation qtab = backprop_loop (length qtab) qtab"

function copy_propagation :: "qtab \<Rightarrow> qtab option" where
  "copy_propagation [] = Some []"
| "copy_propagation (x # qs) =
     (let x = remove_redundant_copy x in
      case Option.bind x copy_vars of
        None \<Rightarrow> do { qs \<leftarrow> copy_propagation qs; Some (x # qs) }
      | Some (var0, var1) \<Rightarrow> do {
          check (var0 \<noteq> var1);
          qs \<leftarrow> copy_propagation (propagate_forwards var0 var1 qs);
          Some (x # qs)
        })"
  by pat_completeness auto

lemma propagate_forwards_length [simp]: "length (propagate_forwards var0 var1 qs) = length qs"
  by (induction var0 var1 qs rule: propagate_forwards.induct) (auto simp: Let_def)

termination copy_propagation
  by (relation "measure length") auto

definition optimize_qtab :: "qtab \<Rightarrow> qtab option" where
  "optimize_qtab qtab = do {
     qtab \<leftarrow> copy_backpropagation (remove_dead_assignments (remove_redundant_copies qtab));
     copy_propagation qtab
   }"

definition qtab_list :: "qtab \<Rightarrow> quadr_t list" where
  "qtab_list qtab = map the (filter (\<lambda>x. x \<noteq> None) qtab)"

definition optimize_local_2 :: "block_id \<Rightarrow> quadr_st \<Rightarrow> quadr_st option" where
  "optimize_local_2 b q = do {
     B \<leftarrow> blocks q b;
     qtab \<leftarrow> optimize_qtab (map Some (lst B));
     set_block b (\<lambda>B. B\<lparr>lst := qtab_list qtab\<rparr>) q
   }"

subsection \<open>Functions\<close>

fun optimize_blocks ::
  "nat \<Rightarrow> (block_id \<Rightarrow> opt_st \<Rightarrow> opt_st option) \<Rightarrow> block_id option \<Rightarrow> opt_st \<Rightarrow> opt_st option"
where
  \<comment> \<open>the loop over the blocks; the first argument bounds their number\<close>
  "optimize_blocks k f None st = Some st"
| "optimize_blocks 0 f (Some b) st = None"
| "optimize_blocks (Suc k) f (Some b) st = do {
     st \<leftarrow> f b st;
     B \<leftarrow> blocks (oq st) b;
     optimize_blocks k f (nxt B) st
   }"

definition on_oq :: "(quadr_st \<Rightarrow> quadr_st option) \<Rightarrow> opt_st \<Rightarrow> opt_st option" where
  "on_oq f st = do { q \<leftarrow> f (oq st); Some (st\<lparr>oq := q\<rparr>) }"

definition perform_local_optimizations :: "(gnode_id \<Rightarrow> nat) \<Rightarrow> 'w machine \<Rightarrow> func_id \<Rightarrow> opt_st \<Rightarrow> opt_st option" where
  "perform_local_optimizations paddr M func st = do {
     check (func < length (quadr_func (oq st)));
     st \<leftarrow> optimize_blocks (next_block_id (oq st))
       (\<lambda>b st. do { st \<leftarrow> optimize_local paddr M b st; on_oq (optimize_local_2 b) st })
       (qf_blocks (quadr_func (oq st) ! func)) (st\<lparr>opt_cur_func := Some func\<rparr>);
     Some (st\<lparr>opt_cur_func := None\<rparr>)
   }"

definition perform_local_optimizations_2 :: "func_id \<Rightarrow> opt_st \<Rightarrow> opt_st option" where
  "perform_local_optimizations_2 func st = do {
     check (func < length (quadr_func (oq st)));
     optimize_blocks (next_block_id (oq st)) (\<lambda>b. on_oq (optimize_local_2 b))
       (qf_blocks (quadr_func (oq st) ! func)) (st\<lparr>opt_cur_func := Some func\<rparr>)
   }"

definition opt_init :: "quadr_st \<Rightarrow> opt_st" where
  \<comment> \<open>the initial values of the static variables\<close>
  "opt_init q = \<lparr>oq = q, opt_cur_func = None, gnodes = Map.empty, next_gnode = 0, int_leaves = [], double_leaves = [],
     var_leaves = [], graph = rb_new, next_id = 0, opt_errors = []\<rparr>"

end
