(* ===== verification/Opt_Correct.thy ===== *)
theory Opt_Correct
  imports Opt
begin

text \<open>
  \<open>optimize_local_2\<close> keeps the meaning of a block: whatever the block did, it still does.
\<close>

subsection \<open>What a block does\<close>

datatype exit = Fall | Jump block_id | Ret val

fun run_qs :: "'w machine \<Rightarrow> quadr_t list \<Rightarrow> 'w store \<Rightarrow> ('w store \<times> exit) option" where
  "run_qs M [] st = Some (st, Fall)"
| "run_qs M (x # xs) st =
     (if is_if_op (q_op x) then do {
        a \<leftarrow> arg_val st (q_arg1 x);
        b \<leftarrow> arg_val st (q_arg2 x);
        c \<leftarrow> compare_val M (q_op x) a b;
        (if c then (case q_result x of QA_LABEL l \<Rightarrow> Some (st, Jump l) | _ \<Rightarrow> None) else run_qs M xs st)
      }
      else if q_op x = Q_GOTO then (case q_result x of QA_LABEL l \<Rightarrow> Some (st, Jump l) | _ \<Rightarrow> None)
      else if q_op x = Q_RETURN then do { v \<leftarrow> arg_val st (q_arg1 x); Some (st, Ret v) }
      else do { st \<leftarrow> exec_op M x st; run_qs M xs st })"

definition run_t :: "'w machine \<Rightarrow> qtab \<Rightarrow> 'w store \<Rightarrow> ('w store \<times> exit) option" where
  "run_t M qs st = run_qs M (qtab_list qs) st"

text \<open>
  The form of quadruples that \<open>quadr.h\<close> describes: a jump has a label, a parameter and a
  return have no result.
\<close>

definition quadr_ok :: "quadr_t \<Rightarrow> bool" where
  "quadr_ok x \<longleftrightarrow> (q_op x \<in> {Q_PARAM, Q_RETURN} \<longrightarrow> q_result x = QA_NONE) \<and>
     (is_if_op (q_op x) \<or> q_op x = Q_GOTO \<longrightarrow> (\<exists>l. q_result x = QA_LABEL l)) \<and>
     (q_op x = Q_CALL \<longrightarrow> (\<exists>f. q_arg1 x = QA_FUNC f)) \<and> q_op x \<noteq> Q_NONE"

text \<open>
  \<open>tab_ok C\<close>: the quadruples are well formed, only the last one leaves the block, the variables
  of the copies are in \<open>C\<close> and the arrays whose address is taken are not.
\<close>

definition entry_ok :: "var_id set \<Rightarrow> quadr_t \<Rightarrow> bool" where
  "entry_ok C x \<longleftrightarrow> quadr_ok x \<and> (\<forall>v u. copy_vars x = Some (v, u) \<longrightarrow> v \<in> C \<and> u \<in> C) \<and>
     (q_op x = Q_GET_ADDR \<longrightarrow> (\<forall>v \<in> C. q_arg1 x \<noteq> QA_VAR v))"

fun shape :: "qtab \<Rightarrow> bool" where
  "shape [] = True"
| "shape (None # qs) = shape qs"
| "shape (Some x # qs) = (if is_block_end (q_op x) then \<forall>y \<in> set qs. y = None else shape qs)"

definition tab_ok :: "var_id set \<Rightarrow> qtab \<Rightarrow> bool" where
  "tab_ok C qs \<longleftrightarrow> (\<forall>x. Some x \<in> set qs \<longrightarrow> entry_ok C x) \<and> shape qs"

lemma qtab_list_simps [simp]:
  "qtab_list [] = []" "qtab_list (None # qs) = qtab_list qs" "qtab_list (Some x # qs) = x # qtab_list qs"
  "qtab_list (xs @ ys) = qtab_list xs @ qtab_list ys"
  by (simp_all add: qtab_list_def)

lemma run_t_simps [simp]: "run_t M [] st = Some (st, Fall)" "run_t M (None # qs) st = run_t M qs st"
  by (simp_all add: run_t_def)

lemma run_t_op:
  "\<not> is_block_end (q_op x) \<Longrightarrow> run_t M (Some x # qs) st = do { st \<leftarrow> exec_op M x st; run_t M qs st }"
  by (cases "q_op x") (simp_all add: run_t_def)

lemma run_t_Nones: "\<forall>y \<in> set qs. y = None \<Longrightarrow> run_t M qs st = Some (st, Fall)"
  by (induction qs) auto

lemma tab_ok_Cons:
  "tab_ok C (None # qs) \<longleftrightarrow> tab_ok C qs"
  "tab_ok C (Some x # qs) \<longleftrightarrow> entry_ok C x \<and> (if is_block_end (q_op x) then \<forall>y \<in> set qs. y = None else tab_ok C qs)"
  unfolding tab_ok_def by auto

lemma shape_append:
  "shape (xs @ ys) \<longleftrightarrow>
    (if \<exists>x. Some x \<in> set xs \<and> is_block_end (q_op x) then shape xs \<and> (\<forall>y \<in> set ys. y = None) else shape xs \<and> shape ys)"
  by (induction xs rule: shape.induct) auto

subsection \<open>Single quadruples\<close>

definition eq_except :: "var_id set \<Rightarrow> 'w store \<Rightarrow> 'w store \<Rightarrow> bool" where
  "eq_except W st st' \<longleftrightarrow> (\<forall>v. v \<notin> W \<longrightarrow> s_var st' v = s_var st v) \<and> s_arr st' = s_arr st \<and> s_par st' = s_par st \<and>
     s_world st' = s_world st"

lemma eq_except_empty [simp]: "eq_except {} st st' \<longleftrightarrow> st' = st"
  by (auto simp: eq_except_def fun_eq_iff)

lemma set_result_eq_except:
  assumes "eq_except W st st'" and "set_result r c st = Some st1"
  shows "\<exists>st1'. set_result r c st' = Some st1' \<and> eq_except (W - {v. r = QA_VAR v}) st1 st1'"
  using assms by (cases r) (auto simp: set_result_def eq_except_def)

lemma exec_arith:
  "q_op x \<in> arith_ops \<Longrightarrow> exec_op M x st = Some st1 \<longleftrightarrow> (\<exists>a b c. arg_val st (q_arg1 x) = Some a \<and>
     arg_val st (q_arg2 x) = Some b \<and> arith M (q_op x) a b = Some c \<and> set_result (q_result x) c st = Some st1)"
  by (auto simp: exec_op_def)

lemma exec_copy:
  "q_op x = Q_COPY \<Longrightarrow> exec_op M x st = Some st1 \<longleftrightarrow>
    (\<exists>a. arg_val st (q_arg1 x) = Some a \<and> set_result (q_result x) a st = Some st1)"
  by (auto simp: exec_op_def arith_ops_def)

lemma exec_get_addr:
  "q_op x = Q_GET_ADDR \<Longrightarrow> exec_op M x st = Some st1 \<longleftrightarrow>
    (\<exists>v. q_arg1 x = QA_VAR v \<and> set_result (q_result x) (VPtr v) st = Some st1)"
  by (auto simp: exec_op_def arith_ops_def split: quadr_arg_t.splits)

lemma exec_read_ptr:
  "q_op x = Q_READ_PTR \<Longrightarrow> exec_op M x st = Some st1 \<longleftrightarrow> (\<exists>a k c. arg_val st (q_arg1 x) = Some (VPtr a) \<and>
     arg_val st (q_arg2 x) = Some (VInt k) \<and> s_arr st a k = Some c \<and> set_result (q_result x) c st = Some st1)"
  by (cases "arg_val st (q_arg1 x)"; cases "arg_val st (q_arg2 x)"; cases "the (arg_val st (q_arg1 x))";
      cases "the (arg_val st (q_arg2 x))") (auto simp: exec_op_def arith_ops_def)

lemma exec_write_ptr:
  "q_op x = Q_WRITE_PTR \<Longrightarrow> exec_op M x st = Some st1 \<longleftrightarrow> (\<exists>a k c old. arg_val st (q_result x) = Some (VPtr a) \<and>
     arg_val st (q_arg1 x) = Some (VInt k) \<and> arg_val st (q_arg2 x) = Some c \<and> s_arr st a k = Some old \<and>
     st1 = st\<lparr>s_arr := (s_arr st)(a := (s_arr st a)(k \<mapsto> c))\<rparr>)"
  by (cases "arg_val st (q_result x)"; cases "arg_val st (q_arg1 x)"; cases "the (arg_val st (q_result x))";
      cases "the (arg_val st (q_arg1 x))") (auto simp: exec_op_def arith_ops_def)

lemma exec_param:
  "q_op x = Q_PARAM \<Longrightarrow> exec_op M x st = Some st1 \<longleftrightarrow>
    (\<exists>a. arg_val st (q_arg1 x) = Some a \<and> st1 = st\<lparr>s_par := a # s_par st\<rparr>)"
  by (auto simp: exec_op_def arith_ops_def)

lemma exec_call:
  "q_op x = Q_CALL \<Longrightarrow> exec_op M x st = Some st1 \<longleftrightarrow> (\<exists>f r w. q_arg1 x = QA_FUNC f \<and>
     m_call M f (s_par st) (s_world st) = Some (r, w) \<and>
     set_result (q_result x) r (st\<lparr>s_par := [], s_world := w\<rparr>) = Some st1)"
  by (auto simp: exec_op_def arith_ops_def split: quadr_arg_t.splits)

lemma exec_kind:
  assumes "exec_op M x st = Some st1"
  shows "q_op x \<in> arith_ops \<or> q_op x \<in> {Q_COPY, Q_GET_ADDR, Q_READ_PTR, Q_WRITE_PTR, Q_PARAM, Q_CALL}"
  using assms by (auto simp: exec_op_def split: if_splits)

lemmas exec_iff = exec_arith exec_copy exec_get_addr exec_read_ptr exec_write_ptr exec_param exec_call

text \<open>A quadruple does the same when its operands have the same values.\<close>

lemma exec_op_subst:
  assumes x: "q_op x' = q_op x" "arg_val st' (q_arg1 x') = arg_val st (q_arg1 x)"
      "arg_val st' (q_arg2 x') = arg_val st (q_arg2 x)"
      "q_op x \<in> {Q_GET_ADDR, Q_CALL} \<Longrightarrow> q_arg1 x' = q_arg1 x"
      "q_op x = Q_WRITE_PTR \<Longrightarrow> arg_val st' (q_result x') = arg_val st (q_result x)"
      "q_op x \<noteq> Q_WRITE_PTR \<Longrightarrow> q_result x' = q_result x"
    and ok: "quadr_ok x" and e: "eq_except W st st'" and run: "exec_op M x st = Some st1"
  shows "\<exists>st1'. exec_op M x' st' = Some st1' \<and> eq_except (W - {v. assigned_in_quadr x v}) st1 st1'"
proof -
  have same: "s_arr st' = s_arr st" "s_par st' = s_par st" "s_world st' = s_world st" using e by (simp_all add: eq_except_def)
  have asg: "{v. assigned_in_quadr x v} = (if q_op x = Q_WRITE_PTR then {} else {v. q_result x = QA_VAR v})"
    by (auto simp: assigned_in_quadr_def)
  consider "q_op x \<in> arith_ops" | "q_op x = Q_COPY" | "q_op x = Q_GET_ADDR" | "q_op x = Q_READ_PTR" | "q_op x = Q_WRITE_PTR"
    | "q_op x = Q_PARAM" | "q_op x = Q_CALL"
    using exec_kind[OF run] by blast
  then show ?thesis
  proof cases
    case 1
    then have n: "q_op x \<noteq> Q_WRITE_PTR" by (auto simp: arith_ops_def)
    show ?thesis using 1 run set_result_eq_except[OF e] x(6)[OF n] n by (auto simp: exec_arith x(1-3) asg)
  next
    case 2
    then show ?thesis using run set_result_eq_except[OF e] x(6) by (auto simp: exec_copy x(1,2) asg)
  next
    case 3
    then show ?thesis using run set_result_eq_except[OF e] x(4,6) by (auto simp: exec_get_addr x(1) asg)
  next
    case 4
    then show ?thesis using run set_result_eq_except[OF e] x(6) by (auto simp: exec_read_ptr x(1-3) asg same)
  next
    case 5
    then show ?thesis using run e x(5)[OF 5] by (auto simp: exec_write_ptr x(1-3) asg same eq_except_def)
  next
    case 6
    then have "q_result x = QA_NONE" using ok by (simp add: quadr_ok_def)
    then show ?thesis using 6 run e by (auto simp: exec_param x(1,2) asg same eq_except_def)
  next
    case 7
    obtain f v w where c: "q_arg1 x = QA_FUNC f" "m_call M f (s_par st) (s_world st) = Some (v, w)"
      "set_result (q_result x) v (st\<lparr>s_par := [], s_world := w\<rparr>) = Some st1"
      using run 7 by (auto simp: exec_call)
    have "eq_except W (st\<lparr>s_par := [], s_world := w\<rparr>) (st'\<lparr>s_par := [], s_world := w\<rparr>)"
      using e by (simp add: eq_except_def)
    from set_result_eq_except[OF this c(3)] show ?thesis
      using 7 c(1,2) x(4,6) by (auto simp: exec_call x(1) asg same)
  qed
qed

text \<open>A quadruple writes at most the variable that is assigned in it.\<close>

lemma exec_op_frame:
  assumes "exec_op M x st = Some st1" and "\<not> assigned_in_quadr x v"
  shows "s_var st1 v = s_var st v"
proof -
  have r: "s_var st' v = s_var st0 v" if "set_result (q_result x) c st0 = Some st'" "q_result x \<noteq> QA_VAR v" for c st0 st'
    using that by (cases "q_result x") (auto simp: set_result_def)
  show ?thesis
    using exec_kind[OF assms(1)] assms r
    by (auto simp: exec_iff assigned_in_quadr_def arith_ops_def; fastforce)
qed

text \<open>What it writes does not depend on where.\<close>

lemma exec_op_retarget:
  assumes "exec_op M x st = Some st1" and "assigned_in_quadr x v" and "quadr_ok x"
  shows "\<exists>c sm. s_var sm = s_var st \<and> s_arr sm = s_arr st \<and> (q_op x \<noteq> Q_CALL \<longrightarrow> sm = st) \<and> st1 = sm\<lparr>s_var := (s_var st)(v := c)\<rparr> \<and>
    (\<forall>u. exec_op M (x\<lparr>q_result := QA_VAR u\<rparr>) st = Some (sm\<lparr>s_var := (s_var st)(u := c)\<rparr>))"
proof -
  have v: "q_result x = QA_VAR v" "q_op x \<noteq> Q_WRITE_PTR" "q_op x \<noteq> Q_PARAM"
    using assms(2,3) by (auto simp: assigned_in_quadr_def quadr_ok_def)
  show ?thesis
  proof (cases "q_op x = Q_CALL")
    case True
    obtain f c w where f: "q_arg1 x = QA_FUNC f" "m_call M f (s_par st) (s_world st) = Some (c, w)"
      "st1 = st\<lparr>s_par := [], s_world := w, s_var := (s_var st)(v := c)\<rparr>"
      using assms(1) True v(1) by (auto simp: exec_op_def arith_ops_def set_result_def split: quadr_arg_t.splits)
    then show ?thesis using True
      by (intro exI[of _ c] exI[of _ "st\<lparr>s_par := [], s_world := w\<rparr>"]) (simp add: exec_op_def arith_ops_def set_result_def)
  next
    case False
    have "\<exists>c. st1 = st\<lparr>s_var := (s_var st)(v := c)\<rparr> \<and>
        (\<forall>u. exec_op M (x\<lparr>q_result := QA_VAR u\<rparr>) st = Some (st\<lparr>s_var := (s_var st)(u := c)\<rparr>))"
      using exec_kind[OF assms(1)] assms(1) v False
      by (auto simp: exec_iff set_result_def; blast)
    then show ?thesis by auto
  qed
qed

lemma arg_val_change:
  "s_var st v = s_var st v' \<Longrightarrow> arg_val st (change_arg v v' a) = arg_val st a"
  by (simp add: change_arg_def arg_val_def)

lemma arg_val_eq_except:
  "eq_except W st st' \<Longrightarrow> (\<And>v. a = QA_VAR v \<Longrightarrow> v \<notin> W) \<Longrightarrow> arg_val st' a = arg_val st a"
  by (cases a) (auto simp: arg_val_def eq_except_def)

lemma redundant_exec: "redundant_copy x \<Longrightarrow> exec_op M x st = Some st"
  by (auto simp: redundant_copy_def exec_op_def arith_ops_def arg_val_def set_result_def split: quadr_arg_t.splits)

lemma redundant_no_end: "redundant_copy x \<Longrightarrow> \<not> is_block_end (q_op x)"
  by (simp add: redundant_copy_def)

lemma run_redundant: "run_t M (remove_redundant_copy y # qs) st = run_t M (y # qs) st"
  by (cases y) (auto simp: run_t_op redundant_no_end redundant_exec)

lemma tab_ok_redundant: "tab_ok C (y # qs) \<Longrightarrow> tab_ok C (remove_redundant_copy y # qs)"
  by (cases y) (auto simp: tab_ok_Cons dest: redundant_no_end)

subsection \<open>Forward propagation\<close>

text \<open>As long as \<open>var0\<close> and \<open>var1\<close> have the same value, one stands for the other.\<close>

definition change_args :: "var_id \<Rightarrow> var_id \<Rightarrow> quadr_t \<Rightarrow> quadr_t" where
  "change_args v v' x = x\<lparr>q_arg1 := change_arg v v' (q_arg1 x), q_arg2 := change_arg v v' (q_arg2 x)\<rparr>"

definition change_res :: "var_id \<Rightarrow> var_id \<Rightarrow> quadr_t \<Rightarrow> quadr_t" where
  "change_res v v' x = x\<lparr>q_result := change_arg v v' (q_result x)\<rparr>"

lemma change_simps [simp]:
  "q_op (change_args v v' x) = q_op x" "q_result (change_args v v' x) = q_result x"
  "q_arg1 (change_args v v' x) = change_arg v v' (q_arg1 x)" "q_arg2 (change_args v v' x) = change_arg v v' (q_arg2 x)"
  "q_op (change_res v v' x) = q_op x" "q_result (change_res v v' x) = change_arg v v' (q_result x)"
  "q_arg1 (change_res v v' x) = q_arg1 x" "q_arg2 (change_res v v' x) = q_arg2 x"
  by (simp_all add: change_args_def change_res_def)

lemma change_arg_simps [simp]:
  "change_arg v v' (QA_VAR u) = QA_VAR (if u = v then v' else u)" "change_arg v v' QA_NONE = QA_NONE"
  "change_arg v v' (QA_LABEL l) = QA_LABEL l" "change_arg v v' (QA_FUNC f) = QA_FUNC f" "change_arg v v (a) = a"
  by (simp_all add: change_arg_def)

lemma change_arg_eq:
  "(change_arg v v' a = QA_NONE) = (a = QA_NONE)" "(change_arg v v' a = QA_LABEL l) = (a = QA_LABEL l)"
  "(change_arg v v' a = QA_FUNC f) = (a = QA_FUNC f)"
  by (auto simp: change_arg_def)

lemma quadr_ok_change [simp]: "quadr_ok (change_args v v' x) = quadr_ok x" "quadr_ok (change_res v v' x) = quadr_ok x"
  by (simp_all add: quadr_ok_def change_arg_eq)

lemma entry_ok_change:
  assumes "entry_ok C x" and "v \<in> C" and "v' \<in> C"
  shows "entry_ok C (change_args v v' x)" and "entry_ok C (change_res v v' x)"
  using assms
  by (auto simp: entry_ok_def copy_vars_def change_arg_def split: quadr_arg_t.splits if_splits)

lemma change_args_exec:
  assumes x: "entry_ok C x" "v \<in> C" and eq: "s_var st v = s_var st v'"
  shows "exec_op M (change_args v v' x) st = exec_op M x st"
proof -
  have a: "arg_val st (change_arg v v' a) = arg_val st a" for a by (rule arg_val_change[OF eq])
  have g: "q_op x = Q_GET_ADDR \<Longrightarrow> change_arg v v' (q_arg1 x) = q_arg1 x" using x by (auto simp: entry_ok_def change_arg_def)
  have c: "q_op x = Q_CALL \<Longrightarrow> change_arg v v' (q_arg1 x) = q_arg1 x" using x by (auto simp: entry_ok_def quadr_ok_def)
  show ?thesis unfolding exec_op_def using g c by (simp add: a cong: val.case_cong quadr_arg_t.case_cong)
qed

lemma change_res_exec:
  assumes "\<not> assigned_in_quadr x v" and eq: "s_var st v = s_var st v'"
  shows "exec_op M (change_res v v' x) st = exec_op M x st"
proof (cases "q_op x = Q_WRITE_PTR")
  case True
  then show ?thesis by (simp add: exec_op_def arith_ops_def arg_val_change[OF eq])
next
  case False
  then have "change_res v v' x = x" using assms(1) by (auto simp: assigned_in_quadr_def change_res_def change_arg_def)
  then show ?thesis by simp
qed

lemma change_args_end:
  assumes x: "entry_ok C x" "is_block_end (q_op x)" and eq: "s_var st v = s_var st v'" and N: "\<forall>y \<in> set qs. y = None"
  shows "run_t M (Some (change_res v v' (change_args v v' x)) # qs) st = run_t M (Some x # qs) st"
    and "run_t M (Some (change_args v v' x) # qs) st = run_t M (Some x # qs) st"
proof -
  have ok: "quadr_ok x" using x(1) by (simp add: entry_ok_def)
  have a: "arg_val st (change_arg v v' a) = arg_val st a" for a by (rule arg_val_change[OF eq])
  have r: "q_result x = QA_LABEL l \<Longrightarrow> change_arg v v' (q_result x) = q_result x" for l by simp
  show "run_t M (Some (change_args v v' x) # qs) st = run_t M (Some x # qs) st"
    using x(2) ok by (cases "q_op x") (auto simp: run_t_def a quadr_ok_def cong: if_cong)
  show "run_t M (Some (change_res v v' (change_args v v' x)) # qs) st = run_t M (Some x # qs) st"
    using x(2) ok by (cases "q_op x") (auto simp: run_t_def a quadr_ok_def cong: if_cong)
qed

lemma propagate_forwards_Cons:
  "propagate_forwards var0 var1 (Some x # qs) =
    (let x' = change_args var0 var1 x in
     if (assigned_in_quadr x var0 \<or> assigned_in_quadr x var1) \<and> \<not> copy_between x' var0 var1 then Some x' # qs
     else remove_redundant_copy (Some (change_res var0 var1 x')) # propagate_forwards var0 var1 qs)"
  by (simp add: Let_def change_args_def change_res_def assigned_in_quadr_def)

lemma all_None: "\<forall>y \<in> set qs. y = None \<Longrightarrow> propagate_forwards v v' qs = qs \<and> tab_ok C qs"
  by (induction qs) (auto simp: tab_ok_def)

lemma tab_ok_rest: "tab_ok C (y # qs) \<Longrightarrow> tab_ok C qs"
  using all_None by (cases y) (auto simp: tab_ok_Cons split: if_splits)

lemma propagate_forwards_ok:
  "tab_ok C qs \<Longrightarrow> v \<in> C \<Longrightarrow> v' \<in> C \<Longrightarrow> tab_ok C (propagate_forwards v v' qs)"
proof (induction qs)
  case (Cons y qs)
  have r: "tab_ok C (propagate_forwards v v' qs)" using Cons tab_ok_rest by blast
  show ?case
  proof (cases y)
    case None
    then show ?thesis using r by (simp add: tab_ok_Cons)
  next
    case (Some x)
    have e: "entry_ok C (change_args v v' x)" "entry_ok C (change_res v v' (change_args v v' x))"
      using Cons.prems entry_ok_change[of C] Some by (auto simp: tab_ok_Cons)
    have N: "is_block_end (q_op x) \<Longrightarrow> \<forall>y \<in> set qs. y = None" using Cons.prems(1) Some by (simp add: tab_ok_Cons)
    have a: "tab_ok C (Some (change_args v v' x) # qs)" using e(1) N tab_ok_rest[OF Cons.prems(1)] by (simp add: tab_ok_Cons)
    have b: "tab_ok C (Some (change_res v v' (change_args v v' x)) # propagate_forwards v v' qs)"
      using e(2) N all_None[of qs v v'] r by (auto simp: tab_ok_Cons)
    show ?thesis unfolding Some propagate_forwards_Cons Let_def using a tab_ok_redundant[OF b] by (auto simp del: remove_redundant_copy.simps)
  qed
qed simp

lemma exec_self_copy:
  assumes "q_op x = Q_COPY" and "q_result x = QA_VAR v" and "arg_val st (q_arg1 x) = Some (s_var st v)"
  shows "exec_op M x st = Some st"
  using assms by (simp add: exec_op_def arith_ops_def set_result_def)

lemma propagate_forwards_run:
  "tab_ok C qs \<Longrightarrow> v \<in> C \<Longrightarrow> v' \<in> C \<Longrightarrow> s_var st v = s_var st v' \<Longrightarrow>
    run_t M (propagate_forwards v v' qs) st = run_t M qs st"
proof (induction qs arbitrary: st)
  case (Cons y qs)
  note IH = Cons.IH[OF tab_ok_rest[OF Cons.prems(1)] Cons.prems(2,3)]
  show ?case
  proof (cases y)
    case None
    then show ?thesis using IH Cons.prems by simp
  next
    case (Some x)
    let ?x1 = "change_args v v' x" and ?x2 = "change_res v v' (change_args v v' x)"
    have e: "entry_ok C x" using Cons.prems(1) Some by (simp add: tab_ok_Cons)
    show ?thesis
    proof (cases "is_block_end (q_op x)")
      case True
      then have N: "\<forall>y \<in> set qs. y = None" using Cons.prems(1) Some by (simp add: tab_ok_Cons)
      show ?thesis
        unfolding Some propagate_forwards_Cons Let_def
        using change_args_end[OF e True Cons.prems(4) N] all_None[OF N]
        by (auto simp: run_redundant simp del: remove_redundant_copy.simps)
    next
      case False
      have x1: "exec_op M ?x1 st = exec_op M x st" by (rule change_args_exec[OF e Cons.prems(2,4)])
      have old: "run_t M (Some x # qs) st = do { st \<leftarrow> exec_op M x st; run_t M qs st }" by (rule run_t_op[OF False])
      show ?thesis
      proof (cases "(assigned_in_quadr x v \<or> assigned_in_quadr x v') \<and> \<not> copy_between ?x1 v v'")
        case True
        then show ?thesis unfolding Some propagate_forwards_Cons Let_def using False x1 by (simp add: run_t_op)
      next
        case c: False
        have "run_t M (remove_redundant_copy (Some ?x2) # propagate_forwards v v' qs) st =
            do { st \<leftarrow> exec_op M ?x2 st; run_t M (propagate_forwards v v' qs) st }"
          using False by (simp add: run_redundant run_t_op del: remove_redundant_copy.simps)
        also have "\<dots> = do { st \<leftarrow> exec_op M x st; run_t M qs st }"
        proof (cases "assigned_in_quadr x v \<or> assigned_in_quadr x v'")
          case True
          then have cp: "q_op x = Q_COPY" "change_arg v v' (q_arg1 x) = QA_VAR v \<or> change_arg v v' (q_arg1 x) = QA_VAR v'"
            "q_result x = QA_VAR v \<or> q_result x = QA_VAR v'"
            using c by (auto simp: copy_between_def assigned_in_quadr_def)
          have a: "arg_val st (q_arg1 x) = Some (s_var st v')" "arg_val st (change_arg v v' (q_arg1 x)) = Some (s_var st v')"
            using cp(2) Cons.prems(4) by (auto simp: arg_val_def change_arg_def split: if_splits)
          have "exec_op M x st = Some st" using exec_self_copy[OF cp(1)] cp(3) a(1) Cons.prems(4) by auto
          moreover have "exec_op M ?x2 st = Some st" using cp a(2) by (intro exec_self_copy[of _ v']) auto
          ultimately show ?thesis using IH[OF Cons.prems(4)] by simp
        next
          case n: False
          have "exec_op M ?x2 st = exec_op M x st"
            using change_res_exec[of ?x1 v st v' M] n Cons.prems(4) x1 by (simp add: assigned_in_quadr_def)
          moreover have "run_t M (propagate_forwards v v' qs) st1 = run_t M qs st1" if "exec_op M x st = Some st1" for st1
            by (rule IH) (use exec_op_frame[OF that] n Cons.prems(4) in simp)
          ultimately show ?thesis by (cases "exec_op M x st") simp_all
        qed
        finally show ?thesis unfolding Some propagate_forwards_Cons Let_def if_not_P[OF c] old .
      qed
    qed
  qed
qed simp

subsection \<open>Copy propagation\<close>

lemma copy_vars_Some:
  "copy_vars x = Some (v, u) \<longleftrightarrow> q_op x = Q_COPY \<and> q_result x = QA_VAR v \<and> q_arg1 x = QA_VAR u"
  by (auto simp: copy_vars_def split: quadr_arg_t.splits)

lemma redundant_iff: "redundant_copy x \<longleftrightarrow> (\<exists>v. copy_vars x = Some (v, v))"
  by (cases "q_arg1 x") (auto simp: redundant_copy_def copy_vars_Some)

lemma copy_exec: "copy_vars x = Some (v, u) \<Longrightarrow> exec_op M x st = Some (st\<lparr>s_var := (s_var st)(v := s_var st u)\<rparr>)"
  by (auto simp: copy_vars_Some exec_op_def arith_ops_def arg_val_def set_result_def)

lemma bind_copy_vars:
  "Option.bind (remove_redundant_copy y) copy_vars = Some (v, u) \<Longrightarrow>
    \<exists>x. y = Some x \<and> remove_redundant_copy y = Some x \<and> copy_vars x = Some (v, u) \<and> v \<noteq> u"
  by (cases y) (auto simp: redundant_iff split: if_splits)

lemma copy_propagation_step:
  "copy_propagation (y # qs) =
    (case Option.bind (remove_redundant_copy y) copy_vars of
       None \<Rightarrow> do { qs \<leftarrow> copy_propagation qs; Some (remove_redundant_copy y # qs) }
     | Some (v, u) \<Rightarrow> do { qs \<leftarrow> copy_propagation (propagate_forwards v u qs); Some (remove_redundant_copy y # qs) })"
proof (cases "Option.bind (remove_redundant_copy y) copy_vars")
  case (Some vu)
  obtain v u where vu: "vu = (v, u)" by (cases vu)
  then have "v \<noteq> u" using bind_copy_vars[of y v u] Some by blast
  then show ?thesis unfolding copy_propagation.simps(2) Let_def Some vu by simp
qed (simp add: Let_def)

declare copy_propagation.simps(2) [simp del]

lemma run_t_cong:
  assumes "\<And>x st. y = Some x \<Longrightarrow> exec_op M x st1 = Some st \<Longrightarrow> run_t M qs' st = run_t M qs st"
    and "\<And>x. y = Some x \<Longrightarrow> is_block_end (q_op x) \<Longrightarrow> run_t M qs' st1 = run_t M qs st1"
    and "y = None \<Longrightarrow> run_t M qs' st1 = run_t M qs st1"
  shows "run_t M (y # qs') st1 = run_t M (y # qs) st1"
proof (cases y)
  case (Some x)
  show ?thesis
  proof (cases "is_block_end (q_op x)")
    case True
    then have "run_qs M (qtab_list qs') st1 = run_qs M (qtab_list qs) st1" using assms(2) Some by (simp add: run_t_def)
    moreover have "q_op x = Q_NONE \<Longrightarrow> exec_op M x st1 = None" by (simp add: exec_op_def arith_ops_def)
    ultimately show ?thesis using Some True by (cases "q_op x") (auto simp: run_t_def cong: if_cong)
  next
    case False
    then show ?thesis using assms(1) Some by (cases "exec_op M x st1") (simp_all add: run_t_op)
  qed
qed (use assms(3) in simp)

lemma copy_propagation_correct:
  "tab_ok C qs \<Longrightarrow> \<exists>qs'. copy_propagation qs = Some qs' \<and> length qs' = length qs \<and> (\<forall>(M :: 'w machine) st. run_t M qs' st = run_t M qs st)"
proof (induction "length qs" arbitrary: qs)
  case (Suc n)
  then obtain y rs where qs: "qs = y # rs" by (cases qs) auto
  have ok: "tab_ok C (y # rs)" using Suc.prems qs by simp
  note rest = tab_ok_rest[OF ok]
  show ?case
  proof (cases "Option.bind (remove_redundant_copy y) copy_vars")
    case None
    obtain rs' where rs': "copy_propagation rs = Some rs'" "length rs' = length rs" "\<forall>(M :: 'w machine) st. run_t M rs' st = run_t M rs st"
      using Suc.hyps(1)[of rs] Suc.hyps(2) rest qs by auto
    have "run_t M (remove_redundant_copy y # rs') st = run_t M (y # rs) st" for M :: "'w machine" and st
      unfolding run_redundant by (rule run_t_cong) (use rs'(3) in auto)
    then show ?thesis using rs'(1,2) None qs by (simp add: copy_propagation_step)
  next
    case (Some vu)
    obtain v u where vu: "vu = (v, u)" by (cases vu)
    then obtain x where x: "y = Some x" "remove_redundant_copy y = Some x" "copy_vars x = Some (v, u)"
      using bind_copy_vars[of y v u] Some by blast
    have C: "v \<in> C" "u \<in> C" using ok x(1,3) by (auto simp: tab_ok_Cons entry_ok_def)
    let ?rs = "propagate_forwards v u rs"
    obtain rs' where rs': "copy_propagation ?rs = Some rs'" "length rs' = length rs" "\<forall>(M :: 'w machine) st. run_t M rs' st = run_t M ?rs st"
      using Suc.hyps(1)[of ?rs] Suc.hyps(2) propagate_forwards_ok[OF rest C] qs by auto
    have "run_t M (Some x # rs') st = run_t M (Some x # rs) st" for M :: "'w machine" and st
    proof (rule run_t_cong)
      fix z st1 assume "Some x = Some z" "exec_op M z st = Some st1"
      then have "s_var st1 v = s_var st1 u" using copy_exec[OF x(3), of M st] by auto
      then show "run_t M rs' st1 = run_t M rs st1" using rs'(3) propagate_forwards_run[OF rest C] by auto
    next
      fix z assume "Some x = Some z" "is_block_end (q_op z)"
      then show "run_t M rs' st = run_t M rs st" using x(3) by (simp add: copy_vars_Some)
    qed simp
    then show ?thesis using rs'(1,2) Some vu x qs by (simp add: copy_propagation_step)
  qed
qed simp

subsection \<open>Backward propagation\<close>

fun ops :: "'w machine \<Rightarrow> qtab \<Rightarrow> 'w store \<Rightarrow> 'w store option" where
  "ops M [] st = Some st"
| "ops M (None # qs) st = ops M qs st"
| "ops M (Some x # qs) st = do { st \<leftarrow> exec_op M x st; ops M qs st }"

definition no_end :: "qtab \<Rightarrow> bool" where
  "no_end qs \<longleftrightarrow> (\<forall>x. Some x \<in> set qs \<longrightarrow> \<not> is_block_end (q_op x))"

lemma no_end_simps [simp]:
  "no_end []" "no_end (None # qs) = no_end qs" "no_end (Some x # qs) \<longleftrightarrow> \<not> is_block_end (q_op x) \<and> no_end qs"
  "no_end (xs @ ys) \<longleftrightarrow> no_end xs \<and> no_end ys" "no_end (rev xs) = no_end xs"
  by (auto simp: no_end_def)

lemma run_t_append: "no_end xs \<Longrightarrow> run_t M (xs @ ys) st = do { st \<leftarrow> ops M xs st; run_t M ys st }"
proof (induction M xs st rule: ops.induct)
  case (3 M x qs st)
  then show ?case by (cases "exec_op M x st") (simp_all add: run_t_op)
qed simp_all

lemma ops_append: "ops M (xs @ ys) st = do { st \<leftarrow> ops M xs st; ops M ys st }"
proof (induction M xs st rule: ops.induct)
  case (3 M x qs st)
  then show ?case by (cases "exec_op M x st") simp_all
qed simp_all

lemma tab_ok_append:
  "no_end xs \<Longrightarrow> tab_ok C (xs @ ys) \<longleftrightarrow> (\<forall>x. Some x \<in> set xs \<longrightarrow> entry_ok C x) \<and> tab_ok C ys"
proof -
  assume n: "no_end xs"
  have "shape (xs @ ys) = shape ys" using n by (induction xs rule: shape.induct) simp_all
  then show ?thesis by (auto simp: tab_ok_def)
qed

lemma tab_ok_no_end: "tab_ok C (xs @ Some x # ys) \<Longrightarrow> no_end xs"
  by (auto simp: tab_ok_def shape_append no_end_def split: if_splits)

fun back_entry :: "var_id \<Rightarrow> var_id \<Rightarrow> quadr_t option \<Rightarrow> quadr_t option" where
  "back_entry v u None = None"
| "back_entry v u (Some x) = remove_redundant_copy (Some (change_args u v (change_res u v x)))"

definition between_ok :: "var_id \<Rightarrow> var_id \<Rightarrow> quadr_t \<Rightarrow> bool" where
  "between_ok v u x \<longleftrightarrow> \<not> assigned_in_quadr x u \<and> \<not> used_in_quadr x v \<and> \<not> assigned_in_quadr x v"

lemma propagate_backwards_Cons:
  "propagate_backwards v u (Some x # qs) =
    (if assigned_in_quadr (change_res u v x) v then Some (change_res u v x) # qs
     else back_entry v u (Some x) # propagate_backwards v u qs)"
  by (simp add: Let_def change_res_def change_args_def)

lemma backpropagate_split:
  "can_backpropagate v u ps \<Longrightarrow>
    \<exists>B q A. ps = B @ Some q # A \<and> assigned_in_quadr q u \<and> (\<forall>x. Some x \<in> set B \<longrightarrow> between_ok v u x) \<and>
      propagate_backwards v u ps = map (back_entry v u) B @ Some (q\<lparr>q_result := QA_VAR v\<rparr>) # A"
proof (induction v u ps rule: can_backpropagate.induct)
  case (2 v u qs)
  then obtain B q A where "qs = B @ Some q # A" "assigned_in_quadr q u" "\<forall>x. Some x \<in> set B \<longrightarrow> between_ok v u x"
    "propagate_backwards v u qs = map (back_entry v u) B @ Some (q\<lparr>q_result := QA_VAR v\<rparr>) # A" by auto
  then show ?case by (intro exI[of _ "None # B"] exI[of _ q] exI[of _ A]) simp
next
  case (3 v u x qs)
  show ?case
  proof (cases "assigned_in_quadr x u")
    case True
    then have "change_res u v x = x\<lparr>q_result := QA_VAR v\<rparr>" "assigned_in_quadr (change_res u v x) v"
      by (simp_all add: assigned_in_quadr_def change_res_def)
    then show ?thesis unfolding propagate_backwards_Cons using True
      by (intro exI[of _ "[]"] exI[of _ x] exI[of _ qs]) simp
  next
    case False
    then have b: "between_ok v u x" "can_backpropagate v u qs" using 3(2) by (auto simp: between_ok_def split: if_splits)
    have n: "\<not> assigned_in_quadr (change_res u v x) v"
      using b(1) False by (auto simp: assigned_in_quadr_def change_arg_def between_ok_def split: if_splits)
    obtain B q A where "qs = B @ Some q # A" "assigned_in_quadr q u" "\<forall>x. Some x \<in> set B \<longrightarrow> between_ok v u x"
      "propagate_backwards v u qs = map (back_entry v u) B @ Some (q\<lparr>q_result := QA_VAR v\<rparr>) # A"
      using 3(1)[OF False _ b(2)] 3(2) False by (auto split: if_splits)
    then show ?thesis unfolding propagate_backwards_Cons using n b(1)
      by (intro exI[of _ "Some x # B"] exI[of _ q] exI[of _ A]) (simp del: back_entry.simps)
  qed
qed simp

text \<open>In the new code the value of \<open>u\<close> is in \<open>v\<close>.\<close>

definition moved :: "var_id \<Rightarrow> var_id \<Rightarrow> 'w store \<Rightarrow> 'w store \<Rightarrow> bool" where
  "moved v u st st' \<longleftrightarrow> eq_except {v, u} st st' \<and> s_var st' v = s_var st u"

lemma arg_val_moved: "moved v u st st' \<Longrightarrow> a \<noteq> QA_VAR v \<Longrightarrow> arg_val st' (change_arg u v a) = arg_val st a"
  by (cases a) (auto simp: moved_def eq_except_def change_arg_def arg_val_def)

lemma moved_exec:
  assumes x: "between_ok v u x" "entry_ok C x" "u \<in> C" and m: "moved v u st st'" and run: "exec_op M x st = Some st1"
  shows "\<exists>st1'. exec_op M (change_args u v (change_res u v x)) st' = Some st1' \<and> moved v u st1 st1'"
proof -
  let ?x = "change_args u v (change_res u v x)"
  have ok: "quadr_ok x" using x(2) by (simp add: entry_ok_def)
  have na: "\<And>w. w \<in> {v, u} \<Longrightarrow> \<not> assigned_in_quadr x w" using x(1) by (auto simp: between_ok_def)
  have res: "q_op x \<noteq> Q_WRITE_PTR \<Longrightarrow> change_arg u v (q_result x) = q_result x"
    using na[of u] by (auto simp: assigned_in_quadr_def change_arg_def)
  have "\<exists>st1'. exec_op M ?x st' = Some st1' \<and> eq_except ({v, u} - {w. assigned_in_quadr x w}) st1 st1'"
  proof (rule exec_op_subst[OF _ _ _ _ _ _ ok _ run])
    show "arg_val st' (q_arg1 ?x) = arg_val st (q_arg1 x)" "arg_val st' (q_arg2 ?x) = arg_val st (q_arg2 x)"
      using arg_val_moved[OF m] x(1) by (simp_all add: between_ok_def used_in_quadr_def)
    show "q_op x = Q_WRITE_PTR \<Longrightarrow> arg_val st' (q_result ?x) = arg_val st (q_result x)"
      using arg_val_moved[OF m] x(1) by (simp add: between_ok_def used_in_quadr_def)
    show "q_op x \<in> {Q_GET_ADDR, Q_CALL} \<Longrightarrow> q_arg1 ?x = q_arg1 x"
      using x(2,3) by (auto simp: entry_ok_def quadr_ok_def change_arg_def)
    show "eq_except {v, u} st st'" using m by (simp add: moved_def)
  qed (use res in simp_all)
  then obtain st1' where st1': "exec_op M ?x st' = Some st1'" "eq_except ({v, u} - {w. assigned_in_quadr x w}) st1 st1'" by blast
  have "\<not> assigned_in_quadr ?x v" using na[of v] res by (auto simp: assigned_in_quadr_def)
  then have "s_var st1' v = s_var st' v" using exec_op_frame[OF st1'(1)] by blast
  moreover have "s_var st1 u = s_var st u" using exec_op_frame[OF run] na by simp
  ultimately have "moved v u st1 st1'" using m st1'(2) by (auto simp: moved_def eq_except_def)
  then show ?thesis using st1'(1) by blast
qed

lemma ops_redundant: "ops M (remove_redundant_copy y # qs) st = ops M (y # qs) st"
  by (cases y) (auto simp: redundant_exec)

lemma moved_ops:
  "\<forall>x. Some x \<in> set B \<longrightarrow> between_ok v u x \<and> entry_ok C x \<Longrightarrow> u \<in> C \<Longrightarrow> moved v u st st' \<Longrightarrow> ops M B st = Some t \<Longrightarrow>
    \<exists>t'. ops M (map (back_entry v u) B) st' = Some t' \<and> moved v u t t'"
proof (induction B arbitrary: st st')
  case (Cons y B)
  show ?case
  proof (cases y)
    case None
    then show ?thesis using Cons by simp
  next
    case (Some x)
    obtain st1 where st1: "exec_op M x st = Some st1" "ops M B st1 = Some t" using Cons.prems(4) Some by auto
    have x: "between_ok v u x" "entry_ok C x" using Cons.prems(1) Some by auto
    obtain st1' where st1': "exec_op M (change_args u v (change_res u v x)) st' = Some st1'" "moved v u st1 st1'"
      using moved_exec[OF x Cons.prems(2,3) st1(1)] by blast
    obtain t' where "ops M (map (back_entry v u) B) st1' = Some t'" "moved v u t t'"
      using Cons.IH[of st1 st1'] Cons.prems(1,2) st1'(2) st1(2) by auto
    then show ?thesis using Some st1'(1) by (simp add: ops_redundant del: remove_redundant_copy.simps)
  qed
qed simp

definition refines :: "qtab \<Rightarrow> qtab \<Rightarrow> 'w itself \<Rightarrow> bool" where
  "refines qs qs' T \<longleftrightarrow> (\<forall>(M :: 'w machine) st r. run_t M qs st = Some r \<longrightarrow> run_t M qs' st = Some r)"

lemma refines_refl [simp]: "refines qs qs T"
  by (simp add: refines_def)

lemma refines_trans: "refines qs qs' T \<Longrightarrow> refines qs' qs'' T \<Longrightarrow> refines qs qs'' T"
  by (simp add: refines_def)

text \<open>The step of \<open>copy_backpropagation\<close> at a copy \<open>v := u\<close>.\<close>

lemma back_entry_ok:
  assumes "entry_ok C x" and "v \<in> C" and "u \<in> C" and "back_entry v u (Some x) = Some z"
  shows "entry_ok C z" and "q_op z = q_op x"
proof -
  have z: "z = change_args u v (change_res u v x)" using assms(4) by (simp split: if_splits)
  show "entry_ok C z" unfolding z by (rule entry_ok_change(1)[OF entry_ok_change(2)[OF assms(1,3,2)] assms(3,2)])
  show "q_op z = q_op x" unfolding z by simp
qed

lemma retarget_ok:
  assumes "entry_ok C q" and "assigned_in_quadr q u" and "v \<in> C" and "\<not> is_block_end (q_op q)"
  shows "entry_ok C (q\<lparr>q_result := QA_VAR v\<rparr>)"
  using assms by (auto simp: entry_ok_def quadr_ok_def assigned_in_quadr_def copy_vars_Some)

lemma copy_back_step:
  fixes T :: "'w itself"
  assumes ok: "tab_ok C (xs @ Some y # ys)" and y: "copy_vars y = Some (v, u)" "v \<noteq> u" and can: "can_backpropagate v u (rev xs)"
  defines "qs' \<equiv> rev (propagate_backwards v u (rev xs)) @ Some (y\<lparr>q_result := QA_VAR u, q_arg1 := QA_VAR v\<rparr>) #
    propagate_forwards u v ys"
  shows "tab_ok C qs'" and "length qs' = length (xs @ Some y # ys)" and "refines (xs @ Some y # ys) qs' T"
proof -
  obtain B q A where s: "rev xs = B @ Some q # A" "assigned_in_quadr q u" "\<forall>x. Some x \<in> set B \<longrightarrow> between_ok v u x"
    "propagate_backwards v u (rev xs) = map (back_entry v u) B @ Some (q\<lparr>q_result := QA_VAR v\<rparr>) # A"
    using backpropagate_split[OF can] by blast
  have xs: "xs = rev A @ Some q # rev B" using arg_cong[OF s(1), of rev] by simp
  let ?q = "q\<lparr>q_result := QA_VAR v\<rparr>" and ?y = "y\<lparr>q_result := QA_VAR u, q_arg1 := QA_VAR v\<rparr>"
  let ?B = "map (back_entry v u) (rev B)"
  have qs': "qs' = rev A @ Some ?q # ?B @ Some ?y # propagate_forwards u v ys" by (simp add: qs'_def s(4) rev_map)
  have ne: "no_end xs" by (rule tab_ok_no_end[OF ok])
  have ents: "\<And>x. Some x \<in> set xs \<Longrightarrow> entry_ok C x" "tab_ok C (Some y # ys)" using ok tab_ok_append[OF ne] by auto
  have vu: "v \<in> C" "u \<in> C" using ents(2) y(1) by (auto simp: tab_ok_Cons entry_ok_def)
  have yend: "\<not> is_block_end (q_op y)" using y(1) by (simp add: copy_vars_Some)
  have ysok: "tab_ok C ys" by (rule tab_ok_rest[OF ents(2)])
  have q: "entry_ok C q" "\<not> is_block_end (q_op q)" using ents(1) ne xs by (auto simp: no_end_def)
  have Bx: "Some x \<in> set B \<Longrightarrow> entry_ok C x \<and> \<not> is_block_end (q_op x)" for x using ents(1) ne xs by (auto simp: no_end_def)
  have Bz: "Some z \<in> set ?B \<Longrightarrow> entry_ok C z \<and> \<not> is_block_end (q_op z)" for z
  proof -
    assume "Some z \<in> set ?B"
    then obtain b where b: "b \<in> set B" "back_entry v u b = Some z" by auto
    obtain x where x: "b = Some x" using b(2) by (metis back_entry.simps(1) option.distinct(1) option.exhaust)
    show ?thesis using back_entry_ok[OF _ vu, of x z] Bx[of x] b x by auto
  qed
  have ne': "no_end (rev A @ Some ?q # ?B)" using ne q Bz unfolding xs by (auto simp: no_end_def)
  have yok: "entry_ok C ?y" using ents(2) y(1) vu by (auto simp: tab_ok_Cons entry_ok_def copy_vars_Some quadr_ok_def)
  have fwd: "tab_ok C (propagate_forwards u v ys)" by (rule propagate_forwards_ok[OF ysok vu(2,1)])
  have split: "qs' = (rev A @ Some ?q # ?B) @ Some ?y # propagate_forwards u v ys" by (simp add: qs')
  show "tab_ok C qs'"
    unfolding split tab_ok_append[OF ne']
  proof (intro conjI allI impI)
    show "tab_ok C (Some ?y # propagate_forwards u v ys)" using yok fwd yend by (simp add: tab_ok_Cons)
    fix z assume "Some z \<in> set (rev A @ Some ?q # ?B)"
    then consider "Some z \<in> set A" | "z = ?q" | "Some z \<in> set ?B" by auto
    then show "entry_ok C z"
      by cases (use ents(1) xs retarget_ok[OF q(1) s(2) vu(1) q(2)] Bz in auto)
  qed
  show "length qs' = length (xs @ Some y # ys)" by (simp add: qs' xs)
  show "refines (xs @ Some y # ys) qs' T"
    unfolding refines_def
  proof (intro allI impI)
    fix M :: "'w machine" and st r assume "run_t M (xs @ Some y # ys) st = Some r"
    then obtain t where t: "ops M xs st = Some t" "run_t M (Some y # ys) t = Some r"
      by (auto simp: run_t_append[OF ne])
    then obtain s0 s1 where s0: "ops M (rev A) st = Some s0" "exec_op M q s0 = Some s1" "ops M (rev B) s1 = Some t"
      by (auto simp: xs ops_append)
    have "quadr_ok q" using q(1) by (simp add: entry_ok_def)
    then obtain c sm where c: "s_var sm = s_var s0" "s1 = sm\<lparr>s_var := (s_var s0)(u := c)\<rparr>"
      "exec_op M ?q s0 = Some (sm\<lparr>s_var := (s_var s0)(v := c)\<rparr>)"
      using exec_op_retarget[OF s0(2) s(2)] by blast
    have "moved v u s1 (sm\<lparr>s_var := (s_var s0)(v := c)\<rparr>)" using c(2) by (simp add: moved_def eq_except_def)
    moreover have "\<forall>x. Some x \<in> set (rev B) \<longrightarrow> between_ok v u x \<and> entry_ok C x" using s(3) Bx by simp
    ultimately obtain t' where t': "ops M ?B (sm\<lparr>s_var := (s_var s0)(v := c)\<rparr>) = Some t'" "moved v u t t'"
      using moved_ops[OF _ vu(2) _ s0(3)] by blast
    have new: "ops M (rev A @ Some ?q # ?B) st = Some t'" using s0(1) c(3) t'(1) by (simp add: ops_append)
    let ?e = "t\<lparr>s_var := (s_var t)(v := s_var t u)\<rparr>"
    have "copy_vars ?y = Some (u, v)" using y(1) by (simp add: copy_vars_Some)
    then have "exec_op M ?y t' = Some (t'\<lparr>s_var := (s_var t')(u := s_var t' v)\<rparr>)" by (rule copy_exec)
    moreover have "t'\<lparr>s_var := (s_var t')(u := s_var t' v)\<rparr> = ?e"
    proof -
      have "(s_var t')(u := s_var t' v) = (s_var t)(v := s_var t u)" using t'(2) by (auto simp: moved_def eq_except_def fun_eq_iff)
      moreover have "s_arr t' = s_arr t" "s_par t' = s_par t" "s_world t' = s_world t" using t'(2) by (simp_all add: moved_def eq_except_def)
      ultimately show ?thesis by simp
    qed
    ultimately have e: "exec_op M ?y t' = Some ?e" by simp
    have "run_t M ys ?e = Some r" using t(2) yend copy_exec[OF y(1), of M t] by (simp add: run_t_op)
    then have "run_t M (propagate_forwards u v ys) ?e = Some r" using propagate_forwards_run[OF ysok vu(2,1), of ?e M] by simp
    then have "run_t M (Some ?y # propagate_forwards u v ys) t' = Some r" using e yend by (simp add: run_t_op)
    then show "run_t M qs' st = Some r" unfolding split run_t_append[OF ne'] using new by simp
  qed
qed

lemma redundant_mid:
  fixes T :: "'w itself"
  assumes "tab_ok C (xs @ y # ys)"
  shows "tab_ok C (xs @ remove_redundant_copy y # ys)" and "refines (xs @ y # ys) (xs @ remove_redundant_copy y # ys) T"
proof -
  have *: "tab_ok C (xs @ remove_redundant_copy y # ys) \<and> (\<forall>(M :: 'w machine) st. run_t M (xs @ remove_redundant_copy y # ys) st = run_t M (xs @ y # ys) st)"
    using assms
  proof (induction xs)
    case Nil
    then show ?case using tab_ok_redundant run_redundant by (auto simp del: remove_redundant_copy.simps)
  next
    case (Cons z xs)
    have IH: "tab_ok C (xs @ remove_redundant_copy y # ys)"
      "\<And>(M :: 'w machine) st. run_t M (xs @ remove_redundant_copy y # ys) st = run_t M (xs @ y # ys) st"
      using Cons.IH tab_ok_rest[of C z] Cons.prems by auto
    have "run_t M (z # xs @ remove_redundant_copy y # ys) st = run_t M (z # xs @ y # ys) st" for M :: "'w machine" and st
      by (rule run_t_cong) (use IH(2) in auto)
    then show ?case using Cons.prems IH(1) by (cases z) (auto simp: tab_ok_Cons split: if_splits)
  qed
  then show "tab_ok C (xs @ remove_redundant_copy y # ys)" "refines (xs @ y # ys) (xs @ remove_redundant_copy y # ys) T"
    by (auto simp: refines_def)
qed

lemma backprop_at_correct:
  fixes T :: "'w itself"
  assumes ok: "tab_ok C qs" and i: "i < length qs"
  shows "\<exists>qs'. backprop_at i qs = Some qs' \<and> tab_ok C qs' \<and> length qs' = length qs \<and> refines qs qs' T"
proof -
  let ?xs = "take i qs" and ?y = "qs ! i" and ?ys = "drop (Suc i) qs"
  let ?r = "qs[i := remove_redundant_copy ?y]"
  have qs: "qs = ?xs @ ?y # ?ys" using i by (simp add: id_take_nth_drop)
  have r: "?r = ?xs @ remove_redundant_copy ?y # ?ys" using i by (simp add: upd_conv_take_nth_drop)
  have ok': "tab_ok C (?xs @ ?y # ?ys)" using ok qs by simp
  have ok1: "tab_ok C ?r" "refines qs ?r T" using redundant_mid(1)[OF ok'] redundant_mid(2)[OF ok', where T = T] unfolding r[symmetric] qs[symmetric] by blast+
  have nth: "?r ! i = remove_redundant_copy ?y" "take i ?r = ?xs" "drop (Suc i) ?r = ?ys" using i by simp_all
  show ?thesis
  proof (cases "Option.bind (remove_redundant_copy ?y) copy_vars")
    case None
    then have "backprop_at i qs = Some ?r" unfolding backprop_at_def Let_def nth by simp
    then show ?thesis using ok1 by simp
  next
    case (Some vu)
    obtain v u where vu: "vu = (v, u)" by (cases vu)
    then obtain x where x: "?y = Some x" "remove_redundant_copy ?y = Some x" "copy_vars x = Some (v, u)" "v \<noteq> u"
      using bind_copy_vars[of ?y v u] Some by blast
    let ?n = "rev (propagate_backwards v u (rev ?xs)) @ Some (x\<lparr>q_result := QA_VAR u, q_arg1 := QA_VAR v\<rparr>) # propagate_forwards u v ?ys"
    have b: "Option.bind (?r ! i) copy_vars = Some (v, u)" unfolding nth(1) Some vu ..
    have at: "backprop_at i qs = Some (if can_backpropagate v u (rev ?xs) then ?n else ?r)"
      unfolding backprop_at_def Let_def b using x(2,4) i by simp
    show ?thesis
    proof (cases "can_backpropagate v u (rev ?xs)")
      case False
      then show ?thesis using at ok1 by simp
    next
      case True
      have "tab_ok C (?xs @ Some x # ?ys)" using ok1(1) r x(2) by simp
      note st = copy_back_step(1,2)[OF this x(3,4) True] copy_back_step(3)[OF this x(3,4) True, where T = T]
      have len: "length ?n = length qs" unfolding st(2) using i by simp
      have "refines ?r ?n T" using st(3) r x(2) by simp
      then show ?thesis using at True st(1) len refines_trans[OF ok1(2)] by (intro exI[of _ ?n]) simp
    qed
  qed
qed

lemma backprop_loop_correct:
  fixes T :: "'w itself"
  shows "tab_ok C qs \<Longrightarrow> i \<le> length qs \<Longrightarrow>
    \<exists>qs'. backprop_loop i qs = Some qs' \<and> tab_ok C qs' \<and> length qs' = length qs \<and> refines qs qs' T"
proof (induction i arbitrary: qs)
  case (Suc i)
  obtain q1 where q1: "backprop_at i qs = Some q1" "tab_ok C q1" "length q1 = length qs" "refines qs q1 T"
    using backprop_at_correct[OF Suc.prems(1), of i, where T = T] Suc.prems(2) by auto
  obtain q2 where "backprop_loop i q1 = Some q2" "tab_ok C q2" "length q2 = length q1" "refines q1 q2 T"
    using Suc.IH[OF q1(2)] Suc.prems(2) q1(3) by auto
  then show ?case using q1 refines_trans by auto
qed simp

subsection \<open>Dead assignments\<close>

lemma eq_except_mono: "eq_except W st st' \<Longrightarrow> W \<subseteq> W' \<Longrightarrow> eq_except W' st st'"
  by (auto simp: eq_except_def)

lemma dead_after_run:
  "dead_after v qs \<Longrightarrow> tab_ok C qs \<Longrightarrow> eq_except {v} st st' \<Longrightarrow> run_t M qs st = Some r \<Longrightarrow> run_t M qs st' = Some r"
proof (induction v qs arbitrary: st st' rule: dead_after.induct)
  case (2 v qs)
  then show ?case by (simp add: tab_ok_Cons)
next
  case (3 v x qs)
  have x: "entry_ok C x" "quadr_ok x" "\<not> used_in_quadr x v" using 3(2,3) by (auto simp: tab_ok_Cons entry_ok_def split: if_splits)
  have D: "\<not> dead_after v qs" if "\<forall>y \<in> set qs. y = None" for v qs using that by (induction qs) auto
  have ne: "\<not> is_block_end (q_op x)"
  proof
    assume "is_block_end (q_op x)"
    then have "\<not> dead_after v qs" "\<not> assigned_in_quadr x v"
      using 3(3) D x(2) by (auto simp: tab_ok_Cons quadr_ok_def assigned_in_quadr_def) (cases "q_op x"; auto)+
    then show False using 3(2) by (simp split: if_splits)
  qed
  obtain st1 where st1: "exec_op M x st = Some st1" "run_t M qs st1 = Some r" using 3(5) ne by (auto simp: run_t_op)
  have "\<exists>st1'. exec_op M x st' = Some st1' \<and> eq_except ({v} - {w. assigned_in_quadr x w}) st1 st1'"
  proof (rule exec_op_subst[OF _ _ _ _ _ _ x(2) 3(4) st1(1)])
    show "arg_val st' (q_arg1 x) = arg_val st (q_arg1 x)" "arg_val st' (q_arg2 x) = arg_val st (q_arg2 x)"
      "q_op x = Q_WRITE_PTR \<Longrightarrow> arg_val st' (q_result x) = arg_val st (q_result x)"
      using x(3) by (auto simp: used_in_quadr_def intro!: arg_val_eq_except[OF 3(4)])
  qed simp_all
  then obtain st1' where st1': "exec_op M x st' = Some st1'" "eq_except ({v} - {w. assigned_in_quadr x w}) st1 st1'" by blast
  have "run_t M qs st1' = Some r"
  proof (cases "assigned_in_quadr x v")
    case True
    then have "st1' = st1" using st1'(2) by simp
    then show ?thesis using st1(2) by simp
  next
    case False
    then have d: "dead_after v qs" using 3(2) x(3) by simp
    have "eq_except {v} st1 st1'" by (rule eq_except_mono[OF st1'(2)]) auto
    then show ?thesis using 3(1)[OF x(3) False d tab_ok_rest[OF 3(3)] _ st1(2)] by blast
  qed
  then show ?case using st1'(1) ne by (simp add: run_t_op)
qed simp

text \<open>The result of a call is assigned nowhere else in the block.\<close>

definition assigned_count :: "qtab \<Rightarrow> var_id \<Rightarrow> nat" where
  "assigned_count qs v = length (filter (\<lambda>y. case y of Some x \<Rightarrow> assigned_in_quadr x v | None \<Rightarrow> False) qs)"

definition calls_ok :: "qtab \<Rightarrow> bool" where
  "calls_ok qs \<longleftrightarrow> (\<forall>x v. Some x \<in> set qs \<longrightarrow> q_op x = Q_CALL \<longrightarrow> q_result x = QA_VAR v \<longrightarrow> assigned_count qs v \<le> 1)"

lemma assigned_count_simps [simp]:
  "assigned_count [] v = 0" "assigned_count (None # qs) v = assigned_count qs v"
  "assigned_count (Some x # qs) v = (if assigned_in_quadr x v then Suc (assigned_count qs v) else assigned_count qs v)"
  by (simp_all add: assigned_count_def)

lemma dead_after_count: "dead_after v qs \<Longrightarrow> 1 \<le> assigned_count qs v"
  by (induction v qs rule: dead_after.induct) (auto split: if_splits)

lemma dead_pass_sub:
  "set (fst (dead_pass qs)) \<subseteq> insert None (set qs) \<and> length (fst (dead_pass qs)) = length qs \<and>
    assigned_count (fst (dead_pass qs)) v \<le> assigned_count qs v"
  by (induction qs rule: dead_pass.induct) (auto simp: Let_def split: prod.splits)

lemma shape_None: "\<forall>y \<in> set qs. y = None \<Longrightarrow> shape qs"
  by (induction qs) auto

lemma dead_pass_shape: "shape qs \<Longrightarrow> shape (fst (dead_pass qs))"
proof (induction qs rule: dead_pass.induct)
  case (3 x qs)
  have "\<forall>y \<in> set (fst (dead_pass qs)). y = None" if "\<forall>y \<in> set qs. y = None"
    using that dead_pass_sub[of qs] by auto
  moreover have "shape (fst (dead_pass qs))" if "\<forall>y \<in> set qs. y = None"
    using calculation[OF that] by (rule shape_None)
  ultimately show ?case using 3 by (auto simp: Let_def split: prod.splits if_splits)
qed (auto simp: Let_def split: prod.splits)

lemma dead_pass_ok: "tab_ok C qs \<Longrightarrow> calls_ok qs \<Longrightarrow> tab_ok C (fst (dead_pass qs)) \<and> calls_ok (fst (dead_pass qs))"
proof -
  assume ok: "tab_ok C qs" "calls_ok qs"
  have s: "Some x \<in> set (fst (dead_pass qs)) \<Longrightarrow> Some x \<in> set qs" for x using dead_pass_sub[of qs] by auto
  have "assigned_count (fst (dead_pass qs)) v \<le> 1"
    if "Some x \<in> set (fst (dead_pass qs))" "q_op x = Q_CALL" "q_result x = QA_VAR v" for x v
  proof -
    have "assigned_count qs v \<le> 1" using ok(2) s[OF that(1)] that(2,3) by (auto simp: calls_ok_def)
    then show ?thesis using dead_pass_sub[of qs v] by simp
  qed
  then show ?thesis using ok(1) s dead_pass_shape[of qs] by (auto simp: tab_ok_def calls_ok_def)
qed

lemma dead_exec:
  assumes "exec_op M x st = Some st1" and "assigned_in_quadr x v" and "quadr_ok x" and "q_op x \<noteq> Q_CALL"
  shows "eq_except {v} st1 st"
proof -
  obtain c sm where "s_var sm = s_var st" "s_arr sm = s_arr st" "sm = st" "st1 = sm\<lparr>s_var := (s_var st)(v := c)\<rparr>"
    using exec_op_retarget[OF assms(1-3)] assms(4) by blast
  then show ?thesis by (auto simp: eq_except_def)
qed

lemma dead_pass_run:
  "tab_ok C qs \<Longrightarrow> (\<And>x v. Some x \<in> set qs \<Longrightarrow> q_op x = Q_CALL \<Longrightarrow> q_result x = QA_VAR v \<Longrightarrow> assigned_count qs v \<le> 1) \<Longrightarrow>
    run_t M qs st = Some r \<Longrightarrow> run_t M (fst (dead_pass qs)) st = Some r"
proof (induction qs arbitrary: st)
  case (Cons y qs)
  have c: "\<And>x v. Some x \<in> set qs \<Longrightarrow> q_op x = Q_CALL \<Longrightarrow> q_result x = QA_VAR v \<Longrightarrow> assigned_count qs v \<le> 1"
  proof -
    fix x v assume x: "Some x \<in> set qs" "q_op x = Q_CALL" "q_result x = QA_VAR v"
    have "assigned_count (y # qs) v \<le> 1" by (rule Cons.prems(2)[OF _ x(2,3)]) (simp add: x(1))
    moreover have "assigned_count qs v \<le> assigned_count (y # qs) v" by (cases y) simp_all
    ultimately show "assigned_count qs v \<le> 1" by simp
  qed
  have IH: "run_t M qs st = Some r \<Longrightarrow> run_t M (fst (dead_pass qs)) st = Some r" for st
    by (rule Cons.IH[OF tab_ok_rest[OF Cons.prems(1)] c])
  show ?case
  proof (cases y)
    case None
    then show ?thesis using IH Cons.prems(3) by (simp add: Let_def case_prod_beta)
  next
    case (Some x)
    have ok: "quadr_ok x" using Cons.prems(1) Some by (simp add: tab_ok_Cons entry_ok_def)
    show ?thesis
    proof (cases "is_block_end (q_op x)")
      case True
      then have N: "\<forall>y \<in> set qs. y = None" using Cons.prems(1) Some by (simp add: tab_ok_Cons)
      have N': "\<forall>y \<in> set (fst (dead_pass qs)). y = None" using N dead_pass_sub[of qs] by auto
      have "\<not> dead_after v qs" for v using N by (induction qs) auto
      then have "\<not> dead_assignment x qs" by (auto simp: dead_assignment_def split: quadr_arg_t.splits)
      moreover have "run_t M (Some x # fst (dead_pass qs)) st = run_t M (Some x # qs) st"
        by (rule run_t_cong) (simp_all add: run_t_Nones[OF N] run_t_Nones[OF N'])
      ultimately show ?thesis using Cons.prems(3) Some by (simp add: Let_def case_prod_beta)
    next
      case False
      obtain st1 where st1: "exec_op M x st = Some st1" "run_t M qs st1 = Some r"
        using Cons.prems(3) Some False by (auto simp: run_t_op)
      show ?thesis
      proof (cases "dead_assignment x qs")
        case True
        then obtain v where v: "q_result x = QA_VAR v" "assigned_in_quadr x v" "dead_after v qs"
          by (auto simp: dead_assignment_def split: quadr_arg_t.splits)
        have "q_op x \<noteq> Q_CALL"
        proof
          assume "q_op x = Q_CALL"
          then have "assigned_count (y # qs) v \<le> 1" using Cons.prems(2)[of x v] v(1) Some by simp
          then show False using v(2) dead_after_count[OF v(3)] Some by simp
        qed
        then have "eq_except {v} st1 st" using dead_exec[OF st1(1) v(2) ok] by blast
        then have "run_t M qs st = Some r"
          using dead_after_run[OF v(3) tab_ok_rest[OF Cons.prems(1)] _ st1(2)] by blast
        then show ?thesis using IH Some True by (simp add: Let_def case_prod_beta)
      next
        case nd: False
        have "run_t M (fst (dead_pass qs)) st1 = Some r" using IH st1(2) by blast
        then show ?thesis using nd Some False st1(1) by (simp add: Let_def case_prod_beta run_t_op)
      qed
    qed
  qed
qed simp

lemma remove_dead_correct:
  fixes T :: "'w itself"
  shows "tab_ok C qs \<Longrightarrow> calls_ok qs \<Longrightarrow>
    tab_ok C (remove_dead_assignments qs) \<and> length (remove_dead_assignments qs) = length qs \<and>
    refines qs (remove_dead_assignments qs) T"
proof (induction qs rule: remove_dead_assignments.induct)
  case (1 qs)
  let ?q = "fst (dead_pass qs)"
  have q: "tab_ok C ?q" "calls_ok ?q" "length ?q = length qs"
    using dead_pass_ok[OF 1(2,3)] dead_pass_sub[of qs] by auto
  have r: "refines qs ?q T"
    using dead_pass_run[OF 1(2)] 1(3) unfolding refines_def calls_ok_def by blast
  show ?case
  proof (cases "snd (dead_pass qs)")
    case True
    then have "remove_dead_assignments qs = remove_dead_assignments ?q"
      by (subst remove_dead_assignments.simps) (simp add: Let_def case_prod_beta)
    then show ?thesis
      using 1(1)[OF refl prod.collapse True q(1,2)] q(3) refines_trans[OF r] by auto
  next
    case False
    then have "remove_dead_assignments qs = ?q"
      by (subst remove_dead_assignments.simps) (simp add: Let_def case_prod_beta)
    then show ?thesis using q r by simp
  qed
qed

subsection \<open>The whole pass\<close>

lemma map_redundant_ok:
  fixes T :: "'w itself"
  shows "tab_ok C qs \<Longrightarrow> tab_ok C (remove_redundant_copies qs) \<and> length (remove_redundant_copies qs) = length qs \<and>
    refines qs (remove_redundant_copies qs) T"
proof (induction qs)
  case (Cons y qs)
  let ?q = "remove_redundant_copies qs"
  have IH: "tab_ok C ?q" "length ?q = length qs" "refines qs ?q T" using Cons.IH tab_ok_rest[OF Cons.prems] by auto
  have N: "(\<forall>y \<in> set ?q. y = None)" if "\<forall>y \<in> set qs. y = None" using that by (auto simp: remove_redundant_copies_def)
  have "run_t M (y # ?q) st = Some r" if run: "run_t M (y # qs) st = Some r" for M :: "'w machine" and st r
  proof (cases y)
    case None
    then show ?thesis using run IH(3) unfolding refines_def None run_t_simps by blast
  next
    case (Some x)
    show ?thesis
    proof (cases "is_block_end (q_op x)")
      case True
      then have n: "\<forall>y \<in> set qs. y = None" using Cons.prems Some by (simp add: tab_ok_Cons)
      have "run_t M (y # ?q) st = run_t M (y # qs) st"
        by (rule run_t_cong) (simp_all add: run_t_Nones[OF n] run_t_Nones[OF N[OF n]])
      then show ?thesis using run by simp
    next
      case False
      then obtain st1 where st1: "exec_op M x st = Some st1" "run_t M qs st1 = Some r"
        using run Some by (auto simp: run_t_op)
      moreover have "run_t M ?q st1 = Some r" using st1(2) IH(3) unfolding refines_def by blast
      ultimately show ?thesis using Some False by (simp add: run_t_op)
    qed
  qed
  then have "refines (y # qs) (remove_redundant_copies (y # qs)) T"
    by (simp add: refines_def remove_redundant_copies_def run_redundant del: remove_redundant_copy.simps)
  moreover have "tab_ok C (y # ?q)" using Cons.prems IH(1) N by (cases y) (auto simp: tab_ok_Cons split: if_splits)
  then have "tab_ok C (remove_redundant_copies (y # qs))"
    using tab_ok_redundant by (simp add: remove_redundant_copies_def del: remove_redundant_copy.simps)
  ultimately show ?case using IH(2) by (simp add: remove_redundant_copies_def)
qed (simp add: remove_redundant_copies_def)

lemma calls_ok_redundant: "calls_ok qs \<Longrightarrow> calls_ok (remove_redundant_copies qs)"
proof -
  assume c: "calls_ok qs"
  have s: "Some x \<in> set (remove_redundant_copies qs) \<Longrightarrow> Some x \<in> set qs" for x
    by (auto simp: remove_redundant_copies_def) (metis option.distinct(1) remove_redundant_copy.elims)
  have n: "assigned_count (remove_redundant_copies qs) v \<le> assigned_count qs v" for v
  proof (induction qs)
    case (Cons y qs)
    then show ?case by (cases y) (auto simp: remove_redundant_copies_def)
  qed (simp add: remove_redundant_copies_def)
  show ?thesis unfolding calls_ok_def
  proof (intro allI impI)
    fix x v assume "Some x \<in> set (remove_redundant_copies qs)" "q_op x = Q_CALL" "q_result x = QA_VAR v"
    then have "assigned_count qs v \<le> 1" using c s by (auto simp: calls_ok_def)
    then show "assigned_count (remove_redundant_copies qs) v \<le> 1" using n[of v] by simp
  qed
qed

lemma optimize_qtab_correct:
  fixes T :: "'w itself"
  assumes "tab_ok C qs" and "calls_ok qs"
  shows "\<exists>qs'. optimize_qtab qs = Some qs' \<and> length qs' = length qs \<and> refines qs qs' T"
proof -
  let ?q1 = "remove_redundant_copies qs" and ?q2 = "remove_dead_assignments (remove_redundant_copies qs)"
  have q1: "tab_ok C ?q1" "length ?q1 = length qs" "refines qs ?q1 T" using map_redundant_ok[OF assms(1)] by auto
  have q2: "tab_ok C ?q2" "length ?q2 = length qs" "refines ?q1 ?q2 T"
    using remove_dead_correct[OF q1(1) calls_ok_redundant[OF assms(2)]] q1(2) by auto
  obtain q3 where q3: "copy_backpropagation ?q2 = Some q3" "tab_ok C q3" "length q3 = length qs" "refines ?q2 q3 T"
    using backprop_loop_correct[OF q2(1) le_refl, where T = T] q2(2) by (auto simp: copy_backpropagation_def)
  obtain q4 where q4: "copy_propagation q3 = Some q4" "length q4 = length q3" "\<forall>(M :: 'w machine) st. run_t M q4 st = run_t M q3 st"
    using copy_propagation_correct[OF q3(2)] by blast
  have "refines q3 q4 T" using q4(3) by (simp add: refines_def)
  then have "refines qs q4 T" using refines_trans[OF refines_trans[OF refines_trans[OF q1(3) q2(3)] q3(4)]] by blast
  then show ?thesis using q3(1,3) q4(1,2) by (simp add: optimize_qtab_def)
qed

lemma qtab_list_length: "length (qtab_list qs) \<le> length qs"
  by (simp add: qtab_list_def)

lemma qtab_list_map_Some [simp]: "qtab_list (map Some xs) = xs"
  by (induction xs) simp_all

end
