(* ===== verification/Opt_Props.thy ===== *)
theory Opt_Props
  imports Opt_Correct
begin

text \<open>The properties of the local optimizer.\<close>

subsection \<open>Blocks\<close>

text \<open>The blocks for which the passes over copies are correct.\<close>

definition block_vars :: "quadr_t list \<Rightarrow> var_id set" where
  "block_vars xs = {v. \<exists>x \<in> set xs. \<exists>w u. copy_vars x = Some (w, u) \<and> (v = w \<or> v = u)}"

definition block_ok :: "quadr_t list \<Rightarrow> bool" where
  "block_ok xs \<longleftrightarrow> (\<forall>x \<in> set xs. quadr_ok x) \<and> (\<forall>x \<in> set (butlast xs). \<not> is_block_end (q_op x)) \<and>
     (\<forall>x \<in> set xs. q_op x = Q_GET_ADDR \<longrightarrow> (\<forall>v \<in> block_vars xs. q_arg1 x \<noteq> QA_VAR v)) \<and>
     (\<forall>x \<in> set xs. q_op x = Q_CALL \<longrightarrow>
        (\<forall>v. q_result x = QA_VAR v \<longrightarrow> length (filter (\<lambda>y. assigned_in_quadr y v) xs) \<le> 1))"

lemma shape_map_Some: "\<forall>x \<in> set (butlast xs). \<not> is_block_end (q_op x) \<Longrightarrow> shape (map Some xs)"
  by (induction xs) (auto split: if_splits)

lemma block_ok_tab:
  assumes "block_ok xs"
  shows "tab_ok (block_vars xs) (map Some xs)" and "calls_ok (map Some xs)"
proof -
  have "entry_ok (block_vars xs) x" if "x \<in> set xs" for x
    using assms that by (auto simp: block_ok_def entry_ok_def block_vars_def)
  then show "tab_ok (block_vars xs) (map Some xs)"
    using assms shape_map_Some by (auto simp: tab_ok_def block_ok_def)
  have "assigned_count (map Some xs) v = length (filter (\<lambda>y. assigned_in_quadr y v) xs)" for v
    by (induction xs) simp_all
  then show "calls_ok (map Some xs)" using assms by (auto simp: calls_ok_def block_ok_def)
qed

text \<open>
  C17: The passes over the copies of a block.  On a block of well-formed quadruples, of which only
  the last one leaves the block, that does not copy an array whose address it takes, and in which
  the result of a call is assigned only there, \<open>optimize_local_2\<close> returns, no assertion fails,
  the block does not grow, nothing but its quadruples changes, and what the old quadruples do
  in any state, with the same way out of the block, the new ones do as well.
\<close>

theorem optimize_local_2_correct:
  assumes "blocks q b = Some B" and "block_ok (lst B)"
  shows "\<exists>xs. optimize_local_2 b q = Some (q\<lparr>blocks := (blocks q)(b \<mapsto> B\<lparr>lst := xs\<rparr>)\<rparr>) \<and> length xs \<le> length (lst B) \<and>
    (\<forall>(M :: 'w machine) st r. run_qs M (lst B) st = Some r \<longrightarrow> run_qs M xs st = Some r)"
proof -
  obtain qs where qs: "optimize_qtab (map Some (lst B)) = Some qs" "length qs = length (lst B)"
    "refines (map Some (lst B)) qs TYPE('w)"
    using optimize_qtab_correct[OF block_ok_tab[OF assms(2)], where T = "TYPE('w)"] by auto
  have "optimize_local_2 b q = Some (q\<lparr>blocks := (blocks q)(b \<mapsto> B\<lparr>lst := qtab_list qs\<rparr>)\<rparr>)"
    using assms(1) qs(1) by (simp add: optimize_local_2_def set_block_def)
  moreover have "length (qtab_list qs) \<le> length (lst B)" using qtab_list_length[of qs] qs(2) by simp
  moreover have "run_qs M (qtab_list qs) st = Some r" if "run_qs M (lst B) st = Some r" for M :: "'w machine" and st r
  proof -
    have "run_t M (map Some (lst B)) st = Some r" using that by (simp add: run_t_def)
    then have "run_t M qs st = Some r" using qs(3) unfolding refines_def by blast
    then show ?thesis by (simp add: run_t_def)
  qed
  ultimately show ?thesis by blast
qed

subsection \<open>An example\<close>

definition exo_M :: "unit machine" where
  "exo_M = \<lparr>m_dadd = \<lambda>a b. a, m_dsub = \<lambda>a b. a, m_dmul = \<lambda>a b. a, m_ddiv = \<lambda>a b. a,
     m_deq = \<lambda>a b. None, m_dlt = \<lambda>a b. None, m_call = \<lambda>f vs w. None\<rparr>"

definition exo_var :: var_t where
  "exo_var = \<lparr>v_type = type_int, v_loc = None, v_size = -1, v_live = False, v_qtype = VT_INT\<rparr>"

definition exo_q :: "quadr_t list \<Rightarrow> quadr_st" where
  \<comment> \<open>a function with one block and three variables of type int\<close>
  "exo_q xs = quadr_init\<lparr>quadr_func := [\<lparr>qf_type = func_type 0 type_int 0 [], qf_blocks = Some 0,
       vars_lst = [\<lparr>node_vars = [0, 1, 2], vars_size = 64\<rparr>], qf_name = ''f'', qf_tag = QF_USER_DEFINED\<rparr>],
     blocks := [0 \<mapsto> empty_block\<lparr>lst := xs\<rparr>], next_block_id := 1, vars := [exo_var, exo_var, exo_var]\<rparr>"

text \<open>The code of \<open>x0 = x1; x0 = 5\<close>, as the code generator makes it.\<close>

definition exo_code :: "quadr_t list" where
  "exo_code = [new_copy_quadr 0 (QA_VAR 1), new_copy_quadr 2 (QA_INT 5), new_copy_quadr 0 (QA_VAR 2)]"

definition exo_st :: "unit store" where
  "exo_st = \<lparr>s_var = (\<lambda>v. VInt 7), s_arr = (\<lambda>a k. None), s_par = [], s_world = ()\<rparr>"

lemmas exo_defs = exo_M_def exo_var_def exo_q_def exo_code_def exo_st_def quadr_init_def empty_block_def new_copy_quadr_def
  new_quadr_def var_arg_def

lemma exo_block: "blocks (exo_q exo_code) 0 = Some (empty_block\<lparr>lst := exo_code\<rparr>)"
  by (simp add: exo_q_def)

lemma exo_ok: "block_ok exo_code"
  by (simp add: block_ok_def exo_defs quadr_ok_def)

lemma exo_run: "run_qs exo_M exo_code exo_st = Some (exo_st\<lparr>s_var := (\<lambda>v. VInt 7)(0 := VInt 7, 2 := VInt 5, 0 := VInt 5)\<rparr>, Fall)"
  by (simp add: exo_defs exec_op_def arith_ops_def arg_val_def set_result_def)

lemma optimize_local_2_correct_witness:
  "\<exists>xs st'. optimize_local_2 0 (exo_q exo_code) =
       Some ((exo_q exo_code)\<lparr>blocks := [0 \<mapsto> empty_block\<lparr>lst := xs\<rparr>]\<rparr>) \<and> length xs \<le> 3 \<and>
     run_qs exo_M xs exo_st = Some (st', Fall) \<and> s_var st' 0 = VInt 5"
proof -
  have "block_ok (lst (empty_block\<lparr>lst := exo_code\<rparr>))" using exo_ok by simp
  from optimize_local_2_correct[OF exo_block this, where 'w = unit] obtain xs where xs:
    "optimize_local_2 0 (exo_q exo_code) = Some ((exo_q exo_code)\<lparr>blocks := (blocks (exo_q exo_code))(0 \<mapsto> empty_block\<lparr>lst := xs\<rparr>)\<rparr>)"
    "length xs \<le> length exo_code" "\<forall>(M :: unit machine) st r. run_qs M exo_code st = Some r \<longrightarrow> run_qs M xs st = Some r"
    by auto
  have "run_qs exo_M xs exo_st = Some (exo_st\<lparr>s_var := (\<lambda>v. VInt 7)(0 := VInt 7, 2 := VInt 5, 0 := VInt 5)\<rparr>, Fall)" using xs(3) exo_run by blast
  moreover have "length xs \<le> 3" using xs(2) by (simp add: exo_code_def)
  moreover have "optimize_local_2 0 (exo_q exo_code) = Some ((exo_q exo_code)\<lparr>blocks := [0 \<mapsto> empty_block\<lparr>lst := xs\<rparr>]\<rparr>)"
    using xs(1) by (simp add: exo_q_def)
  ultimately show ?thesis
    by (intro exI[of _ xs] exI[of _ "exo_st\<lparr>s_var := (\<lambda>v. VInt 7)(0 := VInt 7, 2 := VInt 5, 0 := VInt 5)\<rparr>"]) simp
qed

subsection \<open>\<open>optimize_local\<close>\<close>

text \<open>
  C18: Constant folding agrees with the machine: where the operation on two \<open>int\<close>s is defined,
  \<open>DO_CONSTANT_OP\<close> gives its result and reports nothing, and it reports an error exactly for a
  division by zero.
\<close>

theorem constant_folding_correct:
  "(constant_op_int op a b = Some (v, False) \<longleftrightarrow> arith M op (VInt a) (VInt b) = Some (VInt v)) \<and>
   ((\<exists>v. constant_op_int op a b = Some (v, True)) \<longleftrightarrow> op \<in> {Q_DIV, Q_MOD} \<and> b = 0)"
  by (cases op) (auto simp: constant_op_int_def int_div_def int_mod_def)

definition exo_opt :: "quadr_t list" where
  "exo_opt = [new_copy_quadr 3 (QA_VAR 1), new_copy_quadr 4 (QA_INT 5), new_copy_quadr 0 (QA_VAR 4),
     new_copy_quadr 2 (QA_VAR 4), new_copy_quadr 0 (QA_VAR 3)]"

lemmas opt_defs = optimize_local_def reset_graph_def gencode_from_graph_def local_copy_def get_node_def
  new_graph_leaf_def add_var_def remove_var_def set_gnode_def set_var_node_def var_node_def clear_locs_def func_vars_def
  gn_arg_def gencode_for_leaf_def update_node_vars_def declare_opt_var_def declare_var_def arg_type_def set_func_def set_block_def
  opt_init_def rb_new_def rb_clear_def push_var_def

lemma exo_opt: "(case optimize_local id exo_M 0 ((opt_init (exo_q exo_code))\<lparr>opt_cur_func := Some 0\<rparr>) of
      None \<Rightarrow> None | Some st \<Rightarrow> blocks (oq st) 0) =
    Some (empty_block\<lparr>lst := exo_opt\<rparr>)"
  by (simp add: opt_defs exo_defs exo_opt_def del: bind_eq_Some)
text \<open>
  An example: \<open>optimize_local\<close> does not keep the meaning of a block.  After the code of
  \<open>x0 = x1; x0 = 5\<close>, run with 7 in \<open>x1\<close>, the variable \<open>x0\<close> is 5, and 7 if the code has been
  optimized: \<open>remove_var\<close> leaves \<open>x0\<close> in the list of the leaf for \<open>x1\<close>, whose copies are
  emitted last.
\<close>

lemma optimize_local_stale_leaf:
  "\<exists>st B st1 st2.
     optimize_local id exo_M 0 ((opt_init (exo_q exo_code))\<lparr>opt_cur_func := Some 0\<rparr>) = Some st \<and>
     blocks (oq st) 0 = Some B \<and>
     run_qs exo_M exo_code exo_st = Some (st1, Fall) \<and> s_var st1 0 = VInt 5 \<and>
     run_qs exo_M (lst B) exo_st = Some (st2, Fall) \<and> s_var st2 0 = VInt 7"
proof -
  obtain st where st: "optimize_local id exo_M 0 ((opt_init (exo_q exo_code))\<lparr>opt_cur_func := Some 0\<rparr>) = Some st"
    "blocks (oq st) 0 = Some (empty_block\<lparr>lst := exo_opt\<rparr>)"
    using exo_opt by (auto split: option.splits)
  have "run_qs exo_M exo_opt exo_st = Some (exo_st\<lparr>s_var := (\<lambda>v. VInt 7)(3 := VInt 7, 4 := VInt 5, 0 := VInt 5,
      2 := VInt 5, 0 := VInt 7)\<rparr>, Fall)"
    by (simp add: exo_opt_def exo_defs exec_op_def arith_ops_def arg_val_def set_result_def)
  then show ?thesis using st exo_run by auto
qed

end
