(* ===== verification/Outbuf.thy ===== *)
theory Outbuf
  imports Prelude
begin

text \<open>
  The output buffer \<open>src/src/outbuf.c\<close>: a list of lines and the line that is being written.

  A \<open>line_t\<close> is a number with the text of the line; the doubly linked list is the list of its
  lines in order, so that \<open>prev\<close> and \<open>next\<close> are the neighbours.  \<open>vsnprintf\<close> and
  \<open>snprintf\<close> are the strings that they make: \<open>write\<close> and \<open>writeln\<close> take the formatted text,
  \<open>fix_stack\<close> the function \<open>sp\<close> from the offset to its text in the format \<open>sp_format\<close>.
\<close>

subsection \<open>The buffer\<close>

type_synonym line_id = nat

record outbuf_t =
  lines :: "(line_id \<times> string) list"
  tmpbuf :: string
  next_line :: line_id

definition TMPBUF_SIZE :: nat where "TMPBUF_SIZE = 512"
definition MAX_LINE_LEN :: nat where "MAX_LINE_LEN = 512"

definition new_outbuf :: outbuf_t where
  "new_outbuf = \<lparr>lines = [], tmpbuf = [], next_line = 0\<rparr>"

definition clearbuf :: "outbuf_t \<Rightarrow> outbuf_t" where
  "clearbuf buf = buf\<lparr>lines := [], tmpbuf := []\<rparr>"

fun next_in :: "line_id \<Rightarrow> (line_id \<times> string) list \<Rightarrow> line_id option" where
  \<comment> \<open>\<open>line->next\<close>\<close>
  "next_in l [] = None"
| "next_in l ((k, s) # ls) = (if k = l then (case ls of [] \<Rightarrow> None | (m, t) # _ \<Rightarrow> Some m) else next_in l ls)"

fun prev_in :: "line_id option \<Rightarrow> line_id \<Rightarrow> (line_id \<times> string) list \<Rightarrow> line_id option" where
  \<comment> \<open>\<open>line->prev\<close>; the first argument is the line before the list\<close>
  "prev_in p l [] = None"
| "prev_in p l ((k, s) # ls) = (if k = l then p else prev_in (Some k) l ls)"

definition head_line :: "outbuf_t \<Rightarrow> line_id option" where
  "head_line buf = (case lines buf of [] \<Rightarrow> None | (k, s) # _ \<Rightarrow> Some k)"

subsection \<open>Lines\<close>

definition do_appendln :: "string \<Rightarrow> outbuf_t \<Rightarrow> outbuf_t" where
  "do_appendln str buf = buf\<lparr>lines := lines buf @ [(next_line buf, str)], next_line := next_line buf + 1\<rparr>"

fun insert_after :: "line_id \<Rightarrow> line_id \<times> string \<Rightarrow> (line_id \<times> string) list \<Rightarrow> (line_id \<times> string) list option" where
  \<comment> \<open>a line that is not in the list has been freed\<close>
  "insert_after l x [] = None"
| "insert_after l x ((k, s) # ls) =
     (if k = l then Some ((k, s) # x # ls) else map_option (\<lambda>ls. (k, s) # ls) (insert_after l x ls))"

definition do_insertln :: "line_id option \<Rightarrow> string \<Rightarrow> outbuf_t \<Rightarrow> outbuf_t option" where
  "do_insertln line str buf = do {
     let x = (next_line buf, str);
     ls \<leftarrow> (case line of None \<Rightarrow> Some (x # lines buf) | Some l \<Rightarrow> insert_after l x (lines buf));
     Some (buf\<lparr>lines := ls, next_line := next_line buf + 1\<rparr>)
   }"

text \<open>
  \<open>FOR_ALL_LINES\<close>: the text up to the end of a line goes to \<open>line_buf\<close>, where it must fit;
  \<open>line\<close> moves on by one line, from \<open>NULL\<close> to the head of the buffer.
\<close>

definition next_line_ptr :: "line_id option \<Rightarrow> outbuf_t \<Rightarrow> line_id option" where
  "next_line_ptr line buf = (case line of Some l \<Rightarrow> next_in l (lines buf) | None \<Rightarrow> head_line buf)"

definition first_line :: "string \<Rightarrow> string" where
  "first_line str = takeWhile (\<lambda>c. c \<noteq> CHR 10) str"

definition rest_lines :: "string \<Rightarrow> string" where
  \<comment> \<open>after the newline, when there is one\<close>
  "rest_lines str = drop 1 (dropWhile (\<lambda>c. c \<noteq> CHR 10) str)"

lemma rest_lines_shorter: "str \<noteq> [] \<Longrightarrow> length (rest_lines str) < length str"
proof -
  assume "str \<noteq> []"
  moreover have "length (dropWhile (\<lambda>c. c \<noteq> CHR 10) str) \<le> length str" by (rule length_dropWhile_le)
  ultimately show ?thesis
    unfolding rest_lines_def length_drop length_greater_0_conv[symmetric] by linarith
qed

function for_all_lines ::
  "(line_id option \<Rightarrow> string \<Rightarrow> outbuf_t \<Rightarrow> outbuf_t option) \<Rightarrow> line_id option \<Rightarrow> string \<Rightarrow> outbuf_t \<Rightarrow> outbuf_t option"
where
  "for_all_lines func line str buf =
     (if str = [] then Some buf
      else do {
        check (length (first_line str) \<le> MAX_LINE_LEN);
        buf \<leftarrow> func line (first_line str) buf;
        for_all_lines func (next_line_ptr line buf) (rest_lines str) buf
      })"
  by pat_completeness auto
termination
  by (relation "measure (\<lambda>(f, l, str, b). length str)") (simp_all add: rest_lines_shorter)

declare for_all_lines.simps [simp del]

definition appendln :: "string \<Rightarrow> outbuf_t \<Rightarrow> outbuf_t option" where
  "appendln str buf = for_all_lines (\<lambda>dummy s buf. Some (do_appendln s buf)) None str buf"

definition insertln :: "line_id option \<Rightarrow> string \<Rightarrow> outbuf_t \<Rightarrow> outbuf_t option" where
  "insertln line str buf = for_all_lines do_insertln line str buf"

definition removeln :: "line_id \<Rightarrow> outbuf_t \<Rightarrow> outbuf_t option" where
  "removeln line buf = do {
     check (line \<in> fst ` set (lines buf));
     Some (buf\<lparr>lines := filter (\<lambda>x. fst x \<noteq> line) (lines buf)\<rparr>)
   }"

definition changeln :: "line_id \<Rightarrow> string \<Rightarrow> outbuf_t \<Rightarrow> outbuf_t option" where
  "changeln line str buf = do {
     let prev = prev_in None line (lines buf);
     buf \<leftarrow> removeln line buf;
     insertln prev str buf
   }"

definition writeout :: "outbuf_t \<Rightarrow> string" where
  \<comment> \<open>what is written to the file\<close>
  "writeout buf = concat (map (\<lambda>x. snd x @ [CHR 10]) (lines buf))"

subsection \<open>The current line\<close>

definition flushbuf :: "outbuf_t \<Rightarrow> outbuf_t option" where
  "flushbuf buf =
     (if tmpbuf buf \<noteq> [] then do { buf \<leftarrow> appendln (tmpbuf buf) buf; Some (buf\<lparr>tmpbuf := []\<rparr>) } else Some buf)"

definition outbuf_write :: "string \<Rightarrow> outbuf_t \<Rightarrow> outbuf_t option" where
  \<comment> \<open>\<open>write\<close>\<close>
  "outbuf_write s buf = do {
     check (length (tmpbuf buf) + length s < TMPBUF_SIZE);
     Some (buf\<lparr>tmpbuf := tmpbuf buf @ s\<rparr>)
   }"

definition outbuf_writeln :: "string \<Rightarrow> outbuf_t \<Rightarrow> outbuf_t option" where
  \<comment> \<open>\<open>writeln\<close>\<close>
  "outbuf_writeln s buf = do {
     check (length (tmpbuf buf) + length s < TMPBUF_SIZE);
     flushbuf (buf\<lparr>tmpbuf := tmpbuf buf @ s\<rparr>)
   }"

subsection \<open>\<open>fix_stack\<close>\<close>

fun starts_with :: "string \<Rightarrow> string \<Rightarrow> bool" where
  "starts_with [] s = True"
| "starts_with (p # ps) [] = False"
| "starts_with (p # ps) (c # s) \<longleftrightarrow> p = c \<and> starts_with ps s"

fun strstr :: "string \<Rightarrow> string \<Rightarrow> (string \<times> string) option" where
  \<comment> \<open>the text before the first occurrence and the text from it on\<close>
  "strstr p [] = (if p = [] then Some ([], []) else None)"
| "strstr p (c # s) =
     (if starts_with p (c # s) then Some ([], c # s)
      else map_option (\<lambda>(a, b). (c # a, b)) (strstr p s))"

definition is_digit :: "char \<Rightarrow> bool" where
  "is_digit c \<longleftrightarrow> of_char c \<in> {48..57 :: nat}"

text \<open>\<open>%d\<close> of an \<open>int\<close>.\<close>

fun show_nat :: "nat \<Rightarrow> string" where
  "show_nat n = (if n < 10 then [char_of (48 + n)] else show_nat (n div 10) @ [char_of (48 + n mod 10)])"

declare show_nat.simps [simp del]

definition show_int :: "int \<Rightarrow> string" where
  "show_int n = (if n < 0 then CHR ''-'' # show_nat (nat (- n)) else show_nat (nat n))"

definition digits_val :: "string \<Rightarrow> int" where
  "digits_val ds = foldl (\<lambda>n c. n * 10 + (int (of_char c) - 48)) 0 ds"

text \<open>
  \<open>sscanf(s, "%d@", &off0)\<close> with an \<open>int\<close>; where there is no number, or one that does not fit,
  \<open>off0\<close> is not defined.  The offsets have no blanks before them.
\<close>

definition scan_int :: "string \<Rightarrow> int option" where
  "scan_int s =
     (let (sgn, t) = (case s of CHR ''-'' # t \<Rightarrow> (-1, t) | CHR ''+'' # t \<Rightarrow> (1, t) | _ \<Rightarrow> (1, s));
          ds = takeWhile is_digit t;
          n = sgn * digits_val ds
      in if ds = [] \<or> n < - (2 ^ 31) \<or> 2 ^ 31 \<le> n then None else Some n)"

definition fix_line :: "int \<Rightarrow> (int \<Rightarrow> string) \<Rightarrow> string \<Rightarrow> string option option" where
  \<comment> \<open>the last branch of the loop: the new text, when there is one\<close>
  "fix_line stack_size sp str = do {
     check (length str < MAX_LINE_LEN);
     (case strstr ''@FP@'' str of
        None \<Rightarrow> Some None
      | Some (a, b) \<Rightarrow> do {
          let s2 = drop 4 b;
          off0 \<leftarrow> scan_int s2;
          check (CHR ''@'' \<in> set s2);
          let s2 = drop 1 (dropWhile (\<lambda>c. c \<noteq> CHR ''@'') s2);
          let t = a @ sp (stack_size - off0);
          check (length t + length s2 < MAX_LINE_LEN);
          Some (Some (t @ s2))
        })
   }"

fun fix_loop ::
  "nat \<Rightarrow> int \<Rightarrow> string \<Rightarrow> string \<Rightarrow> (int \<Rightarrow> string) \<Rightarrow> line_id option \<Rightarrow> outbuf_t \<Rightarrow> outbuf_t option"
where
  \<comment> \<open>the first argument bounds the number of lines\<close>
  "fix_loop k stack_size prologue epilogue sp None buf = Some buf"
| "fix_loop 0 stack_size prologue epilogue sp (Some line) buf = None"
| "fix_loop (Suc k) stack_size prologue epilogue sp (Some line) buf = do {
     str \<leftarrow> map_of (lines buf) line;
     let next = next_in line (lines buf);
     buf \<leftarrow>
       (if str = ''@P@'' then changeln line prologue buf
        else if str = ''@E@'' then changeln line epilogue buf
        else do {
          new \<leftarrow> fix_line stack_size sp str;
          (case new of Some t \<Rightarrow> changeln line t buf | None \<Rightarrow> Some buf)
        });
     fix_loop k stack_size prologue epilogue sp next buf
   }"

definition fix_stack :: "int \<Rightarrow> string \<Rightarrow> string \<Rightarrow> (int \<Rightarrow> string) \<Rightarrow> outbuf_t \<Rightarrow> outbuf_t option" where
  "fix_stack stack_size prologue epilogue sp buf =
     fix_loop (length (lines buf)) stack_size prologue epilogue sp (head_line buf) buf"

end
