(* ===== verification/Outbuf_Correct.thy ===== *)
theory Outbuf_Correct
  imports Outbuf
begin

text \<open>
  What the output buffer promises.  \<open>split_lines\<close> are the lines of a text; a buffer that is well
  formed, each line with a number of its own, gains exactly the lines of the text where it is
  appended, inserted or changed.
\<close>

subsection \<open>The lines of a text\<close>

function split_lines :: "string \<Rightarrow> string list" where
  "split_lines str = (if str = [] then [] else first_line str # split_lines (rest_lines str))"
  by pat_completeness auto
termination
  by (relation "measure length") (simp_all add: rest_lines_shorter)

declare split_lines.simps [simp del]

definition nl :: char where "nl = CHR 10"

definition unlines :: "string list \<Rightarrow> string" where
  \<comment> \<open>every line with a newline after it\<close>
  "unlines ls = concat (map (\<lambda>l. l @ [nl]) ls)"

definition end_line :: "string \<Rightarrow> string" where
  \<comment> \<open>the text, its last line ended\<close>
  "end_line s = (if s = [] \<or> last s = nl then s else s @ [nl])"

lemma unlines_simps [simp]:
  "unlines [] = []"
  "unlines (l # ls) = l @ nl # unlines ls"
  "unlines (xs @ ys) = unlines xs @ unlines ys"
  by (simp_all add: unlines_def)

lemma split_lines_Nil [simp]: "split_lines [] = []"
  by (simp add: split_lines.simps)

lemma first_line_no_nl: "nl \<notin> set (first_line s)"
  by (auto simp: first_line_def nl_def dest: set_takeWhileD)

lemma split_lines_no_nl: "l \<in> set (split_lines s) \<Longrightarrow> nl \<notin> set l"
proof (induction s rule: split_lines.induct)
  case (1 str)
  then show ?case
    by (cases "str = []")
       (auto simp: split_lines.simps [of str] first_line_no_nl)
qed

lemma first_rest: "nl \<in> set s \<Longrightarrow> s = first_line s @ nl # rest_lines s"
proof (cases "dropWhile (\<lambda>c. c \<noteq> CHR 10) s")
  case Nil
  assume "nl \<in> set s"
  with Nil show ?thesis unfolding dropWhile_eq_Nil_conv nl_def by blast
next
  case (Cons c t)
  then have "c = nl" unfolding dropWhile_eq_Cons_conv nl_def by simp
  then show ?thesis
    using takeWhile_dropWhile_id [of "\<lambda>c. c \<noteq> CHR 10" s] Cons
    unfolding first_line_def rest_lines_def by (simp only: drop_Suc_Cons drop_0 One_nat_def)
qed

lemma rest_lines_Nil:
  assumes "nl \<notin> set s"
  shows "first_line s = s" "rest_lines s = []"
proof -
  have all: "\<forall>c \<in> set s. c \<noteq> CHR 10" using assms unfolding nl_def by blast
  show "first_line s = s"
    unfolding first_line_def takeWhile_eq_all_conv using all by blast
  have "dropWhile (\<lambda>c. c \<noteq> CHR 10) s = []"
    unfolding dropWhile_eq_Nil_conv using all by blast
  then show "rest_lines s = []" unfolding rest_lines_def by (simp only: drop_Nil)
qed

lemma unlines_split_lines: "unlines (split_lines s) = end_line s"
proof (induction s rule: split_lines.induct)
  case (1 str)
  show ?case
  proof (cases "str = []")
    case True
    then show ?thesis by (simp add: end_line_def)
  next
    case False
    show ?thesis
    proof (cases "nl \<in> set str")
      case True
      then have eq: "str = first_line str @ nl # rest_lines str"
        by (rule first_rest)
      have "unlines (split_lines str) = first_line str @ nl # unlines (split_lines (rest_lines str))"
        by (subst split_lines.simps) (simp add: False)
      also have "\<dots> = first_line str @ nl # end_line (rest_lines str)"
        by (simp only: 1 [OF False])
      also have "\<dots> = end_line (first_line str @ nl # rest_lines str)"
        by (simp add: end_line_def)
      finally show ?thesis unfolding eq [symmetric] .
    next
      case nn: False
      have "last str \<noteq> nl" using last_in_set [OF False] nn by metis
      moreover have "split_lines str = [str]"
        using False by (simp add: split_lines.simps [of str] rest_lines_Nil [OF nn])
      ultimately show ?thesis using False by (simp add: end_line_def)
    qed
  qed
qed

lemma split_lines_length: "l \<in> set (split_lines s) \<Longrightarrow> length l \<le> length s"
proof (induction s rule: split_lines.induct)
  case (1 str)
  show ?case
  proof (cases "str = []")
    case False
    have "length (first_line str) \<le> length str" by (simp add: first_line_def length_takeWhile_le)
    then show ?thesis
      using 1 False rest_lines_shorter [OF False]
      by (auto simp: split_lines.simps [of str])
  qed (use 1 in simp)
qed

subsection \<open>Well-formed buffers\<close>

definition wf_buf :: "outbuf_t \<Rightarrow> bool" where
  "wf_buf buf \<longleftrightarrow> distinct (map fst (lines buf)) \<and> (\<forall>x \<in> set (lines buf). fst x < next_line buf)"

definition texts :: "outbuf_t \<Rightarrow> string list" where
  "texts buf = map snd (lines buf)"

definition numbered :: "nat \<Rightarrow> string list \<Rightarrow> (line_id \<times> string) list" where
  \<comment> \<open>new lines\<close>
  "numbered n ls = zip [n ..< n + length ls] ls"

lemma numbered_simps [simp]:
  "numbered n [] = []"
  "numbered n (l # ls) = (n, l) # numbered (Suc n) ls"
  by (simp_all add: numbered_def upt_conv_Cons del: upt_Suc)

lemma numbered_facts:
  "map snd (numbered n ls) = ls"
  "map fst (numbered n ls) = [n ..< n + length ls]"
  "length (numbered n ls) = length ls"
  by (simp_all add: numbered_def)

lemma writeout_texts: "writeout buf = unlines (texts buf)"
  by (simp add: writeout_def unlines_def texts_def nl_def o_def)

lemma appendln_lines:
  assumes "\<forall>l \<in> set (split_lines str). length l \<le> MAX_LINE_LEN"
  shows "for_all_lines (\<lambda>dummy s buf. Some (do_appendln s buf)) d str buf =
    Some (buf\<lparr>lines := lines buf @ numbered (next_line buf) (split_lines str),
              next_line := next_line buf + length (split_lines str)\<rparr>)"
  using assms
proof (induction str arbitrary: d buf rule: split_lines.induct)
  case (1 str)
  show ?case
  proof (cases "str = []")
    case True
    then show ?thesis by (simp add: for_all_lines.simps)
  next
    case False
    have sp: "split_lines str = first_line str # split_lines (rest_lines str)"
      using False by (simp add: split_lines.simps [of str])
    then have ok: "length (first_line str) \<le> MAX_LINE_LEN"
      and rest: "\<forall>l \<in> set (split_lines (rest_lines str)). length l \<le> MAX_LINE_LEN"
      using 1(2) by simp_all
    show ?thesis
      using False ok 1(1) [OF False rest]
      by (simp add: for_all_lines.simps [of _ _ str] sp do_appendln_def Let_def)
  qed
qed

lemma appendln_fails:
  assumes "\<not> (\<forall>l \<in> set (split_lines str). length l \<le> MAX_LINE_LEN)"
  shows "for_all_lines (\<lambda>dummy s buf. Some (do_appendln s buf)) d str buf = None"
  using assms
proof (induction str arbitrary: d buf rule: split_lines.induct)
  case (1 str)
  then have ne: "str \<noteq> []" by auto
  then have sp: "split_lines str = first_line str # split_lines (rest_lines str)"
    by (simp add: split_lines.simps [of str])
  show ?case
  proof (cases "length (first_line str) \<le> MAX_LINE_LEN")
    case True
    then show ?thesis
      using 1 ne sp by (simp add: for_all_lines.simps [of _ _ str])
  qed (use ne in \<open>simp add: for_all_lines.simps [of _ _ str] check_def\<close>)
qed

subsection \<open>Inserting and changing lines\<close>

lemma next_in_mid:
  assumes "distinct (map fst (A @ (l, s) # B))"
  shows "next_in l (A @ (l, s) # B) = (case B of [] \<Rightarrow> None | (m, t) # _ \<Rightarrow> Some m)"
  using assms by (induction A) auto

lemma insert_after_mid:
  assumes "distinct (map fst (A @ (l, s) # B))"
  shows "insert_after l x (A @ (l, s) # B) = Some (A @ (l, s) # x # B)"
  using assms by (induction A) auto

lemma prev_in_mid:
  assumes "distinct (map fst (A @ (l, s) # B))"
  shows "prev_in p l (A @ (l, s) # B) = (if A = [] then p else Some (fst (last A)))"
  using assms by (induction A arbitrary: p) auto

definition last_id :: "(line_id \<times> string) list \<Rightarrow> line_id option" where
  "last_id A = (if A = [] then None else Some (fst (last A)))"

lemma do_insertln_mid:
  assumes "wf_buf buf" "lines buf = A @ B"
  shows "do_insertln (last_id A) s buf =
    Some (buf\<lparr>lines := A @ (next_line buf, s) # B, next_line := next_line buf + 1\<rparr>)"
proof (cases A rule: rev_cases)
  case Nil
  then show ?thesis using assms by (simp add: do_insertln_def last_id_def)
next
  case (snoc A' x)
  obtain l t where x: "x = (l, t)" by fastforce
  have "distinct (map fst (A' @ (l, t) # B))" using assms snoc x by (simp add: wf_buf_def)
  note ins = insert_after_mid [OF this]
  show ?thesis using assms snoc x ins by (simp add: do_insertln_def last_id_def)
qed

lemma wf_insert:
  assumes "wf_buf buf" "lines buf = A @ B"
  shows "wf_buf (buf\<lparr>lines := A @ (next_line buf, s) # B, next_line := next_line buf + 1\<rparr>)"
proof -
  have "fst x < next_line buf" if "x \<in> set A \<union> set B" for x
    using assms that unfolding wf_buf_def by auto
  then have "next_line buf \<notin> fst ` set A" "next_line buf \<notin> fst ` set B" by fastforce+
  then show ?thesis using assms unfolding wf_buf_def by (auto simp: less_Suc_eq)
qed

lemma next_line_ptr_mid:
  assumes "wf_buf buf" "lines buf = A @ x # B"
  shows "next_line_ptr (last_id A) buf = Some (fst x)"
proof (cases A rule: rev_cases)
  case Nil
  then show ?thesis using assms by (cases x) (simp add: next_line_ptr_def last_id_def head_line_def)
next
  case (snoc A' y)
  obtain l t where y: "y = (l, t)" by fastforce
  have "distinct (map fst (A' @ (l, t) # x # B))" using assms snoc y by (simp add: wf_buf_def)
  note nx = next_in_mid [OF this]
  show ?thesis using assms snoc y nx
    by (cases x) (simp add: next_line_ptr_def last_id_def)
qed

lemma insertln_lines:
  assumes "wf_buf buf" "lines buf = A @ B" "\<forall>l \<in> set (split_lines str). length l \<le> MAX_LINE_LEN"
  shows "for_all_lines do_insertln (last_id A) str buf =
    Some (buf\<lparr>lines := A @ numbered (next_line buf) (split_lines str) @ B,
              next_line := next_line buf + length (split_lines str)\<rparr>)"
  using assms
proof (induction str arbitrary: A buf rule: split_lines.induct)
  case (1 str)
  show ?case
  proof (cases "str = []")
    case True
    then show ?thesis using 1(3) by (simp add: for_all_lines.simps)
  next
    case False
    have sp: "split_lines str = first_line str # split_lines (rest_lines str)"
      using False by (simp add: split_lines.simps [of str])
    then have ok: "length (first_line str) \<le> MAX_LINE_LEN"
      and rest: "\<forall>l \<in> set (split_lines (rest_lines str)). length l \<le> MAX_LINE_LEN"
      using 1(4) by simp_all
    let ?x = "(next_line buf, first_line str)"
    let ?buf = "buf\<lparr>lines := A @ ?x # B, next_line := next_line buf + 1\<rparr>"
    have ins: "do_insertln (last_id A) (first_line str) buf = Some ?buf"
      by (rule do_insertln_mid [OF 1(2,3)])
    have wf: "wf_buf ?buf" by (rule wf_insert [OF 1(2,3)])
    have nx: "next_line_ptr (last_id A) ?buf = last_id (A @ [?x])"
      using next_line_ptr_mid [OF wf, of A ?x B] by (simp add: last_id_def)
    have "for_all_lines do_insertln (last_id (A @ [?x])) (rest_lines str) ?buf =
        Some (?buf\<lparr>lines := (A @ [?x]) @ numbered (next_line ?buf) (split_lines (rest_lines str)) @ B,
              next_line := next_line ?buf + length (split_lines (rest_lines str))\<rparr>)"
      by (rule 1(1) [OF False wf _ rest]) simp
    then show ?thesis
      using False ok ins nx by (simp add: for_all_lines.simps [of _ _ str] sp)
  qed
qed

lemma removeln_mid:
  assumes "wf_buf buf" "lines buf = A @ (l, s) # B"
  shows "removeln l buf = Some (buf\<lparr>lines := A @ B\<rparr>)"
proof -
  have "fst x \<noteq> l" if "x \<in> set A \<union> set B" for x
    using assms that by (fastforce simp: wf_buf_def)
  then have "filter (\<lambda>x. fst x \<noteq> l) A = A" "filter (\<lambda>x. fst x \<noteq> l) B = B"
    by (auto simp: filter_id_conv)
  then show ?thesis using assms by (simp add: removeln_def)
qed

lemma changeln_lines:
  assumes wf: "wf_buf buf" and ls: "lines buf = A @ (l, s) # B"
    and ok: "\<forall>l \<in> set (split_lines str). length l \<le> MAX_LINE_LEN"
  shows "changeln l str buf =
    Some (buf\<lparr>lines := A @ numbered (next_line buf) (split_lines str) @ B,
              next_line := next_line buf + length (split_lines str)\<rparr>)"
proof -
  let ?buf = "buf\<lparr>lines := A @ B\<rparr>"
  have d: "distinct (map fst (A @ (l, s) # B))" using wf ls by (simp add: wf_buf_def)
  have prev: "prev_in None l (lines buf) = last_id A"
    using prev_in_mid [OF d] ls by (simp add: last_id_def)
  have "wf_buf ?buf" using wf ls by (auto simp: wf_buf_def)
  from insertln_lines [OF this _ ok, of A B]
  show ?thesis
    unfolding changeln_def prev removeln_mid [OF wf ls] Let_def insertln_def
    by simp
qed

lemma wf_change:
  assumes "wf_buf buf" "lines buf = A @ (l, s) # B"
  shows "wf_buf (buf\<lparr>lines := A @ numbered (next_line buf) ls @ B, next_line := next_line buf + length ls\<rparr>)"
proof -
  let ?n = "next_line buf"
  have ids: "fst ` set (numbered ?n ls) = {?n ..< ?n + length ls}"
    using arg_cong [OF numbered_facts(2), of set ?n ls] by simp
  have old: "fst x < ?n" if "x \<in> set A \<union> set B" for x
    using assms that unfolding wf_buf_def by auto
  then have "fst ` set A \<inter> {?n ..< ?n + length ls} = {}" "fst ` set B \<inter> {?n ..< ?n + length ls} = {}"
    by fastforce+
  then have "distinct (map fst (A @ numbered ?n ls @ B))"
    using assms unfolding wf_buf_def by (auto simp: numbered_facts(2) ids)
  moreover have "fst x < ?n + length ls" if "x \<in> set (A @ numbered ?n ls @ B)" for x
    using that old [of x] ids by (auto simp: image_iff dest: trans_less_add1)
  ultimately show ?thesis by (simp add: wf_buf_def)
qed

end
