(* ===== verification/Outbuf_Props.thy ===== *)
theory Outbuf_Props
  imports Outbuf_Correct
begin

text \<open>
  The two promises of the output buffer: \<open>fix_stack\<close>, which gives every line its frame size, and
  the text that a sequence of writes leaves.
\<close>

subsection \<open>The stack frame\<close>

lemma show_nat_digits: "c \<in> set (show_nat n) \<Longrightarrow> is_digit c"
proof (induction n rule: show_nat.induct)
  case (1 n)
  show ?case
  proof (cases "n < 10")
    case True
    then have "c = char_of (48 + n)" using 1(2) by (simp add: show_nat.simps [of n])
    then show ?thesis using True by (simp add: is_digit_def of_char_of)
  next
    case False
    then consider "c \<in> set (show_nat (n div 10))" | "c = char_of (48 + n mod 10)"
      using 1(2) by (auto simp: show_nat.simps [of n])
    then show ?thesis
    proof cases
      case 2
      moreover have "n mod 10 < 10" by simp
      ultimately show ?thesis by (simp add: is_digit_def of_char_of)
    qed (rule 1(1) [OF False])
  qed
qed

lemma digits_val_snoc: "digits_val (ds @ [c]) = digits_val ds * 10 + (int (of_char c) - 48)"
  by (simp add: digits_val_def)

lemma show_nat_val: "digits_val (show_nat n) = int n"
proof (induction n rule: show_nat.induct)
  case (1 n)
  show ?case
  proof (cases "n < 10")
    case True
    then show ?thesis by (simp add: show_nat.simps [of n] digits_val_def of_char_of)
  next
    case False
    have "n mod 10 < 10" by simp
    then have "digits_val (show_nat n) = int (n div 10) * 10 + int (n mod 10)"
      using False 1 by (simp add: show_nat.simps [of n] digits_val_snoc of_char_of)
    then show ?thesis by presburger
  qed
qed

lemma show_nat_ne: "show_nat n \<noteq> []"
  by (simp add: show_nat.simps [of n])

lemma takeWhile_digits:
  assumes "\<forall>c \<in> set ds. is_digit c" "\<not> is_digit c"
  shows "takeWhile is_digit (ds @ c # s) = ds"
  using assms by (induction ds) auto

lemma scan_int_show_int:
  assumes "- (2 ^ 31) \<le> n" "n < 2 ^ 31" "\<not> is_digit c"
  shows "scan_int (show_int n @ c # s) = Some n"
proof (cases "n < 0")
  case True
  have "takeWhile is_digit (show_nat (nat (- n)) @ c # s) = show_nat (nat (- n))"
    by (rule takeWhile_digits) (use assms show_nat_digits in blast)+
  then show ?thesis
    using True assms by (simp add: scan_int_def show_int_def show_nat_ne show_nat_val)
next
  case False
  have tw: "takeWhile is_digit (show_nat (nat n) @ c # s) = show_nat (nat n)"
    by (rule takeWhile_digits) (use assms show_nat_digits in blast)+
  obtain d ds where d: "show_nat (nat n) = d # ds" using show_nat_ne by (meson list.exhaust)
  then have "is_digit d" using show_nat_digits [of d "nat n"] by simp
  then have nd: "d \<noteq> CHR ''-''" "d \<noteq> CHR ''+''" by (auto simp: is_digit_def)
  have "(case show_nat (nat n) @ c # s of CHR ''-'' # t \<Rightarrow> (-1, t) | CHR ''+'' # t \<Rightarrow> (1, t)
      | _ \<Rightarrow> (1 :: int, show_nat (nat n) @ c # s)) = (1, show_nat (nat n) @ c # s)"
    unfolding d using nd by (simp split: char.splits bool.splits)
  then show ?thesis
    using False assms tw by (simp add: scan_int_def show_int_def show_nat_ne show_nat_val)
qed

lemma starts_with_iff: "starts_with p s \<longleftrightarrow> (\<exists>c. s = p @ c)"
  by (induction p s rule: starts_with.induct) auto

lemma strstr_None: "(\<forall>a c. s \<noteq> a @ p @ c) \<Longrightarrow> strstr p s = None"
proof (induction s)
  case Nil
  then have "p \<noteq> []" by (metis append_Nil)
  then show ?case by simp
next
  case (Cons x s)
  have "\<not> starts_with p (x # s)"
    unfolding starts_with_iff using Cons.prems by (metis append_Nil)
  moreover have "\<forall>a c. s \<noteq> a @ p @ c" using Cons.prems by (metis append_Cons)
  ultimately show ?case using Cons.IH by simp
qed

lemma strstr_first: "CHR ''@'' \<notin> set a \<Longrightarrow> strstr ''@FP@'' (a @ ''@FP@'' @ c) = Some (a, ''@FP@'' @ c)"
  by (induction a) auto

definition small :: "string \<Rightarrow> bool" where
  "small s \<longleftrightarrow> length s < MAX_LINE_LEN"

lemma small_lines: "small s \<Longrightarrow> \<forall>l \<in> set (split_lines s). length l \<le> MAX_LINE_LEN"
  unfolding small_def using split_lines_length by fastforce

text \<open>
  What the frame size makes of a line: the lines of the prologue or of the epilogue, the line
  itself, or the line with the address in place of its offset.
\<close>

inductive fixes_to :: "int \<Rightarrow> string \<Rightarrow> string \<Rightarrow> (int \<Rightarrow> string) \<Rightarrow> string \<Rightarrow> string \<Rightarrow> bool"
  for sz pro epi sp
where
  pro: "small pro \<Longrightarrow> fixes_to sz pro epi sp ''@P@'' (end_line pro)"
| epi: "small epi \<Longrightarrow> fixes_to sz pro epi sp ''@E@'' (end_line epi)"
| plain: "small s \<Longrightarrow> \<forall>a c. s \<noteq> a @ ''@FP@'' @ c \<Longrightarrow> s \<notin> {''@P@'', ''@E@''} \<Longrightarrow>
    fixes_to sz pro epi sp s (s @ [nl])"
| offset: "CHR ''@'' \<notin> set a \<Longrightarrow> - (2 ^ 31) \<le> n \<Longrightarrow> n < 2 ^ 31 \<Longrightarrow>
    small (a @ ''@FP@'' @ show_int n @ ''@'' @ c) \<Longrightarrow> small (a @ sp (sz - n) @ c) \<Longrightarrow>
    fixes_to sz pro epi sp (a @ ''@FP@'' @ show_int n @ ''@'' @ c) (end_line (a @ sp (sz - n) @ c))"

lemma unlines_numbered: "unlines (map snd (A @ numbered n (split_lines s) @ B)) =
    unlines (map snd A) @ end_line s @ unlines (map snd B)"
  by (simp add: numbered_facts(1) unlines_split_lines)

definition fix_one :: "int \<Rightarrow> string \<Rightarrow> string \<Rightarrow> (int \<Rightarrow> string) \<Rightarrow> line_id \<Rightarrow> string \<Rightarrow> outbuf_t \<Rightarrow> outbuf_t option" where
  \<comment> \<open>the body of the loop\<close>
  "fix_one stack_size prologue epilogue sp line str buf =
     (if str = ''@P@'' then changeln line prologue buf
      else if str = ''@E@'' then changeln line epilogue buf
      else do {
        new \<leftarrow> fix_line stack_size sp str;
        (case new of Some t \<Rightarrow> changeln line t buf | None \<Rightarrow> Some buf)
      })"

lemma at_digit: "\<not> is_digit (CHR ''@'')" "c \<in> set (show_int n) \<Longrightarrow> c \<noteq> CHR ''@''"
proof -
  show 1: "\<not> is_digit (CHR ''@'')" by (simp add: is_digit_def)
  assume "c \<in> set (show_int n)"
  then have "c = CHR ''-'' \<or> is_digit c"
    by (auto simp: show_int_def split: if_splits dest: show_nat_digits)
  then show "c \<noteq> CHR ''@''" using 1 by auto
qed

lemma dropWhile_show_int: "dropWhile (\<lambda>c. c \<noteq> CHR ''@'') (show_int n @ CHR ''@'' # c) = CHR ''@'' # c"
proof -
  have "\<forall>x \<in> set (show_int n). x \<noteq> CHR ''@''" using at_digit(2) by blast
  then show ?thesis by (subst dropWhile_append2) auto
qed

lemma fix_line_offset:
  fixes sz :: int
  assumes "CHR ''@'' \<notin> set a" "- (2 ^ 31) \<le> n" "n < 2 ^ 31"
    "small (a @ ''@FP@'' @ show_int n @ ''@'' @ c)" "small (a @ sp (sz - n) @ c)"
  shows "fix_line sz sp (a @ ''@FP@'' @ show_int n @ ''@'' @ c) = Some (Some (a @ sp (sz - n) @ c))"
proof -
  let ?s2 = "show_int n @ CHR ''@'' # c"
  have sc: "scan_int ?s2 = Some n" by (rule scan_int_show_int [OF assms(2,3) at_digit(1)])
  have st: "strstr ''@FP@'' (a @ ''@FP@'' @ ?s2) = Some (a, ''@FP@'' @ ?s2)"
    by (rule strstr_first [OF assms(1)])
  show ?thesis
    unfolding fix_line_def using assms(4,5) st
    by (simp add: small_def sc dropWhile_show_int Let_def)
qed

lemma fix_one_correct:
  assumes wf: "wf_buf buf" and ls: "lines buf = A @ (l, s) # B" and f: "fixes_to sz pro epi sp s out"
  shows "\<exists>N n. fix_one sz pro epi sp l s buf = Some (buf\<lparr>lines := A @ N @ B, next_line := n\<rparr>) \<and>
    wf_buf (buf\<lparr>lines := A @ N @ B, next_line := n\<rparr>) \<and> unlines (map snd N) = out"
proof -
  have change: ?thesis if "fix_one sz pro epi sp l s buf = changeln l t buf" "small t" "out = end_line t" for t
    using changeln_lines [OF wf ls small_lines [OF that(2)]] wf_change [OF wf ls, of "split_lines t"] that(1,3)
    by (metis numbered_facts(1) unlines_split_lines)
  show ?thesis
    using f
  proof cases
    case pro
    then show ?thesis by (intro change [of pro]) (simp_all add: fix_one_def)
  next
    case epi
    then show ?thesis by (intro change [of epi]) (simp_all add: fix_one_def)
  next
    case plain
    have "fix_one sz pro epi sp l s buf = Some buf"
      using plain(2,4) strstr_None [OF plain(3)] by (simp add: fix_one_def fix_line_def small_def)
    then show ?thesis using wf ls plain(1)
      by (intro exI [of _ "[(l, s)]"] exI [of _ "next_line buf"]) (simp add: wf_buf_def)
  next
    case (offset a n c)
    have "s \<noteq> ''@P@''" "s \<noteq> ''@E@''" unfolding offset(1) by (cases a; simp)+
    then have "fix_one sz pro epi sp l s buf = changeln l (a @ sp (sz - n) @ c) buf"
      unfolding fix_one_def using fix_line_offset [of a n c sp sz] offset by simp
    then show ?thesis using offset(2,7) by (intro change) simp_all
  qed
qed

lemma fix_loop_correct:
  assumes "wf_buf buf" "lines buf = A @ B" "length B \<le> k" "list_all2 (fixes_to sz pro epi sp) (map snd B) outs"
  shows "\<exists>buf'. fix_loop k sz pro epi sp (case B of [] \<Rightarrow> None | (m, t) # _ \<Rightarrow> Some m) buf = Some buf' \<and>
    writeout buf' = unlines (map snd A) @ concat outs \<and> wf_buf buf' \<and> tmpbuf buf' = tmpbuf buf"
  using assms
proof (induction B arbitrary: A buf k outs)
  case Nil
  then show ?case by (simp add: writeout_texts texts_def)
next
  case (Cons x B)
  obtain l s where x: "x = (l, s)" by fastforce
  obtain k' where k: "k = Suc k'" using Cons.prems(3) by (cases k) auto
  obtain out outs' where o: "outs = out # outs'" "fixes_to sz pro epi sp s out"
      "list_all2 (fixes_to sz pro epi sp) (map snd B) outs'"
    using Cons.prems(4) x by (auto simp: list_all2_Cons1)
  have ls: "lines buf = A @ (l, s) # B" using Cons.prems(2) x by simp
  have d: "distinct (map fst (A @ (l, s) # B))" using Cons.prems(1) ls by (simp add: wf_buf_def)
  obtain N n where one: "fix_one sz pro epi sp l s buf = Some (buf\<lparr>lines := A @ N @ B, next_line := n\<rparr>)"
      "wf_buf (buf\<lparr>lines := A @ N @ B, next_line := n\<rparr>)" "unlines (map snd N) = out"
    using fix_one_correct [OF Cons.prems(1) ls o(2)] by blast
  let ?buf = "buf\<lparr>lines := A @ N @ B, next_line := n\<rparr>"
  have ls': "lines ?buf = (A @ N) @ B" by simp
  have le: "length B \<le> k'" using Cons.prems(3) k by simp
  obtain buf' where r: "fix_loop k' sz pro epi sp (case B of [] \<Rightarrow> None | (m, t) # _ \<Rightarrow> Some m) ?buf = Some buf'"
      "writeout buf' = unlines (map snd (A @ N)) @ concat outs'" "wf_buf buf'" "tmpbuf buf' = tmpbuf ?buf"
    using Cons.IH [OF one(2) ls' le o(3)] by blast
  have m: "map_of (lines buf) l = Some s"
    by (rule map_of_is_SomeI) (use d ls in simp_all)
  have "fix_loop k sz pro epi sp (Some l) buf = Some buf'"
    using one(1) r(1) next_in_mid [OF d] ls m by (simp add: k fix_one_def)
  then show ?case using x o(1) one(3) r(2-4) by auto
qed

text \<open>
  C32: \<open>fix_stack\<close> succeeds on every well-formed buffer whose lines and results fit a line, and the
  output it leaves is, line for line and in order, the prologue in place of a line \<open>@P@\<close>, the
  epilogue in place of \<open>@E@\<close>, the address \<open>sp (stack_size - n)\<close> in place of the first
  \<open>@FP@n@\<close> of a line, and every other line as it was; the loop ends within the number of lines,
  whatever number of lines the prologue inserts.
\<close>

theorem fix_stack_correct:
  assumes "wf_buf buf" "list_all2 (fixes_to stack_size prologue epilogue sp) (map snd (lines buf)) outs"
  shows "\<exists>buf'. fix_stack stack_size prologue epilogue sp buf = Some buf' \<and>
    writeout buf' = concat outs \<and> wf_buf buf' \<and> tmpbuf buf' = tmpbuf buf"
proof -
  have h: "head_line buf = (case lines buf of [] \<Rightarrow> None | (m, t) # _ \<Rightarrow> Some m)"
    by (simp add: head_line_def)
  show ?thesis
    using fix_loop_correct [OF assms(1) _ order_refl assms(2), of "[]"]
    unfolding fix_stack_def h by simp
qed

definition frame_buf :: outbuf_t where
  \<comment> \<open>the lines of a function with one local variable\<close>
  "frame_buf = \<lparr>lines = [(0, ''f:''), (1, ''@P@''), (2, ''mov eax, [@FP@-12@]''), (3, ''@E@'')], tmpbuf = [], next_line = 4\<rparr>"

definition esp_off :: "int \<Rightarrow> string" where
  "esp_off n = ''esp + '' @ show_int n"

definition frame_outs :: "string list" where
  "frame_outs = [''f:'' @ [nl], ''sub esp, 16'' @ [nl], ''mov eax, [esp + 28]'' @ [nl], ''add esp, 16'' @ [nl] @ ''ret'' @ [nl]]"

lemma no_marker: "CHR ''@'' \<notin> set s \<Longrightarrow> \<forall>a c. s \<noteq> a @ ''@FP@'' @ c"
  by auto

lemma frame_fixes:
  "list_all2 (fixes_to 16 ''sub esp, 16'' (''add esp, 16'' @ [nl] @ ''ret'') esp_off) (map snd (lines frame_buf)) frame_outs"
proof -
  let ?f = "fixes_to 16 ''sub esp, 16'' (''add esp, 16'' @ [nl] @ ''ret'') esp_off"
  have sm: "small s" if "length s < 512" for s using that by (simp add: small_def MAX_LINE_LEN_def)
  have 1: "?f ''f:'' (''f:'' @ [nl])"
    by (rule fixes_to.plain) (simp_all add: sm no_marker)
  have 2: "?f ''@P@'' (''sub esp, 16'' @ [nl])"
    using fixes_to.pro [of "''sub esp, 16''"] by (simp add: sm end_line_def nl_def)
  have 3: "?f ''@E@'' (''add esp, 16'' @ [nl] @ ''ret'' @ [nl])"
    using fixes_to.epi [of "''add esp, 16'' @ [nl] @ ''ret''"] by (simp add: sm end_line_def nl_def)
  have n: "show_int (-12) = ''-12''" "show_int 28 = ''28''"
    by (simp_all add: show_int_def show_nat.simps char_of_def bit_0)
  have 4: "?f ''mov eax, [@FP@-12@]'' (''mov eax, [esp + 28]'' @ [nl])"
    using fixes_to.offset [of "''mov eax, [''" "-12" "'']''" esp_off 16]
    by (simp add: n esp_off_def sm end_line_def nl_def)
  show ?thesis using 1 2 3 4 by (simp add: frame_buf_def frame_outs_def)
qed

lemma fix_stack_correct_witness:
  "\<exists>buf'. fix_stack 16 ''sub esp, 16'' (''add esp, 16'' @ [nl] @ ''ret'') esp_off frame_buf = Some buf' \<and>
    writeout buf' = concat frame_outs \<and> wf_buf buf' \<and> tmpbuf buf' = tmpbuf frame_buf"
  by (rule fix_stack_correct [OF _ frame_fixes]) (simp add: wf_buf_def frame_buf_def)

subsection \<open>Writing\<close>

datatype out_op = Write string | Writeln string | Flush

fun out_step :: "out_op \<Rightarrow> outbuf_t \<Rightarrow> outbuf_t option" where
  "out_step (Write s) buf = outbuf_write s buf"
| "out_step (Writeln s) buf = outbuf_writeln s buf"
| "out_step Flush buf = flushbuf buf"

fun out_run :: "out_op list \<Rightarrow> outbuf_t \<Rightarrow> outbuf_t option" where
  "out_run [] buf = Some buf"
| "out_run (x # xs) buf = do { buf \<leftarrow> out_step x buf; out_run xs buf }"

text \<open>The promise: the text of the finished lines and the text of the line that is being written.\<close>

fun text_run :: "out_op list \<Rightarrow> string \<Rightarrow> string \<Rightarrow> (string \<times> string) option" where
  "text_run [] done cur = Some (done, cur)"
| "text_run (Write s # xs) done cur =
     (if length (cur @ s) < 512 then text_run xs done (cur @ s) else None)"
| "text_run (Writeln s # xs) done cur =
     (if length (cur @ s) < 512 then text_run xs (done @ end_line (cur @ s)) [] else None)"
| "text_run (Flush # xs) done cur = text_run xs (done @ end_line cur) []"

lemma flushbuf_text:
  assumes "length (tmpbuf buf) < 512"
  obtains buf' where "flushbuf buf = Some buf'" "writeout buf' = writeout buf @ end_line (tmpbuf buf)"
    "tmpbuf buf' = []"
proof (cases "tmpbuf buf = []")
  case True
  then show ?thesis using that by (simp add: flushbuf_def end_line_def)
next
  case False
  have "\<forall>l \<in> set (split_lines (tmpbuf buf)). length l \<le> MAX_LINE_LEN"
    by (rule small_lines) (use assms in \<open>simp add: small_def MAX_LINE_LEN_def\<close>)
  from appendln_lines [OF this] show ?thesis
    using that False
    by (simp add: flushbuf_def appendln_def writeout_texts texts_def numbered_facts(1) unlines_split_lines)
qed

lemma out_run_text:
  assumes "length (tmpbuf buf) < 512"
  shows "map_option (\<lambda>b. (writeout b, tmpbuf b)) (out_run xs buf) = text_run xs (writeout buf) (tmpbuf buf)"
  using assms
proof (induction xs arbitrary: buf)
  case (Cons x xs)
  show ?case
  proof (cases x)
    case (Write s)
    then show ?thesis
      using Cons.IH [of "buf\<lparr>tmpbuf := tmpbuf buf @ s\<rparr>"]
      by (simp add: outbuf_write_def TMPBUF_SIZE_def check_def writeout_def)
  next
    case (Writeln s)
    show ?thesis
    proof (cases "length (tmpbuf buf @ s) < 512")
      case True
      let ?buf = "buf\<lparr>tmpbuf := tmpbuf buf @ s\<rparr>"
      have "length (tmpbuf ?buf) < 512" using True by simp
      then obtain buf' where b: "flushbuf ?buf = Some buf'" "writeout buf' = writeout ?buf @ end_line (tmpbuf ?buf)"
          "tmpbuf buf' = []"
        using flushbuf_text by blast
      then show ?thesis
        using Cons.IH [of buf'] Writeln True
        by (simp add: outbuf_writeln_def TMPBUF_SIZE_def writeout_def)
    qed (simp add: Writeln outbuf_writeln_def TMPBUF_SIZE_def check_def)
  next
    case Flush
    obtain buf' where b: "flushbuf buf = Some buf'" "writeout buf' = writeout buf @ end_line (tmpbuf buf)"
        "tmpbuf buf' = []"
      using flushbuf_text [OF Cons.prems] by blast
    then show ?thesis using Cons.IH [of buf'] Flush by simp
  qed
qed simp

text \<open>
  C33: any sequence of \<open>write\<close>, \<open>writeln\<close> and \<open>flushbuf\<close> on a new buffer stops exactly when a
  line that is being written reaches 512 characters; otherwise what \<open>writeout\<close> puts into the file
  is the texts in the order they were written, a newline after each line that \<open>writeln\<close> or
  \<open>flushbuf\<close> ended and that has none (none for an empty one), and nothing is lost or written twice.
\<close>

theorem outbuf_writes_text:
  "map_option (\<lambda>b. (writeout b, tmpbuf b)) (out_run ops new_outbuf) = text_run ops [] []"
  using out_run_text [of new_outbuf ops] by (simp add: new_outbuf_def writeout_def)

end
