(* ===== verification/Gencode.thy ===== *)
theory Gencode
  imports Flow
begin

text \<open>
  The first part of \<open>src/src/gencode.c\<close> and \<open>gencode.h\<close>: locations of variables, the stack frame
  and the register descriptors.

  The list \<open>var->loc\<close> of a variable is \<open>var_loc v\<close>, the list \<open>vd->loc\<close> of a variable at the start
  of a block \<open>vd_loc b v\<close>; a pointer to a location of a list is the number \<open>loc_id\<close> of the
  location, and a location that has been freed is in no list.  A location on the C stack
  (\<open>init_loc\<close>) has the number 0.  A pointer to a stack element is its number.  Registers that the
  arrays do not have, null pointers and freed elements are \<open>None\<close>.

  The backend is the record \<open>backend_t\<close>.  Functions of \<open>gencode.c\<close> call it, and its functions call
  \<open>gencode.c\<close>; \<open>save_var_not_to_loc\<close> also calls itself through \<open>flush_loc\<close> and \<open>free_reg\<close>.  All
  these cycles go through the record, which has the field \<open>again\<close> for the last one: a backend of
  level \<open>k + 1\<close> calls the backend of level \<open>k\<close>, and a backend of level 0 stops, so the level bounds
  the depth of the recursion.

  \<open>assert\<close> stops the program when \<open>asserts\<close> holds (the configuration \<open>DEBUG\<close> of the makefile) and
  does nothing otherwise (\<open>RELEASE\<close>, with \<open>-DNDEBUG\<close>).  The assertions \<open>assert (gencode_invariant ())\<close>
  at the start and the end of the functions are not repeated in the definitions.
\<close>

subsection \<open>Data\<close>

type_synonym se_id = nat

record stack_elem_t =
  se_id :: se_id
  se_vars :: "var_id list"
  se_size :: int
  se_offset :: int

datatype loc_tag_t = LOC_STACK | LOC_REG | LOC_FPU_REG | LOC_INT | LOC_DOUBLE

text \<open>The tag of a location with the member of its union.\<close>

datatype loc_u = L_STACK se_id | L_REG nat | L_FPU_REG nat | L_INT i32 | L_DOUBLE double

fun loc_tag :: "loc_u \<Rightarrow> loc_tag_t" where
  "loc_tag (L_STACK s) = LOC_STACK"
| "loc_tag (L_REG r) = LOC_REG"
| "loc_tag (L_FPU_REG r) = LOC_FPU_REG"
| "loc_tag (L_INT i) = LOC_INT"
| "loc_tag (L_DOUBLE d) = LOC_DOUBLE"

record loc_t =
  loc_id :: nat
  loc_u :: loc_u
  permanent :: bool
  dirty :: bool

abbreviation tag_of :: "loc_t \<Rightarrow> loc_tag_t" where
  "tag_of l \<equiv> loc_tag (loc_u l)"

text \<open>\<open>cur_quadr\<close> is the list of quadruples from the current one on, \<open>[]\<close> for \<open>NULL\<close>.\<close>

record 'b gencode_st =
  quadrs :: quadr_st
  var_loc :: "var_id \<Rightarrow> loc_t list"
  vd_loc :: "block_id \<Rightarrow> var_id \<Rightarrow> loc_t list"
  next_loc :: nat
  stack :: "stack_elem_t list"
  next_se :: se_id
  stack_size :: int
  max_stack_size :: int
  first_stack_free :: "se_id option"
  cur_quadr :: "quadr_t list"
  gencode_cur_block :: block_id
  gencode_cur_func :: func_id
  regs :: "var_id list list"
  fpu_regs :: "var_id list list"
  blacklist_reg :: "bool list"
  blacklist_fpu_reg :: "bool list"
  suppress_mov :: bool
  live_vars_saved :: bool
  var_lst :: "var_id list"
  back_st :: 'b

type_synonym 'b gencode_op = "'b gencode_st \<Rightarrow> 'b gencode_st option"

record 'b backend_t =
  start_func :: "func_id \<Rightarrow> 'b gencode_op"
  end_func :: "func_id \<Rightarrow> int \<Rightarrow> 'b gencode_op"
  gen_code :: "quadr_t \<Rightarrow> 'b gencode_op"
  gen_call_back :: "func_id \<Rightarrow> var_id list \<Rightarrow> var_id option \<Rightarrow> 'b gencode_op"
  gen_print_string :: "string \<Rightarrow> 'b gencode_op"
  gen_mov :: "loc_t \<Rightarrow> var_id \<Rightarrow> 'b gencode_op"
  gen_swap :: "loc_t \<Rightarrow> loc_t \<Rightarrow> 'b gencode_op"
  gen_label :: "string \<Rightarrow> 'b gencode_op"
  find_best_src_loc :: "var_id \<Rightarrow> 'b gencode_st \<Rightarrow> loc_t option"
  find_best_dest_loc :: "var_id \<Rightarrow> 'b gencode_st \<Rightarrow> loc_t option"
  fpu_reg_free :: "nat \<Rightarrow> 'b gencode_op"
  gen_fpu_load :: "var_id \<Rightarrow> 'b gencode_op"
  gen_fpu_store :: "loc_t \<Rightarrow> 'b gencode_op"
  gen_fpu_pop :: "bool \<Rightarrow> 'b gencode_op"
  back_alloc_reg :: "nat \<Rightarrow> loc_tag_t \<Rightarrow> 'b gencode_st \<Rightarrow> (nat \<times> 'b gencode_st) option"
  back_alloc_fpu_reg :: "nat \<Rightarrow> loc_tag_t \<Rightarrow> 'b gencode_st \<Rightarrow> (nat \<times> 'b gencode_st) option"
  fpu_stack :: bool
  fast_swap :: bool
  int_size :: int
  double_size :: int
  ptr_size :: int
  sp_size :: int
  reg_num :: nat
  fpu_reg_num :: nat
  again :: "var_id \<Rightarrow> loc_u option \<Rightarrow> 'b gencode_st \<Rightarrow> (loc_t option \<times> 'b gencode_st) option"
  asserts :: bool
  int_cast :: "se_id \<Rightarrow> se_id"

text \<open>
  \<open>int_cast\<close> is what \<open>(int) x\<close> makes of a pointer to a stack element: the same pointer where
  pointers have 32 bits, another one where they have 64.
\<close>

definition c_assert :: "'b backend_t \<Rightarrow> bool \<Rightarrow> unit option" where
  "c_assert B b = check (asserts B \<longrightarrow> b)"

subsection \<open>Variables\<close>

definition is_live :: "var_id \<Rightarrow> 'b gencode_st \<Rightarrow> bool" where
  "is_live v st = v_live (vars (quadrs st) ! v)"

definition size_of :: "var_id \<Rightarrow> 'b gencode_st \<Rightarrow> int" where
  "size_of v st = v_size (vars (quadrs st) ! v)"

definition qtype_of :: "var_id \<Rightarrow> 'b gencode_st \<Rightarrow> var_type_t" where
  "qtype_of v st = v_qtype (vars (quadrs st) ! v)"

definition upd_var :: "var_id \<Rightarrow> (var_t \<Rightarrow> var_t) \<Rightarrow> 'b gencode_st \<Rightarrow> 'b gencode_st" where
  "upd_var v f st = st\<lparr>quadrs := (quadrs st)\<lparr>vars := (vars (quadrs st))[v := f (vars (quadrs st) ! v)]\<rparr>\<rparr>"

definition set_live :: "var_id \<Rightarrow> bool \<Rightarrow> 'b gencode_st \<Rightarrow> 'b gencode_st" where
  "set_live v b st = upd_var v (\<lambda>x. x\<lparr>v_live := b\<rparr>) st"

definition set_size :: "var_id \<Rightarrow> int \<Rightarrow> 'b gencode_st \<Rightarrow> 'b gencode_st" where
  "set_size v n st = upd_var v (\<lambda>x. x\<lparr>v_size := n\<rparr>) st"

definition set_locs :: "var_id \<Rightarrow> loc_t list \<Rightarrow> 'b gencode_st \<Rightarrow> 'b gencode_st" where
  "set_locs v ls st = st\<lparr>var_loc := (var_loc st)(v := ls)\<rparr>"

definition add_loc :: "var_id \<Rightarrow> loc_t \<Rightarrow> 'b gencode_st \<Rightarrow> 'b gencode_st" where
  \<comment> \<open>\<open>loc->next = var->loc; var->loc = loc;\<close>\<close>
  "add_loc v l st = set_locs v (l # var_loc st v) st"

definition reg_type :: "var_id \<Rightarrow> 'b gencode_st \<Rightarrow> loc_tag_t" where
  "reg_type v st = (if qtype_of v st = VT_DOUBLE then LOC_FPU_REG else LOC_REG)"

subsection \<open>Registers\<close>

definition reg_vars :: "nat \<Rightarrow> loc_tag_t \<Rightarrow> 'b gencode_st \<Rightarrow> var_id list option" where
  "reg_vars r tag st =
     (let rs = (if tag = LOC_REG then regs st else fpu_regs st) in
      if r < length rs then Some (rs ! r) else None)"

definition set_reg_vars :: "nat \<Rightarrow> loc_tag_t \<Rightarrow> var_id list \<Rightarrow> 'b gencode_st \<Rightarrow> 'b gencode_st" where
  "set_reg_vars r tag vl st =
     (if tag = LOC_REG then st\<lparr>regs := (regs st)[r := vl]\<rparr>
      else st\<lparr>fpu_regs := (fpu_regs st)[r := vl]\<rparr>)"

definition set_denied :: "nat \<Rightarrow> loc_tag_t \<Rightarrow> bool \<Rightarrow> 'b gencode_op" where
  "set_denied r tag b st =
     (if tag = LOC_REG
      then (if r < length (blacklist_reg st)
            then Some (st\<lparr>blacklist_reg := (blacklist_reg st)[r := b]\<rparr>) else None)
      else (if r < length (blacklist_fpu_reg st)
            then Some (st\<lparr>blacklist_fpu_reg := (blacklist_fpu_reg st)[r := b]\<rparr>) else None))"

definition deny_reg :: "'b backend_t \<Rightarrow> nat \<Rightarrow> loc_tag_t \<Rightarrow> 'b gencode_op" where
  "deny_reg B r tag st = do {
     c_assert B (tag = LOC_REG \<or> tag = LOC_FPU_REG);
     set_denied r tag True st
   }"

definition allow_reg :: "'b backend_t \<Rightarrow> nat \<Rightarrow> loc_tag_t \<Rightarrow> 'b gencode_op" where
  "allow_reg B r tag st = do {
     c_assert B (tag = LOC_REG \<or> tag = LOC_FPU_REG);
     set_denied r tag False st
   }"

definition set_all_denied :: "'b backend_t \<Rightarrow> loc_tag_t \<Rightarrow> bool \<Rightarrow> 'b gencode_op" where
  "set_all_denied B tag b st = do {
     c_assert B (tag = LOC_REG \<or> tag = LOC_FPU_REG);
     (if tag = LOC_REG then do {
        check (reg_num B \<le> length (blacklist_reg st));
        Some (st\<lparr>blacklist_reg := replicate (reg_num B) b @ drop (reg_num B) (blacklist_reg st)\<rparr>)
      }
      else do {
        check (fpu_reg_num B \<le> length (blacklist_fpu_reg st));
        Some (st\<lparr>blacklist_fpu_reg := replicate (fpu_reg_num B) b @ drop (fpu_reg_num B) (blacklist_fpu_reg st)\<rparr>)
      })
   }"

definition deny_all :: "'b backend_t \<Rightarrow> loc_tag_t \<Rightarrow> 'b gencode_op" where
  "deny_all B tag st = set_all_denied B tag True st"

definition allow_all :: "'b backend_t \<Rightarrow> loc_tag_t \<Rightarrow> 'b gencode_op" where
  "allow_all B tag st = set_all_denied B tag False st"

definition is_allowed :: "nat \<Rightarrow> loc_tag_t \<Rightarrow> 'b gencode_st \<Rightarrow> bool option" where
  "is_allowed r tag st =
     (let bl = (if tag = LOC_REG then blacklist_reg st else blacklist_fpu_reg st) in
      if r < length bl then Some (\<not> bl ! r) else None)"

definition is_free :: "nat \<Rightarrow> loc_tag_t \<Rightarrow> 'b gencode_st \<Rightarrow> bool option" where
  "is_free r tag st = map_option (\<lambda>vl. vl = []) (reg_vars r tag st)"

definition loc_is_allowed :: "loc_u \<Rightarrow> 'b gencode_st \<Rightarrow> bool option" where
  "loc_is_allowed x st =
     (case x of
        L_REG r \<Rightarrow> is_allowed r LOC_REG st
      | L_FPU_REG r \<Rightarrow> is_allowed r LOC_FPU_REG st
      | _ \<Rightarrow> Some True)"

definition available_regs_num :: "'b backend_t \<Rightarrow> loc_tag_t \<Rightarrow> 'b gencode_st \<Rightarrow> nat option" where
  "available_regs_num B tag st = do {
     let rs = (if tag = LOC_REG then regs st else fpu_regs st);
         bl = (if tag = LOC_REG then blacklist_reg st else blacklist_fpu_reg st);
         n = (if tag = LOC_REG then reg_num B else fpu_reg_num B) in do {
       c_assert B (tag = LOC_REG \<or> tag = LOC_FPU_REG);
       check (n \<le> length rs \<and> n \<le> length bl);
       Some (length (filter (\<lambda>i. rs ! i = [] \<and> \<not> bl ! i) [0..<n]))
     }
   }"

subsection \<open>Locations\<close>

definition init_loc :: "loc_u \<Rightarrow> loc_t" where
  "init_loc x = \<lparr>loc_id = 0, loc_u = x, permanent = False, dirty = False\<rparr>"

definition new_loc :: "loc_u \<Rightarrow> 'b gencode_st \<Rightarrow> loc_t \<times> 'b gencode_st" where
  "new_loc x st =
     (\<lparr>loc_id = next_loc st, loc_u = x, permanent = False, dirty = False\<rparr>, st\<lparr>next_loc := next_loc st + 1\<rparr>)"

definition loc_is_reg :: "loc_t \<Rightarrow> bool" where
  "loc_is_reg l \<longleftrightarrow> tag_of l = LOC_REG \<or> tag_of l = LOC_FPU_REG"

definition loc_is_const :: "loc_t \<Rightarrow> bool" where
  "loc_is_const l \<longleftrightarrow> tag_of l = LOC_INT \<or> tag_of l = LOC_DOUBLE"

definition loc_num :: "var_id \<Rightarrow> 'b gencode_st \<Rightarrow> nat" where
  "loc_num v st = length (filter (\<lambda>l. \<not> dirty l) (var_loc st v))"

fun vl_count_single :: "var_id list \<Rightarrow> 'b gencode_st \<Rightarrow> nat" where
  "vl_count_single [] st = 0"
| "vl_count_single (v # vl) st = (if loc_num v st = 1 then 1 else 0) + vl_count_single vl st"

fun copy_loc :: "loc_t list \<Rightarrow> 'b gencode_st \<Rightarrow> loc_t list \<times> 'b gencode_st" where
  "copy_loc [] st = ([], st)"
| "copy_loc (l # ls) st =
     (if \<not> dirty l then
        let (l', st) = new_loc (loc_u l) st; (ls', st) = copy_loc ls st in (l' # ls', st)
      else copy_loc ls st)"

definition copy_loc_shallow :: "loc_t \<Rightarrow> 'b gencode_st \<Rightarrow> loc_t \<times> 'b gencode_st" where
  "copy_loc_shallow l st = new_loc (loc_u l) st"

text \<open>\<open>==\<close> on doubles, from their bits: no NaN is equal to anything, the two zeros are equal.\<close>

definition dbl_is_nan :: "double \<Rightarrow> bool" where
  "dbl_is_nan d \<longleftrightarrow> (drop_bit 52 d AND 0x7FF = 0x7FF) \<and> d AND 0xFFFFFFFFFFFFF \<noteq> 0"

definition dbl_eq :: "double \<Rightarrow> double \<Rightarrow> bool" where
  "dbl_eq a b \<longleftrightarrow>
     \<not> dbl_is_nan a \<and> \<not> dbl_is_nan b \<and> (a = b \<or> (push_bit 1 a = 0 \<and> push_bit 1 b = 0))"

fun eq_loc :: "loc_u \<Rightarrow> loc_u option \<Rightarrow> bool" where
  "eq_loc a None = False"   \<comment> \<open>\<open>loc1 == NULL\<close> for a location\<close>
| "eq_loc (L_REG a) (Some (L_REG b)) \<longleftrightarrow> a = b"
| "eq_loc (L_FPU_REG a) (Some (L_FPU_REG b)) \<longleftrightarrow> a = b"
| "eq_loc (L_DOUBLE a) (Some (L_DOUBLE b)) \<longleftrightarrow> dbl_eq a b"
| "eq_loc (L_INT a) (Some (L_INT b)) \<longleftrightarrow> a = b"
| "eq_loc (L_STACK a) (Some (L_STACK b)) \<longleftrightarrow> a = b"
| "eq_loc a (Some b) = False"

definition find_loc :: "loc_t list \<Rightarrow> loc_u \<Rightarrow> loc_t option" where
  "find_loc ls x = find (\<lambda>l. eq_loc (loc_u l) (Some x)) ls"

definition var_loc_count_tags :: "var_id \<Rightarrow> loc_tag_t \<Rightarrow> 'b gencode_st \<Rightarrow> nat" where
  "var_loc_count_tags v tag st = length (filter (\<lambda>l. tag_of l = tag) (var_loc st v))"

definition loc_empty :: "loc_t list \<Rightarrow> bool" where
  "loc_empty ls \<longleftrightarrow> (\<forall>l \<in> set ls. dirty l)"

definition loc_remove_loc :: "var_id \<Rightarrow> nat \<Rightarrow> 'b gencode_st \<Rightarrow> 'b gencode_st" where
  "loc_remove_loc v i st = set_locs v (filter (\<lambda>l. loc_id l \<noteq> i) (var_loc st v)) st"

text \<open>
  \<open>LOC_ERASE\<close> with the conditions of \<open>loc_erase_reg\<close>, \<open>loc_erase_fpu_reg\<close> and \<open>loc_erase_stack\<close>: the
  locations in the register or stack element \<open>x\<close> are removed, permanent ones are made dirty.
\<close>

fun erase_locs :: "loc_u \<Rightarrow> loc_t list \<Rightarrow> loc_t list" where
  "erase_locs x [] = []"
| "erase_locs x (l # ls) =
     (if loc_u l = x then
        if \<not> permanent l then erase_locs x ls else l\<lparr>dirty := True\<rparr> # erase_locs x ls
      else l # erase_locs x ls)"

definition loc_erase :: "var_id \<Rightarrow> loc_u \<Rightarrow> 'b gencode_st \<Rightarrow> 'b gencode_st" where
  "loc_erase v x st = set_locs v (erase_locs x (var_loc st v)) st"

definition clean :: "nat \<Rightarrow> 'b gencode_st \<Rightarrow> 'b gencode_st" where
  \<comment> \<open>\<open>loc->dirty = false\<close> for the location with the number \<open>i\<close>, wherever it is\<close>
  "clean i st = st\<lparr>var_loc := (\<lambda>v. map (\<lambda>l. if loc_id l = i then l\<lparr>dirty := False\<rparr> else l) (var_loc st v))\<rparr>"

text \<open>
  \<open>for (loc = var->loc; loc != NULL; loc = loc->next) f(loc)\<close> where \<open>f\<close> may change the list: the
  next location is read from the list after \<open>f\<close>, and reading from a location that has been freed
  stops.  The fuel is the length of the list at the start; locations are added at its head only.
\<close>

fun next_loc_in :: "nat \<Rightarrow> loc_t list \<Rightarrow> nat option option" where
  "next_loc_in i [] = None"
| "next_loc_in i (l # ls) =
     (if loc_id l = i then Some (case ls of [] \<Rightarrow> None | l' # _ \<Rightarrow> Some (loc_id l')) else next_loc_in i ls)"

fun for_locs ::
  "nat \<Rightarrow> (loc_t \<Rightarrow> 'b gencode_st \<Rightarrow> 'b gencode_st option) \<Rightarrow> var_id \<Rightarrow> nat option \<Rightarrow> 'b gencode_st \<Rightarrow> 'b gencode_st option"
where
  "for_locs n f v None st = Some st"
| "for_locs 0 f v (Some i) st = None"
| "for_locs (Suc n) f v (Some i) st = do {
     l \<leftarrow> find (\<lambda>l. loc_id l = i) (var_loc st v);
     st \<leftarrow> f l st;
     nx \<leftarrow> next_loc_in i (var_loc st v);
     for_locs n f v nx st
   }"

definition for_var_locs ::
  "(loc_t \<Rightarrow> 'b gencode_st \<Rightarrow> 'b gencode_st option) \<Rightarrow> var_id \<Rightarrow> 'b gencode_st \<Rightarrow> 'b gencode_st option"
where
  "for_var_locs f v st =
     for_locs (length (var_loc st v)) f v (case var_loc st v of [] \<Rightarrow> None | l # _ \<Rightarrow> Some (loc_id l)) st"

subsection \<open>The stack frame\<close>

definition se_find :: "se_id \<Rightarrow> 'b gencode_st \<Rightarrow> stack_elem_t option" where
  "se_find s st = find (\<lambda>e. se_id e = s) (stack st)"

definition upd_se :: "se_id \<Rightarrow> (stack_elem_t \<Rightarrow> stack_elem_t) \<Rightarrow> 'b gencode_st \<Rightarrow> 'b gencode_st" where
  "upd_se s f st = st\<lparr>stack := map (\<lambda>e. if se_id e = s then f e else e) (stack st)\<rparr>"

definition from_se :: "se_id \<Rightarrow> 'b gencode_st \<Rightarrow> stack_elem_t list" where
  \<comment> \<open>the elements from \<open>s\<close> on\<close>
  "from_se s st = dropWhile (\<lambda>e. se_id e \<noteq> s) (stack st)"

definition stack_erase :: "se_id \<Rightarrow> var_id \<Rightarrow> 'b gencode_op" where
  "stack_erase s v st = do {
     se \<leftarrow> se_find s st;
     vl \<leftarrow> vl_erase (se_vars se) v;
     let st = upd_se s (\<lambda>e. e\<lparr>se_vars := vl\<rparr>) st in
     if vl \<noteq> [] then Some st
     else
       (case first_stack_free st of
          None \<Rightarrow> Some (st\<lparr>first_stack_free := Some s\<rparr>)
        | Some f \<Rightarrow> do {
            fe \<leftarrow> se_find f st;
            Some (if se_offset fe > se_offset se then st\<lparr>first_stack_free := Some s\<rparr> else st)
          })
   }"

definition advance_free :: "se_id \<Rightarrow> 'b gencode_st \<Rightarrow> 'b gencode_st" where
  \<comment> \<open>the loop at the end of \<open>stack_insert_new\<close> and \<open>stack_insert\<close>\<close>
  "advance_free s st =
     (if first_stack_free st = Some s
      then st\<lparr>first_stack_free :=
        (case dropWhile (\<lambda>e. se_vars e \<noteq> []) (from_se s st) of [] \<Rightarrow> None | e # _ \<Rightarrow> Some (se_id e))\<rparr>
      else st)"

definition insert_se_after :: "se_id \<Rightarrow> stack_elem_t \<Rightarrow> stack_elem_t list \<Rightarrow> stack_elem_t list" where
  "insert_se_after s x es = takeWhile (\<lambda>e. se_id e \<noteq> s) es @
     (case dropWhile (\<lambda>e. se_id e \<noteq> s) es of [] \<Rightarrow> [] | e # es \<Rightarrow> e # x # es)"

definition grow_stack :: "'b backend_t \<Rightarrow> stack_elem_t \<Rightarrow> int \<Rightarrow> 'b gencode_op" where
  \<comment> \<open>the last element, the sentry, becomes an element of the size, with a new sentry after it\<close>
  "grow_stack B se vsize st = do {
     c_assert B (tl (from_se (se_id se) st) = []);
     c_assert B (se_vars se = []);
     let se2 = \<lparr>se_id = next_se st, se_vars = [], se_size = -1, se_offset = se_offset se + vsize\<rparr>;
         st = st\<lparr>stack_size := stack_size st + vsize,
                 max_stack_size := (if stack_size st + vsize > max_stack_size st then stack_size st + vsize
                                    else max_stack_size st),
                 stack := insert_se_after (se_id se) se2 (stack st), next_se := next_se st + 1\<rparr> in
     Some (upd_se (se_id se) (\<lambda>e. e\<lparr>se_size := vsize\<rparr>) st)
   }"

definition stack_insert_new :: "'b backend_t \<Rightarrow> var_id \<Rightarrow> 'b gencode_st \<Rightarrow> (se_id \<times> 'b gencode_st) option" where
  "stack_insert_new B v st = do {
     let vsize = size_of v st in do {
       f \<leftarrow> first_stack_free st;
       fe \<leftarrow> se_find f st;
       c_assert B (se_size fe \<le> vsize);
       c_assert B (se_vars fe = []);
       se \<leftarrow> find (\<lambda>e. \<not> ((se_size e < vsize \<or> se_vars e \<noteq> []) \<and> se_size e \<noteq> -1)) (from_se f st);
       st \<leftarrow> (if se_size se = -1 then grow_stack B se vsize st else Some st);
       let st = upd_se (se_id se) (\<lambda>e. e\<lparr>se_vars := [v]\<rparr>) st in
       Some (se_id se, advance_free (se_id se) st)
     }
   }"

definition stack_insert :: "'b backend_t \<Rightarrow> se_id \<Rightarrow> var_id \<Rightarrow> 'b gencode_st \<Rightarrow> (bool \<times> 'b gencode_st) option" where
  "stack_insert B s v st = do {
     se \<leftarrow> se_find s st;
     c_assert B (se_size se = size_of v st);
     (if vl_find (se_vars se) v then Some (False, st)
      else Some (True, advance_free s (upd_se s (\<lambda>e. e\<lparr>se_vars := v # se_vars e\<rparr>) st)))
   }"

fun insert_sorted_se :: "stack_elem_t \<Rightarrow> stack_elem_t list \<Rightarrow> stack_elem_t list" where
  \<comment> \<open>the loop of \<open>stack_param\<close>: after the last element with a smaller offset in a row\<close>
  "insert_sorted_se x [] = [x]"
| "insert_sorted_se x (e # es) = (if se_offset e < se_offset x then e # insert_sorted_se x es else x # e # es)"

definition stack_param :: "'b backend_t \<Rightarrow> var_id \<Rightarrow> int \<Rightarrow> 'b gencode_op" where
  "stack_param B v off st = do {
     check (stack st \<noteq> []);
     c_assert B (var_loc st v = []);
     let se2 = \<lparr>se_id = next_se st, se_vars = [v], se_size = size_of v st, se_offset = off\<rparr>;
         st = st\<lparr>stack := insert_sorted_se se2 (stack st), next_se := next_se st + 1\<rparr>;
         (l, st) = new_loc (L_STACK (se_id se2)) st in
     Some (set_locs v [l] st)
   }"

subsection \<open>Where variables are\<close>

definition loc_vars :: "loc_u \<Rightarrow> 'b gencode_st \<Rightarrow> var_id list option" where
  \<comment> \<open>the variables of a register or a stack element\<close>
  "loc_vars x st =
     (case x of
        L_STACK s \<Rightarrow> map_option se_vars (se_find s st)
      | L_REG r \<Rightarrow> reg_vars r LOC_REG st
      | L_FPU_REG r \<Rightarrow> reg_vars r LOC_FPU_REG st
      | _ \<Rightarrow> None)"

definition set_loc_vars :: "loc_u \<Rightarrow> var_id list \<Rightarrow> 'b gencode_st \<Rightarrow> 'b gencode_st" where
  "set_loc_vars x vl st =
     (case x of
        L_STACK s \<Rightarrow> upd_se s (\<lambda>e. e\<lparr>se_vars := vl\<rparr>) st
      | L_REG r \<Rightarrow> set_reg_vars r LOC_REG vl st
      | L_FPU_REG r \<Rightarrow> set_reg_vars r LOC_FPU_REG vl st
      | _ \<Rightarrow> st)"

definition loc_holds :: "loc_t \<Rightarrow> var_id \<Rightarrow> 'b gencode_st \<Rightarrow> bool" where
  "loc_holds l v st =
     (if loc_is_const l then True
      else (case loc_vars (loc_u l) st of None \<Rightarrow> False | Some vl \<Rightarrow> vl_find vl v))"

definition gencode_invariant :: "'b gencode_st \<Rightarrow> bool" where
  "gencode_invariant st \<longleftrightarrow>
     (\<forall>node \<in> set (vars_lst (quadr_func (quadrs st) ! gencode_cur_func st)).
       \<forall>v \<in> set (node_vars node). \<forall>l \<in> set (var_loc st v). loc_holds l v st)"

definition ref_num :: "loc_t \<Rightarrow> 'b gencode_st \<Rightarrow> nat option" where
  "ref_num l st =
     (if loc_is_const l then Some 1 else map_option (\<lambda>vl. vl_count_single vl st) (loc_vars (loc_u l) st))"

definition nearest_use_distance :: "var_id \<Rightarrow> 'b gencode_st \<Rightarrow> int option" where
  "nearest_use_distance v st =
     (let quadr = (case cur_quadr st of [] \<Rightarrow> [] | _ # qs \<Rightarrow> qs);
          dist = (if cur_quadr st = [] then 0 else 1) in
      map_option (\<lambda>d. sint (dist + d))
        (nearest_use_distance_from_quadr (gencode_cur_block st) quadr v (quadrs st)))"

definition first_of :: "(loc_t \<Rightarrow> bool) list \<Rightarrow> loc_t list \<Rightarrow> loc_t option" where
  \<comment> \<open>loops over the list one after the other, the first location of the list at the end\<close>
  "first_of ps ls =
     (case List.map_filter (\<lambda>p. find p ls) ps of
        l # _ \<Rightarrow> Some l
      | [] \<Rightarrow> (case ls of [] \<Rightarrow> None | l # _ \<Rightarrow> Some l))"

definition std_find_best_src_loc :: "var_id \<Rightarrow> 'b gencode_st \<Rightarrow> loc_t option" where
  "std_find_best_src_loc v st =
     first_of [\<lambda>l. \<not> dirty l \<and> loc_is_reg l, \<lambda>l. \<not> dirty l \<and> loc_is_const l, \<lambda>l. permanent l \<and> \<not> dirty l]
       (var_loc st v)"

definition std_find_best_dest_loc :: "var_id \<Rightarrow> 'b gencode_st \<Rightarrow> loc_t option" where
  "std_find_best_dest_loc v st =
     first_of [\<lambda>l. permanent l \<and> loc_is_reg l, \<lambda>l. loc_is_reg l, \<lambda>l. permanent l] (var_loc st v)"

end
