(* ===== verification/Regalloc.thy ===== *)
theory Regalloc
  imports Gencode
begin

text \<open>
  The middle of \<open>src/src/gencode.c\<close>: discarding, saving, copying and moving variables, and the
  register allocators.
\<close>

subsection \<open>Discarding\<close>

definition discard_const :: "var_id \<Rightarrow> 'b gencode_op" where
  \<comment> \<open>\<open>prev\<close> has no initial value: it is read when the first location is a constant\<close>
  "discard_const v st =
     (case var_loc st v of
        [] \<Rightarrow> Some st
      | l # ls \<Rightarrow> do {
          check (\<not> loc_is_const l);
          Some (set_locs v (filter (\<lambda>l. \<not> loc_is_const l) (var_loc st v)) st)
        })"

definition release_loc :: "'b backend_t \<Rightarrow> bool \<Rightarrow> var_id \<Rightarrow> loc_u \<Rightarrow> 'b gencode_op" where
  \<comment> \<open>the \<open>switch\<close> of \<open>discard_var0\<close> and \<open>discard_var_loc\<close>\<close>
  "release_loc B phys v x st =
     (case x of
        L_REG r \<Rightarrow> do {
          vl \<leftarrow> reg_vars r LOC_REG st;
          vl \<leftarrow> vl_erase vl v;
          Some (set_reg_vars r LOC_REG vl st)
        }
      | L_FPU_REG r \<Rightarrow> do {
          vl \<leftarrow> reg_vars r LOC_FPU_REG st;
          vl \<leftarrow> vl_erase vl v;
          let st = set_reg_vars r LOC_FPU_REG vl st in
          if vl = [] \<and> phys then fpu_reg_free B r st else Some st
        }
      | L_STACK s \<Rightarrow> stack_erase s v st
      | _ \<Rightarrow> Some st)"

fun discard_locs ::
  "'b backend_t \<Rightarrow> bool \<Rightarrow> var_id \<Rightarrow> loc_t list \<Rightarrow> loc_t list \<Rightarrow> 'b gencode_st \<Rightarrow> (loc_t list \<times> 'b gencode_st) option"
where
  \<comment> \<open>the loop of \<open>discard_var0\<close>; the accumulator is \<open>loc_lst\<close>, the permanent locations\<close>
  "discard_locs B phys v [] loc_lst st = Some (loc_lst, st)"
| "discard_locs B phys v (l # ls) loc_lst st =
     (if permanent l then discard_locs B phys v ls (l\<lparr>dirty := True\<rparr> # loc_lst) st
      else do {
        c_assert B (\<not> dirty l);
        st \<leftarrow> (if \<not> dirty l then release_loc B phys v (loc_u l) st else Some st);
        discard_locs B phys v ls loc_lst st
      })"

definition discard_var0 :: "'b backend_t \<Rightarrow> var_id \<Rightarrow> bool \<Rightarrow> 'b gencode_op" where
  "discard_var0 B v should_physically_free_fpu_regs st =
     (if var_loc st v = [] then Some st
      else do {
        (loc_lst, st) \<leftarrow> discard_locs B should_physically_free_fpu_regs v (var_loc st v) [] st;
        Some (set_locs v loc_lst st)
      })"

definition discard_var :: "'b backend_t \<Rightarrow> var_id \<Rightarrow> 'b gencode_op" where
  "discard_var B v st = discard_var0 B v True st"

fun discard_dead_vars :: "'b backend_t \<Rightarrow> var_id list \<Rightarrow> 'b gencode_op" where
  "discard_dead_vars B [] st = Some st"
| "discard_dead_vars B (v # vl) st = do {
     st \<leftarrow> (if \<not> is_live v st then discard_var B v st else Some st);
     discard_dead_vars B vl st
   }"

definition discard_var_loc :: "'b backend_t \<Rightarrow> var_id \<Rightarrow> loc_t \<Rightarrow> 'b gencode_op" where
  "discard_var_loc B v l st = do {
     c_assert B (\<not> permanent l);
     release_loc B True v (loc_u l) (loc_remove_loc v (loc_id l) st)
   }"

subsection \<open>Freeing a register\<close>

definition should_save_var :: "var_id \<Rightarrow> loc_u option \<Rightarrow> 'b gencode_st \<Rightarrow> bool" where
  "should_save_var v loc2 st \<longleftrightarrow>
     is_live v st \<and>
     \<not> (\<exists>l \<in> set (var_loc st v).
           \<not> dirty l \<and> \<not> eq_loc (loc_u l) loc2 \<and> loc_is_allowed (loc_u l) st = Some True)"

fun free_vl :: "'b backend_t \<Rightarrow> loc_u \<Rightarrow> loc_u option \<Rightarrow> var_id list \<Rightarrow> 'b gencode_op" where
  \<comment> \<open>\<open>FREE_VL\<close> for a register \<open>x\<close>, and the loop of \<open>flush_loc\<close>, which saves to any location but \<open>dloc\<close>\<close>
  "free_vl B x dloc [] st = Some st"
| "free_vl B x dloc (v # vl) st = do {
     st \<leftarrow> (if should_save_var v (Some x) st then map_option snd (again B v dloc st) else Some st);
     free_vl B x dloc vl (loc_erase v x st)
   }"

definition free_reg :: "'b backend_t \<Rightarrow> nat \<Rightarrow> 'b gencode_op" where
  "free_reg B r st = do {
     vl \<leftarrow> reg_vars r LOC_REG st;
     flag \<leftarrow> is_allowed r LOC_REG st;
     st \<leftarrow> (if flag then deny_reg B r LOC_REG st else Some st);
     st \<leftarrow> free_vl B (L_REG r) None vl st;
     let st = set_reg_vars r LOC_REG [] st in
     if flag then allow_reg B r LOC_REG st else Some st
   }"

definition free_fpu_reg :: "'b backend_t \<Rightarrow> nat \<Rightarrow> bool \<Rightarrow> 'b gencode_op" where
  "free_fpu_reg B r physical_free st = do {
     vl \<leftarrow> reg_vars r LOC_FPU_REG st;
     flag \<leftarrow> is_allowed r LOC_FPU_REG st;
     (if vl = [] then Some st
      else do {
        st \<leftarrow> (if flag then deny_reg B r LOC_FPU_REG st else Some st);
        st \<leftarrow> free_vl B (L_FPU_REG r) None vl st;
        let st = set_reg_vars r LOC_FPU_REG [] st in do {
          st \<leftarrow> (if flag then allow_reg B r LOC_FPU_REG st else Some st);
          (if physical_free then fpu_reg_free B r st else Some st)
        }
      })
   }"

definition flush_loc :: "'b backend_t \<Rightarrow> loc_u \<Rightarrow> 'b gencode_op" where
  "flush_loc B x st =
     (case x of
        L_STACK s \<Rightarrow> do {
          vl \<leftarrow> loc_vars x st;
          st \<leftarrow> free_vl B x (Some x) vl st;
          Some (set_loc_vars x [] st)
        }
      | L_REG r \<Rightarrow> free_reg B r st
      | L_FPU_REG r \<Rightarrow> free_fpu_reg B r False st
      | _ \<Rightarrow> None)"

subsection \<open>Saving\<close>

definition update_var_loc :: "'b backend_t \<Rightarrow> var_id \<Rightarrow> loc_t \<Rightarrow> 'b gencode_st \<Rightarrow> (bool \<times> 'b gencode_st) option" where
  "update_var_loc B v l st = do {
     (updated, st) \<leftarrow>
       (case loc_u l of
          L_STACK s \<Rightarrow> stack_insert B s v st
        | L_REG r \<Rightarrow> do {
            vl \<leftarrow> reg_vars r LOC_REG st;
            let (b, vl) = vl_insert_if_absent vl v in
            Some (b, set_reg_vars r LOC_REG vl st)
          }
        | L_FPU_REG r \<Rightarrow> do {
            vl \<leftarrow> reg_vars r LOC_FPU_REG st;
            let (b, vl) = vl_insert_if_absent vl v in
            Some (b, set_reg_vars r LOC_FPU_REG vl st)
          }
        | _ \<Rightarrow> Some (True, st));
     st \<leftarrow>
       (if \<not> updated then Some st
        else if permanent l then Some (clean (loc_id l) st)
        else
          (case find_loc (var_loc st v) (loc_u l) of
             Some loc2 \<Rightarrow> do {
               c_assert B (permanent loc2);
               c_assert B (dirty loc2);
               Some (clean (loc_id loc2) st)
             }
           | None \<Rightarrow> let (loc2, st) = copy_loc_shallow l st in Some (add_loc v loc2 st)));
     c_assert B (find_loc (var_loc st v) (loc_u l) \<noteq> None);
     Some (updated, st)
   }"

definition gen_mov_var :: "'b backend_t \<Rightarrow> loc_t \<Rightarrow> var_id \<Rightarrow> 'b gencode_op" where
  "gen_mov_var B l v st = (if suppress_mov st then Some st else gen_mov B l v st)"

definition save_var_to_loc :: "'b backend_t \<Rightarrow> var_id \<Rightarrow> loc_t \<Rightarrow> 'b gencode_op" where
  "save_var_to_loc B v l st = do {
     c_assert B (var_loc st v \<noteq> [] \<or> suppress_mov st);
     found \<leftarrow> (if loc_is_const l then Some True else map_option (\<lambda>vl. vl_find vl v) (loc_vars (loc_u l) st));
     (if found then Some st
      else do {
        st \<leftarrow> flush_loc B (loc_u l) st;
        (if find_loc (var_loc st v) (loc_u l) = None then do {
           st \<leftarrow> gen_mov_var B l v st;
           map_option snd (update_var_loc B v l st)
         }
         else Some st)
      })
   }"

definition update_permanent_locations :: "'b backend_t \<Rightarrow> var_id \<Rightarrow> 'b gencode_op" where
  "update_permanent_locations B v st =
     for_var_locs (\<lambda>l st.
       if permanent l \<and> dirty l then do {
         st \<leftarrow> save_var_to_loc B v l st;
         Some (clean (loc_id l) st)
       }
       else Some st) v st"

definition alloc_reg :: "'b backend_t \<Rightarrow> loc_tag_t \<Rightarrow> 'b gencode_st \<Rightarrow> (loc_t \<times> 'b gencode_st) option" where
  "alloc_reg B tag st =
     (if tag = LOC_REG then do {
        (r, st) \<leftarrow> back_alloc_reg B (reg_num B) LOC_REG st;
        Some (new_loc (L_REG r) st)
      }
      else do {
        c_assert B (tag = LOC_FPU_REG);
        (r, st) \<leftarrow> back_alloc_fpu_reg B (fpu_reg_num B) LOC_FPU_REG st;
        Some (new_loc (L_FPU_REG r) st)
      })"

definition save_to_permanent :: "'b backend_t \<Rightarrow> var_id \<Rightarrow> loc_t \<Rightarrow> 'b gencode_st \<Rightarrow> (loc_t option \<times> 'b gencode_st) option" where
  "save_to_permanent B v l st = do {
     st \<leftarrow> (if dirty l then save_var_to_loc B v l st else Some st);
     Some (Some l, st)
   }"

definition new_stack_loc :: "'b backend_t \<Rightarrow> var_id \<Rightarrow> 'b gencode_st \<Rightarrow> (loc_t \<times> 'b gencode_st) option" where
  \<comment> \<open>the move to a new element of the stack, in \<open>save_var_not_to_loc\<close> and \<open>move_to_loc\<close>\<close>
  "new_stack_loc B v st = do {
     (s, st) \<leftarrow> stack_insert_new B v st;
     let (l, st) = new_loc (L_STACK s) st in do {
       st \<leftarrow> gen_mov_var B l v st;
       Some (l, add_loc v l st)
     }
   }"

definition save_to_mem ::
  "'b backend_t \<Rightarrow> var_id \<Rightarrow> loc_u option \<Rightarrow> 'b gencode_st \<Rightarrow> (loc_t option \<times> 'b gencode_st) option"
where
  "save_to_mem B v dloc st =
     (case find (\<lambda>l. permanent l \<and> \<not> eq_loc (loc_u l) dloc) (var_loc st v) of
        Some l \<Rightarrow> save_to_permanent B v l st
      | None \<Rightarrow>
          (case find (\<lambda>l. tag_of l = LOC_STACK \<and> \<not> eq_loc (loc_u l) dloc) (var_loc st v) of
             Some l \<Rightarrow> Some (Some l, st)
           | None \<Rightarrow> do {
               (l, st) \<leftarrow> new_stack_loc B v st;
               Some (Some l, st)
             }))"

definition sensible :: "'b backend_t \<Rightarrow> var_id \<Rightarrow> 'b gencode_st \<Rightarrow> bool option" where
  \<comment> \<open>is a register free, and the next use near enough\<close>
  "sensible B v st = do {
     n \<leftarrow> available_regs_num B (reg_type v st) st;
     nu \<leftarrow> nearest_use_distance v st;
     Some (n > 0 \<and> nu \<le> 4 + int (n * n div 2))
   }"

definition save_var_not_to_loc ::
  "'b backend_t \<Rightarrow> var_id \<Rightarrow> loc_u option \<Rightarrow> 'b gencode_st \<Rightarrow> (loc_t option \<times> 'b gencode_st) option"
where
  "save_var_not_to_loc B v dloc st = do {
     c_assert B (var_loc st v \<noteq> [] \<or> suppress_mov st);
     let tag = reg_type v st in
     (case find (\<lambda>l. permanent l \<and> tag_of l = tag \<and> loc_is_allowed (loc_u l) st = Some True \<and>
                     \<not> eq_loc (loc_u l) dloc) (var_loc st v) of
        Some l \<Rightarrow> save_to_permanent B v l st
      | None \<Rightarrow> do {
          to_reg \<leftarrow> (if tag \<noteq> LOC_FPU_REG \<or> \<not> fpu_stack B then sensible B v st else Some False);
          (if to_reg then do {
             (l, st) \<leftarrow> alloc_reg B tag st;
             st \<leftarrow> save_var_to_loc B v l st;
             Some (find_loc (var_loc st v) (loc_u l), st)
           }
           else save_to_mem B v dloc st)
        })
   }"

definition save_var :: "'b backend_t \<Rightarrow> var_id \<Rightarrow> 'b gencode_op" where
  "save_var B v st = map_option snd (save_var_not_to_loc B v None st)"

definition copy_to_var :: "'b backend_t \<Rightarrow> var_id \<Rightarrow> quadr_arg_t \<Rightarrow> 'b gencode_op" where
  "copy_to_var B v arg st = do {
     st \<leftarrow> discard_var B v st;
     (case arg of
        QA_VAR w \<Rightarrow> for_var_locs (\<lambda>l st. map_option snd (update_var_loc B v l st)) w st
      | QA_INT i \<Rightarrow> let (l, st) = new_loc (L_INT i) st in Some (add_loc v l st)
      | QA_DOUBLE d \<Rightarrow> let (l, st) = new_loc (L_DOUBLE d) st in Some (add_loc v l st)
      | _ \<Rightarrow> None)
   }"

subsection \<open>A stack of floating point registers\<close>

fun turn_vars :: "'b backend_t \<Rightarrow> (nat \<Rightarrow> nat) \<Rightarrow> var_id list \<Rightarrow> 'b gencode_op" where
  \<comment> \<open>a negative size marks the variables that have been visited\<close>
  "turn_vars B f [] st = Some st"
| "turn_vars B f (v # vl) st = do {
     c_assert B (size_of v st \<noteq> 0);
     turn_vars B f vl
       (if size_of v st > 0
        then set_size v (- size_of v st)
          (set_locs v (map (\<lambda>l. case loc_u l of L_FPU_REG r \<Rightarrow> l\<lparr>loc_u := L_FPU_REG (f r)\<rparr> | _ \<Rightarrow> l) (var_loc st v)) st)
        else st)
   }"

fun reset_sizes :: "'b backend_t \<Rightarrow> var_id list \<Rightarrow> 'b gencode_op" where
  "reset_sizes B [] st = Some st"
| "reset_sizes B (v # vl) st = do {
     c_assert B (size_of v st < 0);
     reset_sizes B vl (set_size v (- size_of v st) st)
   }"

definition rol_fpu_regs :: "'b backend_t \<Rightarrow> 'b gencode_op" where
  "rol_fpu_regs B st = do {
     let n = fpu_reg_num B in do {
       check (0 < n \<and> n \<le> length (fpu_regs st));
       let st = st\<lparr>fpu_regs := tl (take n (fpu_regs st)) @ [hd (fpu_regs st)] @ drop n (fpu_regs st)\<rparr>;
           vl = concat (take n (fpu_regs st)) in do {
         st \<leftarrow> turn_vars B (\<lambda>r. if r = 0 then n - 1 else r - 1) vl st;
         reset_sizes B vl st
       }
     }
   }"

definition ror_fpu_regs :: "'b backend_t \<Rightarrow> 'b gencode_op" where
  "ror_fpu_regs B st = do {
     let n = fpu_reg_num B in do {
       check (0 < n \<and> n \<le> length (fpu_regs st));
       let st = st\<lparr>fpu_regs := (fpu_regs st ! (n - 1)) # take (n - 1) (fpu_regs st) @ drop n (fpu_regs st)\<rparr>;
           vl = concat (take n (fpu_regs st)) in do {
         st \<leftarrow> turn_vars B (\<lambda>r. if r + 1 = n then 0 else r + 1) vl st;
         reset_sizes B vl st
       }
     }
   }"

definition fpu_load :: "'b backend_t \<Rightarrow> var_id \<Rightarrow> 'b gencode_op" where
  "fpu_load B v st = do {
     c_assert B (fpu_stack B);
     let max_reg = fpu_reg_num B - 1 in do {
       fr \<leftarrow> is_free max_reg LOC_FPU_REG st;
       st \<leftarrow>
         (if fr then Some st
          else do {
            (l, st) \<leftarrow> alloc_reg B LOC_FPU_REG st;
            c_assert B (loc_u l = L_FPU_REG max_reg);
            Some st
          });
       st \<leftarrow> gen_fpu_load B v st;
       st \<leftarrow> ror_fpu_regs B st;
       map_option snd (update_var_loc B v (init_loc (L_FPU_REG 0)) st)
     }
   }"

fun update_all :: "'b backend_t \<Rightarrow> var_id list \<Rightarrow> loc_t \<Rightarrow> 'b gencode_op" where
  "update_all B [] l st = Some st"
| "update_all B (v # vl) l st = do {
     (b, st) \<leftarrow> update_var_loc B v l st;
     update_all B vl l st
   }"

definition fpu_store :: "'b backend_t \<Rightarrow> loc_t \<Rightarrow> 'b gencode_op" where
  "fpu_store B l st = do {
     c_assert B (fpu_stack B);
     st \<leftarrow> flush_loc B (loc_u l) st;
     vl \<leftarrow> reg_vars 0 LOC_FPU_REG st;
     st \<leftarrow> update_all B vl l st;
     gen_fpu_store B l st
   }"

definition fpu_pop :: "'b backend_t \<Rightarrow> 'b gencode_op" where
  "fpu_pop B st = do {
     c_assert B (fpu_stack B);
     was_free \<leftarrow> is_free 0 LOC_FPU_REG st;
     st \<leftarrow> free_fpu_reg B 0 False st;
     st \<leftarrow> rol_fpu_regs B st;
     gen_fpu_pop B was_free st
   }"

fun pop_times :: "'b backend_t \<Rightarrow> nat \<Rightarrow> 'b gencode_op" where
  "pop_times B 0 st = Some st"
| "pop_times B (Suc n) st = do { st \<leftarrow> fpu_pop B st; pop_times B n st }"

definition free_all_fpu_regs :: "'b backend_t \<Rightarrow> 'b gencode_op" where
  "free_all_fpu_regs B st = do {
     st \<leftarrow> deny_all B LOC_FPU_REG st;
     check (fpu_reg_num B \<le> length (fpu_regs st));
     let n = (case rev (filter (\<lambda>i. fpu_regs st ! i \<noteq> []) [0..<fpu_reg_num B]) of [] \<Rightarrow> 0 | i # _ \<Rightarrow> i + 1) in do {
       st \<leftarrow> pop_times B n st;
       allow_all B LOC_FPU_REG st
     }
   }"

fun free_each :: "'b backend_t \<Rightarrow> loc_tag_t \<Rightarrow> nat list \<Rightarrow> 'b gencode_op" where
  "free_each B tag [] st = Some st"
| "free_each B tag (i # is) st = do {
     st \<leftarrow> (if tag = LOC_REG then free_reg B i st else free_fpu_reg B i True st);
     free_each B tag is st
   }"

definition do_free_all :: "'b backend_t \<Rightarrow> nat \<Rightarrow> loc_tag_t \<Rightarrow> 'b gencode_op" where
  "do_free_all B regs_num tag st = do {
     st \<leftarrow> deny_all B tag st;
     st \<leftarrow> free_each B tag [0..<regs_num] st;
     allow_all B tag st
   }"

definition free_all :: "'b backend_t \<Rightarrow> loc_tag_t \<Rightarrow> 'b gencode_op" where
  "free_all B tag st =
     (if tag = LOC_REG then do_free_all B (reg_num B) tag st
      else do {
        c_assert B (tag = LOC_FPU_REG);
        (if fpu_stack B then free_all_fpu_regs B st else do_free_all B (fpu_reg_num B) tag st)
      })"

subsection \<open>Swapping\<close>

definition replace_locs :: "loc_u \<Rightarrow> loc_u \<Rightarrow> loc_t list \<Rightarrow> loc_t list" where
  \<comment> \<open>the location that is freed is the one that \<open>copy_loc_shallow\<close> gets from the pool\<close>
  "replace_locs x y ls =
     map (\<lambda>l. if eq_loc (loc_u l) (Some x) then l\<lparr>loc_u := y, permanent := False, dirty := False\<rparr> else l) ls"

fun replace_in_vars :: "loc_u \<Rightarrow> loc_u \<Rightarrow> var_id list \<Rightarrow> 'b gencode_st \<Rightarrow> 'b gencode_st" where
  "replace_in_vars x y [] st = st"
| "replace_in_vars x y (v # vl) st = replace_in_vars x y vl (set_locs v (replace_locs x y (var_loc st v)) st)"

definition swap_loc :: "'b backend_t \<Rightarrow> loc_t \<Rightarrow> loc_t \<Rightarrow> 'b gencode_op" where
  "swap_loc B l1 l2 st = do {
     vl1 \<leftarrow> loc_vars (loc_u l1) st;
     vl2 \<leftarrow> loc_vars (loc_u l2) st;
     let st = replace_in_vars (loc_u l1) (loc_u l2) vl1 st;
         st = replace_in_vars (loc_u l2) (loc_u l1) vl2 st;
         st = set_loc_vars (loc_u l2) vl1 (set_loc_vars (loc_u l1) vl2 st) in
     gen_swap B l1 l2 st
   }"

definition swap_fpu_regs :: "'b backend_t \<Rightarrow> nat \<Rightarrow> nat \<Rightarrow> 'b gencode_op" where
  "swap_fpu_regs B r1 r2 st = swap_loc B (init_loc (L_FPU_REG r1)) (init_loc (L_FPU_REG r2)) st"

subsection \<open>A location of its own\<close>

fun free_vl_cond :: "'b backend_t \<Rightarrow> var_id \<Rightarrow> loc_u \<Rightarrow> loc_u \<Rightarrow> var_id list \<Rightarrow> 'b gencode_op" where
  \<comment> \<open>\<open>FREE_VL_COND\<close> with the condition \<open>vl->var != var\<close>; \<open>sx\<close> is \<open>sloc\<close>\<close>
  "free_vl_cond B v x sx [] st = Some st"
| "free_vl_cond B v x sx (w # vl) st =
     (if w \<noteq> v then do {
        st \<leftarrow> (if should_save_var w (Some sx) st then map_option snd (again B w None st) else Some st);
        let st = loc_erase w x st in do {
          cur \<leftarrow> loc_vars x st;
          free_vl_cond B v x sx vl (set_loc_vars x (vl_erase_loop cur w) st)
        }
      }
      else free_vl_cond B v x sx vl st)"

definition fill_sloc :: "'b backend_t \<Rightarrow> loc_u \<Rightarrow> loc_u" where
  \<comment> \<open>\<open>FILL_SLOC\<close>: the cases fall through, a pointer is overwritten with its value as an \<open>int\<close>\<close>
  "fill_sloc B x = (case x of L_STACK s \<Rightarrow> L_STACK (int_cast B s) | _ \<Rightarrow> x)"

definition ensure_unique_for_var :: "'b backend_t \<Rightarrow> var_id \<Rightarrow> loc_t \<Rightarrow> 'b gencode_op" where
  "ensure_unique_for_var B v l st = do {
     c_assert B (find_loc (var_loc st v) (loc_u l) \<noteq> None);
     let st = set_locs v [l] st; x = loc_u l in
     if loc_is_const l then Some st
     else do {
       vl \<leftarrow> loc_vars x st;
       st \<leftarrow> free_vl_cond B v x (fill_sloc B x) vl st;
       Some (set_loc_vars x [v] st)
     }
   }"

definition loc_refs :: "loc_t \<Rightarrow> 'b gencode_st \<Rightarrow> nat option" where
  "loc_refs l st = (if loc_is_const l then Some 1 else map_option var_list_len (loc_vars (loc_u l) st))"

fun min_loc :: "loc_t list \<Rightarrow> nat \<Rightarrow> loc_t option \<Rightarrow> 'b gencode_st \<Rightarrow> (nat \<times> loc_t option) option" where
  \<comment> \<open>the second loop of \<open>ensure_unique\<close>, which a constant ends\<close>
  "min_loc [] min_refs m st = Some (min_refs, m)"
| "min_loc (l # ls) min_refs m st =
     (if loc_is_const l then Some (1, Some l)
      else do {
        refs \<leftarrow> loc_refs l st;
        better \<leftarrow> (if refs < min_refs then Some True
                   else if refs = min_refs then map_option (\<lambda>m. tag_of m = LOC_STACK) m
                   else Some False);
        (if better then min_loc ls refs (Some l) st else min_loc ls min_refs m st)
      })"

fun drop_shared :: "'b backend_t \<Rightarrow> var_id \<Rightarrow> loc_t list \<Rightarrow> 'b gencode_op" where
  \<comment> \<open>the third loop of \<open>ensure_unique\<close>\<close>
  "drop_shared B v [] st = Some st"
| "drop_shared B v (l # ls) st = do {
     refs \<leftarrow> loc_refs l st;
     st \<leftarrow> (if refs > 1 then discard_var_loc B v l (loc_remove_loc v (loc_id l) st) else Some st);
     drop_shared B v ls st
   }"

definition ensure_unique_permanent :: "'b backend_t \<Rightarrow> var_id \<Rightarrow> loc_t \<Rightarrow> 'b gencode_op" where
  "ensure_unique_permanent B v l st =
     (if permanent l then do {
        st \<leftarrow> (if dirty l then save_var_to_loc B v l st else Some st);
        l \<leftarrow> find (\<lambda>l'. loc_id l' = loc_id l) (var_loc st v);
        ensure_unique_for_var B v l st
      }
      else Some st)"

definition ensure_unique :: "'b backend_t \<Rightarrow> var_id \<Rightarrow> 'b gencode_op" where
  "ensure_unique B v st = do {
     st \<leftarrow> for_var_locs (ensure_unique_permanent B v) v st;
     (min_refs, m) \<leftarrow> min_loc (var_loc st v) 10000 None st;
     l \<leftarrow> m;
     (if min_refs = 1 then drop_shared B v (var_loc st v) st else ensure_unique_for_var B v l st)
   }"

subsection \<open>Moving\<close>

definition move_to_loc :: "'b backend_t \<Rightarrow> var_id \<Rightarrow> loc_tag_t \<Rightarrow> 'b gencode_op" where
  "move_to_loc B v tag st = do {
     c_assert B (var_loc st v \<noteq> [] \<or> suppress_mov st);
     (if (\<exists>l \<in> set (var_loc st v). tag_of l = tag \<and> \<not> dirty l) then Some st
      else
        (case find (\<lambda>l. tag_of l = tag \<and> permanent l) (var_loc st v) of
           Some l \<Rightarrow> save_var_to_loc B v l st
         | None \<Rightarrow>
             if tag = LOC_STACK then map_option snd (new_stack_loc B v st)
             else if fpu_stack B \<and> tag = LOC_FPU_REG then fpu_load B v st
             else if tag = LOC_REG \<or> tag = LOC_FPU_REG then do {
               (l, st) \<leftarrow> alloc_reg B tag st;
               save_var_to_loc B v l st
             }
             else None))
   }"

definition move_to_reg :: "'b backend_t \<Rightarrow> var_id \<Rightarrow> 'b gencode_op" where
  "move_to_reg B v st = move_to_loc B v (reg_type v st) st"

definition move_to_mem :: "'b backend_t \<Rightarrow> var_id \<Rightarrow> 'b gencode_op" where
  "move_to_mem B v st = move_to_loc B v LOC_STACK st"

definition move_to_reg_if_sensible :: "'b backend_t \<Rightarrow> var_id \<Rightarrow> 'b gencode_op" where
  "move_to_reg_if_sensible B v st =
     (let tag = reg_type v st in
      if \<not> is_live v st \<or> var_loc_count_tags v tag st > 0 \<or> var_loc_count_tags v LOC_INT st > 0 \<or>
         var_loc_count_tags v LOC_DOUBLE st > 0
      then Some st
      else if tag = LOC_FPU_REG \<and> fpu_stack B then Some st
      else do {
        b \<leftarrow> sensible B v st;
        (if b then move_to_reg B v st else Some st)
      })"

subsection \<open>Register allocators\<close>

definition find_free_reg :: "nat \<Rightarrow> loc_tag_t \<Rightarrow> 'b gencode_st \<Rightarrow> nat option" where
  "find_free_reg regs_num tag st =
     find (\<lambda>i. reg_vars i tag st = Some [] \<and> is_allowed i tag st = Some True) [0..<regs_num]"

fun spill_refs :: "'b backend_t \<Rightarrow> quadr_t \<Rightarrow> loc_tag_t \<Rightarrow> var_id list \<Rightarrow> nat \<Rightarrow> 'b gencode_st \<Rightarrow> (nat \<times> bool) option" where
  \<comment> \<open>the inner loop of the first loop of \<open>do_bellady_ra\<close>: \<open>refs\<close> and \<open>for_next\<close>\<close>
  "spill_refs B q tag [] refs st = Some (refs, False)"
| "spill_refs B q tag (v # vl) refs st = do {
     let cnt = var_loc_count_tags v tag st in do {
       c_assert B (cnt \<ge> 1);
       (if used_in_quadr q v \<and> cnt = 1 then Some (refs, True)
        else do {
          n \<leftarrow>
            (if cnt = 1 then do {
               l \<leftarrow> (case var_loc st v of [] \<Rightarrow> None | l # _ \<Rightarrow> Some l);
               r \<leftarrow> ref_num l st;
               Some (if r > 1 then 1 else 2)
             }
             else Some 0);
          spill_refs B q tag vl (refs + n) st
        })
     }
   }"

fun min_spill :: "'b backend_t \<Rightarrow> loc_tag_t \<Rightarrow> nat list \<Rightarrow> nat \<Rightarrow> 'b gencode_st \<Rightarrow> nat option" where
  "min_spill B tag [] min_refs st = Some min_refs"
| "min_spill B tag (i # is) min_refs st = do {
     allowed \<leftarrow> is_allowed i tag st;
     (if \<not> allowed then min_spill B tag is min_refs st
      else do {
        vl \<leftarrow> reg_vars i tag st;
        check (vl \<noteq> []);
        q \<leftarrow> (case cur_quadr st of [] \<Rightarrow> None | q # _ \<Rightarrow> Some q);
        (refs, for_next) \<leftarrow> spill_refs B q tag vl 0 st;
        min_spill B tag is (if \<not> for_next \<and> refs < min_refs then refs else min_refs) st
      })
   }"

fun sum_use_dist :: "loc_tag_t \<Rightarrow> var_id list \<Rightarrow> int \<Rightarrow> int \<Rightarrow> 'b gencode_st \<Rightarrow> (int \<times> int) option" where
  "sum_use_dist tag [] nud cnt st = Some (nud, cnt)"
| "sum_use_dist tag (v # vl) nud cnt st =
     (if var_loc_count_tags v tag st = 1 then do {
        d \<leftarrow> nearest_use_distance v st;
        sum_use_dist tag vl (nud + d) (cnt + 1) st
      }
      else sum_use_dist tag vl nud cnt st)"

text \<open>\<open>best\<close> is the fraction \<open>num / den\<close>: the quotients of the code are compared exactly.\<close>

fun best_spill :: "loc_tag_t \<Rightarrow> nat list \<Rightarrow> int \<Rightarrow> int \<Rightarrow> nat option \<Rightarrow> 'b gencode_st \<Rightarrow> nat option option" where
  "best_spill tag [] num den best_i st = Some best_i"
| "best_spill tag (i # is) num den best_i st = do {
     allowed \<leftarrow> is_allowed i tag st;
     (if \<not> allowed then best_spill tag is num den best_i st
      else do {
        vl \<leftarrow> reg_vars i tag st;
        check (vl \<noteq> []);
        (nud, cnt) \<leftarrow> sum_use_dist tag vl 0 0 st;
        (if cnt \<noteq> 0 then
           (if nud * den > num * cnt then best_spill tag is nud cnt (Some i) st
            else best_spill tag is num den best_i st)
         else Some (Some i))
      })
   }"

definition do_bellady_ra :: "'b backend_t \<Rightarrow> nat \<Rightarrow> loc_tag_t \<Rightarrow> 'b gencode_st \<Rightarrow> nat option" where
  "do_bellady_ra B regs_num tag st =
     (case find_free_reg regs_num tag st of
        Some r \<Rightarrow> Some r
      | None \<Rightarrow> do {
          min_refs \<leftarrow> min_spill B tag [0..<regs_num] 100000 st;
          c_assert B (min_refs < 100000);
          best_i \<leftarrow> best_spill tag [0..<regs_num] (-1) 1 None st;
          c_assert B False;   \<comment> \<open>\<open>best_i > -1\<close> compares unsigned numbers, and -1 is the largest one\<close>
          best_i
        })"

definition bellady_ra :: "'b backend_t \<Rightarrow> nat \<Rightarrow> loc_tag_t \<Rightarrow> 'b gencode_st \<Rightarrow> (nat \<times> 'b gencode_st) option" where
  "bellady_ra B regs_num tag st = do {
     r \<leftarrow> do_bellady_ra B regs_num tag st;
     st \<leftarrow> (if tag = LOC_REG then free_reg B r st else free_fpu_reg B r True st);
     Some (r, st)
   }"

definition stack_ra :: "'b backend_t \<Rightarrow> nat \<Rightarrow> loc_tag_t \<Rightarrow> 'b gencode_st \<Rightarrow> (nat \<times> 'b gencode_st) option" where
  "stack_ra B regs_num tag st = do {
     let max_reg = regs_num - 1 in do {
       c_assert B (tag = LOC_FPU_REG);
       fr \<leftarrow> is_free max_reg LOC_FPU_REG st;
       (if fr then Some (max_reg, st)
        else do {
          r \<leftarrow> do_bellady_ra B regs_num tag st;
          st \<leftarrow>
            (if r \<noteq> max_reg then do {
               st \<leftarrow> free_fpu_reg B r False st;
               st \<leftarrow> fpu_store B (init_loc (L_FPU_REG r)) st;
               fpu_pop B st
             }
             else free_fpu_reg B r True st);
          Some (max_reg, st)
        })
     }
   }"

end
