(* ===== verification/Alloc_Inv.thy ===== *)
theory Alloc_Inv
  imports Regalloc
begin

text \<open>
  The invariant of the location lists, the registers and the stack frame, and what an operation that
  saves, frees or allocates must leave alone.

  \<open>alloc_inv\<close> is \<open>gencode_invariant\<close> for every variable, together with the layout of the frame:
  the elements lie one after the other and the sentry is last.  \<open>frame X\<close> relates the states
  before and after: the variables of a denied register and of an occupied stack element stay, and
  no variable gets a location there (except for the locations in \<open>X\<close>); no live variable loses its
  last location.
\<close>

subsection \<open>The invariant\<close>

definition has_loc :: "'b gencode_st \<Rightarrow> var_id \<Rightarrow> loc_u \<Rightarrow> bool" where
  "has_loc st v x \<longleftrightarrow> (\<exists>l \<in> set (var_loc st v). loc_u l = x)"

definition stack_ok :: "stack_elem_t list \<Rightarrow> se_id \<Rightarrow> bool" where
  "stack_ok es n \<longleftrightarrow>
     es \<noteq> [] \<and> se_size (last es) = -1 \<and> se_vars (last es) = [] \<and>
     (\<forall>e \<in> set (butlast es). 0 < se_size e) \<and>
     sorted_wrt (\<lambda>a b. se_offset a + se_size a \<le> se_offset b) es \<and>
     distinct (map se_id es) \<and> (\<forall>e \<in> set es. se_id e < n)"

definition alloc_inv :: "'b gencode_st \<Rightarrow> bool" where
  "alloc_inv st \<longleftrightarrow>
     \<not> suppress_mov st \<and> stack_ok (stack st) (next_se st) \<and>
     (\<forall>v. \<forall>l \<in> set (var_loc st v). loc_holds l v st \<and> \<not> dirty l \<and> (permanent l \<longrightarrow> tag_of l = LOC_STACK)) \<and>
     (\<forall>v. var_loc st v \<noteq> [] \<longrightarrow> 0 < size_of v st)"

lemma alloc_inv_gencode: "alloc_inv st \<Longrightarrow> gencode_invariant st"
  by (simp add: alloc_inv_def gencode_invariant_def)

subsection \<open>What is left alone\<close>

definition fixed :: "'b gencode_st \<Rightarrow> _" where
  "fixed st = (quadrs st, vd_loc st, cur_quadr st, gencode_cur_block st, gencode_cur_func st,
     blacklist_reg st, blacklist_fpu_reg st, suppress_mov st, live_vars_saved st, var_lst st)"

definition protected :: "loc_u \<Rightarrow> 'b gencode_st \<Rightarrow> bool" where
  "protected x st \<longleftrightarrow>
     (case x of
        L_STACK s \<Rightarrow> (\<exists>v vl. loc_vars x st = Some (v # vl))
      | L_REG r \<Rightarrow> r < length (blacklist_reg st) \<and> blacklist_reg st ! r
      | L_FPU_REG r \<Rightarrow> r < length (blacklist_fpu_reg st) \<and> blacklist_fpu_reg st ! r
      | _ \<Rightarrow> False)"

definition offsets_kept :: "'b gencode_st \<Rightarrow> 'b gencode_st \<Rightarrow> bool" where
  "offsets_kept st st' \<longleftrightarrow>
     (\<forall>s e. se_find s st = Some e \<longrightarrow> (\<exists>e'. se_find s st' = Some e' \<and> se_offset e' = se_offset e))"

definition frame :: "loc_u set \<Rightarrow> 'b gencode_st \<Rightarrow> 'b gencode_st \<Rightarrow> bool" where
  "frame X st st' \<longleftrightarrow>
     fixed st' = fixed st \<and> offsets_kept st st' \<and>
     (\<forall>x. x \<notin> X \<longrightarrow> protected x st \<longrightarrow>
        loc_vars x st' = loc_vars x st \<and> (\<forall>v. has_loc st' v x \<longrightarrow> has_loc st v x)) \<and>
     (\<forall>v. is_live v st \<and> var_loc st v \<noteq> [] \<longrightarrow> var_loc st' v \<noteq> [])"

lemma frame_refl: "frame X st st"
  by (simp add: frame_def offsets_kept_def)

lemma frame_fixed:
  assumes "frame X st st'"
  shows "quadrs st' = quadrs st" "vd_loc st' = vd_loc st" "cur_quadr st' = cur_quadr st"
    "gencode_cur_block st' = gencode_cur_block st" "gencode_cur_func st' = gencode_cur_func st"
    "blacklist_reg st' = blacklist_reg st" "blacklist_fpu_reg st' = blacklist_fpu_reg st"
    "suppress_mov st' = suppress_mov st" "is_live v st' = is_live v st" "size_of v st' = size_of v st"
    "qtype_of v st' = qtype_of v st" "reg_type v st' = reg_type v st" "is_allowed r tag st' = is_allowed r tag st"
    "loc_is_allowed y st' = loc_is_allowed y st"
  using assms
  by (auto simp: frame_def fixed_def is_live_def size_of_def qtype_of_def reg_type_def is_allowed_def
      loc_is_allowed_def split: loc_u.splits)

lemma loc_vars_stack: "loc_vars (L_STACK s) st = map_option se_vars (se_find s st)"
  by (simp add: loc_vars_def)

lemma protected_cong:
  assumes "blacklist_reg st' = blacklist_reg st" "blacklist_fpu_reg st' = blacklist_fpu_reg st"
    "loc_vars x st' = loc_vars x st"
  shows "protected x st' = protected x st"
  using assms
  by (cases x) (simp_all add: protected_def)

lemma frame_protected:
  assumes "frame X st st'" "x \<notin> X" "protected x st"
  shows "loc_vars x st' = loc_vars x st" "has_loc st' v x \<Longrightarrow> has_loc st v x" "protected x st'"
  using assms protected_cong [of st' st x] frame_fixed [OF assms(1)] unfolding frame_def by blast+

lemma frame_live:
  "frame X st st' \<Longrightarrow> is_live v st \<Longrightarrow> var_loc st v \<noteq> [] \<Longrightarrow> var_loc st' v \<noteq> []"
  unfolding frame_def by blast

lemma frame_offsets: "frame X st st' \<Longrightarrow> offsets_kept st st'"
  by (simp add: frame_def)

lemma offsets_kept_trans: "offsets_kept a b \<Longrightarrow> offsets_kept b c \<Longrightarrow> offsets_kept a c"
  unfolding offsets_kept_def by metis

lemma frame_trans:
  assumes a: "frame X st st1" and b: "frame Y st1 st2"
  shows "frame (X \<union> Y) st st2"
proof -
  have "fixed st2 = fixed st" using a b by (simp add: frame_def)
  moreover have "offsets_kept st st2"
    using frame_offsets [OF a] frame_offsets [OF b] by (rule offsets_kept_trans)
  moreover have "loc_vars x st2 = loc_vars x st \<and> (\<forall>v. has_loc st2 v x \<longrightarrow> has_loc st v x)"
    if "x \<notin> X \<union> Y" "protected x st" for x
  proof -
    have 1: "x \<notin> X" "x \<notin> Y" using that by simp_all
    note p = frame_protected [OF a 1(1) that(2)]
    show ?thesis
      using p(1) frame_protected(1) [OF b 1(2) p(3)] p(2) frame_protected(2) [OF b 1(2) p(3)] by auto
  qed
  moreover have "is_live v st \<and> var_loc st v \<noteq> [] \<longrightarrow> var_loc st2 v \<noteq> []" for v
    using frame_live [OF a, of v] frame_live [OF b, of v] frame_fixed(9) [OF a, of v] by blast
  ultimately show ?thesis unfolding frame_def by blast
qed

lemma frame_mono: "frame X st st' \<Longrightarrow> X \<subseteq> Y \<Longrightarrow> frame Y st st'"
  unfolding frame_def by (elim conjE, intro conjI) blast+

subsection \<open>Updates\<close>

lemma se_find_upd:
  "se_find s (upd_se t f st) = map_option (\<lambda>e. if se_id e = t then f e else e) (se_find s st)"
  if "\<And>e. se_id (f e) = se_id e"
proof -
  have "find (\<lambda>e. se_id e = s) (map (\<lambda>e. if se_id e = t then f e else e) es) =
      map_option (\<lambda>e. if se_id e = t then f e else e) (find (\<lambda>e. se_id e = s) es)" for es
    by (induction es) (auto simp: that)
  then show ?thesis by (simp add: se_find_def upd_se_def)
qed

lemma se_find_id: "se_find s st = Some e \<Longrightarrow> se_id e = s \<and> e \<in> set (stack st)"
  unfolding se_find_def by (auto simp: find_Some_iff)

lemma se_find_unique:
  "distinct (map se_id (stack st)) \<Longrightarrow> e \<in> set (stack st) \<Longrightarrow> se_find (se_id e) st = Some e"
proof -
  have "distinct (map se_id es) \<Longrightarrow> e \<in> set es \<Longrightarrow> find (\<lambda>a. se_id a = se_id e) es = Some e" for es
    by (induction es) (auto simp: image_iff)
  then show "distinct (map se_id (stack st)) \<Longrightarrow> e \<in> set (stack st) \<Longrightarrow> ?thesis" by (simp add: se_find_def)
qed

lemma locs_fields [simp]:
  "var_loc (set_locs v ls st) = (var_loc st)(v := ls)" "stack (set_locs v ls st) = stack st"
  "next_se (set_locs v ls st) = next_se st" "regs (set_locs v ls st) = regs st"
  "fpu_regs (set_locs v ls st) = fpu_regs st" "fixed (set_locs v ls st) = fixed st"
  "suppress_mov (set_locs v ls st) = suppress_mov st" "back_st (set_locs v ls st) = back_st st"
  "quadrs (set_locs v ls st) = quadrs st"
  by (simp_all add: set_locs_def fixed_def)

lemma loc_vars_cong:
  assumes "stack st' = stack st" "regs st' = regs st" "fpu_regs st' = fpu_regs st"
  shows "loc_vars x st' = loc_vars x st" "loc_holds l v st' = loc_holds l v st"
proof -
  show 1: "loc_vars x st' = loc_vars x st" for x
    using assms by (simp add: loc_vars_def se_find_def reg_vars_def split: loc_u.splits)
  show "loc_holds l v st' = loc_holds l v st" by (simp add: loc_holds_def 1)
qed

lemma vl_find_set: "vl_find vl v \<longleftrightarrow> v \<in> set vl"
  by (induction vl) auto

lemma loc_holds_iff: "loc_holds l v st \<longleftrightarrow> loc_is_const l \<or> (\<exists>vl. loc_vars (loc_u l) st = Some vl \<and> v \<in> set vl)"
  by (simp add: loc_holds_def vl_find_set split: option.splits)

lemma alloc_inv_has_loc:
  assumes "alloc_inv st" "has_loc st v x" "loc_vars x st = Some vl"
  shows "v \<in> set vl"
proof -
  obtain l where "l \<in> set (var_loc st v)" "loc_u l = x" using assms(2) unfolding has_loc_def by blast
  then have "loc_holds l v st" "loc_u l = x" using assms(1) unfolding alloc_inv_def by blast+
  moreover have "\<not> loc_is_const l"
    using assms(3) \<open>loc_u l = x\<close> by (auto simp: loc_is_const_def loc_vars_def split: loc_u.splits)
  ultimately show ?thesis using assms(3) by (simp add: loc_holds_iff)
qed

subsection \<open>Registers\<close>

definition reg_u :: "loc_tag_t \<Rightarrow> nat \<Rightarrow> loc_u" where
  "reg_u tag r = (if tag = LOC_REG then L_REG r else L_FPU_REG r)"

lemma reg_u_simps [simp]:
  "reg_u LOC_REG r = L_REG r" "reg_u LOC_FPU_REG r = L_FPU_REG r"
  "loc_vars (reg_u tag r) st = reg_vars r tag st" "loc_is_allowed (reg_u tag r) st = is_allowed r tag st"
  "loc_tag (reg_u tag r) \<noteq> LOC_STACK" "reg_u tag r \<noteq> L_STACK s"
  by (simp_all add: reg_u_def loc_vars_def reg_vars_def loc_is_allowed_def is_allowed_def)

lemma reg_denied: "protected (reg_u tag r) st \<longleftrightarrow> is_allowed r tag st = Some False"
  by (simp add: protected_def reg_u_def is_allowed_def Let_def)

lemma loc_vars_set_reg:
  assumes "reg_vars r tag st = Some vl0"
  shows "loc_vars y (set_reg_vars r tag vl st) = (if y = reg_u tag r then Some vl else loc_vars y st)"
  using assms
  by (cases y) (auto simp: loc_vars_def set_reg_vars_def reg_vars_def reg_u_def se_find_def Let_def nth_list_update
      split: if_splits)

lemma set_reg_fields [simp]:
  "var_loc (set_reg_vars r tag vl st) = var_loc st" "stack (set_reg_vars r tag vl st) = stack st"
  "next_se (set_reg_vars r tag vl st) = next_se st" "fixed (set_reg_vars r tag vl st) = fixed st"
  "suppress_mov (set_reg_vars r tag vl st) = suppress_mov st" "quadrs (set_reg_vars r tag vl st) = quadrs st"
  "back_st (set_reg_vars r tag vl st) = back_st st" "has_loc (set_reg_vars r tag vl st) = has_loc st"
  "is_live v (set_reg_vars r tag vl st) = is_live v st" "size_of v (set_reg_vars r tag vl st) = size_of v st"
  "is_allowed q tag' (set_reg_vars r tag vl st) = is_allowed q tag' st"
  by (simp_all add: set_reg_vars_def fixed_def has_loc_def fun_eq_iff is_live_def size_of_def is_allowed_def)

lemma set_denied_fields:
  assumes "set_denied r tag b st = Some st'"
  shows "var_loc st' = var_loc st" "stack st' = stack st" "next_se st' = next_se st" "regs st' = regs st"
    "fpu_regs st' = fpu_regs st" "suppress_mov st' = suppress_mov st" "quadrs st' = quadrs st"
    "back_st st' = back_st st"
  using assms by (auto simp: set_denied_def split: if_splits)

lemma alloc_inv_cong:
  assumes "alloc_inv st" "var_loc st' = var_loc st" "stack st' = stack st" "next_se st' = next_se st"
    "regs st' = regs st" "fpu_regs st' = fpu_regs st" "suppress_mov st' = suppress_mov st" "quadrs st' = quadrs st"
  shows "alloc_inv st'"
  using assms loc_vars_cong(2) [OF assms(3,5,6)] by (simp add: alloc_inv_def size_of_def)

lemma alloc_inv_denied: "alloc_inv st \<Longrightarrow> set_denied r tag b st = Some st' \<Longrightarrow> alloc_inv st'"
  using alloc_inv_cong set_denied_fields by metis

lemma set_denied_allowed:
  assumes "set_denied r tag b st = Some st'"
  shows "is_allowed q tag' st' =
    (if reg_u tag' q = reg_u tag r then Some (\<not> b) else is_allowed q tag' st)"
  using assms
  by (auto simp: set_denied_def is_allowed_def reg_u_def Let_def nth_list_update split: if_splits)

lemma fixed_denied:
  assumes d: "set_denied r tag True st = Some st1" and a: "set_denied r tag False st3 = Some st4"
    and f: "fixed st3 = fixed st1" and ok: "is_allowed r tag st = Some True"
  shows "fixed st4 = fixed st"
proof -
  have "xs[r := True, r := False] = xs" if "r < length xs" "\<not> xs ! r" for xs :: "bool list"
    using that list_update_id [of xs r] by simp
  then show ?thesis
    using d a ok f by (cases "tag = LOC_REG") (auto simp: set_denied_def is_allowed_def fixed_def split: if_splits)
qed

lemma erase_locs_filter:
  "(\<forall>l \<in> set ls. loc_u l = x \<longrightarrow> \<not> permanent l) \<Longrightarrow> erase_locs x ls = filter (\<lambda>l. loc_u l \<noteq> x) ls"
  by (induction ls) auto

lemma loc_erase_reg:
  assumes "alloc_inv st"
  shows "loc_erase v (reg_u tag r) st = set_locs v (filter (\<lambda>l. loc_u l \<noteq> reg_u tag r) (var_loc st v)) st"
proof -
  have "\<forall>l \<in> set (var_loc st v). loc_u l = reg_u tag r \<longrightarrow> \<not> permanent l"
    using assms unfolding alloc_inv_def by (metis reg_u_simps(5))
  then show ?thesis by (simp add: loc_erase_def erase_locs_filter)
qed

lemma alloc_inv_filter:
  assumes "alloc_inv st"
  shows "alloc_inv (set_locs v (filter P (var_loc st v)) st)"
proof -
  let ?st = "set_locs v (filter P (var_loc st v)) st"
  have "loc_holds l w ?st = loc_holds l w st" for l w by (rule loc_vars_cong) simp_all
  moreover have "var_loc ?st w \<noteq> [] \<Longrightarrow> var_loc st w \<noteq> []" for w by (cases "w = v") auto
  ultimately show ?thesis
    using assms by (auto simp: alloc_inv_def size_of_def)
qed

lemma alloc_inv_set_reg:
  assumes "alloc_inv st" "reg_vars r tag st = Some vl0" "\<And>v. has_loc st v (reg_u tag r) \<Longrightarrow> v \<in> set vl"
  shows "alloc_inv (set_reg_vars r tag vl st)"
proof -
  have "loc_holds l v (set_reg_vars r tag vl st)" if "l \<in> set (var_loc st v)" for l v
  proof -
    have "loc_holds l v st" using assms(1) that unfolding alloc_inv_def by blast
    moreover have "has_loc st v (loc_u l)" using that unfolding has_loc_def by blast
    ultimately show ?thesis using assms(3) by (auto simp: loc_holds_iff loc_vars_set_reg [OF assms(2)])
  qed
  then show ?thesis using assms(1) by (simp add: alloc_inv_def)
qed

subsection \<open>The stack frame\<close>

lemma alloc_inv_stack:
  assumes inv: "alloc_inv st" and ok: "stack_ok (stack st') (next_se st')"
    and same: "var_loc st' = var_loc st" "suppress_mov st' = suppress_mov st" "quadrs st' = quadrs st"
    and kept: "\<And>v l. l \<in> set (var_loc st v) \<Longrightarrow> loc_holds l v st \<Longrightarrow> loc_holds l v st'"
  shows "alloc_inv st'"
proof -
  have "loc_holds l v st'" if "l \<in> set (var_loc st v)" for l v
    using kept [OF that] inv that unfolding alloc_inv_def by blast
  then show ?thesis using inv ok same by (simp add: alloc_inv_def size_of_def)
qed

lemma stack_ok_ids:
  assumes "stack_ok es n"
  shows "distinct (map se_id es)" "e \<in> set es \<Longrightarrow> se_id e < n"
  using assms by (simp_all add: stack_ok_def)

lemma stack_ok_sentry:
  assumes "stack_ok es n" "e \<in> set es" "se_size e = -1"
  shows "es = butlast es @ [e]" "se_vars e = []"
proof -
  have ne: "es \<noteq> []" using assms(1) by (simp add: stack_ok_def)
  have "e \<notin> set (butlast es)" using assms(1,3) by (auto simp: stack_ok_def)
  moreover have "set es = set (butlast es) \<union> {last es}"
    using append_butlast_last_id [OF ne] by (metis Un_insert_right list.simps(15) set_append sup_bot.right_neutral empty_set)
  ultimately have "e = last es" using assms(2) by blast
  then show "es = butlast es @ [e]" "se_vars e = []"
    using append_butlast_last_id [OF ne] assms(1) by (simp_all add: stack_ok_def)
qed

lemma takeWhile_not_id:
  "distinct (map se_id (xs @ e # ys)) \<Longrightarrow>
    takeWhile (\<lambda>a. se_id a \<noteq> se_id e) (xs @ e # ys) = xs \<and> dropWhile (\<lambda>a. se_id a \<noteq> se_id e) (xs @ e # ys) = e # ys"
  by (induction xs) (auto simp: image_iff)

lemma map_upd_id:
  "distinct (map se_id (xs @ e # ys)) \<Longrightarrow>
    map (\<lambda>a. if se_id a = se_id e then f a else a) (xs @ e # ys) = xs @ f e # ys"
proof -
  assume d: "distinct (map se_id (xs @ e # ys))"
  have "map (\<lambda>a. if se_id a = se_id e then f a else a) xs = xs"
    by (rule map_idI) (use d in \<open>auto simp: image_iff\<close>)
  moreover have "map (\<lambda>a. if se_id a = se_id e then f a else a) ys = ys"
    by (rule map_idI) (use d in \<open>auto simp: image_iff\<close>)
  ultimately show ?thesis by simp
qed

lemma grow_stack_result:
  assumes g: "grow_stack B se vsize st = Some st'" and ok: "stack_ok (stack st) (next_se st)"
    and se: "se \<in> set (stack st)" "se_size se = -1"
  shows "stack st' = butlast (stack st) @
      [se\<lparr>se_size := vsize\<rparr>,
       \<lparr>se_id = next_se st, se_vars = [], se_size = -1, se_offset = se_offset se + vsize\<rparr>]"
    and "next_se st' = next_se st + 1" "var_loc st' = var_loc st" "fixed st' = fixed st" "back_st st' = back_st st"
    "regs st' = regs st" "fpu_regs st' = fpu_regs st" "suppress_mov st' = suppress_mov st" "quadrs st' = quadrs st"
proof -
  let ?bl = "butlast (stack st)"
  let ?se2 = "\<lparr>se_id = next_se st, se_vars = [], se_size = -1, se_offset = se_offset se + vsize\<rparr>"
  have st: "stack st = ?bl @ [se]" by (rule stack_ok_sentry(1) [OF ok se])
  have d: "distinct (map se_id (?bl @ [se]))" using stack_ok_ids(1) [OF ok] st by simp
  have fresh: "next_se st \<notin> se_id ` set (?bl @ [se])"
    using stack_ok_ids(2) [OF ok] st by (metis imageE less_irrefl)
  have ins: "insert_se_after (se_id se) ?se2 (stack st) = ?bl @ [se, ?se2]"
    using takeWhile_not_id [of ?bl se "[]"] d unfolding insert_se_after_def by (subst (1 2) st) simp
  have d2: "distinct (map se_id (?bl @ se # [?se2]))" using d fresh by auto
  show "stack st' = ?bl @ [se\<lparr>se_size := vsize\<rparr>, ?se2]"
    using g map_upd_id [OF d2, of "\<lambda>e. e\<lparr>se_size := vsize\<rparr>"]
    by (auto simp: grow_stack_def upd_se_def ins)
  show "next_se st' = next_se st + 1" "var_loc st' = var_loc st" "fixed st' = fixed st" "back_st st' = back_st st"
    "regs st' = regs st" "fpu_regs st' = fpu_regs st" "suppress_mov st' = suppress_mov st" "quadrs st' = quadrs st"
    using g by (auto simp: grow_stack_def upd_se_def fixed_def)
qed

lemma stack_ok_map:
  assumes ok: "stack_ok es n"
    and f: "\<And>e. se_id (f e) = se_id e" "\<And>e. se_size (f e) = se_size e" "\<And>e. se_offset (f e) = se_offset e"
      "\<And>e. e \<in> set es \<Longrightarrow> se_size e = -1 \<Longrightarrow> se_vars (f e) = se_vars e"
  shows "stack_ok (map f es) n"
proof -
  have ne: "es \<noteq> []" and l: "se_size (last es) = -1" "se_vars (last es) = []" using ok by (simp_all add: stack_ok_def)
  have "last (map f es) = f (last es)" by (rule last_map [OF ne])
  moreover have "se_vars (f (last es)) = []" using f(4) [OF last_in_set [OF ne] l(1)] l(2) by simp
  moreover have "distinct (map se_id (map f es))" using ok f(1) by (simp add: stack_ok_def o_def)
  moreover have "sorted_wrt (\<lambda>a b. se_offset a + se_size a \<le> se_offset b) (map f es)"
    using ok f(2,3) by (simp add: sorted_wrt_map stack_ok_def)
  moreover have "\<forall>e \<in> set (butlast (map f es)). 0 < se_size e"
    using ok f(2) by (auto simp: stack_ok_def map_butlast [symmetric])
  moreover have "\<forall>e \<in> set (map f es). se_id e < n" using ok f(1) by (auto simp: stack_ok_def)
  moreover have "se_size (last (map f es)) = -1" using l(1) f(2) by (simp add: last_map [OF ne])
  moreover have "map f es \<noteq> []" using ne by simp
  ultimately show ?thesis unfolding stack_ok_def by metis
qed

lemma grow_frame_ok:
  assumes g: "grow_stack B se vsize st = Some st'" and ok: "stack_ok (stack st) (next_se st)"
    and se: "se \<in> set (stack st)" "se_size se = -1" and v: "0 < vsize"
  shows "stack_ok (stack st') (next_se st')"
    and "\<And>t. t \<noteq> next_se st \<Longrightarrow> loc_vars (L_STACK t) st' = loc_vars (L_STACK t) st"
    and "offsets_kept st st'" and "loc_vars (L_STACK (next_se st)) st = None"
proof -
  note r = grow_stack_result [OF g ok se]
  let ?bl = "butlast (stack st)"
  have st: "stack st = ?bl @ [se]" by (rule stack_ok_sentry(1) [OF ok se])
  have vars: "se_vars se = []" by (rule stack_ok_sentry(2) [OF ok se])
  have d: "distinct (map se_id (?bl @ [se]))" using stack_ok_ids(1) [OF ok] st by simp
  have fresh: "e \<in> set (?bl @ [se]) \<Longrightarrow> se_id e < next_se st" for e
    using stack_ok_ids(2) [OF ok] st by metis
  have srt: "sorted_wrt (\<lambda>a b. se_offset a + se_size a \<le> se_offset b) (?bl @ [se])"
    using ok st unfolding stack_ok_def by metis
  have pos: "\<forall>e \<in> set ?bl. 0 < se_size e" using ok by (simp add: stack_ok_def)
  have "\<forall>a \<in> set ?bl. se_offset a + se_size a \<le> se_offset se + vsize"
    using srt v by (fastforce simp: sorted_wrt_append)
  moreover have "butlast (stack st') = ?bl @ [se\<lparr>se_size := vsize\<rparr>]" by (simp add: r(1) butlast_append)
  ultimately show "stack_ok (stack st') (next_se st')"
    using srt pos v d fresh by (fastforce simp: stack_ok_def r(1,2) sorted_wrt_append)
  have f: "find (\<lambda>e. se_id e = t) (stack st') =
      map_option (\<lambda>e. if se_id e = se_id se then e\<lparr>se_size := vsize\<rparr> else e) (find (\<lambda>e. se_id e = t) (stack st))"
    if "t \<noteq> next_se st" for t
  proof -
    have "find (\<lambda>e. se_id e = t) (xs @ [se\<lparr>se_size := vsize\<rparr>, y]) =
        map_option (\<lambda>e. if se_id e = se_id se then e\<lparr>se_size := vsize\<rparr> else e) (find (\<lambda>e. se_id e = t) (xs @ [se]))"
      if "se_id se \<notin> se_id ` set xs" "se_id y \<noteq> t" for xs y
      using that by (induction xs) auto
    then show ?thesis using d \<open>t \<noteq> next_se st\<close> by (subst st) (simp add: r(1))
  qed
  show "loc_vars (L_STACK t) st' = loc_vars (L_STACK t) st" if "t \<noteq> next_se st" for t
    using f [OF that] by (simp add: loc_vars_stack se_find_def option.map_comp o_def if_distrib cong: if_cong)
  have none: "se_find (next_se st) st = None"
    using fresh st by (metis less_irrefl not_None_eq se_find_id)
  then show "loc_vars (L_STACK (next_se st)) st = None" by (simp add: loc_vars_stack)
  show "offsets_kept st st'"
    unfolding offsets_kept_def
  proof (intro allI impI)
    fix t e assume e: "se_find t st = Some e"
    then have "t \<noteq> next_se st" using none by auto
    from f [OF this] show "\<exists>e'. se_find t st' = Some e' \<and> se_offset e' = se_offset e"
      using e by (simp add: se_find_def)
  qed
qed

lemma loc_vars_upd_vars:
  "loc_vars (L_STACK t) (upd_se s (\<lambda>e. e\<lparr>se_vars := vl\<rparr>) st) =
    (if t = s then map_option (\<lambda>_. vl) (loc_vars (L_STACK t) st) else loc_vars (L_STACK t) st)"
  by (auto simp: loc_vars_stack se_find_upd option.map_comp o_def dest: se_find_id intro!: map_option_cong)

lemma upd_vars_fields:
  "var_loc (upd_se s f st) = var_loc st" "next_se (upd_se s f st) = next_se st" "fixed (upd_se s f st) = fixed st"
  "back_st (upd_se s f st) = back_st st" "regs (upd_se s f st) = regs st" "fpu_regs (upd_se s f st) = fpu_regs st"
  "suppress_mov (upd_se s f st) = suppress_mov st" "quadrs (upd_se s f st) = quadrs st"
  by (simp_all add: upd_se_def fixed_def)

lemma advance_free_fields:
  "var_loc (advance_free s st) = var_loc st" "next_se (advance_free s st) = next_se st"
  "fixed (advance_free s st) = fixed st" "stack (advance_free s st) = stack st"
  "back_st (advance_free s st) = back_st st" "regs (advance_free s st) = regs st"
  "fpu_regs (advance_free s st) = fpu_regs st"
  "suppress_mov (advance_free s st) = suppress_mov st" "quadrs (advance_free s st) = quadrs st"
  by (simp_all add: advance_free_def fixed_def)

lemma loc_vars_reg:
  assumes "regs st' = regs st" "fpu_regs st' = fpu_regs st" "loc_tag x \<noteq> LOC_STACK"
  shows "loc_vars x st' = loc_vars x st"
  using assms by (cases x) (simp_all add: loc_vars_def reg_vars_def)

lemma has_loc_cong: "var_loc st' = var_loc st \<Longrightarrow> has_loc st' = has_loc st"
  by (simp add: has_loc_def fun_eq_iff)

lemma offsets_kept_upd_vars: "offsets_kept st (upd_se s (\<lambda>e. e\<lparr>se_vars := vl\<rparr>) st)"
  unfolding offsets_kept_def by (auto simp: se_find_upd)

lemma frame_intro:
  assumes "fixed st' = fixed st" "var_loc st' = var_loc st" "offsets_kept st st'"
    "\<And>x. x \<notin> X \<Longrightarrow> protected x st \<Longrightarrow> loc_vars x st' = loc_vars x st"
  shows "frame X st st'"
  using assms has_loc_cong [OF assms(2)] by (simp add: frame_def)

lemma find_free_elem:
  assumes ok: "stack_ok (stack st) n"
    and f: "find (\<lambda>e. \<not> ((se_size e < k \<or> se_vars e \<noteq> []) \<and> se_size e \<noteq> -1)) (from_se s st) = Some se"
  shows "se \<in> set (stack st)" "se_vars se = []"
proof -
  have in_from: "se \<in> set (from_se s st)" and "se_size se = -1 \<or> se_vars se = []"
    using f unfolding find_Some_iff by auto
  then show "se \<in> set (stack st)" by (auto simp: from_se_def dest: set_dropWhileD)
  then show "se_vars se = []"
    using \<open>se_size se = -1 \<or> se_vars se = []\<close> stack_ok_sentry(2) [OF ok] by blast
qed

lemma stack_insert_new_inv:
  assumes i: "stack_insert_new B v st = Some (s, st')" and inv: "alloc_inv st" and v: "0 < size_of v st"
  shows "alloc_inv st'" "frame {} st st'" "loc_vars (L_STACK s) st' = Some [v]"
    "\<not> has_loc st' w (L_STACK s)" "var_loc st' = var_loc st" "back_st st' = back_st st"
    "\<not> protected (L_STACK s) st"
proof -
  have ok: "stack_ok (stack st) (next_se st)" using inv by (simp add: alloc_inv_def)
  obtain f se st1 where
    f: "find (\<lambda>e. \<not> ((se_size e < size_of v st \<or> se_vars e \<noteq> []) \<and> se_size e \<noteq> -1)) (from_se f st) = Some se"
    and g: "(if se_size se = -1 then grow_stack B se (size_of v st) st else Some st) = Some st1"
    and s: "s = se_id se" and st': "st' = advance_free s (upd_se s (\<lambda>e. e\<lparr>se_vars := [v]\<rparr>) st1)"
    using i by (auto simp: stack_insert_new_def Let_def)
  note se = find_free_elem [OF ok f]
  have find: "se_find s st = Some se" unfolding s by (rule se_find_unique [OF stack_ok_ids(1) [OF ok] se(1)])
  have s_new: "s \<noteq> next_se st" using stack_ok_ids(2) [OF ok se(1)] s by simp
  have free: "loc_vars (L_STACK s) st = Some []" using find se(2) by (simp add: loc_vars_stack)
  then show "\<not> protected (L_STACK s) st" by (simp add: protected_def)
  have grown: "stack_ok (stack st1) (next_se st1) \<and> offsets_kept st st1 \<and> var_loc st1 = var_loc st \<and>
        fixed st1 = fixed st \<and> back_st st1 = back_st st \<and> regs st1 = regs st \<and> fpu_regs st1 = fpu_regs st \<and>
        suppress_mov st1 = suppress_mov st \<and> quadrs st1 = quadrs st \<and>
        (\<forall>t. loc_vars (L_STACK t) st \<noteq> None \<longrightarrow> loc_vars (L_STACK t) st1 = loc_vars (L_STACK t) st) \<and>
        (\<forall>e. e \<in> set (stack st1) \<longrightarrow> se_size e = -1 \<longrightarrow> se_id e \<noteq> s)"
  proof (cases "se_size se = -1")
    case True
    then have g': "grow_stack B se (size_of v st) st = Some st1" using g by simp
    note r = grow_stack_result [OF g' ok se(1) True]
    note o = grow_frame_ok [OF g' ok se(1) True v]
    have pos: "\<forall>e \<in> set (butlast (stack st)). 0 < se_size e" using ok by (simp add: stack_ok_def)
    have "se_id e \<noteq> s" if "e \<in> set (stack st1)" "se_size e = -1" for e
      using that pos v s_new by (auto simp: r(1) s)
    moreover have "loc_vars (L_STACK t) st1 = loc_vars (L_STACK t) st" if "loc_vars (L_STACK t) st \<noteq> None" for t
      using o(2) [of t] o(4) that by (cases "t = next_se st") simp_all
    ultimately show ?thesis
      using o(1,3) r by blast
  next
    case False
    then have "st1 = st" using g by simp
    moreover have "se_id e \<noteq> s" if "e \<in> set (stack st)" "se_size e = -1" for e
      using that False se_find_unique [OF stack_ok_ids(1) [OF ok] that(1)] find by auto
    ultimately show ?thesis
      using ok by (simp add: offsets_kept_def)
  qed
  have 1: "stack_ok (stack st1) (next_se st1)" "offsets_kept st st1" "var_loc st1 = var_loc st" "fixed st1 = fixed st"
    "back_st st1 = back_st st" "regs st1 = regs st" "fpu_regs st1 = fpu_regs st" "suppress_mov st1 = suppress_mov st"
    "quadrs st1 = quadrs st" "\<And>t. loc_vars (L_STACK t) st \<noteq> None \<Longrightarrow> loc_vars (L_STACK t) st1 = loc_vars (L_STACK t) st"
    "\<And>e. e \<in> set (stack st1) \<Longrightarrow> se_size e = -1 \<Longrightarrow> se_id e \<noteq> s"
    using grown by blast+
  note fields = upd_vars_fields advance_free_fields
  show vl: "var_loc st' = var_loc st" and "back_st st' = back_st st" by (simp_all add: st' fields 1)
  have lv: "loc_vars (L_STACK t) st' = (if t = s then Some [v] else loc_vars (L_STACK t) st)"
    if "loc_vars (L_STACK t) st \<noteq> None" for t
    using 1(10) [OF that] that loc_vars_cong(1) [of st' "upd_se s (\<lambda>e. e\<lparr>se_vars := [v]\<rparr>) st1" "L_STACK t"]
    by (auto simp: st' fields loc_vars_upd_vars)
  then show "loc_vars (L_STACK s) st' = Some [v]" using free by simp
  have lr: "loc_tag x \<noteq> LOC_STACK \<Longrightarrow> loc_vars x st' = loc_vars x st" for x
    by (rule loc_vars_reg) (simp_all add: st' fields 1)
  show "\<not> has_loc st' w (L_STACK s)"
    using alloc_inv_has_loc [OF inv _ free, of w] by (auto simp: has_loc_cong [OF vl])
  have "stack_ok (map (\<lambda>e. if se_id e = s then e\<lparr>se_vars := [v]\<rparr> else e) (stack st1)) (next_se st1)"
    by (rule stack_ok_map [OF 1(1)]) (auto dest: 1(11))
  then have ok': "stack_ok (stack st') (next_se st')" by (simp add: st' fields upd_se_def)
  show "alloc_inv st'"
  proof (rule alloc_inv_stack [OF inv ok' vl])
    show "suppress_mov st' = suppress_mov st" "quadrs st' = quadrs st" by (simp_all add: st' fields 1)
    fix w l assume l: "l \<in> set (var_loc st w)" "loc_holds l w st"
    have "loc_u l \<noteq> L_STACK s" if "\<not> loc_is_const l"
      using alloc_inv_has_loc [OF inv _ free, of w] l(1) unfolding has_loc_def by auto
    then show "loc_holds l w st'"
      using l(2) lv lr [of "loc_u l"] by (cases "loc_u l") (auto simp: loc_holds_iff loc_is_const_def)
  qed
  have off: "offsets_kept st st'"
    using offsets_kept_trans [OF 1(2) offsets_kept_upd_vars [of st1 s "[v]"]]
    by (simp add: offsets_kept_def st' se_find_def advance_free_fields)
  show "frame {} st st'"
  proof (rule frame_intro [OF _ vl off])
    show "fixed st' = fixed st" by (simp add: st' fields 1)
    fix x assume "protected x st"
    then show "loc_vars x st' = loc_vars x st"
      using lv lr [of x] free by (cases x) (auto simp: protected_def)
  qed
qed

end
