(* ===== verification/Alloc_Correct.thy ===== *)
theory Alloc_Correct
  imports Alloc_Inv
begin

text \<open>
  What the functions of \<open>gencode.c\<close> that save, free and allocate promise, for a backend without a
  register stack.

  \<open>mem st\<close> is the memory after the code that has been written, \<open>tracks\<close> that every location of
  every variable holds its value there.  The locale states what these functions ask of the backend:
  its move writes one location that no variable has, its allocator gives an empty register that is
  allowed.  The lemmas show that every operation keeps the invariant, the frame and the values.
\<close>

definition located :: "loc_u \<Rightarrow> 'b gencode_st \<Rightarrow> bool" where
  "located x st \<longleftrightarrow> (case x of L_STACK s \<Rightarrow> se_find s st \<noteq> None | _ \<Rightarrow> True)"

definition tracks :: "('b gencode_st \<Rightarrow> (loc_u \<Rightarrow> 'v) option) \<Rightarrow> (var_id \<Rightarrow> 'v) \<Rightarrow> 'b gencode_st \<Rightarrow> bool" where
  "tracks mem val st \<longleftrightarrow> (\<exists>M. mem st = Some M \<and> (\<forall>v. \<forall>l \<in> set (var_loc st v). M (loc_u l) = val v))"

definition good ::
  "('b gencode_st \<Rightarrow> (loc_u \<Rightarrow> 'v) option) \<Rightarrow> loc_u set \<Rightarrow> 'b gencode_st \<Rightarrow> 'b gencode_st \<Rightarrow> bool"
where
  "good mem X st st' \<longleftrightarrow>
     alloc_inv st' \<and> frame X st st' \<and> (\<forall>val. tracks mem val st \<longrightarrow> tracks mem val st')"

lemma good_trans: "good mem X st st1 \<Longrightarrow> good mem Y st1 st2 \<Longrightarrow> good mem (X \<union> Y) st st2"
  unfolding good_def using frame_trans by blast

lemma good_trans0: "good mem {} st st1 \<Longrightarrow> good mem {} st1 st2 \<Longrightarrow> good mem {} st st2"
  using good_trans [of mem "{}" st st1 "{}" st2] by simp

lemma good_refl: "alloc_inv st \<Longrightarrow> good mem X st st"
  by (simp add: good_def frame_refl)

lemma good_inv: "good mem X st st' \<Longrightarrow> alloc_inv st'"
  by (simp add: good_def)

lemma good_drop: "good mem {x} st st' \<Longrightarrow> \<not> protected x st \<Longrightarrow> good mem {} st st'"
  unfolding good_def frame_def by (elim conjE, intro conjI) (assumption | metis singletonD)+

lemma eq_loc_reg: "eq_loc x (Some (reg_u tag r)) \<longleftrightarrow> x = reg_u tag r"
  by (cases x) (auto simp: reg_u_def)

lemma alloc_inv_located:
  assumes "alloc_inv st" "l \<in> set (var_loc st v)"
  shows "located (loc_u l) st"
proof -
  have "loc_holds l v st" using assms unfolding alloc_inv_def by blast
  then show ?thesis
    by (cases "loc_u l") (auto simp: located_def loc_holds_iff loc_is_const_def loc_vars_stack)
qed

lemma best_spill_allowed:
  "best_spill tag is num den b st = Some (Some r) \<Longrightarrow> b = Some r \<or> (r \<in> set is \<and> is_allowed r tag st = Some True)"
proof (induction "is" arbitrary: num den b)
  case (Cons i "is")
  obtain al where al: "is_allowed i tag st = Some al" using Cons.prems by auto
  show ?case
  proof (cases al)
    case True
    obtain vl nud cnt where "reg_vars i tag st = Some vl" "vl \<noteq> []" "sum_use_dist tag vl 0 0 st = Some (nud, cnt)"
      using Cons.prems al True by auto
    then have "(if cnt \<noteq> 0 then
        (if nud * den > num * cnt then best_spill tag is nud cnt (Some i) st else best_spill tag is num den b st)
      else Some (Some i)) = Some (Some r)"
      using Cons.prems al True by simp
    then show ?thesis using Cons.IH al True by (auto split: if_splits)
  qed (use Cons al in auto)
qed simp

lemma do_bellady_ra_allowed:
  assumes "do_bellady_ra B n tag st = Some r"
  shows "r < n" "is_allowed r tag st = Some True"
proof -
  have "r < n \<and> is_allowed r tag st = Some True"
  proof (cases "find_free_reg n tag st")
    case (Some i)
    then have "r = i" using assms by (simp add: do_bellady_ra_def)
    then show ?thesis using Some by (auto simp: find_free_reg_def find_Some_iff)
  next
    case None
    then have "best_spill tag [0..<n] (-1) 1 None st = Some (Some r)" using assms by (auto simp: do_bellady_ra_def)
    from best_spill_allowed [OF this] show ?thesis by simp
  qed
  then show "r < n" "is_allowed r tag st = Some True" by simp_all
qed

locale alloc_backend =
  fixes B :: "'b backend_t" and mem :: "'b gencode_st \<Rightarrow> (loc_u \<Rightarrow> 'v) option"
  assumes mem_kept:
    "back_st st' = back_st st \<Longrightarrow> offsets_kept st st' \<Longrightarrow> mem st = Some M \<Longrightarrow>
      \<exists>M'. mem st' = Some M' \<and> (\<forall>x. located x st \<longrightarrow> M' x = M x)"
  and no_fpu_stack: "\<not> fpu_stack B"
  and again_saves:
    "again B v None st = Some (rl, st') \<Longrightarrow> alloc_inv st \<Longrightarrow>
      good mem {} st st' \<and> (\<exists>l \<in> set (var_loc st' v). loc_is_allowed (loc_u l) st' = Some True)"
  and gen_mov_source: "gen_mov B l v st = Some st' \<Longrightarrow> var_loc st v \<noteq> []"
  and gen_mov_moves:
    "gen_mov B l v st = Some st' \<Longrightarrow> alloc_inv st \<Longrightarrow> \<forall>w. \<not> has_loc st w (loc_u l) \<Longrightarrow>
      loc_vars (loc_u l) st \<noteq> None \<Longrightarrow> (\<forall>s. loc_u l = L_STACK s \<longrightarrow> protected (loc_u l) st) \<Longrightarrow>
      good mem {} st st' \<and> (\<forall>w. \<not> has_loc st' w (loc_u l)) \<and> loc_vars (loc_u l) st' = loc_vars (loc_u l) st \<and>
      (\<forall>val. tracks mem val st \<longrightarrow> (\<exists>M. mem st' = Some M \<and> M (loc_u l) = val v))"
  and allocates:
    "back_alloc_reg B n LOC_REG st = Some (r, st') \<Longrightarrow> alloc_inv st \<Longrightarrow>
      good mem {} st st' \<and> is_allowed r LOC_REG st' = Some True \<and> reg_vars r LOC_REG st' = Some []"
  and allocates_fpu:
    "back_alloc_fpu_reg B n LOC_FPU_REG st = Some (r, st') \<Longrightarrow> alloc_inv st \<Longrightarrow>
      good mem {} st st' \<and> is_allowed r LOC_FPU_REG st' = Some True \<and> reg_vars r LOC_FPU_REG st' = Some []"
  and frees_fpu: "fpu_reg_free B r st = Some st' \<Longrightarrow> st' = st"
begin

lemma tracks_fewer:
  assumes "tracks mem val st" "alloc_inv st" "back_st st' = back_st st" "offsets_kept st st'"
    "\<And>v. set (var_loc st' v) \<subseteq> set (var_loc st v)"
  shows "tracks mem val st'"
proof -
  obtain M where M: "mem st = Some M" "\<And>v l. l \<in> set (var_loc st v) \<Longrightarrow> M (loc_u l) = val v"
    using assms(1) unfolding tracks_def by blast
  obtain M' where M': "mem st' = Some M'" "\<And>x. located x st \<Longrightarrow> M' x = M x"
    using mem_kept [OF assms(3,4) M(1)] by blast
  have "M' (loc_u l) = val v" if "l \<in> set (var_loc st' v)" for v l
    using that assms(5) M(2) M'(2) [OF alloc_inv_located [OF assms(2)]] by (metis subsetD)
  then show ?thesis using M'(1) unfolding tracks_def by blast
qed

lemma offsets_same: "stack st' = stack st \<Longrightarrow> offsets_kept st st'"
  by (simp add: offsets_kept_def se_find_def)

lemma good_filter:
  assumes inv: "alloc_inv st" and live: "is_live v st \<Longrightarrow> var_loc st v \<noteq> [] \<Longrightarrow> filter P (var_loc st v) \<noteq> []"
  shows "good mem {} st (set_locs v (filter P (var_loc st v)) st)"
proof -
  let ?st = "set_locs v (filter P (var_loc st v)) st"
  have "frame {} st ?st"
    using live loc_vars_cong(1) [of ?st st] offsets_same [of ?st st]
    by (auto simp: frame_def has_loc_def)
  moreover have "tracks mem val st \<Longrightarrow> tracks mem val ?st" for val
    by (erule tracks_fewer [OF _ inv]) (auto simp: offsets_same)
  ultimately show ?thesis unfolding good_def using alloc_inv_filter [OF inv] by blast
qed

lemma free_vl_good:
  assumes "free_vl B (reg_u tag r) None vl st = Some st'" "alloc_inv st" "protected (reg_u tag r) st"
  shows "good mem {} st st' \<and> (\<forall>v. has_loc st' v (reg_u tag r) \<longrightarrow> has_loc st v (reg_u tag r) \<and> v \<notin> set vl)"
  using assms
proof (induction vl arbitrary: st)
  case Nil
  then show ?case by (simp add: good_refl)
next
  case (Cons w vl)
  let ?x = "reg_u tag r"
  obtain st1 where
    s: "(if should_save_var w (Some ?x) st then map_option snd (again B w None st) else Some st) = Some st1"
    and f: "free_vl B ?x None vl (loc_erase w ?x st1) = Some st'"
    using Cons.prems(1) by auto
  have 1: "good mem {} st st1 \<and>
      (is_live w st \<longrightarrow> (\<exists>l \<in> set (var_loc st1 w). loc_u l \<noteq> ?x))"
  proof (cases "should_save_var w (Some ?x) st")
    case True
    then obtain rt where a: "again B w None st = Some (rt, st1)" using s by auto
    note g = again_saves [OF a Cons.prems(2)]
    then have "is_allowed r tag st1 = Some False"
      using Cons.prems(3) frame_fixed(13) [of "{}" st st1 r tag] by (simp add: good_def reg_denied)
    then have "\<exists>l \<in> set (var_loc st1 w). loc_u l \<noteq> ?x" using g by (metis option.inject reg_u_simps(4))
    then show ?thesis using g by blast
  next
    case False
    then have "st1 = st" using s by simp
    moreover have "\<exists>l \<in> set (var_loc st w). loc_u l \<noteq> ?x" if "is_live w st"
      using False that unfolding should_save_var_def by (auto simp: eq_loc_reg)
    ultimately show ?thesis using good_refl [OF Cons.prems(2)] by blast
  qed
  have inv1: "alloc_inv st1" using 1 good_inv by blast
  let ?st2 = "loc_erase w ?x st1"
  have st2: "?st2 = set_locs w (filter (\<lambda>l. loc_u l \<noteq> ?x) (var_loc st1 w)) st1" by (rule loc_erase_reg [OF inv1])
  have live: "is_live w st1 = is_live w st" using 1 frame_fixed(9) unfolding good_def by blast
  have 2: "good mem {} st1 ?st2"
    unfolding st2 by (rule good_filter [OF inv1]) (use 1 live in \<open>auto simp: filter_empty_conv\<close>)
  note 12 = good_trans0 [OF conjunct1 [OF 1] 2]
  then have "protected ?x ?st2" using Cons.prems(3) frame_protected(3) [of "{}" st ?st2] by (simp add: good_def)
  note ih = Cons.IH [OF f good_inv [OF 2] this]
  have "has_loc st v ?x \<and> v \<noteq> w" if "has_loc ?st2 v ?x" for v
  proof -
    have "has_loc st v ?x" using 12 that Cons.prems(3) frame_protected(2) [of "{}" st ?st2] by (simp add: good_def)
    moreover have "v \<noteq> w" using that by (auto simp: st2 has_loc_def)
    ultimately show ?thesis by blast
  qed
  then show ?case using good_trans0 [OF 12] ih by auto
qed

lemma good_same:
  assumes "alloc_inv st" "fixed st' = fixed st" "back_st st' = back_st st" "var_loc st' = var_loc st"
    "stack st' = stack st" "next_se st' = next_se st" "regs st' = regs st" "fpu_regs st' = fpu_regs st"
  shows "good mem X st st'"
proof -
  have "suppress_mov st' = suppress_mov st" "quadrs st' = quadrs st" using assms(2) by (auto simp: fixed_def)
  then have "alloc_inv st'" using alloc_inv_cong assms by blast
  moreover have "frame X st st'"
    by (rule frame_intro [OF assms(2,4) offsets_same [OF assms(5)]]) (rule loc_vars_cong(1) [OF assms(5,7,8)])
  moreover have "tracks mem val st \<Longrightarrow> tracks mem val st'" for val
    by (erule tracks_fewer [OF _ assms(1)]) (use assms in \<open>auto simp: offsets_same\<close>)
  ultimately show ?thesis unfolding good_def by blast
qed

text \<open>The common part of \<open>free_reg\<close> and \<open>free_fpu_reg\<close>.\<close>

lemma free_core:
  assumes vl: "reg_vars r tag st = Some vl" and flag: "is_allowed r tag st = Some flag"
    and d: "(if flag then set_denied r tag True st else Some st) = Some st1"
    and f: "free_vl B (reg_u tag r) None vl st1 = Some st2"
    and a: "(if flag then set_denied r tag False (set_reg_vars r tag [] st2) else Some (set_reg_vars r tag [] st2)) = Some st4"
    and inv: "alloc_inv st"
  shows "good mem {reg_u tag r} st st4" "reg_vars r tag st4 = Some []" "\<not> has_loc st4 v (reg_u tag r)"
proof -
  let ?x = "reg_u tag r" and ?st3 = "set_reg_vars r tag [] st2"
  have 1: "var_loc st1 = var_loc st" "stack st1 = stack st" "next_se st1 = next_se st" "regs st1 = regs st"
    "fpu_regs st1 = fpu_regs st" "suppress_mov st1 = suppress_mov st" "quadrs st1 = quadrs st" "back_st st1 = back_st st"
    using d set_denied_fields [of r tag True st st1] by (auto split: if_splits)
  have inv1: "alloc_inv st1" using alloc_inv_cong [OF inv 1(1-7)] .
  have den: "is_allowed r tag st1 = Some False"
    using d flag set_denied_allowed [of r tag True st st1 r tag] by (auto split: if_splits)
  then have p: "protected ?x st1" by (simp add: reg_denied)
  note g = free_vl_good [OF f inv1 p]
  have vl1: "loc_vars ?x st1 = Some vl" using vl loc_vars_cong(1) [of st1 st ?x] 1 by simp
  have none: "\<not> has_loc st2 v ?x" for v using g alloc_inv_has_loc [OF inv1 _ vl1] by blast
  have fr: "frame {} st1 st2" using g by (simp add: good_def)
  have vl2: "reg_vars r tag st2 = Some vl" using frame_protected(1) [OF fr _ p] vl1 by simp
  have inv2: "alloc_inv st2" using g good_inv by blast
  have inv3: "alloc_inv ?st3" by (rule alloc_inv_set_reg [OF inv2 vl2]) (use none in blast)
  have 4: "var_loc st4 = var_loc ?st3" "stack st4 = stack ?st3" "next_se st4 = next_se ?st3" "regs st4 = regs ?st3"
    "fpu_regs st4 = fpu_regs ?st3" "suppress_mov st4 = suppress_mov ?st3" "quadrs st4 = quadrs ?st3" "back_st st4 = back_st ?st3"
    using a set_denied_fields [of r tag False ?st3 st4] by (auto split: if_splits)
  have inv4: "alloc_inv st4" using alloc_inv_cong [OF inv3 4(1-7)] .
  have lv4: "loc_vars y st4 = (if y = ?x then Some [] else loc_vars y st2)" for y
    using loc_vars_set_reg [OF vl2, of y "[]"] loc_vars_cong(1) [OF 4(2,4,5), of y] by simp
  then show "reg_vars r tag st4 = Some []" by (metis reg_u_simps(3))
  show "\<not> has_loc st4 v ?x" using none [of v] 4(1) by (simp add: has_loc_def)
  have fx: "fixed st4 = fixed st"
  proof (cases flag)
    case True
    have f3: "fixed ?st3 = fixed st1" using fr by (simp add: frame_def)
    have d': "set_denied r tag True st = Some st1" "set_denied r tag False ?st3 = Some st4"
      "is_allowed r tag st = Some True"
      using d a flag True by simp_all
    show ?thesis by (rule fixed_denied [OF d'(1,2) f3 d'(3)])
  next
    case False
    then have "st1 = st" "st4 = ?st3" using d a by simp_all
    then show ?thesis using fr by (simp add: frame_def)
  qed
  have off1: "offsets_kept st st1" and off4: "offsets_kept st2 st4"
    by (rule offsets_same; simp add: 1 4)+
  have off: "offsets_kept st st4"
    using offsets_kept_trans [OF off1 offsets_kept_trans [OF frame_offsets [OF fr] off4]] .
  have "frame {?x} st st4"
    unfolding frame_def
  proof (intro conjI allI impI)
    fix y assume y: "y \<notin> {?x}" "protected y st"
    have l1: "loc_vars y st1 = loc_vars y st" by (rule loc_vars_cong) (simp_all add: 1)
    have "protected y st1"
      using y(2) d l1 by (cases y) (auto simp: protected_def set_denied_def nth_list_update split: if_splits)
    note pr = frame_protected(1,2) [OF fr _ this]
    show "loc_vars y st4 = loc_vars y st" using pr(1) l1 lv4 [of y] y(1) by simp
    fix v assume "has_loc st4 v y"
    then have "has_loc st1 v y" using pr(2) 4(1) by (simp add: has_loc_def)
    then show "has_loc st v y" using 1(1) by (simp add: has_loc_def)
  next
    fix v assume v: "is_live v st \<and> var_loc st v \<noteq> []"
    then have "is_live v st1" "var_loc st1 v \<noteq> []" using 1(1,7) by (simp_all add: is_live_def)
    then show "var_loc st4 v \<noteq> []" using frame_live [OF fr] 4(1) by simp
  qed (use fx off in auto)
  moreover have "tracks mem val st4" if "tracks mem val st" for val
  proof -
    have "tracks mem val st1" by (rule tracks_fewer [OF that inv 1(8) off1]) (simp add: 1)
    then have "tracks mem val st2" using g by (simp add: good_def)
    then show ?thesis by (rule tracks_fewer [OF _ inv2 _ off4]) (simp_all add: 4)
  qed
  ultimately show "good mem {?x} st st4" using inv4 unfolding good_def by blast
qed

lemma free_reg_good:
  assumes "free_reg B r st = Some st'" "alloc_inv st"
  shows "good mem {L_REG r} st st'" "reg_vars r LOC_REG st' = Some []" "\<not> has_loc st' v (L_REG r)"
proof -
  obtain vl flag st1 st2 where c: "reg_vars r LOC_REG st = Some vl" "is_allowed r LOC_REG st = Some flag"
    "(if flag then set_denied r LOC_REG True st else Some st) = Some st1"
    "free_vl B (reg_u LOC_REG r) None vl st1 = Some st2"
    "(if flag then set_denied r LOC_REG False (set_reg_vars r LOC_REG [] st2) else Some (set_reg_vars r LOC_REG [] st2)) = Some st'"
    using assms(1) by (auto simp: free_reg_def deny_reg_def allow_reg_def c_assert_def Let_def split: if_splits)
  show "good mem {L_REG r} st st'" "reg_vars r LOC_REG st' = Some []" "\<not> has_loc st' v (L_REG r)"
    using free_core [OF c assms(2)] by simp_all
qed

lemma free_fpu_reg_good:
  assumes "free_fpu_reg B r phys st = Some st'" "alloc_inv st"
  shows "good mem {L_FPU_REG r} st st'" "reg_vars r LOC_FPU_REG st' = Some []" "\<not> has_loc st' v (L_FPU_REG r)"
proof -
  obtain vl flag where c: "reg_vars r LOC_FPU_REG st = Some vl" "is_allowed r LOC_FPU_REG st = Some flag"
    using assms(1) by (auto simp: free_fpu_reg_def)
  have "good mem {L_FPU_REG r} st st' \<and> reg_vars r LOC_FPU_REG st' = Some [] \<and> \<not> has_loc st' v (L_FPU_REG r)"
  proof (cases "vl = []")
    case True
    then have "st' = st" using assms(1) c by (auto simp: free_fpu_reg_def)
    moreover have "\<not> has_loc st v (L_FPU_REG r)"
      using alloc_inv_has_loc [OF assms(2), of v "L_FPU_REG r" "[]"] c(1) True by (auto simp: loc_vars_def)
    ultimately show ?thesis using c(1) True good_refl [OF assms(2)] by simp
  next
    case False
    then obtain st1 st2 st3 where
      d: "(if flag then set_denied r LOC_FPU_REG True st else Some st) = Some st1"
      "free_vl B (reg_u LOC_FPU_REG r) None vl st1 = Some st2"
      "(if flag then set_denied r LOC_FPU_REG False (set_reg_vars r LOC_FPU_REG [] st2) else Some (set_reg_vars r LOC_FPU_REG [] st2)) = Some st3"
      and e: "(if phys then fpu_reg_free B r st3 else Some st3) = Some st'"
      using assms(1) c
      by (auto simp: free_fpu_reg_def deny_reg_def allow_reg_def c_assert_def Let_def split: if_splits)
    have "st' = st3" using e frees_fpu by (auto split: if_splits)
    then show ?thesis using free_core [OF c d assms(2)] by simp
  qed
  then show "good mem {L_FPU_REG r} st st'" "reg_vars r LOC_FPU_REG st' = Some []" "\<not> has_loc st' v (L_FPU_REG r)"
    by simp_all
qed

lemma find_loc_None: "is_reg = reg_u tag r \<Longrightarrow> \<not> has_loc st v is_reg \<Longrightarrow> find_loc (var_loc st v) is_reg = None"
  by (auto simp: find_loc_def find_None_iff has_loc_def eq_loc_reg)

lemma flush_reg:
  assumes "flush_loc B (reg_u tag r) st = Some st'" "alloc_inv st" "tag = LOC_REG \<or> tag = LOC_FPU_REG"
  shows "good mem {reg_u tag r} st st'" "reg_vars r tag st' = Some []" "\<not> has_loc st' v (reg_u tag r)"
  using assms free_reg_good [of r st st'] free_fpu_reg_good [of r False st st']
  by (auto simp: flush_loc_def reg_u_def)

lemma add_reg_good:
  assumes inv: "alloc_inv st" and e: "reg_vars r tag st = Some []" and a: "is_allowed r tag st = Some True"
    and none: "\<forall>w. \<not> has_loc st w (reg_u tag r)" and v: "0 < size_of v st"
    and l: "loc_u l = reg_u tag r" "\<not> dirty l" "\<not> permanent l"
    and st': "st' = add_loc v l (set_reg_vars r tag [v] st)"
  shows "alloc_inv st'" "frame {} st st'" "has_loc st' v (reg_u tag r)"
    "tracks mem val st \<Longrightarrow> \<exists>M. mem st = Some M \<and> M (reg_u tag r) = val v \<Longrightarrow> tracks mem val st'"
proof -
  let ?st1 = "set_reg_vars r tag [v] st"
  have inv1: "alloc_inv ?st1" by (rule alloc_inv_set_reg [OF inv e]) (use none in blast)
  have lv: "loc_vars y st' = (if y = reg_u tag r then Some [v] else loc_vars y st)" for y
    using loc_vars_set_reg [OF e, of y "[v]"] loc_vars_cong(1) [of st' ?st1 y] by (simp add: st' add_loc_def)
  have vl: "var_loc st' = (var_loc st)(v := l # var_loc st v)" by (simp add: st' add_loc_def)
  have lh: "loc_holds k w st'" if "k \<in> set (var_loc st w)" for k w
  proof -
    have "loc_holds k w st" using inv that unfolding alloc_inv_def by blast
    moreover have "loc_u k \<noteq> reg_u tag r" using none that unfolding has_loc_def by blast
    ultimately show ?thesis by (simp add: loc_holds_iff lv)
  qed
  have lhl: "loc_holds l v st'" using l(1) by (simp add: loc_holds_iff lv)
  show "alloc_inv st'"
    using inv lh lhl l v by (auto simp: alloc_inv_def vl st' add_loc_def size_of_def)
  have hl: "has_loc st' w y \<Longrightarrow> y \<noteq> reg_u tag r \<Longrightarrow> has_loc st w y" for w y
    using l(1) by (auto simp: has_loc_def vl split: if_splits)
  have off: "offsets_kept st st'" by (rule offsets_same) (simp add: st' add_loc_def)
  have "\<not> protected (reg_u tag r) st" using a by (simp add: reg_denied)
  then show "frame {} st st'"
    unfolding frame_def using hl lv off by (auto simp: vl) (auto simp: st' add_loc_def)
  show "has_loc st' v (reg_u tag r)" using l(1) by (auto simp: has_loc_def vl)
  assume t: "tracks mem val st" and M: "\<exists>M. mem st = Some M \<and> M (reg_u tag r) = val v"
  obtain M where M1: "mem st = Some M" "M (reg_u tag r) = val v" using M by blast
  have M2: "k \<in> set (var_loc st w) \<Longrightarrow> M (loc_u k) = val w" for k w using t M1(1) unfolding tracks_def by auto
  obtain M' where M': "mem st' = Some M'" "\<And>x. located x st \<Longrightarrow> M' x = M x"
    using mem_kept [OF _ off M1(1)] by (auto simp: st' add_loc_def)
  have "M' (loc_u k) = val w" if "k \<in> set (var_loc st' w)" for k w
  proof (cases "k \<in> set (var_loc st w)")
    case True
    then show ?thesis using M2 M'(2) alloc_inv_located [OF inv] by metis
  next
    case False
    then have "k = l" "w = v" using that by (auto simp: vl split: if_splits)
    then show ?thesis using M1(2) M'(2) [of "reg_u tag r"] l(1) by (simp add: located_def reg_u_def)
  qed
  then show "tracks mem val st'" using M'(1) unfolding tracks_def by blast
qed

lemma save_to_empty_good:
  assumes s: "save_var_to_loc B v l st = Some st'" and inv: "alloc_inv st"
    and l: "loc_u l = reg_u tag r" "\<not> permanent l" and tag: "tag = LOC_REG \<or> tag = LOC_FPU_REG"
    and e: "reg_vars r tag st = Some []" and a: "is_allowed r tag st = Some True"
  shows "good mem {} st st' \<and> has_loc st' v (reg_u tag r)"
proof -
  let ?x = "reg_u tag r"
  have nc: "\<not> loc_is_const l" using l(1) by (auto simp: loc_is_const_def reg_u_def)
  obtain st1 where f: "flush_loc B ?x st = Some st1"
    and m: "(if find_loc (var_loc st1 v) ?x = None then do {
           st \<leftarrow> gen_mov_var B l v st1;
           map_option snd (update_var_loc B v l st)
         }
         else Some st1) = Some st'"
    using s nc e by (auto simp: save_var_to_loc_def l(1) vl_find_set)
  note fl = flush_reg [OF f inv tag]
  have np: "\<not> protected ?x st" using a by (simp add: reg_denied)
  note 1 = good_drop [OF fl(1) np]
  note inv1 = good_inv [OF 1]
  have a1: "is_allowed r tag st1 = Some True" using 1 a frame_fixed(13) unfolding good_def by metis
  have ns: "\<not> suppress_mov st1" using inv1 by (simp add: alloc_inv_def)
  obtain st2 bu where g: "gen_mov B l v st1 = Some st2" and u: "update_var_loc B v l st2 = Some (bu, st')"
    using m find_loc_None [OF refl fl(3), of v] ns by (auto simp: gen_mov_var_def)
  have unused: "\<forall>w. \<not> has_loc st1 w (loc_u l)" using fl(3) l(1) by simp
  have "loc_vars (loc_u l) st1 \<noteq> None" using fl(2) l(1) by simp
  note gm = gen_mov_moves [OF g inv1 unused this]
  have 2: "good mem {} st1 st2" "\<forall>w. \<not> has_loc st2 w ?x" "reg_vars r tag st2 = Some []"
    "\<And>val. tracks mem val st1 \<Longrightarrow> \<exists>M. mem st2 = Some M \<and> M ?x = val v"
    using gm l(1) fl(2) by (auto simp: reg_u_simps(3) [symmetric] simp del: reg_u_simps(3))
  note inv2 = good_inv [OF 2(1)]
  have a2: "is_allowed r tag st2 = Some True" using 2(1) a1 frame_fixed(13) unfolding good_def by metis
  have none3: "find_loc (var_loc st2 v) ?x = None" using 2(2) find_loc_None by metis
  define l2 where "l2 = \<lparr>loc_id = next_loc st2, loc_u = ?x, permanent = False, dirty = False\<rparr>"
  define st3 where "st3 = st2\<lparr>next_loc := next_loc st2 + 1\<rparr>"
  have lu: "l = \<lparr>loc_id = loc_id l, loc_u = ?x, permanent = False, dirty = dirty l\<rparr>" using l by simp
  have st': "st' = add_loc v l2 (set_reg_vars r tag [v] st3)"
    using u tag 2(3) none3
    by (subst (asm) lu)
       (auto simp: update_var_loc_def reg_u_def vl_insert_if_absent_def copy_loc_shallow_def new_loc_def l2_def st3_def
         set_reg_vars_def add_loc_def set_locs_def)
  have 3: "good mem {} st2 st3" by (rule good_same [OF inv2]) (simp_all add: st3_def fixed_def)
  have f3: "reg_vars r tag st3 = Some []" "is_allowed r tag st3 = Some True" "\<forall>w. \<not> has_loc st3 w ?x"
    using 2(2,3) a2 by (auto simp: st3_def reg_vars_def is_allowed_def has_loc_def split: if_splits)
  have "0 < size_of v st1" using gen_mov_source [OF g] inv1 unfolding alloc_inv_def by blast
  moreover have "size_of v st3 = size_of v st1"
    using 2(1) frame_fixed(10) [of "{}" st1 st2 v] by (simp add: good_def st3_def size_of_def)
  ultimately have sz: "0 < size_of v st3" by simp
  have "loc_u l2 = ?x" "\<not> dirty l2" "\<not> permanent l2" by (simp_all add: l2_def)
  note ar = add_reg_good [OF good_inv [OF 3] f3 sz this st']
  have 13: "good mem {} st st3" using good_trans0 [OF good_trans0 [OF 1 2(1)] 3] .
  have "tracks mem val st'" if "tracks mem val st" for val
  proof -
    have "tracks mem val st1" using 1 that by (simp add: good_def)
    then obtain M where "mem st2 = Some M" "M ?x = val v" using 2(4) by blast
    then have "\<exists>M. mem st3 = Some M \<and> M ?x = val v"
      using mem_kept [of st3 st2 M] by (auto simp: st3_def offsets_kept_def se_find_def located_def reg_u_def)
    moreover have "tracks mem val st3" using 13 that by (simp add: good_def)
    ultimately show ?thesis by (rule ar(4) [rotated])
  qed
  moreover have "frame {} st st'" using 13 ar(2) frame_trans [of "{}" st st3 "{}" st'] by (simp add: good_def)
  ultimately show ?thesis using ar(1,3) unfolding good_def by blast
qed

lemma alloc_reg_good:
  assumes a: "alloc_reg B tag st = Some (l, st')" and inv: "alloc_inv st" and tag: "tag = LOC_REG \<or> tag = LOC_FPU_REG"
  shows "\<exists>r. good mem {} st st' \<and> loc_u l = reg_u tag r \<and> \<not> permanent l \<and>
    is_allowed r tag st' = Some True \<and> reg_vars r tag st' = Some []"
proof -
  obtain r st1 where r: "good mem {} st st1" "is_allowed r tag st1 = Some True" "reg_vars r tag st1 = Some []"
    and l: "new_loc (reg_u tag r) st1 = (l, st')"
  proof (cases "tag = LOC_REG")
    case True
    then obtain r st1 where b: "back_alloc_reg B (reg_num B) LOC_REG st = Some (r, st1)"
        "new_loc (L_REG r) st1 = (l, st')"
      using a by (auto simp: alloc_reg_def)
    show ?thesis by (rule that [of st1 r]) (use allocates [OF b(1) inv] b(2) True in simp_all)
  next
    case False
    then obtain r st1 where b: "back_alloc_fpu_reg B (fpu_reg_num B) LOC_FPU_REG st = Some (r, st1)"
        "new_loc (L_FPU_REG r) st1 = (l, st')"
      using a tag by (auto simp: alloc_reg_def)
    show ?thesis by (rule that [of st1 r]) (use allocates_fpu [OF b(1) inv] b(2) False tag in simp_all)
  qed
  have "good mem {} st1 st'"
    by (rule good_same [OF good_inv [OF r(1)]]) (use l in \<open>auto simp: new_loc_def fixed_def\<close>)
  moreover have "is_allowed r tag st' = is_allowed r tag st1" "reg_vars r tag st' = reg_vars r tag st1"
    using l by (auto simp: new_loc_def is_allowed_def reg_vars_def)
  ultimately show ?thesis using r l good_trans0 [OF r(1)] by (auto simp: new_loc_def)
qed

lemma new_stack_loc_good:
  assumes n: "new_stack_loc B v st = Some (l, st')" and inv: "alloc_inv st"
  shows "good mem {} st st'" "l \<in> set (var_loc st' v)" "tag_of l = LOC_STACK"
proof -
  obtain s st1 st2 st3 where i: "stack_insert_new B v st = Some (s, st1)" and l: "new_loc (L_STACK s) st1 = (l, st2)"
    and m: "gen_mov_var B l v st2 = Some st3" and st': "st' = add_loc v l st3"
    using n by (auto simp: new_stack_loc_def new_loc_def)
  have vl: "var_loc st1 = var_loc st" "suppress_mov st1 = suppress_mov st"
    using i by (auto simp: stack_insert_new_def advance_free_fields upd_vars_fields grow_stack_def Let_def split: if_splits)
  have st2: "st2 = st1\<lparr>next_loc := next_loc st1 + 1\<rparr>" and lf: "loc_u l = L_STACK s" "\<not> permanent l" "\<not> dirty l"
    using l by (auto simp: new_loc_def)
  have g: "gen_mov B l v st2 = Some st3"
    using m inv vl by (auto simp: gen_mov_var_def st2 alloc_inv_def)
  have "var_loc st v \<noteq> []" using gen_mov_source [OF g] by (simp add: st2 vl)
  then have sz: "0 < size_of v st" using inv unfolding alloc_inv_def by blast
  note in1 = stack_insert_new_inv [OF i inv sz]
  have off1: "offsets_kept st st1" by (rule frame_offsets [OF in1(2)])
  have "tracks mem val st1" if "tracks mem val st" for val
    by (rule tracks_fewer [OF that inv in1(6) off1]) (simp add: vl)
  then have 1: "good mem {} st st1" using in1 unfolding good_def by blast
  have 2: "good mem {} st1 st2" by (rule good_same [OF in1(1)]) (simp_all add: st2 fixed_def)
  have s2: "loc_vars (loc_u l) st2 = Some [v]"
    using in1(3) lf(1) loc_vars_cong(1) [of st2 st1 "L_STACK s"] by (simp add: st2)
  have none2: "\<forall>w. \<not> has_loc st2 w (loc_u l)" using in1(4) lf(1) by (simp add: st2 has_loc_def)
  have p2: "\<forall>s. loc_u l = L_STACK s \<longrightarrow> protected (loc_u l) st2" using s2 lf(1) by (simp add: protected_def)
  have lv2: "loc_vars (loc_u l) st2 \<noteq> None" using s2 by simp
  note gm = gen_mov_moves [OF g good_inv [OF 2] none2 lv2 p2]
  have inv3: "alloc_inv st3" using gm good_inv by blast
  have 03: "good mem {} st st3" using good_trans0 [OF good_trans0 [OF 1 2]] gm by blast
  have vl': "var_loc st' = (var_loc st3)(v := l # var_loc st3 v)" by (simp add: st' add_loc_def)
  have lv: "loc_vars x st' = loc_vars x st3" "loc_holds k w st' = loc_holds k w st3" for x k w
    by (rule loc_vars_cong; simp add: st' add_loc_def)+
  have off: "offsets_kept st3 st'" by (rule offsets_same) (simp add: st' add_loc_def)
  have "loc_holds l v st3" using gm s2 by (simp add: loc_holds_iff)
  moreover have "size_of v st3 = size_of v st" using 03 frame_fixed(10) unfolding good_def by blast
  ultimately have inv': "alloc_inv st'"
    using inv3 lf sz by (auto simp: alloc_inv_def lv vl') (auto simp: st' add_loc_def size_of_def)
  have "frame {L_STACK s} st3 st'"
    unfolding frame_def using lf(1) off by (auto simp: vl' lv has_loc_def split: if_splits) (simp add: st' add_loc_def)
  moreover have "tracks mem val st'" if t: "tracks mem val st3" and m: "\<exists>M. mem st3 = Some M \<and> M (loc_u l) = val v" for val
  proof -
    obtain M where M: "mem st3 = Some M" "M (loc_u l) = val v" using m by blast
    have Mw: "k \<in> set (var_loc st3 w) \<Longrightarrow> M (loc_u k) = val w" for k w using t M(1) unfolding tracks_def by auto
    obtain M' where M': "mem st' = Some M'" "\<And>x. located x st3 \<Longrightarrow> M' x = M x"
      using mem_kept [OF _ off M(1)] by (auto simp: st' add_loc_def)
    have "located (loc_u l) st3" using gm s2 lf(1) by (auto simp: located_def loc_vars_stack)
    then have "M' (loc_u k) = val w" if "k \<in> set (var_loc st' w)" for k w
      using that M(2) M'(2) Mw alloc_inv_located [OF inv3] by (auto simp: vl' split: if_splits)
    then show ?thesis using M'(1) unfolding tracks_def by blast
  qed
  moreover have "tracks mem val st \<Longrightarrow> tracks mem val st3 \<and> (\<exists>M. mem st3 = Some M \<and> M (loc_u l) = val v)" for val
    using 03 1 2 gm unfolding good_def by blast
  ultimately have "good mem {L_STACK s} st st'"
    using 03 frame_trans [of "{}" st st3 "{L_STACK s}" st'] inv' unfolding good_def by auto
  then show "good mem {} st st'" by (rule good_drop [OF _ in1(7)])
  show "l \<in> set (var_loc st' v)" "tag_of l = LOC_STACK" by (simp_all add: vl' lf(1))
qed

lemma save_to_mem_good:
  assumes s: "save_to_mem B v None st = Some (rl, st')" and inv: "alloc_inv st"
  shows "good mem {} st st' \<and> (\<exists>l \<in> set (var_loc st' v). tag_of l = LOC_STACK)"
proof (cases "find (\<lambda>l. permanent l \<and> \<not> eq_loc (loc_u l) None) (var_loc st v)")
  case (Some l)
  then have l: "l \<in> set (var_loc st v)" "permanent l" by (auto simp: find_Some_iff)
  then have "\<not> dirty l" "tag_of l = LOC_STACK" using inv unfolding alloc_inv_def by blast+
  then show ?thesis using s Some l good_refl [OF inv] by (auto simp: save_to_mem_def save_to_permanent_def)
next
  case None
  show ?thesis
  proof (cases "find (\<lambda>l. tag_of l = LOC_STACK \<and> \<not> eq_loc (loc_u l) None) (var_loc st v)")
    case (Some l)
    then have "l \<in> set (var_loc st v)" "tag_of l = LOC_STACK" by (auto simp: find_Some_iff)
    then show ?thesis using s Some None good_refl [OF inv] by (auto simp: save_to_mem_def)
  next
    case no: None
    then obtain l where "new_stack_loc B v st = Some (l, st')" using s None by (auto simp: save_to_mem_def)
    from new_stack_loc_good [OF this inv] show ?thesis by blast
  qed
qed

lemma reg_type_reg: "reg_type v st = LOC_REG \<or> reg_type v st = LOC_FPU_REG"
  by (simp add: reg_type_def)

lemma save_var_good:
  assumes s: "save_var_not_to_loc B v None st = Some (rl, st')" and inv: "alloc_inv st"
  shows "good mem {} st st' \<and> (\<exists>l \<in> set (var_loc st' v). loc_is_allowed (loc_u l) st' = Some True)"
proof -
  have "find (\<lambda>l. permanent l \<and> tag_of l = reg_type v st \<and> loc_is_allowed (loc_u l) st = Some True \<and>
      \<not> eq_loc (loc_u l) None) (var_loc st v) = None"
    using inv reg_type_reg [of v st] by (auto simp: find_None_iff alloc_inv_def)
  then obtain to_reg where
    c: "(if to_reg then do {
             (l, st) \<leftarrow> alloc_reg B (reg_type v st) st;
             st \<leftarrow> save_var_to_loc B v l st;
             Some (find_loc (var_loc st v) (loc_u l), st)
           }
           else save_to_mem B v None st) = Some (rl, st')"
    using s by (auto simp: save_var_not_to_loc_def Let_def)
  show ?thesis
  proof (cases to_reg)
    case True
    then obtain l st1 where a: "alloc_reg B (reg_type v st) st = Some (l, st1)"
      and sv: "save_var_to_loc B v l st1 = Some st'"
      using c by auto
    obtain r where r: "good mem {} st st1" "loc_u l = reg_u (reg_type v st) r" "\<not> permanent l"
        "is_allowed r (reg_type v st) st1 = Some True" "reg_vars r (reg_type v st) st1 = Some []"
      using alloc_reg_good [OF a inv reg_type_reg] by blast
    note sg = save_to_empty_good [OF sv good_inv [OF r(1)] r(2,3) reg_type_reg r(5,4)]
    then have "loc_is_allowed (reg_u (reg_type v st) r) st' = Some True"
      using r(4) frame_fixed(13) [of "{}" st1 st'] by (simp add: good_def)
    then show ?thesis using sg good_trans0 [OF r(1)] unfolding has_loc_def by metis
  next
    case False
    then have "save_to_mem B v None st = Some (rl, st')" using c by simp
    note m = save_to_mem_good [OF this inv]
    moreover have "loc_is_allowed (loc_u l) st' = Some True" if "tag_of l = LOC_STACK" for l
      using that by (cases "loc_u l") (simp_all add: loc_is_allowed_def)
    ultimately show ?thesis by blast
  qed
qed

lemma move_to_loc_good:
  assumes m: "move_to_loc B v tag st = Some st'" and inv: "alloc_inv st"
  shows "good mem {} st st' \<and> (\<exists>l \<in> set (var_loc st' v). tag_of l = tag)"
proof (cases "\<exists>l \<in> set (var_loc st v). tag_of l = tag \<and> \<not> dirty l")
  case True
  then show ?thesis using m good_refl [OF inv] by (auto simp: move_to_loc_def)
next
  case False
  then have no: "\<forall>l \<in> set (var_loc st v). tag_of l \<noteq> tag" using inv unfolding alloc_inv_def by blast
  then have f: "find (\<lambda>l. tag_of l = tag \<and> permanent l) (var_loc st v) = None" by (auto simp: find_None_iff)
  note m' = m [unfolded move_to_loc_def if_not_P [OF False] f option.case]
  consider "tag = LOC_STACK" | "tag = LOC_REG \<or> tag = LOC_FPU_REG"
    using m' no_fpu_stack by (auto split: if_splits)
  then show ?thesis
  proof cases
    case 1
    then obtain l where "new_stack_loc B v st = Some (l, st')" using m' by auto
    from new_stack_loc_good [OF this inv] show ?thesis using 1 by blast
  next
    case 2
    then obtain l st1 where a: "alloc_reg B tag st = Some (l, st1)" and sv: "save_var_to_loc B v l st1 = Some st'"
      using m' no_fpu_stack by (auto split: if_splits)
    obtain r where r: "good mem {} st st1" "loc_u l = reg_u tag r" "\<not> permanent l"
        "is_allowed r tag st1 = Some True" "reg_vars r tag st1 = Some []"
      using alloc_reg_good [OF a inv 2] by blast
    have "loc_tag (reg_u tag r) = tag" using 2 by auto
    then show ?thesis
      using save_to_empty_good [OF sv good_inv [OF r(1)] r(2,3) 2 r(5,4)] good_trans0 [OF r(1)]
      unfolding has_loc_def by metis
  qed
qed

lemma bellady_ra_good:
  assumes b: "bellady_ra B n tag st = Some (r, st')" and inv: "alloc_inv st" and tag: "tag = LOC_REG \<or> tag = LOC_FPU_REG"
  shows "good mem {} st st' \<and> is_allowed r tag st' = Some True \<and> reg_vars r tag st' = Some []"
    and "r < n" "\<not> has_loc st' v (reg_u tag r)"
proof -
  have d: "do_bellady_ra B n tag st = Some r" using b by (auto simp: bellady_ra_def)
  note al = do_bellady_ra_allowed [OF d]
  have np: "\<not> protected (reg_u tag r) st" using al(2) by (simp add: reg_denied)
  have f: "good mem {reg_u tag r} st st' \<and> reg_vars r tag st' = Some [] \<and> \<not> has_loc st' v (reg_u tag r)"
    using b d tag free_reg_good [OF _ inv, of r st'] free_fpu_reg_good [OF _ inv, of r True st']
    by (auto simp: bellady_ra_def)
  then have g: "good mem {} st st'" using good_drop [OF _ np] by blast
  then show "good mem {} st st' \<and> is_allowed r tag st' = Some True \<and> reg_vars r tag st' = Some []"
    using f al(2) frame_fixed(13) [of "{}" st st' r tag] by (simp add: good_def)
  show "r < n" "\<not> has_loc st' v (reg_u tag r)" using al f by simp_all
qed

lemma free_each_good:
  assumes "free_each B tag is st = Some st'" "alloc_inv st" "tag = LOC_REG \<or> tag = LOC_FPU_REG"
    "\<forall>i \<in> set is. is_allowed i tag st = Some False"
  shows "good mem (reg_u tag ` set is) st st' \<and>
    (\<forall>i \<in> set is. reg_vars i tag st' = Some [] \<and> (\<forall>v. \<not> has_loc st' v (reg_u tag i)))"
  using assms
proof (induction "is" arbitrary: st)
  case Nil
  then show ?case by (simp add: good_refl)
next
  case (Cons i "is")
  obtain st1 where f: "(if tag = LOC_REG then free_reg B i st else free_fpu_reg B i True st) = Some st1"
    and r: "free_each B tag is st1 = Some st'"
    using Cons.prems(1) by auto
  have 1: "good mem {reg_u tag i} st st1 \<and> reg_vars i tag st1 = Some [] \<and> (\<forall>v. \<not> has_loc st1 v (reg_u tag i))"
    using f Cons.prems(3) free_reg_good [OF _ Cons.prems(2), of i st1] free_fpu_reg_good [OF _ Cons.prems(2), of i True st1]
    by (auto split: if_splits)
  have al: "is_allowed j tag st1 = is_allowed j tag st" for j using 1 frame_fixed(13) unfolding good_def by blast
  have "\<forall>j \<in> set is. is_allowed j tag st1 = Some False" using Cons.prems(4) al by simp
  note ih = Cons.IH [OF r _ Cons.prems(3) this]
  have 2: "good mem (reg_u tag ` set is) st1 st'" "\<forall>j \<in> set is. reg_vars j tag st' = Some [] \<and> (\<forall>v. \<not> has_loc st' v (reg_u tag j))"
    using ih 1 good_inv by blast+
  have "reg_vars i tag st' = Some [] \<and> (\<forall>v. \<not> has_loc st' v (reg_u tag i))"
  proof (cases "i \<in> set is")
    case False
    have fr: "frame (reg_u tag ` set is) st1 st'" using 2(1) by (simp add: good_def)
    have "reg_u tag i \<notin> reg_u tag ` set is" using False by (auto simp: reg_u_def)
    moreover have "protected (reg_u tag i) st1" using al [of i] Cons.prems(4) by (simp add: reg_denied)
    ultimately show ?thesis using frame_protected(1,2) [OF fr, of "reg_u tag i"] 1 by auto
  qed (use 2(2) in simp)
  moreover have "good mem (reg_u tag ` set (i # is)) st st'"
    using good_trans [OF conjunct1 [OF 1] 2(1)] by simp
  ultimately show ?case using 2(2) by simp
qed

lemma set_all_denied_fields:
  assumes "set_all_denied B tag b st = Some st'"
  shows "var_loc st' = var_loc st" "stack st' = stack st" "next_se st' = next_se st" "regs st' = regs st"
    "fpu_regs st' = fpu_regs st" "suppress_mov st' = suppress_mov st" "quadrs st' = quadrs st" "back_st st' = back_st st"
  using assms by (auto simp: set_all_denied_def split: if_splits)

lemma set_all_denied_same:
  assumes d: "set_all_denied B tag b st = Some st'" and inv: "alloc_inv st"
  shows "alloc_inv st'" "tracks mem val st \<Longrightarrow> tracks mem val st'" "is_live v st' = is_live v st"
    "has_loc st' = has_loc st" "reg_vars i tag' st' = reg_vars i tag' st" "offsets_kept st st'"
proof -
  note f = set_all_denied_fields [OF d]
  show "alloc_inv st'" using alloc_inv_cong [OF inv f(1-7)] .
  show off: "offsets_kept st st'" by (rule offsets_same [OF f(2)])
  show "tracks mem val st \<Longrightarrow> tracks mem val st'" by (erule tracks_fewer [OF _ inv f(8) off]) (simp add: f(1))
  show "is_live v st' = is_live v st" "has_loc st' = has_loc st" "reg_vars i tag' st' = reg_vars i tag' st"
    using f by (simp_all add: is_live_def has_loc_def reg_vars_def fun_eq_iff)
qed

lemma do_free_all_good:
  assumes f: "do_free_all B n tag st = Some st'" and inv: "alloc_inv st" and tag: "tag = LOC_REG \<or> tag = LOC_FPU_REG"
    and n: "n = (if tag = LOC_REG then reg_num B else fpu_reg_num B)"
  shows "alloc_inv st'" "tracks mem val st \<Longrightarrow> tracks mem val st'"
    "i < n \<Longrightarrow> reg_vars i tag st' = Some [] \<and> \<not> has_loc st' v (reg_u tag i) \<and> is_allowed i tag st' = Some True"
    "is_live v st \<Longrightarrow> var_loc st v \<noteq> [] \<Longrightarrow> var_loc st' v \<noteq> []"
    "is_live v st' = is_live v st"
proof -
  obtain st1 st2 where d: "set_all_denied B tag True st = Some st1" and e: "free_each B tag [0..<n] st1 = Some st2"
    and a: "set_all_denied B tag False st2 = Some st'"
    using f by (auto simp: do_free_all_def deny_all_def allow_all_def)
  note s1 = set_all_denied_same [OF d inv]
  have den: "\<forall>i \<in> set [0..<n]. is_allowed i tag st1 = Some False"
    using d n tag by (auto simp: set_all_denied_def is_allowed_def nth_append split: if_splits)
  note g = free_each_good [OF e s1(1) tag den]
  have gd: "good mem (reg_u tag ` set [0..<n]) st1 st2" using g by blast
  have inv2: "alloc_inv st2" and fr: "frame (reg_u tag ` set [0..<n]) st1 st2" using gd by (simp_all add: good_def)
  note s2 = set_all_denied_same [OF a inv2]
  show "alloc_inv st'" by (rule s2(1))
  show "tracks mem val st \<Longrightarrow> tracks mem val st'" using s1(2) s2(2) gd unfolding good_def by blast
  show "is_live v st' = is_live v st" using s1(3) s2(3) frame_fixed(9) [OF fr] by simp
  show "var_loc st' v \<noteq> []" if "is_live v st" "var_loc st v \<noteq> []"
    using that frame_live [OF fr, of v] s1(3) set_all_denied_fields(1) [OF d] set_all_denied_fields(1) [OF a] by simp
  assume i: "i < n"
  then have "reg_vars i tag st2 = Some [] \<and> (\<forall>v. \<not> has_loc st2 v (reg_u tag i))" using g by simp
  moreover have "is_allowed i tag st' = Some True"
    using a n i tag by (auto simp: set_all_denied_def is_allowed_def nth_append split: if_splits)
  ultimately show "reg_vars i tag st' = Some [] \<and> \<not> has_loc st' v (reg_u tag i) \<and> is_allowed i tag st' = Some True"
    using s2(4,5) by simp
qed

end

end
