(* ===== verification/Blockgen.thy ===== *)
theory Blockgen
  imports Regalloc Outbuf
begin

text \<open>
  The end of \<open>src/src/gencode.c\<close>: what is known at the start and the end of a block, the code for a
  quadruple, a block and a function.
\<close>

subsection \<open>The end of a block\<close>

definition at_start :: "block_id \<Rightarrow> var_id \<Rightarrow> 'b gencode_st \<Rightarrow> bool option" where
  \<comment> \<open>\<open>rb_search(block->vars_at_start, &svd) != NULL\<close>\<close>
  "at_start b v st = do {
     B \<leftarrow> blocks (quadrs st) b;
     t \<leftarrow> vars_at_start B;
     Some (rb_search t (v, \<lparr>loc = None, nearest_use_dist = 0\<rparr>) \<noteq> None)
   }"

definition set_vd_loc :: "block_id \<Rightarrow> var_id \<Rightarrow> loc_t list \<Rightarrow> 'b gencode_st \<Rightarrow> 'b gencode_st" where
  "set_vd_loc b v ls st = st\<lparr>vd_loc := (vd_loc st)(b := (vd_loc st b)(v := ls))\<rparr>"

fun common_locs :: "loc_t list \<Rightarrow> loc_t list \<Rightarrow> loc_t list" where
  \<comment> \<open>the locations of the second list that are some location of the first, in the order of the first;
    a location that has been extracted is no longer in the second list\<close>
  "common_locs [] vd = []"
| "common_locs (vl # vls) vd =
     filter (\<lambda>l. eq_loc (loc_u l) (Some (loc_u vl))) vd @
     common_locs vls (filter (\<lambda>l. \<not> eq_loc (loc_u l) (Some (loc_u vl))) vd)"

definition update_child_vars :: "'b backend_t \<Rightarrow> var_id \<Rightarrow> block_id option \<Rightarrow> 'b gencode_op" where
  "update_child_vars B v child st = do {
     c_assert B (var_loc st v \<noteq> []);
     (case child of
        None \<Rightarrow> Some st
      | Some c \<Rightarrow> do {
          found \<leftarrow> at_start c v st;
          (if \<not> found then Some st
           else if vd_loc st c v = [] then do {
             check (var_loc st v \<noteq> []);
             c_assert B (tl (var_loc st v) = [] \<or> \<not> loc_empty (tl (var_loc st v)));
             st \<leftarrow>
               (if tl (var_loc st v) = [] \<and> loc_is_const (hd (var_loc st v)) then save_var B v st else Some st);
             st \<leftarrow> discard_const v st;
             c_assert B (var_loc_count_tags v LOC_INT st = 0 \<and> var_loc_count_tags v LOC_DOUBLE st = 0);
             let (ls, st) = copy_loc (var_loc st v) st in
             Some (set_vd_loc c v ls st)
           }
           else
             (case common_locs (var_loc st v) (vd_loc st c v) of
                [] \<Rightarrow> do {
                  l \<leftarrow> (case find loc_is_reg (vd_loc st c v) of
                         Some l \<Rightarrow> Some l
                       | None \<Rightarrow> find (\<lambda>l. tag_of l = LOC_STACK) (vd_loc st c v));
                  save_var_to_loc B v l (set_vd_loc c v [l] st)
                }
              | found \<Rightarrow> Some (set_vd_loc c v found st)))
        })
   }"

definition block_var_hint :: "'b backend_t \<Rightarrow> var_id \<Rightarrow> block_id \<Rightarrow> 'b gencode_op" where
  "block_var_hint B v block st = do {
     l \<leftarrow> find_best_src_loc B v st;
     n \<leftarrow> ref_num l st;
     (if n = 1 \<and> \<not> loc_is_const l then do {
        found \<leftarrow> at_start block v st;
        (if found \<and> vd_loc st block v = [] then
           let (l, st) = copy_loc_shallow l st in Some (set_vd_loc block v [l] st)
         else Some st)
      }
      else Some st)
   }"

definition generated :: "block_id option \<Rightarrow> 'b gencode_st \<Rightarrow> bool option" where
  \<comment> \<open>\<open>child != NULL && check_mark(child->mark, MARK_GENERATED)\<close>\<close>
  "generated child st =
     (case child of
        None \<Rightarrow> Some False
      | Some c \<Rightarrow> map_option (\<lambda>B. mark B AND MARK_GENERATED \<noteq> 0) (blocks (quadrs st) c))"

definition in_child :: "block_id option \<Rightarrow> var_id \<Rightarrow> 'b gencode_st \<Rightarrow> bool option" where
  "in_child child v st = (case child of None \<Rightarrow> Some False | Some c \<Rightarrow> at_start c v st)"

definition save_var_at_block_end :: "'b backend_t \<Rightarrow> var_id \<Rightarrow> block_id \<Rightarrow> 'b gencode_op" where
  "save_var_at_block_end B v b st = do {
     Bk \<leftarrow> blocks (quadrs st) b;
     g1 \<leftarrow> generated (child1 Bk) st;
     g2 \<leftarrow> generated (child2 Bk) st;
     in1 \<leftarrow> in_child (child1 Bk) v st;
     in2 \<leftarrow> in_child (child2 Bk) v st;
     c_assert B (is_live v st);
     c_assert B (\<not> (g1 \<and> g2));
     c_assert B (in1 \<or> in2);
     st \<leftarrow> ensure_unique B v st;
     st \<leftarrow> update_child_vars B v (if g1 then child1 Bk else child2 Bk) st;
     st \<leftarrow> update_child_vars B v (if g1 then child2 Bk else child1 Bk) st;
     (if lst Bk \<noteq> [] \<and> (q_op (last (lst Bk)) = Q_GOTO \<or> q_op (last (lst Bk)) = Q_RETURN)
      then (case nxt Bk of None \<Rightarrow> Some st | Some n \<Rightarrow> block_var_hint B v n st)
      else Some st)
   }"

fun save_each :: "('b gencode_st \<Rightarrow> var_id \<Rightarrow> 'b gencode_st option) \<Rightarrow> 'b backend_t \<Rightarrow> var_id list \<Rightarrow> 'b gencode_op" where
  "save_each f B [] st = Some st"
| "save_each f B (v # vl) st = do {
     c_assert B (is_live v st);
     st \<leftarrow> f st v;
     save_each f B vl st
   }"

definition end_vars :: "basic_block_t \<Rightarrow> var_id list" where
  \<comment> \<open>the array \<open>live_at_end\<close> of \<open>lsize\<close> elements\<close>
  "end_vars Bk = take (lsize Bk) (live_at_end Bk)"

definition save_live :: "'b backend_t \<Rightarrow> 'b gencode_op" where
  "save_live B st = do {
     let b = gencode_cur_block st in do {
       Bk \<leftarrow> blocks (quadrs st) b;
       st \<leftarrow> save_each (\<lambda>st v. update_permanent_locations B v st) B (end_vars Bk) st;
       st \<leftarrow> save_each (\<lambda>st v. save_var_at_block_end B v b st) B (end_vars Bk) st;
       Some (st\<lparr>live_vars_saved := True\<rparr>)
     }
   }"

subsection \<open>The start of a block\<close>

definition assign_var_to_loc :: "'b backend_t \<Rightarrow> var_id \<Rightarrow> 'b gencode_op" where
  "assign_var_to_loc B v st = do {
     st \<leftarrow> save_var B v (st\<lparr>suppress_mov := True\<rparr>);
     Some (st\<lparr>suppress_mov := False\<rparr>)
   }"

fun update_locs :: "'b backend_t \<Rightarrow> var_id \<Rightarrow> loc_t list \<Rightarrow> 'b gencode_op" where
  "update_locs B v [] st = Some st"
| "update_locs B v (l # ls) st = do {
     (b, st) \<leftarrow> update_var_loc B v l st;
     update_locs B v ls st
   }"

definition init_var_descr :: "'b backend_t \<Rightarrow> block_id \<Rightarrow> var_id \<Rightarrow> 'b gencode_op" where
  \<comment> \<open>the body of the loop of \<open>init_descr\<close>\<close>
  "init_var_descr B b v st = do {
     c_assert B (is_live v st);
     (if vd_loc st b v \<noteq> [] then update_locs B v (vd_loc st b v) st
      else if loc_empty (var_loc st v) then assign_var_to_loc B v st
      else Some st)
   }"


fun init_descr :: "'b backend_t \<Rightarrow> block_id \<Rightarrow> var_descr_t rbnode_t \<Rightarrow> 'b gencode_op" where
  "init_descr B b the_nil st = Some st"
| "init_descr B b (RBNODE c l k r) st = do {
     st \<leftarrow> init_var_descr B b (fst k) st;
     st \<leftarrow> init_descr B b l st;
     init_descr B b r st
   }"

subsection \<open>Quadruples\<close>

definition discard_dead_arg :: "'b backend_t \<Rightarrow> quadr_arg_t \<Rightarrow> 'b gencode_op" where
  "discard_dead_arg B a st =
     (case a of QA_VAR v \<Rightarrow> (if \<not> is_live v st then discard_var B v st else Some st) | _ \<Rightarrow> Some st)"

definition gencode_param :: "'b backend_t \<Rightarrow> quadr_t \<Rightarrow> quadr_t list \<Rightarrow> 'b gencode_op" where
  "gencode_param B quadr next st =
     (case q_arg1 quadr of
        QA_STR s \<Rightarrow> do {
          c_assert B (case next of [] \<Rightarrow> False | quadr2 # _ \<Rightarrow>
            q_op quadr2 = Q_CALL \<and>
            (case q_arg1 quadr2 of QA_FUNC f \<Rightarrow> qf_tag (quadr_func (quadrs st) ! f) = QF_PRINT_STRING | _ \<Rightarrow> False));
          c_assert B (var_lst st = []);
          gen_print_string B s st
        }
      | QA_VAR v \<Rightarrow> do {
          c_assert B (case next of [] \<Rightarrow> False | quadr2 # _ \<Rightarrow> q_op quadr2 = Q_PARAM \<or> q_op quadr2 = Q_CALL);
          Some (st\<lparr>var_lst := v # var_lst st\<rparr>)
        }
      | _ \<Rightarrow> None)"

definition gencode_call :: "'b backend_t \<Rightarrow> quadr_t \<Rightarrow> 'b gencode_op" where
  "gencode_call B quadr st =
     (case q_arg1 quadr of
        QA_FUNC f \<Rightarrow>
          (if qf_tag (quadr_func (quadrs st) ! f) \<noteq> QF_PRINT_STRING then do {
             retvar \<leftarrow>
               (case q_result quadr of
                  QA_VAR v \<Rightarrow> Some (Some v)
                | r \<Rightarrow> do { c_assert B (r = QA_NONE); Some None });
             st \<leftarrow> gen_call_back B f (var_lst st) retvar st;
             Some (st\<lparr>var_lst := []\<rparr>)
           }
           else do {
             c_assert B (var_lst st = []);
             Some st
           })
      | _ \<Rightarrow> None)"

definition move_arg_to_reg :: "'b backend_t \<Rightarrow> quadr_arg_t \<Rightarrow> 'b gencode_op" where
  "move_arg_to_reg B a st = (case a of QA_VAR v \<Rightarrow> move_to_reg_if_sensible B v st | _ \<Rightarrow> Some st)"

definition gencode_for_quadr :: "'b backend_t \<Rightarrow> quadr_t \<Rightarrow> quadr_t list \<Rightarrow> 'b gencode_op" where
  \<comment> \<open>the second list are the quadruples after this one\<close>
  "gencode_for_quadr B quadr next st =
     (let st = st\<lparr>cur_quadr := quadr # next\<rparr> in
      if q_op quadr \<noteq> Q_CALL \<and>
         (case q_result quadr of QA_VAR v \<Rightarrow> \<not> is_live v st \<and> assigned_in_quadr quadr v | _ \<Rightarrow> False)
      then do {
        st \<leftarrow> (case q_result quadr of QA_VAR v \<Rightarrow> discard_var B v st | _ \<Rightarrow> Some st);
        st \<leftarrow> discard_dead_arg B (q_arg1 quadr) st;
        discard_dead_arg B (q_arg2 quadr) st
      }
      else do {
        st \<leftarrow>
          (if q_op quadr = Q_COPY then
             (case q_result quadr of
                QA_VAR v \<Rightarrow> do {
                  c_assert B (q_arg2 quadr = QA_NONE);
                  st \<leftarrow> copy_to_var B v (q_arg1 quadr) st;
                  st \<leftarrow> discard_dead_arg B (q_arg1 quadr) st;
                  c_assert B (is_live v st);
                  Some st
                }
              | _ \<Rightarrow> None)
           else if q_op quadr = Q_PARAM then gencode_param B quadr next st
           else if q_op quadr = Q_CALL then gencode_call B quadr st
           else do {
             let st = st\<lparr>cur_quadr := next\<rparr> in do {
               st \<leftarrow> (if q_op quadr \<noteq> Q_GET_ADDR then move_arg_to_reg B (q_arg1 quadr) st else Some st);
               st \<leftarrow> move_arg_to_reg B (q_arg2 quadr) st;
               gen_code B quadr (st\<lparr>cur_quadr := quadr # next\<rparr>)
             }
           });
        Some (st\<lparr>cur_quadr := []\<rparr>)
      })"

subsection \<open>Blocks\<close>

definition MARK_RESULT_CHANGED :: u8 where "MARK_RESULT_CHANGED = 0x01"
definition MARK_ARG1_CHANGED :: u8 where "MARK_ARG1_CHANGED = 0x02"
definition MARK_ARG2_CHANGED :: u8 where "MARK_ARG2_CHANGED = 0x04"

definition mark_result :: "quadr_t \<Rightarrow> u8 \<times> 'b gencode_st \<Rightarrow> u8 \<times> 'b gencode_st" where
  "mark_result quadr ms =
     (case q_result quadr of
        QA_VAR v \<Rightarrow>
          if assigned_in_quadr quadr v \<and> is_live v (snd ms)
          then (fst ms OR MARK_RESULT_CHANGED, set_live v False (snd ms))
          else if used_in_quadr quadr v \<and> \<not> is_live v (snd ms)
          then (fst ms OR MARK_RESULT_CHANGED, set_live v True (snd ms))
          else ms
      | _ \<Rightarrow> ms)"

definition mark_arg :: "quadr_arg_t \<Rightarrow> u8 \<Rightarrow> u8 \<times> 'b gencode_st \<Rightarrow> u8 \<times> 'b gencode_st" where
  "mark_arg a m ms =
     (case a of
        QA_VAR v \<Rightarrow> if \<not> is_live v (snd ms) then (fst ms OR m, set_live v True (snd ms)) else ms
      | _ \<Rightarrow> ms)"

fun mark_quadrs :: "quadr_t list \<Rightarrow> 'b gencode_st \<Rightarrow> u8 list \<times> 'b gencode_st" where
  \<comment> \<open>the loop that goes back from the last quadruple\<close>
  "mark_quadrs [] st = ([], st)"
| "mark_quadrs (quadr # qs) st =
     (let (ms, st) = mark_quadrs qs st;
          (m, st) = mark_arg (q_arg2 quadr) MARK_ARG2_CHANGED
            (mark_arg (q_arg1 quadr) MARK_ARG1_CHANGED (mark_result quadr (0, st)))
      in (m # ms, st))"

definition unmark_arg :: "'b backend_t \<Rightarrow> quadr_arg_t \<Rightarrow> 'b gencode_op" where
  "unmark_arg B a st =
     (case a of
        QA_VAR v \<Rightarrow> do { c_assert B (is_live v st); Some (set_live v False st) }
      | _ \<Rightarrow> None)"

definition unmark_result :: "'b backend_t \<Rightarrow> quadr_t \<Rightarrow> 'b gencode_op" where
  "unmark_result B quadr st =
     (case q_result quadr of
        QA_VAR v \<Rightarrow>
          if assigned_in_quadr quadr v
          then do { c_assert B (\<not> is_live v st); Some (set_live v True st) }
          else do {
            c_assert B (used_in_quadr quadr v);
            c_assert B (is_live v st);
            Some (set_live v False st)
          }
      | _ \<Rightarrow> None)"

definition unmark_quadr :: "'b backend_t \<Rightarrow> quadr_t \<Rightarrow> u8 \<Rightarrow> 'b gencode_op" where
  \<comment> \<open>the liveness after the quadruple, in the reverse order\<close>
  "unmark_quadr B quadr m st = do {
     st \<leftarrow> (if m AND MARK_ARG2_CHANGED \<noteq> 0 then unmark_arg B (q_arg2 quadr) st else Some st);
     st \<leftarrow> (if m AND MARK_ARG1_CHANGED \<noteq> 0 then unmark_arg B (q_arg1 quadr) st else Some st);
     (if m AND MARK_RESULT_CHANGED \<noteq> 0 then unmark_result B quadr st else Some st)
   }"

fun gencode_quadrs :: "'b backend_t \<Rightarrow> quadr_t list \<Rightarrow> u8 list \<Rightarrow> 'b gencode_op" where
  "gencode_quadrs B (quadr # qs) (m # ms) st = do {
     st \<leftarrow> unmark_quadr B quadr m st;
     st \<leftarrow> gencode_for_quadr B quadr qs st;
     gencode_quadrs B qs ms st
   }"
| "gencode_quadrs B _ _ st = Some st"

fun set_live_all :: "var_id list \<Rightarrow> bool \<Rightarrow> 'b gencode_st \<Rightarrow> 'b gencode_st" where
  "set_live_all [] b st = st"
| "set_live_all (v # vl) b st = set_live_all vl b (set_live v b st)"

fun discard_at_end :: "'b backend_t \<Rightarrow> var_id list \<Rightarrow> 'b gencode_op" where
  "discard_at_end B [] st = Some st"
| "discard_at_end B (v # vl) st = do {
     c_assert B (is_live v st);
     st \<leftarrow> discard_var0 B v False (set_live v False st);
     discard_at_end B vl st
   }"

definition get_label_for_block :: "block_id \<Rightarrow> string" where
  "get_label_for_block b = ''b'' @ show_nat b"

definition gencode_for_block :: "'b backend_t \<Rightarrow> block_id \<Rightarrow> 'b gencode_op" where
  "gencode_for_block B b st = do {
     st \<leftarrow> gen_label B (get_label_for_block b) st;
     Bk \<leftarrow> blocks (quadrs st) b;
     let (ms, st) = mark_quadrs (lst Bk) (set_live_all (end_vars Bk) True st) in do {
       t \<leftarrow> vars_at_start Bk;
       st \<leftarrow> init_descr B b (root t) st;
       st \<leftarrow> gencode_quadrs B (lst Bk) ms (st\<lparr>live_vars_saved := False\<rparr>);
       st \<leftarrow> (if \<not> live_vars_saved st then save_live B st else Some st);
       discard_at_end B (end_vars Bk) st
     }
   }"

subsection \<open>Functions\<close>

definition var_size :: "'b backend_t \<Rightarrow> var_t \<Rightarrow> int option" where
  "var_size B v =
     (case v_qtype v of
        VT_INT \<Rightarrow> Some (int_size B)
      | VT_DOUBLE \<Rightarrow> Some (double_size B)
      | VT_PTR \<Rightarrow> Some (ptr_size B)
      | VT_ARRAY \<Rightarrow>
          (case v_type v of
             array_type p b n \<Rightarrow>
               (case cons b of
                  TYPE_BOOLEAN \<Rightarrow> Some (sint (n * word_of_int (int_size B)))
                | TYPE_INT \<Rightarrow> Some (sint (n * word_of_int (int_size B)))
                | TYPE_DOUBLE \<Rightarrow> Some (sint (n * word_of_int (double_size B)))
                | _ \<Rightarrow> None)
           | _ \<Rightarrow> None)
      | _ \<Rightarrow> None)"

fun set_sizes :: "'b backend_t \<Rightarrow> var_id list \<Rightarrow> 'b gencode_op" where
  "set_sizes B [] st = Some st"
| "set_sizes B (v # vl) st = do {
     c_assert B (var_loc st v = []);
     n \<leftarrow> var_size B (vars (quadrs st) ! v);
     set_sizes B vl (set_size v n st)
   }"

fun place_arrays :: "'b backend_t \<Rightarrow> var_id list \<Rightarrow> 'b gencode_op" where
  "place_arrays B [] st = Some st"
| "place_arrays B (v # vl) st =
     (if qtype_of v st = VT_ARRAY then do {
        (s, st) \<leftarrow> stack_insert_new B v st;
        let (l, st) = new_loc (L_STACK s) st in
        place_arrays B vl (add_loc v (l\<lparr>permanent := True\<rparr>) st)
      }
      else place_arrays B vl st)"

fun gencode_blocks :: "nat \<Rightarrow> 'b backend_t \<Rightarrow> block_id option \<Rightarrow> 'b gencode_op" where
  \<comment> \<open>the fuel is the number of blocks ever made\<close>
  "gencode_blocks n B None st = Some st"
| "gencode_blocks 0 B (Some b) st = None"
| "gencode_blocks (Suc n) B (Some b) st = do {
     st \<leftarrow> gencode_for_block B b (st\<lparr>gencode_cur_block := b\<rparr>);
     Bk \<leftarrow> blocks (quadrs st) b;
     gencode_blocks n B (nxt Bk) st
   }"

definition reset_gencode :: "func_id \<Rightarrow> 'b backend_t \<Rightarrow> 'b gencode_st \<Rightarrow> 'b gencode_st" where
  \<comment> \<open>the new stack, a sentry, and the registers\<close>
  "reset_gencode f B st =
     st\<lparr>gencode_cur_func := f,
        stack := [\<lparr>se_id = next_se st, se_vars = [], se_size = -1, se_offset = 0\<rparr>],
        next_se := next_se st + 1,
        first_stack_free := Some (next_se st), stack_size := 0, max_stack_size := -1,
        regs := replicate (reg_num B) [], fpu_regs := replicate (fpu_reg_num B) []\<rparr>"

definition gencode :: "'b backend_t \<Rightarrow> func_id \<Rightarrow> 'b gencode_op" where
  "gencode B f st = do {
     check (f < length (quadr_func (quadrs st)));
     let func = quadr_func (quadrs st) ! f;
         nodes = map node_vars (vars_lst func);
         st = reset_gencode f B st in do {
       c_assert B (qf_tag func = QF_USER_DEFINED);
       st \<leftarrow> allow_all B LOC_REG st;
       st \<leftarrow> allow_all B LOC_FPU_REG st;
       st \<leftarrow> set_sizes B (concat nodes) st;
       args_num \<leftarrow> (case qf_type func of func_type p r n as \<Rightarrow> Some n | _ \<Rightarrow> None);
       st \<leftarrow> place_arrays B (case nodes of [] \<Rightarrow> [] | vs # nodes \<Rightarrow> drop args_num vs @ concat nodes) st;
       st \<leftarrow> start_func B f st;
       st \<leftarrow> gencode_blocks (next_block_id (quadrs st)) B (qf_blocks func) st;
       let st = (if max_stack_size st = -1 then st\<lparr>max_stack_size := 0\<rparr> else st) in do {
         st \<leftarrow> end_func B f (max_stack_size st) st;
         Some (st\<lparr>stack := []\<rparr>)
       }
     }
   }"

definition gencode_init :: "'b backend_t \<Rightarrow> quadr_st \<Rightarrow> 'b \<Rightarrow> 'b gencode_st" where
  "gencode_init B q b =
     \<lparr>quadrs = q, var_loc = (\<lambda>v. []), vd_loc = (\<lambda>b v. []), next_loc = 1, stack = [], next_se = 0,
      stack_size = 0, max_stack_size = 0, first_stack_free = None, cur_quadr = [],
      gencode_cur_block = 0, gencode_cur_func = 0,
      regs = replicate (reg_num B) [], fpu_regs = replicate (fpu_reg_num B) [],
      blacklist_reg = replicate (reg_num B) False, blacklist_fpu_reg = replicate (fpu_reg_num B) False,
      suppress_mov = False, live_vars_saved = False, var_lst = [], back_st = b\<rparr>"

end
