(* ===== verification/Backend.thy ===== *)
theory Backend
  imports Blockgen
begin

text \<open>
  What the two backends have in common: the text they write, the locations that they choose, and
  the machine of the compiler, \<open>host_t\<close>: the configuration, the cast of a pointer to \<open>int\<close>, and the
  text that \<open>%f\<close> makes of a double.
\<close>

record host_t =
  h_asserts :: bool
  h_int_cast :: "se_id \<Rightarrow> se_id"
  h_double_text :: "double \<Rightarrow> string"

record text_back =
  outbuf :: outbuf_t
  fout :: string

subsection \<open>Output\<close>

definition on_outbuf :: "(outbuf_t \<Rightarrow> outbuf_t option) \<Rightarrow> 'a text_back_scheme gencode_op" where
  "on_outbuf f st = do {
     buf \<leftarrow> f (outbuf (back_st st));
     Some (st\<lparr>back_st := (back_st st)\<lparr>outbuf := buf\<rparr>\<rparr>)
   }"

definition put :: "string list \<Rightarrow> 'a text_back_scheme gencode_op" where
  \<comment> \<open>\<open>write\<close> of the pieces of a format\<close>
  "put ss st = on_outbuf (outbuf_write (concat ss)) st"

definition putln :: "string list \<Rightarrow> 'a text_back_scheme gencode_op" where
  "putln ss st = on_outbuf (outbuf_writeln (concat ss)) st"

subsection \<open>Arguments and locations\<close>

text \<open>A pointer to a location: to one that the function has allocated, or into the list of a variable.\<close>

datatype loc_ptr = Own loc_t | In_list var_id nat

definition deref :: "loc_ptr \<Rightarrow> 'b gencode_st \<Rightarrow> loc_t option" where
  \<comment> \<open>a location that has been freed is \<open>None\<close>\<close>
  "deref p st = (case p of Own l \<Rightarrow> Some l | In_list v i \<Rightarrow> find (\<lambda>l. loc_id l = i) (var_loc st v))"

definition arg_var :: "quadr_arg_t \<Rightarrow> var_id option" where
  "arg_var a = (case a of QA_VAR v \<Rightarrow> Some v | _ \<Rightarrow> None)"

definition opt_live :: "var_id option \<Rightarrow> bool \<Rightarrow> 'b gencode_st \<Rightarrow> 'b gencode_st" where
  "opt_live v b st = (case v of None \<Rightarrow> st | Some v \<Rightarrow> set_live v b st)"

definition discard_if_dead :: "'b backend_t \<Rightarrow> var_id option \<Rightarrow> 'b gencode_op" where
  "discard_if_dead B v st =
     (case v of None \<Rightarrow> Some st | Some v \<Rightarrow> (if \<not> is_live v st then discard_var B v st else Some st))"

definition copy_opt :: "loc_t option \<Rightarrow> 'b gencode_st \<Rightarrow> loc_t option \<times> 'b gencode_st" where
  "copy_opt l st =
     (case l of None \<Rightarrow> (None, st) | Some l \<Rightarrow> let (l, st) = copy_loc_shallow l st in (Some l, st))"

record gen_args =
  ga_var0 :: "var_id option"
  ga_var1 :: "var_id option"
  ga_var2 :: "var_id option"
  ga_live1 :: bool
  ga_live2 :: bool

definition opt_src :: "var_id option \<Rightarrow> 'b gencode_st \<Rightarrow> loc_t option" where
  "opt_src v st = (case v of None \<Rightarrow> None | Some v \<Rightarrow> std_find_best_src_loc v st)"

definition own_reg :: "'b backend_t \<Rightarrow> loc_tag_t \<Rightarrow> 'b gencode_st \<Rightarrow> (loc_ptr \<times> 'b gencode_st) option" where
  "own_reg B tag st = do { (l, st) \<leftarrow> alloc_reg B tag st; Some (Own l, st) }"

definition label_of :: "quadr_arg_t \<Rightarrow> string option" where
  "label_of a = (case a of QA_LABEL b \<Rightarrow> Some (get_label_for_block b) | _ \<Rightarrow> None)"

definition word_mult :: "i32 \<Rightarrow> int \<Rightarrow> int" where
  \<comment> \<open>\<open>int * int\<close>\<close>
  "word_mult a n = sint (a * word_of_int n)"

end
