(* ===== verification/Quadr_Backend.thy ===== *)
theory Quadr_Backend
  imports Backend
begin

text \<open>
  \<open>src/src/quadr_backend.c\<close>: the backend that writes quadruples over registers as text.

  Its state is the output buffer and the text of the file \<open>backend->fout\<close>.
\<close>

type_synonym q_op = "text_back gencode_op"

subsection \<open>Output\<close>

definition q_loc_str :: "host_t \<Rightarrow> 'b gencode_st \<Rightarrow> loc_t option \<Rightarrow> string option" where
  "q_loc_str H st l =
     (case l of
        None \<Rightarrow> Some ''NULL''
      | Some l \<Rightarrow>
          (case loc_u l of
             L_INT i \<Rightarrow> Some (show_int (sint i))
           | L_DOUBLE d \<Rightarrow> Some (h_double_text H d)
           | L_REG r \<Rightarrow> Some (''$.i'' @ show_nat (r + 3))
           | L_FPU_REG r \<Rightarrow> Some (''$.d'' @ show_nat (r + 3))
           | L_STACK s \<Rightarrow> map_option (\<lambda>e. ''{@FP@'' @ show_int (se_offset e) @ ''@}'') (se_find s st)))"

fun if_op_str :: "quadr_op_t \<Rightarrow> string option" where
  "if_op_str Q_IF_EQ = Some ''==''"
| "if_op_str Q_IF_NE = Some ''/=''"
| "if_op_str Q_IF_LT = Some ''<''"
| "if_op_str Q_IF_GT = Some ''>''"
| "if_op_str Q_IF_LE = Some ''<=''"
| "if_op_str Q_IF_GE = Some ''>=''"
| "if_op_str _ = None"

definition q_gen_return :: q_op where
  "q_gen_return st = do { st \<leftarrow> putln [''@E@''] st; putln [''return''] st }"

fun type_to_str :: "type_cons_t \<Rightarrow> string option" where
  "type_to_str TYPE_BOOLEAN = Some ''boolean''"
| "type_to_str TYPE_INT = Some ''int''"
| "type_to_str TYPE_DOUBLE = Some ''double''"
| "type_to_str TYPE_VOID = Some ''void''"
| "type_to_str _ = None"

subsection \<open>Functions\<close>

fun write_args :: "type_t list \<Rightarrow> q_op" where
  "write_args [] st = Some st"
| "write_args (t # ts) st = do {
     s \<leftarrow> type_to_str (cons t);
     st \<leftarrow> put [s, '' ->''] st;
     write_args ts st
   }"

fun q_stack_params :: "text_back backend_t \<Rightarrow> nat \<Rightarrow> var_id list \<Rightarrow> q_op" where
  "q_stack_params B i [] st = Some st"
| "q_stack_params B i (v # vl) st = do {
     st \<leftarrow> stack_param B v (- int i - 1) st;
     q_stack_params B (i + 1) vl st
   }"

definition q_start_func :: "text_back backend_t \<Rightarrow> func_id \<Rightarrow> q_op" where
  "q_start_func B f st =
     (let func = quadr_func (quadrs st) ! f in
      case qf_type func of
        func_type p ret n as \<Rightarrow> do {
          st \<leftarrow> on_outbuf (\<lambda>buf. Some (clearbuf buf)) st;
          st \<leftarrow> put [''function '', qf_name func, '' : ''] st;
          st \<leftarrow> write_args as st;
          s \<leftarrow> type_to_str (cons ret);
          st \<leftarrow> putln [s, '' :''] st;
          st \<leftarrow> (if qf_name func = ''main'' then putln [''$.i0 := 0''] st else Some st);
          st \<leftarrow> putln [''@P@''] st;
          check (vars_lst func \<noteq> [] \<and> length as \<le> length (node_vars (hd (vars_lst func))));
          c_assert B (length as = n);
          q_stack_params B 0 (take (length as) (node_vars (hd (vars_lst func)))) st
        }
      | _ \<Rightarrow> None)"

definition q_end_func :: "func_id \<Rightarrow> int \<Rightarrow> q_op" where
  "q_end_func f n st = do {
     st \<leftarrow> putln [''function end''] st;
     let prologue = (if n > 0 then ''$.i0 := $.i0 + '' @ show_int n else '''');
         epilogue = (if n > 0 then ''$.i0 := $.i0 - '' @ show_int n else '''') in do {
       st \<leftarrow> on_outbuf (fix_stack n prologue epilogue (\<lambda>off. ''$.i0 - '' @ show_int off)) st;
       let st = st\<lparr>back_st := (back_st st)\<lparr>fout := fout (back_st st) @ writeout (outbuf (back_st st))\<rparr>\<rparr> in
       on_outbuf (\<lambda>buf. Some (clearbuf buf)) st
     }
   }"

subsection \<open>\<open>gen_code\<close>\<close>

definition update_locations ::
  "text_back backend_t \<Rightarrow> gen_args \<Rightarrow> loc_ptr option \<Rightarrow> loc_t option \<Rightarrow> loc_t option \<Rightarrow> text_back gencode_st \<Rightarrow>
    (loc_t \<times> loc_t option \<times> loc_t option \<times> text_back gencode_st) option"
where
  "update_locations B ga aloc l1 l2 st = do {
     p \<leftarrow> aloc;
     let (l1, st) = copy_opt l1 st; (l2, st) = copy_opt l2 st in do {
       l0 \<leftarrow> deref p st;
       v0 \<leftarrow> ga_var0 ga;
       let (l0, st) = copy_loc_shallow l0 st;
           st = opt_live (ga_var2 ga) (ga_live2 ga) (opt_live (ga_var1 ga) (ga_live1 ga) st) in do {
         st \<leftarrow> discard_var B v0 st;
         st \<leftarrow> discard_if_dead B (ga_var1 ga) st;
         st \<leftarrow> discard_if_dead B (ga_var2 ga) st;
         st \<leftarrow> flush_loc B (loc_u l0) st;
         (b, st) \<leftarrow> update_var_loc B v0 l0 st;
         Some (l0, l1, l2, set_live v0 True st)
       }
     }
   }"

definition load_arg :: "'b backend_t \<Rightarrow> var_id option \<Rightarrow> 'b gencode_op" where
  "load_arg B v st =
     (case v of
        None \<Rightarrow> Some st
      | Some v \<Rightarrow>
          (if qtype_of v st \<noteq> VT_ARRAY \<and>
              (case std_find_best_src_loc v st of None \<Rightarrow> True | Some l \<Rightarrow> tag_of l = LOC_STACK)
           then move_to_reg B v st else Some st))"

definition dead_reg :: "var_id option \<Rightarrow> bool \<Rightarrow> 'b gencode_st \<Rightarrow> loc_ptr option \<Rightarrow> loc_ptr option" where
  \<comment> \<open>the register of an argument that is dead afterwards, otherwise the choice before\<close>
  "dead_reg v lv st p =
     (case v of
        Some v \<Rightarrow>
          (if lv then p
           else (case std_find_best_dest_loc v st of
                   Some l \<Rightarrow> (if loc_is_reg l then Some (In_list v (loc_id l)) else None)
                 | None \<Rightarrow> None))
      | None \<Rightarrow> p)"

definition choose_loc0 ::
  "text_back backend_t \<Rightarrow> quadr_t \<Rightarrow> var_type_t \<Rightarrow> gen_args \<Rightarrow> text_back gencode_st \<Rightarrow>
    (loc_ptr option \<times> text_back gencode_st) option"
where
  "choose_loc0 B quadr qtype ga st =
     (case ga_var0 ga of
        None \<Rightarrow> Some (None, st)
      | Some v0 \<Rightarrow>
          (if \<not> assigned_in_quadr quadr v0 then Some (None, st)
           else if var_loc st v0 = [] then
             (case dead_reg (ga_var2 ga) (ga_live2 ga) st (dead_reg (ga_var1 ga) (ga_live1 ga) st None) of
                Some p \<Rightarrow> Some (Some p, st)
              | None \<Rightarrow> do {
                  (p, st) \<leftarrow>
                    (if qtype = VT_INT \<or> qtype = VT_PTR \<or> qtype = VT_ARRAY then own_reg B LOC_REG st
                     else do { c_assert B (qtype = VT_DOUBLE); own_reg B LOC_FPU_REG st });
                  Some (Some p, st)
                })
           else do {
             l \<leftarrow> std_find_best_dest_loc v0 st;
             (if loc_is_reg l then Some (Some (In_list v0 (loc_id l)), st)
              else do {
                (p, st) \<leftarrow> own_reg B (reg_type v0 st) st;
                Some (Some p, st)
              })
           }))"

definition q_binop :: "text_back backend_t \<Rightarrow> host_t \<Rightarrow> string \<Rightarrow> gen_args \<Rightarrow> loc_ptr option \<Rightarrow> q_op" where
  "q_binop B H op ga p0 st = do {
     (l0, l1, l2, st) \<leftarrow> update_locations B ga p0 (opt_src (ga_var1 ga) st) (opt_src (ga_var2 ga) st) st;
     s0 \<leftarrow> q_loc_str H st (Some l0);
     s1 \<leftarrow> q_loc_str H st l1;
     s2 \<leftarrow> q_loc_str H st l2;
     putln [s0, '' := '', s1, '' '', op, '' '', s2] st
   }"

definition q_return :: "text_back backend_t \<Rightarrow> var_type_t \<Rightarrow> gen_args \<Rightarrow> q_op" where
  "q_return B qtype ga st = do {
     st \<leftarrow>
       (case opt_src (ga_var1 ga) st of
          None \<Rightarrow> Some st
        | Some l1 \<Rightarrow> do {
            v1 \<leftarrow> ga_var1 ga;
            c_assert B (qtype = VT_INT \<or> qtype = VT_DOUBLE);
            save_var_to_loc B v1 (init_loc (if qtype = VT_INT then L_REG 0 else L_FPU_REG 0)) st
          });
     q_gen_return st
   }"

definition q_if_reg :: "host_t \<Rightarrow> string \<Rightarrow> nat \<Rightarrow> loc_t \<Rightarrow> text_back gencode_st \<Rightarrow> (string \<times> text_back gencode_st) option" where
  \<comment> \<open>the register of an operand, a helper register for one that is in memory or constant\<close>
  "q_if_reg H c n l st =
     (case loc_u l of
        L_REG r \<Rightarrow> Some (show_nat (r + 3), st)
      | L_FPU_REG r \<Rightarrow> Some (show_nat (r + 3), st)
      | _ \<Rightarrow> do {
          s \<leftarrow> q_loc_str H st (Some l);
          st \<leftarrow> putln [''$.'', c, show_nat n, '' := '', s] st;
          Some (show_nat n, st)
        })"

definition q_if :: "text_back backend_t \<Rightarrow> host_t \<Rightarrow> quadr_t \<Rightarrow> var_type_t \<Rightarrow> gen_args \<Rightarrow> q_op" where
  "q_if B H quadr qtype ga st = do {
     st \<leftarrow> save_live B st;
     v1 \<leftarrow> ga_var1 ga;
     v2 \<leftarrow> ga_var2 ga;
     l1 \<leftarrow> std_find_best_src_loc v1 st;
     l2 \<leftarrow> std_find_best_src_loc v2 st;
     op \<leftarrow> if_op_str (q_op quadr);
     label \<leftarrow> label_of (q_result quadr);
     (if (loc_is_reg l1 \<or> loc_is_const l1) \<and> (loc_is_reg l2 \<or> loc_is_const l2) then do {
        s1 \<leftarrow> q_loc_str H st (Some l1);
        s2 \<leftarrow> q_loc_str H st (Some l2);
        putln [''if '', s1, '' '', op, '' '', s2, '' goto '', label] st
      }
      else do {
        c_assert B (qtype = VT_INT \<or> qtype = VT_DOUBLE);
        let c = (if qtype = VT_INT then ''i'' else ''d'') in do {
          (r1, st) \<leftarrow> q_if_reg H c 1 l1 st;
          (r2, st) \<leftarrow> q_if_reg H c 2 l2 st;
          putln [''if $.'', c, r1, '' '', op, '' $.'', c, r2, '' goto '', label] st
        }
      })
   }"

definition offset_text :: "int \<Rightarrow> string" where
  "offset_text off = (if off \<ge> 0 then '' + '' @ show_int off else '' - '' @ show_int (- off))"

definition q_read_ptr :: "text_back backend_t \<Rightarrow> host_t \<Rightarrow> gen_args \<Rightarrow> loc_ptr option \<Rightarrow> q_op" where
  "q_read_ptr B H ga p0 st = do {
     v0 \<leftarrow> ga_var0 ga;
     l2 \<leftarrow> opt_src (ga_var2 ga) st;
     (case loc_u l2 of
        L_INT i \<Rightarrow> do {
          (l0, l1, l2, st) \<leftarrow> update_locations B ga p0 (opt_src (ga_var1 ga) st) (Some l2) st;
          s0 \<leftarrow> q_loc_str H st (Some l0);
          s1 \<leftarrow> q_loc_str H st l1;
          putln [s0, '' := {'', s1, offset_text (word_mult i (size_of v0 st)), ''}''] st
        }
      | _ \<Rightarrow> do {
          (l, st) \<leftarrow> alloc_reg B LOC_REG st;
          r \<leftarrow> (case loc_u l of L_REG r \<Rightarrow> Some (r + 3) | _ \<Rightarrow> None);
          st \<leftarrow> deny_reg B r LOC_REG st;
          (l0, l1, l2, st) \<leftarrow> update_locations B ga p0 (opt_src (ga_var1 ga) st) (opt_src (ga_var2 ga) st) st;
          st \<leftarrow> allow_reg B r LOC_REG st;
          s0 \<leftarrow> q_loc_str H st (Some l0);
          s1 \<leftarrow> q_loc_str H st l1;
          s2 \<leftarrow> q_loc_str H st l2;
          st \<leftarrow> putln [''$.i'', show_nat r, '' := '', s2, '' * '', show_int (size_of v0 st)] st;
          st \<leftarrow> putln [''$.i'', show_nat r, '' := $.i'', show_nat r, '' + '', s1] st;
          putln [s0, '' := {$.i'', show_nat r, '' + 0}''] st
        })
   }"

text \<open>The format for a constant offset has three conversions and gets two arguments: \<open>None\<close>.\<close>

definition q_write_ptr :: "text_back backend_t \<Rightarrow> host_t \<Rightarrow> gen_args \<Rightarrow> q_op" where
  "q_write_ptr B H ga st = do {
     v0 \<leftarrow> ga_var0 ga;
     v2 \<leftarrow> ga_var2 ga;
     l1 \<leftarrow> opt_src (ga_var1 ga) st;
     (case loc_u l1 of
        L_INT i \<Rightarrow> None
      | _ \<Rightarrow> do {
          (l, st) \<leftarrow> alloc_reg B LOC_REG st;
          r \<leftarrow> (case loc_u l of L_REG r \<Rightarrow> Some (r + 3) | _ \<Rightarrow> None);
          s2 \<leftarrow> q_loc_str H st (std_find_best_src_loc v2 st);
          s1 \<leftarrow> q_loc_str H st (opt_src (ga_var1 ga) st);
          s0 \<leftarrow> q_loc_str H st (std_find_best_src_loc v0 st);
          st \<leftarrow> putln [''$.i'', show_nat r, '' := '', s1, '' * '', show_int (size_of v2 st)] st;
          st \<leftarrow> putln [''$.i'', show_nat r, '' := $.i'', show_nat r, '' + '', s0] st;
          putln [''{$.i'', show_nat r, '' + 0} := '', s2] st
        })
   }"

definition q_get_addr :: "text_back backend_t \<Rightarrow> host_t \<Rightarrow> gen_args \<Rightarrow> loc_ptr option \<Rightarrow> q_op" where
  "q_get_addr B H ga p0 st = do {
     v0 \<leftarrow> ga_var0 ga;
     v1 \<leftarrow> ga_var1 ga;
     l1 \<leftarrow> std_find_best_src_loc v1 st;
     c_assert B (qtype_of v0 st = VT_PTR \<and> qtype_of v1 st = VT_ARRAY);
     s \<leftarrow> (case loc_u l1 of L_STACK s \<Rightarrow> Some s | _ \<Rightarrow> None);
     (l0, l1, l2, st) \<leftarrow> update_locations B ga p0 (Some l1) (opt_src (ga_var2 ga) st) st;
     c_assert B (tag_of l0 = LOC_REG);
     s0 \<leftarrow> q_loc_str H st (Some l0);
     e \<leftarrow> se_find s st;
     putln [s0, '' := @FP@'', show_int (se_offset e), ''@''] st
   }"

definition q_gen_op ::
  "text_back backend_t \<Rightarrow> host_t \<Rightarrow> quadr_t \<Rightarrow> var_type_t \<Rightarrow> gen_args \<Rightarrow> loc_ptr option \<Rightarrow> q_op"
where
  \<comment> \<open>the \<open>switch\<close> of \<open>gen_code\<close>\<close>
  "q_gen_op B H quadr qtype ga p0 st =
     (case q_op quadr of
        Q_ADD \<Rightarrow> q_binop B H ''+'' ga p0 st
      | Q_SUB \<Rightarrow> q_binop B H ''-'' ga p0 st
      | Q_DIV \<Rightarrow> q_binop B H ''/'' ga p0 st
      | Q_MUL \<Rightarrow> q_binop B H ''*'' ga p0 st
      | Q_MOD \<Rightarrow> q_binop B H ''%'' ga p0 st
      | Q_RETURN \<Rightarrow> q_return B qtype ga st
      | Q_GOTO \<Rightarrow> do {
          st \<leftarrow> save_live B st;
          label \<leftarrow> label_of (q_result quadr);
          putln [''goto '', label] st
        }
      | Q_READ_PTR \<Rightarrow> q_read_ptr B H ga p0 st
      | Q_WRITE_PTR \<Rightarrow> q_write_ptr B H ga st
      | Q_GET_ADDR \<Rightarrow> q_get_addr B H ga p0 st
      | _ \<Rightarrow> (if is_if_op (q_op quadr) then q_if B H quadr qtype ga st else None))"

definition assigned_var :: "quadr_t \<Rightarrow> gen_args \<Rightarrow> var_id option" where
  "assigned_var quadr ga =
     (case ga_var0 ga of Some v \<Rightarrow> (if assigned_in_quadr quadr v then Some v else None) | None \<Rightarrow> None)"

definition quadr_args :: "quadr_t \<Rightarrow> 'b gencode_st \<Rightarrow> gen_args" where
  "quadr_args quadr st =
     (let v1 = arg_var (q_arg1 quadr); v2 = arg_var (q_arg2 quadr) in
      \<lparr>ga_var0 = arg_var (q_result quadr), ga_var1 = v1, ga_var2 = v2,
       ga_live1 = (case v1 of None \<Rightarrow> False | Some v \<Rightarrow> is_live v st),
       ga_live2 = (case v2 of None \<Rightarrow> False | Some v \<Rightarrow> is_live v st)\<rparr>)"

definition q_gen_code :: "text_back backend_t \<Rightarrow> host_t \<Rightarrow> quadr_t \<Rightarrow> q_op" where
  "q_gen_code B H quadr st = do {
     let qtype = quadr_type (quadrs st) quadr;
         ga = quadr_args quadr st;
         v0 = assigned_var quadr ga in do {
       c_assert B (case v0 of Some v \<Rightarrow> is_live v st | None \<Rightarrow> True);
       let st = opt_live (ga_var2 ga) True (opt_live (ga_var1 ga) True (opt_live v0 False st)) in do {
         st \<leftarrow> load_arg B (ga_var1 ga) st;
         st \<leftarrow> load_arg B (ga_var2 ga) st;
         (p0, st) \<leftarrow> choose_loc0 B quadr qtype ga st;
         st \<leftarrow> q_gen_op B H quadr qtype ga p0 st;
         let st = opt_live v0 True
           (opt_live (ga_var2 ga) (ga_live2 ga) (opt_live (ga_var1 ga) (ga_live1 ga) st)) in do {
           st \<leftarrow> discard_if_dead B (ga_var0 ga) st;
           st \<leftarrow> discard_if_dead B (ga_var1 ga) st;
           discard_if_dead B (ga_var2 ga) st
         }
       }
     }
   }"

subsection \<open>Calls\<close>

definition reg_arg :: "'b backend_t \<Rightarrow> var_id \<Rightarrow> 'b gencode_st \<Rightarrow> (loc_t \<times> 'b gencode_st) option" where
  \<comment> \<open>the best source of an argument, which is moved to a register when it is in memory\<close>
  "reg_arg B v st = do {
     l \<leftarrow> std_find_best_src_loc v st;
     st \<leftarrow> (if tag_of l = LOC_STACK then move_to_reg B v st else Some st);
     l \<leftarrow> std_find_best_src_loc v st;
     Some (l, st)
   }"

fun q_pass_args :: "text_back backend_t \<Rightarrow> host_t \<Rightarrow> nat \<Rightarrow> var_id list \<Rightarrow> text_back gencode_st \<Rightarrow> (nat \<times> text_back gencode_st) option" where
  "q_pass_args B H n [] st = Some (n, st)"
| "q_pass_args B H n (v # args) st = do {
     (l, st) \<leftarrow> reg_arg B v st;
     s \<leftarrow> q_loc_str H st (Some l);
     st \<leftarrow> putln [''{$.i0 + '', show_nat n, ''} := '', s] st;
     q_pass_args B H (n + 1) args st
   }"

text \<open>
  A location of \<open>retvar\<close> is freed by \<open>discard_var\<close> before \<open>update_var_loc\<close> reads it; it is back
  in its pool, with the same tag and register.
\<close>

definition q_read_call :: "text_back backend_t \<Rightarrow> host_t \<Rightarrow> string \<Rightarrow> var_id list \<Rightarrow> var_id option \<Rightarrow> q_op" where
  "q_read_call B H text args retvar st =
     (case retvar of
        None \<Rightarrow> Some st
      | Some v \<Rightarrow> do {
          (p, st) \<leftarrow>
            (case std_find_best_dest_loc v st of
               Some l \<Rightarrow> (if loc_is_reg l then Some (In_list v (loc_id l), st) else own_reg B (reg_type v st) st)
             | None \<Rightarrow> own_reg B (reg_type v st) st);
          l \<leftarrow> deref p st;
          s \<leftarrow> q_loc_str H st (Some l);
          st \<leftarrow> putln [s, '' := '', text] st;
          st \<leftarrow> discard_var B v st;
          (b, st) \<leftarrow> update_var_loc B v l st;
          discard_dead_vars B args st
        })"

definition q_gen_call :: "text_back backend_t \<Rightarrow> host_t \<Rightarrow> func_id \<Rightarrow> var_id list \<Rightarrow> var_id option \<Rightarrow> q_op" where
  "q_gen_call B H f args retvar st =
     (let func = quadr_func (quadrs st) ! f;
          print = (case args of
            v # _ \<Rightarrow> do {
              (l, st) \<leftarrow> reg_arg B v st;
              s \<leftarrow> q_loc_str H st (Some l);
              st \<leftarrow> putln [''print '', s] st;
              discard_dead_vars B args st
            }
          | [] \<Rightarrow> None) in
      case qf_tag func of
        QF_PRINT_INT \<Rightarrow> print
      | QF_PRINT_DOUBLE \<Rightarrow> print
      | QF_READ_INT \<Rightarrow> q_read_call B H ''readInt'' args retvar st
      | QF_READ_DOUBLE \<Rightarrow> q_read_call B H ''readDouble'' args retvar st
      | QF_ERROR \<Rightarrow> putln [''error''] st
      | QF_USER_DEFINED \<Rightarrow> do {
          (n, st) \<leftarrow> q_pass_args B H 0 (rev args) st;
          st \<leftarrow> discard_dead_vars B [] st;   \<comment> \<open>\<open>args\<close> is \<open>NULL\<close> after the loop\<close>
          st \<leftarrow> free_all B LOC_REG st;
          st \<leftarrow> free_all B LOC_FPU_REG st;
          st \<leftarrow> putln [''$.i0 := $.i0 + '', show_nat n] st;
          st \<leftarrow> putln [''call '', qf_name func] st;
          st \<leftarrow> putln [''$.i0 := $.i0 - '', show_nat n] st;
          (case retvar of
             None \<Rightarrow> Some st
           | Some v \<Rightarrow>
               map_option snd (update_var_loc B v
                 (init_loc (if reg_type v st = LOC_REG then L_REG 0 else L_FPU_REG 0)) st))
        }
      | QF_PRINT_STRING \<Rightarrow> None)"

definition q_gen_print_string :: "string \<Rightarrow> q_op" where
  "q_gen_print_string s st = putln [''print '', [CHR 34], s, [CHR 34]] st"

subsection \<open>Moves\<close>

definition q_gen_mov :: "text_back backend_t \<Rightarrow> host_t \<Rightarrow> loc_t \<Rightarrow> var_id \<Rightarrow> q_op" where
  "q_gen_mov B H dest src st = do {
     l \<leftarrow> std_find_best_src_loc src st;
     check (\<not> loc_is_const dest);
     st \<leftarrow> (if tag_of dest = LOC_STACK \<and> tag_of l = LOC_STACK then move_to_reg B src st else Some st);
     l \<leftarrow> (if tag_of dest = LOC_STACK \<and> tag_of l = LOC_STACK then std_find_best_src_loc src st else Some l);
     d \<leftarrow> q_loc_str H st (Some dest);
     s \<leftarrow> q_loc_str H st (Some l);
     putln [d, '' := '', s] st
   }"

definition q_gen_swap :: "host_t \<Rightarrow> loc_t \<Rightarrow> loc_t \<Rightarrow> q_op" where
  "q_gen_swap H l1 l2 st = do {
     s1 \<leftarrow> q_loc_str H st (Some l1);
     s2 \<leftarrow> q_loc_str H st (Some l2);
     let c = (if tag_of l1 = LOC_FPU_REG then ''$.d'' else ''$.i'') in do {
       st \<leftarrow> putln [c, ''1 := '', s2] st;
       st \<leftarrow> putln [c, ''2 := '', s1] st;
       st \<leftarrow> putln [s1, '' := '', c, ''1''] st;
       putln [s2, '' := '', c, ''2''] st
     }
   }"

definition q_gen_label :: "string \<Rightarrow> q_op" where
  "q_gen_label label st = putln [label, '':''] st"

definition q_fpu_reg_free :: "nat \<Rightarrow> q_op" where
  "q_fpu_reg_free r st = Some st"

subsection \<open>The backend\<close>

definition no_quadr_backend :: "host_t \<Rightarrow> text_back backend_t" where
  \<comment> \<open>level 0: every function stops\<close>
  "no_quadr_backend H =
     \<lparr>start_func = (\<lambda>f st. None), end_func = (\<lambda>f n st. None), gen_code = (\<lambda>q st. None),
      gen_call_back = (\<lambda>f args v st. None), gen_print_string = (\<lambda>s st. None), gen_mov = (\<lambda>l v st. None),
      gen_swap = (\<lambda>l1 l2 st. None), gen_label = (\<lambda>s st. None),
      find_best_src_loc = std_find_best_src_loc, find_best_dest_loc = std_find_best_dest_loc,
      fpu_reg_free = (\<lambda>r st. None), gen_fpu_load = (\<lambda>v st. None), gen_fpu_store = (\<lambda>l st. None),
      gen_fpu_pop = (\<lambda>b st. None), back_alloc_reg = (\<lambda>n tag st. None), back_alloc_fpu_reg = (\<lambda>n tag st. None),
      fpu_stack = False, fast_swap = False, int_size = 1, double_size = 1, ptr_size = 1, sp_size = 1,
      reg_num = 1000, fpu_reg_num = 1000, again = (\<lambda>v x st. None),
      asserts = h_asserts H, int_cast = h_int_cast H\<rparr>"

definition next_quadr_backend :: "host_t \<Rightarrow> text_back backend_t \<Rightarrow> text_back backend_t" where
  "next_quadr_backend H B = B
     \<lparr>start_func := q_start_func B, end_func := q_end_func, gen_code := q_gen_code B H,
      gen_call_back := q_gen_call B H, gen_print_string := q_gen_print_string, gen_mov := q_gen_mov B H,
      gen_swap := q_gen_swap H, gen_label := q_gen_label, fpu_reg_free := q_fpu_reg_free,
      back_alloc_reg := bellady_ra B, back_alloc_fpu_reg := bellady_ra B, again := save_var_not_to_loc B\<rparr>"

fun quadr_backend :: "host_t \<Rightarrow> nat \<Rightarrow> text_back backend_t" where
  "quadr_backend H 0 = no_quadr_backend H"
| "quadr_backend H (Suc k) = next_quadr_backend H (quadr_backend H k)"

definition init_text_back :: text_back where
  "init_text_back = \<lparr>outbuf = new_outbuf, fout = []\<rparr>"

end
