(* ===== verification/Quadr_Alloc.thy ===== *)
theory Quadr_Alloc
  imports Alloc_Correct Quadr_Backend Outbuf_Props
begin

text \<open>
  The quadruple backend keeps the contract of \<open>alloc_backend\<close>.

  The code that saving and allocating write are moves \<open>d := s\<close>.  A memory maps the text of an
  operand to its value; \<open>exec_moves\<close> runs lines of moves and is \<open>None\<close> for any other line.  Different
  locations have different texts, so a move changes one location.
\<close>

subsection \<open>Running moves\<close>

definition exec_move :: "string \<Rightarrow> (string \<Rightarrow> 'v) \<Rightarrow> (string \<Rightarrow> 'v) option" where
  "exec_move ln m =
     (let d = takeWhile (\<lambda>c. c \<noteq> CHR '' '') ln; rest = dropWhile (\<lambda>c. c \<noteq> CHR '' '') ln; s = drop 4 rest in
      if take 4 rest = '' := '' \<and> CHR '' '' \<notin> set s then Some (m(d := m s)) else None)"

fun exec_moves :: "string list \<Rightarrow> (string \<Rightarrow> 'v) \<Rightarrow> (string \<Rightarrow> 'v) option" where
  "exec_moves [] m = Some m"
| "exec_moves (ln # ls) m = do { m \<leftarrow> exec_move ln m; exec_moves ls m }"

lemma exec_moves_snoc: "exec_moves (ls @ [ln]) m = do { m \<leftarrow> exec_moves ls m; exec_move ln m }"
proof (induction ls arbitrary: m)
  case (Cons l ls)
  then show ?case by (cases "exec_move l m") simp_all
next
  case Nil
  then show ?case by (cases "exec_move ln m") simp_all
qed

definition plain :: "string \<Rightarrow> bool" where
  "plain s \<longleftrightarrow> CHR '' '' \<notin> set s \<and> nl \<notin> set s"

lemma exec_move_text:
  assumes d: "plain d" and s: "plain s"
  shows "exec_move (d @ '' := '' @ s) m = Some (m(d := m s))"
proof -
  have "takeWhile (\<lambda>c. c \<noteq> CHR '' '') (d @ CHR '' '' # r) = d" "dropWhile (\<lambda>c. c \<noteq> CHR '' '') (d @ CHR '' '' # r) = CHR '' '' # r" for r
    using d by (induction d) (auto simp: plain_def)
  then show ?thesis using s by (simp add: exec_move_def plain_def)
qed

text \<open>What \<open>printf\<close> makes of a double has no blank and begins with a digit, a sign or a letter.\<close>

definition host_ok :: "host_t \<Rightarrow> bool" where
  "host_ok H \<longleftrightarrow>
     (\<forall>d. plain (h_double_text H d) \<and> take 1 (h_double_text H d) \<noteq> ''$'' \<and> take 1 (h_double_text H d) \<noteq> ''{'')"

subsection \<open>The text of a location\<close>

definition q_text :: "host_t \<Rightarrow> 'b gencode_st \<Rightarrow> loc_u \<Rightarrow> string" where
  "q_text H st x = (case q_loc_str H st (Some (init_loc x)) of Some s \<Rightarrow> s | None \<Rightarrow> [])"

lemma q_loc_str_text: "q_loc_str H st (Some l) = Some s \<Longrightarrow> s = q_text H st (loc_u l)"
  by (auto simp: q_text_def q_loc_str_def init_loc_def split: loc_u.splits)

lemma digit_facts: "c \<in> set (show_nat n) \<Longrightarrow> is_digit c"
  by (rule show_nat_digits)

lemma not_digits:
  "\<not> is_digit (CHR '' '')" "\<not> is_digit (CHR 10)" "\<not> is_digit (CHR ''-'')" "\<not> is_digit (CHR ''$'')" "\<not> is_digit (CHR ''{'')"
  by (simp_all add: is_digit_def)

lemma plain_show_nat [simp]: "plain (show_nat n)"
  using show_nat_digits not_digits unfolding plain_def nl_def by metis

lemma plain_simps [simp]:
  "plain []" "plain (c # s) \<longleftrightarrow> c \<noteq> CHR '' '' \<and> c \<noteq> CHR 10 \<and> plain s" "plain (s @ t) \<longleftrightarrow> plain s \<and> plain t"
  by (auto simp: plain_def nl_def)

lemma plain_show_int [simp]: "plain (show_int n)"
  by (simp add: show_int_def)

lemma show_nat_inj: "show_nat a = show_nat b \<longleftrightarrow> a = b"
  using show_nat_val by (metis of_nat_eq_iff)

lemma show_nat_Cons: "show_nat n = c # s \<Longrightarrow> is_digit c"
  using show_nat_digits [of c n] by simp

lemma show_int_inj: "show_int a = show_int b \<longleftrightarrow> a = b"
proof
  assume e: "show_int a = show_int b"
  have "show_nat n \<noteq> CHR ''-'' # s" for n s using show_nat_Cons not_digits(3) by blast
  then show "a = b"
    using e by (auto simp: show_int_def show_nat_inj split: if_splits) (metis list.inject)+
qed simp

lemma stack_ok_offset_less:
  assumes ok: "stack_ok es n" and i: "i < j" "j < length es"
  shows "se_offset (es ! i) < se_offset (es ! j)"
proof -
  have "i < length (butlast es)" using i by simp
  then have "es ! i \<in> set (butlast es)" by (metis nth_butlast nth_mem)
  then have "0 < se_size (es ! i)" using ok by (simp add: stack_ok_def)
  moreover have "se_offset (es ! i) + se_size (es ! i) \<le> se_offset (es ! j)"
    using ok i by (simp add: stack_ok_def sorted_wrt_iff_nth_less)
  ultimately show ?thesis by simp
qed

lemma stack_ok_offset_inj:
  assumes ok: "stack_ok es n" and a: "a \<in> set es" and b: "b \<in> set es" and e: "se_offset a = se_offset b"
  shows "a = b"
proof -
  obtain i j where ij: "i < length es" "a = es ! i" "j < length es" "b = es ! j" using a b by (metis in_set_conv_nth)
  then show ?thesis
    using stack_ok_offset_less [OF ok, of i j] stack_ok_offset_less [OF ok, of j i] e by (cases i j rule: linorder_cases) auto
qed

lemma q_text_simps:
  "q_text H st (L_INT i) = show_int (sint i)" "q_text H st (L_DOUBLE d) = h_double_text H d"
  "q_text H st (L_REG r) = ''$.i'' @ show_nat (r + 3)" "q_text H st (L_FPU_REG r) = ''$.d'' @ show_nat (r + 3)"
  "se_find s st = Some e \<Longrightarrow> q_text H st (L_STACK s) = ''{@FP@'' @ show_int (se_offset e) @ ''@}''"
  by (simp_all add: q_text_def q_loc_str_def init_loc_def)

lemma q_text_plain: "host_ok H \<Longrightarrow> plain (q_text H st x)"
proof (cases x)
  case (L_STACK s)
  then show ?thesis by (cases "se_find s st") (simp_all add: q_text_simps q_text_def q_loc_str_def init_loc_def)
qed (simp_all add: q_text_simps host_ok_def)

lemma take1: "take 1 s = [c] \<longleftrightarrow> (\<exists>t. s = c # t)"
  by (cases s) auto

lemma const_text:
  assumes "host_ok H" "loc_tag x = LOC_INT \<or> loc_tag x = LOC_DOUBLE"
  shows "q_text H st x \<noteq> CHR ''$'' # t" "q_text H st x \<noteq> CHR ''{'' # t"
proof -
  have "show_int n \<noteq> CHR ''$'' # t" "show_int n \<noteq> CHR ''{'' # t" for n
    using show_nat_Cons [of "nat n" "CHR ''$''" t] show_nat_Cons [of "nat n" "CHR ''{''" t] not_digits(4,5)
    by (auto simp: show_int_def)
  moreover have "h_double_text H d \<noteq> CHR ''$'' # t" "h_double_text H d \<noteq> CHR ''{'' # t" for d
    using assms(1) unfolding host_ok_def take1 by blast+
  ultimately show "q_text H st x \<noteq> CHR ''$'' # t" "q_text H st x \<noteq> CHR ''{'' # t"
    using assms(2) by (cases x; simp add: q_text_simps)+
qed

lemma q_text_inj:
  assumes H: "host_ok H" and ok: "stack_ok (stack st) n" and loc: "located x st" "located y st"
    and x: "loc_tag x \<noteq> LOC_INT" "loc_tag x \<noteq> LOC_DOUBLE" and e: "q_text H st x = q_text H st y"
  shows "x = y"
proof -
  have x_text: "\<exists>t. q_text H st x = CHR ''$'' # t \<or> q_text H st x = CHR ''{'' # t"
    using x loc(1) by (cases x) (auto simp: q_text_simps located_def)
  have y: "\<not> (loc_tag y = LOC_INT \<or> loc_tag y = LOC_DOUBLE)"
  proof
    assume "loc_tag y = LOC_INT \<or> loc_tag y = LOC_DOUBLE"
    then show False
      using const_text [OF H] e x_text by metis
  qed
  show ?thesis
  proof (cases x)
    case (L_STACK s)
    then obtain d where d: "se_find s st = Some d" using loc(1) by (auto simp: located_def)
    obtain t f where t: "y = L_STACK t" "se_find t st = Some f"
      using e L_STACK d y loc(2) by (cases y) (auto simp: q_text_simps located_def)
    then have "se_offset d = se_offset f" using e L_STACK d by (simp add: q_text_simps show_int_inj)
    then have "d = f" using stack_ok_offset_inj [OF ok] se_find_id d t(2) by metis
    then show ?thesis using se_find_id [OF d] se_find_id [OF t(2)] L_STACK t(1) by simp
  next
    case (L_REG r)
    then show ?thesis
      using e y loc(2) by (cases y) (auto simp: q_text_simps located_def show_nat_inj)
  next
    case (L_FPU_REG r)
    then show ?thesis
      using e y loc(2) by (cases y) (auto simp: q_text_simps located_def show_nat_inj)
  qed (use x in simp_all)
qed

subsection \<open>The memory after the code\<close>

text \<open>The lines that were written after the lines \<open>pre\<close>, run on the memory \<open>m\<close>.\<close>

definition code_after :: "string list \<Rightarrow> text_back gencode_st \<Rightarrow> string list" where
  "code_after pre st = drop (length pre) (texts (outbuf (back_st st)))"

definition q_mem :: "host_t \<Rightarrow> string list \<Rightarrow> (string \<Rightarrow> 'v) \<Rightarrow> text_back gencode_st \<Rightarrow> (loc_u \<Rightarrow> 'v) option" where
  "q_mem H pre m st =
     (if host_ok H \<and> tmpbuf (outbuf (back_st st)) = [] \<and> take (length pre) (texts (outbuf (back_st st))) = pre
      then map_option (\<lambda>M x. M (q_text H st x)) (exec_moves (code_after pre st) m) else None)"

lemma q_mem_Some:
  "q_mem H pre m st = Some M \<longleftrightarrow>
     host_ok H \<and> tmpbuf (outbuf (back_st st)) = [] \<and> take (length pre) (texts (outbuf (back_st st))) = pre \<and>
     (\<exists>m'. exec_moves (code_after pre st) m = Some m' \<and> M = (\<lambda>x. m' (q_text H st x)))"
  by (auto simp: q_mem_def)

lemma q_text_kept:
  assumes "offsets_kept st st'" "located x st"
  shows "q_text H st' x = q_text H st x"
proof (cases x)
  case (L_STACK s)
  then obtain e where e: "se_find s st = Some e" using assms(2) by (auto simp: located_def)
  then obtain e' where "se_find s st' = Some e'" "se_offset e' = se_offset e" using assms(1) unfolding offsets_kept_def by blast
  then show ?thesis using e L_STACK by (simp add: q_text_simps)
qed (simp_all add: q_text_simps)

lemma q_mem_kept:
  assumes "back_st st' = back_st st" "offsets_kept st st'" "q_mem H pre m st = Some M"
  shows "\<exists>M'. q_mem H pre m st' = Some M' \<and> (\<forall>x. located x st \<longrightarrow> M' x = M x)"
  using assms q_text_kept [OF assms(2)] by (auto simp: q_mem_Some code_after_def)

lemma split_lines_one: "s \<noteq> [] \<Longrightarrow> nl \<notin> set s \<Longrightarrow> split_lines s = [s]"
proof -
  assume s: "s \<noteq> []" "nl \<notin> set s"
  then have d: "\<forall>c \<in> set s. c \<noteq> CHR 10" by (auto simp: nl_def)
  then have "dropWhile (\<lambda>c. c \<noteq> CHR 10) s = []" unfolding dropWhile_eq_Nil_conv .
  then have "rest_lines s = []" by (simp only: rest_lines_def drop_Nil)
  moreover have "first_line s = s" using d by (simp add: first_line_def takeWhile_eq_all_conv)
  ultimately have "first_line s = s" "rest_lines s = []" by simp_all
  then show ?thesis using s by (simp add: split_lines.simps [of s])
qed

lemma putln_back: "putln ss st = Some st' \<Longrightarrow> st' = st\<lparr>back_st := back_st st'\<rparr>"
  by (auto simp: putln_def on_outbuf_def)

lemma putln_line:
  assumes p: "putln ss st = Some st'" and t: "tmpbuf (outbuf (back_st st)) = []"
    and s: "concat ss \<noteq> []" "nl \<notin> set (concat ss)"
  shows "tmpbuf (outbuf (back_st st')) = []" "texts (outbuf (back_st st')) = texts (outbuf (back_st st)) @ [concat ss]"
proof -
  let ?b = "outbuf (back_st st)"
  obtain buf where w: "outbuf_writeln (concat ss) ?b = Some buf" and o: "outbuf (back_st st') = buf"
    using p by (auto simp: putln_def on_outbuf_def)
  have len: "length (concat ss) \<le> MAX_LINE_LEN"
    using w t by (auto simp: outbuf_writeln_def TMPBUF_SIZE_def MAX_LINE_LEN_def)
  have "\<forall>l \<in> set (split_lines (concat ss)). length l \<le> MAX_LINE_LEN"
    using len by (simp add: split_lines_one [OF s])
  note a = appendln_lines [OF this, of None "?b\<lparr>tmpbuf := concat ss\<rparr>"]
  then have "buf = ?b\<lparr>lines := lines ?b @ [(next_line ?b, concat ss)], next_line := next_line ?b + 1, tmpbuf := []\<rparr>"
    using w t s by (auto simp: outbuf_writeln_def flushbuf_def appendln_def split_lines_one [OF s])
  then show "tmpbuf (outbuf (back_st st')) = []" "texts (outbuf (back_st st')) = texts ?b @ [concat ss]"
    by (simp_all add: o texts_def)
qed

lemma take_prefix:
  assumes "take (length pre) xs = pre"
  shows "drop (length pre) (xs @ ys) = drop (length pre) xs @ ys" "take (length pre) (xs @ ys) = pre"
proof -
  have "length pre \<le> length xs" using assms by (metis length_take min.cobounded1)
  then show "drop (length pre) (xs @ ys) = drop (length pre) xs @ ys" "take (length pre) (xs @ ys) = pre"
    using assms by simp_all
qed

lemma emit_move:
  assumes p: "putln [q_text H st d, '' := '', q_text H st s] st = Some st'" and inv: "alloc_inv st"
    and d: "\<not> (loc_tag d = LOC_INT \<or> loc_tag d = LOC_DOUBLE)" "located d st" "\<forall>w. \<not> has_loc st w d"
    and s: "has_loc st v s"
  shows "good (q_mem H pre m) {} st st'" "tracks (q_mem H pre m) val st \<Longrightarrow> \<exists>M. q_mem H pre m st' = Some M \<and> M d = val v"
    "st' = st\<lparr>back_st := back_st st'\<rparr>"
proof -
  show b: "st' = st\<lparr>back_st := back_st st'\<rparr>" by (rule putln_back [OF p])
  have f: "var_loc st' = var_loc st" "stack st' = stack st" "next_se st' = next_se st" "regs st' = regs st"
    "fpu_regs st' = fpu_regs st" "suppress_mov st' = suppress_mov st" "quadrs st' = quadrs st" "fixed st' = fixed st"
    by (subst b; simp add: fixed_def)+
  have off: "offsets_kept st st'" "offsets_kept st' st" by (simp_all add: offsets_kept_def se_find_def f)
  have loc: "located x st' = located x st" for x by (simp add: located_def se_find_def f split: loc_u.splits)
  have tx: "q_text H st' x = q_text H st x" for x
    by (simp add: q_text_def q_loc_str_def init_loc_def se_find_def f split: loc_u.splits)
  have fr: "frame {} st st'" by (rule frame_intro [OF f(8,1) off(1)]) (rule loc_vars_cong(1) [OF f(2,4,5)])
  have run: "\<exists>m'. exec_moves (code_after pre st) m = Some m' \<and> host_ok H \<and>
      q_mem H pre m st' = Some (\<lambda>x. (m'(q_text H st d := m' (q_text H st s))) (q_text H st x))"
    if mm: "q_mem H pre m st = Some M" for M
  proof -
    obtain m' where m': "host_ok H" "tmpbuf (outbuf (back_st st)) = []" "take (length pre) (texts (outbuf (back_st st))) = pre"
      "exec_moves (code_after pre st) m = Some m'"
      using mm by (auto simp: q_mem_Some)
    note pl = q_text_plain [OF m'(1), of st]
    have "nl \<notin> set (concat [q_text H st d, '' := '', q_text H st s])"
      using pl by (simp add: plain_def nl_def)
    note l = putln_line [OF p m'(2) _ this]
    then have "code_after pre st' = code_after pre st @ [q_text H st d @ '' := '' @ q_text H st s]"
      using take_prefix [OF m'(3)] by (simp add: code_after_def)
    then have "exec_moves (code_after pre st') m = Some (m'(q_text H st d := m' (q_text H st s)))"
      using m'(4) exec_move_text [OF pl pl] by (simp add: exec_moves_snoc)
    then show ?thesis using m' l take_prefix(2) [OF m'(3)] by (auto simp: q_mem_Some tx)
  qed
  have other: "q_text H st (loc_u l) \<noteq> q_text H st d" if "l \<in> set (var_loc st w)" "host_ok H" for l w
  proof
    assume "q_text H st (loc_u l) = q_text H st d"
    then have "d = loc_u l"
      using q_text_inj [OF that(2), of st "next_se st" d "loc_u l"] inv d(1,2) alloc_inv_located [OF inv that(1)]
      by (auto simp: alloc_inv_def)
    then show False using d(3) that(1) unfolding has_loc_def by blast
  qed
  have "tracks (q_mem H pre m) val st'" if t: "tracks (q_mem H pre m) val st" for val
  proof -
    obtain M where M: "q_mem H pre m st = Some M" "\<And>w l. l \<in> set (var_loc st w) \<Longrightarrow> M (loc_u l) = val w"
      using t unfolding tracks_def by blast
    obtain m' where m': "exec_moves (code_after pre st) m = Some m'" "host_ok H"
      "q_mem H pre m st' = Some (\<lambda>x. (m'(q_text H st d := m' (q_text H st s))) (q_text H st x))"
      using run [OF M(1)] by blast
    have "M = (\<lambda>x. m' (q_text H st x))" using M(1) m'(1) by (auto simp: q_mem_Some)
    then show ?thesis using m'(3) M(2) other [OF _ m'(2)] by (auto simp: tracks_def f)
  qed
  then show "good (q_mem H pre m) {} st st'"
    using fr alloc_inv_cong [OF inv f(1-7)] unfolding good_def by blast
  assume t: "tracks (q_mem H pre m) val st"
  obtain M where M: "q_mem H pre m st = Some M" "\<And>w l. l \<in> set (var_loc st w) \<Longrightarrow> M (loc_u l) = val w"
    using t unfolding tracks_def by blast
  obtain m' where m': "exec_moves (code_after pre st) m = Some m'"
    "q_mem H pre m st' = Some (\<lambda>x. (m'(q_text H st d := m' (q_text H st s))) (q_text H st x))"
    using run [OF M(1)] by blast
  have "m' (q_text H st s) = val v" using M m'(1) s by (auto simp: q_mem_Some has_loc_def)
  then show "\<exists>M. q_mem H pre m st' = Some M \<and> M d = val v" using m'(2) by simp
qed

subsection \<open>The contract\<close>

lemma first_of_in: "first_of ps ls = Some l \<Longrightarrow> l \<in> set ls"
proof -
  have f: "x \<in> set (List.map_filter f ps) \<Longrightarrow> \<exists>p. f p = Some x" for x and f :: "_ \<Rightarrow> loc_t option"
    by (auto simp: List.map_filter_def)
  have "List.map_filter (\<lambda>p. find p ls) ps = x # xs \<Longrightarrow> x \<in> set ls" for x xs
    using f [of x "\<lambda>p. find p ls"] by (auto simp: find_Some_iff)
  then show "first_of ps ls = Some l \<Longrightarrow> l \<in> set ls" by (auto simp: first_of_def split: list.splits)
qed

lemma best_src_in: "std_find_best_src_loc v st = Some l \<Longrightarrow> l \<in> set (var_loc st v)"
  unfolding std_find_best_src_loc_def by (rule first_of_in)

lemma q_gen_mov_moves:
  assumes B: "alloc_backend B (q_mem H pre m :: _ \<Rightarrow> (loc_u \<Rightarrow> 'v) option)"
    and g: "q_gen_mov B H l v st = Some st'" and inv: "alloc_inv st"
    and unused: "\<forall>w. \<not> has_loc st w (loc_u l)" and lv: "loc_vars (loc_u l) st \<noteq> None"
    and p: "\<forall>s. loc_u l = L_STACK s \<longrightarrow> protected (loc_u l) st"
  shows "good (q_mem H pre m) {} st st' \<and> (\<forall>w. \<not> has_loc st' w (loc_u l)) \<and>
    loc_vars (loc_u l) st' = loc_vars (loc_u l) st \<and>
    (\<forall>val. tracks (q_mem H pre m) val st \<longrightarrow> (\<exists>M. q_mem H pre m st' = Some M \<and> M (loc_u l) = val v))"
proof -
  obtain l1 st1 l2 d s where l1: "std_find_best_src_loc v st = Some l1" and nc: "\<not> loc_is_const l"
    and m: "(if tag_of l = LOC_STACK \<and> tag_of l1 = LOC_STACK then move_to_reg B v st else Some st) = Some st1"
    and l2: "(if tag_of l = LOC_STACK \<and> tag_of l1 = LOC_STACK then std_find_best_src_loc v st1 else Some l1) = Some l2"
    and d: "q_loc_str H st1 (Some l) = Some d" and s: "q_loc_str H st1 (Some l2) = Some s"
    and e: "putln [d, '' := '', s] st1 = Some st'"
    using g by (auto simp: q_gen_mov_def)
  let ?mem = "q_mem H pre m :: _ \<Rightarrow> (loc_u \<Rightarrow> 'v) option"
  have 1: "good ?mem {} st st1 \<and> (\<forall>w. \<not> has_loc st1 w (loc_u l)) \<and> loc_vars (loc_u l) st1 = loc_vars (loc_u l) st \<and>
      has_loc st1 v (loc_u l2)"
  proof (cases "tag_of l = LOC_STACK \<and> tag_of l1 = LOC_STACK")
    case True
    then have mv: "move_to_loc B v (reg_type v st) st = Some st1" using m by (simp add: move_to_reg_def)
    have gd: "good ?mem {} st st1" using alloc_backend.move_to_loc_good [OF B mv inv] by blast
    have pr: "protected (loc_u l) st" using p True by (cases "loc_u l") auto
    have fr: "frame {} st st1" using gd by (simp add: good_def)
    note kept = frame_protected(1,2) [OF fr _ pr]
    have "l2 \<in> set (var_loc st1 v)" using l2 True best_src_in by simp
    then have "has_loc st1 v (loc_u l2)" unfolding has_loc_def by blast
    then show ?thesis using gd kept unused by auto
  next
    case False
    then have "st1 = st" "l2 = l1" using m l2 by auto
    moreover have "has_loc st v (loc_u l1)" using best_src_in [OF l1] unfolding has_loc_def by blast
    ultimately show ?thesis using good_refl [OF inv] unused by simp
  qed
  have inv1: "alloc_inv st1" using 1 good_inv by blast
  have e': "putln [q_text H st1 (loc_u l), '' := '', q_text H st1 (loc_u l2)] st1 = Some st'"
    using e q_loc_str_text [OF d] q_loc_str_text [OF s] by simp
  have dn: "\<not> (loc_tag (loc_u l) = LOC_INT \<or> loc_tag (loc_u l) = LOC_DOUBLE)" using nc by (simp add: loc_is_const_def)
  have dl: "located (loc_u l) st1"
    using 1 lv by (cases "loc_u l") (auto simp: located_def loc_vars_stack)
  have du: "\<forall>w. \<not> has_loc st1 w (loc_u l)" and hs: "has_loc st1 v (loc_u l2)" using 1 by blast+
  note em = emit_move [OF e' inv1 dn dl du hs]
  have "has_loc st' w x = has_loc st1 w x" "loc_vars x st' = loc_vars x st1" for w x
    by (subst em(3), simp add: has_loc_def) (rule loc_vars_cong(1); subst em(3); simp)
  then show ?thesis
    using 1 em(1) em(2) good_trans0 [of ?mem st st1 st'] unfolding good_def by metis
qed

lemma next_fields:
  "fpu_stack (next_quadr_backend H B) = fpu_stack B" "again (next_quadr_backend H B) = save_var_not_to_loc B"
  "gen_mov (next_quadr_backend H B) = q_gen_mov B H" "back_alloc_reg (next_quadr_backend H B) = bellady_ra B"
  "back_alloc_fpu_reg (next_quadr_backend H B) = bellady_ra B" "fpu_reg_free (next_quadr_backend H B) = q_fpu_reg_free"
  by (simp_all add: next_quadr_backend_def)

lemma next_quadr_backend_ok:
  assumes B: "alloc_backend B (q_mem H pre m)"
  shows "alloc_backend (next_quadr_backend H B) (q_mem H pre m)"
proof (unfold_locales, unfold next_fields)
  show "\<not> fpu_stack B" by (rule alloc_backend.no_fpu_stack [OF B])
next
  fix st st' :: "text_back gencode_st" and M
  assume "back_st st' = back_st st" "offsets_kept st st'" "q_mem H pre m st = Some M"
  then show "\<exists>M'. q_mem H pre m st' = Some M' \<and> (\<forall>x. located x st \<longrightarrow> M' x = M x)" by (rule q_mem_kept)
next
  fix v st rl st'
  assume "save_var_not_to_loc B v None st = Some (rl, st')" "alloc_inv st"
  then show "good (q_mem H pre m) {} st st' \<and> (\<exists>l \<in> set (var_loc st' v). loc_is_allowed (loc_u l) st' = Some True)"
    by (rule alloc_backend.save_var_good [OF B])
next
  fix l v st st'
  assume "q_gen_mov B H l v st = Some st'"
  then show "var_loc st v \<noteq> []" by (auto simp: q_gen_mov_def dest: best_src_in)
next
  fix l v st st'
  assume "q_gen_mov B H l v st = Some st'" "alloc_inv st" "\<forall>w. \<not> has_loc st w (loc_u l)"
    "loc_vars (loc_u l) st \<noteq> None" "\<forall>s. loc_u l = L_STACK s \<longrightarrow> protected (loc_u l) st"
  then show "good (q_mem H pre m) {} st st' \<and> (\<forall>w. \<not> has_loc st' w (loc_u l)) \<and>
      loc_vars (loc_u l) st' = loc_vars (loc_u l) st \<and>
      (\<forall>val. tracks (q_mem H pre m) val st \<longrightarrow> (\<exists>M. q_mem H pre m st' = Some M \<and> M (loc_u l) = val v))"
    by (rule q_gen_mov_moves [OF B])
next
  fix k st r st'
  assume "bellady_ra B k LOC_REG st = Some (r, st')" "alloc_inv st"
  then show "good (q_mem H pre m) {} st st' \<and> is_allowed r LOC_REG st' = Some True \<and> reg_vars r LOC_REG st' = Some []"
    by (rule alloc_backend.bellady_ra_good(1) [OF B]) simp
next
  fix k st r st'
  assume "bellady_ra B k LOC_FPU_REG st = Some (r, st')" "alloc_inv st"
  then show "good (q_mem H pre m) {} st st' \<and> is_allowed r LOC_FPU_REG st' = Some True \<and> reg_vars r LOC_FPU_REG st' = Some []"
    by (rule alloc_backend.bellady_ra_good(1) [OF B]) simp
next
  fix r and st st' :: "text_back gencode_st"
  assume "q_fpu_reg_free r st = Some st'"
  then show "st' = st" by (simp add: q_fpu_reg_free_def)
qed

lemma quadr_backend_ok: "alloc_backend (quadr_backend H k) (q_mem H pre m)"
proof (induction k)
  case 0
  show ?case
    by (unfold_locales) (auto simp: no_quadr_backend_def intro: q_mem_kept)
next
  case (Suc k)
  then show ?case by (simp add: next_quadr_backend_ok)
qed

interpretation quadr: alloc_backend "quadr_backend H k" "q_mem H pre m" for H k pre m
  by (rule quadr_backend_ok)

end
