(* ===== verification/Alloc_Total.thy ===== *)
theory Alloc_Total
  imports Quadr_Alloc
begin

text \<open>
  The register allocation returns, and how deep its recursion is.

  \<open>ready H V n st\<close> is what the operations need: the invariant, the registers of the machine, a
  free element of the frame, a known distance to the next use for the variables \<open>V\<close> that have
  locations, room for \<open>n\<close> in the offsets of the frame, and, when the assertions are compiled in,
  no free element of the frame that is larger than a variable.
\<close>

subsection \<open>Lines\<close>

lemma show_nat_length: "n < 10 ^ k \<Longrightarrow> 0 < k \<Longrightarrow> length (show_nat n) \<le> k"
proof (induction k arbitrary: n)
  case (Suc k)
  show ?case
  proof (cases "n < 10")
    case False
    then have "0 < k" using Suc.prems by (cases k) auto
    moreover have "n div 10 < 10 ^ k" using Suc.prems(1) by (simp add: less_mult_imp_div_less mult.commute)
    ultimately have "length (show_nat (n div 10)) \<le> k" by (intro Suc.IH)
    then show ?thesis using False by (simp add: show_nat.simps [of n])
  qed (simp add: show_nat.simps [of n])
qed simp

lemma show_int_length: "\<bar>n\<bar> \<le> 2 ^ 31 \<Longrightarrow> length (show_int n) \<le> 11"
proof -
  assume n: "\<bar>n\<bar> \<le> 2 ^ 31"
  then have "nat n < 10 ^ 10" "nat (- n) < 10 ^ 10" by auto
  then have "length (show_nat (nat n)) \<le> 10" "length (show_nat (nat (- n))) \<le> 10"
    by (intro show_nat_length; simp)+
  then show ?thesis by (simp add: show_int_def)
qed

lemma putln_ok:
  assumes t: "tmpbuf (outbuf (back_st st)) = []" and s: "concat ss \<noteq> []" "nl \<notin> set (concat ss)" "length (concat ss) < 512"
  shows "\<exists>b. putln ss st = Some (st\<lparr>back_st := b\<rparr>) \<and> tmpbuf (outbuf b) = []"
proof -
  let ?b = "outbuf (back_st st)"
  have "\<forall>l \<in> set (split_lines (concat ss)). length l \<le> MAX_LINE_LEN"
    using s(3) by (simp add: split_lines_one [OF s(1,2)] MAX_LINE_LEN_def)
  note a = appendln_lines [OF this, of None "?b\<lparr>tmpbuf := concat ss\<rparr>"]
  let ?buf = "?b\<lparr>lines := lines ?b @ numbered (next_line ?b) (split_lines (concat ss)),
    next_line := next_line ?b + length (split_lines (concat ss)), tmpbuf := []\<rparr>"
  have "putln ss st = Some (st\<lparr>back_st := (back_st st)\<lparr>outbuf := ?buf\<rparr>\<rparr>)"
    using t s a by (simp add: putln_def on_outbuf_def outbuf_writeln_def flushbuf_def appendln_def TMPBUF_SIZE_def)
  then show ?thesis by (rule exI [of _ "(back_st st)\<lparr>outbuf := ?buf\<rparr>", OF conjI]) simp
qed

subsection \<open>Registers\<close>

lemma free_reg_empty_same:
  assumes "reg_vars r LOC_REG st = Some []" "is_allowed r LOC_REG st = Some b"
  shows "free_reg B r st = Some st"
proof -
  have "regs st ! r = []" using assms(1) by (simp add: reg_vars_def Let_def split: if_splits)
  then have r: "(regs st)[r := []] = regs st" by (metis list_update_id)
  have "r < length (blacklist_reg st)" "blacklist_reg st ! r = (\<not> b)"
    using assms(2) by (auto simp: is_allowed_def Let_def split: if_splits)
  then have "(blacklist_reg st)[r := False] = blacklist_reg st" if b using that by (metis list_update_id)
  then show ?thesis
    using assms r \<open>r < length _\<close>
    by (auto simp: free_reg_def set_reg_vars_def deny_reg_def allow_reg_def set_denied_def c_assert_def)
qed

lemma free_fpu_reg_empty_same:
  "reg_vars r LOC_FPU_REG st = Some [] \<Longrightarrow> is_allowed r LOC_FPU_REG st = Some b \<Longrightarrow> free_fpu_reg B r p st = Some st"
  by (simp add: free_fpu_reg_def)

lemma flush_reg_empty:
  assumes "reg_vars r tag st = Some []" "is_allowed r tag st = Some b" "tag = LOC_REG \<or> tag = LOC_FPU_REG"
  shows "flush_loc B (reg_u tag r) st = Some st"
  using assms free_reg_empty_same free_fpu_reg_empty_same by (auto simp: flush_loc_def)

lemma find_free_reg_Some:
  assumes "find_free_reg n tag st = Some r"
  shows "r < n" "reg_vars r tag st = Some []" "is_allowed r tag st = Some True"
  using assms by (auto simp: find_free_reg_def find_Some_iff)

lemma find_free_ex:
  "i < n \<Longrightarrow> reg_vars i tag st = Some [] \<Longrightarrow> is_allowed i tag st = Some True \<Longrightarrow> find_free_reg n tag st \<noteq> None"
  by (auto simp: find_free_reg_def find_None_iff)

lemma filter_ne: "filter P xs \<noteq> [] \<Longrightarrow> \<exists>x \<in> set xs. P x"
  by (auto simp: filter_empty_conv)

lemma find_ex: "x \<in> set xs \<Longrightarrow> P x \<Longrightarrow> \<exists>y. find P xs = Some y"
  by (metis find_None_iff not_None_eq)

lemma available_free:
  assumes "available_regs_num B tag st = Some n" "0 < n"
  shows "\<exists>r. find_free_reg (if tag = LOC_REG then reg_num B else fpu_reg_num B) tag st = Some r"
proof -
  let ?rs = "if tag = LOC_REG then regs st else fpu_regs st"
  let ?bl = "if tag = LOC_REG then blacklist_reg st else blacklist_fpu_reg st"
  let ?n = "if tag = LOC_REG then reg_num B else fpu_reg_num B"
  have n: "?n \<le> length ?rs" "?n \<le> length ?bl" "n = length (filter (\<lambda>i. ?rs ! i = [] \<and> \<not> ?bl ! i) [0..<?n])"
    using assms(1) by (auto simp: available_regs_num_def Let_def)
  then have ne: "filter (\<lambda>i. ?rs ! i = [] \<and> \<not> ?bl ! i) [0..<?n] \<noteq> []" using assms(2) by (metis list.size(3) less_irrefl)
  obtain i where i: "i \<in> set [0..<?n]" "?rs ! i = [] \<and> \<not> ?bl ! i" using filter_ne [OF ne] by blast
  have il: "i < ?n" using i(1) by (simp only: set_upt atLeastLessThan_iff)
  then have "reg_vars i tag st = Some []" using i(2) n(1) less_le_trans [OF il n(1)] by (simp only: reg_vars_def Let_def if_True)
  moreover have "is_allowed i tag st = Some True" using i(2) less_le_trans [OF il n(2)] by (simp only: is_allowed_def Let_def if_True simp_thms)
  ultimately show ?thesis
    unfolding find_free_reg_def by (intro find_ex [OF i(1)] conjI)
qed

lemma bellady_free:
  assumes "find_free_reg n tag st = Some r" "tag = LOC_REG \<or> tag = LOC_FPU_REG"
  shows "bellady_ra B n tag st = Some (r, st)"
  using find_free_reg_Some [OF assms(1)] assms free_reg_empty_same free_fpu_reg_empty_same
  by (auto simp: bellady_ra_def do_bellady_ra_def)

lemma level_consts [simp]:
  "reg_num (quadr_backend H k) = 1000" "fpu_reg_num (quadr_backend H k) = 1000" "asserts (quadr_backend H k) = h_asserts H"
  "fpu_stack (quadr_backend H k) = False"
  by (induction k) (simp_all add: next_quadr_backend_def no_quadr_backend_def)

lemma alloc_reg_free:
  assumes "find_free_reg 1000 tag st = Some r" "tag = LOC_REG \<or> tag = LOC_FPU_REG"
  shows "alloc_reg (quadr_backend H (Suc k)) tag st = Some (new_loc (reg_u tag r) st)"
  using bellady_free [OF assms, of "quadr_backend H k"] assms(2) level_consts [of H "Suc k"]
  by (auto simp: alloc_reg_def next_fields c_assert_def simp del: level_consts)

subsection \<open>Ready states\<close>

definition fits :: "int \<Rightarrow> 'b gencode_st \<Rightarrow> bool" where
  \<comment> \<open>the offsets of the frame are ints, also when it has grown by \<open>n\<close>\<close>
  "fits n st \<longleftrightarrow> (\<forall>e \<in> set (stack st). \<bar>se_offset e\<bar> + n < 2 ^ 31)"

definition free_elem :: "'b gencode_st \<Rightarrow> bool" where
  "free_elem st \<longleftrightarrow> (\<exists>f. first_stack_free st = Some f \<and> loc_vars (L_STACK f) st = Some [])"

definition machine_regs :: "'b gencode_st \<Rightarrow> bool" where
  "machine_regs st \<longleftrightarrow> length (regs st) = 1000 \<and> length (fpu_regs st) = 1000 \<and>
     length (blacklist_reg st) = 1000 \<and> length (blacklist_fpu_reg st) = 1000"

definition small_free :: "var_id set \<Rightarrow> 'b gencode_st \<Rightarrow> bool" where
  \<comment> \<open>no free element is larger than a variable\<close>
  "small_free V st \<longleftrightarrow> (\<forall>e \<in> set (stack st). se_vars e = [] \<longrightarrow> (\<forall>v \<in> V. se_size e \<le> size_of v st))"

definition uses_known :: "var_id set \<Rightarrow> 'b gencode_st \<Rightarrow> bool" where
  "uses_known V st \<longleftrightarrow> (\<forall>v \<in> V. \<exists>d. nearest_use_distance v st = Some d \<and> 0 \<le> d)"

definition located_in :: "var_id set \<Rightarrow> 'b gencode_st \<Rightarrow> bool" where
  "located_in V st \<longleftrightarrow> (\<forall>v. var_loc st v \<noteq> [] \<longrightarrow> v \<in> V)"

definition host_short :: "host_t \<Rightarrow> bool" where
  \<comment> \<open>the largest double has 317 characters with \<open>%f\<close>\<close>
  "host_short H \<longleftrightarrow> host_ok H \<and> (\<forall>d. length (h_double_text H d) \<le> 400)"

definition ready :: "host_t \<Rightarrow> var_id set \<Rightarrow> int \<Rightarrow> text_back gencode_st \<Rightarrow> bool" where
  "ready H V n st \<longleftrightarrow>
     alloc_inv st \<and> tmpbuf (outbuf (back_st st)) = [] \<and> machine_regs st \<and> free_elem st \<and> fits n st \<and>
     located_in V st \<and> uses_known V st \<and> (h_asserts H \<longrightarrow> small_free V st)"

lemma uses_known_fixed:
  assumes "quadrs st' = quadrs st" "cur_quadr st' = cur_quadr st" "gencode_cur_block st' = gencode_cur_block st"
  shows "uses_known V st' = uses_known V st"
  using assms by (simp add: uses_known_def nearest_use_distance_def)

lemma ready_cong:
  assumes r: "ready H V n st" and inv: "alloc_inv st'"
    and f: "quadrs st' = quadrs st" "cur_quadr st' = cur_quadr st" "gencode_cur_block st' = gencode_cur_block st"
    and t: "tmpbuf (outbuf (back_st st')) = []" and st: "stack st' = stack st" "first_stack_free st' = first_stack_free st"
    and m: "machine_regs st'" and loc: "\<And>v. var_loc st' v \<noteq> [] \<Longrightarrow> var_loc st v \<noteq> []"
  shows "ready H V n st'"
proof -
  have "size_of v st' = size_of v st" for v by (simp add: size_of_def f(1))
  then have "small_free V st' = small_free V st" by (simp add: small_free_def st)
  moreover have "free_elem st' = free_elem st" "fits n st' = fits n st"
    by (simp_all add: free_elem_def fits_def loc_vars_stack se_find_def st)
  moreover have "located_in V st'" using r loc by (auto simp: ready_def located_in_def)
  ultimately show ?thesis using r inv t m uses_known_fixed [OF f(1-3)] by (simp add: ready_def)
qed

lemma ready_same:
  assumes r: "ready H V n st" and inv: "alloc_inv st'" and fx: "fixed st' = fixed st"
    and t: "tmpbuf (outbuf (back_st st')) = []" and st: "stack st' = stack st" "first_stack_free st' = first_stack_free st"
    and len: "length (regs st') = length (regs st)" "length (fpu_regs st') = length (fpu_regs st)"
    and loc: "\<And>v. var_loc st' v \<noteq> [] \<Longrightarrow> var_loc st v \<noteq> []"
  shows "ready H V n st'"
proof -
  have f: "quadrs st' = quadrs st" "cur_quadr st' = cur_quadr st" "gencode_cur_block st' = gencode_cur_block st"
    "blacklist_reg st' = blacklist_reg st" "blacklist_fpu_reg st' = blacklist_fpu_reg st"
    using fx by (auto simp: fixed_def)
  moreover have "machine_regs st'" using r by (simp add: ready_def machine_regs_def len f)
  ultimately show ?thesis using ready_cong [OF r inv f(1-3) t st _ loc] by blast
qed

lemma fits_less: "fits m st \<Longrightarrow> n \<le> m \<Longrightarrow> fits n st"
  unfolding fits_def by force

lemma ready_less: "ready H V m st \<Longrightarrow> n \<le> m \<Longrightarrow> ready H V n st"
  using fits_less by (auto simp: ready_def)

subsection \<open>Moves\<close>

lemma reg_text_short: "r < 1000 \<Longrightarrow> length (show_nat (r + 3)) \<le> 4"
  by (rule show_nat_length) simp_all

lemma loc_text:
  assumes r: "ready H V n st" and n: "0 \<le> n" and H: "host_short H"
    and l: "l \<in> set (var_loc st v) \<or> (\<exists>s. loc_u l = L_STACK s \<and> se_find s st \<noteq> None) \<or> (\<exists>tag q. loc_u l = reg_u tag q \<and> q < 1000)"
  shows "\<exists>s. q_loc_str H st (Some l) = Some s \<and> length s \<le> 400"
proof -
  have off: "\<bar>se_offset e\<bar> < 2 ^ 31" if "se_find s st = Some e" for s e
    using that r n se_find_id [OF that] by (force simp: ready_def fits_def)
  have m: "machine_regs st" using r by (simp add: ready_def)
  have inv: "alloc_inv st" using r by (simp add: ready_def)
  show ?thesis
  proof (cases "loc_u l")
    case (L_STACK s)
    have "se_find s st \<noteq> None"
      using l alloc_inv_located [OF inv, of l v] L_STACK by (auto simp: located_def reg_u_def split: if_splits)
    then obtain e where e: "se_find s st = Some e" by blast
    then show ?thesis using show_int_length [OF less_imp_le [OF off [OF e]]] L_STACK by (simp add: q_loc_str_def)
  next
    case (L_REG q)
    have "q < 1000"
      using l
    proof (elim disjE exE conjE)
      assume "l \<in> set (var_loc st v)"
      then have "loc_holds l v st" using inv by (auto simp: alloc_inv_def)
      then show ?thesis using m L_REG by (auto simp: loc_holds_iff loc_is_const_def loc_vars_def reg_vars_def machine_regs_def split: if_splits)
    qed (auto simp: L_REG reg_u_def split: if_splits)
    then show ?thesis using reg_text_short [of q] L_REG by (simp add: q_loc_str_def)
  next
    case (L_FPU_REG q)
    have "q < 1000"
      using l
    proof (elim disjE exE conjE)
      assume "l \<in> set (var_loc st v)"
      then have "loc_holds l v st" using inv by (auto simp: alloc_inv_def)
      then show ?thesis using m L_FPU_REG by (auto simp: loc_holds_iff loc_is_const_def loc_vars_def reg_vars_def machine_regs_def split: if_splits)
    qed (auto simp: L_FPU_REG reg_u_def split: if_splits)
    then show ?thesis using reg_text_short [of q] L_FPU_REG by (simp add: q_loc_str_def)
  next
    case (L_INT i)
    have "\<bar>sint i\<bar> \<le> 2 ^ 31" using sint_ge [of i] sint_less [of i] by (simp add: abs_le_iff)
    then have "length (show_int (sint i)) \<le> 11" by (rule show_int_length)
    then show ?thesis using L_INT by (simp add: q_loc_str_def)
  next
    case (L_DOUBLE d)
    then show ?thesis using H by (simp add: q_loc_str_def host_short_def)
  qed
qed

lemma first_of_Some: "ls \<noteq> [] \<Longrightarrow> \<exists>l. first_of ps ls = Some l"
  by (cases ls) (auto simp: first_of_def split: list.split)

lemma dest_short:
  assumes r: "ready H V n st" "0 \<le> n"
    and l: "(\<exists>s. loc_u l = L_STACK s \<and> se_find s st \<noteq> None) \<or> (\<exists>tag q. loc_u l = reg_u tag q \<and> q < 1000)"
  shows "\<exists>s. q_loc_str H st (Some l) = Some s \<and> length s \<le> 20"
  using l
proof (elim disjE exE conjE)
  fix s assume s: "loc_u l = L_STACK s" "se_find s st \<noteq> None"
  then obtain e where e: "se_find s st = Some e" by blast
  have "\<bar>se_offset e\<bar> < 2 ^ 31" using r se_find_id [OF e] by (force simp: ready_def fits_def)
  then show ?thesis using show_int_length [OF less_imp_le] s(1) e by (fastforce simp: q_loc_str_def)
next
  fix tag q assume q: "loc_u l = reg_u tag q" "q < 1000"
  then show ?thesis using reg_text_short [of q] by (auto simp: q_loc_str_def reg_u_def)
qed

lemma gen_mov_ok:
  assumes r: "ready H V n st" "0 \<le> n" and H: "host_short H" and v: "var_loc st v \<noteq> []"
    and l: "(\<exists>s. loc_u l = L_STACK s \<and> se_find s st \<noteq> None \<and> (\<forall>k \<in> set (var_loc st v). tag_of k \<noteq> LOC_STACK)) \<or>
      (\<exists>tag q. loc_u l = reg_u tag q \<and> q < 1000)"
  shows "\<exists>b. q_gen_mov B H l v st = Some (st\<lparr>back_st := b\<rparr>) \<and> tmpbuf (outbuf b) = []"
proof -
  obtain k where k: "std_find_best_src_loc v st = Some k" using first_of_Some [OF v] unfolding std_find_best_src_loc_def by blast
  note kin = best_src_in [OF k]
  have nc: "\<not> loc_is_const l" using l by (auto simp: loc_is_const_def reg_u_def split: if_splits)
  have nm: "\<not> (tag_of l = LOC_STACK \<and> tag_of k = LOC_STACK)" using l kin by auto
  obtain d where d: "q_loc_str H st (Some l) = Some d" "length d \<le> 20" using dest_short [OF r] l by blast
  obtain s where s: "q_loc_str H st (Some k) = Some s" "length s \<le> 400" using loc_text [OF r H, of k v] kin by blast
  have pl: "plain d" "plain s"
    using q_text_plain [of H st] H q_loc_str_text [OF d(1)] q_loc_str_text [OF s(1)] by (simp_all add: host_short_def)
  have t: "tmpbuf (outbuf (back_st st)) = []" using r(1) by (simp add: ready_def)
  have "\<exists>b. putln [d, '' := '', s] st = Some (st\<lparr>back_st := b\<rparr>) \<and> tmpbuf (outbuf b) = []"
    by (rule putln_ok [OF t]) (use pl d(2) s(2) in \<open>auto simp: plain_def nl_def\<close>)
  then show ?thesis using k nc nm d(1) s(1) by (auto simp: q_gen_mov_def)
qed

subsection \<open>Saving\<close>

lemma alloc_inv_back: "alloc_inv st \<Longrightarrow> alloc_inv (st\<lparr>back_st := b\<rparr>)"
  by (erule alloc_inv_cong) simp_all

lemma save_to_empty_ok:
  assumes r: "ready H V n st" "0 \<le> n" and H: "host_short H" and v: "var_loc st v \<noteq> []"
    and l: "loc_u l = reg_u tag q" "\<not> permanent l" "tag = LOC_REG \<or> tag = LOC_FPU_REG"
    and e: "reg_vars q tag st = Some []" "is_allowed q tag st = Some True"
  shows "\<exists>st'. save_var_to_loc (quadr_backend H (Suc k)) v l st = Some st' \<and> ready H V n st'"
proof -
  let ?x = "reg_u tag q" and ?B = "quadr_backend H (Suc k)"
  have inv: "alloc_inv st" and t: "tmpbuf (outbuf (back_st st)) = []" and m: "machine_regs st"
    using r(1) by (simp_all add: ready_def)
  have q: "q < 1000" using e(1) m l(3) by (auto simp: reg_vars_def machine_regs_def Let_def split: if_splits)
  obtain b where b: "q_gen_mov (quadr_backend H k) H l v st = Some (st\<lparr>back_st := b\<rparr>)" "tmpbuf (outbuf b) = []"
    using gen_mov_ok [OF r H v, of l "quadr_backend H k"] l(1) q by blast
  have ns: "\<not> suppress_mov st" using inv by (simp add: alloc_inv_def)
  have none: "\<not> has_loc st w ?x" for w
    using alloc_inv_has_loc [OF inv, of w ?x "[]"] e(1) by auto
  then have nf: "find_loc (var_loc st v) ?x = None" by (metis quadr.find_loc_None)
  have fl: "flush_loc ?B ?x st = Some st" by (rule flush_reg_empty [OF e l(3)])
  have nc: "\<not> loc_is_const l" using l(1,3) by (auto simp: loc_is_const_def reg_u_def)
  define l2 where "l2 = \<lparr>loc_id = next_loc st, loc_u = ?x, permanent = False, dirty = False\<rparr>"
  define st' where "st' = add_loc v l2 (set_reg_vars q tag [v] (st\<lparr>back_st := b, next_loc := next_loc st + 1\<rparr>))"
  have lu: "l = \<lparr>loc_id = loc_id l, loc_u = ?x, permanent = False, dirty = dirty l\<rparr>" using l by simp
  have self: "eq_loc ?x (Some ?x)" by (simp add: eq_loc_reg)
  have u: "update_var_loc ?B v l (st\<lparr>back_st := b\<rparr>) = Some (True, st')"
    using l(3)
  proof
    assume "tag = LOC_REG"
    then show ?thesis using e(1) nf
      by (subst lu) (auto simp: update_var_loc_def vl_insert_if_absent_def copy_loc_shallow_def new_loc_def l2_def
          st'_def set_reg_vars_def add_loc_def set_locs_def reg_vars_def c_assert_def find_loc_def Let_def split: if_splits)
  next
    assume "tag = LOC_FPU_REG"
    then show ?thesis using e(1) nf
      by (subst lu) (auto simp: update_var_loc_def vl_insert_if_absent_def copy_loc_shallow_def new_loc_def l2_def
          st'_def set_reg_vars_def add_loc_def set_locs_def reg_vars_def c_assert_def find_loc_def Let_def split: if_splits)
  qed
  have s: "save_var_to_loc ?B v l st = Some st'"
    using fl nf b(1) u v e(1) nc ns
    by (simp add: save_var_to_loc_def l(1) gen_mov_var_def next_fields c_assert_def)
  have g: "good (q_mem H [] (\<lambda>x. ()) :: _ \<Rightarrow> (loc_u \<Rightarrow> unit) option) {} st st'"
    using quadr.save_to_empty_good [OF s inv l e] by blast
  have "ready H V n st'"
    by (rule ready_same [OF r(1) good_inv [OF g]])
      (use g v b(2) in \<open>auto simp: good_def frame_def st'_def add_loc_def set_locs_def set_reg_vars_def split: if_splits\<close>)
  then show ?thesis using s by blast
qed

lemma last_empty:
  assumes "stack_ok es n"
  shows "last es \<in> set es" "se_vars (last es) = []" "se_size (last es) = -1"
  using assms by (simp_all add: stack_ok_def)

lemma from_se_last:
  assumes ok: "stack_ok (stack st) n" and f: "se_find f st = Some e"
  shows "from_se f st \<noteq> []" "last (from_se f st) = last (stack st)" "set (from_se f st) \<subseteq> set (stack st)" "hd (from_se f st) = e"
    "distinct (map se_id (from_se f st))"
proof -
  obtain xs ys where s: "stack st = xs @ e # ys" "\<forall>x \<in> set xs. se_id x \<noteq> f" and ef: "se_id e = f"
    using f unfolding se_find_def find_Some_iff
    by (metis (no_types, lifting) id_take_nth_drop in_set_conv_nth length_take min_less_iff_conj nth_take)
  have "takeWhile (\<lambda>x. se_id x \<noteq> f) xs = xs" using s(2) by (simp add: takeWhile_eq_all_conv)
  then have d: "from_se f st = e # ys" using s ef by (simp add: from_se_def dropWhile_append)
  show "from_se f st \<noteq> []" "last (from_se f st) = last (stack st)" "set (from_se f st) \<subseteq> set (stack st)" "hd (from_se f st) = e"
    by (auto simp: d s)
  show "distinct (map se_id (from_se f st))" using stack_ok_ids(1) [OF ok] by (simp add: d s)
qed

lemma grow_stack_returns:
  assumes ok: "stack_ok (stack st) (next_se st)" and se: "se \<in> set (stack st)" "se_size se = -1"
  shows "\<exists>st1. grow_stack B se n st = Some st1 \<and> first_stack_free st1 = first_stack_free st"
proof -
  have s: "stack st = butlast (stack st) @ [se]" and v: "se_vars se = []"
    using stack_ok_sentry [OF ok se] by simp_all
  have "distinct (map se_id (butlast (stack st) @ se # []))" using stack_ok_ids(1) [OF ok] s by simp
  then have "dropWhile (\<lambda>a. se_id a \<noteq> se_id se) (butlast (stack st) @ se # []) = [se]" by (metis takeWhile_not_id)
  then have "from_se (se_id se) st = [se]" using s by (simp add: from_se_def)
  then show ?thesis using v by (simp add: grow_stack_def c_assert_def upd_se_def)
qed

lemma stack_insert_new_ok:
  assumes r: "ready H V (\<bar>size_of v st\<bar> + n) st" and v: "v \<in> V" "0 < size_of v st"
    and B: "asserts B = h_asserts H"
  shows "\<exists>s st'. stack_insert_new B v st = Some (s, st') \<and> free_elem st' \<and> fits n st' \<and>
    (h_asserts H \<longrightarrow> small_free V st') \<and> regs st' = regs st \<and> fpu_regs st' = fpu_regs st"
proof -
  have inv: "alloc_inv st" using r by (simp add: ready_def)
  have ok: "stack_ok (stack st) (next_se st)" using inv by (simp add: alloc_inv_def)
  obtain f where f: "first_stack_free st = Some f" "loc_vars (L_STACK f) st = Some []"
    using r by (auto simp: ready_def free_elem_def)
  then obtain fe where fe: "se_find f st = Some fe" "se_vars fe = []" by (auto simp: loc_vars_stack)
  note fr = from_se_last [OF ok fe(1)]
  let ?P = "\<lambda>e. \<not> ((se_size e < size_of v st \<or> se_vars e \<noteq> []) \<and> se_size e \<noteq> -1)"
  have "?P (last (from_se f st))" using last_empty [OF ok] by (simp add: fr(2))
  then obtain se where se: "find ?P (from_se f st) = Some se" using find_ex [OF last_in_set [OF fr(1)], of ?P] by blast
  note sin = find_free_elem [OF ok se]
  let ?s = "se_id se"
  have small: "h_asserts H \<longrightarrow> small_free V st" using r by (simp add: ready_def)
  have sz: "asserts B \<longrightarrow> se_size fe \<le> size_of v st"
    using small v(1) fe(2) se_find_id [OF fe(1)] by (auto simp: small_free_def B)
  obtain st1 where g: "(if se_size se = -1 then grow_stack B se (size_of v st) st else Some st) = Some st1"
    "first_stack_free st1 = first_stack_free st"
    using grow_stack_returns [OF ok sin(1), of B "size_of v st"] by (cases "se_size se = -1") auto
  define st2 where "st2 = upd_se ?s (\<lambda>e. e\<lparr>se_vars := [v]\<rparr>) st1"
  define st' where "st' = advance_free ?s st2"
  have i: "stack_insert_new B v st = Some (?s, st')"
    using f(1) fe sz se g(1) by (simp add: stack_insert_new_def c_assert_def Let_def st2_def st'_def)
  have inv': "alloc_inv st'" using stack_insert_new_inv(1) [OF i inv v(2)] .
  have ok': "stack_ok (stack st') (next_se st')" using inv' by (simp add: alloc_inv_def)
  have "regs st1 = regs st" "fpu_regs st1 = fpu_regs st"
    using g(1) grow_stack_result(6,7) [OF _ ok sin(1), of B "size_of v st" st1] by (auto split: if_splits)
  then have rg: "regs st' = regs st" "fpu_regs st' = fpu_regs st"
    by (simp_all add: st'_def st2_def advance_free_fields upd_vars_fields)
  have stk: "stack st' = stack st2" by (simp add: st'_def advance_free_fields)
  have elems: "(\<exists>e0 \<in> set (stack st). se_offset e = se_offset e0 \<and> (se_vars e = [] \<longrightarrow> se_vars e0 = [] \<and> se_size e = se_size e0)) \<or>
      (\<exists>e0 \<in> set (stack st). se_offset e = se_offset e0 + size_of v st) \<and> se_size e = -1"
    if "e \<in> set (stack st')" for e
  proof -
    obtain e1 where e1: "e1 \<in> set (stack st1)" "e = (if se_id e1 = ?s then e1\<lparr>se_vars := [v]\<rparr> else e1)"
      using \<open>e \<in> set (stack st')\<close> by (auto simp: stk st2_def upd_se_def)
    show ?thesis
    proof (cases "se_size se = -1")
      case True
      then have g': "grow_stack B se (size_of v st) st = Some st1" using g(1) by simp
      consider "e1 \<in> set (stack st)" | "e1 = se\<lparr>se_size := size_of v st\<rparr>"
        | "se_offset e1 = se_offset se + size_of v st" "se_size e1 = -1" "se_id e1 = next_se st"
        using e1(1) by (auto simp: grow_stack_result(1) [OF g' ok sin(1) True] dest: in_set_butlastD)
      then show ?thesis
      proof cases
        case 3
        then show ?thesis using e1(2) sin(1) by auto
      qed (use e1(2) sin(1) in \<open>force+\<close>)
    next
      case False
      then show ?thesis using g(1) e1 by auto
    qed
  qed
  have "fits n st'"
    unfolding fits_def
  proof
    fix e assume "e \<in> set (stack st')"
    from elems [OF this] obtain e0 where e0: "e0 \<in> set (stack st)"
      "se_offset e = se_offset e0 \<or> se_offset e = se_offset e0 + size_of v st" by blast
    have "fits (\<bar>size_of v st\<bar> + n) st" using r by (simp add: ready_def)
    then have "\<bar>se_offset e0\<bar> + (\<bar>size_of v st\<bar> + n) < 2 ^ 31" using e0(1) unfolding fits_def by (rule bspec)
    then show "\<bar>se_offset e\<bar> + n < 2 ^ 31" using e0(2) by linarith
  qed
  moreover have "h_asserts H \<longrightarrow> small_free V st'"
    unfolding small_free_def
  proof (intro impI ballI)
    fix e w assume h: "h_asserts H" and e: "e \<in> set (stack st')" "se_vars e = []" and w: "w \<in> V"
    have q: "size_of w st' = size_of w st"
      using stack_insert_new_inv(2) [OF i inv v(2)] by (rule frame_fixed(10))
    have "-1 \<le> size_of w st" using small h w last_empty [OF ok] unfolding small_free_def by metis
    then show "se_size e \<le> size_of w st'"
      unfolding q using elems [OF e(1)] e(2) small h w unfolding small_free_def by fastforce
  qed
  moreover have "free_elem st'"
  proof (cases "f = ?s")
    case True
    have "loc_vars (L_STACK ?s) st' = Some [v]" using stack_insert_new_inv(3) [OF i inv v(2)] .
    then obtain e where e: "se_find ?s st2 = Some e" by (auto simp: loc_vars_stack se_find_def stk)
    have "stack_ok (stack st2) (next_se st')" using ok' by (simp add: stk)
    note fr2 = from_se_last [OF this e]
    have "dropWhile (\<lambda>e. se_vars e \<noteq> []) (from_se ?s st2) \<noteq> []"
      using fr2(1,2) last_empty(2) [OF \<open>stack_ok (stack st2) _\<close>] by (metis (mono_tags, lifting) dropWhile_eq_Nil_conv last_in_set)
    then obtain e2 es where d: "dropWhile (\<lambda>e. se_vars e \<noteq> []) (from_se ?s st2) = e2 # es" by (meson neq_Nil_conv)
    have "se_vars e2 = []" using d by (simp add: dropWhile_eq_Cons_conv)
    have "e2 \<in> set (from_se ?s st2)" by (rule set_dropWhileD [of _ "\<lambda>e. se_vars e \<noteq> []"]) (simp add: d)
    then have "se_find (se_id e2) st2 = Some e2"
      using fr2(3) se_find_unique [OF stack_ok_ids(1) [OF \<open>stack_ok (stack st2) _\<close>]] by blast
    moreover have "first_stack_free st' = Some (se_id e2)"
      using d f(1) g(2) True by (simp add: st'_def advance_free_def st2_def upd_se_def)
    ultimately show ?thesis using \<open>se_vars e2 = []\<close> by (simp add: free_elem_def loc_vars_stack se_find_def stk)
  next
    case False
    have "first_stack_free st' = Some f" using False f(1) g(2) by (simp add: st'_def advance_free_def st2_def upd_se_def)
    moreover have "loc_vars (L_STACK f) st1 = Some []"
    proof (cases "se_size se = -1")
      case True
      then have g': "grow_stack B se (size_of v st) st = Some st1" using g(1) by simp
      have "f \<noteq> next_se st" using se_find_id [OF fe(1)] stack_ok_ids(2) [OF ok] by fastforce
      then show ?thesis using grow_frame_ok(2) [OF g' ok sin(1) True v(2)] f(2) by simp
    qed (use g(1) f(2) in simp)
    then have "loc_vars (L_STACK f) st' = Some []"
      using False loc_vars_upd_vars [of f ?s "[v]" st1] by (simp add: loc_vars_stack se_find_def stk st2_def)
    ultimately show ?thesis by (simp add: free_elem_def)
  qed
  ultimately show ?thesis using i rg by blast
qed

lemma new_stack_loc_ok:
  assumes r: "ready H V (\<bar>size_of v st\<bar> + n) st" "0 \<le> n" and H: "host_short H" and v: "var_loc st v \<noteq> []"
    and ns: "\<forall>l \<in> set (var_loc st v). tag_of l \<noteq> LOC_STACK"
  shows "\<exists>l st'. new_stack_loc (quadr_backend H (Suc k)) v st = Some (l, st') \<and> ready H V n st'"
proof -
  let ?B = "quadr_backend H (Suc k)"
  have inv: "alloc_inv st" using r(1) by (simp add: ready_def)
  have vV: "v \<in> V" and sz: "0 < size_of v st" using r(1) v by (auto simp: ready_def located_in_def alloc_inv_def)
  have nsup: "\<not> suppress_mov st" using inv by (simp add: alloc_inv_def)
  obtain s st1 where i: "stack_insert_new ?B v st = Some (s, st1)" and i2: "free_elem st1" "fits n st1"
    "h_asserts H \<longrightarrow> small_free V st1" "regs st1 = regs st" "fpu_regs st1 = fpu_regs st"
    using stack_insert_new_ok [OF r(1) vV sz level_consts(3)] by blast
  note j = stack_insert_new_inv [OF i inv sz]
  let ?l = "\<lparr>loc_id = next_loc st1, loc_u = L_STACK s, permanent = False, dirty = False\<rparr>"
  let ?st2 = "st1\<lparr>next_loc := next_loc st1 + 1\<rparr>"
  have f: "quadrs st1 = quadrs st" "cur_quadr st1 = cur_quadr st" "gencode_cur_block st1 = gencode_cur_block st"
    "blacklist_reg st1 = blacklist_reg st" "blacklist_fpu_reg st1 = blacklist_fpu_reg st" "suppress_mov st1 = suppress_mov st"
    using frame_fixed [OF j(2)] by simp_all
  have "ready H V n st1"
    using r(1) i2 j(1,5,6) f uses_known_fixed [OF f(1-3), of V] by (simp add: ready_def machine_regs_def located_in_def)
  then have r2: "ready H V n ?st2"
    by (rule ready_same) (use r(1) j(1,6) in \<open>auto simp: fixed_def ready_def intro: alloc_inv_cong\<close>)
  have "se_find s ?st2 \<noteq> None" using j(3) by (auto simp: loc_vars_stack se_find_def)
  then obtain b where b: "q_gen_mov (quadr_backend H k) H ?l v ?st2 = Some (?st2\<lparr>back_st := b\<rparr>)" "tmpbuf (outbuf b) = []"
    using gen_mov_ok [OF r2 r(2) H, of v ?l "quadr_backend H k"] v ns j(5) by auto
  have n: "new_stack_loc ?B v st = Some (?l, add_loc v ?l (?st2\<lparr>back_st := b\<rparr>))"
    using i b(1) nsup f(6) by (simp add: new_stack_loc_def new_loc_def gen_mov_var_def next_fields)
  note g = quadr.new_stack_loc_good(1) [OF n inv, of "[]" "\<lambda>x. ()"]
  have "ready H V n (add_loc v ?l (?st2\<lparr>back_st := b\<rparr>))"
    by (rule ready_same [OF r2 good_inv [OF g]])
      (use v b(2) j(5) in \<open>auto simp: fixed_def add_loc_def set_locs_def split: if_splits\<close>)
  then show ?thesis using n by blast
qed

lemma save_to_mem_ok:
  assumes r: "ready H V (\<bar>size_of v st\<bar> + n) st" "0 \<le> n" and H: "host_short H" and v: "var_loc st v \<noteq> []"
  shows "\<exists>rl st'. save_to_mem (quadr_backend H (Suc k)) v None st = Some (rl, st') \<and> ready H V n st'"
proof (cases "find (\<lambda>l. permanent l) (var_loc st v)")
  case (Some l)
  then have "l \<in> set (var_loc st v)" by (auto simp: find_Some_iff)
  then have "\<not> dirty l" using r(1) by (auto simp: ready_def alloc_inv_def)
  then show ?thesis using Some ready_less [OF r(1), of n] by (simp add: save_to_mem_def save_to_permanent_def)
next
  case None
  show ?thesis
  proof (cases "find (\<lambda>l. tag_of l = LOC_STACK) (var_loc st v)")
    case (Some l)
    then show ?thesis using None ready_less [OF r(1), of n] by (simp add: save_to_mem_def)
  next
    case n: None
    then have "\<forall>l \<in> set (var_loc st v). tag_of l \<noteq> LOC_STACK" by (auto simp: find_None_iff)
    from new_stack_loc_ok [OF r H v this, of k] show ?thesis
      using None n by (auto simp: save_to_mem_def simp del: quadr_backend.simps)
  qed
qed

lemma sensible_ok:
  assumes r: "ready H V n st" and v: "var_loc st v \<noteq> []"
  shows "\<exists>b. sensible (quadr_backend H k) v st = Some b \<and> (b \<longrightarrow> (\<exists>q. find_free_reg 1000 (reg_type v st) st = Some q))"
proof -
  have m: "machine_regs st" and "v \<in> V" using r v by (auto simp: ready_def located_in_def)
  then obtain d where d: "nearest_use_distance v st = Some d" using r by (auto simp: ready_def uses_known_def)
  obtain c where c: "available_regs_num (quadr_backend H k) (reg_type v st) st = Some c"
    using m by (auto simp: available_regs_num_def c_assert_def machine_regs_def reg_type_def Let_def)
  show ?thesis
    using d c available_free [OF c] by (auto simp: sensible_def split: if_splits)
qed

lemma save_var_ok:
  assumes r: "ready H V (\<bar>size_of v st\<bar> + n) st" "0 \<le> n" and H: "host_short H" and v: "var_loc st v \<noteq> []"
  shows "\<exists>rl st'. save_var_not_to_loc (quadr_backend H (Suc k)) v None st = Some (rl, st') \<and> ready H V n st'"
proof -
  let ?B = "quadr_backend H (Suc k)" and ?t = "reg_type v st"
  have inv: "alloc_inv st" using r(1) by (simp add: ready_def)
  have t: "?t = LOC_REG \<or> ?t = LOC_FPU_REG" by (simp add: reg_type_def)
  have np: "find (\<lambda>l. permanent l \<and> tag_of l = ?t \<and> loc_is_allowed (loc_u l) st = Some True \<and>
      \<not> eq_loc (loc_u l) None) (var_loc st v) = None"
    using inv t by (auto simp: find_None_iff alloc_inv_def)
  obtain b where b: "sensible ?B v st = Some b" "b \<Longrightarrow> \<exists>q. find_free_reg 1000 ?t st = Some q"
    using sensible_ok [OF r(1) v, of "Suc k"] by blast
  show ?thesis
  proof (cases b)
    case True
    then obtain q where q: "find_free_reg 1000 ?t st = Some q" using b(2) by blast
    let ?l = "fst (new_loc (reg_u ?t q) st)" and ?st = "snd (new_loc (reg_u ?t q) st)"
    have a: "alloc_reg ?B ?t st = Some (?l, ?st)" using alloc_reg_free [OF q t] by simp
    have "ready H V n st" using ready_less [OF r(1)] by simp
    then have r2: "ready H V n ?st"
      by (rule ready_same) (use r(1) in \<open>auto simp: fixed_def ready_def new_loc_def intro: alloc_inv_cong\<close>)
    have "reg_vars q ?t ?st = reg_vars q ?t st" "is_allowed q ?t ?st = is_allowed q ?t st"
      by (simp_all add: new_loc_def reg_vars_def is_allowed_def)
    then have e: "reg_vars q ?t ?st = Some []" "is_allowed q ?t ?st = Some True" and v2: "var_loc ?st v \<noteq> []"
      using find_free_reg_Some [OF q] v by (simp_all add: new_loc_def)
    obtain st' where s: "save_var_to_loc ?B v ?l ?st = Some st'" "ready H V n st'"
      using save_to_empty_ok [OF r2 r(2) H v2 _ _ t e, of ?l k] by (auto simp: new_loc_def)
    show ?thesis
      using np b(1) True a s v by (auto simp: save_var_not_to_loc_def c_assert_def case_prod_unfold simp del: quadr_backend.simps)
  next
    case False
    then show ?thesis
      using np b(1) v save_to_mem_ok [OF r H v, of k]
      by (auto simp: save_var_not_to_loc_def c_assert_def simp del: quadr_backend.simps)
  qed
qed

subsection \<open>Freeing\<close>

definition need :: "var_id list \<Rightarrow> 'b gencode_st \<Rightarrow> int" where
  "need vl st = (\<Sum>v\<leftarrow>vl. \<bar>size_of v st\<bar>)"

lemma need_nonneg: "0 \<le> need vl st"
  by (induction vl) (simp_all add: need_def)

lemma need_same: "quadrs st' = quadrs st \<Longrightarrow> need vl st' = need vl st"
  by (simp add: need_def size_of_def)

lemma ready_inv: "ready H V n st \<Longrightarrow> alloc_inv st"
  by (simp add: ready_def)

lemma ready_erase:
  assumes r: "ready H V n st"
  shows "ready H V n (loc_erase v (reg_u tag q) st)"
proof -
  have e: "loc_erase v (reg_u tag q) st = set_locs v (filter (\<lambda>l. loc_u l \<noteq> reg_u tag q) (var_loc st v)) st"
    by (rule loc_erase_reg [OF ready_inv [OF r]])
  show ?thesis
    unfolding e
    by (rule ready_same [OF r alloc_inv_filter [OF ready_inv [OF r]]])
      (use r in \<open>auto simp: ready_def set_locs_def fixed_def split: if_splits\<close>)
qed

lemma free_vl_ok:
  assumes "ready H V (need vl st + n) st" "0 \<le> n" "host_short H" "protected (reg_u tag q) st"
    "\<forall>v \<in> set vl. is_live v st \<longrightarrow> var_loc st v \<noteq> []"
  shows "\<exists>st'. free_vl (quadr_backend H (Suc (Suc k))) (reg_u tag q) None vl st = Some st' \<and> ready H V n st'"
  using assms
proof (induction vl arbitrary: st)
  case Nil
  then show ?case by (simp add: need_def)
next
  case (Cons v vl)
  let ?B = "quadr_backend H (Suc (Suc k))" and ?x = "reg_u tag q" and ?m = "need vl st + n"
  have m: "0 \<le> ?m" using need_nonneg [of vl st] Cons.prems(2) by simp
  have r: "ready H V (\<bar>size_of v st\<bar> + ?m) st" using Cons.prems(1) by (simp add: need_def add.assoc)
  have one: "\<exists>st1. free_vl ?B ?x None [v] st = Some st1 \<and> ready H V ?m st1"
  proof (cases "should_save_var v (Some ?x) st")
    case True
    then have "var_loc st v \<noteq> []" using Cons.prems(5) by (auto simp: should_save_var_def)
    then obtain rl st1 where "save_var_not_to_loc (quadr_backend H (Suc k)) v None st = Some (rl, st1)" "ready H V ?m st1"
      using save_var_ok [OF r m Cons.prems(3)] by blast
    moreover have "again ?B = save_var_not_to_loc (quadr_backend H (Suc k))" by (simp add: next_fields)
    ultimately show ?thesis using True ready_erase by (auto simp del: quadr_backend.simps)
  next
    case False
    have "ready H V ?m st" by (rule ready_less [OF r]) simp
    then show ?thesis using False ready_erase by (auto simp del: quadr_backend.simps)
  qed
  then obtain st1 where f1: "free_vl ?B ?x None [v] st = Some st1" and r1: "ready H V ?m st1" by blast
  have g: "good (q_mem H [] (\<lambda>x. ()) :: _ \<Rightarrow> (loc_u \<Rightarrow> unit) option) {} st st1"
    using quadr.free_vl_good [OF f1 ready_inv [OF r] Cons.prems(4)] by blast
  then have fr: "frame {} st st1" by (simp add: good_def)
  have "protected ?x st1" using frame_protected(3) [OF fr _ Cons.prems(4)] by simp
  moreover have "\<forall>v \<in> set vl. is_live v st1 \<longrightarrow> var_loc st1 v \<noteq> []"
    using Cons.prems(5) frame_live [OF fr] frame_fixed(9) [OF fr] by auto
  moreover have "need vl st1 = need vl st" by (rule need_same [OF frame_fixed(1) [OF fr]])
  ultimately obtain st' where "free_vl ?B ?x None vl st1 = Some st'" "ready H V n st'"
    using Cons.IH [of st1] r1 Cons.prems(2,3) by auto
  moreover have "free_vl ?B ?x None (v # vl) st = do { st \<leftarrow> free_vl ?B ?x None [v] st; free_vl ?B ?x None vl st }"
    by (simp del: quadr_backend.simps)
  ultimately show ?case using f1 by (simp del: free_vl.simps quadr_backend.simps)
qed

lemma set_denied_ok:
  assumes "machine_regs st" "q < 1000"
  shows "\<exists>st'. set_denied q tag b st = Some st' \<and> machine_regs st' \<and> first_stack_free st' = first_stack_free st \<and>
    cur_quadr st' = cur_quadr st \<and> gencode_cur_block st' = gencode_cur_block st"
  using assms by (auto simp: set_denied_def machine_regs_def)

lemma ready_denied:
  assumes r: "ready H V n st" and q: "q < 1000"
  shows "\<exists>st'. set_denied q tag b st = Some st' \<and> ready H V n st'"
proof -
  obtain st' where d: "set_denied q tag b st = Some st'" and f: "machine_regs st'" "first_stack_free st' = first_stack_free st"
    "cur_quadr st' = cur_quadr st" "gencode_cur_block st' = gencode_cur_block st"
    using set_denied_ok q r unfolding ready_def by blast
  note g = set_denied_fields [OF d]
  have "ready H V n st'"
    by (rule ready_cong [OF r alloc_inv_denied [OF ready_inv [OF r] d] g(7) f(3,4) _ g(2) f(2) f(1)])
      (use r g in \<open>simp_all add: ready_def\<close>)
  then show ?thesis using d by blast
qed

lemma set_reg_more [simp]:
  "first_stack_free (set_reg_vars q tag vl st) = first_stack_free st"
  "length (regs (set_reg_vars q tag vl st)) = length (regs st)"
  "length (fpu_regs (set_reg_vars q tag vl st)) = length (fpu_regs st)"
  by (simp_all add: set_reg_vars_def)

lemma ready_set_reg:
  assumes r: "ready H V n st" and l: "reg_vars q tag st = Some vl0" "\<forall>v. \<not> has_loc st v (reg_u tag q)"
  shows "ready H V n (set_reg_vars q tag vl st)"
proof -
  have "alloc_inv (set_reg_vars q tag vl st)" by (rule alloc_inv_set_reg [OF ready_inv [OF r] l(1)]) (use l(2) in blast)
  then show ?thesis
    by (rule ready_same [OF r]) (use r in \<open>simp_all add: ready_def\<close>)
qed

lemma free_core_ok:
  assumes r: "ready H V (need vl st + n) st" "0 \<le> n" and H: "host_short H" and q: "q < 1000"
    and vl: "reg_vars q tag st = Some vl" and flag: "is_allowed q tag st = Some flag"
    and live: "\<forall>v \<in> set vl. is_live v st \<longrightarrow> var_loc st v \<noteq> []"
  shows "\<exists>st1 st2 st4. (if flag then set_denied q tag True st else Some st) = Some st1 \<and>
    free_vl (quadr_backend H (Suc (Suc k))) (reg_u tag q) None vl st1 = Some st2 \<and>
    (if flag then set_denied q tag False (set_reg_vars q tag [] st2) else Some (set_reg_vars q tag [] st2)) = Some st4 \<and>
    ready H V n st4"
proof -
  let ?B = "quadr_backend H (Suc (Suc k))" and ?x = "reg_u tag q"
  obtain st1 where d: "(if flag then set_denied q tag True st else Some st) = Some st1"
    and r1: "ready H V (need vl st + n) st1"
    using ready_denied [OF r(1) q, of tag True] r(1) by (cases flag) auto
  have 1: "var_loc st1 = var_loc st" "stack st1 = stack st" "regs st1 = regs st" "fpu_regs st1 = fpu_regs st" "quadrs st1 = quadrs st"
    using d set_denied_fields [of q tag True st st1] by (auto split: if_splits)
  have "is_allowed q tag st1 = Some False"
    using d flag set_denied_allowed [of q tag True st st1 q tag] by (auto split: if_splits)
  then have p: "protected ?x st1" by (simp add: reg_denied)
  have "\<forall>v \<in> set vl. is_live v st1 \<longrightarrow> var_loc st1 v \<noteq> []" using live 1 by (simp add: is_live_def)
  moreover have "need vl st1 = need vl st" by (rule need_same [OF 1(5)])
  ultimately obtain st2 where f: "free_vl ?B ?x None vl st1 = Some st2" and r2: "ready H V n st2"
    using free_vl_ok [of H V vl st1 n tag q k] r1 r(2) H p by auto
  note g = quadr.free_vl_good [OF f ready_inv [OF r1] p, of "[]" "\<lambda>x. ()"]
  have vl1: "loc_vars ?x st1 = Some vl" using vl loc_vars_cong(1) [of st1 st ?x] 1 by simp
  have none: "\<forall>v. \<not> has_loc st2 v ?x" using g alloc_inv_has_loc [OF ready_inv [OF r1] _ vl1] by blast
  have fr: "frame {} st1 st2" using g by (simp add: good_def)
  have vl2: "reg_vars q tag st2 = Some vl" using frame_protected(1) [OF fr _ p] vl1 by simp
  have r3: "ready H V n (set_reg_vars q tag [] st2)" by (rule ready_set_reg [OF r2 vl2 none])
  obtain st4 where "(if flag then set_denied q tag False (set_reg_vars q tag [] st2) else Some (set_reg_vars q tag [] st2)) = Some st4"
    "ready H V n st4"
    using ready_denied [OF r3 q, of tag False] r3 by (cases flag) auto
  then show ?thesis using d f by blast
qed

lemma free_reg_ok:
  assumes r: "ready H V (need vl st + n) st" "0 \<le> n" and H: "host_short H"
    and vl: "reg_vars q LOC_REG st = Some vl"
    and live: "\<forall>v \<in> set vl. is_live v st \<longrightarrow> var_loc st v \<noteq> []"
  shows "\<exists>st'. free_reg (quadr_backend H (Suc (Suc k))) q st = Some st' \<and> ready H V n st'"
proof -
  have m: "machine_regs st" using r(1) by (simp add: ready_def)
  have q: "q < 1000" using vl m by (auto simp: reg_vars_def machine_regs_def split: if_splits)
  then obtain flag where flag: "is_allowed q LOC_REG st = Some flag" using m by (auto simp: is_allowed_def machine_regs_def)
  obtain st1 st2 st4 where c: "(if flag then set_denied q LOC_REG True st else Some st) = Some st1"
    "free_vl (quadr_backend H (Suc (Suc k))) (reg_u LOC_REG q) None vl st1 = Some st2"
    "(if flag then set_denied q LOC_REG False (set_reg_vars q LOC_REG [] st2) else Some (set_reg_vars q LOC_REG [] st2)) = Some st4"
    "ready H V n st4"
    using free_core_ok [OF r H q vl flag live, of k] by blast
  have "free_reg (quadr_backend H (Suc (Suc k))) q st = Some st4"
    using c(1-3) vl flag
    by (cases flag) (simp_all add: free_reg_def deny_reg_def allow_reg_def c_assert_def del: quadr_backend.simps)
  then show ?thesis using c(4) by blast
qed

lemma free_fpu_reg_ok:
  assumes r: "ready H V (need vl st + n) st" "0 \<le> n" and H: "host_short H"
    and vl: "reg_vars q LOC_FPU_REG st = Some vl"
    and live: "\<forall>v \<in> set vl. is_live v st \<longrightarrow> var_loc st v \<noteq> []"
  shows "\<exists>st'. free_fpu_reg (quadr_backend H (Suc (Suc k))) q phys st = Some st' \<and> ready H V n st'"
proof -
  have m: "machine_regs st" using r(1) by (simp add: ready_def)
  have q: "q < 1000" using vl m by (auto simp: reg_vars_def machine_regs_def split: if_splits)
  then obtain flag where flag: "is_allowed q LOC_FPU_REG st = Some flag" using m by (auto simp: is_allowed_def machine_regs_def)
  show ?thesis
  proof (cases "vl = []")
    case True
    then show ?thesis using free_fpu_reg_empty_same [OF _ flag] vl ready_less [OF r(1), of n] by (simp add: need_def)
  next
    case False
    obtain st1 st2 st4 where c: "(if flag then set_denied q LOC_FPU_REG True st else Some st) = Some st1"
      "free_vl (quadr_backend H (Suc (Suc k))) (reg_u LOC_FPU_REG q) None vl st1 = Some st2"
      "(if flag then set_denied q LOC_FPU_REG False (set_reg_vars q LOC_FPU_REG [] st2)
        else Some (set_reg_vars q LOC_FPU_REG [] st2)) = Some st4" "ready H V n st4"
      using free_core_ok [OF r H q vl flag live, of k] by blast
    have "fpu_reg_free (quadr_backend H (Suc (Suc k))) q st4 = Some st4" by (simp add: next_fields q_fpu_reg_free_def)
    then have "free_fpu_reg (quadr_backend H (Suc (Suc k))) q phys st = Some st4"
      using c(1-3) vl flag False
      by (cases flag) (simp_all add: free_fpu_reg_def deny_reg_def allow_reg_def c_assert_def del: quadr_backend.simps)
    then show ?thesis using c(4) by blast
  qed
qed

definition reg_live :: "loc_tag_t \<Rightarrow> 'b gencode_st \<Rightarrow> bool" where
  \<comment> \<open>a live variable in a register has a location\<close>
  "reg_live tag st \<longleftrightarrow> (\<forall>r vl. reg_vars r tag st = Some vl \<longrightarrow> (\<forall>v \<in> set vl. is_live v st \<longrightarrow> var_loc st v \<noteq> []))"

definition reg_need :: "loc_tag_t \<Rightarrow> 'b gencode_st \<Rightarrow> int" where
  \<comment> \<open>the size of all variables in registers\<close>
  "reg_need tag st = need (concat (if tag = LOC_REG then regs st else fpu_regs st)) st"

lemma need_append: "need (xs @ ys) st = need xs st + need ys st"
  by (simp add: need_def)

lemma need_elem:
  assumes "vl \<in> set vls"
  shows "need vl st \<le> need (concat vls) st"
proof -
  obtain xs ys where "vls = xs @ vl # ys" using assms by (meson split_list)
  then show ?thesis using need_nonneg [of "concat xs" st] need_nonneg [of "concat ys" st] by (simp add: need_append)
qed

lemma reg_need_elem:
  assumes "reg_vars r tag st = Some vl"
  shows "need vl st \<le> reg_need tag st"
proof -
  have "vl \<in> set (if tag = LOC_REG then regs st else fpu_regs st)"
    using assms by (auto simp: reg_vars_def Let_def split: if_splits)
  then show ?thesis unfolding reg_need_def by (rule need_elem)
qed

lemma free_any_ok:
  assumes "ready H V (need vl st + n) st" "0 \<le> n" "host_short H" "tag = LOC_REG \<or> tag = LOC_FPU_REG"
    "reg_vars q tag st = Some vl" "\<forall>v \<in> set vl. is_live v st \<longrightarrow> var_loc st v \<noteq> []"
  shows "\<exists>st'. (if tag = LOC_REG then free_reg (quadr_backend H (Suc (Suc k))) q st
      else free_fpu_reg (quadr_backend H (Suc (Suc k))) q True st) = Some st' \<and> ready H V n st'"
  using assms(4)
proof
  assume t: "tag = LOC_REG"
  show ?thesis using free_reg_ok [OF assms(1-3) _ assms(6), of q k] assms(5) t by simp
next
  assume t: "tag = LOC_FPU_REG"
  show ?thesis using free_fpu_reg_ok [OF assms(1-3) _ assms(6), of q k True] assms(5) t by simp
qed

lemma free_each_ok:
  assumes "ready H V (need (concat (map (\<lambda>i. the (reg_vars i tag st)) rs)) st + n) st" "0 \<le> n" "host_short H"
    "tag = LOC_REG \<or> tag = LOC_FPU_REG"
    "\<forall>i \<in> set rs. \<forall>v \<in> set (the (reg_vars i tag st)). is_live v st \<longrightarrow> var_loc st v \<noteq> []"
    "\<forall>i \<in> set rs. i < 1000 \<and> is_allowed i tag st = Some False" "distinct rs"
  shows "\<exists>st'. free_each (quadr_backend H (Suc (Suc k))) tag rs st = Some st' \<and> ready H V n st'"
  using assms
proof (induction rs arbitrary: st)
  case (Cons i rs)
  let ?B = "quadr_backend H (Suc (Suc k))"
  let ?vls = "\<lambda>st. concat (map (\<lambda>i. the (reg_vars i tag st)) rs)"
  let ?m = "need (?vls st) st + n"
  have m: "machine_regs st" using Cons.prems(1) by (simp add: ready_def)
  then obtain vl where vl: "reg_vars i tag st = Some vl"
    using Cons.prems(4,6) by (auto simp: reg_vars_def machine_regs_def)
  have r: "ready H V (need vl st + ?m) st" using Cons.prems(1) vl by (simp add: need_append add.assoc)
  have "0 \<le> ?m" using need_nonneg [of "?vls st" st] Cons.prems(2) by simp
  moreover have "\<forall>v \<in> set vl. is_live v st \<longrightarrow> var_loc st v \<noteq> []" using Cons.prems(5) vl by simp
  ultimately obtain st1 where
    f: "(if tag = LOC_REG then free_reg ?B i st else free_fpu_reg ?B i True st) = Some st1" and r1: "ready H V ?m st1"
    using free_any_ok [OF r _ Cons.prems(3,4) vl, of k] by blast
  have fe: "free_each ?B tag [i] st = Some st1" using f by (simp del: quadr_backend.simps)
  have one: "\<forall>j \<in> set [i]. is_allowed j tag st = Some False" using Cons.prems(6) by simp
  have fr: "frame {reg_u tag i} st st1"
    using quadr.free_each_good [OF fe ready_inv [OF r] Cons.prems(4) one, of "[]" "\<lambda>x. ()"] by (simp add: good_def)
  have al: "is_allowed j tag st1 = is_allowed j tag st" for j by (rule frame_fixed(13) [OF fr])
  have same: "reg_vars j tag st1 = reg_vars j tag st" if "j \<in> set rs" for j
  proof -
    have "reg_u tag j \<noteq> reg_u tag i" using that Cons.prems(7) by (auto simp: reg_u_def)
    moreover have "protected (reg_u tag j) st" using that Cons.prems(6) by (simp add: reg_denied)
    ultimately show ?thesis using frame_protected(1) [OF fr, of "reg_u tag j"] by simp
  qed
  have vls: "?vls st1 = ?vls st" using same by (metis (mono_tags, lifting) map_cong)
  have nd: "need (?vls st1) st1 = need (?vls st) st" unfolding vls by (rule need_same [OF frame_fixed(1) [OF fr]])
  have "\<forall>j \<in> set rs. \<forall>v \<in> set (the (reg_vars j tag st1)). is_live v st1 \<longrightarrow> var_loc st1 v \<noteq> []"
    using Cons.prems(5) same frame_live [OF fr] frame_fixed(9) [OF fr] by auto
  moreover have "\<forall>j \<in> set rs. j < 1000 \<and> is_allowed j tag st1 = Some False" using Cons.prems(6) al by simp
  ultimately have "\<exists>st'. free_each ?B tag rs st1 = Some st' \<and> ready H V n st'"
    using Cons.IH [of st1] r1 nd Cons.prems(2-4,7) by simp
  then show ?case using f by (simp del: quadr_backend.simps)
qed (simp add: need_def)

lemma ready_all_denied:
  assumes r: "ready H V n st" and tag: "tag = LOC_REG \<or> tag = LOC_FPU_REG"
  shows "\<exists>st'. set_all_denied (quadr_backend H k) tag b st = Some st' \<and> ready H V n st' \<and>
    (\<forall>i < 1000. is_allowed i tag st' = Some (\<not> b))"
proof -
  have m: "machine_regs st" using r by (simp add: ready_def)
  obtain st' where d: "set_all_denied (quadr_backend H k) tag b st = Some st'" and f: "machine_regs st'"
    "first_stack_free st' = first_stack_free st" "cur_quadr st' = cur_quadr st" "gencode_cur_block st' = gencode_cur_block st"
    "\<forall>i < 1000. is_allowed i tag st' = Some (\<not> b)"
    using m tag by (auto simp: set_all_denied_def machine_regs_def c_assert_def is_allowed_def nth_append)
  note g = quadr.set_all_denied_fields [OF d]
  have "ready H V n st'"
    by (rule ready_cong [OF r alloc_inv_cong [OF ready_inv [OF r] g(1-7)] g(7) f(3,4) _ g(2) f(2) f(1)])
      (use r g in \<open>simp_all add: ready_def\<close>)
  then show ?thesis using d f(5) by blast
qed

lemma all_regs:
  assumes "machine_regs st" "tag = LOC_REG \<or> tag = LOC_FPU_REG"
  shows "map (\<lambda>i. the (reg_vars i tag st)) [0..<1000] = (if tag = LOC_REG then regs st else fpu_regs st)"
  using assms by (intro nth_equalityI) (auto simp: reg_vars_def machine_regs_def)

lemma do_free_all_ok:
  assumes r: "ready H V (reg_need tag st) st" and H: "host_short H" and tag: "tag = LOC_REG \<or> tag = LOC_FPU_REG"
    and live: "reg_live tag st"
  shows "\<exists>st'. do_free_all (quadr_backend H (Suc (Suc k))) 1000 tag st = Some st' \<and> ready H V 0 st'"
proof -
  let ?B = "quadr_backend H (Suc (Suc k))"
  obtain st1 where d: "set_all_denied ?B tag True st = Some st1" and r1: "ready H V (reg_need tag st) st1"
    and al: "\<forall>i < 1000. is_allowed i tag st1 = Some False"
    using ready_all_denied [OF r tag, of "Suc (Suc k)" True] by auto
  note g = quadr.set_all_denied_fields [OF d]
  have rv: "reg_vars i tag st1 = reg_vars i tag st" for i using g by (simp add: reg_vars_def)
  have m: "machine_regs st1" using r1 by (simp add: ready_def)
  have "need (concat (map (\<lambda>i. the (reg_vars i tag st1)) [0..<1000])) st1 = reg_need tag st"
    using need_same [OF g(7)] g by (simp add: all_regs [OF m tag] reg_need_def del: upt_conv_Cons_Cons)
  then have "ready H V (need (concat (map (\<lambda>i. the (reg_vars i tag st1)) [0..<1000])) st1 + 0) st1" using r1 by simp
  moreover have "\<forall>i \<in> set [0..<1000]. \<forall>v \<in> set (the (reg_vars i tag st1)). is_live v st1 \<longrightarrow> var_loc st1 v \<noteq> []"
  proof (intro ballI)
    fix i v assume i: "i \<in> set [0..<1000]" and v: "v \<in> set (the (reg_vars i tag st1))"
    then have "i < 1000" by simp
    then obtain vl where "reg_vars i tag st1 = Some vl" using m tag by (auto simp: reg_vars_def machine_regs_def)
    then show "is_live v st1 \<longrightarrow> var_loc st1 v \<noteq> []"
      using v live rv [of i] g by (auto simp: reg_live_def is_live_def)
  qed
  moreover have "\<forall>i \<in> set [0..<1000]. i < 1000 \<and> is_allowed i tag st1 = Some False" using al by simp
  ultimately obtain st2 where f: "free_each ?B tag [0..<1000] st1 = Some st2" and r2: "ready H V 0 st2"
    using free_each_ok [OF _ order.refl H tag, where V = V and rs = "[0..<1000]" and st = st1 and k = k] distinct_upt by blast
  obtain st3 where "set_all_denied ?B tag False st2 = Some st3" "ready H V 0 st3"
    using ready_all_denied [OF r2 tag, of "Suc (Suc k)" False] by blast
  then show ?thesis using d f by (simp add: do_free_all_def deny_all_def allow_all_def del: quadr_backend.simps)
qed

subsection \<open>Choosing a register\<close>

lemma spill_refs_ok:
  assumes inv: "alloc_inv st" and B: "\<not> asserts B"
  shows "\<exists>r. spill_refs B q tag vl n st = Some r"
proof (induction vl arbitrary: n)
  case (Cons v vl)
  show ?case
  proof (cases "var_loc_count_tags v tag st = 1")
    case True
    then obtain l ls where l: "var_loc st v = l # ls" by (cases "var_loc st v") (auto simp: var_loc_count_tags_def)
    then have "loc_holds l v st" using inv by (auto simp: alloc_inv_def)
    then obtain k where "ref_num l st = Some k" by (cases "loc_is_const l") (auto simp: ref_num_def loc_holds_iff)
    then show ?thesis using Cons.IH B True l by (auto simp: c_assert_def)
  next
    case False
    then show ?thesis using Cons.IH B False by (auto simp: c_assert_def)
  qed
qed auto

lemma min_spill_ok:
  assumes inv: "alloc_inv st" and B: "\<not> asserts B" and q: "cur_quadr st \<noteq> []"
    and i: "\<forall>i \<in> set is. \<exists>b vl. is_allowed i tag st = Some b \<and> reg_vars i tag st = Some vl \<and> (b \<longrightarrow> vl \<noteq> [])"
  shows "\<exists>r. min_spill B tag is n st = Some r"
  using i
proof (induction "is" arbitrary: n)
  case (Cons i "is")
  obtain b vl where b: "is_allowed i tag st = Some b" "reg_vars i tag st = Some vl" "b \<longrightarrow> vl \<noteq> []" using Cons.prems by auto
  obtain x xs where "cur_quadr st = x # xs" using q by (meson neq_Nil_conv)
  moreover obtain refs nxt where "spill_refs B x tag vl 0 st = Some (refs, nxt)" using spill_refs_ok [OF inv B] by fastforce
  ultimately show ?case using b Cons by simp
qed simp

lemma sum_use_dist_ok:
  assumes "located_in V st" "uses_known V st" "0 \<le> a" "0 \<le> c"
  shows "\<exists>a' c'. sum_use_dist tag vl a c st = Some (a', c') \<and> 0 \<le> a' \<and> 0 \<le> c'"
  using assms(3,4)
proof (induction vl arbitrary: a c)
  case (Cons v vl)
  show ?case
  proof (cases "var_loc_count_tags v tag st = 1")
    case True
    then have "var_loc st v \<noteq> []" by (auto simp: var_loc_count_tags_def)
    then obtain d where "nearest_use_distance v st = Some d" "0 \<le> d" using assms(1,2) by (auto simp: located_in_def uses_known_def)
    then show ?thesis using True Cons.IH [of "a + d" "c + 1"] Cons.prems by simp
  qed (use Cons in simp)
qed simp

lemma best_spill_ok:
  assumes k: "located_in V st" "uses_known V st"
    and "\<forall>i \<in> set is. \<exists>b vl. is_allowed i tag st = Some b \<and> reg_vars i tag st = Some vl \<and> (b \<longrightarrow> vl \<noteq> [])"
    and "b = None \<Longrightarrow> num = -1 \<and> den = 1 \<and> (\<exists>i \<in> set is. is_allowed i tag st = Some True)"
  shows "\<exists>r. best_spill tag is num den b st = Some (Some r)"
  using assms(3,4)
proof (induction "is" arbitrary: num den b)
  case Nil
  then show ?case by (cases b) auto
next
  case (Cons i "is")
  obtain a vl where a: "is_allowed i tag st = Some a" "reg_vars i tag st = Some vl" "a \<longrightarrow> vl \<noteq> []" using Cons.prems by auto
  obtain nud cnt where s: "sum_use_dist tag vl 0 0 st = Some (nud, cnt)" "0 \<le> nud" "0 \<le> cnt"
    using sum_use_dist_ok [OF k, of 0 0 tag vl] by auto
  show ?case
  proof (cases a)
    case False
    then show ?thesis using a Cons.IH [of b num den] Cons.prems by auto
  next
    case True
    have "nud * den > num * cnt" if "b = None" "cnt \<noteq> 0" using that s Cons.prems(2) by auto
    then show ?thesis
      using a True s(1) Cons.IH [of "Some i" nud cnt] Cons.IH [of b num den] Cons.prems by (cases "b = None") auto
  qed
qed

definition can_alloc :: "host_t \<Rightarrow> nat \<Rightarrow> loc_tag_t \<Rightarrow> 'b gencode_st \<Rightarrow> bool" where
  \<comment> \<open>a register is free, or one can be spilled: the assertion gencode.c:2379 fails whenever it is reached\<close>
  "can_alloc H n tag st \<longleftrightarrow>
     find_free_reg n tag st \<noteq> None \<or>
     \<not> h_asserts H \<and> cur_quadr st \<noteq> [] \<and> (\<exists>i < n. is_allowed i tag st = Some True)"

lemma machine_reg:
  assumes "machine_regs st" "i < 1000" "tag = LOC_REG \<or> tag = LOC_FPU_REG"
  shows "\<exists>b vl. is_allowed i tag st = Some b \<and> reg_vars i tag st = Some vl"
  using assms(3) assms(1,2) by (elim disjE) (simp_all add: reg_vars_def is_allowed_def machine_regs_def)

lemma do_bellady_ok:
  assumes r: "ready H V m st" and tag: "tag = LOC_REG \<or> tag = LOC_FPU_REG" and n: "n \<le> 1000" and c: "can_alloc H n tag st"
  shows "\<exists>r. do_bellady_ra (quadr_backend H k) n tag st = Some r"
proof (cases "find_free_reg n tag st")
  case None
  then have h: "\<not> h_asserts H" "cur_quadr st \<noteq> []" "\<exists>i < n. is_allowed i tag st = Some True"
    using c by (auto simp: can_alloc_def)
  have inv: "alloc_inv st" and mr: "machine_regs st" and lu: "located_in V st" "uses_known V st" using r by (simp_all add: ready_def)
  have i: "\<forall>i \<in> set [0..<n]. \<exists>b vl. is_allowed i tag st = Some b \<and> reg_vars i tag st = Some vl \<and> (b \<longrightarrow> vl \<noteq> [])"
  proof
    fix i assume "i \<in> set [0..<n]"
    then have "i < 1000" "\<not> (reg_vars i tag st = Some [] \<and> is_allowed i tag st = Some True)"
      using n None by (auto simp: find_free_reg_def find_None_iff)
    moreover from this obtain b vl where "is_allowed i tag st = Some b" "reg_vars i tag st = Some vl"
      using machine_reg [OF mr] tag by blast
    ultimately show "\<exists>b vl. is_allowed i tag st = Some b \<and> reg_vars i tag st = Some vl \<and> (b \<longrightarrow> vl \<noteq> [])" by auto
  qed
  have al: "\<exists>i \<in> set [0..<n]. is_allowed i tag st = Some True" using h(3) by auto
  have B: "\<not> asserts (quadr_backend H k)" using h(1) by simp
  obtain x where "min_spill (quadr_backend H k) tag [0..<n] 100000 st = Some x" using min_spill_ok [OF inv B h(2) i] by blast
  moreover obtain q where "best_spill tag [0..<n] (-1) 1 None st = Some (Some q)"
    using best_spill_ok [OF lu i, of None "-1" 1] al by blast
  ultimately show ?thesis using None B by (simp add: do_bellady_ra_def c_assert_def)
qed (simp add: do_bellady_ra_def)

lemma bellady_ok:
  assumes r: "ready H V (reg_need tag st) st" and H: "host_short H" and tag: "tag = LOC_REG \<or> tag = LOC_FPU_REG"
    and n: "n \<le> 1000" and c: "can_alloc H n tag st" and live: "reg_live tag st"
  shows "\<exists>r st'. bellady_ra (quadr_backend H (Suc (Suc k))) n tag st = Some (r, st') \<and> ready H V 0 st'"
proof -
  let ?B = "quadr_backend H (Suc (Suc k))"
  obtain q where d: "do_bellady_ra ?B n tag st = Some q" using do_bellady_ok [OF r tag n c] by blast
  have "q < 1000" using do_bellady_ra_allowed(1) [OF d] n by simp
  then obtain vl where vl: "reg_vars q tag st = Some vl" using r tag by (auto simp: ready_def reg_vars_def machine_regs_def)
  have "ready H V (need vl st + 0) st" using ready_less [OF r] reg_need_elem [OF vl] by simp
  moreover have "\<forall>v \<in> set vl. is_live v st \<longrightarrow> var_loc st v \<noteq> []" using live vl by (simp add: reg_live_def)
  ultimately obtain st' where
    "(if tag = LOC_REG then free_reg ?B q st else free_fpu_reg ?B q True st) = Some st'" "ready H V 0 st'"
    using free_any_ok [OF _ order.refl H tag vl, of V k] by blast
  then show ?thesis using d by (simp add: bellady_ra_def del: quadr_backend.simps)
qed

lemma move_to_reg_ok:
  assumes r: "ready H V (reg_need (reg_type v st) st) st" and H: "host_short H"
    and c: "can_alloc H 1000 (reg_type v st) st" and live: "reg_live (reg_type v st) st"
    and v: "is_live v st" "var_loc st v \<noteq> []"
  shows "\<exists>st'. move_to_reg (quadr_backend H (Suc (Suc (Suc k)))) v st = Some st'"
proof -
  let ?B1 = "quadr_backend H (Suc (Suc k))" and ?B = "quadr_backend H (Suc (Suc (Suc k)))" and ?t = "reg_type v st"
  have t: "?t = LOC_REG \<or> ?t = LOC_FPU_REG" by (simp add: reg_type_def)
  have inv: "alloc_inv st" by (rule ready_inv [OF r])
  have np: "find (\<lambda>l. tag_of l = ?t \<and> permanent l) (var_loc st v) = None"
    using inv t by (auto simp: find_None_iff alloc_inv_def)
  obtain q st1 where b: "bellady_ra ?B1 1000 ?t st = Some (q, st1)" and r1: "ready H V 0 st1"
    using bellady_ok [OF r H t order.refl c live, of k] by blast
  note g = quadr.bellady_ra_good(1) [OF b inv t, of "[]" "\<lambda>x. ()"]
  have fr: "frame {} st st1" using g by (simp add: good_def)
  let ?l = "fst (new_loc (reg_u ?t q) st1)" and ?st = "snd (new_loc (reg_u ?t q) st1)"
  have a: "alloc_reg ?B ?t st = Some (?l, ?st)"
  proof -
    have f: "back_alloc_reg ?B = bellady_ra ?B1" "back_alloc_fpu_reg ?B = bellady_ra ?B1" by (simp_all add: next_fields)
    show ?thesis using t b f by (elim disjE) (simp_all add: alloc_reg_def c_assert_def del: quadr_backend.simps)
  qed
  have r2: "ready H V 0 ?st"
    by (rule ready_same [OF r1]) (use r1 in \<open>auto simp: fixed_def ready_def new_loc_def intro: alloc_inv_cong\<close>)
  have "reg_vars q ?t ?st = reg_vars q ?t st1" "is_allowed q ?t ?st = is_allowed q ?t st1"
    by (simp_all add: new_loc_def reg_vars_def is_allowed_def)
  then have e: "reg_vars q ?t ?st = Some []" "is_allowed q ?t ?st = Some True" using g by simp_all
  have v2: "var_loc ?st v \<noteq> []" using frame_live [OF fr v] by (simp add: new_loc_def)
  have "loc_u ?l = reg_u ?t q" "\<not> permanent ?l" by (simp_all add: new_loc_def)
  then obtain st' where s: "save_var_to_loc ?B v ?l ?st = Some st'"
    using save_to_empty_ok [OF r2 order.refl H v2 _ _ t e, of ?l "Suc (Suc k)"] by blast
  show ?thesis
    using np a s v(2) t by (auto simp: move_to_reg_def move_to_loc_def c_assert_def case_prod_unfold simp del: quadr_backend.simps)
qed

subsection \<open>The level\<close>

text \<open>What a backend returns, one of a higher level returns too.\<close>

definition deeper :: "'b backend_t \<Rightarrow> 'b backend_t \<Rightarrow> bool" where
  "deeper B B' \<longleftrightarrow>
     asserts B' = asserts B \<and> reg_num B' = reg_num B \<and> fpu_reg_num B' = fpu_reg_num B \<and> \<not> fpu_stack B \<and> \<not> fpu_stack B' \<and>
     (\<forall>v d st r. again B v d st = Some r \<longrightarrow> again B' v d st = Some r) \<and>
     (\<forall>l v st r. gen_mov B l v st = Some r \<longrightarrow> gen_mov B' l v st = Some r) \<and>
     (\<forall>n tag st r. back_alloc_reg B n tag st = Some r \<longrightarrow> back_alloc_reg B' n tag st = Some r) \<and>
     (\<forall>n tag st r. back_alloc_fpu_reg B n tag st = Some r \<longrightarrow> back_alloc_fpu_reg B' n tag st = Some r) \<and>
     (\<forall>q st r. fpu_reg_free B q st = Some r \<longrightarrow> fpu_reg_free B' q st = Some r)"

lemma deeperD:
  assumes "deeper B B'"
  shows "asserts B' = asserts B" "reg_num B' = reg_num B" "fpu_reg_num B' = fpu_reg_num B" "\<not> fpu_stack B" "\<not> fpu_stack B'"
    "again B v d st = Some rl \<Longrightarrow> again B' v d st = Some rl"
    "gen_mov B l v st = Some st' \<Longrightarrow> gen_mov B' l v st = Some st'"
    "back_alloc_reg B n tag st = Some rs \<Longrightarrow> back_alloc_reg B' n tag st = Some rs"
    "back_alloc_fpu_reg B n tag st = Some rs \<Longrightarrow> back_alloc_fpu_reg B' n tag st = Some rs"
    "fpu_reg_free B q st = Some st' \<Longrightarrow> fpu_reg_free B' q st = Some st'"
  using assms unfolding deeper_def by blast+

lemma assert_deeper: "deeper B B' \<Longrightarrow> c_assert B' = c_assert B"
  by (simp add: c_assert_def fun_eq_iff deeperD(1))

lemma consts_deeper:
  assumes d: "deeper B B'"
  shows "update_var_loc B' = update_var_loc B" "stack_insert_new B' = stack_insert_new B" "sensible B' = sensible B"
    "deny_reg B' = deny_reg B" "allow_reg B' = allow_reg B" "set_all_denied B' = set_all_denied B"
    "do_bellady_ra B' = do_bellady_ra B"
proof -
  note a = assert_deeper [OF d] and c = deeperD(2,3) [OF d]
  have si: "stack_insert B' = stack_insert B" unfolding fun_eq_iff stack_insert_def a by simp
  show "update_var_loc B' = update_var_loc B" unfolding fun_eq_iff update_var_loc_def a si by simp
  have gs: "grow_stack B' = grow_stack B" unfolding fun_eq_iff grow_stack_def a by simp
  show "stack_insert_new B' = stack_insert_new B" unfolding fun_eq_iff stack_insert_new_def a gs by simp
  have av: "available_regs_num B' = available_regs_num B" unfolding fun_eq_iff available_regs_num_def a c by simp
  show "sensible B' = sensible B" unfolding fun_eq_iff sensible_def av by simp
  show "deny_reg B' = deny_reg B" unfolding fun_eq_iff deny_reg_def a by simp
  show "allow_reg B' = allow_reg B" unfolding fun_eq_iff allow_reg_def a by simp
  show "set_all_denied B' = set_all_denied B" unfolding fun_eq_iff set_all_denied_def a c by simp
  have "spill_refs B' q tag vl n st = spill_refs B q tag vl n st" for q tag vl n and st :: "'a gencode_st"
  proof (induction vl arbitrary: n)
    case (Cons v vl)
    show ?case unfolding spill_refs.simps a Cons.IH by simp
  qed simp
  then have s: "spill_refs B' = spill_refs B" unfolding fun_eq_iff by simp
  have "min_spill B' tag is n st = min_spill B tag is n st" for tag "is" n and st :: "'a gencode_st"
  proof (induction "is" arbitrary: n)
    case (Cons i "is")
    show ?case unfolding min_spill.simps s Cons.IH by simp
  qed simp
  then have m: "min_spill B' = min_spill B" unfolding fun_eq_iff by simp
  show "do_bellady_ra B' = do_bellady_ra B" unfolding fun_eq_iff do_bellady_ra_def m a by simp
qed

lemma free_vl_deeper:
  assumes d: "deeper B B'"
  shows "free_vl B x dloc vl st = Some st' \<Longrightarrow> free_vl B' x dloc vl st = Some st'"
proof (induction vl arbitrary: st)
  case (Cons v vl)
  then show ?case using deeperD(6) [OF d, of v dloc st] by (auto split: if_splits simp: bind_eq_Some_conv)
qed simp

lemma free_reg_deeper:
  assumes d: "deeper B B'" and f: "free_reg B r st = Some st'"
  shows "free_reg B' r st = Some st'"
proof -
  obtain vl flag st1 st2 where c: "reg_vars r LOC_REG st = Some vl" "is_allowed r LOC_REG st = Some flag"
    "(if flag then deny_reg B r LOC_REG st else Some st) = Some st1" "free_vl B (L_REG r) None vl st1 = Some st2"
    "(if flag then allow_reg B r LOC_REG (set_reg_vars r LOC_REG [] st2) else Some (set_reg_vars r LOC_REG [] st2)) = Some st'"
    using f by (auto simp: free_reg_def Let_def bind_eq_Some_conv)
  show ?thesis
    using c(1-3,5) free_vl_deeper [OF d c(4)] by (cases flag) (simp_all add: free_reg_def consts_deeper [OF d])
qed

lemma free_fpu_reg_deeper:
  assumes d: "deeper B B'" and f: "free_fpu_reg B r p st = Some st'"
  shows "free_fpu_reg B' r p st = Some st'"
proof -
  obtain vl flag where c: "reg_vars r LOC_FPU_REG st = Some vl" "is_allowed r LOC_FPU_REG st = Some flag"
    using f by (auto simp: free_fpu_reg_def bind_eq_Some_conv)
  show ?thesis
  proof (cases "vl = []")
    case False
    then obtain st1 st2 st3 where e: "(if flag then deny_reg B r LOC_FPU_REG st else Some st) = Some st1"
      "free_vl B (L_FPU_REG r) None vl st1 = Some st2"
      "(if flag then allow_reg B r LOC_FPU_REG (set_reg_vars r LOC_FPU_REG [] st2) else Some (set_reg_vars r LOC_FPU_REG [] st2)) = Some st3"
      "(if p then fpu_reg_free B r st3 else Some st3) = Some st'"
      using f c by (auto simp: free_fpu_reg_def Let_def bind_eq_Some_conv)
    have "(if p then fpu_reg_free B' r st3 else Some st3) = Some st'"
      using e(4) deeperD(10) [OF d] by (auto split: if_splits)
    then show ?thesis
      using c e(1,3) free_vl_deeper [OF d e(2)] False
      by (cases flag; cases p) (simp_all add: free_fpu_reg_def consts_deeper [OF d])
  qed (use f c in \<open>simp add: free_fpu_reg_def\<close>)
qed

lemma save_var_to_loc_deeper:
  assumes d: "deeper B B'" and s: "save_var_to_loc B v l st = Some st'"
  shows "save_var_to_loc B' v l st = Some st'"
proof -
  have fl: "flush_loc B' x s0 = Some s1" if "flush_loc B x s0 = Some s1" for x s0 s1
    using that free_reg_deeper [OF d] free_fpu_reg_deeper [OF d] free_vl_deeper [OF d]
    by (auto simp: flush_loc_def bind_eq_Some_conv split: loc_u.splits)
  have gm: "gen_mov_var B' l v s0 = Some s1" if "gen_mov_var B l v s0 = Some s1" for s0 s1
    using that deeperD(7) [OF d] by (auto simp: gen_mov_var_def split: if_splits)
  obtain found where c: "c_assert B (var_loc st v \<noteq> [] \<or> suppress_mov st) = Some ()"
    "(if loc_is_const l then Some True else map_option (\<lambda>vl. vl_find vl v) (loc_vars (loc_u l) st)) = Some found"
    and f: "(if found then Some st
      else do {
        st \<leftarrow> flush_loc B (loc_u l) st;
        (if find_loc (var_loc st v) (loc_u l) = None then do {
           st \<leftarrow> gen_mov_var B l v st;
           map_option snd (update_var_loc B v l st)
         }
         else Some st)
      }) = Some st'"
    using s unfolding save_var_to_loc_def bind_eq_Some_conv by auto
  show ?thesis
  proof (cases found)
    case True
    then show ?thesis using c f unfolding save_var_to_loc_def assert_deeper [OF d] by simp
  next
    case False
    then obtain st1 where g: "flush_loc B (loc_u l) st = Some st1"
      "(if find_loc (var_loc st1 v) (loc_u l) = None then do {
           st \<leftarrow> gen_mov_var B l v st1;
           map_option snd (update_var_loc B v l st)
         }
         else Some st1) = Some st'"
      using f unfolding bind_eq_Some_conv by auto
    have "(if find_loc (var_loc st1 v) (loc_u l) = None then do {
           st \<leftarrow> gen_mov_var B' l v st1;
           map_option snd (update_var_loc B v l st)
         }
         else Some st1) = Some st'"
      using g(2) gm by (auto simp: bind_eq_Some_conv split: if_splits)
    then show ?thesis
      using c False fl [OF g(1)] unfolding save_var_to_loc_def assert_deeper [OF d] consts_deeper [OF d] by simp
  qed
qed

lemma alloc_reg_deeper:
  assumes d: "deeper B B'" and a: "alloc_reg B tag st = Some r"
  shows "alloc_reg B' tag st = Some r"
  using a deeperD(8,9) [OF d] unfolding alloc_reg_def assert_deeper [OF d] deeperD(2,3) [OF d]
  by (auto simp: bind_eq_Some_conv split: if_splits prod.splits)

lemma new_stack_loc_deeper:
  assumes d: "deeper B B'" and n: "new_stack_loc B v st = Some r"
  shows "new_stack_loc B' v st = Some r"
proof -
  have gm: "gen_mov_var B' l v s0 = Some s1" if "gen_mov_var B l v s0 = Some s1" for l s0 s1
    using that deeperD(7) [OF d] by (auto simp: gen_mov_var_def split: if_splits)
  show ?thesis
    using n gm unfolding new_stack_loc_def consts_deeper [OF d]
    by (auto simp: bind_eq_Some_conv case_prod_unfold Let_def)
qed

lemma save_to_permanent_deeper:
  "deeper B B' \<Longrightarrow> save_to_permanent B v l st = Some r \<Longrightarrow> save_to_permanent B' v l st = Some r"
  using save_var_to_loc_deeper by (fastforce simp: save_to_permanent_def bind_eq_Some_conv split: if_splits)

lemma save_to_mem_deeper:
  assumes d: "deeper B B'" and s: "save_to_mem B v dloc st = Some r"
  shows "save_to_mem B' v dloc st = Some r"
  using s save_to_permanent_deeper [OF d] new_stack_loc_deeper [OF d]
  by (auto simp: save_to_mem_def bind_eq_Some_conv split: option.splits)

lemma save_var_deeper:
  assumes d: "deeper B B'" and s: "save_var_not_to_loc B v dloc st = Some r"
  shows "save_var_not_to_loc B' v dloc st = Some r"
proof -
  let ?t = "reg_type v st"
  let ?f = "find (\<lambda>l. permanent l \<and> tag_of l = ?t \<and> loc_is_allowed (loc_u l) st = Some True \<and> \<not> eq_loc (loc_u l) dloc) (var_loc st v)"
  have c: "c_assert B (var_loc st v \<noteq> [] \<or> suppress_mov st) = Some ()"
    using s by (auto simp: save_var_not_to_loc_def bind_eq_Some_conv)
  show ?thesis
  proof (cases ?f)
    case (Some l)
    then show ?thesis
      using s c save_to_permanent_deeper [OF d] by (simp add: save_var_not_to_loc_def assert_deeper [OF d] Let_def)
  next
    case None
    obtain b where b: "(if ?t \<noteq> LOC_FPU_REG \<or> \<not> fpu_stack B then sensible B v st else Some False) = Some b"
      and e: "(if b then do {
             (l, st) \<leftarrow> alloc_reg B ?t st;
             st \<leftarrow> save_var_to_loc B v l st;
             Some (find_loc (var_loc st v) (loc_u l), st)
           }
           else save_to_mem B v dloc st) = Some r"
      using s c None by (auto simp: save_var_not_to_loc_def Let_def bind_eq_Some_conv simp del: if_split)
    have b': "(if ?t \<noteq> LOC_FPU_REG \<or> \<not> fpu_stack B' then sensible B' v st else Some False) = Some b"
      using b deeperD(4,5) [OF d] by (simp add: consts_deeper [OF d])
    have "(if b then do {
             (l, st) \<leftarrow> alloc_reg B' ?t st;
             st \<leftarrow> save_var_to_loc B' v l st;
             Some (find_loc (var_loc st v) (loc_u l), st)
           }
           else save_to_mem B' v dloc st) = Some r"
      using e alloc_reg_deeper [OF d] save_var_to_loc_deeper [OF d] save_to_mem_deeper [OF d]
      by (cases b) (auto simp: bind_eq_Some_conv case_prod_unfold)
    then show ?thesis
      using c b' None unfolding save_var_not_to_loc_def assert_deeper [OF d] by (simp add: Let_def)
  qed
qed

lemma bellady_deeper:
  assumes d: "deeper B B'" and b: "bellady_ra B n tag st = Some r"
  shows "bellady_ra B' n tag st = Some r"
  using b free_reg_deeper [OF d] free_fpu_reg_deeper [OF d] unfolding bellady_ra_def consts_deeper [OF d]
  by (auto simp: bind_eq_Some_conv split: if_splits)

lemma move_to_reg_deeper:
  assumes d: "deeper B B'" and m: "move_to_reg B v st = Some st'"
  shows "move_to_reg B' v st = Some st'"
proof -
  let ?t = "reg_type v st"
  have t: "?t = LOC_REG \<or> ?t = LOC_FPU_REG" by (simp add: reg_type_def)
  have c: "c_assert B (var_loc st v \<noteq> [] \<or> suppress_mov st) = Some ()"
    using m by (auto simp: move_to_reg_def move_to_loc_def bind_eq_Some_conv)
  show ?thesis
  proof (cases "\<exists>l \<in> set (var_loc st v). tag_of l = ?t \<and> \<not> dirty l")
    case True
    then show ?thesis using m c by (simp add: move_to_reg_def move_to_loc_def assert_deeper [OF d])
  next
    case False
    show ?thesis
    proof (cases "find (\<lambda>l. tag_of l = ?t \<and> permanent l) (var_loc st v)")
      case (Some l)
      then show ?thesis
        using m c False save_var_to_loc_deeper [OF d] by (auto simp: move_to_reg_def move_to_loc_def assert_deeper [OF d])
    next
      case None
      obtain l st1 where a: "alloc_reg B ?t st = Some (l, st1)" "save_var_to_loc B v l st1 = Some st'"
        using m c False None t deeperD(4) [OF d]
        by (auto simp: move_to_reg_def move_to_loc_def bind_eq_Some_conv split: if_splits)
      then show ?thesis
        using c False None t deeperD(5) [OF d] alloc_reg_deeper [OF d a(1)] save_var_to_loc_deeper [OF d a(2)]
        by (auto simp: move_to_reg_def move_to_loc_def assert_deeper [OF d])
    qed
  qed
qed

lemma gen_mov_deeper:
  assumes d: "deeper B B'" and g: "q_gen_mov B H l v st = Some st'"
  shows "q_gen_mov B' H l v st = Some st'"
  using g move_to_reg_deeper [OF d]
  by (auto simp: q_gen_mov_def bind_eq_Some_conv split: if_splits)

lemma free_each_deeper:
  assumes d: "deeper B B'"
  shows "free_each B tag rs st = Some st' \<Longrightarrow> free_each B' tag rs st = Some st'"
proof (induction rs arbitrary: st)
  case (Cons i rs)
  then show ?case
    using free_reg_deeper [OF d, of i st] free_fpu_reg_deeper [OF d, of i True st]
    by (cases "tag = LOC_REG") (auto simp: bind_eq_Some_conv)
qed simp

lemma free_all_deeper:
  assumes d: "deeper B B'" and f: "free_all B tag st = Some st'"
  shows "free_all B' tag st = Some st'"
proof -
  have df: "do_free_all B n tag s0 = Some s1 \<Longrightarrow> do_free_all B' n tag s0 = Some s1" for n s0 s1
    using free_each_deeper [OF d]
    by (auto simp: do_free_all_def deny_all_def allow_all_def consts_deeper [OF d] bind_eq_Some_conv)
  show ?thesis
    using f df deeperD(2-5) [OF d]
    by (cases "tag = LOC_REG") (auto simp: free_all_def assert_deeper [OF d] bind_eq_Some_conv)
qed

lemma next_deeper:
  assumes d: "deeper B B'"
  shows "deeper (next_quadr_backend H B) (next_quadr_backend H B')"
proof -
  have n: "asserts (next_quadr_backend H C) = asserts C" "reg_num (next_quadr_backend H C) = reg_num C"
    "fpu_reg_num (next_quadr_backend H C) = fpu_reg_num C" for C
    by (simp_all add: next_quadr_backend_def)
  show ?thesis
    unfolding deeper_def n next_fields
    using deeperD(1-5) [OF d] save_var_deeper [OF d] gen_mov_deeper [OF d] bellady_deeper [OF d] by blast
qed

lemma level_deeper: "deeper (quadr_backend H k) (quadr_backend H (Suc k))"
proof (induction k)
  case 0
  show ?case by (simp add: deeper_def no_quadr_backend_def next_quadr_backend_def)
next
  case (Suc k)
  then show ?case by (simp add: next_deeper)
qed

lemma deeper_trans: "deeper A B \<Longrightarrow> deeper B C \<Longrightarrow> deeper A C"
  unfolding deeper_def by (elim conjE, intro conjI) (simp_all | blast)+

lemma deeper_refl: "\<not> fpu_stack B \<Longrightarrow> deeper B B"
  by (simp add: deeper_def)

lemma levels_deeper:
  assumes "j \<le> k"
  shows "deeper (quadr_backend H j) (quadr_backend H k)"
  using assms by (induction k rule: dec_induct) (auto intro: deeper_refl deeper_trans level_deeper simp del: quadr_backend.simps)

end
