(* ===== verification/Alloc_Props.thy ===== *)
theory Alloc_Props
  imports Alloc_Total
begin

text \<open>
  What the register allocation of \<open>gencode.c\<close> promises with the quadruple backend, at every level.

  \<open>mem_holds H m val st\<close>: in the memory \<open>m\<close> every location of every variable \<open>v\<close> holds \<open>val v\<close>.
\<close>

definition mem_holds :: "host_t \<Rightarrow> (string \<Rightarrow> 'v) \<Rightarrow> (var_id \<Rightarrow> 'v) \<Rightarrow> text_back gencode_st \<Rightarrow> bool" where
  "mem_holds H m val st \<longleftrightarrow> (\<forall>v. \<forall>l \<in> set (var_loc st v). m (q_text H st (loc_u l)) = val v)"

definition out_lines :: "text_back gencode_st \<Rightarrow> string list" where
  "out_lines st = texts (outbuf (back_st st))"

lemma tracks_start:
  assumes "host_ok H" "tmpbuf (outbuf (back_st st)) = []" "mem_holds H m val st"
  shows "tracks (q_mem H (out_lines st) m) val st"
  using assms by (simp add: tracks_def q_mem_def mem_holds_def out_lines_def code_after_def)

lemma tracks_end:
  assumes "tracks (q_mem H pre m) val st"
  shows "\<exists>new m'. out_lines st = pre @ new \<and> exec_moves new m = Some m' \<and> mem_holds H m' val st"
proof -
  obtain m' where m': "take (length pre) (out_lines st) = pre" "exec_moves (code_after pre st) m = Some m'"
    "\<And>v l. l \<in> set (var_loc st v) \<Longrightarrow> m' (q_text H st (loc_u l)) = val v"
    using assms by (auto simp: tracks_def q_mem_Some out_lines_def)
  then have "out_lines st = pre @ code_after pre st"
    by (metis append_take_drop_id code_after_def out_lines_def)
  then show ?thesis using m' unfolding mem_holds_def by blast
qed

lemma good_runs:
  assumes g: "\<And>m :: string \<Rightarrow> 'v. good (q_mem H (out_lines st) m) X st st'"
    and s: "host_ok H" "tmpbuf (outbuf (back_st st)) = []" "mem_holds H (m :: string \<Rightarrow> 'v) val st"
  shows "\<exists>new m'. out_lines st' = out_lines st @ new \<and> exec_moves new m = Some m' \<and> mem_holds H m' val st'"
    and "alloc_inv st'" "is_live v st \<Longrightarrow> var_loc st v \<noteq> [] \<Longrightarrow> var_loc st' v \<noteq> []"
proof -
  have "tracks (q_mem H (out_lines st) m) val st'" using g [of m] tracks_start [OF s] unfolding good_def by blast
  then show "\<exists>new m'. out_lines st' = out_lines st @ new \<and> exec_moves new m = Some m' \<and> mem_holds H m' val st'"
    by (rule tracks_end)
  show "alloc_inv st'" "is_live v st \<Longrightarrow> var_loc st v \<noteq> [] \<Longrightarrow> var_loc st' v \<noteq> []"
    using g [of m] frame_live unfolding good_def by blast+
qed

subsection \<open>A state with one variable\<close>

text \<open>
  \<open>ex_st x b vl vl'\<close>: the variable 0 is at \<open>x\<close>; register 0 holds \<open>vl\<close> and is denied if \<open>b\<close>, all other registers
  are empty and denied; the first element of the frame holds \<open>vl'\<close>.
\<close>

definition ex_host :: host_t where
  "ex_host = \<lparr>h_asserts = False, h_int_cast = id, h_double_text = (\<lambda>d. ''0'')\<rparr>"
definition ex_quadrs :: quadr_st where
  "ex_quadrs = quadr_init
     \<lparr>quadr_func := [\<lparr>qf_type = func_type 0 type_void 0 [], qf_blocks = Some 0,
        vars_lst = [\<lparr>node_vars = [0], vars_size = 512\<rparr>], qf_name = ''main'', qf_tag = QF_USER_DEFINED\<rparr>],
      blocks := Map.empty(0 \<mapsto> empty_block),
      vars := [\<lparr>v_type = type_int, v_loc = None, v_size = 1, v_live = True, v_qtype = VT_INT\<rparr>]\<rparr>"

definition ex_st :: "loc_u \<Rightarrow> bool \<Rightarrow> var_id list \<Rightarrow> var_id list \<Rightarrow> text_back gencode_st" where
  "ex_st x b vl vl' = (gencode_init (quadr_backend ex_host 0) ex_quadrs init_text_back)
     \<lparr>var_loc := (\<lambda>v. [])(0 := [\<lparr>loc_id = 0, loc_u = x, permanent = False, dirty = False\<rparr>]),
      stack := [\<lparr>se_id = 0, se_vars = vl', se_size = 1, se_offset = 0\<rparr>, \<lparr>se_id = 1, se_vars = [], se_size = -1, se_offset = 1\<rparr>],
      next_se := 2, stack_size := 1, max_stack_size := 1,
      first_stack_free := Some (if vl' = [] then 0 else 1),
      regs := (replicate 1000 [])[0 := vl], blacklist_reg := (replicate 1000 True)[0 := b]\<rparr>"

lemma ex_host_ok: "host_ok ex_host"
  by (simp add: host_ok_def ex_host_def)

lemma ex_holds: "mem_holds ex_host (\<lambda>s. 7::int) (\<lambda>v. 7) (ex_st x b vl vl')"
  by (simp add: mem_holds_def)
lemma ex_tmp: "tmpbuf (outbuf (back_st (ex_st x b vl vl'))) = []"
  by (simp add: ex_st_def init_text_back_def new_outbuf_def gencode_init_def)

lemma ex_near: "nearest_use_distance_from_quadr 0 [] 0 ex_quadrs = Some 0x1FFFFFF"
  by code_simp


lemma ex_cur [simp]: "(ex_st x b vl vl')\<lparr>cur_quadr := []\<rparr> = ex_st x b vl vl'"
  by (simp add: ex_st_def gencode_init_def)

lemma ex_fields [simp]:
  "blacklist_reg (ex_st x b vl vl') = (replicate 1000 True)[0 := b]" "regs (ex_st x b vl vl') = (replicate 1000 [])[0 := vl]"
  "quadrs (ex_st x b vl vl') = ex_quadrs" "cur_quadr (ex_st x b vl vl') = []" "gencode_cur_block (ex_st x b vl vl') = 0"
  "var_loc (ex_st x b vl vl') = (\<lambda>v. [])(0 := [\<lparr>loc_id = 0, loc_u = x, permanent = False, dirty = False\<rparr>])"
  by (simp_all add: ex_st_def gencode_init_def)

lemma ex_alloc_inv:
  "alloc_inv ((ex_st (L_REG 0) b [0] [])\<lparr>cur_quadr := qs\<rparr>)" "alloc_inv (ex_st (L_STACK 0) b [] [0])"
  by (simp_all add: alloc_inv_def ex_st_def gencode_init_def stack_ok_def loc_holds_def loc_is_const_def loc_vars_def
      reg_vars_def se_find_def size_of_def ex_quadrs_def vl_find_set)

lemma same_list_update [simp]: "(replicate n x)[i := x] = replicate n x"
  by (metis list_update_id list_update_same_conv nth_replicate length_replicate list_update_beyond not_le)

lemma ex_host_short: "host_short ex_host"
  by (simp add: host_short_def host_ok_def ex_host_def)

lemma ex_uses:
  assumes "quadrs st = ex_quadrs" "gencode_cur_block st = 0" "tl (cur_quadr st) = []"
  shows "uses_known {0} st"
  using assms by (cases "cur_quadr st") (simp_all add: uses_known_def nearest_use_distance_def ex_near)

lemma ex_ready_reg:
  assumes "tl qs = []" "n < 1000000"
  shows "ready ex_host {0} n ((ex_st (L_REG 0) b [0] [])\<lparr>cur_quadr := qs\<rparr>)"
proof -
  let ?st = "(ex_st (L_REG 0) b [0] [])\<lparr>cur_quadr := qs\<rparr>"
  have "machine_regs ?st" "free_elem ?st" "fits n ?st" "located_in {0} ?st" "\<not> h_asserts ex_host"
    using assms(2)
    by (simp_all add: machine_regs_def free_elem_def fits_def located_in_def loc_vars_stack se_find_def ex_st_def
        gencode_init_def ex_host_def no_quadr_backend_def)
  moreover have "uses_known {0} ?st" by (rule ex_uses) (simp_all add: assms(1))
  moreover have "tmpbuf (outbuf (back_st ?st)) = []" using ex_tmp by simp
  ultimately show ?thesis using ex_alloc_inv(1) by (simp add: ready_def)
qed


lemma ex_reg_need: "reg_need LOC_REG ((ex_st (L_REG 0) b [0] [])\<lparr>cur_quadr := qs\<rparr>) = 1"
  by (simp add: reg_need_def need_def size_of_def ex_quadrs_def concat_replicate_trivial eval_nat_numeral)

lemma ex_reg_live: "reg_live LOC_REG ((ex_st (L_REG 0) b [0] [])\<lparr>cur_quadr := qs\<rparr>)"
  by (auto simp: reg_live_def reg_vars_def nth_list_update split: if_splits)

subsection \<open>The properties\<close>

text \<open>
  C6: \<open>save_var\<close> on a variable with a location returns, with the same result at every level from 1 on, in
  a \<open>ready\<close> state in which the frame can take one more variable: the variable has then a location that is
  not denied; the lines that have been written are moves that leave the value of every variable in all its
  locations, the invariant that the code asserts holds, and no other live variable has lost its last location.
\<close>

theorem save_var_correct:
  assumes "ready H V (size_of v st) st" "host_short H" "var_loc st v \<noteq> []" "mem_holds H m val st"
  shows "\<exists>st'. (\<forall>k \<ge> 1. save_var (quadr_backend H k) v st = Some st') \<and>
    (\<exists>l \<in> set (var_loc st' v). loc_is_allowed (loc_u l) st' = Some True) \<and>
    alloc_inv st' \<and> gencode_invariant st' \<and>
    (\<exists>new m'. out_lines st' = out_lines st @ new \<and> exec_moves new m = Some m' \<and> mem_holds H m' val st') \<and>
    (\<forall>w. is_live w st \<and> var_loc st w \<noteq> [] \<longrightarrow> var_loc st' w \<noteq> [])"
proof -
  have inv: "alloc_inv st" and t: "tmpbuf (outbuf (back_st st)) = []" using assms(1) by (simp_all add: ready_def)
  then have "0 < size_of v st" using assms(3) by (simp add: alloc_inv_def)
  then have "ready H V (\<bar>size_of v st\<bar> + 0) st" using assms(1) by simp
  then obtain rl st' where s: "save_var_not_to_loc (quadr_backend H 1) v None st = Some (rl, st')"
    using save_var_ok [OF _ order.refl assms(2,3), of V 0] by auto
  have lv: "save_var (quadr_backend H k) v st = Some st'" if "k \<ge> 1" for k
    using save_var_deeper [OF levels_deeper [OF that] s] by (simp add: save_var_def)
  have H: "host_ok H" using assms(2) by (simp add: host_short_def)
  note g = quadr.save_var_good [OF s inv]
  note r = good_runs [OF conjunct1 [OF g] H t assms(4)]
  show ?thesis
    by (intro exI [of _ st'] conjI conjunct2 [OF g] r(1,2) alloc_inv_gencode [OF r(2)] allI impI lv) (assumption | elim conjE, rule r(3))+
qed

theorem save_var_correct_witness:
  "\<exists>st'. (\<forall>k \<ge> 1. save_var (quadr_backend ex_host k) 0 (ex_st (L_REG 0) True [0] []) = Some st') \<and>
    (\<exists>l \<in> set (var_loc st' 0). loc_is_allowed (loc_u l) st' = Some True)"
proof -
  let ?st = "ex_st (L_REG 0) True [0] []"
  have "ready ex_host {0} (size_of 0 ?st) ?st" "var_loc ?st 0 \<noteq> []"
    using ex_ready_reg [of "[]" 1 True] by (simp_all add: size_of_def ex_quadrs_def)
  from save_var_correct [OF this(1) ex_host_short this(2) ex_holds] show ?thesis by blast
qed

text \<open>
  C8: \<open>free_all\<close> returns, with the same result at every level from 2 on, in a \<open>ready\<close> state in which the
  frame can take the variables of all registers and every live variable of a register has a location: no
  general-purpose register holds a variable then, and all of them are allowed; every live variable that
  had a location still has one, in memory or as a constant or in a floating point register; the lines that
  have been written are moves that leave every value where it is.
\<close>

theorem free_all_correct:
  assumes "ready H V (reg_need LOC_REG st) st" "host_short H" "reg_live LOC_REG st" "mem_holds H m val st"
  shows "\<exists>st'. (\<forall>k \<ge> 2. free_all (quadr_backend H k) LOC_REG st = Some st') \<and>
    (\<forall>r < 1000. reg_vars r LOC_REG st' = Some [] \<and> (\<forall>v. \<not> has_loc st' v (L_REG r)) \<and> is_allowed r LOC_REG st' = Some True) \<and>
    alloc_inv st' \<and> gencode_invariant st' \<and>
    (\<exists>new m'. out_lines st' = out_lines st @ new \<and> exec_moves new m = Some m' \<and> mem_holds H m' val st') \<and>
    (\<forall>w. is_live w st \<and> var_loc st w \<noteq> [] \<longrightarrow> var_loc st' w \<noteq> [])"
proof -
  let ?B = "quadr_backend H 2"
  have inv: "alloc_inv st" and t: "tmpbuf (outbuf (back_st st)) = []" using assms(1) by (simp_all add: ready_def)
  have H: "host_ok H" using assms(2) by (simp add: host_short_def)
  obtain st' where f: "do_free_all ?B 1000 LOC_REG st = Some st'"
    using do_free_all_ok [OF assms(1,2) disjI1 [OF refl] assms(3), of 0] by (auto simp: eval_nat_numeral simp del: quadr_backend.simps)
  then have "free_all ?B LOC_REG st = Some st'" by (simp add: free_all_def)
  then have lv: "free_all (quadr_backend H k) LOC_REG st = Some st'" if "k \<ge> 2" for k
    using free_all_deeper [OF levels_deeper [OF that]] by blast
  have n: "1000 = (if LOC_REG = LOC_REG then reg_num ?B else fpu_reg_num ?B)" by simp
  note g = quadr.do_free_all_good [OF f inv _ n]
  have "tracks (q_mem H (out_lines st) m) val st'" using g(2) tracks_start [OF H t assms(4)] by blast
  then have "\<exists>new m'. out_lines st' = out_lines st @ new \<and> exec_moves new m = Some m' \<and> mem_holds H m' val st'"
    by (rule tracks_end)
  moreover have "\<forall>r < 1000. reg_vars r LOC_REG st' = Some [] \<and> (\<forall>v. \<not> has_loc st' v (L_REG r)) \<and> is_allowed r LOC_REG st' = Some True"
    using g(3) by simp
  moreover have "alloc_inv st'" using g(1) by simp
  moreover have "\<forall>w. is_live w st \<and> var_loc st w \<noteq> [] \<longrightarrow> var_loc st' w \<noteq> []" using g(4) by simp
  ultimately show ?thesis using lv alloc_inv_gencode by blast
qed

theorem free_all_correct_witness:
  "\<exists>st'. (\<forall>k \<ge> 2. free_all (quadr_backend ex_host k) LOC_REG (ex_st (L_REG 0) False [0] []) = Some st') \<and>
    is_allowed 0 LOC_REG st' = Some True \<and> reg_vars 0 LOC_REG st' = Some []"
proof -
  let ?st = "ex_st (L_REG 0) False [0] []"
  have "ready ex_host {0} (reg_need LOC_REG ?st) ?st" "reg_live LOC_REG ?st"
    using ex_ready_reg [of "[]" 1 False] ex_reg_need [where b = False and qs = "[]"] ex_reg_live [where b = False and qs = "[]"] by simp_all
  from free_all_correct [OF this(1) ex_host_short this(2) ex_holds] show ?thesis by auto
qed





end
