(* ===== verification/I386_Backend.thy ===== *)
theory I386_Backend
  imports Backend
begin

text \<open>
  \<open>src/src/i386_backend.c\<close>: the backend that writes assembly for NASM.

  Its static variables are the record \<open>i386_back\<close>: the constants of the function (\<open>dc_num + 1\<close> is
  their number), and the variables \<open>var0\<close> to \<open>var2\<close>, locations \<open>loc0\<close> to \<open>loc2\<close> and liveness that the
  functions of \<open>gen_code\<close> share.  The flags of the command line and the text of the runtime file are
  the record \<open>flags_t\<close>.  The flags \<open>should_free_loc0\<close> to \<open>should_free_loc2\<close> only say which locations
  are returned to their pool at the end.
\<close>

abbreviation REG_EAX :: nat where "REG_EAX \<equiv> 0"
abbreviation REG_EDX :: nat where "REG_EDX \<equiv> 3"
abbreviation REG_EBP :: nat where "REG_EBP \<equiv> 6"

definition MAX_DOUBLE_CONSTS :: nat where "MAX_DOUBLE_CONSTS = 256"

record flags_t =
  f_args_in_reg_num :: nat
  f_pentium_pro :: bool
  runtime_text :: string

record i386_back = text_back +
  double_consts :: "double list"
  cur_func_args_size :: int
  cur_func_name :: string
  stack_adjustment_off :: int
  fpu_initialised :: bool
  str_const_num :: nat
  disallowed_fpu_reg :: "nat option"
  i_var0 :: "var_id option"
  i_var1 :: "var_id option"
  i_var2 :: "var_id option"
  i_loc0 :: "loc_ptr option"
  i_loc1 :: "loc_ptr option"
  i_loc2 :: "loc_ptr option"
  i_live1 :: bool
  i_live2 :: bool

type_synonym i_op = "i386_back gencode_op"
type_synonym i_st = "i386_back gencode_st"

definition upd_back :: "(i386_back \<Rightarrow> i386_back) \<Rightarrow> i_st \<Rightarrow> i_st" where
  "upd_back f st = st\<lparr>back_st := f (back_st st)\<rparr>"

abbreviation set_loc0 :: "loc_ptr option \<Rightarrow> i_st \<Rightarrow> i_st" where
  "set_loc0 p \<equiv> upd_back (\<lambda>b. b\<lparr>i_loc0 := p\<rparr>)"
abbreviation set_loc1 :: "loc_ptr option \<Rightarrow> i_st \<Rightarrow> i_st" where
  "set_loc1 p \<equiv> upd_back (\<lambda>b. b\<lparr>i_loc1 := p\<rparr>)"
abbreviation set_loc2 :: "loc_ptr option \<Rightarrow> i_st \<Rightarrow> i_st" where
  "set_loc2 p \<equiv> upd_back (\<lambda>b. b\<lparr>i_loc2 := p\<rparr>)"

subsection \<open>Strings\<close>

definition size_str :: "int \<Rightarrow> string option" where
  "size_str n =
     (if n = 1 then Some ''byte'' else if n = 2 then Some ''word''
      else if n = 4 then Some ''dword'' else if n = 8 then Some ''qword'' else None)"

fun jmp_str :: "quadr_op_t \<Rightarrow> string option" where
  "jmp_str Q_IF_EQ = Some ''je''"
| "jmp_str Q_IF_NE = Some ''jne''"
| "jmp_str Q_IF_LT = Some ''jl''"
| "jmp_str Q_IF_GT = Some ''jg''"
| "jmp_str Q_IF_LE = Some ''jle''"
| "jmp_str Q_IF_GE = Some ''jge''"
| "jmp_str _ = None"

definition reg32_str :: "nat \<Rightarrow> string option" where
  "reg32_str r =
     (if r < 7 then Some ([''eax'', ''ebx'', ''ecx'', ''edx'', ''edi'', ''esi'', ''ebp''] ! r) else None)"

definition double_const :: "double \<Rightarrow> i_st \<Rightarrow> (nat \<times> i_st) option" where
  \<comment> \<open>the index of a constant, which is added when it is new\<close>
  "double_const d st =
     (let ds = double_consts (back_st st) in
      case find (\<lambda>i. dbl_eq (ds ! i) d) [0..<length ds] of
        Some i \<Rightarrow> Some (i, st)
      | None \<Rightarrow> do {
          check (length ds < MAX_DOUBLE_CONSTS);
          Some (length ds, upd_back (\<lambda>b. b\<lparr>double_consts := ds @ [d]\<rparr>) st)
        })"

definition frame_text :: "stack_elem_t \<Rightarrow> i_st \<Rightarrow> string" where
  "frame_text e st = ''[@FP@'' @ show_int (se_offset e + se_size e - stack_adjustment_off (back_st st)) @ ''@]''"

definition i_loc_str :: "loc_t \<Rightarrow> i_st \<Rightarrow> (string \<times> i_st) option" where
  "i_loc_str l st =
     (case loc_u l of
        L_INT i \<Rightarrow> Some (show_int (sint i), st)
      | L_DOUBLE d \<Rightarrow> do {
          (i, st) \<leftarrow> double_const d st;
          Some (''qword [__dconst_'' @ cur_func_name (back_st st) @ ''_'' @ show_nat i @ '']'', st)
        }
      | L_REG r \<Rightarrow> do { s \<leftarrow> reg32_str r; Some (s, st) }
      | L_FPU_REG r \<Rightarrow> Some (''st'' @ show_nat r, st)
      | L_STACK s \<Rightarrow> do {
          e \<leftarrow> se_find s st;
          sz \<leftarrow> size_str (se_size e);
          Some (sz @ '' '' @ frame_text e st, st)
        })"

definition array_loc_str :: "loc_t \<Rightarrow> i_st \<Rightarrow> string option" where
  "array_loc_str l st =
     (case loc_u l of L_STACK s \<Rightarrow> map_option (\<lambda>e. frame_text e st) (se_find s st) | _ \<Rightarrow> None)"

fun loc_strs :: "loc_ptr option list \<Rightarrow> i_st \<Rightarrow> (string list \<times> i_st) option" where
  \<comment> \<open>the arguments of a call, in their order, which C leaves open\<close>
  "loc_strs [] st = Some ([], st)"
| "loc_strs (p # ps) st = do {
     p \<leftarrow> p;
     l \<leftarrow> deref p st;
     (s, st) \<leftarrow> i_loc_str l st;
     (ss, st) \<leftarrow> loc_strs ps st;
     Some (s # ss, st)
   }"

fun interleave :: "string list \<Rightarrow> string list \<Rightarrow> string list" where
  "interleave (p # ps) (s # ss) = p # s # interleave ps ss"
| "interleave ps [] = ps"
| "interleave [] ss = ss"

definition ins :: "string list \<Rightarrow> loc_ptr option list \<Rightarrow> i_op" where
  \<comment> \<open>\<open>writeln\<close> of a format with \<open>loc_str\<close> of locations for its conversions\<close>
  "ins fmt ps st = do {
     (ss, st) \<leftarrow> loc_strs ps st;
     putln (interleave fmt ss) st
   }"

abbreviation loc0 :: "i_st \<Rightarrow> loc_ptr option" where "loc0 st \<equiv> i_loc0 (back_st st)"
abbreviation loc1 :: "i_st \<Rightarrow> loc_ptr option" where "loc1 st \<equiv> i_loc1 (back_st st)"
abbreviation loc2 :: "i_st \<Rightarrow> loc_ptr option" where "loc2 st \<equiv> i_loc2 (back_st st)"
abbreviation var0 :: "i_st \<Rightarrow> var_id option" where "var0 st \<equiv> i_var0 (back_st st)"
abbreviation var1 :: "i_st \<Rightarrow> var_id option" where "var1 st \<equiv> i_var1 (back_st st)"
abbreviation var2 :: "i_st \<Rightarrow> var_id option" where "var2 st \<equiv> i_var2 (back_st st)"
abbreviation live1 :: "i_st \<Rightarrow> bool" where "live1 st \<equiv> i_live1 (back_st st)"
abbreviation live2 :: "i_st \<Rightarrow> bool" where "live2 st \<equiv> i_live2 (back_st st)"

definition the_loc :: "loc_ptr option \<Rightarrow> i_st \<Rightarrow> loc_t option" where
  "the_loc p st = Option.bind p (\<lambda>p. deref p st)"

definition src_ptr :: "var_id option \<Rightarrow> i_st \<Rightarrow> loc_ptr option option" where
  \<comment> \<open>\<open>std_find_best_src_loc\<close>; \<open>Some None\<close> is the null pointer\<close>
  "src_ptr v st = map_option (\<lambda>v. map_option (\<lambda>l. In_list v (loc_id l)) (std_find_best_src_loc v st)) v"

definition dest_ptr :: "var_id option \<Rightarrow> i_st \<Rightarrow> loc_ptr option option" where
  "dest_ptr v st = map_option (\<lambda>v. map_option (\<lambda>l. In_list v (loc_id l)) (std_find_best_dest_loc v st)) v"

definition find_loc1 :: i_op where
  \<comment> \<open>\<open>loc1 = std_find_best_src_loc(var1)\<close>\<close>
  "find_loc1 st = do { p \<leftarrow> src_ptr (var1 st) st; Some (set_loc1 p st) }"

definition find_loc2 :: i_op where
  "find_loc2 st = do { p \<leftarrow> src_ptr (var2 st) st; Some (set_loc2 p st) }"

definition new_loc0 :: "loc_tag_t \<Rightarrow> i386_back backend_t \<Rightarrow> i_op" where
  \<comment> \<open>\<open>loc0 = alloc_reg(tag)\<close>\<close>
  "new_loc0 tag B st = do { (p, st) \<leftarrow> own_reg B tag st; Some (set_loc0 (Some p) st) }"

definition fix_loc0 :: "loc_u \<Rightarrow> i_st \<Rightarrow> i_st" where
  \<comment> \<open>\<open>loc0 = new_loc(tag, r)\<close>\<close>
  "fix_loc0 x st = (let (l, st) = new_loc x st in set_loc0 (Some (Own l)) st)"

definition i_gen_return :: "int \<Rightarrow> i_op" where
  "i_gen_return args_size st = do {
     st \<leftarrow> putln [''@E@''] st;
     putln [''ret '', show_int args_size] st
   }"

subsection \<open>Functions\<close>

fun i_params :: "i386_back backend_t \<Rightarrow> flags_t \<Rightarrow> var_id list \<Rightarrow> nat \<Rightarrow> int \<Rightarrow> i_st \<Rightarrow> (int \<times> i_st) option" where
  \<comment> \<open>the loop over the parameters: \<open>reg32_num\<close> and \<open>stack_off\<close>\<close>
  "i_params B F [] reg32_num stack_off st = Some (stack_off, st)"
| "i_params B F (v # vl) reg32_num stack_off st =
     (if reg32_num < f_args_in_reg_num F \<and> qtype_of v st = VT_INT then do {
        (b, st) \<leftarrow> update_var_loc B v (init_loc (L_REG reg32_num)) st;
        i_params B F vl (reg32_num + 1) stack_off st
      }
      else do {
        c_assert B (qtype_of v st = VT_DOUBLE \<or> reg32_num \<ge> f_args_in_reg_num F);
        let stack_off = stack_off + size_of v st in do {
          st \<leftarrow> stack_param B v (- stack_off) st;
          i_params B F vl reg32_num stack_off st
        }
      })"

definition i_start_func :: "i386_back backend_t \<Rightarrow> flags_t \<Rightarrow> func_id \<Rightarrow> i_op" where
  "i_start_func B F f st =
     (let func = quadr_func (quadrs st) ! f in
      case qf_type func of
        func_type p ret n as \<Rightarrow> do {
          st \<leftarrow> on_outbuf (\<lambda>buf. Some (clearbuf buf)) st;
          st \<leftarrow> putln [''section .text''] st;
          st \<leftarrow> putln [qf_name func, '':''] st;
          st \<leftarrow> putln [''@P@''] st;
          check (vars_lst func \<noteq> []);
          c_assert B (n \<le> vars_size (hd (vars_lst func)));
          check (n \<le> length (node_vars (hd (vars_lst func))));
          (stack_off, st) \<leftarrow> i_params B F (take n (node_vars (hd (vars_lst func)))) 0 4 st;
          Some (upd_back (\<lambda>b. b\<lparr>cur_func_args_size := stack_off - 4, cur_func_name := qf_name func,
            stack_adjustment_off := 0, fpu_initialised := False, double_consts := []\<rparr>) st)
        }
      | _ \<Rightarrow> None)"

fun last_two :: "nat \<Rightarrow> (block_id \<rightharpoonup> basic_block_t) \<Rightarrow> basic_block_t option \<Rightarrow> block_id \<Rightarrow> (basic_block_t option \<times> basic_block_t) option" where
  \<comment> \<open>the last block and the one before it\<close>
  "last_two 0 bs prev b = None"
| "last_two (Suc n) bs prev b = do {
     B \<leftarrow> bs b;
     (case nxt B of None \<Rightarrow> Some (prev, B) | Some b' \<Rightarrow> last_two n bs (Some B) b')
   }"

definition ends_with_return :: "block_id option \<Rightarrow> quadr_st \<Rightarrow> bool option" where
  "ends_with_return b q =
     (case b of
        None \<Rightarrow> Some False
      | Some b \<Rightarrow> do {
          (prev, B) \<leftarrow> last_two (next_block_id q) (blocks q) None b;
          Some (block_tail_op B = Some Q_RETURN \<or>
                (block_tail_op B = None \<and>
                 (case prev of None \<Rightarrow> False | Some P \<Rightarrow> block_tail_op P = Some Q_RETURN)))
        })"

fun write_consts :: "host_t \<Rightarrow> string \<Rightarrow> nat \<Rightarrow> double list \<Rightarrow> i_op" where
  "write_consts H name i [] st = Some st"
| "write_consts H name i (d # ds) st = do {
     st \<leftarrow> putln [''__dconst_'', name, ''_'', show_nat i, '' dq '', h_double_text H d] st;
     write_consts H name (i + 1) ds st
   }"

definition i_end_func :: "host_t \<Rightarrow> func_id \<Rightarrow> int \<Rightarrow> i_op" where
  "i_end_func H f n st = do {
     ret \<leftarrow> ends_with_return (qf_blocks (quadr_func (quadrs st) ! f)) (quadrs st);
     st \<leftarrow> (if \<not> ret then i_gen_return (cur_func_args_size (back_st st)) st else Some st);
     let prologue = (if n > 0 then ''sub esp, '' @ show_int n else '''');
         epilogue = (if n > 0 then ''add esp, '' @ show_int n else '''') in do {
       st \<leftarrow> on_outbuf (fix_stack n prologue epilogue (\<lambda>off. ''esp + '' @ show_int off)) st;
       st \<leftarrow> putln [''section .data''] st;
       st \<leftarrow> write_consts H (cur_func_name (back_st st)) 0 (double_consts (back_st st)) st;
       let st = upd_back (\<lambda>b. b\<lparr>fout := fout b @ writeout (outbuf b)\<rparr>) st in
       on_outbuf (\<lambda>buf. Some (clearbuf buf)) st
     }
   }"

subsection \<open>The result of a quadruple\<close>

definition copy_ptr :: "loc_ptr option \<Rightarrow> i_st \<Rightarrow> (loc_ptr option \<times> i_st) option" where
  "copy_ptr p st =
     (case p of
        None \<Rightarrow> Some (None, st)
      | Some p \<Rightarrow> do {
          l \<leftarrow> deref p st;
          let (l, st) = copy_loc_shallow l st in
          Some (Some (Own l), st)
        })"

definition i_update_locations :: "i386_back backend_t \<Rightarrow> loc_ptr option \<Rightarrow> i_op" where
  \<comment> \<open>\<open>update_locations\<close>\<close>
  "i_update_locations B aloc st = do {
     (p1, st) \<leftarrow> copy_ptr (loc1 st) st;
     (p2, st) \<leftarrow> copy_ptr (loc2 st) st;
     (p0, st) \<leftarrow> copy_ptr aloc st;
     let st = set_loc0 p0 (set_loc1 p1 (set_loc2 p2 st));
         st = opt_live (var2 st) (live2 st) (opt_live (var1 st) (live1 st) st) in do {
       l0 \<leftarrow> the_loc p0 st;
       v0 \<leftarrow> var0 st;
       let st = upd_back (\<lambda>b. b\<lparr>disallowed_fpu_reg :=
             (case loc_u l0 of L_FPU_REG r \<Rightarrow> Some r | _ \<Rightarrow> disallowed_fpu_reg b)\<rparr>) st in do {
         st \<leftarrow> discard_var B v0 st;
         st \<leftarrow> discard_if_dead B (var1 st) st;
         st \<leftarrow> discard_if_dead B (var2 st) st;
         st \<leftarrow> flush_loc B (loc_u l0) (upd_back (\<lambda>b. b\<lparr>disallowed_fpu_reg := None\<rparr>) st);
         (b, st) \<leftarrow> update_var_loc B v0 l0 st;
         Some (set_live v0 True st)
       }
     }
   }"

definition loc_tags :: "i_st \<Rightarrow> (loc_u \<times> loc_u) option" where
  \<comment> \<open>what \<open>loc1\<close> and \<open>loc2\<close> are\<close>
  "loc_tags st = do {
     a \<leftarrow> the_loc (loc1 st) st;
     b \<leftarrow> the_loc (loc2 st) st;
     Some (loc_u a, loc_u b)
   }"

definition write_reg32_op_3 :: "i386_back backend_t \<Rightarrow> quadr_op_t \<Rightarrow> i_op" where
  "write_reg32_op_3 B op st = do {
     l0 \<leftarrow> the_loc (loc0 st) st;
     c_assert B (tag_of l0 = LOC_REG);
     (x1, x2) \<leftarrow> loc_tags st;
     (if op = Q_SUB then
        (if loc_tag x1 = LOC_REG \<and> loc_tag x2 = LOC_INT
         then ins [''lea '', '', ['', '' - '', '']''] [loc0 st, loc1 st, loc2 st] st
         else do {
           st \<leftarrow> ins [''mov '', '', ''] [loc0 st, loc1 st] st;
           ins [''sub '', '', ''] [loc0 st, loc2 st] st
         })
      else if op = Q_ADD then
        (if loc_tag x2 = LOC_REG \<and> (loc_tag x1 = LOC_REG \<or> loc_tag x1 = LOC_INT)
         then ins [''lea '', '', ['', '' + '', '']''] [loc0 st, loc2 st, loc1 st] st
         else if loc_tag x1 = LOC_REG \<and> (loc_tag x2 = LOC_REG \<or> loc_tag x2 = LOC_INT)
         then ins [''lea '', '', ['', '' + '', '']''] [loc0 st, loc1 st, loc2 st] st
         else do {
           st \<leftarrow> ins [''mov '', '', ''] [loc0 st, loc1 st] st;
           ins [''add '', '', ''] [loc0 st, loc2 st] st
         })
      else do {
        c_assert B (op = Q_MUL);
        (case (x1, x2) of
           (L_INT a, L_INT b) \<Rightarrow> ins [''mov '', '', '' @ show_int (sint (a * b))] [loc0 st] st
         | (L_INT a, _) \<Rightarrow> ins [''imul '', '', '', '', ''] [loc0 st, loc2 st, loc1 st] st
         | _ \<Rightarrow> do {
             st \<leftarrow> ins [''mov '', '', ''] [loc0 st, loc1 st] st;
             ins [''imul '', '', ''] [loc0 st, loc2 st] st
           })
      })
   }"

definition write_reg32_op_2 :: "i386_back backend_t \<Rightarrow> quadr_op_t \<Rightarrow> i_op" where
  "write_reg32_op_2 B op st = do {
     l0 \<leftarrow> the_loc (loc0 st) st;
     l2 \<leftarrow> the_loc (loc2 st) st;
     c_assert B (tag_of l0 = LOC_REG \<or> (tag_of l0 = LOC_STACK \<and> tag_of l2 \<noteq> LOC_STACK));
     (if op = Q_SUB then ins [''sub '', '', ''] [loc0 st, loc2 st] st
      else if op = Q_ADD then ins [''add '', '', ''] [loc0 st, loc2 st] st
      else do {
        c_assert B (op = Q_MUL);
        ins [''imul '', '', ''] [loc0 st, loc2 st] st
      })
   }"

definition we_may_change_loc :: "var_id option \<Rightarrow> loc_ptr option \<Rightarrow> bool \<Rightarrow> i_st \<Rightarrow> bool option" where
  "we_may_change_loc v p lv st = do {
     l \<leftarrow> the_loc p st;
     v \<leftarrow> v;
     (if \<not> loc_is_const l \<and> (loc_num v st > 1 \<or> \<not> lv)
      then map_option (\<lambda>n. n = 1) (ref_num l st) else Some False)
   }"

definition swap_args :: "i_st \<Rightarrow> i_st" where
  "swap_args = upd_back (\<lambda>b. b\<lparr>i_var1 := i_var2 b, i_var2 := i_var1 b, i_loc1 := i_loc2 b, i_loc2 := i_loc1 b,
     i_live1 := i_live2 b, i_live2 := i_live1 b\<rparr>)"

subsection \<open>Division\<close>

fun lg_loop :: "nat \<Rightarrow> int \<Rightarrow> int \<Rightarrow> int" where
  \<comment> \<open>the binary logarithm of a power of two, otherwise -1\<close>
  "lg_loop val lg cnt =
     (if val = 0 then lg
      else if odd val then (if lg \<noteq> -1 then -1 else lg_loop (val div 2) cnt (cnt + 1))
      else lg_loop (val div 2) lg (cnt + 1))"

declare lg_loop.simps [simp del]

definition div_pow2 :: "i386_back backend_t \<Rightarrow> quadr_op_t \<Rightarrow> int \<Rightarrow> bool \<Rightarrow> i_op" where
  \<comment> \<open>division by \<open>2 ^ lg\<close> or its negation\<close>
  "div_pow2 B op lg sign st =
     (if lg > 0 \<or> sign then do {
        may \<leftarrow> we_may_change_loc (var1 st) (loc1 st) (live1 st) st;
        (p0, st) \<leftarrow>
          (if may then Some (loc1 st, st)
           else do {
             v1 \<leftarrow> var1 st;
             st \<leftarrow> move_to_reg B v1 st;
             p0 \<leftarrow> dest_ptr (var1 st) st;
             Some (p0, st)
           });
        st \<leftarrow> i_update_locations B p0 st;
        (if op = Q_DIV then do {
           st \<leftarrow> (if lg > 0 then ins [''sar '', '', '' @ show_int lg] [loc0 st] st else Some st);
           (if sign then ins [''neg ''] [loc0 st] st else Some st)
         }
         else do {
           c_assert B (op = Q_MOD);
           ins [''and '', '', '' @ show_int (2 ^ nat lg - 1)] [loc0 st] st
         })
      }
      else do {
        v0 \<leftarrow> var0 st;
        v1 \<leftarrow> var1 st;
        \<comment> \<open>\<open>var2\<close> is read for its liveness\<close>
        v2 \<leftarrow> var2 st;
        copy_to_var B v0 (QA_VAR v1)
          (set_loc0 (loc1 st) (set_live v0 True (set_live v2 (live2 st) (set_live v1 (live1 st) st))))
      })"

definition idiv :: "i386_back backend_t \<Rightarrow> quadr_op_t \<Rightarrow> i_op" where
  \<comment> \<open>the first argument in \<open>eax\<close>; the copy of its location is not used\<close>
  "idiv B op st = do {
     v1 \<leftarrow> var1 st;
     let in_eax = find (\<lambda>l. \<not> dirty l \<and> loc_u l = L_REG REG_EAX) (var_loc st v1);
         st = (case in_eax of Some l \<Rightarrow> set_live v1 (live1 st) (set_loc1 (Some (Own l)) st) | None \<Rightarrow> st) in do {
       st \<leftarrow> deny_reg B REG_EAX LOC_REG st;
       st \<leftarrow> deny_reg B REG_EDX LOC_REG st;
       st \<leftarrow> free_reg B REG_EAX st;
       st \<leftarrow> free_reg B REG_EDX st;
       st \<leftarrow> find_loc2 st;
       st \<leftarrow>
         (if in_eax = None then do {
            st \<leftarrow> find_loc1 st;
            ins [''mov eax, ''] [loc1 st] st
          }
          else Some st);
       c_assert B (op = Q_DIV \<or> op = Q_MOD);
       let st = fix_loc0 (L_REG (if op = Q_DIV then REG_EAX else REG_EDX)) st in do {
         st \<leftarrow> i_update_locations B (loc0 st) st;
         st \<leftarrow> putln [''xor edx, edx''] st;
         st \<leftarrow> putln [''test eax, eax''] st;
         st \<leftarrow> putln [''sets dl''] st;
         st \<leftarrow> putln [''neg edx''] st;
         l2 \<leftarrow> the_loc (loc2 st) st;
         st \<leftarrow>
           (if tag_of l2 = LOC_INT then do {
              st \<leftarrow> free_reg B REG_EBP st;
              st \<leftarrow> ins [''mov ebp, ''] [loc2 st] st;
              putln [''idiv ebp''] st
            }
            else ins [''idiv ''] [loc2 st] st);
         st \<leftarrow> allow_reg B REG_EAX LOC_REG st;
         allow_reg B REG_EDX LOC_REG st
       }
     }
   }"

definition gen_div_mod_32 :: "i386_back backend_t \<Rightarrow> quadr_op_t \<Rightarrow> i_op" where
  \<comment> \<open>the negation of the least \<open>int\<close> is not defined\<close>
  "gen_div_mod_32 B op st = do {
     l2 \<leftarrow> the_loc (loc2 st) st;
     (case loc_u l2 of
        L_INT i \<Rightarrow> do {
          check (sint i \<noteq> - (2 ^ 31));
          let lg = lg_loop (nat \<bar>sint i\<bar>) (-1) 0 in
          if lg \<noteq> -1 then div_pow2 B op lg (sint i < 0) st else idiv B op st
        }
      | _ \<Rightarrow> idiv B op st)
   }"

subsection \<open>Comparisons\<close>

fun fpu_jmp_str :: "quadr_op_t \<Rightarrow> bool \<Rightarrow> string option" where
  "fpu_jmp_str Q_IF_EQ swapped = Some ''je''"
| "fpu_jmp_str Q_IF_NE swapped = Some ''jne''"
| "fpu_jmp_str Q_IF_LT swapped = Some (if swapped then ''ja'' else ''jb'')"
| "fpu_jmp_str Q_IF_GT swapped = Some (if swapped then ''jb'' else ''ja'')"
| "fpu_jmp_str Q_IF_LE swapped = Some (if swapped then ''jae'' else ''jbe'')"
| "fpu_jmp_str Q_IF_GE swapped = Some (if swapped then ''jbe'' else ''jae'')"
| "fpu_jmp_str _ swapped = None"

definition fpu_compare :: "i386_back backend_t \<Rightarrow> string \<Rightarrow> i_op" where
  \<comment> \<open>the top of the stack, that is \<open>var1\<close>, with \<open>loc2\<close>\<close>
  "fpu_compare B instr st = do {
     v1 \<leftarrow> var1 st;
     n \<leftarrow> ref_num (init_loc (L_FPU_REG 0)) st;
     st' \<leftarrow> ins [instr @ '' ''] [loc2 st] st;
     (if live1 st \<or> n > 1 then Some st'
      else do {
        st \<leftarrow> fpu_pop B (set_live v1 (live1 st') st');
        discard_var B v1 st
      })
   }"

definition fpu_flags :: "i386_back backend_t \<Rightarrow> i_op" where
  "fpu_flags B st = do {
     st \<leftarrow> free_reg B REG_EAX st;
     st \<leftarrow> putln [''fstsw ax''] st;
     st \<leftarrow> putln [''fwait''] st;
     putln [''sahf''] st
   }"

definition top_is_loc1 :: "i386_back backend_t \<Rightarrow> i_op" where
  \<comment> \<open>\<open>loc1\<close>, a floating point register, becomes the top\<close>
  "top_is_loc1 B st = do {
     l1 \<leftarrow> the_loc (loc1 st) st;
     (case loc_u l1 of
        L_FPU_REG r \<Rightarrow> (if r \<noteq> 0 then swap_fpu_regs B 0 r st else Some st)
      | _ \<Rightarrow> None)
   }"

definition finish_cmp :: "i386_back backend_t \<Rightarrow> string \<Rightarrow> string \<Rightarrow> i_op" where
  "finish_cmp B jmp label st = do {
     st \<leftarrow> save_live B st;
     st \<leftarrow> (if \<not> live1 st then (case var1 st of Some v \<Rightarrow> discard_var B v st | None \<Rightarrow> Some st) else Some st);
     st \<leftarrow> (if \<not> live2 st then (case var2 st of Some v \<Rightarrow> discard_var B v st | None \<Rightarrow> Some st) else Some st);
     putln [jmp, '' '', label] st
   }"

definition gen_fpu_cmp :: "i386_back backend_t \<Rightarrow> flags_t \<Rightarrow> quadr_op_t \<Rightarrow> string \<Rightarrow> i_op" where
  "gen_fpu_cmp B F op label st = do {
     (x1, x2) \<leftarrow> loc_tags st;
     (swapped, st) \<leftarrow>
       (if loc_tag x1 \<noteq> LOC_FPU_REG \<and> loc_tag x2 \<noteq> LOC_FPU_REG then do {
          v1 \<leftarrow> var1 st;
          st \<leftarrow> fpu_load B v1 st;
          st \<leftarrow> fpu_compare B ''fcom'' st;
          st \<leftarrow> fpu_flags B st;
          Some (False, st)
        }
        else if loc_tag x1 = LOC_FPU_REG \<and> loc_tag x2 = LOC_FPU_REG \<and> f_pentium_pro F then do {
          let sw = (x2 = L_FPU_REG 0); st = (if sw then swap_args st else st) in do {
            st \<leftarrow> top_is_loc1 B st;
            st \<leftarrow> fpu_compare B ''fcomi'' st;
            st \<leftarrow> putln [''fwait''] st;
            Some (sw, st)
          }
        }
        else do {
          let sw = (loc_tag x2 = LOC_FPU_REG \<and> x1 \<noteq> L_FPU_REG 0); st = (if sw then swap_args st else st) in do {
            st \<leftarrow> top_is_loc1 B st;
            st \<leftarrow> fpu_compare B ''fcom'' st;
            st \<leftarrow> fpu_flags B st;
            Some (sw, st)
          }
        });
     jmp \<leftarrow> fpu_jmp_str op swapped;
     finish_cmp B jmp label st
   }"

definition gen_cmp :: "i386_back backend_t \<Rightarrow> quadr_op_t \<Rightarrow> string \<Rightarrow> i_op" where
  "gen_cmp B op label st = do {
     (x1, x2) \<leftarrow> loc_tags st;
     st \<leftarrow>
       (if loc_tag x1 \<noteq> LOC_FPU_REG \<and> loc_tag x2 \<noteq> LOC_FPU_REG then do {
          v1 \<leftarrow> var1 st;
          st \<leftarrow> move_to_reg B v1 st;
          st \<leftarrow> find_loc1 st;
          l1 \<leftarrow> the_loc (loc1 st) st;
          c_assert B (tag_of l1 = LOC_REG);
          Some st
        }
        else Some st);
     st \<leftarrow> ins [''cmp '', '', ''] [loc1 st, loc2 st] st;
     jmp \<leftarrow> jmp_str op;
     finish_cmp B jmp label st
   }"

subsection \<open>Arithmetic\<close>

fun fpu_op_str :: "quadr_op_t \<Rightarrow> string option" where
  "fpu_op_str Q_ADD = Some ''fadd''"
| "fpu_op_str Q_SUB = Some ''fsub''"
| "fpu_op_str Q_MUL = Some ''fmul''"
| "fpu_op_str Q_DIV = Some ''fdiv''"
| "fpu_op_str _ = None"

fun fpu_op_rev_str :: "quadr_op_t \<Rightarrow> string option" where
  "fpu_op_rev_str Q_ADD = Some ''fadd''"
| "fpu_op_rev_str Q_SUB = Some ''fsubr''"
| "fpu_op_rev_str Q_MUL = Some ''fmul''"
| "fpu_op_rev_str Q_DIV = Some ''fdivr''"
| "fpu_op_rev_str _ = None"

definition fpu_instr :: "quadr_op_t \<Rightarrow> bool \<Rightarrow> string option" where
  \<comment> \<open>the instruction, reversed or not\<close>
  "fpu_instr op reversed = (if reversed then fpu_op_rev_str op else fpu_op_str op)"

definition result_on_top :: "i386_back backend_t \<Rightarrow> i_op" where
  \<comment> \<open>\<open>loc0 = new_loc(LOC_FPU_REG, 0); update_locations(loc0);\<close>\<close>
  "result_on_top B st = (let st = fix_loc0 (L_FPU_REG 0) st in i_update_locations B (loc0 st) st)"

definition fpu_loaded :: "i386_back backend_t \<Rightarrow> quadr_op_t \<Rightarrow> i_op" where
  \<comment> \<open>both arguments in memory\<close>
  "fpu_loaded B op st = do {
     v1 \<leftarrow> var1 st;
     st \<leftarrow> fpu_load B v1 st;
     st \<leftarrow> result_on_top B st;
     s \<leftarrow> fpu_op_str op;
     ins [s @ '' ''] [loc2 st] st
   }"

definition fpu_same :: "i386_back backend_t \<Rightarrow> quadr_op_t \<Rightarrow> nat \<Rightarrow> i_op" where
  \<comment> \<open>both arguments are the top\<close>
  "fpu_same B op st0_ref st = do {
     st \<leftarrow>
       (if live1 st \<or> live2 st \<or> st0_ref > 1
        then (case var1 st of Some v \<Rightarrow> fpu_load B v st | None \<Rightarrow> None) else Some st);
     st \<leftarrow> i_update_locations B (loc1 st) st;
     s \<leftarrow> fpu_op_str op;
     putln [s, '' st0''] st
   }"

definition fpu_both :: "i386_back backend_t \<Rightarrow> quadr_op_t \<Rightarrow> bool \<Rightarrow> i_op" where
  \<comment> \<open>both arguments may be changed\<close>
  "fpu_both B op swapped st = do {
     l1 \<leftarrow> the_loc (loc1 st) st;
     st \<leftarrow>
       (case loc_u l1 of
          L_FPU_REG r \<Rightarrow>
            (if r \<noteq> 0 then do { st \<leftarrow> swap_fpu_regs B 0 r st; find_loc2 st } else Some st)
        | _ \<Rightarrow> None);
     l2 \<leftarrow> the_loc (loc2 st) st;
     (if tag_of l2 = LOC_FPU_REG then do {
        st \<leftarrow> i_update_locations B (loc2 st) st;
        s \<leftarrow> fpu_instr op (\<not> swapped);
        st \<leftarrow> ins [s @ '' '', '',st0''] [loc2 st] st;
        fpu_pop B st
      }
      else do {
        st \<leftarrow> result_on_top B st;
        s \<leftarrow> fpu_instr op swapped;
        ins [s @ '' ''] [loc2 st] st
      })
   }"

definition fpu_first :: "i386_back backend_t \<Rightarrow> quadr_op_t \<Rightarrow> bool \<Rightarrow> i_op" where
  \<comment> \<open>the first argument may be changed\<close>
  "fpu_first B op swapped st = do {
     l1 \<leftarrow> the_loc (loc1 st) st;
     st \<leftarrow>
       (case loc_u l1 of
          L_FPU_REG r \<Rightarrow>
            (if r \<noteq> 0 then do { st \<leftarrow> swap_fpu_regs B 0 r st; find_loc2 st } else Some st)
        | _ \<Rightarrow> None);
     st \<leftarrow> result_on_top B st;
     s \<leftarrow> fpu_instr op swapped;
     ins [s @ '' ''] [loc2 st] st
   }"

definition fpu_second :: "i386_back backend_t \<Rightarrow> quadr_op_t \<Rightarrow> bool \<Rightarrow> i_op" where
  \<comment> \<open>the second argument may be changed\<close>
  "fpu_second B op swapped st = do {
     l2 \<leftarrow> the_loc (loc2 st) st;
     st \<leftarrow>
       (case loc_u l2 of
          L_FPU_REG r \<Rightarrow>
            (if r \<noteq> 0 then do { st \<leftarrow> swap_fpu_regs B 0 r st; find_loc1 st } else Some st)
        | _ \<Rightarrow> None);
     st \<leftarrow> result_on_top B st;
     s \<leftarrow> fpu_instr op (\<not> swapped);
     ins [s @ '' ''] [loc1 st] st
   }"

definition fpu_neither :: "i386_back backend_t \<Rightarrow> quadr_op_t \<Rightarrow> bool \<Rightarrow> i_op" where
  "fpu_neither B op swapped st = do {
     v1 \<leftarrow> var1 st;
     st \<leftarrow> fpu_load B v1 st;
     st \<leftarrow> find_loc2 st;
     st \<leftarrow> result_on_top B st;
     s \<leftarrow> fpu_instr op swapped;
     ins [s @ '' ''] [loc2 st] st
   }"

definition fpu_rest :: "i386_back backend_t \<Rightarrow> quadr_op_t \<Rightarrow> bool \<Rightarrow> i_op" where
  "fpu_rest B op swapped st = do {
     may1 \<leftarrow> we_may_change_loc (var1 st) (loc1 st) (live1 st) st;
     may2 \<leftarrow> we_may_change_loc (var2 st) (loc2 st) (live2 st) st;
     (if may1 \<and> may2 then fpu_both B op swapped st
      else if may1 then fpu_first B op swapped st
      else if may2 then fpu_second B op swapped st
      else fpu_neither B op swapped st)
   }"

definition in_fpu_mem :: "loc_u \<Rightarrow> bool" where
  "in_fpu_mem x \<longleftrightarrow> loc_tag x = LOC_STACK \<or> loc_tag x = LOC_DOUBLE"

definition gen_fpu_arithmetic_op :: "i386_back backend_t \<Rightarrow> quadr_op_t \<Rightarrow> i_op" where
  "gen_fpu_arithmetic_op B op st = do {
     (x1, x2) \<leftarrow> loc_tags st;
     st0_ref \<leftarrow> ref_num (init_loc (L_FPU_REG 0)) st;
     (if in_fpu_mem x1 \<and> in_fpu_mem x2 then fpu_loaded B op st
      else do {
        let swapped = in_fpu_mem x1;
            st = (if swapped then swap_args st else st);
            (x1, x2) = (if swapped then (x2, x1) else (x1, x2)) in do {
          c_assert B (loc_tag x1 = LOC_FPU_REG);
          (if x2 = L_FPU_REG 0 then
             (if x1 = L_FPU_REG 0 then fpu_same B op st0_ref st
              else fpu_rest B op (\<not> swapped) (swap_args st))
           else fpu_rest B op swapped st)
        }
      })
   }"

definition op3_in_new_reg :: "i386_back backend_t \<Rightarrow> i_op" where
  \<comment> \<open>a new register for the result, and the arguments found again\<close>
  "op3_in_new_reg B st = do {
     st \<leftarrow> new_loc0 LOC_REG B st;
     st \<leftarrow> find_loc1 st;
     st \<leftarrow> find_loc2 st;
     i_update_locations B (loc0 st) st
   }"

definition arith_result_is_first :: "i386_back backend_t \<Rightarrow> quadr_op_t \<Rightarrow> i_op" where
  \<comment> \<open>\<open>var0 == var1\<close>\<close>
  "arith_result_is_first B op st = do {
     p0 \<leftarrow> dest_ptr (var0 st) st;
     let st = set_loc0 p0 st in do {
       l0 \<leftarrow> the_loc p0 st;
       (x1, x2) \<leftarrow> loc_tags st;
       (if tag_of l0 = LOC_STACK \<and> loc_tag x2 = LOC_STACK then do {
          st \<leftarrow> op3_in_new_reg B st;
          write_reg32_op_3 B op st
        }
        else if tag_of l0 = LOC_INT then do {
          c_assert B (loc_tag x1 = LOC_INT);
          may2 \<leftarrow> (if op \<noteq> Q_SUB then we_may_change_loc (var2 st) (loc2 st) (live2 st) st else Some False);
          (if may2 \<and> (loc_tag x2 = LOC_REG \<or> op \<noteq> Q_MUL) then do {
             l2 \<leftarrow> the_loc (loc2 st) st;
             v2 \<leftarrow> var2 st;
             let (l, st) = copy_loc_shallow l2 st in do {
               st \<leftarrow> discard_var_loc B v2 l2 st;
               let st = swap_args (set_loc2 (Some (Own l)) (set_loc0 (Some (Own l)) st)) in do {
                 st \<leftarrow> i_update_locations B (loc0 st) st;
                 write_reg32_op_2 B op st
               }
             }
           }
           else do {
             st \<leftarrow> op3_in_new_reg B st;
             write_reg32_op_3 B op st
           })
        }
        else do {
          c_assert B (tag_of l0 = LOC_REG \<or> (tag_of l0 = LOC_STACK \<and> loc_tag x2 \<noteq> LOC_STACK \<and> op \<noteq> Q_MUL));
          st \<leftarrow> i_update_locations B (loc0 st) st;
          write_reg32_op_2 B op st
        })
     }
   }"

definition arith_result_is_second :: "i386_back backend_t \<Rightarrow> quadr_op_t \<Rightarrow> i_op" where
  \<comment> \<open>\<open>var0 == var2\<close>, only for a difference\<close>
  "arith_result_is_second B op st = do {
     c_assert B (op = Q_SUB);
     (x1, x2) \<leftarrow> loc_tags st;
     may1 \<leftarrow> we_may_change_loc (var1 st) (loc1 st) (live1 st) st;
     may2 \<leftarrow> we_may_change_loc (var2 st) (loc2 st) (live2 st) st;
     (if may1 \<and> loc_tag x1 \<noteq> LOC_INT \<and> (loc_tag x2 = LOC_REG \<or> loc_tag x2 = LOC_INT \<or> loc_tag x1 = LOC_REG) then do {
        st \<leftarrow> i_update_locations B (loc1 st) st;
        ins [''sub '', '', ''] [loc1 st, loc2 st] st
      }
      else if may2 \<and> loc_tag x2 = LOC_REG then do {
        st \<leftarrow> i_update_locations B (loc2 st) st;
        st \<leftarrow> ins [''neg ''] [loc2 st] st;
        ins [''add '', '', ''] [loc2 st, loc1 st] st
      }
      else do {
        st \<leftarrow> op3_in_new_reg B st;
        st \<leftarrow> ins [''mov '', '', ''] [loc0 st, loc1 st] st;
        ins [''sub '', '', ''] [loc0 st, loc2 st] st
      })
   }"

definition may_hold_result :: "quadr_op_t \<Rightarrow> loc_u \<Rightarrow> loc_u \<Rightarrow> bool" where
  "may_hold_result op x y \<longleftrightarrow>
     loc_tag x = LOC_REG \<or> (loc_tag x = LOC_STACK \<and> loc_tag y \<noteq> LOC_STACK \<and> op \<noteq> Q_MUL)"

definition arith_other :: "i386_back backend_t \<Rightarrow> quadr_op_t \<Rightarrow> i_op" where
  "arith_other B op st = do {
     (x1, x2) \<leftarrow> loc_tags st;
     may1 \<leftarrow> we_may_change_loc (var1 st) (loc1 st) (live1 st) st;
     may2 \<leftarrow> we_may_change_loc (var2 st) (loc2 st) (live2 st) st;
     (if may1 \<and> may_hold_result op x1 x2 then do {
        st \<leftarrow> i_update_locations B (loc1 st) st;
        write_reg32_op_2 B op st
      }
      else if (op = Q_ADD \<or> op = Q_MUL) \<and> may2 \<and> may_hold_result op x2 x1 then do {
        let st = swap_args st in do {
          st \<leftarrow> i_update_locations B (loc1 st) st;
          write_reg32_op_2 B op st
        }
      }
      else do {
        st \<leftarrow> op3_in_new_reg B st;
        write_reg32_op_3 B op st
      })
   }"

definition gen_arithmetic_op :: "i386_back backend_t \<Rightarrow> quadr_op_t \<Rightarrow> i_op" where
  "gen_arithmetic_op B op st = do {
     let st = (if var0 st = var2 st \<and> (op = Q_ADD \<or> op = Q_MUL) then swap_args st else st) in do {
       v1 \<leftarrow> var1 st;
       (if qtype_of v1 st = VT_DOUBLE then gen_fpu_arithmetic_op B op st
        else do {
          c_assert B (qtype_of v1 st = VT_INT);
          (if op = Q_DIV \<or> op = Q_MOD then gen_div_mod_32 B op st
           else if var0 st = var1 st then arith_result_is_first B op st
           else if var0 st = var2 st then arith_result_is_second B op st
           else arith_other B op st)
        })
     }
   }"

subsection \<open>Pointers\<close>

definition reg_if_mem :: "i386_back backend_t \<Rightarrow> var_id option \<Rightarrow> i_op" where
  "reg_if_mem B v st = do {
     v \<leftarrow> v;
     l \<leftarrow> std_find_best_src_loc v st;
     (if tag_of l = LOC_STACK then move_to_reg B v st else Some st)
   }"

definition i_read_ptr :: "i386_back backend_t \<Rightarrow> i_op" where
  "i_read_ptr B st = do {
     v0 \<leftarrow> var0 st;
     st \<leftarrow> reg_if_mem B (var1 st) st;
     st \<leftarrow> reg_if_mem B (var2 st) st;
     p0 \<leftarrow> dest_ptr (var0 st) st;
     st \<leftarrow>
       (if (case the_loc p0 st of None \<Rightarrow> True | Some l \<Rightarrow> tag_of l \<noteq> LOC_REG)
        then new_loc0 LOC_REG B st else Some (set_loc0 p0 st));
     st \<leftarrow> find_loc1 st;
     st \<leftarrow> find_loc2 st;
     st \<leftarrow> i_update_locations B (loc0 st) st;
     sz \<leftarrow> size_str (size_of v0 st);
     ins [''mov '', '', '' @ sz @ '' ['', '' + '' @ show_int (size_of v0 st) @ '' * '', '']'']
       [loc0 st, loc1 st, loc2 st] st
   }"

definition i_store_fpu :: "i386_back backend_t \<Rightarrow> var_id \<Rightarrow> string \<Rightarrow> i_op" where
  \<comment> \<open>the value to store is in a floating point register\<close>
  "i_store_fpu B v2 sz st = do {
     l2 \<leftarrow> the_loc (loc2 st) st;
     st \<leftarrow>
       (case loc_u l2 of
          L_FPU_REG r \<Rightarrow>
            (if r \<noteq> 0 then do {
               st \<leftarrow> swap_fpu_regs B 0 r st;
               st \<leftarrow> find_loc2 st;
               find_loc1 st
             }
             else Some st)
        | _ \<Rightarrow> None);
     l2 \<leftarrow> the_loc (loc2 st) st;
     n \<leftarrow> ref_num l2 st;
     let addr = '' '' @ sz @ '' ['';
         mult = '' + '' @ show_int (size_of v2 st) @ '' * '' in
     (if is_live v2 st \<or> n > 1
      then ins [''fst'' @ addr, mult, '']''] [loc0 st, loc1 st] st
      else do {
        st \<leftarrow> ins [''fstp'' @ addr, mult, '']''] [loc0 st, loc1 st] st;
        st \<leftarrow> flush_loc B (loc_u l2) st;
        rol_fpu_regs B st
      })
   }"

definition i_write_ptr :: "i386_back backend_t \<Rightarrow> i_op" where
  "i_write_ptr B st = do {
     v0 \<leftarrow> var0 st;
     v2 \<leftarrow> var2 st;
     st \<leftarrow> move_to_reg B v0 st;
     st \<leftarrow> reg_if_mem B (var1 st) st;
     st \<leftarrow> reg_if_mem B (var2 st) st;
     st \<leftarrow> find_loc2 st;
     st \<leftarrow> find_loc1 st;
     p0 \<leftarrow> src_ptr (var0 st) st;
     let st = set_loc0 p0 st in do {
       (x1, x2) \<leftarrow> loc_tags st;
       c_assert B (loc_tag x1 = LOC_REG \<or> loc_tag x1 = LOC_INT);
       c_assert B (size_of v2 st \<in> {1, 2, 4, 8});
       sz \<leftarrow> size_str (size_of v2 st);
       (if loc_tag x2 = LOC_FPU_REG then i_store_fpu B v2 sz st
        else ins [''mov '' @ sz @ '' ['', '' + '' @ show_int (size_of v2 st) @ '' * '', ''], '']
               [loc0 st, loc1 st, loc2 st] st)
     }
   }"

definition i_get_addr :: "i386_back backend_t \<Rightarrow> i_op" where
  "i_get_addr B st = do {
     v1 \<leftarrow> var1 st;
     st \<leftarrow> new_loc0 LOC_REG B (set_live v1 (live1 st) st);
     st \<leftarrow> find_loc1 st;
     st \<leftarrow> i_update_locations B (loc0 st) st;
     l1 \<leftarrow> the_loc (loc1 st) st;
     a \<leftarrow> array_loc_str l1 st;
     ins [''lea '', '', '' @ a] [loc0 st] st
   }"

subsection \<open>\<open>gen_code\<close>\<close>

definition i_return :: "i386_back backend_t \<Rightarrow> i_op" where
  "i_return B st = do {
     st \<leftarrow>
       (case var1 st of
          None \<Rightarrow> Some st
        | Some v1 \<Rightarrow>
            if qtype_of v1 st = VT_DOUBLE then do {
              c_assert B (stack_adjustment_off (back_st st) = 0);
              st \<leftarrow> find_loc1 st;
              l1 \<leftarrow> the_loc (loc1 st) st;
              st \<leftarrow> (if loc_u l1 \<noteq> L_FPU_REG 0 then fpu_load B v1 st else Some st);
              putln [''fstp qword [@FP@'', show_int (- cur_func_args_size (back_st st) - 4 - 8 + 8), ''@]''] st
            }
            else do {
              c_assert B (qtype_of v1 st = VT_INT);
              l1 \<leftarrow> the_loc (loc1 st) st;
              (if loc_u l1 \<noteq> L_REG REG_EAX then ins [''mov eax, ''] [loc1 st] st else Some st)
            });
     i_gen_return (cur_func_args_size (back_st st)) st
   }"

definition i_gen_op :: "i386_back backend_t \<Rightarrow> flags_t \<Rightarrow> quadr_t \<Rightarrow> i_op" where
  \<comment> \<open>the \<open>switch\<close> of \<open>gen_code\<close>\<close>
  "i_gen_op B F quadr st =
     (let op = q_op quadr in
      if op \<in> {Q_ADD, Q_SUB, Q_DIV, Q_MUL, Q_MOD} then gen_arithmetic_op B op st
      else if op = Q_RETURN then i_return B st
      else if is_if_op op then do {
        v1 \<leftarrow> var1 st;
        label \<leftarrow> label_of (q_result quadr);
        (if qtype_of v1 st = VT_DOUBLE then gen_fpu_cmp B F op label st
         else do {
           c_assert B (qtype_of v1 st = VT_INT);
           gen_cmp B op label st
         })
      }
      else if op = Q_GOTO then do {
        c_assert B (q_arg1 quadr = QA_NONE \<and> q_arg2 quadr = QA_NONE);
        st \<leftarrow> save_live B st;
        label \<leftarrow> label_of (q_result quadr);
        putln [''jmp '', label] st
      }
      else if op = Q_READ_PTR then i_read_ptr B st
      else if op = Q_WRITE_PTR then i_write_ptr B st
      else if op = Q_GET_ADDR then i_get_addr B st
      else None)"

definition set_args :: "quadr_t \<Rightarrow> i_op" where
  \<comment> \<open>the static variables at the start of \<open>gen_code\<close>\<close>
  "set_args quadr st =
     (let v0 = arg_var (q_result quadr); v1 = arg_var (q_arg1 quadr); v2 = arg_var (q_arg2 quadr) in do {
        p1 \<leftarrow> (case v1 of None \<Rightarrow> Some None | Some v \<Rightarrow> src_ptr v1 st);
        p2 \<leftarrow> (case v2 of None \<Rightarrow> Some None | Some v \<Rightarrow> src_ptr v2 st);
        p0 \<leftarrow> (case v0 of None \<Rightarrow> Some None
               | Some v \<Rightarrow> (if var_loc st v \<noteq> [] \<and> q_op quadr = Q_WRITE_PTR then src_ptr v0 st else Some None));
        Some (upd_back (\<lambda>b. b\<lparr>i_var0 := v0, i_var1 := v1, i_var2 := v2, i_loc0 := p0, i_loc1 := p1, i_loc2 := p2,
          i_live1 := (case v1 of None \<Rightarrow> i_live1 b | Some v \<Rightarrow> is_live v st),
          i_live2 := (case v2 of None \<Rightarrow> i_live2 b | Some v \<Rightarrow> is_live v st)\<rparr>) st)
      })"

definition finit :: i_op where
  "finit st =
     (if fpu_initialised (back_st st) then Some st
      else do { st \<leftarrow> putln [''finit''] st; Some (upd_back (\<lambda>b. b\<lparr>fpu_initialised := True\<rparr>) st) })"

definition is_double :: "var_id option \<Rightarrow> 'b gencode_st \<Rightarrow> bool" where
  "is_double v st \<longleftrightarrow> (case v of None \<Rightarrow> False | Some v \<Rightarrow> qtype_of v st = VT_DOUBLE)"

definition i_gen_code :: "i386_back backend_t \<Rightarrow> flags_t \<Rightarrow> quadr_t \<Rightarrow> i_op" where
  "i_gen_code B F quadr st = do {
     st \<leftarrow> set_args quadr st;
     st \<leftarrow> (if is_double (var1 st) st \<or> is_double (var0 st) st \<or> is_double (var2 st) st then finit st else Some st);
     let v0 = (case var0 st of Some v \<Rightarrow> (if assigned_in_quadr quadr v then Some v else None) | None \<Rightarrow> None) in do {
       c_assert B (case v0 of Some v \<Rightarrow> is_live v st | None \<Rightarrow> True);
       st \<leftarrow> i_gen_op B F quadr (opt_live (var2 st) True (opt_live (var1 st) True (opt_live v0 False st)));
       c_assert B (case v0 of Some v \<Rightarrow> is_live v st | None \<Rightarrow> True);
       let st = opt_live v0 True
         (opt_live (var2 st) (live2 st) (opt_live (var1 st) (live1 st) st)) in do {
         st \<leftarrow> discard_if_dead B (var0 st) st;
         st \<leftarrow> discard_if_dead B (var1 st) st;
         discard_if_dead B (var2 st) st
       }
     }
   }"

subsection \<open>Calls\<close>

text \<open>
  The arguments that have been passed, with the values of the array \<open>offset\<close>; an element that was
  not written is \<open>None\<close>.
\<close>

type_synonym passed = "(var_id \<times> int option) list"

definition push_again :: "i386_back backend_t \<Rightarrow> int \<Rightarrow> int \<Rightarrow> i_op" where
  \<comment> \<open>\<open>PUSH_FPU_ARG\<close> for a variable that has been pushed at \<open>offset\<close>\<close>
  "push_again B offset off st = do {
     c_assert B (offset \<ge> 0);
     let disp = offset - stack_adjustment_off (back_st st) in
     (if off = 0 then do {
        c_assert B (disp \<le> 0);
        st \<leftarrow> putln [''push dword [esp + '', show_int (- disp + 4), '']''] st;
        putln [''push dword [esp + '', show_int (- disp + 4), '']''] st
      }
      else do {
        c_assert B (disp > 0);
        st \<leftarrow> free_reg B REG_EBP st;
        st \<leftarrow> putln [''mov ebp, dword [esp - '', show_int disp, '']''] st;
        st \<leftarrow> putln [''mov dword [esp - '', show_int (off + 8), ''], ebp''] st;
        st \<leftarrow> putln [''mov ebp, dword [esp - '', show_int (disp - 4), '']''] st;
        putln [''mov dword [esp - '', show_int (off + 4), ''], ebp''] st
      })
   }"

definition push_fpu_arg :: "i386_back backend_t \<Rightarrow> passed \<Rightarrow> var_id \<Rightarrow> int \<Rightarrow> i_st \<Rightarrow> (bool \<times> i_st) option" where
  \<comment> \<open>\<open>PUSH_FPU_ARG\<close>; the result is true where it continues the loop\<close>
  "push_fpu_arg B passed v off st =
     (case find (\<lambda>p. fst p = v) passed of
        Some p \<Rightarrow> do {
          offset \<leftarrow> snd p;
          st \<leftarrow> push_again B offset off st;
          Some (True, st)
        }
      | None \<Rightarrow> do {
          st \<leftarrow> (if find_loc (var_loc st v) (L_FPU_REG 0) \<noteq> None then Some st else fpu_load B v st);
          st \<leftarrow> putln [''fst qword [esp - '', show_int (off + 8), '']''] st;
          st \<leftarrow> fpu_pop B st;
          Some (False, st)
        })"

text \<open>
  The first loop: arguments in registers, \<open>j\<close> registers left.  The result are the arguments that
  are left, those that have been passed, and \<open>off\<close>.
\<close>

fun reg_args ::
  "i386_back backend_t \<Rightarrow> nat \<Rightarrow> nat \<Rightarrow> (var_id \<times> bool) list \<Rightarrow> passed \<Rightarrow> int \<Rightarrow> i_st \<Rightarrow>
    ((var_id \<times> bool) list \<times> passed \<times> int \<times> i_st) option"
where
  "reg_args B n j [] passed off st = Some ([], passed, off, st)"
| "reg_args B n j ((v, lv) # args) passed off st =
     (if j = 0 then Some ((v, lv) # args, passed, off, st)
      else
        let st = set_live v lv st in
        if qtype_of v st = VT_INT then do {
          let r = n - j in do {
            st \<leftarrow> save_var_to_loc B v (init_loc (L_REG r)) st;
            st \<leftarrow> deny_reg B r LOC_REG st;
            st \<leftarrow> free_reg B r st;
            reg_args B n (j - 1) args (passed @ [(v, Some (- int r))]) off st
          }
        }
        else do {
          c_assert B (qtype_of v st = VT_DOUBLE);
          (again, st) \<leftarrow> push_fpu_arg B passed v off st;
          (if again then reg_args B n j args (passed @ [(v, None)]) off st
           else do {
             st \<leftarrow> rol_fpu_regs B st;
             reg_args B n j args (passed @ [(v, Some (off + 8))]) (off + 8) st
           })
        })"

definition adjust :: "int \<Rightarrow> i_st \<Rightarrow> i_st" where
  "adjust n = upd_back (\<lambda>b. b\<lparr>stack_adjustment_off := stack_adjustment_off b + n\<rparr>)"

fun stack_args ::
  "i386_back backend_t \<Rightarrow> (var_id \<times> bool) list \<Rightarrow> passed \<Rightarrow> i_op"
where
  \<comment> \<open>the second loop: arguments on the stack\<close>
  "stack_args B [] passed st = Some st"
| "stack_args B ((v, lv) # args) passed st =
     (let st = set_live v lv st in
      if qtype_of v st = VT_INT then do {
        p \<leftarrow> src_ptr (Some v) st;
        st \<leftarrow> ins [''push ''] [p] st;
        let st = adjust 4 st in
        stack_args B args (passed @ [(v, Some (stack_adjustment_off (back_st st)))]) st
      }
      else do {
        c_assert B (qtype_of v st = VT_DOUBLE);
        (again, st) \<leftarrow> push_fpu_arg B passed v 0 st;
        (if again then stack_args B args (passed @ [(v, None)]) st
         else do {
           st \<leftarrow> putln [''sub esp, 8''] st;
           st \<leftarrow> rol_fpu_regs B (adjust 8 st);
           stack_args B args (passed @ [(v, Some (stack_adjustment_off (back_st st)))]) st
         })
      })"

fun save_lives :: "var_id list \<Rightarrow> i_st \<Rightarrow> bool list \<times> i_st" where
  \<comment> \<open>the array \<open>live\<close>; every argument becomes live\<close>
  "save_lives [] st = ([], st)"
| "save_lives (v # vl) st =
     (let lv = is_live v st; (ls, st) = save_lives vl (set_live v True st) in (lv # ls, st))"

fun restore_lives :: "(var_id \<times> bool) list \<Rightarrow> i_st \<Rightarrow> i_st" where
  "restore_lives [] st = st"
| "restore_lives ((v, lv) # vl) st = restore_lives vl (set_live v lv st)"

definition call_result :: "i386_back backend_t \<Rightarrow> var_id \<Rightarrow> i_op" where
  "call_result B v st =
     (case qtype_of v st of
        VT_INT \<Rightarrow> map_option snd (update_var_loc B v (init_loc (L_REG REG_EAX)) st)
      | VT_DOUBLE \<Rightarrow> do {
          st \<leftarrow> putln [''finit''] st;
          st \<leftarrow> putln [''fld qword [esp]''] st;
          st \<leftarrow> map_option snd (update_var_loc B v (init_loc (L_FPU_REG 0)) st);
          Some (upd_back (\<lambda>b. b\<lparr>fpu_initialised := True\<rparr>) st)
        }
      | _ \<Rightarrow> None)"

definition i_gen_call :: "i386_back backend_t \<Rightarrow> flags_t \<Rightarrow> func_id \<Rightarrow> var_id list \<Rightarrow> var_id option \<Rightarrow> i_op" where
  "i_gen_call B F f args retvar st =
     (let func = quadr_func (quadrs st) ! f; tag = qf_tag func in
      if tag = QF_PRINT_STRING then None
      else
        (case qf_type func of
           func_type p ret args_num as \<Rightarrow> do {
             let args = rev args;
                 n = (if tag = QF_USER_DEFINED then f_args_in_reg_num F else 0);
                 off = (if ret = type_double then 8 else 0) in do {
               check (length args \<le> args_num);
               let (lives, st) = save_lives args st;
                   args = zip args lives in do {
                 (rest, passed, off, st) \<leftarrow> reg_args B n n args [] off st;
                 st \<leftarrow> putln [''sub esp, '', show_int off] st;
                 st \<leftarrow> stack_args B rest passed (upd_back (\<lambda>b. b\<lparr>stack_adjustment_off := off\<rparr>) st);
                 let st = restore_lives args st in do {
                   st \<leftarrow> discard_dead_vars B [] st;   \<comment> \<open>\<open>args\<close> is \<open>NULL\<close> after the loop\<close>
                   st \<leftarrow> free_all B LOC_REG st;
                   st \<leftarrow> free_all B LOC_FPU_REG st;
                   st \<leftarrow> putln [''call '', qf_name func]
                     (upd_back (\<lambda>b. b\<lparr>fpu_initialised := False, stack_adjustment_off := 0\<rparr>) st);
                   st \<leftarrow> (case retvar of None \<Rightarrow> Some st | Some v \<Rightarrow> call_result B v st);
                   (if ret = type_double then putln [''add esp, 8''] st else Some st)
                 }
               }
             }
           }
         | _ \<Rightarrow> None))"

definition i_gen_print_string :: "i386_back backend_t \<Rightarrow> string \<Rightarrow> i_op" where
  "i_gen_print_string B s st = do {
     st \<leftarrow> deny_all B LOC_REG st;
     st \<leftarrow> deny_all B LOC_FPU_REG st;
     st \<leftarrow> free_all B LOC_REG st;
     st \<leftarrow> free_all B LOC_FPU_REG st;
     let k = show_nat (str_const_num (back_st st)) in do {
       st \<leftarrow> putln [''section .data''] st;
       st \<leftarrow> putln [''__str_const'', k, '' db '', [CHR 39], s, [CHR 39], '',10,0''] st;
       st \<leftarrow> putln [''section .text''] st;
       st \<leftarrow> putln [''push __str_const'', k] st;
       st \<leftarrow> putln [''call printString''] st;
       st \<leftarrow> allow_all B LOC_REG
         (upd_back (\<lambda>b. b\<lparr>str_const_num := str_const_num b + 1, fpu_initialised := False\<rparr>) st);
       allow_all B LOC_FPU_REG st
     }
   }"

subsection \<open>Moves\<close>

definition mov_to_stack :: "i386_back backend_t \<Rightarrow> loc_t \<Rightarrow> var_id \<Rightarrow> i_op" where
  "mov_to_stack B dest src st = do {
     l \<leftarrow> std_find_best_src_loc src st;
     let d = Some (Own dest); s = Some (Own l) in
     (case loc_u l of
        L_STACK se \<Rightarrow> do {
          (tmp, st) \<leftarrow> alloc_reg B LOC_REG st;
          r \<leftarrow> (case loc_u tmp of L_REG r \<Rightarrow> reg32_str r | _ \<Rightarrow> None);
          st \<leftarrow> ins [''mov '' @ r @ '', ''] [s] st;
          st \<leftarrow> ins [''mov '', '', '' @ r] [d] st;
          map_option snd (update_var_loc B src tmp st)
        }
      | L_REG r \<Rightarrow> ins [''mov '', '', ''] [d, s] st
      | L_INT i \<Rightarrow> ins [''mov '', '', ''] [d, s] st
      | L_DOUBLE x \<Rightarrow> do {
          (sstr, st) \<leftarrow> i_loc_str l st;
          (dstr, st) \<leftarrow> i_loc_str dest st;
          st \<leftarrow> free_fpu_reg B 7 True st;
          st \<leftarrow> putln [''fld '', sstr] st;
          putln [''fstp '', dstr] st
        }
      | L_FPU_REG r \<Rightarrow> do {
          st \<leftarrow> (if r \<noteq> 0 then putln [''fxch st'', show_nat r] st else Some st);
          st \<leftarrow> ins [''fst ''] [d] st;
          (if r \<noteq> 0 then putln [''fxch st'', show_nat r] st else Some st)
        })
   }"

definition mov_fpu_regs :: "i386_back backend_t \<Rightarrow> nat \<Rightarrow> nat \<Rightarrow> i_op" where
  \<comment> \<open>from the register \<open>r\<close> to the register \<open>dreg\<close>\<close>
  "mov_fpu_regs B dreg r st =
     (if dreg = 0 then
        (if r = 7 then do {
           st \<leftarrow> putln [''fdecstp''] st;
           st \<leftarrow> putln [''fst st1''] st;
           putln [''fincstp''] st
         }
         else do {
           st \<leftarrow> free_fpu_reg B 7 True st;
           st \<leftarrow> putln [''fld st'', show_nat r] st;
           putln [''fstp st1''] st
         })
      else if r = 0 then putln [''fst st'', show_nat dreg] st
      else do {
        fr \<leftarrow> is_free 0 LOC_FPU_REG st;
        (if fr then do {
           st \<leftarrow> putln [''fincstp''] st;
           st \<leftarrow> putln [''fld st'', show_nat (r - 1)] st;
           st \<leftarrow> putln [''fstp st'', show_nat dreg] st;
           putln [''fdecstp''] st
         }
         else do {
           st \<leftarrow> putln [''fxch st'', show_nat r] st;
           st \<leftarrow> putln [''fst st'', show_nat dreg] st;
           putln [''fxch st'', show_nat r] st
         })
      })"

definition load_fpu :: "loc_t \<Rightarrow> i_op" where
  \<comment> \<open>\<open>fldz\<close> for a zero, \<open>fld1\<close> for a one, otherwise \<open>fld\<close>\<close>
  "load_fpu l st =
     (case loc_u l of
        L_DOUBLE d \<Rightarrow>
          (if dbl_eq d 0 then putln [''fldz''] st
           else if dbl_eq d 0x3FF0000000000000 then putln [''fld1''] st
           else ins [''fld ''] [Some (Own l)] st)
      | _ \<Rightarrow> ins [''fld ''] [Some (Own l)] st)"

definition mov_to_fpu_reg :: "i386_back backend_t \<Rightarrow> nat \<Rightarrow> var_id \<Rightarrow> i_op" where
  "mov_to_fpu_reg B dreg src st = do {
     l \<leftarrow> std_find_best_src_loc src st;
     (case loc_u l of
        L_FPU_REG r \<Rightarrow> mov_fpu_regs B dreg r st
      | _ \<Rightarrow> do {
          st \<leftarrow> free_fpu_reg B 7 True st;
          l \<leftarrow> std_find_best_src_loc src st;
          st \<leftarrow> load_fpu l st;
          (if dreg < 7 then putln [''fstp st'', show_nat (dreg + 1)] st else putln [''fincstp''] st)
        })
   }"

definition i_gen_mov :: "i386_back backend_t \<Rightarrow> loc_t \<Rightarrow> var_id \<Rightarrow> i_op" where
  "i_gen_mov B dest src st = do {
     st \<leftarrow> (if qtype_of src st = VT_DOUBLE then finit st else Some st);
     (case loc_u dest of
        L_STACK s \<Rightarrow> mov_to_stack B dest src st
      | L_REG r \<Rightarrow> do {
          l \<leftarrow> std_find_best_src_loc src st;
          ins [''mov '', '', ''] [Some (Own dest), Some (Own l)] st
        }
      | L_FPU_REG dreg \<Rightarrow> mov_to_fpu_reg B dreg src st
      | _ \<Rightarrow> None)
   }"

definition swap_stack :: "i386_back backend_t \<Rightarrow> loc_t \<Rightarrow> loc_t \<Rightarrow> i_op" where
  \<comment> \<open>two elements of the stack\<close>
  "swap_stack B l1 l2 st = do {
     s1 \<leftarrow> (case loc_u l1 of L_STACK s \<Rightarrow> se_find s st | _ \<Rightarrow> None);
     s2 \<leftarrow> (case loc_u l2 of L_STACK s \<Rightarrow> se_find s st | _ \<Rightarrow> None);
     c_assert B (se_size s1 = se_size s2);
     let p1 = Some (Own l1); p2 = Some (Own l2) in
     (if se_size s1 = 8 then do {
        st \<leftarrow> finit st;
        flag7 \<leftarrow> is_allowed 7 LOC_FPU_REG st;
        flag6 \<leftarrow> is_allowed 6 LOC_FPU_REG st;
        st \<leftarrow> (if flag7 then deny_reg B 7 LOC_FPU_REG st else Some st);
        st \<leftarrow> (if flag6 then deny_reg B 6 LOC_FPU_REG st else Some st);
        st \<leftarrow> free_fpu_reg B 7 True st;
        st \<leftarrow> free_fpu_reg B 6 True st;
        st \<leftarrow> ins [''fld ''] [p1] st;
        st \<leftarrow> ins [''fld ''] [p2] st;
        st \<leftarrow> ins [''fstp ''] [p1] st;
        st \<leftarrow> ins [''fstp ''] [p2] st;
        st \<leftarrow> (if flag6 then allow_reg B 6 LOC_FPU_REG st else Some st);
        (if flag7 then allow_reg B 7 LOC_FPU_REG st else Some st)
      }
      else do {
        (l, st) \<leftarrow> alloc_reg B LOC_REG st;
        let p = Some (Own l) in do {
          st \<leftarrow> ins [''mov '', '', ''] [p, p1] st;
          st \<leftarrow> ins [''xchg '', '', ''] [p, p2] st;
          st \<leftarrow> ins [''xchg '', '', ''] [p, p1] st;
          v1 \<leftarrow> var1 st;
          map_option snd (update_var_loc B v1 l st)
        }
      })
   }"

definition swap_fpu :: "i386_back backend_t \<Rightarrow> nat \<Rightarrow> loc_t \<Rightarrow> i_op" where
  "swap_fpu B r l2 st = do {
     st \<leftarrow> finit st;
     (case loc_u l2 of
        L_FPU_REG r2 \<Rightarrow>
          (if r = 0 then putln [''fxch st'', show_nat r2] st
           else if r2 = 0 then putln [''fxch st'', show_nat r] st
           else do {
             st \<leftarrow> putln [''fxch st'', show_nat r] st;
             st \<leftarrow> putln [''fxch st'', show_nat r2] st;
             putln [''fxch st'', show_nat r] st
           })
      | L_STACK s \<Rightarrow> do {
          st \<leftarrow> free_fpu_reg B 7 True st;
          st \<leftarrow> ins [''fld ''] [Some (Own l2)] st;
          st \<leftarrow> putln [''fxch st'', show_nat r] st;
          ins [''fstp ''] [Some (Own l2)] st
        }
      | _ \<Rightarrow> None)
   }"

definition i_gen_swap :: "i386_back backend_t \<Rightarrow> loc_t \<Rightarrow> loc_t \<Rightarrow> i_op" where
  "i_gen_swap B l1 l2 st =
     (let (l1, l2) = (if tag_of l2 = LOC_STACK then (l2, l1) else (l1, l2)) in
      case loc_u l1 of
        L_REG r \<Rightarrow> ins [''xchg '', '', ''] [Some (Own l1), Some (Own l2)] st
      | L_FPU_REG r \<Rightarrow> swap_fpu B r l2 st
      | L_STACK s \<Rightarrow> swap_stack B l1 l2 st
      | _ \<Rightarrow> None)"

definition i_gen_fpu_load :: "var_id \<Rightarrow> i_op" where
  "i_gen_fpu_load v st = do {
     l \<leftarrow> std_find_best_src_loc v st;
     st \<leftarrow> finit st;
     load_fpu l st
   }"

definition i_gen_fpu_store :: "i386_back backend_t \<Rightarrow> loc_t \<Rightarrow> i_op" where
  "i_gen_fpu_store B l st = do {
     c_assert B (fpu_initialised (back_st st));
     ins [''fst ''] [Some (Own l)] st
   }"

definition i_gen_fpu_pop :: "i386_back backend_t \<Rightarrow> bool \<Rightarrow> i_op" where
  "i_gen_fpu_pop B was_free st = do {
     c_assert B (fpu_initialised (back_st st));
     putln [if was_free then ''fincstp'' else ''fstp st0''] st
   }"

definition i_gen_label :: "string \<Rightarrow> i_op" where
  "i_gen_label label st = putln [label, '':''] st"

definition i_fpu_reg_free :: "nat \<Rightarrow> i_op" where
  "i_fpu_reg_free r st =
     (if disallowed_fpu_reg (back_st st) \<noteq> Some r then putln [''ffree st'', show_nat r] st else Some st)"

subsection \<open>The backend\<close>

definition no_i386_backend :: "host_t \<Rightarrow> i386_back backend_t" where
  \<comment> \<open>level 0: every function stops\<close>
  "no_i386_backend H =
     \<lparr>start_func = (\<lambda>f st. None), end_func = (\<lambda>f n st. None), gen_code = (\<lambda>q st. None),
      gen_call_back = (\<lambda>f args v st. None), gen_print_string = (\<lambda>s st. None), gen_mov = (\<lambda>l v st. None),
      gen_swap = (\<lambda>l1 l2 st. None), gen_label = (\<lambda>s st. None),
      find_best_src_loc = std_find_best_src_loc, find_best_dest_loc = std_find_best_dest_loc,
      fpu_reg_free = (\<lambda>r st. None), gen_fpu_load = (\<lambda>v st. None), gen_fpu_store = (\<lambda>l st. None),
      gen_fpu_pop = (\<lambda>b st. None), back_alloc_reg = (\<lambda>n tag st. None), back_alloc_fpu_reg = (\<lambda>n tag st. None),
      fpu_stack = True, fast_swap = True, int_size = 4, double_size = 8, ptr_size = 4, sp_size = 4,
      reg_num = 7, fpu_reg_num = 8, again = (\<lambda>v x st. None),
      asserts = h_asserts H, int_cast = h_int_cast H\<rparr>"

definition next_i386_backend :: "host_t \<Rightarrow> flags_t \<Rightarrow> i386_back backend_t \<Rightarrow> i386_back backend_t" where
  "next_i386_backend H F B = B
     \<lparr>start_func := i_start_func B F, end_func := i_end_func H, gen_code := i_gen_code B F,
      gen_call_back := i_gen_call B F, gen_print_string := i_gen_print_string B, gen_mov := i_gen_mov B,
      gen_swap := i_gen_swap B, gen_label := i_gen_label, fpu_reg_free := i_fpu_reg_free,
      gen_fpu_load := i_gen_fpu_load, gen_fpu_store := i_gen_fpu_store B, gen_fpu_pop := i_gen_fpu_pop B,
      back_alloc_reg := bellady_ra B, back_alloc_fpu_reg := stack_ra B, again := save_var_not_to_loc B\<rparr>"

fun i386_backend :: "host_t \<Rightarrow> flags_t \<Rightarrow> nat \<Rightarrow> i386_back backend_t" where
  "i386_backend H F 0 = no_i386_backend H"
| "i386_backend H F (Suc k) = next_i386_backend H F (i386_backend H F k)"

definition init_i386_back :: "flags_t \<Rightarrow> i386_back" where
  \<comment> \<open>\<open>init\<close> copies the runtime file\<close>
  "init_i386_back F =
     \<lparr>outbuf = new_outbuf, fout = runtime_text F, double_consts = [], cur_func_args_size = 0, cur_func_name = [],
      stack_adjustment_off = 0, fpu_initialised = False, str_const_num = 0, disallowed_fpu_reg = None,
      i_var0 = None, i_var1 = None, i_var2 = None, i_loc0 = None, i_loc1 = None, i_loc2 = None,
      i_live1 = False, i_live2 = False\<rparr>"

end
