(* ===== verification/Mem.thy ===== *)
theory Mem
  imports Prelude
begin

text \<open>
  \<open>src/src/mem.c\<close> and \<open>src/src/symtab.c\<close>: pools of objects of one size, buffers of small objects, and
  the string table on top of the buffers.

  The C library is the record \<open>libc_t\<close>: \<open>c_malloc\<close> and \<open>c_realloc\<close> give the address of a block from the
  blocks in use, \<open>None\<close> for a null pointer; \<open>ptr_bytes\<close> is the size of a pointer.  What the code
  relies on is \<open>libc_ok\<close>: the address is aligned for pointers and the block is apart from the others.
  \<open>ptrs\<close> is the memory as pointers, which is what the pools keep in their free elements;
  \<open>chars\<close> is the memory as characters, for the strings of the string table.

  The descriptors that the code itself links, \<open>pool_node_t\<close> and \<open>alloc_node_t\<close>, are the elements of a
  list in the order of their field \<open>next\<close>, to which the code only appends, and a pointer to one is
  its position.  Sizes of type \<open>size_t\<close> are numbers without a bound, sizes of type \<open>int\<close> stop the
  program where they would overflow.
\<close>

record libc_t =
  c_malloc :: "(addr \<times> nat) list \<Rightarrow> nat \<Rightarrow> addr option"
  c_realloc :: "(addr \<times> nat) list \<Rightarrow> addr \<Rightarrow> nat \<Rightarrow> addr option"
  ptr_bytes :: nat

record heap_t =
  mem_blocks :: "(addr \<times> nat) list"
  ptrs :: "addr \<Rightarrow> addr"   \<comment> \<open>0 is \<open>NULL\<close>\<close>
  chars :: "addr \<Rightarrow> char"

definition apart :: "addr \<Rightarrow> nat \<Rightarrow> addr \<Rightarrow> nat \<Rightarrow> bool" where
  "apart a n b m \<longleftrightarrow> a + n \<le> b \<or> b + m \<le> a"

definition libc_ok :: "libc_t \<Rightarrow> bool" where
  "libc_ok L \<longleftrightarrow>
     (ptr_bytes L = 4 \<or> ptr_bytes L = 8) \<and>
     (\<forall>bs n a. c_malloc L bs n = Some a \<longrightarrow>
        0 < a \<and> ptr_bytes L dvd a \<and> (\<forall>(b, m) \<in> set bs. apart a n b m)) \<and>
     (\<forall>bs p n a. c_realloc L bs p n = Some a \<longrightarrow>
        0 < a \<and> ptr_bytes L dvd a \<and> (\<forall>(b, m) \<in> set bs. b \<noteq> p \<longrightarrow> apart a n b m))"

definition xmalloc :: "libc_t \<Rightarrow> nat \<Rightarrow> heap_t \<Rightarrow> (addr \<times> heap_t) option" where
  "xmalloc L n h = do {
     a \<leftarrow> c_malloc L (mem_blocks h) n;
     Some (a, h\<lparr>mem_blocks := (a, n) # mem_blocks h\<rparr>)
   }"

definition xrealloc :: "libc_t \<Rightarrow> addr \<Rightarrow> nat \<Rightarrow> heap_t \<Rightarrow> (addr \<times> heap_t) option" where
  "xrealloc L p n h = do {
     a \<leftarrow> c_realloc L (mem_blocks h) p n;
     Some (a, h\<lparr>mem_blocks := (a, n) # filter (\<lambda>b. fst b \<noteq> p) (mem_blocks h)\<rparr>)
   }"

subsection \<open>Pools\<close>

record pool_node_t =
  pn_size :: nat
  pn_data :: addr
  pn_first_free :: addr
  pn_next_free :: "nat option"

record pool_t =
  elem_size :: nat
  pool_first_free :: "nat option"
  pool_nodes :: "pool_node_t list"

fun link_elems :: "nat \<Rightarrow> addr \<Rightarrow> nat \<Rightarrow> (addr \<Rightarrow> addr) \<Rightarrow> addr \<Rightarrow> addr" where
  \<comment> \<open>the loop of \<open>make_free_list\<close>: from \<open>ptr\<close> there are \<open>n\<close> elements to \<open>end\<close>\<close>
  "link_elems 0 ptr es m = m"
| "link_elems (Suc n) ptr es m = link_elems n (ptr + es) es (m(ptr := ptr + es))"

definition make_free_list :: "nat \<Rightarrow> addr \<Rightarrow> nat \<Rightarrow> (addr \<Rightarrow> addr) \<Rightarrow> addr \<Rightarrow> addr" where
  "make_free_list n ptr es m = (link_elems n ptr es m)(ptr + n * es - es := 0)"

definition new_pool_node :: "libc_t \<Rightarrow> nat \<Rightarrow> nat \<Rightarrow> heap_t \<Rightarrow> (pool_node_t \<times> heap_t) option" where
  \<comment> \<open>without an element, the write at the end of \<open>make_free_list\<close> is before the block\<close>
  "new_pool_node L n es h = do {
     (a, h) \<leftarrow> xmalloc L (n * es) h;
     check (0 < n);
     Some (\<lparr>pn_size = n * es, pn_data = a, pn_first_free = a, pn_next_free = None\<rparr>,
       h\<lparr>ptrs := make_free_list n a es (ptrs h)\<rparr>)
   }"

definition align_size :: "libc_t \<Rightarrow> nat \<Rightarrow> nat" where
  "align_size L es =
     (let es = (if es < ptr_bytes L then ptr_bytes L else es);
          es = es + (ptr_bytes L - 1)
      in es - (es AND (ptr_bytes L - 1)))"

definition new_pool :: "libc_t \<Rightarrow> nat \<Rightarrow> nat \<Rightarrow> heap_t \<Rightarrow> (pool_t \<times> heap_t) option" where
  "new_pool L n es h = do {
     let es = align_size L es in do {
       (node, h) \<leftarrow> new_pool_node L n es h;
       Some (\<lparr>elem_size = es, pool_first_free = Some 0, pool_nodes = [node]\<rparr>, h)
     }
   }"

definition palloc :: "libc_t \<Rightarrow> pool_t \<Rightarrow> heap_t \<Rightarrow> (addr \<times> pool_t \<times> heap_t) option" where
  "palloc L pool h = do {
     i \<leftarrow> pool_first_free pool;
     check (i < length (pool_nodes pool));
     let pn = pool_nodes pool ! i; ret = pn_first_free pn in do {
       check (ret \<noteq> 0);
       let nx = ptrs h ret; pool = pool\<lparr>pool_nodes := (pool_nodes pool)[i := pn\<lparr>pn_first_free := nx\<rparr>]\<rparr> in
       if nx \<noteq> 0 then Some (ret, pool, h)
       else
         (case pn_next_free pn of
            Some j \<Rightarrow> Some (ret, pool\<lparr>pool_first_free := Some j\<rparr>, h)
          | None \<Rightarrow> do {
              \<comment> \<open>\<open>pn->next\<close> is followed to the last node; its size is a number of bytes\<close>
              (new, h) \<leftarrow> new_pool_node L (2 * pn_size (last (pool_nodes pool))) (elem_size pool) h;
              Some (ret, pool\<lparr>pool_nodes := pool_nodes pool @ [new],
                              pool_first_free := Some (length (pool_nodes pool))\<rparr>, h)
            })
     }
   }"

fun find_node :: "addr \<Rightarrow> nat \<Rightarrow> pool_node_t list \<Rightarrow> nat option" where
  \<comment> \<open>the loop of \<open>pfree\<close>; the first node of the list has the position \<open>i\<close>\<close>
  "find_node ptr i [] = None"
| "find_node ptr i (pn # pns) =
     (if pn_data pn \<le> ptr \<and> ptr < pn_data pn + pn_size pn then Some i else find_node ptr (i + 1) pns)"

definition pfree :: "pool_t \<Rightarrow> addr \<Rightarrow> heap_t \<Rightarrow> (pool_t \<times> heap_t) option" where
  "pfree pool ptr h = do {
     i \<leftarrow> find_node ptr 0 (pool_nodes pool);
     let pn = pool_nodes pool ! i; nx = pn_first_free pn; h = h\<lparr>ptrs := (ptrs h)(ptr := nx)\<rparr>;
         pn = pn\<lparr>pn_first_free := ptr\<rparr> in
     if nx = 0
     then Some (pool\<lparr>pool_nodes := (pool_nodes pool)[i := pn\<lparr>pn_next_free := pool_first_free pool\<rparr>],
                     pool_first_free := Some i\<rparr>, h)
     else Some (pool\<lparr>pool_nodes := (pool_nodes pool)[i := pn]\<rparr>, h)
   }"

subsection \<open>Buffers\<close>

definition to_int :: "nat \<Rightarrow> nat option" where
  \<comment> \<open>a number that \<open>int\<close> can hold\<close>
  "to_int n = (if int n < 0x80000000 then Some n else None)"

record alloc_node_t =
  an_pool :: addr
  an_pool_size :: nat
  an_pool_free :: nat

record alloc_t =
  alloc_first_free :: nat
  alloc_nodes :: "alloc_node_t list"

definition new_alloc_node :: "libc_t \<Rightarrow> nat \<Rightarrow> heap_t \<Rightarrow> (alloc_node_t \<times> heap_t) option" where
  "new_alloc_node L n h = do {
     n \<leftarrow> to_int n;
     (a, h) \<leftarrow> xmalloc L n h;
     Some (\<lparr>an_pool = a, an_pool_size = n, an_pool_free = 0\<rparr>, h)
   }"

definition new_alloc :: "libc_t \<Rightarrow> nat \<Rightarrow> heap_t \<Rightarrow> (alloc_t \<times> heap_t) option" where
  "new_alloc L n h = do {
     (node, h) \<leftarrow> new_alloc_node L n h;
     Some (\<lparr>alloc_first_free = 0, alloc_nodes = [node]\<rparr>, h)
   }"

definition take_bytes :: "nat \<Rightarrow> alloc_t \<Rightarrow> (addr \<times> alloc_t) option" where
  \<comment> \<open>the end of \<open>alloc\<close>\<close>
  "take_bytes n alc =
     (let i = alloc_first_free alc; node = alloc_nodes alc ! i in do {
        fr \<leftarrow> to_int (an_pool_free node + n);
        Some (an_pool node + an_pool_free node,
          alc\<lparr>alloc_nodes := (alloc_nodes alc)[i := node\<lparr>an_pool_free := fr\<rparr>]\<rparr>)
      })"

definition alloc :: "libc_t \<Rightarrow> alloc_t \<Rightarrow> nat \<Rightarrow> heap_t \<Rightarrow> (addr \<times> alloc_t \<times> heap_t) option" where
  "alloc L alc n h = do {
     check (alloc_first_free alc < length (alloc_nodes alc));
     let node = alloc_nodes alc ! alloc_first_free alc in do {
       (alc, h) \<leftarrow>
         (if an_pool_free node + n > an_pool_size node then do {
            check (alloc_first_free alc + 1 = length (alloc_nodes alc));
            twice \<leftarrow> to_int (2 * an_pool_size node);
            (new, h) \<leftarrow> new_alloc_node L (if n < twice then twice else n) h;
            Some (\<lparr>alloc_first_free = length (alloc_nodes alc), alloc_nodes = alloc_nodes alc @ [new]\<rparr>, h)
          }
          else Some (alc, h));
       (a, alc) \<leftarrow> take_bytes n alc;
       Some (a, alc, h)
     }
   }"

subsection \<open>The string table\<close>

fun fnv_hash_from :: "u32 \<Rightarrow> string \<Rightarrow> u32" where
  "fnv_hash_from hval [] = hval"
| "fnv_hash_from hval (c # s) =
     fnv_hash_from
       ((hval + (push_bit 1 hval + push_bit 4 hval + push_bit 7 hval + push_bit 8 hval + push_bit 24 hval))
        XOR of_nat (of_char c)) s"

definition fnv_hash :: "string \<Rightarrow> u32" where
  "fnv_hash s = fnv_hash_from 0x811c9dc5 s"

text \<open>
  A pointer to a hash node is the address of the array and an index.  Through a pointer into an
  array that \<open>realloc\<close> has moved, nothing can be read or written.  The list has the nodes that are
  in use, the first \<open>hash_nodes_free\<close> ones.
\<close>

type_synonym hash_ptr = "addr \<times> nat"

record hash_node_t =
  hn_hash :: u32
  hn_str :: addr
  hn_data :: addr
  hn_next :: "hash_ptr option"

record strtab_t =
  strbuf :: alloc_t
  databuf :: alloc_t
  data_size :: nat
  hash_size :: nat
  hash_log :: nat
  hash_nodes_size :: nat
  hashtab_at :: addr
  hashtab :: "hash_node_t list"

definition zero_hash_node :: hash_node_t where
  "zero_hash_node = \<lparr>hn_hash = 0, hn_str = 0, hn_data = 0, hn_next = None\<rparr>"

fun count_bits :: "nat \<Rightarrow> nat \<Rightarrow> bool \<Rightarrow> nat \<times> bool" where
  \<comment> \<open>the loop of \<open>new_strtab\<close> over \<open>hash_size\<close>, with \<open>hash_size_log\<close> and \<open>carry\<close>\<close>
  "count_bits n k c = (if n = 0 then (k, c) else count_bits (n div 2) (k + 1) (c \<or> odd n))"

declare count_bits.simps [simp del]

definition hash_node_bytes :: "libc_t \<Rightarrow> nat" where
  \<comment> \<open>\<open>sizeof(hash_node_t)\<close>: an \<open>unsigned\<close> and three pointers\<close>
  "hash_node_bytes L = 4 * ptr_bytes L"

definition new_strtab :: "libc_t \<Rightarrow> nat \<Rightarrow> nat \<Rightarrow> nat \<Rightarrow> heap_t \<Rightarrow> (strtab_t \<times> heap_t) option" where
  "new_strtab L strings_size data_bytes es h = do {
     (sb, h) \<leftarrow> new_alloc L strings_size h;
     (db, h) \<leftarrow> new_alloc L data_bytes h;
     check (0 < es);
     let (k, c) = count_bits (data_bytes div es) 0 False;
         k = k + (if c then 1 else 0);
         n = 2 ^ k in do {
       check (k < 31);   \<comment> \<open>\<open>1 << hash_size_log\<close> is a shift of an \<open>int\<close>: undefined from 31 on\<close>
       (a, h) \<leftarrow> xmalloc L ((n + n div 2) * hash_node_bytes L) h;
       Some (\<lparr>strbuf = sb, databuf = db, data_size = es, hash_size = n, hash_log = k - 1,
              hash_nodes_size = n + n div 2, hashtab_at = a, hashtab = replicate n zero_hash_node\<rparr>, h)
     }
   }"

definition hash_node :: "strtab_t \<Rightarrow> hash_ptr \<Rightarrow> hash_node_t option" where
  "hash_node t p =
     (if fst p = hashtab_at t \<and> snd p < length (hashtab t) then Some (hashtab t ! snd p) else None)"

definition set_hash_node :: "hash_ptr \<Rightarrow> (hash_node_t \<Rightarrow> hash_node_t) \<Rightarrow> strtab_t \<Rightarrow> strtab_t option" where
  "set_hash_node p f t = do {
     nd \<leftarrow> hash_node t p;
     Some (t\<lparr>hashtab := (hashtab t)[snd p := f nd]\<rparr>)
   }"

definition new_hash_node :: "libc_t \<Rightarrow> strtab_t \<Rightarrow> heap_t \<Rightarrow> (hash_ptr \<times> strtab_t \<times> heap_t) option" where
  \<comment> \<open>the value of the new node is not read before it is written\<close>
  "new_hash_node L t h = do {
     (t, h) \<leftarrow>
       (if length (hashtab t) = hash_nodes_size t then do {
          let n = 2 * hash_nodes_size t in do {
            (a, h) \<leftarrow> xrealloc L (hashtab_at t) (n * hash_node_bytes L) h;
            Some (t\<lparr>hash_nodes_size := n, hashtab_at := a\<rparr>, h)
          }
        }
        else Some (t, h));
     Some ((hashtab_at t, length (hashtab t)), t\<lparr>hashtab := hashtab t @ [zero_hash_node]\<rparr>, h)
   }"

definition str_at :: "(addr \<Rightarrow> char) \<Rightarrow> addr \<Rightarrow> string \<Rightarrow> bool" where
  \<comment> \<open>\<open>strcmp\<close> of the string at the address with \<open>s\<close> is 0\<close>
  "str_at m a s \<longleftrightarrow> (\<forall>i < length s. m (a + i) = s ! i) \<and> m (a + length s) = CHR 0x00"

fun copy_chars :: "string \<Rightarrow> addr \<Rightarrow> (addr \<Rightarrow> char) \<Rightarrow> addr \<Rightarrow> char" where
  \<comment> \<open>\<open>strcpy\<close>\<close>
  "copy_chars [] a m = m(a := CHR 0x00)"
| "copy_chars (c # s) a m = copy_chars s (a + 1) (m(a := c))"

partial_function (option) find_str ::
  "strtab_t \<Rightarrow> (addr \<Rightarrow> char) \<Rightarrow> u32 \<Rightarrow> string \<Rightarrow> hash_ptr \<Rightarrow> (hash_node_t + hash_ptr) option"
where
  \<comment> \<open>the loop of \<open>add_str\<close>: the node with the string, or the last node (\<open>prev\<close>)\<close>
  "find_str t m hash s node = do {
     nd \<leftarrow> hash_node t node;
     (if hn_hash nd = hash \<and> str_at m (hn_str nd) s then Some (Inl nd)
      else
        (case hn_next nd of
           None \<Rightarrow> Some (Inr node)
         | Some nx \<Rightarrow> find_str t m hash s nx))
   }"

declare find_str.simps [code]

definition fill_hash_node ::
  "libc_t \<Rightarrow> hash_ptr \<Rightarrow> u32 \<Rightarrow> string \<Rightarrow> strtab_t \<Rightarrow> heap_t \<Rightarrow> ((bool \<times> addr \<times> addr) \<times> strtab_t \<times> heap_t) option"
where
  \<comment> \<open>the end of \<open>add_str\<close>\<close>
  "fill_hash_node L node hash s t h = do {
     (a, sb, h) \<leftarrow> alloc L (strbuf t) (length s + 1) h;
     let h = h\<lparr>chars := copy_chars s a (chars h)\<rparr> in do {
       (d, db, h) \<leftarrow> alloc L (databuf t) (data_size t) h;
       t \<leftarrow> set_hash_node node (\<lambda>nd. \<lparr>hn_hash = hash, hn_str = a, hn_data = d, hn_next = None\<rparr>) t;
       Some ((True, a, d), t\<lparr>strbuf := sb, databuf := db\<rparr>, h)
     }
   }"

definition add_str :: "libc_t \<Rightarrow> strtab_t \<Rightarrow> string \<Rightarrow> heap_t \<Rightarrow> ((bool \<times> addr \<times> addr) \<times> strtab_t \<times> heap_t) option" where
  \<comment> \<open>returns whether the string is new, \<open>*pstr\<close> and \<open>*pdata\<close>\<close>
  "add_str L t s h = do {
     let hash = fnv_hash s; node = (hashtab_at t, unat (hash AND of_nat (hash_size t - 1))) in do {
       nd \<leftarrow> hash_node t node;
       (if hn_hash nd \<noteq> 0 then do {
          r \<leftarrow> find_str t (chars h) hash s node;
          (case r of
             Inl nd \<Rightarrow> Some ((False, hn_str nd, hn_data nd), t, h)
           | Inr prev \<Rightarrow> do {
               (node, t, h) \<leftarrow> new_hash_node L t h;
               t \<leftarrow> set_hash_node prev (\<lambda>nd. nd\<lparr>hn_next := Some node\<rparr>) t;
               fill_hash_node L node hash s t h
             })
        }
        else fill_hash_node L node hash s t h)
     }
   }"

subsection \<open>Symbols\<close>

text \<open>The symbols at the addresses that the string table gives; \<open>decl\<close> is the declaration.\<close>

record 'd sym_t =
  sym_str :: addr
  sym_decl :: "'d option"

record 'd symtab_t =
  symtab :: strtab_t
  sym_at :: "addr \<Rightarrow> 'd sym_t"

definition sym_bytes :: "libc_t \<Rightarrow> nat" where
  \<comment> \<open>\<open>sizeof(sym_t)\<close>\<close>
  "sym_bytes L = 2 * ptr_bytes L"

definition symtab_init :: "libc_t \<Rightarrow> (addr \<Rightarrow> 'd sym_t) \<Rightarrow> heap_t \<Rightarrow> ('d symtab_t \<times> heap_t) option" where
  "symtab_init L f h = do {
     (t, h) \<leftarrow> new_strtab L (8 * 1024) (1024 * sym_bytes L) (sym_bytes L) h;
     Some (\<lparr>symtab = t, sym_at = f\<rparr>, h)
   }"

definition add_sym :: "libc_t \<Rightarrow> 'd symtab_t \<Rightarrow> string \<Rightarrow> heap_t \<Rightarrow> (addr \<times> 'd symtab_t \<times> heap_t) option" where
  "add_sym L st str h = do {
     ((added, s, sym), t, h) \<leftarrow> add_str L (symtab st) str h;
     let st = st\<lparr>symtab := t\<rparr> in
     Some (sym, (if added then st\<lparr>sym_at := (sym_at st)(sym := \<lparr>sym_str = s, sym_decl = None\<rparr>)\<rparr> else st), h)
   }"

end
