(* ===== verification/Mem_Pool.thy ===== *)
theory Mem_Pool
  imports Mem
begin

text \<open>
  Pools.  The invariant \<open>pool_ok\<close> describes the linked lists: \<open>F ! i\<close> are the free elements of node \<open>i\<close> in
  the order of the list that runs through them, \<open>Q\<close> are the nodes with free elements in the order
  of \<open>next_free\<close>.  An element is live when it is in no list.
\<close>

subsection \<open>Lists in memory\<close>

fun chain :: "(addr \<Rightarrow> addr) \<Rightarrow> addr \<Rightarrow> addr list \<Rightarrow> bool" where
  "chain m p [] \<longleftrightarrow> p = 0"
| "chain m p (x # xs) \<longleftrightarrow> p = x \<and> x \<noteq> 0 \<and> chain m (m x) xs"

lemma chain_cong: "chain m p xs \<Longrightarrow> (\<And>x. x \<in> set xs \<Longrightarrow> m' x = m x) \<Longrightarrow> chain m' p xs"
  by (induction xs arbitrary: p) auto

lemma chain_null: "chain m p xs \<Longrightarrow> p = 0 \<longleftrightarrow> xs = []"
  by (cases xs) auto

lemma link_elems_apply:
  "0 < es \<Longrightarrow> link_elems n p es m x = (if p \<le> x \<and> x < p + n * es \<and> es dvd (x - p) then x + es else m x)"
proof (induction n arbitrary: p m)
  case (Suc n)
  have e: "p \<le> x \<and> x < p + Suc n * es \<and> es dvd (x - p) \<longleftrightarrow>
      x = p \<or> (p + es \<le> x \<and> x < p + es + n * es \<and> es dvd (x - (p + es)))"
  proof (cases "p + es \<le> x")
    case True
    then have "x - p = x - (p + es) + es" by simp
    then have "es dvd (x - p) \<longleftrightarrow> es dvd (x - (p + es))" by (metis dvd_add_triv_right_iff)
    then show ?thesis using True Suc.prems by auto
  next
    case False
    then show ?thesis using dvd_imp_le [of es "x - p"] Suc.prems by (cases "x = p") auto
  qed
  show ?case unfolding e using Suc by auto
qed simp

lemma elem_list_chain:
  assumes es: "0 < es" and a: "0 < a" and m: "\<And>k. k + 1 < n \<Longrightarrow> m (a + k * es) = a + (k + 1) * es" "m (a + (n - 1) * es) = 0"
    and i: "i < n"
  shows "chain m (a + i * es) (map (\<lambda>k. a + k * es) [i..<n])"
  using i
proof (induction "n - i" arbitrary: i)
  case (Suc d)
  show ?case
  proof (cases "i + 1 < n")
    case True
    then have "chain m (a + (i + 1) * es) (map (\<lambda>k. a + k * es) [i + 1..<n])" using Suc by (intro Suc.hyps) auto
    then show ?thesis using m(1) [OF True] a True by (simp add: upt_conv_Cons)
  next
    case False
    then have "i = n - 1" using Suc.prems by simp
    then show ?thesis using m(2) a Suc.prems by (simp add: upt_conv_Cons)
  qed
qed simp

lemma make_free_list_chain:
  assumes "0 < es" "0 < a" "0 < n"
  shows "chain (make_free_list n a es m) a (map (\<lambda>k. a + k * es) [0..<n])"
proof -
  have e: "a + n * es - es = a + (n - 1) * es" using assms(3) by (cases n) simp_all
  have "chain (make_free_list n a es m) (a + 0 * es) (map (\<lambda>k. a + k * es) [0..<n])"
  proof (rule elem_list_chain [OF assms(1,2)])
    fix k assume k: "k + 1 < n"
    then have "k * es < n * es" "k * es < (n - 1) * es" using assms(1) by simp_all
    then show "make_free_list n a es m (a + k * es) = a + (k + 1) * es"
      using assms(1) e by (simp add: make_free_list_def link_elems_apply)
  qed (use assms e in \<open>simp_all add: make_free_list_def\<close>)
  then show ?thesis by simp
qed

lemma make_free_list_other:
  assumes "0 < es" "0 < n" "x < a \<or> a + n * es \<le> x"
  shows "make_free_list n a es m x = m x"
proof -
  have "es \<le> n * es" using assms(2) by (cases n) simp_all
  then have "x \<noteq> a + n * es - es" using assms(1,3) by linarith
  then show ?thesis using assms by (auto simp: make_free_list_def link_elems_apply)
qed

subsection \<open>Nodes\<close>

definition elems :: "nat \<Rightarrow> pool_node_t \<Rightarrow> addr set" where
  "elems es pn = {p. pn_data pn \<le> p \<and> p < pn_data pn + pn_size pn \<and> es dvd (p - pn_data pn)}"

definition nodes_apart :: "pool_node_t list \<Rightarrow> bool" where
  "nodes_apart pns \<longleftrightarrow>
     (\<forall>i < length pns. \<forall>j < length pns. i \<noteq> j \<longrightarrow>
        apart (pn_data (pns ! i)) (pn_size (pns ! i)) (pn_data (pns ! j)) (pn_size (pns ! j)))"

definition node_ok :: "nat \<Rightarrow> heap_t \<Rightarrow> pool_node_t \<Rightarrow> addr list \<Rightarrow> bool" where
  "node_ok es h pn f \<longleftrightarrow>
     es dvd pn_size pn \<and> 0 < pn_size pn \<and> 0 < pn_data pn \<and> (pn_data pn, pn_size pn) \<in> set (mem_blocks h) \<and>
     chain (ptrs h) (pn_first_free pn) f \<and> distinct f \<and> set f \<subseteq> elems es pn"

fun node_chain :: "pool_node_t list \<Rightarrow> nat option \<Rightarrow> nat list \<Rightarrow> bool" where
  "node_chain pns p [] \<longleftrightarrow> p = None"
| "node_chain pns p (i # is) \<longleftrightarrow> p = Some i \<and> node_chain pns (pn_next_free (pns ! i)) is"

definition live_in :: "nat \<Rightarrow> pool_node_t list \<Rightarrow> addr list list \<Rightarrow> addr set" where
  "live_in es pns F = (\<Union>i < length pns. elems es (pns ! i) - set (F ! i))"

definition pool_ok :: "pool_t \<Rightarrow> heap_t \<Rightarrow> addr list list \<Rightarrow> nat list \<Rightarrow> bool" where
  "pool_ok pool h F Q \<longleftrightarrow>
     0 < elem_size pool \<and> length F = length (pool_nodes pool) \<and>
     (\<forall>i < length F. node_ok (elem_size pool) h (pool_nodes pool ! i) (F ! i)) \<and>
     nodes_apart (pool_nodes pool) \<and>
     Q \<noteq> [] \<and> distinct Q \<and> set Q = {i. i < length F \<and> F ! i \<noteq> []} \<and>
     node_chain (pool_nodes pool) (pool_first_free pool) Q"

lemma node_chain_cong:
  "node_chain pns p is \<Longrightarrow> (\<And>i. i \<in> set is \<Longrightarrow> pn_next_free (pns' ! i) = pn_next_free (pns ! i)) \<Longrightarrow> node_chain pns' p is"
  by (induction "is" arbitrary: p) auto

lemma elem_apart:
  assumes "p \<in> elems es pn" "q \<in> elems es pn" "p \<noteq> q"
  shows "apart p es q es"
proof -
  let ?d = "pn_data pn"
  have *: "x + es \<le> y" if "x < y" "?d \<le> x" "es dvd (x - ?d)" "es dvd (y - ?d)" for x y
  proof -
    have "es dvd (y - ?d) - (x - ?d)" using that(3,4) by (rule dvd_diff_nat [rotated])
    moreover have "(y - ?d) - (x - ?d) = y - x" using that by simp
    ultimately have "es dvd y - x" by metis
    then show ?thesis using that dvd_imp_le [of es "y - x"] by simp
  qed
  show ?thesis using assms * [of p q] * [of q p] by (cases p q rule: linorder_cases) (auto simp: elems_def apart_def)
qed

lemma elem_inside:
  assumes "p \<in> elems es pn" "es dvd pn_size pn"
  shows "pn_data pn \<le> p" "p + es \<le> pn_data pn + pn_size pn"
proof -
  let ?k = "p - pn_data pn"
  have "es dvd ?k" using assms(1) by (simp add: elems_def)
  then have "es dvd pn_size pn - ?k" by (rule dvd_diff_nat [OF assms(2)])
  moreover have "0 < pn_size pn - ?k" using assms(1) by (auto simp: elems_def)
  ultimately have "es \<le> pn_size pn - ?k" by (rule dvd_imp_le)
  then show "pn_data pn \<le> p" "p + es \<le> pn_data pn + pn_size pn" using assms(1) by (auto simp: elems_def)
qed

lemma elems_nodes:
  assumes "nodes_apart pns" "i < length pns" "j < length pns" "p \<in> elems es (pns ! i)" "p \<in> elems es (pns ! j)"
  shows "i = j"
proof (rule ccontr)
  assume "i \<noteq> j"
  then have "apart (pn_data (pns ! i)) (pn_size (pns ! i)) (pn_data (pns ! j)) (pn_size (pns ! j))"
    using assms by (simp add: nodes_apart_def)
  then show False using assms(4,5) by (auto simp: apart_def elems_def)
qed

subsection \<open>The operations\<close>

lemma new_pool_node_ok:
  assumes L: "libc_ok L" and n: "new_pool_node L n es h = Some (pn, h')" and es: "0 < es"
  shows "\<exists>f. node_ok es h' pn f \<and> f \<noteq> [] \<and> set f = elems es pn \<and> pn_next_free pn = None \<and> pn_size pn = n * es \<and>
      ptr_bytes L dvd pn_data pn"
    and "\<And>a m. (a, m) \<in> set (mem_blocks h) \<Longrightarrow> apart (pn_data pn) (pn_size pn) a m"
    and "set (mem_blocks h) \<subseteq> set (mem_blocks h')"
    and "\<And>x. x < pn_data pn \<or> pn_data pn + pn_size pn \<le> x \<Longrightarrow> ptrs h' x = ptrs h x"
proof -
  obtain a where a: "c_malloc L (mem_blocks h) (n * es) = Some a" "0 < n"
    and pn: "pn = \<lparr>pn_size = n * es, pn_data = a, pn_first_free = a, pn_next_free = None\<rparr>"
    and h': "h' = h\<lparr>mem_blocks := (a, n * es) # mem_blocks h, ptrs := make_free_list n a es (ptrs h)\<rparr>"
    using n by (auto simp: new_pool_node_def xmalloc_def)
  have al: "0 < a" "ptr_bytes L dvd a" "\<forall>(b, m) \<in> set (mem_blocks h). apart a (n * es) b m"
    using L a(1) unfolding libc_ok_def by blast+
  let ?f = "map (\<lambda>k. a + k * es) [0..<n]"
  have e: "set ?f = elems es pn"
    using es by (auto simp: elems_def pn image_iff dvd_def mult.commute) (metis mult.commute less_diff_conv2 add.commute add_diff_inverse_nat
      not_le mult_less_cancel1 atLeastLessThan_iff zero_le)
  have "node_ok es h' pn ?f"
    using e es al a(2) make_free_list_chain [OF es al(1) a(2)]
    by (simp add: node_ok_def pn h' distinct_map inj_on_def)
  moreover have "?f \<noteq> []" using a(2) by simp
  ultimately show "\<exists>f. node_ok es h' pn f \<and> f \<noteq> [] \<and> set f = elems es pn \<and> pn_next_free pn = None \<and> pn_size pn = n * es \<and>
      ptr_bytes L dvd pn_data pn"
    using e pn al(2) by (intro exI [of _ ?f]) simp
  show "apart (pn_data pn) (pn_size pn) b m" if "(b, m) \<in> set (mem_blocks h)" for b m
    using al(3) that by (auto simp: pn)
  show "set (mem_blocks h) \<subseteq> set (mem_blocks h')" by (auto simp: h')
  show "ptrs h' x = ptrs h x" if "x < pn_data pn \<or> pn_data pn + pn_size pn \<le> x" for x
    using make_free_list_other [OF es a(2)] that by (simp add: h' pn)
qed

lemma node_ok_heap:
  assumes "node_ok es h pn f" "set (mem_blocks h) \<subseteq> set (mem_blocks h')" "\<And>x. x \<in> set f \<Longrightarrow> ptrs h' x = ptrs h x"
  shows "node_ok es h' pn f"
  using assms chain_cong [of "ptrs h" "pn_first_free pn" f "ptrs h'"] unfolding node_ok_def by blast

lemma elems_cong: "pn_data pn' = pn_data pn \<Longrightarrow> pn_size pn' = pn_size pn \<Longrightarrow> elems es pn' = elems es pn"
  by (simp add: elems_def)

lemma node_chain_dest:
  "node_chain pns p is \<Longrightarrow> is \<noteq> [] \<Longrightarrow> p = Some (hd is) \<and> node_chain pns (pn_next_free (pns ! hd is)) (tl is)"
  by (cases "is") auto

lemma nodes_apart_cong:
  assumes "nodes_apart pns" "length pns' = length pns"
    "\<And>i. i < length pns \<Longrightarrow> pn_data (pns' ! i) = pn_data (pns ! i) \<and> pn_size (pns' ! i) = pn_size (pns ! i)"
  shows "nodes_apart pns'"
  using assms by (simp add: nodes_apart_def)

lemma live_in_upd:
  assumes "length F = length pns" "i < length pns" "nodes_apart pns" "length pns' = length pns"
    "\<And>j. j < length pns \<Longrightarrow> pn_data (pns' ! j) = pn_data (pns ! j) \<and> pn_size (pns' ! j) = pn_size (pns ! j)"
    "set (F ! i) = insert p (set f)" "p \<notin> set f" "p \<in> elems es (pns ! i)"
  shows "live_in es pns' (F[i := f]) = insert p (live_in es pns F)" "p \<notin> live_in es pns F"
proof -
  have e: "elems es (pns' ! j) = elems es (pns ! j)" if "j < length pns" for j
    using assms(5) [OF that] by (simp add: elems_def)
  have u: "q \<in> live_in es pns G \<longleftrightarrow> q \<notin> set (G ! j)" if "q \<in> elems es (pns ! j)" "j < length pns" for q j G
  proof -
    have "k = j" if "k < length pns" "q \<in> elems es (pns ! k)" for k
      using elems_nodes [OF assms(3) that(1) \<open>j < length pns\<close> that(2)] \<open>q \<in> elems es (pns ! j)\<close> by simp
    then have "q \<in> live_in es pns G \<longleftrightarrow> q \<in> elems es (pns ! j) - set (G ! j)" using that unfolding live_in_def by blast
    then show ?thesis using that(1) by simp
  qed
  have o: "q \<notin> live_in es pns G" if "\<forall>j < length pns. q \<notin> elems es (pns ! j)" for q G
    using that by (auto simp: live_in_def)
  have l: "live_in es pns' G = live_in es pns G" for G using e assms(4) by (auto simp: live_in_def)
  show "p \<notin> live_in es pns F" using u [OF assms(8,2)] assms(6) by simp
  show "live_in es pns' (F[i := f]) = insert p (live_in es pns F)"
  proof (rule set_eqI)
    fix q
    show "q \<in> live_in es pns' (F[i := f]) \<longleftrightarrow> q \<in> insert p (live_in es pns F)"
    proof (cases "\<exists>j < length pns. q \<in> elems es (pns ! j)")
      case True
      then obtain j where j: "j < length pns" "q \<in> elems es (pns ! j)" by blast
      have "q = p \<Longrightarrow> i = j" using elems_nodes [OF assms(3,2) j(1) assms(8)] j(2) by simp
      have "F[i := f] ! j = (if i = j then f else F ! j)" using assms(1) j(1) by simp
      moreover have "q \<in> live_in es pns' (F[i := f]) \<longleftrightarrow> q \<notin> set (F[i := f] ! j)" "q \<in> live_in es pns F \<longleftrightarrow> q \<notin> set (F ! j)"
        using u [OF j(2,1)] l by simp_all
      ultimately show ?thesis using assms(6,7) \<open>q = p \<Longrightarrow> i = j\<close> by (cases "i = j") auto
    next
      case False
      then show ?thesis using o [of q] assms(2,8) by (auto simp: l)
    qed
  qed
qed

abbreviation pool_live :: "pool_t \<Rightarrow> addr list list \<Rightarrow> addr set" where
  "pool_live pool F \<equiv> live_in (elem_size pool) (pool_nodes pool) F"

lemma pool_okD:
  assumes "pool_ok pool h F Q"
  shows "0 < elem_size pool" "length F = length (pool_nodes pool)"
    "\<And>i. i < length F \<Longrightarrow> node_ok (elem_size pool) h (pool_nodes pool ! i) (F ! i)" "nodes_apart (pool_nodes pool)"
    "Q \<noteq> []" "distinct Q" "set Q = {i. i < length F \<and> F ! i \<noteq> []}"
    "node_chain (pool_nodes pool) (pool_first_free pool) Q"
  using assms unfolding pool_ok_def by blast+

lemma first_free_elem:
  assumes ok: "pool_ok pool h F Q"
  obtains f where "pool_first_free pool = Some (hd Q)" "hd Q < length F" "F ! hd Q = pn_first_free (pool_nodes pool ! hd Q) # f"
    "pn_first_free (pool_nodes pool ! hd Q) \<noteq> 0"
    "chain (ptrs h) (ptrs h (pn_first_free (pool_nodes pool ! hd Q))) f"
    "node_chain (pool_nodes pool) (pn_next_free (pool_nodes pool ! hd Q)) (tl Q)"
proof -
  note k = pool_okD [OF ok]
  have q: "hd Q < length F" "F ! hd Q \<noteq> []" using k(5,7) list.set_sel(1) by blast+
  then obtain p f where f: "F ! hd Q = p # f" by (meson neq_Nil_conv)
  then have "p = pn_first_free (pool_nodes pool ! hd Q)" "p \<noteq> 0" "chain (ptrs h) (ptrs h p) f"
    using k(3) [OF q(1)] by (simp_all add: node_ok_def)
  then show ?thesis using that q f node_chain_dest [OF k(8,5)] by simp
qed

lemma palloc_ok:
  assumes L: "libc_ok L" and ok: "pool_ok pool h F Q" and p: "palloc L pool h = Some (p, pool', h')"
  shows "\<exists>F' Q'. pool_ok pool' h' F' Q' \<and> pool_live pool' F' = insert p (pool_live pool F) \<and> p \<notin> pool_live pool F"
    and "elem_size pool' = elem_size pool" "set (mem_blocks h) \<subseteq> set (mem_blocks h')"
proof -
  let ?ns = "pool_nodes pool" and ?es = "elem_size pool" and ?i = "hd Q"
  note k = pool_okD [OF ok]
  obtain f where f: "pool_first_free pool = Some ?i" "?i < length F" "F ! ?i = pn_first_free (?ns ! ?i) # f"
    "pn_first_free (?ns ! ?i) \<noteq> 0" "chain (ptrs h) (ptrs h (pn_first_free (?ns ! ?i))) f"
    "node_chain ?ns (pn_next_free (?ns ! ?i)) (tl Q)"
    by (rule first_free_elem [OF ok])
  let ?p = "pn_first_free (?ns ! ?i)"
  let ?ns1 = "?ns[?i := (?ns ! ?i)\<lparr>pn_first_free := ptrs h ?p\<rparr>]"
  have n1: "pn_data (?ns1 ! j) = pn_data (?ns ! j)" "pn_size (?ns1 ! j) = pn_size (?ns ! j)"
    "pn_next_free (?ns1 ! j) = pn_next_free (?ns ! j)" if "j < length ?ns" for j
    using that by (cases "j = ?i"; simp)+
  have ap1: "nodes_apart ?ns1" using n1 by (intro nodes_apart_cong [OF k(4)]) auto
  have ni: "node_ok ?es h (?ns ! ?i) (?p # f)" using k(3) [OF f(2)] f(3) by simp
  then have pe: "?p \<in> elems ?es (?ns ! ?i)" "?p \<notin> set f" by (simp_all add: node_ok_def)
  have ok1: "node_ok ?es h (?ns1 ! j) (F[?i := f] ! j)" if "j < length F" for j
  proof (cases "j = ?i")
    case True
    then show ?thesis using ni f(2,5) k(2) elems_cong [of "(?ns ! ?i)\<lparr>pn_first_free := ptrs h ?p\<rparr>" "?ns ! ?i" ?es]
      by (auto simp: node_ok_def)
  qed (use k(3) [OF that] in simp)
  have lv: "live_in ?es ?ns1 (F[?i := f]) = insert ?p (pool_live pool F)" "?p \<notin> pool_live pool F"
    using live_in_upd [of F ?ns ?i ?ns1 ?p f ?es] k(2,4) f(2,3) n1 pe by auto
  show "elem_size pool' = elem_size pool" "set (mem_blocks h) \<subseteq> set (mem_blocks h')"
    using p by (auto simp: palloc_def Let_def split: if_splits option.splits
        dest: new_pool_node_ok(3) [OF L _ k(1), THEN subsetD])
  have ret: "p = ?p" using p f(1) by (auto simp: palloc_def Let_def split: if_splits option.splits)
  show "\<exists>F' Q'. pool_ok pool' h' F' Q' \<and> pool_live pool' F' = insert p (pool_live pool F) \<and> p \<notin> pool_live pool F"
  proof (cases "ptrs h ?p = 0 \<and> tl Q = []")
    case False
    let ?Q = "if f = [] then tl Q else Q"
    have e: "f = [] \<longleftrightarrow> ptrs h ?p = 0" using chain_null [OF f(5)] by simp
    have q: "Q = ?i # tl Q" using k(5) by simp
    have nf: "f = [] \<Longrightarrow> pn_next_free (?ns ! ?i) \<noteq> None" using False e f(6) by (cases "tl Q") auto
    then have P: "pool' = pool\<lparr>pool_nodes := ?ns1, pool_first_free := (if f = [] then pn_next_free (?ns ! ?i) else Some ?i)\<rparr>" "h' = h"
      using p f(1) e by (auto simp: palloc_def Let_def split: if_splits option.splits)
    have "set ?Q = {j. j < length (F[?i := f]) \<and> F[?i := f] ! j \<noteq> []}"
    proof -
      have "set (tl Q) = set Q - {?i}" using k(6) q by (metis Diff_insert_absorb distinct.simps(2) list.simps(15))
      then have "j \<in> set ?Q \<longleftrightarrow> j \<in> set Q \<and> (j = ?i \<longrightarrow> f \<noteq> [])" for j by simp
      moreover have "j \<in> set Q \<longleftrightarrow> j < length F \<and> F ! j \<noteq> []" for j unfolding k(7) by simp
      moreover have "F[?i := f] ! j = (if j = ?i then f else F ! j)" if "j < length F" for j using that by simp
      ultimately show ?thesis using f(3) by (intro set_eqI) (simp only: mem_Collect_eq length_list_update, metis list.distinct(1))
    qed
    moreover have "node_chain ?ns1 (if f = [] then pn_next_free (?ns ! ?i) else Some ?i) ?Q"
    proof (rule node_chain_cong [of ?ns])
      show "node_chain ?ns (if f = [] then pn_next_free (?ns ! ?i) else Some ?i) ?Q" using f(1,6) k(8) by auto
      show "pn_next_free (?ns1 ! j) = pn_next_free (?ns ! j)" if "j \<in> set ?Q" for j
        using that k(2,7) n1(3) [of j] list.set_sel(2) [OF k(5)] by (auto split: if_splits)
    qed
    moreover have "?Q \<noteq> []" "distinct ?Q" using False e k(5,6) distinct_tl by auto
    ultimately have "pool_ok pool' h' (F[?i := f]) ?Q"
      using k(1,2) ok1 ap1 by (simp add: pool_ok_def P)
    moreover have "pool_live pool' (F[?i := f]) = insert p (pool_live pool F)" using lv(1) by (simp add: P ret)
    ultimately show ?thesis using lv(2) ret by blast
  next
    case True
    have e: "f = []" using chain_null [OF f(5)] True by simp
    have "pn_next_free (?ns ! ?i) = None" using f(6) True by simp
    then obtain new where new: "new_pool_node L (2 * pn_size (last ?ns1)) ?es h = Some (new, h')"
      and P: "pool' = pool\<lparr>pool_nodes := ?ns1 @ [new], pool_first_free := Some (length ?ns)\<rparr>"
      using p f(1) True by (auto simp: palloc_def Let_def split: if_splits option.splits)
    note nn = new_pool_node_ok [OF L new k(1)]
    obtain g where g: "node_ok ?es h' new g" "g \<noteq> []" "set g = elems ?es new" "pn_next_free new = None"
      using nn(1) by blast
    let ?F = "F[?i := f] @ [g]"
    have blk: "(pn_data (?ns1 ! j), pn_size (?ns1 ! j)) \<in> set (mem_blocks h)" if "j < length F" for j
      using ok1 [OF that] by (simp add: node_ok_def)
    have sep: "apart (pn_data new) (pn_size new) (pn_data (?ns1 ! j)) (pn_size (?ns1 ! j))" if "j < length F" for j
      using nn(2) [OF blk [OF that]] .
    have "node_ok ?es h' ((?ns1 @ [new]) ! j) (?F ! j)" if "j < length ?F" for j
    proof (cases "j < length F")
      case True
      have "set (F[?i := f] ! j) \<subseteq> elems ?es (?ns1 ! j)" using ok1 [OF True] by (simp add: node_ok_def)
      then have "ptrs h' x = ptrs h x" if "x \<in> set (F[?i := f] ! j)" for x
        using nn(4) [of x] sep [OF True] that by (auto simp: apart_def elems_def)
      then show ?thesis using node_ok_heap [OF ok1 [OF True] nn(3)] True k(2) by (simp add: nth_append)
    next
      case False
      then have "j = length F" using that by simp
      then show ?thesis using g(1) k(2) by (simp add: nth_append)
    qed
    moreover have "nodes_apart (?ns1 @ [new])"
      using ap1 sep k(2) by (auto simp: nodes_apart_def nth_append less_Suc_eq apart_def)
    moreover have "set [length ?ns] = {j. j < length ?F \<and> ?F ! j \<noteq> []}"
    proof -
      have "set Q = {?i}" using True k(5) by (metis list.collapse list.set(1) list.simps(15))
      then have "F[?i := f] ! j = []" if "j < length F" for j using k(7) e that by (cases "j = ?i") auto
      then show ?thesis using g(2) k(2) by (auto simp: nth_append less_Suc_eq)
    qed
    moreover have "node_chain (?ns1 @ [new]) (Some (length ?ns)) [length ?ns]" using g(4) by (simp add: nth_append)
    ultimately have "pool_ok pool' h' ?F [length ?ns]" using k(1,2) by (simp add: pool_ok_def P)
    moreover have "pool_live pool' ?F = live_in ?es ?ns1 (F[?i := f])"
      using g(3) k(2) by (auto simp: P live_in_def nth_append less_Suc_eq split: if_splits)
    ultimately show ?thesis using lv ret by auto
  qed
qed

lemma find_node_at:
  assumes "i < length pns" "pn_data (pns ! i) \<le> p \<and> p < pn_data (pns ! i) + pn_size (pns ! i)"
    "\<And>j. j < i \<Longrightarrow> \<not> (pn_data (pns ! j) \<le> p \<and> p < pn_data (pns ! j) + pn_size (pns ! j))"
  shows "find_node p k pns = Some (k + i)"
  using assms
proof (induction pns arbitrary: k i)
  case (Cons pn pns)
  then show ?case
  proof (cases i)
    case (Suc j)
    have "find_node p (k + 1) pns = Some (k + 1 + j)"
    proof (rule Cons.IH)
      fix m assume "m < j"
      then show "\<not> (pn_data (pns ! m) \<le> p \<and> p < pn_data (pns ! m) + pn_size (pns ! m))"
        using Cons.prems(3) [of "Suc m"] Suc by simp
    qed (use Cons.prems Suc in simp_all)
    then show ?thesis using Cons.prems(3) [of 0] Suc by simp
  qed simp
qed simp

lemma pfree_ok:
  assumes ok: "pool_ok pool h F Q" and p: "p \<in> pool_live pool F"
  shows "\<exists>pool' h' F' Q'. pfree pool p h = Some (pool', h') \<and> pool_ok pool' h' F' Q' \<and>
      pool_live pool' F' = pool_live pool F - {p} \<and> elem_size pool' = elem_size pool \<and> mem_blocks h' = mem_blocks h"
proof -
  let ?ns = "pool_nodes pool" and ?es = "elem_size pool"
  note k = pool_okD [OF ok]
  obtain i where i: "i < length ?ns" "p \<in> elems ?es (?ns ! i)" "p \<notin> set (F ! i)" using p by (auto simp: live_in_def)
  let ?pn = "?ns ! i"
  let ?nx = "pn_first_free ?pn"
  have in_i: "pn_data ?pn \<le> p \<and> p < pn_data ?pn + pn_size ?pn" using i(2) by (simp add: elems_def)
  have "\<not> (pn_data (?ns ! j) \<le> p \<and> p < pn_data (?ns ! j) + pn_size (?ns ! j))" if "j < i" for j
  proof -
    have "apart (pn_data (?ns ! j)) (pn_size (?ns ! j)) (pn_data ?pn) (pn_size ?pn)"
      using k(4) i(1) that by (simp add: nodes_apart_def)
    then show ?thesis using in_i by (auto simp: apart_def)
  qed
  then have fi: "find_node p 0 ?ns = Some i" using find_node_at [OF i(1) in_i, of 0] by simp
  have ni: "node_ok ?es h ?pn (F ! i)" using k(2,3) i(1) by simp
  then have c: "chain (ptrs h) ?nx (F ! i)" "0 < pn_data ?pn" by (simp_all add: node_ok_def)
  define h' where "h' = h\<lparr>ptrs := (ptrs h)(p := ?nx)\<rparr>"
  define pn' where "pn' = (if ?nx = 0 then ?pn\<lparr>pn_first_free := p, pn_next_free := pool_first_free pool\<rparr> else ?pn\<lparr>pn_first_free := p\<rparr>)"
  define pool' where "pool' = pool\<lparr>pool_nodes := ?ns[i := pn'], pool_first_free := (if ?nx = 0 then Some i else pool_first_free pool)\<rparr>"
  have pf: "pfree pool p h = Some (pool', h')"
    using fi by (simp add: pfree_def Let_def h'_def pn'_def pool'_def)
  have n': "pn_data (?ns[i := pn'] ! j) = pn_data (?ns ! j)" "pn_size (?ns[i := pn'] ! j) = pn_size (?ns ! j)" if "j < length ?ns" for j
    using that by (cases "j = i"; simp add: pn'_def)+
  have notin: "p \<notin> set (F ! j)" if "j < length F" for j
  proof
    assume "p \<in> set (F ! j)"
    then have "p \<in> elems ?es (?ns ! j)" using k(3) [OF that] by (auto simp: node_ok_def)
    then have "i = j" using elems_nodes [OF k(4) i(1) _ i(2)] that k(2) by simp
    then show False using i(3) \<open>p \<in> set (F ! j)\<close> by simp
  qed
  let ?F = "F[i := p # F ! i]"
  have "node_ok ?es h' (?ns[i := pn'] ! j) (?F ! j)" if "j < length F" for j
  proof (cases "j = i")
    case True
    have "chain (ptrs h') ?nx (F ! i)" by (rule chain_cong [OF c(1)]) (use i(3) in \<open>auto simp: h'_def\<close>)
    moreover have "0 < p" using c(2) in_i by simp
    moreover have "elems ?es pn' = elems ?es ?pn" by (rule elems_cong) (simp_all add: pn'_def)
    ultimately show ?thesis using True that ni i k(2) by (auto simp: node_ok_def pn'_def h'_def)
  next
    case False
    then have "node_ok ?es h' (?ns ! j) (F ! j)"
      using notin [OF that] by (intro node_ok_heap [OF k(3) [OF that]]) (auto simp: h'_def)
    then show ?thesis using False by simp
  qed
  moreover have "nodes_apart (?ns[i := pn'])" using n' by (intro nodes_apart_cong [OF k(4)]) auto
  moreover have e: "?nx = 0 \<longleftrightarrow> F ! i = []" using chain_null [OF c(1)] .
  let ?Q = "if ?nx = 0 then i # Q else Q"
  have iQ: "i \<in> set Q \<longleftrightarrow> ?nx \<noteq> 0" using k(2,7) i(1) e by simp
  have "set ?Q = {j. j < length ?F \<and> ?F ! j \<noteq> []}"
  proof -
    have "j \<in> set ?Q \<longleftrightarrow> j = i \<or> j \<in> set Q" for j using iQ by auto
    moreover have "j \<in> set Q \<longleftrightarrow> j < length F \<and> F ! j \<noteq> []" for j unfolding k(7) by simp
    ultimately show ?thesis using i(1) k(2) by (intro set_eqI) (simp add: nth_list_update)
  qed
  moreover have "node_chain (?ns[i := pn']) (pool_first_free pool) Q"
  proof (rule node_chain_cong [OF k(8)])
    show "pn_next_free (?ns[i := pn'] ! j) = pn_next_free (?ns ! j)" if "j \<in> set Q" for j
      using that iQ i(1) by (cases "j = i") (auto simp: pn'_def)
  qed
  then have "node_chain (?ns[i := pn']) (pool_first_free pool') ?Q"
    using i(1) by (cases "?nx = 0") (simp_all add: pool'_def pn'_def)
  moreover have "distinct ?Q" "?Q \<noteq> []" using k(5,6) iQ by auto
  ultimately have ok': "pool_ok pool' h' ?F ?Q"
    using k(1,2) by (simp add: pool_ok_def pool'_def)
  have "live_in ?es ?ns (?F[i := F ! i]) = insert p (live_in ?es (?ns[i := pn']) ?F)" "p \<notin> live_in ?es (?ns[i := pn']) ?F"
  proof -
    have a: "length ?F = length (?ns[i := pn'])" "i < length (?ns[i := pn'])" "length ?ns = length (?ns[i := pn'])"
      "set (?F ! i) = insert p (set (F ! i))" using k(2) i(1) by simp_all
    have b: "nodes_apart (?ns[i := pn'])" using n' by (intro nodes_apart_cong [OF k(4)]) auto
    have c: "pn_data (?ns ! j) = pn_data (?ns[i := pn'] ! j) \<and> pn_size (?ns ! j) = pn_size (?ns[i := pn'] ! j)"
      if "j < length (?ns[i := pn'])" for j using n' that by simp
    have d: "p \<in> elems ?es (?ns[i := pn'] ! i)" unfolding elems_cong [OF n' [OF i(1)]] by (rule i(2))
    show "live_in ?es ?ns (?F[i := F ! i]) = insert p (live_in ?es (?ns[i := pn']) ?F)" "p \<notin> live_in ?es (?ns[i := pn']) ?F"
      using live_in_upd [OF a(1,2) b a(3) c a(4) i(3) d] by blast+
  qed
  moreover have "?F[i := F ! i] = F" by simp
  ultimately have "pool_live pool' ?F = pool_live pool F - {p}" by (simp add: pool'_def)
  then show ?thesis using pf ok' by (intro exI [of _ pool'] exI [of _ h'] exI [of _ ?F] exI [of _ ?Q]) (simp add: pool'_def h'_def)
qed

subsection \<open>Programs that use a pool\<close>

text \<open>
  A state is the pool, the memory and the set of elements that the program holds.  The program
  allocates, frees an element that it holds, and writes: into the elements that it holds and
  outside of the pool, where it may also allocate other blocks.
\<close>

definition in_pool :: "pool_t \<Rightarrow> addr \<Rightarrow> bool" where
  "in_pool pool a \<longleftrightarrow> (\<exists>pn \<in> set (pool_nodes pool). pn_data pn \<le> a \<and> a < pn_data pn + pn_size pn)"

inductive pool_step :: "libc_t \<Rightarrow> pool_t \<times> heap_t \<times> addr set \<Rightarrow> pool_t \<times> heap_t \<times> addr set \<Rightarrow> bool" for L where
  Alloc: "palloc L pool h = Some (p, pool', h') \<Longrightarrow> pool_step L (pool, h, live) (pool', h', insert p live)"
| Free: "p \<in> live \<Longrightarrow> pfree pool p h = Some (pool', h') \<Longrightarrow> pool_step L (pool, h, live) (pool', h', live - {p})"
| Use: "set (mem_blocks h) \<subseteq> set (mem_blocks h') \<Longrightarrow>
    (\<And>a. in_pool pool a \<Longrightarrow> (\<And>p. p \<in> live \<Longrightarrow> \<not> (p \<le> a \<and> a < p + elem_size pool)) \<Longrightarrow> ptrs h' a = ptrs h a) \<Longrightarrow>
    pool_step L (pool, h, live) (pool, h', live)"

definition pool_inv :: "pool_t \<times> heap_t \<times> addr set \<Rightarrow> bool" where
  "pool_inv s = (case s of (pool, h, live) \<Rightarrow> \<exists>F Q. pool_ok pool h F Q \<and> live = pool_live pool F)"

lemma align_size_pos:
  assumes "libc_ok L"
  shows "0 < align_size L es" "es \<le> align_size L es" "ptr_bytes L dvd align_size L es" "ptr_bytes L \<le> align_size L es"
proof -
  let ?n = "if es < ptr_bytes L then ptr_bytes L else es"
  have "\<exists>k. ptr_bytes L = 2 ^ k" using assms by (auto simp: libc_ok_def intro: exI [of _ "2::nat"] exI [of _ "3::nat"])
  then obtain k where k: "ptr_bytes L = 2 ^ k" by blast
  have "n AND (2 ^ k - 1) = n mod 2 ^ k" for n :: nat by (simp add: take_bit_eq_mod [symmetric] take_bit_eq_mask mask_eq_exp_minus_1)
  then have a: "align_size L es = (?n + (2 ^ k - 1)) - (?n + (2 ^ k - 1)) mod 2 ^ k"
    by (simp add: align_size_def k Let_def)
  have m: "x mod 2 ^ k \<le> 2 ^ k - 1" for x :: nat
  proof -
    have "x mod 2 ^ k < 2 ^ k" by simp
    then show ?thesis by linarith
  qed
  have ge: "?n \<le> align_size L es" unfolding a using m [of "?n + (2 ^ k - 1)"] by linarith
  then show "es \<le> align_size L es" "ptr_bytes L \<le> align_size L es" by (auto split: if_splits)
  then show "0 < align_size L es" using k by (metis less_le_trans zero_less_numeral zero_less_power)
  show "ptr_bytes L dvd align_size L es" unfolding a k by (rule dvd_minus_mod)
qed

lemma new_pool_inv:
  assumes L: "libc_ok L" and n: "new_pool L n es h = Some (pool, h')"
  shows "pool_inv (pool, h', {})" "elem_size pool = align_size L es"
proof -
  obtain pn where pn: "new_pool_node L n (align_size L es) h = Some (pn, h')"
    and p: "pool = \<lparr>elem_size = align_size L es, pool_first_free = Some 0, pool_nodes = [pn]\<rparr>"
    using n by (auto simp: new_pool_def Let_def)
  show "elem_size pool = align_size L es" by (simp add: p)
  obtain f where f: "node_ok (align_size L es) h' pn f" "f \<noteq> []" "set f = elems (align_size L es) pn" "pn_next_free pn = None"
    using new_pool_node_ok(1) [OF L pn align_size_pos(1) [OF L]] by blast
  have "pool_ok pool h' [f] [0]"
    using f align_size_pos(1) [OF L] by (auto simp: pool_ok_def p nodes_apart_def)
  moreover have "pool_live pool [f] = {}" using f(3) by (simp add: live_in_def p)
  ultimately show "pool_inv (pool, h', {})" unfolding pool_inv_def by (auto intro!: exI [of _ "[f]"] exI [of _ "[0]"])
qed

lemma pool_use_ok:
  assumes ok: "pool_ok pool h F Q" and b: "set (mem_blocks h) \<subseteq> set (mem_blocks h')"
    and w: "\<And>a. in_pool pool a \<Longrightarrow> (\<And>p. p \<in> pool_live pool F \<Longrightarrow> \<not> (p \<le> a \<and> a < p + elem_size pool)) \<Longrightarrow> ptrs h' a = ptrs h a"
  shows "pool_ok pool h' F Q"
proof -
  let ?ns = "pool_nodes pool" and ?es = "elem_size pool"
  note k = pool_okD [OF ok]
  have "ptrs h' x = ptrs h x" if i: "i < length F" and x: "x \<in> set (F ! i)" for i x
  proof (rule w)
    have xe: "x \<in> elems ?es (?ns ! i)" using k(3) [OF i] x by (auto simp: node_ok_def)
    then show "in_pool pool x" using i k(2) unfolding in_pool_def by (metis (mono_tags, lifting) elems_def mem_Collect_eq nth_mem)
    fix p assume "p \<in> pool_live pool F"
    then obtain j where j: "j < length ?ns" "p \<in> elems ?es (?ns ! j)" "p \<notin> set (F ! j)" by (auto simp: live_in_def)
    have "apart p ?es x ?es"
    proof (cases "i = j")
      case True
      then show ?thesis using elem_apart [of p ?es "?ns ! j" x] j xe x by auto
    next
      case False
      have "apart (pn_data (?ns ! j)) (pn_size (?ns ! j)) (pn_data (?ns ! i)) (pn_size (?ns ! i))"
        using k(2,4) i j(1) False by (simp add: nodes_apart_def)
      moreover have "?es dvd pn_size (?ns ! j)" "?es dvd pn_size (?ns ! i)" using k(2,3) i j(1) by (simp_all add: node_ok_def)
      ultimately show ?thesis using elem_inside [OF j(2)] elem_inside [OF xe] by (auto simp: apart_def)
    qed
    then show "\<not> (p \<le> x \<and> x < p + ?es)" using k(1) by (auto simp: apart_def)
  qed
  then have "node_ok ?es h' (?ns ! i) (F ! i)" if "i < length F" for i
    using node_ok_heap [OF k(3) [OF that] b] that by blast
  then show ?thesis using ok by (simp add: pool_ok_def)
qed

lemma pool_step_inv:
  assumes L: "libc_ok L" and s: "pool_step L s s'" and i: "pool_inv s"
  shows "pool_inv s' \<and> elem_size (fst s') = elem_size (fst s)"
  using s i
proof (cases rule: pool_step.cases)
  case (Alloc pool h p pool' h' live)
  then obtain F Q where f: "pool_ok pool h F Q" "live = pool_live pool F" using i by (auto simp: pool_inv_def)
  then show ?thesis using palloc_ok [OF L f(1) Alloc(3)] Alloc by (auto simp: pool_inv_def)
next
  case (Free p live pool h pool' h')
  then obtain F Q where f: "pool_ok pool h F Q" "live = pool_live pool F" using i by (auto simp: pool_inv_def)
  then show ?thesis using pfree_ok [OF f(1), of p] Free by (auto simp: pool_inv_def)
next
  case (Use h h' pool live)
  then obtain F Q where f: "pool_ok pool h F Q" "live = pool_live pool F" using i by (auto simp: pool_inv_def)
  have "pool_ok pool h' F Q" by (rule pool_use_ok [OF f(1) Use(3)]) (use Use(4) f(2) in blast)
  then show ?thesis using Use f(2) by (auto simp: pool_inv_def)
qed

lemma pool_steps_inv:
  assumes L: "libc_ok L" and s: "(pool_step L)\<^sup>*\<^sup>* s s'" and i: "pool_inv s"
  shows "pool_inv s' \<and> elem_size (fst s') = elem_size (fst s)"
  using s by (induction rule: rtranclp_induct) (use i pool_step_inv [OF L] in auto)

lemma palloc_returns:
  assumes ok: "pool_ok pool h F Q" and m: "\<forall>bs n. c_malloc L bs n \<noteq> None"
  shows "palloc L pool h \<noteq> None"
proof -
  note k = pool_okD [OF ok]
  obtain f where f: "pool_first_free pool = Some (hd Q)" "hd Q < length F" "pn_first_free (pool_nodes pool ! hd Q) \<noteq> 0"
    by (rule first_free_elem [OF ok])
  have "0 < pn_size (pool_nodes pool ! i)" if "i < length F" for i using k(3) [OF that] by (simp add: node_ok_def)
  then have "0 < pn_size ((pool_nodes pool)[hd Q := (pool_nodes pool ! hd Q)\<lparr>pn_first_free := 0\<rparr>] ! (length F - 1))"
    using f(2) k(2) by (cases "hd Q = length F - 1") simp_all
  then have "0 < pn_size (last ((pool_nodes pool)[hd Q := (pool_nodes pool ! hd Q)\<lparr>pn_first_free := 0\<rparr>]))"
    using f(2) k(2) by (subst last_conv_nth) auto
  then show ?thesis using f k(2) m by (auto simp: palloc_def new_pool_node_def xmalloc_def Let_def split: option.splits)
qed

lemma live_facts:
  assumes ok: "pool_ok pool h F Q" and p: "p \<in> pool_live pool F"
  shows "\<exists>(b, m) \<in> set (mem_blocks h). b \<le> p \<and> p + elem_size pool \<le> b + m"
    and "q \<in> pool_live pool F \<Longrightarrow> p \<noteq> q \<Longrightarrow> apart p (elem_size pool) q (elem_size pool)"
proof -
  let ?ns = "pool_nodes pool" and ?es = "elem_size pool"
  note k = pool_okD [OF ok]
  have d: "?es dvd pn_size (?ns ! i)" "(pn_data (?ns ! i), pn_size (?ns ! i)) \<in> set (mem_blocks h)" if "i < length ?ns" for i
    using k(2,3) that by (simp_all add: node_ok_def)
  obtain i where i: "i < length ?ns" "p \<in> elems ?es (?ns ! i)" using p by (auto simp: live_in_def)
  show "\<exists>(b, m) \<in> set (mem_blocks h). b \<le> p \<and> p + ?es \<le> b + m"
    using elem_inside [OF i(2) d(1) [OF i(1)]] d(2) [OF i(1)] by blast
  assume q: "q \<in> pool_live pool F" "p \<noteq> q"
  then obtain j where j: "j < length ?ns" "q \<in> elems ?es (?ns ! j)" by (auto simp: live_in_def)
  show "apart p ?es q ?es"
  proof (cases "i = j")
    case True
    then show ?thesis using elem_apart [OF i(2)] j(2) q(2) by simp
  next
    case False
    then have "apart (pn_data (?ns ! i)) (pn_size (?ns ! i)) (pn_data (?ns ! j)) (pn_size (?ns ! j))"
      using k(4) i(1) j(1) by (simp add: nodes_apart_def)
    then show ?thesis using elem_inside [OF i(2) d(1) [OF i(1)]] elem_inside [OF j(2) d(1) [OF j(1)]] by (auto simp: apart_def)
  qed
qed

subsection \<open>An example\<close>

definition bump_malloc :: "(addr \<times> nat) list \<Rightarrow> nat \<Rightarrow> addr option" where
  \<comment> \<open>above all blocks\<close>
  "bump_malloc bs n = Some (8 * foldr (\<lambda>(b, m). max ((b + m) div 8 + 1)) bs 1)"

definition bump_libc :: libc_t where
  "bump_libc = \<lparr>c_malloc = bump_malloc, c_realloc = (\<lambda>bs p n. bump_malloc bs n), ptr_bytes = 8\<rparr>"

lemma bump_libc_ok: "libc_ok bump_libc"
proof -
  have "(b + m) div 8 + 1 \<le> foldr (\<lambda>(b, m). max ((b + m) div 8 + 1)) bs 1 \<and> 0 < foldr (\<lambda>(b, m). max ((b + m) div 8 + 1)) bs 1"
    if "(b, m) \<in> set bs" for b m :: nat and bs
    using that by (induction bs) auto
  then have "b + m \<le> 8 * foldr (\<lambda>(b, m). max ((b + m) div 8 + 1)) bs 1" if "(b, m) \<in> set bs" for b m :: nat and bs
    using that by fastforce
  moreover have "0 < foldr (\<lambda>(b, m). max ((b + m) div 8 + 1)) bs (1::nat)" for bs :: "(nat \<times> nat) list"
    by (induction bs) auto
  ultimately show ?thesis unfolding libc_ok_def by (fastforce simp: bump_libc_def bump_malloc_def apart_def)
qed

definition empty_heap :: heap_t where
  "empty_heap = \<lparr>mem_blocks = [], ptrs = (\<lambda>a. 0), chars = (\<lambda>a. CHR 0x00)\<rparr>"

lemma ex_pool_run:
  "do {
     (pool, h) \<leftarrow> new_pool bump_libc 1 12 empty_heap;
     (p, pool, h) \<leftarrow> palloc bump_libc pool h;
     (q, pool, h) \<leftarrow> palloc bump_libc pool h;
     (pool, h) \<leftarrow> pfree pool p h;
     (r, pool, h) \<leftarrow> palloc bump_libc pool h;
     Some (p, q, r, length (pool_nodes pool))
   } = Some (8, 32, 8, 2)"
  by code_simp

subsection \<open>The property\<close>

text \<open>
  C11: whatever a program does with a pool - allocate, free what it holds, write into what it holds -
  each element that it holds lies inside of a block of the C library, no two of them overlap, a
  new one is none of them, each of them can be freed, and the pool always has another one
  unless \<open>malloc\<close> fails.
\<close>

theorem pool_safe:
  assumes L: "libc_ok L" and n: "new_pool L n es h0 = Some (pool0, h1)"
    and run: "(pool_step L)\<^sup>*\<^sup>* (pool0, h1, {}) (pool, h, live)"
  shows "(\<forall>p \<in> live. \<exists>(b, m) \<in> set (mem_blocks h). b \<le> p \<and> p + es \<le> b + m) \<and>
    (\<forall>p \<in> live. \<forall>q \<in> live. p \<noteq> q \<longrightarrow> apart p es q es) \<and>
    (\<forall>p pool' h'. palloc L pool h = Some (p, pool', h') \<longrightarrow> p \<notin> live) \<and>
    (\<forall>p \<in> live. pfree pool p h \<noteq> None) \<and>
    ((\<forall>bs n. c_malloc L bs n \<noteq> None) \<longrightarrow> palloc L pool h \<noteq> None)"
proof -
  note new = new_pool_inv [OF L n]
  obtain F Q where ok: "pool_ok pool h F Q" "live = pool_live pool F"
    using pool_steps_inv [OF L run new(1)] by (auto simp: pool_inv_def)
  have es: "es \<le> elem_size pool" using pool_steps_inv [OF L run new(1)] new(2) align_size_pos(2) [OF L] by simp
  have "\<exists>(b, m) \<in> set (mem_blocks h). b \<le> p \<and> p + es \<le> b + m" if pl: "p \<in> live" for p
  proof -
    obtain b m where "(b, m) \<in> set (mem_blocks h)" "b \<le> p" "p + elem_size pool \<le> b + m"
      using live_facts(1) [OF ok(1), of p] pl ok(2) by blast
    then show ?thesis using es by (intro bexI [of _ "(b, m)"]) auto
  qed
  moreover have "apart p es q es" if "p \<in> live" "q \<in> live" "p \<noteq> q" for p q
    using live_facts(2) [OF ok(1), of p q] that ok(2) es by (auto simp: apart_def)
  moreover have "p \<notin> live" if "palloc L pool h = Some (p, pool', h')" for p pool' h'
    using palloc_ok(1) [OF L ok(1) that] ok(2) by blast
  moreover have "pfree pool p h \<noteq> None" if "p \<in> live" for p
    using pfree_ok [OF ok(1), of p] that ok(2) by auto
  ultimately show ?thesis using palloc_returns [OF ok(1)] by blast
qed

theorem pool_safe_witness:
  "\<exists>pool0 h1 pool h live. new_pool bump_libc 1 12 empty_heap = Some (pool0, h1) \<and>
    (pool_step bump_libc)\<^sup>*\<^sup>* (pool0, h1, {}) (pool, h, live) \<and> live = {8, 32} \<and>
    (\<forall>p \<in> live. \<forall>q \<in> live. p \<noteq> q \<longrightarrow> apart p 12 q 12)"
proof -
  obtain pool0 h1 pool1 h2 pool2 h3 pool3 h4 pool4 h5 where
    s: "new_pool bump_libc 1 12 empty_heap = Some (pool0, h1)" "palloc bump_libc pool0 h1 = Some (8, pool1, h2)"
    "palloc bump_libc pool1 h2 = Some (32, pool2, h3)" "pfree pool2 8 h3 = Some (pool3, h4)"
    "palloc bump_libc pool3 h4 = Some (8, pool4, h5)"
    using ex_pool_run by auto
  have "{32, 8} - {8} = {32::nat}" by auto
  then have "pool_step bump_libc (pool0, h1, {}) (pool1, h2, {8})" "pool_step bump_libc (pool1, h2, {8}) (pool2, h3, {32, 8})"
    "pool_step bump_libc (pool2, h3, {32, 8}) (pool3, h4, {32})" "pool_step bump_libc (pool3, h4, {32}) (pool4, h5, {8, 32})"
    using pool_step.Alloc [OF s(2)] pool_step.Alloc [OF s(3), of "{8}"] pool_step.Free [OF _ s(4), of "{32, 8}" bump_libc]
      pool_step.Alloc [OF s(5), of "{32}"] by simp_all
  then have "(pool_step bump_libc)\<^sup>*\<^sup>* (pool0, h1, {}) (pool4, h5, {8, 32})"
    by (meson rtranclp.rtrancl_into_rtrancl rtranclp.rtrancl_refl)
  then show ?thesis using pool_safe [OF bump_libc_ok s(1)] s(1) by blast
qed

end
