(* ===== verification/Mem_Strtab.thy ===== *)
theory Mem_Strtab
  imports Mem_Pool
begin

text \<open>
  Buffers and the string table.  The locale \<open>buffer\<close> is what the string table relies on: each piece
  that a buffer gives out is apart from the pieces before, and a buffer grows into blocks that
  nobody else has.  \<open>used\<close> are the bytes that have been given out, \<open>span\<close> the bytes of its blocks.
\<close>

subsection \<open>The interface of a buffer\<close>

definition block_bytes :: "heap_t \<Rightarrow> addr set" where
  "block_bytes h = (\<Union>(b, m) \<in> set (mem_blocks h). {b..<b + m})"

lemma str_at_copy: "str_at (copy_chars s a m) a s"
proof -
  have before: "copy_chars s b m x = m x" if "x < b" for s b m x
    using that by (induction s b m rule: copy_chars.induct) auto
  have "\<forall>i < length s. copy_chars s b m (b + i) = s ! i" "copy_chars s b m (b + length s) = CHR 0x00" for s b m
    by (induction s b m rule: copy_chars.induct) (auto simp: less_Suc_eq_0_disj before)
  then show ?thesis by (simp add: str_at_def)
qed

lemma copy_chars_other: "x < a \<or> a + length s < x \<Longrightarrow> copy_chars s a m x = m x"
  by (induction s a m rule: copy_chars.induct) auto

lemma str_at_cong: "(\<And>i. i \<le> length s \<Longrightarrow> m' (a + i) = m (a + i)) \<Longrightarrow> str_at m' a s \<longleftrightarrow> str_at m a s"
  by (simp add: str_at_def)

lemma str_at_unique:
  assumes "str_at m a s" "str_at m a t" "CHR 0x00 \<notin> set s" "CHR 0x00 \<notin> set t"
  shows "s = t"
proof -
  have len: "length x \<le> length y" if x: "str_at m a x" "str_at m a y" "CHR 0x00 \<notin> set x" for x y
  proof (rule ccontr)
    assume "\<not> ?thesis"
    then have l: "length y < length x" by simp
    then have "x ! length y = CHR 0x00" using x(1,2) by (simp add: str_at_def)
    then show False using nth_mem [OF l] x(3) by simp
  qed
  then have "length s = length t" using assms by (simp add: le_antisym)
  then show ?thesis using assms(1,2) by (intro nth_equalityI) (auto simp: str_at_def)
qed

locale buffer =
  fixes get :: "'b \<Rightarrow> nat \<Rightarrow> heap_t \<Rightarrow> (addr \<times> 'b \<times> heap_t) option"
    and ok :: "'b \<Rightarrow> heap_t \<Rightarrow> bool"
    and used :: "'b \<Rightarrow> addr set"
    and span :: "'b \<Rightarrow> addr set"
  assumes get_ok: "get b n h = Some (a, b', h') \<Longrightarrow> ok b h \<Longrightarrow> ok b' h'"
    and get_used: "get b n h = Some (a, b', h') \<Longrightarrow> ok b h \<Longrightarrow> used b' = used b \<union> {a..<a + n}"
    and get_fresh: "get b n h = Some (a, b', h') \<Longrightarrow> ok b h \<Longrightarrow> used b \<inter> {a..<a + n} = {}"
    and get_heap: "get b n h = Some (a, b', h') \<Longrightarrow> chars h' = chars h \<and> set (mem_blocks h) \<subseteq> set (mem_blocks h')"
    and get_span: "get b n h = Some (a, b', h') \<Longrightarrow> ok b h \<Longrightarrow> span b \<subseteq> span b' \<and> (span b' - span b) \<inter> block_bytes h = {}"
    and used_span: "ok b h \<Longrightarrow> used b \<subseteq> span b"
    and span_blocks: "ok b h \<Longrightarrow> span b \<subseteq> block_bytes h"
    and ok_blocks: "ok b h \<Longrightarrow> set (mem_blocks h) \<subseteq> set (mem_blocks h') \<Longrightarrow> ok b h'"
begin

lemma get_piece: "get b n h = Some (a, b', h') \<Longrightarrow> ok b h \<Longrightarrow> {a..<a + n} \<subseteq> span b'"
  using get_used [of b n h a b' h'] used_span [OF get_ok, of b n h a b' h'] by blast

lemma strings_kept:
  assumes g: "get b (length s + 1) h = Some (a, b', h')" and ok: "ok b h" and u: "{x..x + length s'} \<subseteq> used b"
  shows "str_at (copy_chars s a (chars h')) x s' \<longleftrightarrow> str_at (chars h) x s'"
proof (rule str_at_cong)
  fix i assume "i \<le> length s'"
  then have "x + i \<in> used b" using u by auto
  then have "x + i \<notin> {a..<a + (length s + 1)}" using get_fresh [OF g ok] by blast
  then show "copy_chars s a (chars h') (x + i) = chars h (x + i)"
    using get_heap [OF g] by (simp add: copy_chars_other not_le less_Suc_eq_le)
qed

lemma others_apart:
  assumes g: "get b n h = Some (a, b', h')" and ok: "ok b h" and s: "S \<inter> span b = {}" "S \<subseteq> block_bytes h"
  shows "S \<inter> span b' = {}"
  using get_span [OF g ok] s by blast

end

subsection \<open>The buffers of \<open>mem.c\<close>\<close>

definition alloc_ok :: "alloc_t \<Rightarrow> heap_t \<Rightarrow> bool" where
  "alloc_ok alc h \<longleftrightarrow>
     alloc_nodes alc \<noteq> [] \<and> alloc_first_free alc + 1 = length (alloc_nodes alc) \<and>
     (\<forall>node \<in> set (alloc_nodes alc).
        (an_pool node, an_pool_size node) \<in> set (mem_blocks h) \<and> an_pool_free node \<le> an_pool_size node) \<and>
     (\<forall>i < length (alloc_nodes alc). \<forall>j < length (alloc_nodes alc). i \<noteq> j \<longrightarrow>
        apart (an_pool (alloc_nodes alc ! i)) (an_pool_size (alloc_nodes alc ! i))
              (an_pool (alloc_nodes alc ! j)) (an_pool_size (alloc_nodes alc ! j)))"

definition alloc_used :: "alloc_t \<Rightarrow> addr set" where
  "alloc_used alc = (\<Union>i < length (alloc_nodes alc).
     {an_pool (alloc_nodes alc ! i)..<an_pool (alloc_nodes alc ! i) + an_pool_free (alloc_nodes alc ! i)})"

definition alloc_span :: "alloc_t \<Rightarrow> addr set" where
  "alloc_span alc = (\<Union>i < length (alloc_nodes alc).
     {an_pool (alloc_nodes alc ! i)..<an_pool (alloc_nodes alc ! i) + an_pool_size (alloc_nodes alc ! i)})"

lemma alloc_okD:
  assumes "alloc_ok alc h" "i < length (alloc_nodes alc)"
  shows "(an_pool (alloc_nodes alc ! i), an_pool_size (alloc_nodes alc ! i)) \<in> set (mem_blocks h)"
    "an_pool_free (alloc_nodes alc ! i) \<le> an_pool_size (alloc_nodes alc ! i)"
  using assms nth_mem unfolding alloc_ok_def by blast+

lemma take_bytes_ok:
  assumes ok: "alloc_ok alc h" and t: "take_bytes n alc = Some (a, alc')"
    and room: "an_pool_free (alloc_nodes alc ! alloc_first_free alc) + n \<le> an_pool_size (alloc_nodes alc ! alloc_first_free alc)"
  shows "alloc_ok alc' h" "alloc_used alc' = alloc_used alc \<union> {a..<a + n}" "alloc_used alc \<inter> {a..<a + n} = {}"
    "alloc_span alc' = alloc_span alc"
proof -
  let ?ns = "alloc_nodes alc" and ?i = "alloc_first_free alc"
  have i: "?i < length ?ns" using ok by (simp add: alloc_ok_def)
  let ?ns' = "?ns[?i := (?ns ! ?i)\<lparr>an_pool_free := an_pool_free (?ns ! ?i) + n\<rparr>]"
  have a: "a = an_pool (?ns ! ?i) + an_pool_free (?ns ! ?i)" and n': "alloc_nodes alc' = ?ns'" "alloc_first_free alc' = ?i"
    using t by (auto simp: take_bytes_def to_int_def Let_def split: if_splits)
  have f: "an_pool (?ns' ! j) = an_pool (?ns ! j)" "an_pool_size (?ns' ! j) = an_pool_size (?ns ! j)"
    "an_pool_free (?ns' ! j) = (if j = ?i then an_pool_free (?ns ! j) + n else an_pool_free (?ns ! j))" if "j < length ?ns" for j
    using that by (cases "j = ?i"; simp)+
  show "alloc_span alc' = alloc_span alc" using f by (simp add: alloc_span_def n')
  have "node \<in> set ?ns' \<Longrightarrow> (an_pool node, an_pool_size node) \<in> set (mem_blocks h) \<and> an_pool_free node \<le> an_pool_size node" for node
    using alloc_okD [OF ok] f room i by (auto simp: in_set_conv_nth)
  then show "alloc_ok alc' h" using ok f unfolding alloc_ok_def n' by simp
  have "alloc_used alc' = (\<Union>j < length ?ns. {an_pool (?ns ! j)..<an_pool (?ns ! j) + an_pool_free (?ns' ! j)})"
    using f by (simp add: alloc_used_def n')
  also have "\<dots> = alloc_used alc \<union> {a..<a + n}"
  proof (rule set_eqI)
    fix x
    have "x \<in> {an_pool (?ns ! j)..<an_pool (?ns ! j) + an_pool_free (?ns' ! j)} \<longleftrightarrow>
        x \<in> {an_pool (?ns ! j)..<an_pool (?ns ! j) + an_pool_free (?ns ! j)} \<or> j = ?i \<and> x \<in> {a..<a + n}"
      if "j < length ?ns" for j
      unfolding f(3) [OF that] a by auto
    then show "x \<in> (\<Union>j < length ?ns. {an_pool (?ns ! j)..<an_pool (?ns ! j) + an_pool_free (?ns' ! j)}) \<longleftrightarrow>
        x \<in> alloc_used alc \<union> {a..<a + n}"
      using i unfolding alloc_used_def by blast
  qed
  finally show "alloc_used alc' = alloc_used alc \<union> {a..<a + n}" .
  show "alloc_used alc \<inter> {a..<a + n} = {}"
  proof -
    have "x \<notin> {a..<a + n}" if j: "j < length ?ns" "x \<in> {an_pool (?ns ! j)..<an_pool (?ns ! j) + an_pool_free (?ns ! j)}" for j x
    proof (cases "j = ?i")
      case False
      then have "apart (an_pool (?ns ! j)) (an_pool_size (?ns ! j)) (an_pool (?ns ! ?i)) (an_pool_size (?ns ! ?i))"
        using ok i j(1) by (simp add: alloc_ok_def)
      then show ?thesis using j(2) alloc_okD(2) [OF ok j(1)] room by (auto simp: apart_def a)
    qed (use j(2) a in auto)
    then show ?thesis unfolding alloc_used_def by blast
  qed
qed

lemma new_alloc_node_ok:
  assumes L: "libc_ok L" and n: "new_alloc_node L n h = Some (node, h')"
  shows "an_pool_size node = n" "an_pool_free node = 0" "(an_pool node, n) \<in> set (mem_blocks h')"
    "set (mem_blocks h) \<subseteq> set (mem_blocks h')" "chars h' = chars h"
    "\<And>b m. (b, m) \<in> set (mem_blocks h) \<Longrightarrow> apart (an_pool node) n b m"
proof -
  obtain a where a: "c_malloc L (mem_blocks h) n = Some a"
    and o: "node = \<lparr>an_pool = a, an_pool_size = n, an_pool_free = 0\<rparr>" "h' = h\<lparr>mem_blocks := (a, n) # mem_blocks h\<rparr>"
    using n by (auto simp: new_alloc_node_def xmalloc_def to_int_def split: if_splits)
  have "\<forall>(b, m) \<in> set (mem_blocks h). apart a n b m" using L a unfolding libc_ok_def by blast
  then show "\<And>b m. (b, m) \<in> set (mem_blocks h) \<Longrightarrow> apart (an_pool node) n b m" by (auto simp: o)
qed (use n in \<open>auto simp: new_alloc_node_def xmalloc_def to_int_def split: if_splits\<close>)

lemma alloc_grow_ok:
  assumes L: "libc_ok L" and ok: "alloc_ok alc h" and n: "new_alloc_node L m h = Some (node, h')"
  shows "alloc_ok \<lparr>alloc_first_free = length (alloc_nodes alc), alloc_nodes = alloc_nodes alc @ [node]\<rparr> h'"
    "alloc_used \<lparr>alloc_first_free = length (alloc_nodes alc), alloc_nodes = alloc_nodes alc @ [node]\<rparr> = alloc_used alc"
    "alloc_span \<lparr>alloc_first_free = length (alloc_nodes alc), alloc_nodes = alloc_nodes alc @ [node]\<rparr> =
      alloc_span alc \<union> {an_pool node..<an_pool node + m}"
    "{an_pool node..<an_pool node + m} \<inter> block_bytes h = {}"
proof -
  note nn = new_alloc_node_ok [OF L n]
  let ?ns = "alloc_nodes alc"
  show "{an_pool node..<an_pool node + m} \<inter> block_bytes h = {}"
    using nn(6) unfolding block_bytes_def apart_def by fastforce
  have sep: "apart (an_pool node) m (an_pool (?ns ! i)) (an_pool_size (?ns ! i))" if "i < length ?ns" for i
    by (rule nn(6) [OF alloc_okD(1) [OF ok that]])
  then have sep': "apart (an_pool (?ns ! i)) (an_pool_size (?ns ! i)) (an_pool node) m" if "i < length ?ns" for i
    using that by (auto simp: apart_def)
  have "apart (an_pool ((?ns @ [node]) ! i)) (an_pool_size ((?ns @ [node]) ! i))
      (an_pool ((?ns @ [node]) ! j)) (an_pool_size ((?ns @ [node]) ! j))"
    if "i < length ?ns + 1" "j < length ?ns + 1" "i \<noteq> j" for i j
  proof (cases "i < length ?ns \<and> j < length ?ns")
    case True
    then show ?thesis using ok that(3) by (simp add: alloc_ok_def nth_append)
  next
    case False
    then have "i = length ?ns \<and> j < length ?ns \<or> j = length ?ns \<and> i < length ?ns" using that by linarith
    then show ?thesis using sep sep' nn(1) by (auto simp: nth_append)
  qed
  moreover have "(an_pool nd, an_pool_size nd) \<in> set (mem_blocks h') \<and> an_pool_free nd \<le> an_pool_size nd"
    if "nd \<in> set (?ns @ [node])" for nd
    using that ok nn(1-4) unfolding alloc_ok_def by auto
  ultimately show "alloc_ok \<lparr>alloc_first_free = length ?ns, alloc_nodes = ?ns @ [node]\<rparr> h'"
    by (simp add: alloc_ok_def)
  have u: "(\<Union>i < length ?ns + 1. f ((?ns @ [node]) ! i)) = (\<Union>i < length ?ns. f (?ns ! i)) \<union> f node" for f :: "_ \<Rightarrow> addr set"
  proof -
    have "{..<length ?ns + 1} = insert (length ?ns) {..<length ?ns}" by auto
    moreover have "(\<Union>i < length ?ns. f ((?ns @ [node]) ! i)) = (\<Union>i < length ?ns. f (?ns ! i))"
      by (rule SUP_cong) (simp_all add: nth_append)
    ultimately show ?thesis by auto
  qed
  show "alloc_used \<lparr>alloc_first_free = length ?ns, alloc_nodes = ?ns @ [node]\<rparr> = alloc_used alc"
    "alloc_span \<lparr>alloc_first_free = length ?ns, alloc_nodes = ?ns @ [node]\<rparr> = alloc_span alc \<union> {an_pool node..<an_pool node + m}"
    using u [of "\<lambda>nd. {an_pool nd..<an_pool nd + an_pool_free nd}"] u [of "\<lambda>nd. {an_pool nd..<an_pool nd + an_pool_size nd}"] nn(1,2)
    by (simp_all add: alloc_used_def alloc_span_def)
qed

lemma alloc_result:
  assumes L: "libc_ok L" and a: "alloc L alc n h = Some (a, alc', h')" and ok: "alloc_ok alc h"
  shows "alloc_ok alc' h' \<and> alloc_used alc' = alloc_used alc \<union> {a..<a + n} \<and> alloc_used alc \<inter> {a..<a + n} = {} \<and>
    alloc_span alc \<subseteq> alloc_span alc' \<and> (alloc_span alc' - alloc_span alc) \<inter> block_bytes h = {}"
proof (cases "an_pool_free (alloc_nodes alc ! alloc_first_free alc) + n \<le> an_pool_size (alloc_nodes alc ! alloc_first_free alc)")
  case True
  then have t: "take_bytes n alc = Some (a, alc')" "h' = h" using a by (auto simp: alloc_def)
  show ?thesis using take_bytes_ok [OF ok t(1) True] t(2) by auto
next
  case False
  then obtain twice node alc1 where n: "new_alloc_node L (if n < twice then twice else n) h = Some (node, h')"
    and t: "take_bytes n alc1 = Some (a, alc')"
    and 1: "alc1 = \<lparr>alloc_first_free = length (alloc_nodes alc), alloc_nodes = alloc_nodes alc @ [node]\<rparr>"
    using a by (auto simp: alloc_def Let_def)
  note g = alloc_grow_ok [OF L ok n, folded 1]
  have "an_pool_free (alloc_nodes alc1 ! alloc_first_free alc1) + n \<le> an_pool_size (alloc_nodes alc1 ! alloc_first_free alc1)"
    using new_alloc_node_ok(1,2) [OF L n] by (simp add: 1)
  note k = take_bytes_ok [OF g(1) t this]
  show ?thesis using k g(2-4) by auto
qed

lemma alloc_heap: "alloc L alc n h = Some (a, alc', h') \<Longrightarrow> chars h' = chars h \<and> set (mem_blocks h) \<subseteq> set (mem_blocks h')"
  by (auto simp: alloc_def new_alloc_node_def xmalloc_def to_int_def Let_def split: if_splits)

lemma alloc_used_span: "alloc_ok alc h \<Longrightarrow> alloc_used alc \<subseteq> alloc_span alc"
  using alloc_okD(2) unfolding alloc_used_def alloc_span_def by fastforce

lemma alloc_span_blocks: "alloc_ok alc h \<Longrightarrow> alloc_span alc \<subseteq> block_bytes h"
  using alloc_okD(1) unfolding block_bytes_def alloc_span_def by blast

lemma alloc_ok_blocks: "alloc_ok alc h \<Longrightarrow> set (mem_blocks h) \<subseteq> set (mem_blocks h') \<Longrightarrow> alloc_ok alc h'"
  unfolding alloc_ok_def by blast

interpretation buf: buffer "alloc L" "\<lambda>alc h. libc_ok L \<and> alloc_ok alc h" alloc_used alloc_span for L
proof (unfold_locales, goal_cases)
  case (1 b n h a b' h') then show ?case using alloc_result [of L b n h a b' h'] by blast
next
  case (2 b n h a b' h') then show ?case using alloc_result [of L b n h a b' h'] by blast
next
  case (3 b n h a b' h') then show ?case using alloc_result [of L b n h a b' h'] by blast
next
  case (4 b n h a b' h') then show ?case by (rule alloc_heap)
next
  case (5 b n h a b' h') then show ?case using alloc_result [of L b n h a b' h'] by blast
next
  case (6 b h) then show ?case using alloc_used_span by blast
next
  case (7 b h) then show ?case using alloc_span_blocks by blast
next
  case (8 b h h') then show ?case using alloc_ok_blocks by blast
qed

subsection \<open>The string table\<close>

text \<open>
  \<open>C i\<close> is the list of bucket \<open>i\<close>: the indices of its nodes, each with its string.
\<close>

type_synonym buckets = "nat \<Rightarrow> (nat \<times> string) list"

definition bucket :: "strtab_t \<Rightarrow> string \<Rightarrow> nat" where
  "bucket t s = unat (fnv_hash s AND of_nat (hash_size t - 1))"

fun linked_nodes :: "strtab_t \<Rightarrow> (nat \<times> string) list \<Rightarrow> hash_ptr option \<Rightarrow> bool" where
  "linked_nodes t [] p \<longleftrightarrow> p = None"
| "linked_nodes t ((j, s) # es) p \<longleftrightarrow>
     p = Some (hashtab_at t, j) \<and> j < length (hashtab t) \<and> linked_nodes t es (hn_next (hashtab t ! j))"

definition good_str :: "string \<Rightarrow> bool" where
  "good_str s \<longleftrightarrow> fnv_hash s \<noteq> 0 \<and> CHR 0x00 \<notin> set s"

definition entry_ok :: "strtab_t \<Rightarrow> heap_t \<Rightarrow> nat \<Rightarrow> string \<Rightarrow> bool" where
  "entry_ok t h j s \<longleftrightarrow>
     (let nd = hashtab t ! j in
      j < length (hashtab t) \<and> hn_hash nd = fnv_hash s \<and> good_str s \<and> str_at (chars h) (hn_str nd) s \<and>
      {hn_str nd..hn_str nd + length s} \<subseteq> alloc_used (strbuf t) \<and>
      {hn_data nd..<hn_data nd + data_size t} \<subseteq> alloc_used (databuf t))"

definition entries :: "strtab_t \<Rightarrow> buckets \<Rightarrow> (nat \<times> string) set" where
  "entries t C = (\<Union>i < hash_size t. set (C i))"

definition data_bytes :: "strtab_t \<Rightarrow> nat \<Rightarrow> addr set" where
  "data_bytes t j = {hn_data (hashtab t ! j)..<hn_data (hashtab t ! j) + data_size t}"

definition strtab_ok :: "libc_t \<Rightarrow> strtab_t \<Rightarrow> heap_t \<Rightarrow> buckets \<Rightarrow> bool" where
  "strtab_ok L t h C \<longleftrightarrow>
     libc_ok L \<and> alloc_ok (strbuf t) h \<and> alloc_ok (databuf t) h \<and> alloc_span (strbuf t) \<inter> alloc_span (databuf t) = {} \<and>
     (\<exists>k. hash_size t = 2 ^ k) \<and> hash_size t \<le> length (hashtab t) \<and>
     (\<forall>i < hash_size t. if C i = [] then hn_hash (hashtab t ! i) = 0 else linked_nodes t (C i) (Some (hashtab_at t, i))) \<and>
     (\<forall>i < hash_size t. distinct (map fst (C i)) \<and>
        (\<forall>(j, s) \<in> set (C i). entry_ok t h j s \<and> bucket t s = i \<and> (j < hash_size t \<longrightarrow> j = i))) \<and>
     (\<forall>(j, s) \<in> entries t C. \<forall>(j', s') \<in> entries t C. (j = j' \<longleftrightarrow> s = s') \<and>
        (j \<noteq> j' \<longrightarrow> data_bytes t j \<inter> data_bytes t j' = {}))"

definition holds :: "strtab_t \<Rightarrow> buckets \<Rightarrow> string \<Rightarrow> addr \<Rightarrow> addr \<Rightarrow> bool" where
  "holds t C s a d \<longleftrightarrow> (\<exists>j. (j, s) \<in> entries t C \<and> hn_str (hashtab t ! j) = a \<and> hn_data (hashtab t ! j) = d)"

lemma bucket_less: "hash_size t = 2 ^ k \<Longrightarrow> bucket t s < hash_size t"
proof -
  assume k: "hash_size t = 2 ^ k"
  have "of_nat (2 ^ k - 1) = (mask k :: u32)" by (simp add: mask_eq_exp_minus_1 of_nat_diff)
  then have "bucket t s = unat (take_bit k (fnv_hash s))" by (simp add: bucket_def k take_bit_eq_mask)
  also have "\<dots> = take_bit k (unat (fnv_hash s))" by (rule unsigned_take_bit_eq)
  finally show ?thesis using k by (simp add: take_bit_eq_mod)
qed

lemma linked_nodes_cong:
  assumes "linked_nodes t es p" "hashtab_at t' = hashtab_at t" "length (hashtab t) \<le> length (hashtab t')"
    "\<And>j. j \<in> fst ` set es \<Longrightarrow> hn_next (hashtab t' ! j) = hn_next (hashtab t ! j)"
  shows "linked_nodes t' es p"
  using assms by (induction t es p rule: linked_nodes.induct) auto

lemma linked_nodes_snoc:
  assumes "linked_nodes t es p" "es \<noteq> []" "hashtab_at t' = hashtab_at t" "length (hashtab t) \<le> length (hashtab t')"
    "distinct (map fst es)" "j < length (hashtab t')" "hn_next (hashtab t' ! j) = None"
    "\<And>i. i \<in> fst ` set es \<Longrightarrow> hn_next (hashtab t' ! i) = (if i = fst (last es) then Some (hashtab_at t, j) else hn_next (hashtab t ! i))"
  shows "linked_nodes t' (es @ [(j, s)]) p"
  using assms
proof (induction es arbitrary: p)
  case (Cons e es)
  obtain i s' where e: "e = (i, s')" by (cases e)
  show ?case
  proof (cases "es = []")
    case False
    then have l: "last (e # es) = last es" "i \<noteq> fst (last es)" using Cons.prems(5) by (auto simp: e rev_image_eqI)
    have "linked_nodes t' (es @ [(j, s)]) (hn_next (hashtab t ! i))"
      using Cons.prems l False by (intro Cons.IH) (auto simp: e)
    then show ?thesis using Cons.prems(1,3,4) Cons.prems(8) [of i] l by (simp add: e)
  qed (use Cons.prems(1,3,4,6,7) Cons.prems(8) [of i] in \<open>simp add: e\<close>)
qed simp

lemma find_str_linked:
  assumes "linked_nodes t es (Some p)" "\<forall>(j, s') \<in> set es. entry_ok t h j s'" "good_str s"
  shows "(j, s) \<in> set es \<Longrightarrow> (\<And>j'. (j', s) \<in> set es \<Longrightarrow> j' = j) \<Longrightarrow> find_str t (chars h) (fnv_hash s) s p = Some (Inl (hashtab t ! j))"
    and "s \<notin> snd ` set es \<Longrightarrow> find_str t (chars h) (fnv_hash s) s p = Some (Inr (hashtab_at t, fst (last es)))"
proof -
  have "(\<forall>j. (j, s) \<in> set es \<and> (\<forall>j'. (j', s) \<in> set es \<longrightarrow> j' = j) \<longrightarrow>
         find_str t (chars h) (fnv_hash s) s p = Some (Inl (hashtab t ! j))) \<and>
      (s \<notin> snd ` set es \<longrightarrow> find_str t (chars h) (fnv_hash s) s p = Some (Inr (hashtab_at t, fst (last es))))"
    using assms
  proof (induction es arbitrary: p)
    case (Cons e es)
    obtain i s' where e: "e = (i, s')" by (cases e)
    have p: "p = (hashtab_at t, i)" "i < length (hashtab t)" "linked_nodes t es (hn_next (hashtab t ! i))"
      using Cons.prems(1) by (simp_all add: e)
    have ok: "entry_ok t h i s'" using Cons.prems(2) by (simp add: e)
    have m: "hn_hash (hashtab t ! i) = fnv_hash s \<and> str_at (chars h) (hn_str (hashtab t ! i)) s \<longleftrightarrow> s' = s"
      using ok str_at_unique Cons.prems(3) by (auto simp: entry_ok_def Let_def good_str_def)
    show ?case
    proof (cases "s' = s")
      case True
      have "find_str t (chars h) (fnv_hash s) s p = Some (Inl (hashtab t ! i))"
        using m True p by (subst find_str.simps) (simp add: hash_node_def)
      then show ?thesis using True by (auto simp: e)
    next
      case False
      show ?thesis
      proof (cases "hn_next (hashtab t ! i)")
        case None
        then have "es = []" using p(3) by (cases es) auto
        moreover have "find_str t (chars h) (fnv_hash s) s p = Some (Inr p)"
          using m False p None by (subst find_str.simps) (simp add: hash_node_def)
        ultimately show ?thesis using False p by (auto simp: e)
      next
        case (Some q)
        then have "es \<noteq> []" using p(3) by (cases es) auto
        moreover have "find_str t (chars h) (fnv_hash s) s p = find_str t (chars h) (fnv_hash s) s q"
          using m False p Some by (subst find_str.simps) (auto simp: hash_node_def)
        moreover note Cons.IH [of q]
        ultimately show ?thesis using False p(3) Some Cons.prems(2,3) by (auto simp: e)
      qed
    qed
  qed simp
  then show "(j, s) \<in> set es \<Longrightarrow> (\<And>j'. (j', s) \<in> set es \<Longrightarrow> j' = j) \<Longrightarrow> find_str t (chars h) (fnv_hash s) s p = Some (Inl (hashtab t ! j))"
    "s \<notin> snd ` set es \<Longrightarrow> find_str t (chars h) (fnv_hash s) s p = Some (Inr (hashtab_at t, fst (last es)))"
    by blast+
qed

lemma fill_hash_node_ok:
  assumes L: "libc_ok L" and sb: "alloc_ok (strbuf t) h" and db: "alloc_ok (databuf t) h"
    and sp: "alloc_span (strbuf t) \<inter> alloc_span (databuf t) = {}"
    and f: "fill_hash_node L (p, j) (fnv_hash s) s t h = Some (r, t', h')" and s: "good_str s"
  shows "\<exists>a d. r = (True, a, d) \<and> p = hashtab_at t \<and> j < length (hashtab t) \<and>
      hashtab t' = (hashtab t)[j := \<lparr>hn_hash = fnv_hash s, hn_str = a, hn_data = d, hn_next = None\<rparr>] \<and>
      {d..<d + data_size t} \<inter> alloc_used (databuf t) = {}"
    and "hashtab_at t' = hashtab_at t" "hash_size t' = hash_size t" "hash_nodes_size t' = hash_nodes_size t" "data_size t' = data_size t"
    and "alloc_ok (strbuf t') h'" "alloc_ok (databuf t') h'" "alloc_span (strbuf t') \<inter> alloc_span (databuf t') = {}"
    and "entry_ok t' h' j s" and "\<And>i s'. entry_ok t h i s' \<Longrightarrow> i \<noteq> j \<Longrightarrow> entry_ok t' h' i s'"
proof -
  obtain a sb' h1 d db' where 1: "alloc L (strbuf t) (length s + 1) h = Some (a, sb', h1)"
    and 2: "alloc L (databuf t) (data_size t) (h1\<lparr>chars := copy_chars s a (chars h1)\<rparr>) = Some (d, db', h')"
    and j: "p = hashtab_at t" "j < length (hashtab t)" and r: "r = (True, a, d)"
    and t': "t' = t\<lparr>hashtab := (hashtab t)[j := \<lparr>hn_hash = fnv_hash s, hn_str = a, hn_data = d, hn_next = None\<rparr>],
        strbuf := sb', databuf := db'\<rparr>"
    using f by (auto simp: fill_hash_node_def set_hash_node_def hash_node_def Let_def split: if_splits)
  let ?h2 = "h1\<lparr>chars := copy_chars s a (chars h1)\<rparr>"
  have sb0: "libc_ok L \<and> alloc_ok (strbuf t) h" and db0: "libc_ok L \<and> alloc_ok (databuf t) h" using L sb db by auto
  have sub1: "set (mem_blocks h) \<subseteq> set (mem_blocks ?h2)" using buf.get_heap [OF 1] by simp
  have db2: "libc_ok L \<and> alloc_ok (databuf t) ?h2" by (rule buf.ok_blocks [OF db0 sub1])
  have sb1: "libc_ok L \<and> alloc_ok sb' h1" by (rule buf.get_ok [OF 1 sb0])
  have sb2: "libc_ok L \<and> alloc_ok sb' ?h2" by (rule buf.ok_blocks [OF sb1]) simp
  have ch: "chars h' = copy_chars s a (chars h1)" "set (mem_blocks ?h2) \<subseteq> set (mem_blocks h')" using buf.get_heap [OF 2] by simp_all
  show "hashtab_at t' = hashtab_at t" "hash_size t' = hash_size t" "hash_nodes_size t' = hash_nodes_size t" "data_size t' = data_size t"
    by (simp_all add: t')
  show "alloc_ok (strbuf t') h'" using buf.ok_blocks [OF sb2 ch(2)] by (simp add: t')
  show "alloc_ok (databuf t') h'" using buf.get_ok [OF 2 db2] by (simp add: t')
  have "alloc_span (databuf t) \<inter> alloc_span sb' = {}"
    using buf.others_apart [OF 1 sb0 _ alloc_span_blocks [OF db]] sp by blast
  then have "alloc_span sb' \<inter> alloc_span db' = {}"
    using buf.others_apart [OF 2 db2 _ alloc_span_blocks, of sb'] sb2 by blast
  then show "alloc_span (strbuf t') \<inter> alloc_span (databuf t') = {}" by (simp add: t')
  note us = buf.get_used [OF 1 sb0] and ud = buf.get_used [OF 2 db2]
  have "{d..<d + data_size t} \<inter> alloc_used (databuf t) = {}" using buf.get_fresh [OF 2 db2] by blast
  then show "\<exists>a d. r = (True, a, d) \<and> p = hashtab_at t \<and> j < length (hashtab t) \<and>
      hashtab t' = (hashtab t)[j := \<lparr>hn_hash = fnv_hash s, hn_str = a, hn_data = d, hn_next = None\<rparr>] \<and>
      {d..<d + data_size t} \<inter> alloc_used (databuf t) = {}"
    using r j by (simp add: t')
  show "entry_ok t' h' j s"
    using j s us ud str_at_copy by (auto simp: entry_ok_def t' ch)
  fix i s' assume e: "entry_ok t h i s'" and ij: "i \<noteq> j"
  have u: "{hn_str (hashtab t ! i)..hn_str (hashtab t ! i) + length s'} \<subseteq> alloc_used (strbuf t)"
    "{hn_data (hashtab t ! i)..<hn_data (hashtab t ! i) + data_size t} \<subseteq> alloc_used (databuf t)"
    "str_at (chars h) (hn_str (hashtab t ! i)) s'"
    using e unfolding entry_ok_def Let_def by blast+
  have "str_at (chars h') (hn_str (hashtab t ! i)) s'"
    using buf.strings_kept [OF 1 sb0 u(1)] u(3) by (simp add: ch)
  then show "entry_ok t' h' i s'"
    using e ij us ud u(1,2) unfolding entry_ok_def Let_def by (auto simp: t')
qed

lemma strtab_okD:
  assumes "strtab_ok L t h C"
  shows "libc_ok L" "alloc_ok (strbuf t) h" "alloc_ok (databuf t) h" "alloc_span (strbuf t) \<inter> alloc_span (databuf t) = {}"
    "\<exists>k. hash_size t = 2 ^ k" "hash_size t \<le> length (hashtab t)"
    "\<And>i. i < hash_size t \<Longrightarrow> C i = [] \<Longrightarrow> hn_hash (hashtab t ! i) = 0"
    "\<And>i. i < hash_size t \<Longrightarrow> C i \<noteq> [] \<Longrightarrow> linked_nodes t (C i) (Some (hashtab_at t, i))"
    "\<And>i. i < hash_size t \<Longrightarrow> distinct (map fst (C i))"
    "\<And>i j s. i < hash_size t \<Longrightarrow> (j, s) \<in> set (C i) \<Longrightarrow> entry_ok t h j s \<and> bucket t s = i \<and> (j < hash_size t \<longrightarrow> j = i)"
    "\<And>j s j' s'. (j, s) \<in> entries t C \<Longrightarrow> (j', s') \<in> entries t C \<Longrightarrow> j = j' \<longleftrightarrow> s = s'"
    "\<And>j s j' s'. (j, s) \<in> entries t C \<Longrightarrow> (j', s') \<in> entries t C \<Longrightarrow> j \<noteq> j' \<Longrightarrow> data_bytes t j \<inter> data_bytes t j' = {}"
proof -
  show "C i = [] \<Longrightarrow> hn_hash (hashtab t ! i) = 0" "C i \<noteq> [] \<Longrightarrow> linked_nodes t (C i) (Some (hashtab_at t, i))"
    if "i < hash_size t" for i
    using assms that unfolding strtab_ok_def by presburger+
  have "\<forall>i < hash_size t. distinct (map fst (C i)) \<and>
      (\<forall>(j, s) \<in> set (C i). entry_ok t h j s \<and> bucket t s = i \<and> (j < hash_size t \<longrightarrow> j = i))"
    using assms unfolding strtab_ok_def by (elim conjE)
  then show "distinct (map fst (C i))"
    "(j, s) \<in> set (C i) \<Longrightarrow> entry_ok t h j s \<and> bucket t s = i \<and> (j < hash_size t \<longrightarrow> j = i)"
    if "i < hash_size t" for i j s
    using that by auto
  have "\<forall>(j, s) \<in> entries t C. \<forall>(j', s') \<in> entries t C. (j = j' \<longleftrightarrow> s = s') \<and>
      (j \<noteq> j' \<longrightarrow> data_bytes t j \<inter> data_bytes t j' = {})"
    using assms unfolding strtab_ok_def by (elim conjE)
  then show "j = j' \<longleftrightarrow> s = s'" "j \<noteq> j' \<Longrightarrow> data_bytes t j \<inter> data_bytes t j' = {}"
    if "(j, s) \<in> entries t C" "(j', s') \<in> entries t C" for j s j' s'
    using that by blast+
  have "libc_ok L \<and> alloc_ok (strbuf t) h \<and> alloc_ok (databuf t) h \<and> alloc_span (strbuf t) \<inter> alloc_span (databuf t) = {} \<and>
    (\<exists>k. hash_size t = 2 ^ k) \<and> hash_size t \<le> length (hashtab t)"
    using assms unfolding strtab_ok_def by (elim conjE, intro conjI)
  then show "libc_ok L" "alloc_ok (strbuf t) h" "alloc_ok (databuf t) h" "alloc_span (strbuf t) \<inter> alloc_span (databuf t) = {}"
    "\<exists>k. hash_size t = 2 ^ k" "hash_size t \<le> length (hashtab t)"
    by simp_all
qed

lemma entries_iff: "(j, s) \<in> entries t C \<longleftrightarrow> (\<exists>i < hash_size t. (j, s) \<in> set (C i))"
  by (auto simp: entries_def)

lemma add_entry:
  assumes ok: "strtab_ok L t h C" and s: "good_str s" and new: "\<And>j'. (j', s) \<notin> entries t C"
    and i: "i = bucket t s" and C: "C' = C(i := C i @ [(j, s)])"
    and jn: "\<And>s'. (j, s') \<notin> entries t C" "j < hash_size t \<longrightarrow> j = i"
    and f: "fill_hash_node L (p, j) (fnv_hash s) s t1 h = Some (r, t', h')"
    and t1: "hashtab_at t1 = hashtab_at t" "hash_size t1 = hash_size t" "data_size t1 = data_size t"
      "strbuf t1 = strbuf t" "databuf t1 = databuf t" "length (hashtab t) \<le> length (hashtab t1)"
    and nodes: "\<forall>k < length (hashtab t). k \<noteq> j \<longrightarrow> hashtab t1 ! k =
      (if C i \<noteq> [] \<and> k = fst (last (C i)) then (hashtab t ! k)\<lparr>hn_next := Some (hashtab_at t, j)\<rparr> else hashtab t ! k)"
    and head: "C i = [] \<longrightarrow> j = i"
  shows "strtab_ok L t' h' C'" "entries t' C' = insert (j, s) (entries t C)"
    "\<exists>a d. r = (True, a, d) \<and> hn_str (hashtab t' ! j) = a \<and> hn_data (hashtab t' ! j) = d"
    "\<And>k. k < length (hashtab t) \<Longrightarrow> k \<noteq> j \<Longrightarrow> hn_str (hashtab t' ! k) = hn_str (hashtab t ! k) \<and> hn_data (hashtab t' ! k) = hn_data (hashtab t ! k)"
    "length (hashtab t') = length (hashtab t1)"
proof -
  note k = strtab_okD [OF ok]
  have kf: "alloc_ok (strbuf t1) h" "alloc_ok (databuf t1) h" "alloc_span (strbuf t1) \<inter> alloc_span (databuf t1) = {}"
    using k(2-4) t1 by simp_all
  note F = fill_hash_node_ok [OF k(1) kf f s]
  obtain a d where r: "r = (True, a, d)" and j: "j < length (hashtab t1)"
    and tab: "hashtab t' = (hashtab t1)[j := \<lparr>hn_hash = fnv_hash s, hn_str = a, hn_data = d, hn_next = None\<rparr>]"
    and fresh: "{d..<d + data_size t} \<inter> alloc_used (databuf t) = {}"
    using F(1) t1 by auto
  have il: "i < hash_size t" using bucket_less k(5) i by blast
  have nj: "hashtab t' ! m = (if C i \<noteq> [] \<and> m = fst (last (C i)) then (hashtab t ! m)\<lparr>hn_next := Some (hashtab_at t, j)\<rparr> else hashtab t ! m)"
    if "m < length (hashtab t)" "m \<noteq> j" for m using nodes that tab by simp
  have hs: "hash_size t' = hash_size t" "data_size t' = data_size t" "hashtab_at t' = hashtab_at t" using F(2,3,5) t1 by simp_all
  show ent: "entries t' C' = insert (j, s) (entries t C)"
    using il by (auto simp: entries_def C hs split: if_splits)
  show "\<exists>a d. r = (True, a, d) \<and> hn_str (hashtab t' ! j) = a \<and> hn_data (hashtab t' ! j) = d"
    using r tab j by simp
  show keep: "hn_str (hashtab t' ! m) = hn_str (hashtab t ! m) \<and> hn_data (hashtab t' ! m) = hn_data (hashtab t ! m)"
    if "m < length (hashtab t)" "m \<noteq> j" for m using nj [OF that] by simp
  show len: "length (hashtab t') = length (hashtab t1)" by (simp add: tab)
  have eo: "entry_ok t h m s' \<and> m < length (hashtab t) \<and> m \<noteq> j \<and> entry_ok t' h' m s'" if m: "(m, s') \<in> entries t C" for m s'
  proof -
    have e: "entry_ok t h m s'" using m k(10) by (auto simp: entries_iff)
    then have ml: "m < length (hashtab t)" by (simp add: entry_ok_def Let_def)
    have mj: "m \<noteq> j" using m jn(1) by blast
    have "hn_hash (hashtab t1 ! m) = hn_hash (hashtab t ! m)" "hn_str (hashtab t1 ! m) = hn_str (hashtab t ! m)"
      "hn_data (hashtab t1 ! m) = hn_data (hashtab t ! m)" using nodes ml mj by simp_all
    then have "entry_ok t1 h m s'" using e t1 ml by (simp add: entry_ok_def Let_def)
    then show ?thesis using F(10) mj e ml by blast
  qed
  have bk: "bucket t' x = bucket t x" for x by (simp add: bucket_def hs)
  have A: "if C' m = [] then hn_hash (hashtab t' ! m) = 0 else linked_nodes t' (C' m) (Some (hashtab_at t', m))"
    if m: "m < hash_size t" for m
  proof (cases "m = i")
    case True
    show ?thesis
    proof (cases "C i = []")
      case True
      then show ?thesis using head j tab \<open>m = i\<close> F(2) t1 by (simp add: C)
    next
      case False
      have "linked_nodes t' (C i @ [(j, s)]) (Some (hashtab_at t, i))"
      proof (rule linked_nodes_snoc [OF k(8) [OF il False] False])
        fix m assume "m \<in> fst ` set (C i)"
        then obtain s' where "(m, s') \<in> set (C i)" by auto
        then have "(m, s') \<in> entries t C" using il by (auto simp: entries_iff)
        then have "m < length (hashtab t)" "m \<noteq> j" using eo by blast+
        then show "hn_next (hashtab t' ! m) = (if m = fst (last (C i)) then Some (hashtab_at t, j) else hn_next (hashtab t ! m))"
          using nj False by simp
      qed (use hs len t1 j tab k(9) [OF il] in simp_all)
      then show ?thesis using True by (simp add: C hs)
    qed
  next
    case False
    show ?thesis
    proof (cases "C m = []")
      case True
      have "m \<noteq> j" using jn(2) m False by auto
      moreover have "m \<noteq> fst (last (C i))" if c: "C i \<noteq> []"
      proof
        assume e: "m = fst (last (C i))"
        have "(m, snd (last (C i))) \<in> set (C i)" using c e by (metis last_in_set prod.collapse)
        then show False using k(10) [OF il] m False by blast
      qed
      ultimately have "hashtab t' ! m = hashtab t ! m" using nj [of m] m k(6) by auto
      then show ?thesis using k(7) [OF m True] True False by (simp add: C)
    next
      case c: False
      have "linked_nodes t' (C m) (Some (hashtab_at t, m))"
      proof (rule linked_nodes_cong [OF k(8) [OF m c]])
        fix x assume "x \<in> fst ` set (C m)"
        then obtain s' where xs: "(x, s') \<in> set (C m)" by auto
        then have x: "(x, s') \<in> entries t C" using m by (auto simp: entries_iff)
        have "x \<noteq> fst (last (C i))" if ci: "C i \<noteq> []"
        proof
          assume e: "x = fst (last (C i))"
          then have l: "(x, snd (last (C i))) \<in> set (C i)" using ci by (metis last_in_set prod.collapse)
          then have "(x, snd (last (C i))) \<in> entries t C" using il by (auto simp: entries_iff)
          then have "snd (last (C i)) = s'" using k(11) [OF x] by blast
          then have "(x, s') \<in> set (C i)" using l by simp
          then show False using k(10) [OF il] k(10) [OF m xs] False by blast
        qed
        then show "hn_next (hashtab t' ! x) = hn_next (hashtab t ! x)" using nj [of x] eo [OF x] by auto
      qed (use hs len t1 in simp_all)
      then show ?thesis using False c by (simp add: C hs)
    qed
  qed
  have B: "distinct (map fst (C' m)) \<and> (\<forall>(x, s') \<in> set (C' m). entry_ok t' h' x s' \<and> bucket t' s' = m \<and> (x < hash_size t \<longrightarrow> x = m))"
    if m: "m < hash_size t" for m
  proof -
    have old: "entry_ok t' h' x s' \<and> bucket t s' = m \<and> (x < hash_size t \<longrightarrow> x = m)" if "(x, s') \<in> set (C m)" for x s'
      using k(10) [OF m that] eo [of x s'] that m by (auto simp: entries_iff)
    have "distinct (map fst (C' m))"
      using k(9) [OF m] jn(1) il by (auto simp: C entries_iff)
    then show ?thesis using old F(9) i jn(2) by (auto simp: C bk)
  qed
  have dj: "data_bytes t' m = data_bytes t m" if "(m, s') \<in> entries t C" for m s'
    using keep eo [OF that] by (simp add: data_bytes_def hs)
  have dn: "data_bytes t' j \<inter> data_bytes t m = {}" if "(m, s') \<in> entries t C" for m s'
  proof -
    have "data_bytes t m \<subseteq> alloc_used (databuf t)" using eo [OF that] by (auto simp: entry_ok_def data_bytes_def Let_def)
    moreover have "data_bytes t' j = {d..<d + data_size t}" using tab j by (simp add: data_bytes_def hs)
    ultimately show ?thesis using fresh by blast
  qed
  have D: "(x = x' \<longleftrightarrow> s1 = s2) \<and> (x \<noteq> x' \<longrightarrow> data_bytes t' x \<inter> data_bytes t' x' = {})"
    if "(x, s1) \<in> entries t' C'" "(x', s2) \<in> entries t' C'" for x s1 x' s2
  proof (cases "x = j \<or> x' = j")
    case True
    then show ?thesis using that dn dj jn(1) new unfolding ent by (elim disjE insertE) (auto simp: Int_commute)
  next
    case False
    then have "(x, s1) \<in> entries t C" "(x', s2) \<in> entries t C" using that unfolding ent by auto
    then show ?thesis using k(11,12) dj by metis
  qed
  have D': "\<forall>(x, s1) \<in> entries t' C'. \<forall>(x', s2) \<in> entries t' C'. (x = x' \<longleftrightarrow> s1 = s2) \<and>
      (x \<noteq> x' \<longrightarrow> data_bytes t' x \<inter> data_bytes t' x' = {})"
    using D by blast
  have "\<forall>m < hash_size t'. if C' m = [] then hn_hash (hashtab t' ! m) = 0 else linked_nodes t' (C' m) (Some (hashtab_at t', m))"
    unfolding hs(1) using A by blast
  moreover have "\<forall>m < hash_size t'. distinct (map fst (C' m)) \<and>
      (\<forall>(x, s') \<in> set (C' m). entry_ok t' h' x s' \<and> bucket t' s' = m \<and> (x < hash_size t' \<longrightarrow> x = m))"
    "\<exists>k. hash_size t' = 2 ^ k" "hash_size t' \<le> length (hashtab t')" using B k(5,6) len t1 by (simp_all add: hs)
  ultimately show "strtab_ok L t' h' C'"
    unfolding strtab_ok_def using k(1) F(6-8) D' by (intro conjI)
qed

text \<open>One call of \<open>add_str\<close> with an unused node left.\<close>

lemma add_str_ok:
  assumes ok: "strtab_ok L t h C" and s: "good_str s" and room: "length (hashtab t) < hash_nodes_size t"
    and a: "add_str L t s h = Some ((b, a, d), t', h')"
  shows "\<exists>C'. strtab_ok L t' h' C' \<and> (b \<longleftrightarrow> s \<notin> snd ` entries t C) \<and> holds t' C' s a d \<and>
      (\<forall>s' a' d'. holds t C s' a' d' \<longrightarrow> holds t' C' s' a' d') \<and>
      snd ` entries t' C' = insert s (snd ` entries t C) \<and>
      length (hashtab t') \<le> length (hashtab t) + 1 \<and> hash_nodes_size t' = hash_nodes_size t \<and>
      hash_size t' = hash_size t \<and> data_size t' = data_size t"
proof -
  note k = strtab_okD [OF ok]
  let ?i = "bucket t s"
  have il: "?i < hash_size t" using bucket_less k(5) by blast
  then have hn: "hash_node t (hashtab_at t, ?i) = Some (hashtab t ! ?i)" using k(6) by (simp add: hash_node_def)
  have in_bucket: "(j, s') \<in> set (C ?i)" if "(j, s') \<in> entries t C" "s' = s" for j s'
    using that k(10) by (auto simp: entries_iff)
  have filled: ?thesis
    if new: "s \<notin> snd ` entries t C" and f: "fill_hash_node L (p, j) (fnv_hash s) s t1 h = Some ((b, a, d), t', h')"
      and t1: "hashtab_at t1 = hashtab_at t" "hash_size t1 = hash_size t" "data_size t1 = data_size t"
        "strbuf t1 = strbuf t" "databuf t1 = databuf t" "length (hashtab t) \<le> length (hashtab t1)"
      and z: "hash_nodes_size t1 = hash_nodes_size t" "length (hashtab t1) \<le> length (hashtab t) + 1"
      and jn: "\<And>s'. (j, s') \<notin> entries t C" "j < hash_size t \<longrightarrow> j = ?i"
      and nodes: "\<forall>k < length (hashtab t). k \<noteq> j \<longrightarrow> hashtab t1 ! k =
        (if C ?i \<noteq> [] \<and> k = fst (last (C ?i)) then (hashtab t ! k)\<lparr>hn_next := Some (hashtab_at t, j)\<rparr> else hashtab t ! k)"
      and head: "C ?i = [] \<longrightarrow> j = ?i" for p j t1
  proof -
    let ?C = "C(?i := C ?i @ [(j, s)])"
    have "\<And>j'. (j', s) \<notin> entries t C" using new by force
    note A = add_entry [OF ok s this refl refl jn f t1 nodes head]
    have kf: "alloc_ok (strbuf t1) h" "alloc_ok (databuf t1) h" "alloc_span (strbuf t1) \<inter> alloc_span (databuf t1) = {}"
      using k(2-4) t1 by simp_all
    note F = fill_hash_node_ok(2-5) [OF k(1) kf f s]
    have "holds t' ?C s' a' d'" if hd: "holds t C s' a' d'" for s' a' d'
    proof -
      obtain m where m: "(m, s') \<in> entries t C" "hn_str (hashtab t ! m) = a'" "hn_data (hashtab t ! m) = d'"
        using hd by (auto simp: holds_def)
      have "m < length (hashtab t)" using m(1) k(10) by (auto simp: entries_iff entry_ok_def Let_def)
      moreover have "m \<noteq> j" using m(1) jn(1) by blast
      ultimately show ?thesis using A(4) m unfolding holds_def A(2) by blast
    qed
    moreover have "holds t' ?C s a d" "b" using A(3) unfolding holds_def A(2) by auto
    moreover have "snd ` entries t' ?C = insert s (snd ` entries t C)" unfolding A(2) by simp
    ultimately show ?thesis using A(1,5) F z t1 new by (intro exI [of _ ?C]) auto
  qed
  show ?thesis
  proof (cases "C ?i = []")
    case True
    then have z: "hn_hash (hashtab t ! ?i) = 0" using k(7) [OF il] by simp
    then have f: "fill_hash_node L (hashtab_at t, ?i) (fnv_hash s) s t h = Some ((b, a, d), t', h')"
      using a hn by (simp add: add_str_def bucket_def Let_def)
    have new: "s \<notin> snd ` entries t C" using in_bucket True by force
    have "(?i, s') \<notin> entries t C" for s'
    proof
      assume "(?i, s') \<in> entries t C"
      then obtain m where m: "m < hash_size t" "(?i, s') \<in> set (C m)" by (auto simp: entries_iff)
      then have "?i = m" using k(10) [OF m] il by blast
      then show False using m(2) True by simp
    qed
    then show ?thesis using filled [OF new f] True by simp
  next
    case False
    have ln: "linked_nodes t (C ?i) (Some (hashtab_at t, ?i))" by (rule k(8) [OF il False])
    then obtain s0 es where c: "C ?i = (?i, s0) # es" using False by (cases "C ?i") auto
    have eo: "\<forall>(j, s') \<in> set (C ?i). entry_ok t h j s'" using k(10) [OF il] by blast
    have nz: "hn_hash (hashtab t ! ?i) \<noteq> 0" using eo c by (simp add: entry_ok_def good_str_def Let_def)
    note fs = find_str_linked [OF ln eo s]
    show ?thesis
    proof (cases "s \<in> snd ` set (C ?i)")
      case True
      then obtain j where j: "(j, s) \<in> set (C ?i)" by auto
      have je: "(j, s) \<in> entries t C" using j il by (auto simp: entries_iff)
      have "j' = j" if "(j', s) \<in> set (C ?i)" for j'
        using k(11) [of j' s j s] je that il by (auto simp: entries_iff)
      with fs(1) [OF j] have "find_str t (chars h) (fnv_hash s) s (hashtab_at t, ?i) = Some (Inl (hashtab t ! j))"
        by blast
      then have r: "b = False" "a = hn_str (hashtab t ! j)" "d = hn_data (hashtab t ! j)" "t' = t" "h' = h"
        using a hn nz by (auto simp: add_str_def bucket_def Let_def)
      have "holds t C s a d" using je r by (auto simp: holds_def)
      moreover have "s \<in> snd ` entries t C" using je by force
      ultimately show ?thesis using ok r by (intro exI [of _ C]) auto
    next
      case new: False
      let ?j = "length (hashtab t)" and ?l = "fst (last (C ?i))"
      have "find_str t (chars h) (fnv_hash s) s (hashtab_at t, ?i) = Some (Inr (hashtab_at t, ?l))" by (rule fs(2) [OF new])
      then obtain t1 where t1: "set_hash_node (hashtab_at t, ?l) (\<lambda>nd. nd\<lparr>hn_next := Some (hashtab_at t, ?j)\<rparr>)
            (t\<lparr>hashtab := hashtab t @ [zero_hash_node]\<rparr>) = Some t1"
        and f: "fill_hash_node L (hashtab_at t, ?j) (fnv_hash s) s t1 h = Some ((b, a, d), t', h')"
        using a hn nz room by (auto simp: add_str_def bucket_def new_hash_node_def Let_def)
      have "(?l, snd (last (C ?i))) \<in> set (C ?i)" using False by (metis last_in_set prod.collapse)
      then have ll: "?l < length (hashtab t)" using eo by (auto simp: entry_ok_def Let_def)
      have T: "t1 = t\<lparr>hashtab := (hashtab t @ [zero_hash_node])[?l := (hashtab t ! ?l)\<lparr>hn_next := Some (hashtab_at t, ?j)\<rparr>]\<rparr>"
        using t1 ll by (auto simp: set_hash_node_def hash_node_def nth_append)
      have nn: "s \<notin> snd ` entries t C" using in_bucket new by force
      have "(?j, s') \<notin> entries t C" for s' using k(10) by (auto simp: entries_iff entry_ok_def Let_def)
      moreover have "hashtab t1 ! m = (if C ?i \<noteq> [] \<and> m = ?l then (hashtab t ! m)\<lparr>hn_next := Some (hashtab_at t, ?j)\<rparr> else hashtab t ! m)"
        if "m < length (hashtab t)" for m using that False by (cases "m = ?l") (simp_all add: T nth_append)
      ultimately show ?thesis using k(6) False by (intro filled [OF nn f]) (simp_all add: T)
    qed
  qed
qed

subsection \<open>The table returns\<close>

definition left :: "alloc_t \<Rightarrow> nat" where
  \<comment> \<open>the bytes that are left in the last node of a buffer\<close>
  "left alc = (let node = alloc_nodes alc ! alloc_first_free alc in
     if int (an_pool_size node) < 0x80000000 then an_pool_size node - an_pool_free node else 0)"

lemma alloc_left:
  assumes ok: "alloc_ok alc h" and n: "n \<le> left alc" "0 < n"
  shows "\<exists>a alc'. alloc L alc n h = Some (a, alc', h) \<and> left alc' = left alc - n"
proof -
  let ?i = "alloc_first_free alc"
  let ?nd = "alloc_nodes alc ! ?i"
  have i: "?i < length (alloc_nodes alc)" using ok by (simp add: alloc_ok_def)
  have f: "int (an_pool_size ?nd) < 0x80000000" "an_pool_free ?nd + n \<le> an_pool_size ?nd"
    using n by (auto simp: left_def Let_def split: if_splits)
  then show ?thesis using i by (simp add: alloc_def take_bytes_def to_int_def left_def Let_def)
qed

lemma fill_returns:
  assumes "alloc_ok (strbuf t) h" "alloc_ok (databuf t) h" "length s + 1 \<le> left (strbuf t)" "data_size t \<le> left (databuf t)"
    "0 < data_size t" "j < length (hashtab t)"
  shows "\<exists>a d t' h'. fill_hash_node L (hashtab_at t, j) hash s t h = Some ((True, a, d), t', h') \<and>
    left (strbuf t') = left (strbuf t) - (length s + 1) \<and> left (databuf t') = left (databuf t) - data_size t"
proof -
  obtain a sb where 1: "alloc L (strbuf t) (length s + 1) h = Some (a, sb, h)" "left sb = left (strbuf t) - (length s + 1)"
    using alloc_left [OF assms(1,3), of L] by auto
  have "alloc_ok (databuf t) (h\<lparr>chars := copy_chars s a (chars h)\<rparr>)" using alloc_ok_blocks [OF assms(2)] by simp
  then obtain d db where 2: "alloc L (databuf t) (data_size t) (h\<lparr>chars := copy_chars s a (chars h)\<rparr>) =
      Some (d, db, h\<lparr>chars := copy_chars s a (chars h)\<rparr>)" "left db = left (databuf t) - data_size t"
    using alloc_left [OF _ assms(4,5)] by blast
  show ?thesis using 1 2 assms(6) by (simp add: fill_hash_node_def set_hash_node_def hash_node_def Let_def)
qed

lemma add_str_returns:
  assumes ok: "strtab_ok L t h C" and s: "good_str s" and room: "length (hashtab t) < hash_nodes_size t"
    and l: "length s + 1 \<le> left (strbuf t)" "data_size t \<le> left (databuf t)" "0 < data_size t"
  shows "\<exists>b a d t' h'. add_str L t s h = Some ((b, a, d), t', h') \<and>
    left (strbuf t) - (length s + 1) \<le> left (strbuf t') \<and> left (databuf t) - data_size t \<le> left (databuf t')"
proof -
  note k = strtab_okD [OF ok]
  let ?i = "bucket t s"
  have il: "?i < hash_size t" using bucket_less k(5) by blast
  then have hn: "hash_node t (hashtab_at t, ?i) = Some (hashtab t ! ?i)" using k(6) by (simp add: hash_node_def)
  show ?thesis
  proof (cases "hn_hash (hashtab t ! ?i) = 0")
    case True
    have "?i < length (hashtab t)" using il k(6) by simp
    then show ?thesis
      using fill_returns [OF k(2,3) l, of ?i L "fnv_hash s"] hn True by (auto simp: add_str_def bucket_def Let_def)
  next
    case nz: False
    then have ne: "C ?i \<noteq> []" using k(7) [OF il] by blast
    have ln: "linked_nodes t (C ?i) (Some (hashtab_at t, ?i))" by (rule k(8) [OF il ne])
    have eo: "\<forall>(j, s') \<in> set (C ?i). entry_ok t h j s'" using k(10) [OF il] by blast
    note fs = find_str_linked [OF ln eo s]
    show ?thesis
    proof (cases "s \<in> snd ` set (C ?i)")
      case True
      then obtain j where j: "(j, s) \<in> set (C ?i)" by auto
      then have je: "(j, s) \<in> entries t C" using il by (auto simp: entries_iff)
      have "j' = j" if "(j', s) \<in> set (C ?i)" for j'
        using k(11) [of j' s j s] je that il by (auto simp: entries_iff)
      with fs(1) [OF j] have "find_str t (chars h) (fnv_hash s) s (hashtab_at t, ?i) = Some (Inl (hashtab t ! j))" by blast
      then have "add_str L t s h = Some ((False, hn_str (hashtab t ! j), hn_data (hashtab t ! j)), t, h)"
        using hn nz by (simp add: add_str_def bucket_def Let_def)
      then show ?thesis by (metis diff_le_self)
    next
      case False
      let ?l = "fst (last (C ?i))"
      have f: "find_str t (chars h) (fnv_hash s) s (hashtab_at t, ?i) = Some (Inr (hashtab_at t, ?l))" by (rule fs(2) [OF False])
      have "last (C ?i) \<in> set (C ?i)" using ne by simp
      then have ll: "?l < length (hashtab t)" using eo by (auto simp: entry_ok_def Let_def case_prod_beta)
      let ?t = "t\<lparr>hashtab := (hashtab t @ [zero_hash_node])[?l := (hashtab t ! ?l)\<lparr>hn_next := Some (hashtab_at t, length (hashtab t))\<rparr>]\<rparr>"
      obtain a d t' h' where "fill_hash_node L (hashtab_at t, length (hashtab t)) (fnv_hash s) s ?t h = Some ((True, a, d), t', h')"
        "left (strbuf t') = left (strbuf t) - (length s + 1)" "left (databuf t') = left (databuf t) - data_size t"
        using fill_returns [of ?t h s "length (hashtab t)" L "fnv_hash s"] k(2,3) l by auto
      then show ?thesis
        using hn nz f room ll
        by (auto simp: add_str_def bucket_def new_hash_node_def set_hash_node_def hash_node_def nth_append Let_def)
    qed
  qed
qed

subsection \<open>A sequence of strings\<close>

fun add_strs :: "libc_t \<Rightarrow> strtab_t \<Rightarrow> string list \<Rightarrow> heap_t \<Rightarrow> ((bool \<times> addr \<times> addr) list \<times> strtab_t \<times> heap_t) option" where
  "add_strs L t [] h = Some ([], t, h)"
| "add_strs L t (s # ss) h = do {
     (r, t, h) \<leftarrow> add_str L t s h;
     (rs, t, h) \<leftarrow> add_strs L t ss h;
     Some (r # rs, t, h)
   }"

lemma add_strs_ok:
  assumes "strtab_ok L t h C" "\<forall>s \<in> set ss. good_str s" "length (hashtab t) + length ss \<le> hash_nodes_size t"
    "sum_list (map (\<lambda>s. length s + 1) ss) \<le> left (strbuf t)" "length ss * data_size t \<le> left (databuf t)" "0 < data_size t"
  shows "\<exists>rs t' h' C'. add_strs L t ss h = Some (rs, t', h') \<and> strtab_ok L t' h' C' \<and> data_size t' = data_size t \<and>
    (\<forall>s a d. holds t C s a d \<longrightarrow> holds t' C' s a d) \<and> length rs = length ss \<and>
    (\<forall>i < length ss. (fst (rs ! i) \<longleftrightarrow> ss ! i \<notin> set (take i ss) \<union> snd ` entries t C) \<and>
       holds t' C' (ss ! i) (fst (snd (rs ! i))) (snd (snd (rs ! i))))"
  using assms
proof (induction ss arbitrary: t h C)
  case (Cons s ss)
  have g: "good_str s" "length (hashtab t) < hash_nodes_size t" "length s + 1 \<le> left (strbuf t)" "data_size t \<le> left (databuf t)"
    using Cons.prems by simp_all
  obtain b a d t1 h1 where 1: "add_str L t s h = Some ((b, a, d), t1, h1)"
    and l: "left (strbuf t) - (length s + 1) \<le> left (strbuf t1)" "left (databuf t) - data_size t \<le> left (databuf t1)"
    using add_str_returns [OF Cons.prems(1) g Cons.prems(6)] by blast
  obtain C1 where C1: "strtab_ok L t1 h1 C1" "b \<longleftrightarrow> s \<notin> snd ` entries t C" "holds t1 C1 s a d"
    "\<forall>s' a' d'. holds t C s' a' d' \<longrightarrow> holds t1 C1 s' a' d'" "snd ` entries t1 C1 = insert s (snd ` entries t C)"
    "length (hashtab t1) \<le> length (hashtab t) + 1" "hash_nodes_size t1 = hash_nodes_size t" "data_size t1 = data_size t"
    using add_str_ok [OF Cons.prems(1) g(1,2) 1] by blast
  have "\<exists>rs t' h' C'. add_strs L t1 ss h1 = Some (rs, t', h') \<and> strtab_ok L t' h' C' \<and> data_size t' = data_size t1 \<and>
    (\<forall>s a d. holds t1 C1 s a d \<longrightarrow> holds t' C' s a d) \<and> length rs = length ss \<and>
    (\<forall>i < length ss. (fst (rs ! i) \<longleftrightarrow> ss ! i \<notin> set (take i ss) \<union> snd ` entries t1 C1) \<and>
       holds t' C' (ss ! i) (fst (snd (rs ! i))) (snd (snd (rs ! i))))"
    using Cons.prems l C1(6-8) by (intro Cons.IH [OF C1(1)]) auto
  then obtain rs t' h' C' where I: "add_strs L t1 ss h1 = Some (rs, t', h')" "strtab_ok L t' h' C'" "data_size t' = data_size t1"
    "\<forall>s a d. holds t1 C1 s a d \<longrightarrow> holds t' C' s a d" "length rs = length ss"
    "\<forall>i < length ss. (fst (rs ! i) \<longleftrightarrow> ss ! i \<notin> set (take i ss) \<union> snd ` entries t1 C1) \<and>
       holds t' C' (ss ! i) (fst (snd (rs ! i))) (snd (snd (rs ! i)))"
    by blast
  have "(fst (((b, a, d) # rs) ! i) \<longleftrightarrow> (s # ss) ! i \<notin> set (take i (s # ss)) \<union> snd ` entries t C) \<and>
      holds t' C' ((s # ss) ! i) (fst (snd (((b, a, d) # rs) ! i))) (snd (snd (((b, a, d) # rs) ! i)))"
    if "i < length (s # ss)" for i
  proof (cases i)
    case 0
    then show ?thesis using C1(2,3) I(4) by simp
  next
    case (Suc n)
    then show ?thesis using I(6) that C1(5) by auto
  qed
  then show ?case using 1 I(1-5) C1(4,8)
    by (intro exI [of _ "(b, a, d) # rs"] exI [of _ t'] exI [of _ h'] exI [of _ C']) simp
qed auto

lemma count_bits_bound:
  "count_bits n k c = (k', c') \<Longrightarrow> k \<le> k' \<and> n < 2 ^ (k' - k) \<and> (c' \<longleftrightarrow> c \<or> 0 < n)"
proof (induction n k c rule: count_bits.induct)
  case (1 n k c)
  show ?case
  proof (cases "n = 0")
    case True
    then show ?thesis using "1.prems" by (auto simp: count_bits.simps [of 0])
  next
    case False
    have I: "k + 1 \<le> k'" "n div 2 < 2 ^ (k' - (k + 1))" "c' \<longleftrightarrow> (c \<or> odd n) \<or> 0 < n div 2"
      using "1.IH" [OF False] "1.prems" False by (auto simp: count_bits.simps [of n])
    have "k' - k = Suc (k' - (k + 1))" using I(1) by simp
    then have "n < 2 ^ (k' - k)" using I(2) by (simp only: power_Suc)
    moreover have "0 < n div 2 \<or> odd n" using False by (cases "n = 1") auto
    ultimately show ?thesis using I False by auto
  qed
qed

lemma new_alloc_ok:
  assumes L: "libc_ok L" and n: "new_alloc L n h = Some (alc, h')"
  shows "alloc_ok alc h'" "alloc_used alc = {}" "alloc_span alc \<inter> block_bytes h = {}" "set (mem_blocks h) \<subseteq> set (mem_blocks h')" "left alc = n"
proof -
  obtain node where nd: "new_alloc_node L n h = Some (node, h')" and alc: "alc = \<lparr>alloc_first_free = 0, alloc_nodes = [node]\<rparr>"
    using n by (auto simp: new_alloc_def)
  note f = new_alloc_node_ok [OF L nd]
  have "int n < 0x80000000" using nd by (auto simp: new_alloc_node_def to_int_def split: if_splits)
  then show "left alc = n" using f(1,2) by (simp add: left_def alc)
  show "alloc_ok alc h'" using f by (simp add: alloc_ok_def alc)
  show "alloc_used alc = {}" using f(2) by (simp add: alloc_used_def alc lessThan_Suc)
  show "set (mem_blocks h) \<subseteq> set (mem_blocks h')" by (rule f(4))
  have "alloc_span alc = {an_pool node..<an_pool node + n}" using f(1) by (simp add: alloc_span_def alc lessThan_Suc)
  then show "alloc_span alc \<inter> block_bytes h = {}" using f(6) unfolding block_bytes_def apart_def by fastforce
qed

lemma new_strtab_ok:
  assumes L: "libc_ok L" and n: "new_strtab L m n es h = Some (t, h')"
  shows "strtab_ok L t h' (\<lambda>i. [])" "left (strbuf t) = m" "left (databuf t) = n" "data_size t = es" "0 < es"
    "n div es \<le> hash_nodes_size t - length (hashtab t)" "length (hashtab t) \<le> hash_nodes_size t"
proof -
  obtain k c where b: "count_bits (n div es) 0 False = (k, c)" by fastforce
  define N where "N = (2::nat) ^ (k + (if c then 1 else 0))"
  obtain sb h1 db h2 a where 1: "new_alloc L m h = Some (sb, h1)" and 2: "new_alloc L n h1 = Some (db, h2)" and es: "0 < es"
    and x: "xmalloc L ((N + N div 2) * hash_node_bytes L) h2 = Some (a, h')"
    and t: "t = \<lparr>strbuf = sb, databuf = db, data_size = es, hash_size = N, hash_log = k + (if c then 1 else 0) - 1,
       hash_nodes_size = N + N div 2, hashtab_at = a, hashtab = replicate N zero_hash_node\<rparr>"
    using n by (auto simp: new_strtab_def b Let_def N_def)
  have h': "set (mem_blocks h2) \<subseteq> set (mem_blocks h')" using x by (auto simp: xmalloc_def)
  note s = new_alloc_ok [OF L 1] and d = new_alloc_ok [OF L 2]
  have "alloc_ok sb h'" "alloc_ok db h'"
    using alloc_ok_blocks [OF alloc_ok_blocks [OF s(1) d(4)] h'] alloc_ok_blocks [OF d(1) h'] by blast+
  moreover have "alloc_span sb \<inter> alloc_span db = {}" using d(3) alloc_span_blocks [OF s(1)] by blast
  ultimately show "strtab_ok L t h' (\<lambda>i. [])"
    using L by (auto simp: strtab_ok_def t N_def zero_hash_node_def entries_def)
  show "left (strbuf t) = m" "left (databuf t) = n" "data_size t = es" "0 < es" using s(5) d(5) es by (simp_all add: t Let_def)
  show "n div es \<le> hash_nodes_size t - length (hashtab t)"
  proof (cases "n div es = 0")
    case False
    then show ?thesis using count_bits_bound [OF b] by (simp add: t N_def)
  qed simp
  show "length (hashtab t) \<le> hash_nodes_size t" by (simp add: t Let_def)
qed

lemma holds_facts:
  assumes ok: "strtab_ok L t h C" and a: "holds t C s a d" and b: "holds t C s' a' d'"
  shows "str_at (chars h) a s" "s = s' \<Longrightarrow> a = a' \<and> d = d'" "s \<noteq> s' \<Longrightarrow> a \<noteq> a' \<and> {d..<d + data_size t} \<inter> {d'..<d' + data_size t} = {}"
proof -
  note k = strtab_okD [OF ok]
  obtain j where j: "(j, s) \<in> entries t C" "a = hn_str (hashtab t ! j)" "d = hn_data (hashtab t ! j)" using a by (auto simp: holds_def)
  obtain j' where j': "(j', s') \<in> entries t C" "a' = hn_str (hashtab t ! j')" "d' = hn_data (hashtab t ! j')" using b by (auto simp: holds_def)
  have e: "entry_ok t h j s" "entry_ok t h j' s'" using k(10) j(1) j'(1) by (auto simp: entries_iff)
  then show "str_at (chars h) a s" using j(2) by (simp add: entry_ok_def Let_def)
  show "a = a' \<and> d = d'" if "s = s'" using k(11) [OF j(1) j'(1)] that j j' by simp
  assume n: "s \<noteq> s'"
  then have "j \<noteq> j'" using k(11) [OF j(1) j'(1)] by simp
  then have "data_bytes t j \<inter> data_bytes t j' = {}" by (rule k(12) [OF j(1) j'(1)])
  moreover have "a \<noteq> a'"
    using e n str_at_unique j(2) j'(2) by (auto simp: entry_ok_def good_str_def Let_def)
  ultimately show "a \<noteq> a' \<and> {d..<d + data_size t} \<inter> {d'..<d' + data_size t} = {}" using j(3) j'(3) by (simp add: data_bytes_def)
qed

lemma buf_interns:
  assumes L: "libc_ok L" and n: "new_strtab L m n es h0 = Some (t0, h1)"
    and s: "\<forall>s \<in> set ss. fnv_hash s \<noteq> 0 \<and> CHR 0x00 \<notin> set s"
    and room: "length ss \<le> n div es" "sum_list (map (\<lambda>s. length s + 1) ss) \<le> m"
  shows "\<exists>rs t h. add_strs L t0 ss h1 = Some (rs, t, h) \<and> length rs = length ss \<and>
    (\<forall>i < length ss. fst (rs ! i) \<longleftrightarrow> ss ! i \<notin> set (take i ss)) \<and>
    (\<forall>i < length ss. str_at (chars h) (fst (snd (rs ! i))) (ss ! i)) \<and>
    (\<forall>i < length ss. \<forall>j < length ss. ss ! i = ss ! j \<longrightarrow> snd (rs ! i) = snd (rs ! j)) \<and>
    (\<forall>i < length ss. \<forall>j < length ss. ss ! i \<noteq> ss ! j \<longrightarrow> fst (snd (rs ! i)) \<noteq> fst (snd (rs ! j)) \<and>
       snd (snd (rs ! i)) \<noteq> snd (snd (rs ! j)) \<and>
       {snd (snd (rs ! i))..<snd (snd (rs ! i)) + es} \<inter> {snd (snd (rs ! j))..<snd (snd (rs ! j)) + es} = {})"
proof -
  note t0 = new_strtab_ok [OF L n]
  have g: "\<forall>s \<in> set ss. good_str s" using s by (simp add: good_str_def)
  have r: "length (hashtab t0) + length ss \<le> hash_nodes_size t0" using room(1) t0(6,7) by simp
  have "n div es * es \<le> n" by simp
  then have d: "length ss * data_size t0 \<le> left (databuf t0)"
    using room(1) t0(3,4) by (metis mult_le_mono1 order_trans)
  have c: "sum_list (map (\<lambda>s. length s + 1) ss) \<le> left (strbuf t0)" using room(2) t0(2) by simp
  obtain rs t h C where R: "add_strs L t0 ss h1 = Some (rs, t, h)" "strtab_ok L t h C" "data_size t = es" "length rs = length ss"
    "\<forall>i < length ss. (fst (rs ! i) \<longleftrightarrow> ss ! i \<notin> set (take i ss) \<union> snd ` entries t0 (\<lambda>i. [])) \<and>
       holds t C (ss ! i) (fst (snd (rs ! i))) (snd (snd (rs ! i)))"
    using add_strs_ok [OF t0(1) g r c d] t0(4,5) by auto
  note H = holds_facts [OF R(2)]
  have h: "holds t C (ss ! i) (fst (snd (rs ! i))) (snd (snd (rs ! i)))" if "i < length ss" for i using R(5) that by blast
  have "fst (rs ! i) \<longleftrightarrow> ss ! i \<notin> set (take i ss)" if "i < length ss" for i using R(5) that by (simp add: entries_def)
  moreover have "str_at (chars h) (fst (snd (rs ! i))) (ss ! i)" if "i < length ss" for i by (rule H(1) [OF h [OF that] h [OF that]])
  moreover have "snd (rs ! i) = snd (rs ! j)" if "i < length ss" "j < length ss" "ss ! i = ss ! j" for i j
    using H(2) [OF h [OF that(1)] h [OF that(2)] that(3)] by (simp add: prod_eq_iff)
  moreover have "fst (snd (rs ! i)) \<noteq> fst (snd (rs ! j)) \<and> snd (snd (rs ! i)) \<noteq> snd (snd (rs ! j)) \<and>
       {snd (snd (rs ! i))..<snd (snd (rs ! i)) + es} \<inter> {snd (snd (rs ! j))..<snd (snd (rs ! j)) + es} = {}"
    if "i < length ss" "j < length ss" "ss ! i \<noteq> ss ! j" for i j
    using H(3) [OF h [OF that(1)] h [OF that(2)] that(3)] R(3) t0(5) by auto
  ultimately show ?thesis using R(1,4) by blast
qed

text \<open>
  C12: a string table that \<open>new_strtab\<close> has made (its shift of an \<open>int\<close> is defined only for fewer than
  \<open>2^31\<close> buckets) keeps what \<open>mem.h\<close> promises, for strings whose hash value is not 0: as many strings and
  characters as it has been made for can be added.  A string is reported as new the first time only; equal strings get the same
  storage, different strings get different storage, whose data do not overlap; at the end, each
  string still stands at its address.
\<close>

theorem add_str_interns:
  assumes L: "libc_ok L" and n: "new_strtab L m n es h0 = Some (t0, h1)"
    and s: "\<forall>s \<in> set ss. fnv_hash s \<noteq> 0 \<and> CHR 0x00 \<notin> set s"
    and room: "length ss \<le> n div es" "sum_list (map (\<lambda>s. length s + 1) ss) \<le> m"
  shows "\<exists>rs t h. add_strs L t0 ss h1 = Some (rs, t, h) \<and> length rs = length ss \<and>
    (\<forall>i < length ss. fst (rs ! i) \<longleftrightarrow> ss ! i \<notin> set (take i ss)) \<and>
    (\<forall>i < length ss. str_at (chars h) (fst (snd (rs ! i))) (ss ! i)) \<and>
    (\<forall>i < length ss. \<forall>j < length ss. ss ! i = ss ! j \<longrightarrow> snd (rs ! i) = snd (rs ! j)) \<and>
    (\<forall>i < length ss. \<forall>j < length ss. ss ! i \<noteq> ss ! j \<longrightarrow> fst (snd (rs ! i)) \<noteq> fst (snd (rs ! j)) \<and>
       {snd (snd (rs ! i))..<snd (snd (rs ! i)) + es} \<inter> {snd (snd (rs ! j))..<snd (snd (rs ! j)) + es} = {})"
  using buf_interns [OF assms] by blast

theorem add_str_interns_witness:
  "\<exists>t0 h1 rs t h. new_strtab bump_libc 64 32 16 empty_heap = Some (t0, h1) \<and>
    add_strs bump_libc t0 [''xa'', ''xa''] h1 = Some (rs, t, h) \<and> fst (rs ! 0) \<and> \<not> fst (rs ! 1)"
proof -
  have "new_strtab bump_libc 64 32 16 empty_heap \<noteq> None" by code_simp
  then obtain t0 h1 where n: "new_strtab bump_libc 64 32 16 empty_heap = Some (t0, h1)" by auto
  have "fnv_hash ''xa'' \<noteq> 0" by code_simp
  then have s: "\<forall>s \<in> set [''xa'', ''xa'']. fnv_hash s \<noteq> 0 \<and> CHR 0x00 \<notin> set s" by simp
  have "length [''xa'', ''xa''] \<le> 32 div 16" "sum_list (map (\<lambda>s. length s + 1) [''xa'', ''xa'']) \<le> 64" by simp_all
  note I = add_str_interns [OF bump_libc_ok n s this]
  obtain rs t h where r: "add_strs bump_libc t0 [''xa'', ''xa''] h1 = Some (rs, t, h)"
    and i: "\<forall>i < length [''xa'', ''xa'']. fst (rs ! i) \<longleftrightarrow> [''xa'', ''xa''] ! i \<notin> set (take i [''xa'', ''xa''])"
    using I by meson
  have "fst (rs ! 0)" "\<not> fst (rs ! 1)" using i [rule_format, of 0] i [rule_format, of 1] by auto
  then show ?thesis using n r by blast
qed

text \<open>
  a string with the hash value 0 is not found again: the code takes a node with the hash 0 for an unused
  one, so that the string is added and reported as new each time.
\<close>

theorem add_str_zero_hash:
  assumes s: "fnv_hash s = 0" and e: "hash_node t (hashtab_at t, 0) = Some nd" "hn_hash nd = 0"
    and a: "add_strs L t [s, s] h = Some (rs, t', h')"
  shows "\<exists>r1 r2. rs = [(True, r1), (True, r2)]"
proof -
  have step: "b \<and> (\<exists>nd. hash_node t1 (hashtab_at t1, 0) = Some nd \<and> hn_hash nd = 0)"
    if "add_str L t s h = Some ((b, r), t1, h1)" "hash_node t (hashtab_at t, 0) = Some nd" "hn_hash nd = 0" for t h nd b r t1 h1
    using that s by (auto simp: add_str_def fill_hash_node_def set_hash_node_def hash_node_def Let_def split: if_splits)
  obtain b1 r1 t1 h1 b2 r2 h2 where 1: "add_str L t s h = Some ((b1, r1), t1, h1)" "add_str L t1 s h1 = Some ((b2, r2), t', h2)"
    "rs = [(b1, r1), (b2, r2)]"
    using a by auto
  then show ?thesis using step [OF 1(1) e] step [OF 1(2)] by auto
qed

theorem add_str_zero_hash_witness:
  "\<exists>t h rs t' h'. add_strs bump_libc t [''hIrjFj'', ''hIrjFj''] h = Some (rs, t', h') \<and> fst (rs ! 0) \<and> fst (rs ! 1)"
proof -
  have "do {
      (t, h) \<leftarrow> new_strtab bump_libc 64 32 16 empty_heap;
      (rs, t', h') \<leftarrow> add_strs bump_libc t [''hIrjFj'', ''hIrjFj''] h;
      nd \<leftarrow> hash_node t (hashtab_at t, 0);
      Some (hn_hash nd)
    } = Some 0" by code_simp
  then obtain t h rs t' h' nd where r: "add_strs bump_libc t [''hIrjFj'', ''hIrjFj''] h = Some (rs, t', h')"
    "hash_node t (hashtab_at t, 0) = Some nd" "hn_hash nd = 0"
    by (auto simp del: add_strs.simps)
  have "fnv_hash ''hIrjFj'' = 0" by code_simp
  then show ?thesis using add_str_zero_hash [OF _ r(2,3,1)] r(1) by fastforce
qed

text \<open>
  C29: when the array of hash nodes is full and \<open>realloc\<close> moves it, a new string whose bucket is in use is
  linked through a pointer into the old array: the code writes to memory that has been freed.
\<close>

theorem add_str_dangling:
  assumes "hash_node t (hashtab_at t, bucket t s) = Some nd" "hn_hash nd \<noteq> 0"
    and "find_str t (chars h) (fnv_hash s) s (hashtab_at t, bucket t s) = Some (Inr (hashtab_at t, i))"
    and "length (hashtab t) = hash_nodes_size t"
    and "c_realloc L (mem_blocks h) (hashtab_at t) (2 * hash_nodes_size t * hash_node_bytes L) = Some a" "a \<noteq> hashtab_at t"
  shows "add_str L t s h = None"
  using assms by (simp add: add_str_def bucket_def new_hash_node_def xrealloc_def set_hash_node_def hash_node_def Let_def)

theorem add_str_dangling_witness:
  "\<exists>t h. (\<exists>rs t0 h0. new_strtab bump_libc 64 16 16 empty_heap = Some (t0, h0) \<and>
      add_strs bump_libc t0 [''xa'', ''xe'', ''xi''] h0 = Some (rs, t, h)) \<and> add_str bump_libc t ''xm'' h = None"
proof -
  have "do {
      (t0, h0) \<leftarrow> new_strtab bump_libc 64 16 16 empty_heap;
      (rs, t, h) \<leftarrow> add_strs bump_libc t0 [''xa'', ''xe'', ''xi''] h0;
      nd \<leftarrow> hash_node t (hashtab_at t, bucket t ''xm'');
      r \<leftarrow> find_str t (chars h) (fnv_hash ''xm'') ''xm'' (hashtab_at t, bucket t ''xm'');
      a \<leftarrow> c_realloc bump_libc (mem_blocks h) (hashtab_at t) (2 * hash_nodes_size t * hash_node_bytes bump_libc);
      Some (hn_hash nd \<noteq> 0, r = Inr (hashtab_at t, 5), length (hashtab t) = hash_nodes_size t, a \<noteq> hashtab_at t)
    } = Some (True, True, True, True)" by code_simp
  then obtain t0 h0 rs t h nd r a where
    r: "new_strtab bump_libc 64 16 16 empty_heap = Some (t0, h0)" "add_strs bump_libc t0 [''xa'', ''xe'', ''xi''] h0 = Some (rs, t, h)"
    and d: "hash_node t (hashtab_at t, bucket t ''xm'') = Some nd" "hn_hash nd \<noteq> 0"
    "find_str t (chars h) (fnv_hash ''xm'') ''xm'' (hashtab_at t, bucket t ''xm'') = Some (Inr (hashtab_at t, 5))"
    "length (hashtab t) = hash_nodes_size t"
    "c_realloc bump_libc (mem_blocks h) (hashtab_at t) (2 * hash_nodes_size t * hash_node_bytes bump_libc) = Some a" "a \<noteq> hashtab_at t"
    by (auto simp del: add_strs.simps)
  show ?thesis using r add_str_dangling [OF d] by blast
qed

end
