(* ===== verification/Symtab.thy ===== *)
theory Symtab
  imports Mem_Strtab
begin

text \<open>
  The symbols of \<open>symtab.c\<close> are names: two calls of \<open>add_sym\<close> give the same pointer exactly if their
  names are equal.  The theories of the syntax tree use this, for them a symbol is its name.
\<close>

fun add_syms :: "libc_t \<Rightarrow> 'd symtab_t \<Rightarrow> string list \<Rightarrow> heap_t \<Rightarrow> (addr list \<times> 'd symtab_t \<times> heap_t) option" where
  "add_syms L st [] h = Some ([], st, h)"
| "add_syms L st (s # ss) h = do {
     (p, st, h) \<leftarrow> add_sym L st s h;
     (ps, st, h) \<leftarrow> add_syms L st ss h;
     Some (p # ps, st, h)
   }"

fun set_syms :: "(bool \<times> addr \<times> addr) list \<Rightarrow> (addr \<Rightarrow> 'd sym_t) \<Rightarrow> addr \<Rightarrow> 'd sym_t" where
  \<comment> \<open>the symbols after the results of \<open>add_str\<close>\<close>
  "set_syms [] f = f"
| "set_syms ((b, a, d) # rs) f = set_syms rs (if b then f(d := \<lparr>sym_str = a, sym_decl = None\<rparr>) else f)"

lemma add_syms_strs:
  "add_strs L (symtab st) ss h = Some (rs, t, h') \<Longrightarrow>
    add_syms L st ss h = Some (map (\<lambda>r. snd (snd r)) rs, \<lparr>symtab = t, sym_at = set_syms rs (sym_at st)\<rparr>, h')"
proof (induction ss arbitrary: st h rs)
  case (Cons s ss)
  obtain b a d t1 h1 rs' where 1: "add_str L (symtab st) s h = Some ((b, a, d), t1, h1)"
    "add_strs L t1 ss h1 = Some (rs', t, h')" "rs = (b, a, d) # rs'"
    using Cons.prems by auto
  let ?st = "if b then st\<lparr>symtab := t1, sym_at := (sym_at st)(d := \<lparr>sym_str = a, sym_decl = None\<rparr>)\<rparr> else st\<lparr>symtab := t1\<rparr>"
  have "add_sym L st s h = Some (d, ?st, h1)" using 1(1) by (simp add: add_sym_def Let_def)
  then show ?case using Cons.IH [of ?st h1 rs'] 1(2,3) by simp
qed simp

lemma set_syms_at:
  "(True, a, d) \<in> set rs \<or> f d = \<lparr>sym_str = a, sym_decl = None\<rparr> \<Longrightarrow>
    \<forall>(b, a', d') \<in> set rs. d' = d \<longrightarrow> a' = a \<Longrightarrow> set_syms rs f d = \<lparr>sym_str = a, sym_decl = None\<rparr>"
proof (induction rs f rule: set_syms.induct)
  case (2 b a' d' rs f)
  then show ?case by (cases "d' = d") auto
qed simp

lemma first_occurrence: "i < length ss \<Longrightarrow> \<exists>k \<le> i. ss ! k = ss ! i \<and> ss ! k \<notin> set (take k ss)"
proof (induction i rule: less_induct)
  case (less i)
  show ?case
  proof (cases "ss ! i \<in> set (take i ss)")
    case True
    then obtain j where j: "j < i" "ss ! j = ss ! i" using less.prems by (auto simp: in_set_conv_nth)
    then show ?thesis using less.IH [OF j(1)] less.prems by (metis le_trans less_imp_le less_trans)
  qed auto
qed

text \<open>
  C10: after \<open>symtab_init\<close>, up to 1024 names with together at most 8192 characters can be added.  Two names
  get the same symbol exactly if they are equal; the symbol has its name and, as long as nobody
  sets it, no declaration.  (No name may have the hash value 0.)
\<close>

theorem add_sym_names:
  assumes L: "libc_ok L" and i: "symtab_init L f h0 = Some (st0, h1)"
    and s: "\<forall>s \<in> set ss. fnv_hash s \<noteq> 0 \<and> CHR 0x00 \<notin> set s"
    and room: "length ss \<le> 1024" "sum_list (map (\<lambda>s. length s + 1) ss) \<le> 8192"
  shows "\<exists>ps st h. add_syms L st0 ss h1 = Some (ps, st, h) \<and> length ps = length ss \<and>
    (\<forall>i < length ss. (\<forall>j < length ss. ps ! i = ps ! j \<longleftrightarrow> ss ! i = ss ! j) \<and>
      str_at (chars h) (sym_str (sym_at st (ps ! i))) (ss ! i) \<and> sym_decl (sym_at st (ps ! i)) = None)"
proof -
  have es: "0 < sym_bytes L" using L by (auto simp: libc_ok_def sym_bytes_def)
  obtain t0 where n: "new_strtab L (8 * 1024) (1024 * sym_bytes L) (sym_bytes L) h0 = Some (t0, h1)"
    and st0: "st0 = \<lparr>symtab = t0, sym_at = f\<rparr>" using i by (auto simp: symtab_init_def)
  have "length ss \<le> 1024 * sym_bytes L div sym_bytes L" "sum_list (map (\<lambda>s. length s + 1) ss) \<le> 8 * 1024"
    using es room by simp_all
  note I = buf_interns [OF L n s this]
  obtain rs t h where r: "add_strs L t0 ss h1 = Some (rs, t, h)" "length rs = length ss"
    and new: "\<And>i. i < length ss \<Longrightarrow> fst (rs ! i) \<longleftrightarrow> ss ! i \<notin> set (take i ss)"
    and str: "\<And>i. i < length ss \<Longrightarrow> str_at (chars h) (fst (snd (rs ! i))) (ss ! i)"
    and eq: "\<And>i j. i < length ss \<Longrightarrow> j < length ss \<Longrightarrow> ss ! i = ss ! j \<Longrightarrow> snd (rs ! i) = snd (rs ! j)"
    and ne: "\<And>i j. i < length ss \<Longrightarrow> j < length ss \<Longrightarrow> ss ! i \<noteq> ss ! j \<Longrightarrow> snd (snd (rs ! i)) \<noteq> snd (snd (rs ! j))"
    using I es by blast
  let ?ps = "map (\<lambda>r. snd (snd r)) rs" and ?st = "\<lparr>symtab = t, sym_at = set_syms rs f\<rparr>"
  have a: "add_syms L st0 ss h1 = Some (?ps, ?st, h)" using add_syms_strs [of L st0 ss h1 rs t h] r(1) by (simp add: st0)
  have at: "sym_at ?st (?ps ! i) = \<lparr>sym_str = fst (snd (rs ! i)), sym_decl = None\<rparr>" if il: "i < length ss" for i
  proof -
    obtain k where k: "k \<le> i" "ss ! k = ss ! i" "ss ! k \<notin> set (take k ss)" using first_occurrence [OF il] by blast
    have kl: "k < length ss" using k(1) il by simp
    have e: "rs ! k = (True, fst (snd (rs ! i)), snd (snd (rs ! i)))" using new [OF kl] k(3) eq [OF kl il k(2)] by (simp add: prod_eq_iff)
    have m: "(True, fst (snd (rs ! i)), snd (snd (rs ! i))) \<in> set rs" using nth_mem [of k rs] kl r(2) unfolding e by simp
    have "\<forall>(b, a', d') \<in> set rs. d' = snd (snd (rs ! i)) \<longrightarrow> a' = fst (snd (rs ! i))"
    proof (clarify)
      fix b a' assume "(b, a', snd (snd (rs ! i))) \<in> set rs"
      then obtain j where j: "j < length ss" "rs ! j = (b, a', snd (snd (rs ! i)))" using r(2) by (metis in_set_conv_nth)
      then have "ss ! i = ss ! j" using ne [OF il j(1)] by auto
      then show "a' = fst (snd (rs ! i))" using eq [OF il j(1)] j(2) by (metis fst_conv snd_conv)
    qed
    then show ?thesis using set_syms_at [of "fst (snd (rs ! i))" "snd (snd (rs ! i))" rs f] m il r(2) by auto
  qed
  have "?ps ! i = ?ps ! j \<longleftrightarrow> ss ! i = ss ! j" if "i < length ss" "j < length ss" for i j
    using eq [OF that] ne [OF that] that r(2) by auto
  then show ?thesis using a r(2) at str by (intro exI [of _ ?ps] exI [of _ ?st] exI [of _ h]) simp
qed

theorem add_sym_names_witness:
  "\<exists>st0 h1 ps st h. symtab_init bump_libc (\<lambda>a. \<lparr>sym_str = 0, sym_decl = Some (1::nat)\<rparr>) empty_heap = Some (st0, h1) \<and>
    add_syms bump_libc st0 [''x'', ''main'', ''x''] h1 = Some (ps, st, h) \<and> ps ! 0 = ps ! 2 \<and> ps ! 0 \<noteq> ps ! 1"
proof -
  let ?f = "\<lambda>a::addr. \<lparr>sym_str = 0, sym_decl = Some (1::nat)\<rparr>" and ?ss = "[''x'', ''main'', ''x'']"
  have "count_bits 1024 0 False = (11, True)" by code_simp
  then have "symtab_init bump_libc ?f empty_heap \<noteq> None"
    by (simp add: symtab_init_def new_strtab_def new_alloc_def new_alloc_node_def xmalloc_def to_int_def bump_libc_def
        bump_malloc_def sym_bytes_def empty_heap_def Let_def case_prod_unfold)
  then obtain st0 h1 where i: "symtab_init bump_libc ?f empty_heap = Some (st0, h1)" by auto
  have "fnv_hash ''x'' \<noteq> 0" "fnv_hash ''main'' \<noteq> 0" by code_simp+
  then have s: "\<forall>s \<in> set ?ss. fnv_hash s \<noteq> 0 \<and> CHR 0x00 \<notin> set s" by simp
  have r: "length ?ss \<le> 1024" "sum_list (map (\<lambda>s. length s + 1) ?ss) \<le> 8192" by simp_all
  obtain ps st h where a: "add_syms bump_libc st0 ?ss h1 = Some (ps, st, h)"
    and p: "\<forall>i < length ?ss. \<forall>j < length ?ss. ps ! i = ps ! j \<longleftrightarrow> ?ss ! i = ?ss ! j"
    using add_sym_names [OF bump_libc_ok i s r] by meson
  have "ps ! 0 = ps ! 2" "ps ! 0 \<noteq> ps ! 1" using p [rule_format, of 0 2] p [rule_format, of 0 1] by simp_all
  then show ?thesis using i a by blast
qed

end
