(* ===== verification/Quadr_Print.thy ===== *)
theory Quadr_Print
  imports Backend
begin

text \<open>
  The last part of \<open>src/src/quadr.c\<close>: \<open>write_quadr_func\<close>, which writes the quadruples of a function to
  the file of \<open>--icode\<close>.

  A variable is written as its distance from the first variable of the function.  The function has
  several arrays of variables when it has more than 64; the distance to a variable of another array
  is not defined, here \<open>None\<close>.
\<close>

fun position :: "'a \<Rightarrow> 'a list \<Rightarrow> nat option" where
  "position x [] = None"
| "position x (y # ys) = (if x = y then Some 0 else map_option Suc (position x ys))"

definition var_text :: "var_id list \<Rightarrow> var_id \<Rightarrow> string option" where
  \<comment> \<open>\<open>v%zu\<close> with \<open>var - var_base\<close>\<close>
  "var_text base v = map_option (\<lambda>n. ''v'' @ show_nat n) (position v base)"

definition write_arg :: "host_t \<Rightarrow> quadr_st \<Rightarrow> var_id list \<Rightarrow> quadr_arg_t \<Rightarrow> string option" where
  "write_arg H q base arg =
     (case arg of
        QA_INT i \<Rightarrow> Some (show_int (sint i))
      | QA_DOUBLE d \<Rightarrow> Some (h_double_text H d)
      | QA_VAR v \<Rightarrow> var_text base v
      | QA_LABEL b \<Rightarrow> map_option (\<lambda>B. ''b'' @ show_nat b) (blocks q b)
      | QA_FUNC f \<Rightarrow> if f < length (quadr_func q) then Some (''call '' @ qf_name (quadr_func q ! f)) else None
      | QA_STR s \<Rightarrow> Some (CHR 34 # s @ [CHR 34])
      | QA_NONE \<Rightarrow> Some [])"

fun if_text :: "quadr_op_t \<Rightarrow> string option" where
  "if_text Q_IF_EQ = Some '' == ''"
| "if_text Q_IF_NE = Some '' != ''"
| "if_text Q_IF_LT = Some '' < ''"
| "if_text Q_IF_GT = Some '' > ''"
| "if_text Q_IF_LE = Some '' <= ''"
| "if_text Q_IF_GE = Some '' >= ''"
| "if_text _ = None"

fun start_text :: "quadr_op_t \<Rightarrow> string" where
  \<comment> \<open>before the result\<close>
  "start_text Q_WRITE_PTR = ''[''"
| "start_text Q_GOTO = ''goto ''"
| "start_text _ = []"

definition result_text :: "quadr_t \<Rightarrow> string" where
  \<comment> \<open>after the result\<close>
  "result_text quadr =
     (if q_op quadr = Q_GET_ADDR then '' := &''
      else if q_op quadr = Q_WRITE_PTR then '' + ''
      else if q_op quadr = Q_READ_PTR then '' := [''
      else if q_op quadr = Q_RETURN then ''return ''
      else if q_op quadr = Q_PARAM then ''param ''
      else
        (case q_result quadr of
           QA_NONE \<Rightarrow> []
         | QA_LABEL b \<Rightarrow> []
         | _ \<Rightarrow> '' := ''))"

fun op_text :: "quadr_op_t \<Rightarrow> string" where
  \<comment> \<open>after the first argument\<close>
  "op_text Q_ADD = '' + ''"
| "op_text Q_SUB = '' - ''"
| "op_text Q_DIV = '' / ''"
| "op_text Q_MUL = '' * ''"
| "op_text Q_MOD = '' % ''"
| "op_text Q_READ_PTR = '' + ''"
| "op_text Q_WRITE_PTR = ''] := ''"
| "op_text _ = []"

definition write_quadr :: "host_t \<Rightarrow> quadr_st \<Rightarrow> var_id list \<Rightarrow> quadr_t \<Rightarrow> string option" where
  "write_quadr H q base quadr = do {
     r \<leftarrow> write_arg H q base (q_result quadr);
     a1 \<leftarrow> write_arg H q base (q_arg1 quadr);
     a2 \<leftarrow> write_arg H q base (q_arg2 quadr);
     Some
       ((case if_text (q_op quadr) of
           Some rel \<Rightarrow> ''if '' @ a1 @ rel @ a2 @ '' goto '' @ r
         | None \<Rightarrow>
             start_text (q_op quadr) @ r @ result_text quadr @ a1 @ op_text (q_op quadr) @ a2 @
             (if q_op quadr = Q_READ_PTR then '']'' else [])) @ [CHR 10])
   }"

definition write_var_descr :: "var_id list \<Rightarrow> var_id \<times> var_descr_t \<Rightarrow> string option \<Rightarrow> string option" where
  \<comment> \<open>the text that \<open>cfout\<close> has, with one more line\<close>
  "write_var_descr base vd out = do {
     out \<leftarrow> out;
     v \<leftarrow> var_text base (fst vd);
     Some (out @ ''# var = '' @ v @ '', nud = '' @ show_int (sint (nearest_use_dist (snd vd))) @ [CHR 10])
   }"

fun write_each :: "('a \<Rightarrow> string option) \<Rightarrow> 'a list \<Rightarrow> string option" where
  "write_each f [] = Some []"
| "write_each f (x # xs) = do { s \<leftarrow> f x; t \<leftarrow> write_each f xs; Some (s @ t) }"

definition write_block :: "host_t \<Rightarrow> quadr_st \<Rightarrow> var_id list \<Rightarrow> block_id \<Rightarrow> string option" where
  "write_block H q base b = do {
     B \<leftarrow> blocks q b;
     let head = CHR 10 # ''b'' @ show_nat b @ '':'' @ [CHR 10];
     start \<leftarrow>
       (case vars_at_start B of
          Some t \<Rightarrow> rb_for_each t (write_var_descr base) (Some (''# vars_at_start:'' @ [CHR 10]))
        | None \<Rightarrow> Some (''# vars_at_start: NULL'' @ [CHR 10]));
     check (lsize B \<le> length (live_at_end B));
     vs \<leftarrow> write_each (\<lambda>v. do { s \<leftarrow> var_text base v; Some (''# '' @ s @ [CHR 10]) }) (take (lsize B) (live_at_end B));
     let end =
       (if 0 < lsize B then ''#'' @ [CHR 10] @ ''# live_at_end:'' @ [CHR 10] @ vs
        else ''#'' @ [CHR 10] @ ''# live_at_end: NULL'' @ [CHR 10]);
     code \<leftarrow> write_each (write_quadr H q base) (lst B);
     Some (head @ start @ end @ code)
   }"

fun write_blocks :: "nat \<Rightarrow> host_t \<Rightarrow> quadr_st \<Rightarrow> var_id list \<Rightarrow> block_id option \<Rightarrow> string option" where
  \<comment> \<open>the fuel is the number of blocks ever made\<close>
  "write_blocks n H q base None = Some []"
| "write_blocks 0 H q base (Some b) = None"
| "write_blocks (Suc n) H q base (Some b) = do {
     s \<leftarrow> write_block H q base b;
     B \<leftarrow> blocks q b;
     t \<leftarrow> write_blocks n H q base (nxt B);
     Some (s @ t)
   }"

definition write_quadr_func :: "host_t \<Rightarrow> func_id \<Rightarrow> quadr_st \<Rightarrow> string option" where
  "write_quadr_func H f q = do {
     check (f < length (quadr_func q));
     let func = quadr_func q ! f;
     t \<leftarrow>
       (case qf_blocks func of
          None \<Rightarrow> Some []
        | Some b \<Rightarrow> do {
            check (vars_lst func \<noteq> []);
            write_blocks (next_block_id q) H q (node_vars (hd (vars_lst func))) (Some b)
          });
     Some (''function '' @ qf_name func @ [CHR 10] @ t @ ''function end'' @ [CHR 10, CHR 10])
   }"

end
