(* ===== verification/Quadr_Read.thy ===== *)
theory Quadr_Read
  imports Quadr_Print Quadr_Alloc
begin

text \<open>
  A reader for the quadruples that \<open>write_quadr\<close> prints, and the round trip: the text of a
  quadruple on integers determines the quadruple.  (Doubles lose digits, and strings are written
  without escapes.)
\<close>

subsection \<open>Words\<close>

fun words :: "char \<Rightarrow> string \<Rightarrow> string list" where
  \<comment> \<open>the parts between the separators\<close>
  "words sep [] = [[]]"
| "words sep (c # s) = (if c = sep then [] # words sep s else (c # hd (words sep s)) # tl (words sep s))"

lemma words_app: "sep \<notin> set w \<Longrightarrow> words sep (w @ s) = (w @ hd (words sep s)) # tl (words sep s)"
proof (induction w)
  case Nil
  then show ?case by (cases s) simp_all
qed auto

lemma words_last: "sep \<notin> set w \<Longrightarrow> words sep w = [w]"
  using words_app [of sep w "[]"] by simp

subsection \<open>Reading\<close>

definition read_arg :: "var_id list \<Rightarrow> string \<Rightarrow> quadr_arg_t" where
  "read_arg base s =
     (case s of
        [] \<Rightarrow> QA_NONE
      | c # cs \<Rightarrow>
          if c = CHR ''v'' then QA_VAR (base ! nat (digits_val cs))
          else if c = CHR ''b'' then QA_LABEL (nat (digits_val cs))
          else if c = CHR ''-'' then QA_INT (word_of_int (- digits_val cs))
          else QA_INT (word_of_int (digits_val s)))"

definition read_func :: "quadr_st \<Rightarrow> string \<Rightarrow> quadr_arg_t option" where
  "read_func q s = map_option QA_FUNC (position s (map qf_name (quadr_func q)))"

definition read_op :: "string \<Rightarrow> quadr_op_t option" where
  "read_op s = map_of [(''+'', Q_ADD), (''-'', Q_SUB), (''/'', Q_DIV), (''*'', Q_MUL), (''%'', Q_MOD),
     (''=='', Q_IF_EQ), (''!='', Q_IF_NE), (''<'', Q_IF_LT), (''>'', Q_IF_GT), (''<='', Q_IF_LE), (''>='', Q_IF_GE),
     (''goto'', Q_GOTO), (''return'', Q_RETURN), (''param'', Q_PARAM)] s"

abbreviation quadr :: "quadr_op_t \<Rightarrow> quadr_arg_t \<Rightarrow> quadr_arg_t \<Rightarrow> quadr_arg_t \<Rightarrow> quadr_t" where
  "quadr op r a b \<equiv> \<lparr>q_op = op, q_result = r, q_arg1 = a, q_arg2 = b\<rparr>"

fun read_words :: "quadr_st \<Rightarrow> var_id list \<Rightarrow> string list \<Rightarrow> quadr_t option" where
  "read_words q base [w, a] =
     (if w = ''call'' then map_option (\<lambda>f. quadr Q_CALL QA_NONE f QA_NONE) (read_func q a)
      else if w = ''goto'' then Some (quadr Q_GOTO (read_arg base a) QA_NONE QA_NONE)
      else map_option (\<lambda>op. quadr op QA_NONE (read_arg base a) QA_NONE) (read_op w))"
| "read_words q base [r, w, a] =
     Some (if take 1 a = ''&'' then quadr Q_GET_ADDR (read_arg base r) (read_arg base (tl a)) QA_NONE
           else quadr Q_COPY (read_arg base r) (read_arg base a) QA_NONE)"
| "read_words q base [r, w, c, f] = map_option (\<lambda>f. quadr Q_CALL (read_arg base r) f QA_NONE) (read_func q f)"
| "read_words q base [r, w, a, p, b] =
     (if w = ''+'' then
        Some (quadr Q_WRITE_PTR (read_arg base (tl r)) (read_arg base (butlast a)) (read_arg base b))
      else if take 1 a = ''['' then
        Some (quadr Q_READ_PTR (read_arg base r) (read_arg base (tl a)) (read_arg base (butlast b)))
      else map_option (\<lambda>op. quadr op (read_arg base r) (read_arg base a) (read_arg base b)) (read_op p))"
| "read_words q base [i, a, p, b, g, l] =
     map_option (\<lambda>op. quadr op (read_arg base l) (read_arg base a) (read_arg base b)) (read_op p)"
| "read_words q base _ = None"

definition read_quadr :: "quadr_st \<Rightarrow> var_id list \<Rightarrow> string \<Rightarrow> quadr_t option" where
  \<comment> \<open>one line, without the newline\<close>
  "read_quadr q base s = read_words q base (words (CHR '' '') s)"

fun read_each :: "(string \<Rightarrow> 'a option) \<Rightarrow> string list \<Rightarrow> 'a list option" where
  "read_each f [] = Some []"
| "read_each f (s # ss) = do { x \<leftarrow> f s; xs \<leftarrow> read_each f ss; Some (x # xs) }"

definition read_code :: "quadr_st \<Rightarrow> var_id list \<Rightarrow> string \<Rightarrow> quadr_t list option" where
  "read_code q base s = read_each (read_quadr q base) (butlast (words (CHR 10) s))"

subsection \<open>Quadruples on integers\<close>

definition var_arg_ok :: "var_id list \<Rightarrow> quadr_arg_t \<Rightarrow> bool" where
  "var_arg_ok base a = (case a of QA_VAR v \<Rightarrow> v \<in> set base | _ \<Rightarrow> False)"

definition int_arg_ok :: "var_id list \<Rightarrow> quadr_arg_t \<Rightarrow> bool" where
  "int_arg_ok base a = (case a of QA_VAR v \<Rightarrow> v \<in> set base | QA_INT i \<Rightarrow> True | _ \<Rightarrow> False)"

definition label_ok :: "quadr_st \<Rightarrow> quadr_arg_t \<Rightarrow> bool" where
  "label_ok q a = (case a of QA_LABEL b \<Rightarrow> blocks q b \<noteq> None | _ \<Rightarrow> False)"

definition func_ok :: "quadr_st \<Rightarrow> quadr_arg_t \<Rightarrow> bool" where
  "func_ok q a = (case a of QA_FUNC f \<Rightarrow> f < length (quadr_func q) | _ \<Rightarrow> False)"

definition names_ok :: "quadr_st \<Rightarrow> bool" where
  "names_ok q \<longleftrightarrow> distinct (map qf_name (quadr_func q)) \<and> (\<forall>f \<in> set (quadr_func q). plain (qf_name f))"

fun int_quadr :: "quadr_st \<Rightarrow> var_id list \<Rightarrow> quadr_op_t \<Rightarrow> quadr_arg_t \<Rightarrow> quadr_arg_t \<Rightarrow> quadr_arg_t \<Rightarrow> bool" where
  \<comment> \<open>the arguments that \<open>quadr.c\<close> and \<open>opt.cpp\<close> give the operations, without doubles and strings\<close>
  "int_quadr q base Q_COPY r a b \<longleftrightarrow> var_arg_ok base r \<and> int_arg_ok base a \<and> b = QA_NONE"
| "int_quadr q base Q_GET_ADDR r a b \<longleftrightarrow> var_arg_ok base r \<and> var_arg_ok base a \<and> b = QA_NONE"
| "int_quadr q base Q_RETURN r a b \<longleftrightarrow> r = QA_NONE \<and> (a = QA_NONE \<or> int_arg_ok base a) \<and> b = QA_NONE"
| "int_quadr q base Q_PARAM r a b \<longleftrightarrow> r = QA_NONE \<and> int_arg_ok base a \<and> b = QA_NONE"
| "int_quadr q base Q_CALL r a b \<longleftrightarrow> (r = QA_NONE \<or> var_arg_ok base r) \<and> func_ok q a \<and> b = QA_NONE"
| "int_quadr q base Q_GOTO r a b \<longleftrightarrow> label_ok q r \<and> a = QA_NONE \<and> b = QA_NONE"
| "int_quadr q base Q_NONE r a b \<longleftrightarrow> False"
| "int_quadr q base op r a b \<longleftrightarrow>
     (if is_if_op op then label_ok q r else var_arg_ok base r) \<and> int_arg_ok base a \<and> int_arg_ok base b"

definition int_quadr_ok :: "quadr_st \<Rightarrow> var_id list \<Rightarrow> quadr_t \<Rightarrow> bool" where
  "int_quadr_ok q base x \<longleftrightarrow> int_quadr q base (q_op x) (q_result x) (q_arg1 x) (q_arg2 x)"

subsection \<open>The round trip\<close>

lemma position_nth: "v \<in> set base \<Longrightarrow> \<exists>n. position v base = Some n \<and> base ! n = v"
  by (induction base) auto

lemma position_index: "distinct xs \<Longrightarrow> i < length xs \<Longrightarrow> position (xs ! i) xs = Some i"
proof (induction xs arbitrary: i)
  case (Cons x xs)
  then show ?case by (cases i) (auto simp: nth_mem)
qed simp

definition arg_text :: "var_id list \<Rightarrow> quadr_arg_t \<Rightarrow> string \<Rightarrow> bool" where
  "arg_text base a s \<longleftrightarrow>
     CHR '' '' \<notin> set s \<and> CHR 10 \<notin> set s \<and> read_arg base s = a \<and> take 1 s \<noteq> ''&'' \<and> take 1 s \<noteq> ''[''"

lemma digit_first:
  "is_digit c \<Longrightarrow> c \<noteq> CHR '' '' \<and> c \<noteq> CHR 10 \<and> c \<noteq> CHR ''v'' \<and> c \<noteq> CHR ''b'' \<and> c \<noteq> CHR ''-'' \<and> c \<noteq> CHR ''&'' \<and> c \<noteq> CHR ''[''"
  by (auto simp: is_digit_def)

lemma no_blank: "CHR '' '' \<notin> set (show_nat n)" "CHR 10 \<notin> set (show_nat n)"
  using digit_first show_nat_digits by metis+

lemma int_text: "arg_text base (QA_INT i) (show_int (sint i))"
proof (cases "sint i < 0")
  case True
  then show ?thesis by (simp add: arg_text_def show_int_def read_arg_def no_blank show_nat_val)
next
  case False
  obtain c cs where c: "show_nat (nat (sint i)) = c # cs" by (cases "show_nat (nat (sint i))") (simp_all add: show_nat_ne)
  have "is_digit c" by (rule show_nat_Cons [OF c])
  then show ?thesis
    using False no_blank [of "nat (sint i)"] show_nat_val [of "nat (sint i)"] digit_first [of c] c
    by (simp add: arg_text_def show_int_def read_arg_def)
qed

lemma write_arg_text:
  assumes "int_arg_ok base a \<or> var_arg_ok base a \<or> label_ok q a \<or> a = QA_NONE"
  shows "\<exists>s. write_arg H q base a = Some s \<and> arg_text base a s"
proof (cases a)
  case (QA_VAR v)
  then have "v \<in> set base" using assms by (simp add: int_arg_ok_def var_arg_ok_def label_ok_def)
  then obtain n where "position v base = Some n" "base ! n = v" using position_nth [of v base] by auto
  then show ?thesis
    using QA_VAR by (simp add: write_arg_def var_text_def arg_text_def read_arg_def no_blank show_nat_val)
next
  case (QA_LABEL b)
  then have "blocks q b \<noteq> None" using assms by (simp add: int_arg_ok_def var_arg_ok_def label_ok_def)
  then show ?thesis
    using QA_LABEL by (auto simp: write_arg_def arg_text_def read_arg_def no_blank show_nat_val)
qed (use assms int_text in \<open>simp_all add: write_arg_def int_arg_ok_def var_arg_ok_def label_ok_def arg_text_def read_arg_def\<close>)

lemma write_func_text:
  assumes "names_ok q" "func_ok q a"
  shows "\<exists>s. write_arg H q base a = Some (''call '' @ s) \<and> CHR '' '' \<notin> set s \<and> CHR 10 \<notin> set s \<and> read_func q s = Some a"
proof -
  obtain f where f: "a = QA_FUNC f" "f < length (quadr_func q)"
    using assms(2) by (auto simp: func_ok_def split: quadr_arg_t.splits)
  have "position (map qf_name (quadr_func q) ! f) (map qf_name (quadr_func q)) = Some f"
    using assms(1) f(2) by (intro position_index) (simp_all add: names_ok_def)
  moreover have "plain (qf_name (quadr_func q ! f))" using assms(1) f(2) by (simp add: names_ok_def)
  ultimately show ?thesis using f by (simp add: write_arg_def read_func_def plain_def nl_def)
qed

lemma read_ops:
  "read_op ''+'' = Some Q_ADD" "read_op ''-'' = Some Q_SUB" "read_op ''/'' = Some Q_DIV" "read_op ''*'' = Some Q_MUL"
  "read_op ''%'' = Some Q_MOD" "read_op ''=='' = Some Q_IF_EQ" "read_op ''!='' = Some Q_IF_NE" "read_op ''<'' = Some Q_IF_LT"
  "read_op ''>'' = Some Q_IF_GT" "read_op ''<='' = Some Q_IF_LE" "read_op ''>='' = Some Q_IF_GE"
  "read_op ''goto'' = Some Q_GOTO" "read_op ''return'' = Some Q_RETURN" "read_op ''param'' = Some Q_PARAM"
  by (simp_all add: read_op_def)

lemma none_text: "arg_text base QA_NONE s \<Longrightarrow> s = []"
  by (cases s) (auto simp: arg_text_def read_arg_def split: if_splits)

lemma write_read_call:
  assumes n: "names_ok q" and x: "x = quadr Q_CALL r a b" and ok: "int_quadr_ok q base x"
  shows "\<exists>s. write_quadr H q base x = Some (s @ [CHR 10]) \<and> CHR 10 \<notin> set s \<and> read_quadr q base s = Some x"
proof -
  obtain s where a: "write_arg H q base a = Some (''call '' @ s)" "CHR '' '' \<notin> set s" "CHR 10 \<notin> set s" "read_func q s = Some a"
    using write_func_text [OF n, of a H base] ok x by (auto simp: int_quadr_ok_def)
  show ?thesis
  proof (cases "r = QA_NONE")
    case True
    then show ?thesis using a ok x
      by (simp add: int_quadr_ok_def write_quadr_def result_text_def write_arg_def read_quadr_def words_last)
  next
    case False
    then have "var_arg_ok base r" using ok x by (simp add: int_quadr_ok_def)
    then obtain t where "write_arg H q base r = Some t" "arg_text base r t" using write_arg_text by blast
    then show ?thesis using a ok x \<open>var_arg_ok base r\<close>
      by (auto simp: int_quadr_ok_def write_quadr_def result_text_def arg_text_def read_quadr_def words_app words_last
          var_arg_ok_def write_arg_def [of H q base QA_NONE] split: quadr_arg_t.splits)
  qed
qed

lemma int_quadr_args:
  assumes "int_quadr q base op r a b" "op \<noteq> Q_CALL"
  shows "int_arg_ok base r \<or> var_arg_ok base r \<or> label_ok q r \<or> r = QA_NONE"
    and "int_arg_ok base a \<or> var_arg_ok base a \<or> label_ok q a \<or> a = QA_NONE"
    and "int_arg_ok base b \<or> var_arg_ok base b \<or> label_ok q b \<or> b = QA_NONE"
  using assms by (cases op; auto)+

lemma write_read_other:
  assumes x: "x = quadr op r a b" and op: "op \<noteq> Q_CALL" and ok: "int_quadr_ok q base x"
  shows "\<exists>s. write_quadr H q base x = Some (s @ [CHR 10]) \<and> CHR 10 \<notin> set s \<and> read_quadr q base s = Some x"
proof -
  have args: "int_quadr q base op r a b" using ok x by (simp add: int_quadr_ok_def)
  obtain tr ta tb where w: "write_arg H q base r = Some tr" "write_arg H q base a = Some ta" "write_arg H q base b = Some tb"
    and t: "arg_text base r tr" "arg_text base a ta" "arg_text base b tb"
    using write_arg_text [OF int_quadr_args(1) [OF args op]] write_arg_text [OF int_quadr_args(2) [OF args op]]
      write_arg_text [OF int_quadr_args(3) [OF args op]] by metis
  let ?s = "case if_text op of
      Some rel \<Rightarrow> ''if '' @ ta @ rel @ tb @ '' goto '' @ tr
    | None \<Rightarrow> start_text op @ tr @ result_text x @ ta @ op_text op @ tb @ (if op = Q_READ_PTR then '']'' else [])"
  have s: "write_quadr H q base x = Some (?s @ [CHR 10])" using w x by (cases "if_text op") (simp_all add: write_quadr_def)
  have r: "var_arg_ok base r \<Longrightarrow> result_text x =
      (if op = Q_GET_ADDR then '' := &'' else if op = Q_WRITE_PTR then '' + '' else if op = Q_READ_PTR then '' := [''
       else if op = Q_RETURN then ''return '' else if op = Q_PARAM then ''param '' else '' := '')"
    using x by (cases r) (simp_all add: result_text_def var_arg_ok_def)
  have l: "label_ok q r \<Longrightarrow> op = Q_GOTO \<Longrightarrow> result_text x = []"
    using x by (cases r) (simp_all add: result_text_def label_ok_def)
  have "CHR 10 \<notin> set ?s"
    using x op ok r l t none_text [of base tr] none_text [of base ta] none_text [of base tb]
    by (cases op) (simp_all add: int_quadr_ok_def arg_text_def result_text_def)
  moreover have "read_quadr q base ?s = Some x"
    using x op ok r l t none_text [of base tr] none_text [of base ta] none_text [of base tb]
    by (cases op) (simp_all add: int_quadr_ok_def arg_text_def result_text_def read_quadr_def words_app words_last read_ops)
  ultimately show ?thesis using s by blast
qed

lemma write_read_quadr:
  assumes "names_ok q" "int_quadr_ok q base x"
  shows "\<exists>s. write_quadr H q base x = Some (s @ [CHR 10]) \<and> CHR 10 \<notin> set s \<and> read_quadr q base s = Some x"
proof (cases x)
  case (fields op r a b)
  then show ?thesis using assms write_read_call write_read_other by (cases "op = Q_CALL") simp_all
qed

lemma words_ne: "words sep s \<noteq> []"
  by (cases s) simp_all

text \<open>
  C37: the code that \<open>write_block\<close> prints for quadruples on integers can be read back: a line for
  each quadruple, and the lines determine the quadruples (operation, variables, constants, labels
  and functions), for functions with different names without blanks.
\<close>

theorem write_code_roundtrip:
  assumes "names_ok q" "\<forall>x \<in> set xs. int_quadr_ok q base x"
  shows "\<exists>s. write_each (write_quadr H q base) xs = Some s \<and> read_code q base s = Some xs"
  using assms(2)
proof (induction xs)
  case (Cons x xs)
  obtain l where l: "write_quadr H q base x = Some (l @ [CHR 10])" "CHR 10 \<notin> set l" "read_quadr q base l = Some x"
    using write_read_quadr [OF assms(1), of base x H] Cons.prems by auto
  obtain s where s: "write_each (write_quadr H q base) xs = Some s" "read_code q base s = Some xs"
    using Cons by auto
  have "read_code q base (l @ CHR 10 # s) = Some (x # xs)"
    using l s(2) by (simp add: read_code_def words_app words_ne)
  then show ?case using l s(1) by simp
qed (simp add: read_code_def)

definition ex_code :: "quadr_t list" where
  "ex_code =
     [quadr Q_COPY (QA_VAR 7) (QA_INT (-5)) QA_NONE, quadr Q_SUB (QA_VAR 9) (QA_VAR 7) (QA_INT 1),
      quadr Q_READ_PTR (QA_VAR 7) (QA_VAR 8) (QA_VAR 9), quadr Q_RETURN QA_NONE (QA_VAR 7) QA_NONE]"

theorem write_code_roundtrip_witness:
  "\<exists>s. write_each (write_quadr \<lparr>h_asserts = True, h_int_cast = id, h_double_text = (\<lambda>d. [])\<rparr> quadr_init [7, 8, 9]) ex_code = Some s \<and>
    read_code quadr_init [7, 8, 9] s = Some ex_code"
  by (rule write_code_roundtrip)
     (simp_all add: names_ok_def quadr_init_def ex_code_def int_quadr_ok_def var_arg_ok_def int_arg_ok_def)

end
