(* ===== verification/Flags.thy ===== *)
theory Flags
  imports Prelude
begin

text \<open>
  \<open>src/src/flags.c\<close> and \<open>flags.h\<close>: the command line.

  What the C library reads is a parameter: \<open>getopt_t\<close> is a result of \<open>getopt_long\<close> that is not -1, with
  \<open>optarg\<close> (\<open>None\<close> for \<open>NULL\<close>), and the words of the command line that are no options are a list.  A
  global that points to one of the static buffers is the string in this buffer; a buffer is only
  written where its global is set.  A text that does not fit into a buffer stops the program.
\<close>

datatype backend_type_t = BACK_QUADR | BACK_I386

record cmd_flags =
  f_no_gencode :: bool
  f_optimize :: bool
  f_optimize_local :: bool
  f_optimize_global :: bool
  f_optimize_peephole :: bool
  f_backend_type :: backend_type_t
  f_runtime_path :: "string option"
  f_peephole_rules_file_path :: "string option"
  f_data_path :: string
  f_output_file :: "string option"
  f_icode_output_file :: "string option"
  f_input_files :: "string list"
  f_assemble :: bool
  f_link :: bool
  f_preserve_files :: bool
  f_args_in_reg_num0 :: nat
  f_pentium_pro0 :: bool

definition MAX_BUF_SIZE :: nat where "MAX_BUF_SIZE = 512"

type_synonym getopt_t = "int \<times> string option"

definition FLAG_I386 :: int where "FLAG_I386 = 128"
definition FLAG_PENTIUM_PRO :: int where "FLAG_PENTIUM_PRO = 129"
definition FLAG_ASSEMBLE :: int where "FLAG_ASSEMBLE = 130"
definition FLAG_LINK :: int where "FLAG_LINK = 131"
definition FLAG_NO_GENCODE :: int where "FLAG_NO_GENCODE = 132"
definition FLAG_NO_ASSEMBLE :: int where "FLAG_NO_ASSEMBLE = 133"
definition FLAG_ICODE :: int where "FLAG_ICODE = 134"

lemmas FLAG_defs = FLAG_I386_def FLAG_PENTIUM_PRO_def FLAG_ASSEMBLE_def FLAG_LINK_def
  FLAG_NO_GENCODE_def FLAG_NO_ASSEMBLE_def FLAG_ICODE_def

subsection \<open>Texts\<close>

definition text_lines :: "string list \<Rightarrow> string" where
  "text_lines ls = concat (map (\<lambda>l. l @ [CHR 10]) ls)"

definition option_text :: "string \<Rightarrow> string list \<Rightarrow> string list" where
  \<comment> \<open>the lines of one option, the description after a tab\<close>
  "option_text opt ls = opt # map (\<lambda>l. CHR 9 # l) ls"

definition help_text :: string where
  "help_text = text_lines (concat
     [[''usage: jl [options] program.jl'', '''', ''Available options:''],
      option_text ''-b, --backend=X'' [''Choose backend X, where X may be 'quadr' or 'i386'.''],
      option_text ''--i386'' [''Choose the i386 backend, but without support for pentium-pro'', ''intructions.''],
      option_text ''--pentium-pro'' [''Choose the i386 backend with support for pentium-pro instructions.''],
      option_text ''-O, --optimize=X''
        [''Set optimization level X, which may be 0 (no optimization), 1 (local'',
         ''basic block and peephole optimization) or 2 (1 plus global'', ''optimization).''],
      option_text ''-o, --output=X'' [''Set the output file to X.''],
      option_text ''-d, --data-dir=X'' [''Set the path to compiler's data directory.''],
      option_text ''--no-gencode'' [''Suppress code generation.''],
      option_text ''--no-assemble'' [''Suppress the assembly stage.''],
      option_text ''-c, --no-link'' [''Suppress linking.''],
      option_text ''-p, --preserve-files'' [''Preserve intermediate assembly files.''],
      option_text ''--icode=X'' [''Save intermediate code to file X. Useful only for debugging the'', ''compiler.''],
      option_text ''-h, --help'' [''Display this help.''],
      option_text ''-v, --version'' [''Display program version.''],
      ['''', ''Before running the compiler ensure that the JL_DATA_DIR environment variable'',
       ''is set appropriately, or use the `-d' option.'']])"

definition version_text :: string where
  "version_text = text_lines [''Javalette compiler version 0.1'']"

subsection \<open>Paths\<close>

definition strncpy_buf :: "string \<Rightarrow> string" where
  \<comment> \<open>\<open>strncpy\<close> into a buffer of \<open>MAX_BUF_SIZE + 1\<close> characters that ends with 0\<close>
  "strncpy_buf s = take MAX_BUF_SIZE s"

definition sprintf_buf :: "string \<Rightarrow> string option" where
  "sprintf_buf s = (if length s \<le> MAX_BUF_SIZE then Some s else None)"

definition set_paths :: "cmd_flags \<Rightarrow> cmd_flags option" where
  "set_paths fl =
     (case f_backend_type fl of
        BACK_QUADR \<Rightarrow> Some (fl\<lparr>f_runtime_path := None, f_peephole_rules_file_path := None\<rparr>)
      | BACK_I386 \<Rightarrow> do {
          r \<leftarrow> sprintf_buf (f_data_path fl @ ''/i386_linux.asm'');
          p \<leftarrow> sprintf_buf (f_data_path fl @ ''/i386.opt'');
          Some (fl\<lparr>f_runtime_path := Some r, f_peephole_rules_file_path := Some p\<rparr>)
        })"

subsection \<open>Options\<close>

definition default_flags :: "string option \<Rightarrow> cmd_flags" where
  \<comment> \<open>before the first \<open>set_paths\<close>; the argument is the variable \<open>JL_DATA_DIR\<close> of the environment\<close>
  "default_flags dir =
     \<lparr>f_no_gencode = False, f_optimize = True, f_optimize_local = True, f_optimize_global = True,
      f_optimize_peephole = True, f_backend_type = BACK_I386, f_runtime_path = Some [],
      f_peephole_rules_file_path = Some [],
      f_data_path = (case dir of Some str \<Rightarrow> strncpy_buf str | None \<Rightarrow> ''./''), f_output_file = None,
      f_icode_output_file = None, f_input_files = [], f_assemble = True, f_link = True,
      f_preserve_files = False, f_args_in_reg_num0 = 0, f_pentium_pro0 = False\<rparr>"

definition set_backend :: "string \<Rightarrow> cmd_flags \<Rightarrow> cmd_flags option" where
  "set_backend arg fl =
     (if arg = ''i386'' then set_paths (fl\<lparr>f_backend_type := BACK_I386\<rparr>)
      else if arg = ''quadr'' then set_paths (fl\<lparr>f_backend_type := BACK_QUADR\<rparr>)
      else None)"

definition set_optimize :: "string \<Rightarrow> cmd_flags \<Rightarrow> cmd_flags option" where
  "set_optimize arg fl =
     (if arg = ''0'' \<or> arg = ''none'' then
        Some (fl\<lparr>f_optimize := False, f_optimize_local := False, f_optimize_global := False,
          f_optimize_peephole := False, f_args_in_reg_num0 := 0\<rparr>)
      else if arg = ''1'' then
        Some (fl\<lparr>f_optimize := True, f_optimize_local := True, f_optimize_peephole := True,
          f_optimize_global := False, f_args_in_reg_num0 := 0\<rparr>)
      else if arg = ''2'' then
        Some (fl\<lparr>f_optimize := True, f_optimize_local := True, f_optimize_peephole := True,
          f_optimize_global := True, f_args_in_reg_num0 := 4\<rparr>)
      else None)"

text \<open>The program ends here with its output and status 0, or goes on.\<close>

datatype 'a outcome = EXIT string | GO 'a

definition parse_option :: "getopt_t \<Rightarrow> cmd_flags \<Rightarrow> cmd_flags outcome option" where
  \<comment> \<open>the body of the loop of \<open>parse_flags\<close>\<close>
  "parse_option opt fl =
     (let (c, optarg) = opt in
      if c = of_char CHR ''b'' then do { arg \<leftarrow> optarg; fl \<leftarrow> set_backend arg fl; Some (GO fl) }
      else if c = of_char CHR ''O'' then do { arg \<leftarrow> optarg; fl \<leftarrow> set_optimize arg fl; Some (GO fl) }
      else if c = of_char CHR ''o'' then do {
        arg \<leftarrow> optarg; Some (GO (fl\<lparr>f_output_file := Some (strncpy_buf arg)\<rparr>)) }
      else if c = of_char CHR ''d'' then do {
        arg \<leftarrow> optarg; fl \<leftarrow> set_paths (fl\<lparr>f_data_path := strncpy_buf arg\<rparr>); Some (GO fl) }
      else if c = of_char CHR ''c'' then Some (GO (fl\<lparr>f_link := False\<rparr>))
      else if c = of_char CHR ''p'' then Some (GO (fl\<lparr>f_preserve_files := True\<rparr>))
      else if c = of_char CHR ''h'' then Some (EXIT help_text)
      else if c = of_char CHR ''v'' then Some (EXIT version_text)
      else if c = FLAG_I386 then do {
        fl \<leftarrow> set_paths (fl\<lparr>f_backend_type := BACK_I386, f_pentium_pro0 := False\<rparr>); Some (GO fl) }
      else if c = FLAG_PENTIUM_PRO then do {
        fl \<leftarrow> set_paths (fl\<lparr>f_backend_type := BACK_I386, f_pentium_pro0 := True\<rparr>); Some (GO fl) }
      else if c = FLAG_ASSEMBLE then Some (GO (fl\<lparr>f_assemble := True\<rparr>))
      else if c = FLAG_LINK then Some (GO (fl\<lparr>f_link := True\<rparr>))
      else if c = FLAG_NO_GENCODE then Some (GO (fl\<lparr>f_no_gencode := True\<rparr>))
      else if c = FLAG_NO_ASSEMBLE then Some (GO (fl\<lparr>f_assemble := False\<rparr>))
      else if c = FLAG_ICODE then do {
        arg \<leftarrow> optarg; Some (GO (fl\<lparr>f_icode_output_file := Some (strncpy_buf arg)\<rparr>)) }
      else if c = of_char CHR ''?'' then Some (GO fl)
      else None)"

fun parse_options :: "getopt_t list \<Rightarrow> cmd_flags \<Rightarrow> cmd_flags outcome option" where
  "parse_options [] fl = Some (GO fl)"
| "parse_options (opt # opts) fl = do {
     r \<leftarrow> parse_option opt fl;
     (case r of EXIT s \<Rightarrow> Some (EXIT s) | GO fl \<Rightarrow> parse_options opts fl)
   }"

definition parse_flags :: "string option \<Rightarrow> getopt_t list \<Rightarrow> string list \<Rightarrow> cmd_flags outcome option" where
  "parse_flags dir opts files = do {
     fl \<leftarrow> set_paths (default_flags dir);
     r \<leftarrow> parse_options opts fl;
     Some (case r of EXIT s \<Rightarrow> EXIT s | GO fl \<Rightarrow> GO (fl\<lparr>f_input_files := files\<rparr>))
   }"

end
