(* ===== verification/Driver.thy ===== *)
theory Driver
  imports Flags Semantic Opt Quadr_Print Quadr_Backend I386_Backend
begin

text \<open>
  \<open>src/src/jl.c\<close>: the main program, which composes the phases of the compiler.

  Parameters are what is not in the sources or is generated: the parser \<open>yyparse\<close>, which gets the
  contents of the input file and the state in which the built-in functions are declared; whether a
  file can be opened for writing; what a command does to the files, with its status.  A file is
  known by the name that the program uses.  What is written to a stream is in the file when the
  stream is closed.  The status 1 of \<open>xabort\<close> is \<open>None\<close>, as everywhere.
\<close>

type_synonym file_map = "string \<rightharpoonup> string"

record libs_t =
  yyparse :: "string \<Rightarrow> comp_st \<Rightarrow> (func_t list \<times> comp_st) option"
  can_write :: "string \<Rightarrow> bool"
  system :: "string \<Rightarrow> file_map \<Rightarrow> int \<times> file_map"

record os_t =
  files :: file_map
  commands :: "string list"   \<comment> \<open>those that have been run\<close>

definition run_command :: "libs_t \<Rightarrow> string \<Rightarrow> os_t \<Rightarrow> int \<times> os_t" where
  "run_command L cmd os =
     (let (status, fs) = system L cmd (files os)
      in (status, os\<lparr>files := fs, commands := commands os @ [cmd]\<rparr>))"

definition write_file :: "string \<Rightarrow> string \<Rightarrow> os_t \<Rightarrow> os_t" where
  "write_file name s os = os\<lparr>files := (files os)(name \<mapsto> s)\<rparr>"

subsection \<open>File names\<close>

definition MAX_PATH_LEN :: nat where "MAX_PATH_LEN = 512"

text \<open>
  \<open>outfile\<close> has \<open>MAX_PATH_LEN + 1\<close> characters, the last one is 0.  \<open>strncpy\<close> to the position \<open>i\<close>
  keeps the characters before \<open>i\<close> and fills the rest.
\<close>

definition strncpy_outfile :: "nat \<Rightarrow> string \<Rightarrow> string \<Rightarrow> string" where
  "strncpy_outfile i s outfile = take i outfile @ take (MAX_PATH_LEN - i) s"

fun ext_pos :: "string \<Rightarrow> nat \<Rightarrow> nat option" where
  \<comment> \<open>the loop: the last dot or slash before the position; \<open>None\<close> is \<open>i < 0\<close>\<close>
  "ext_pos s 0 = None"
| "ext_pos s (Suc i) = (if s ! i \<noteq> CHR ''.'' \<and> s ! i \<noteq> CHR ''/'' then ext_pos s i else Some i)"

definition change_outfile_extension :: "string \<Rightarrow> string \<Rightarrow> string" where
  "change_outfile_extension ext outfile =
     (case ext_pos outfile (length outfile) of
        None \<Rightarrow> strncpy_outfile (length outfile) ext outfile
      | Some i \<Rightarrow>
          if outfile ! i = CHR ''/'' then strncpy_outfile (length outfile) ext outfile
          else strncpy_outfile i ext outfile)"

definition backend_outfile :: "cmd_flags \<Rightarrow> string \<Rightarrow> string" where
  \<comment> \<open>the part of \<open>prepare_backend\<close> that finds the name\<close>
  "backend_outfile fl cur_filename =
     (case f_backend_type fl of
        BACK_I386 \<Rightarrow>
          change_outfile_extension ''.asm''
            (strncpy_outfile 0 (case f_output_file fl of None \<Rightarrow> cur_filename | Some p \<Rightarrow> p) [])
      | BACK_QUADR \<Rightarrow>
          (case f_output_file fl of
             None \<Rightarrow> change_outfile_extension ''.qua'' (strncpy_outfile 0 cur_filename [])
           | Some p \<Rightarrow> strncpy_outfile 0 p []))"

subsection \<open>Assembling and linking\<close>

definition nasm_command :: "string \<Rightarrow> string \<Rightarrow> string" where
  "nasm_command outfile infile = ''nasm -f elf -o '' @ outfile @ '' '' @ infile"

definition ld_command :: "string \<Rightarrow> string \<Rightarrow> string" where
  "ld_command outfile infile = ''ld -o '' @ outfile @ '' '' @ infile @ '' -lc -dynamic-linker /lib/ld-linux.so.2''"

definition exe_outfile :: "cmd_flags \<Rightarrow> string \<Rightarrow> string" where
  "exe_outfile fl outfile =
     (case f_output_file fl of
        Some p \<Rightarrow> strncpy_outfile 0 p outfile
      | None \<Rightarrow> change_outfile_extension [] outfile)"

definition assemble_and_link :: "libs_t \<Rightarrow> cmd_flags \<Rightarrow> string \<Rightarrow> os_t \<Rightarrow> os_t option" where
  \<comment> \<open>\<open>infile\<close> and \<open>asmfile\<close> have one character less than \<open>outfile\<close>; the command \<open>rm\<close> is only written to a buffer\<close>
  "assemble_and_link L fl outfile os = do {
     check (length outfile < MAX_PATH_LEN);
     let infile = outfile;
         outfile = change_outfile_extension ''.o'' outfile;
         (success, os) = run_command L (nasm_command outfile infile) os;
         infile = outfile in do {
       check (length infile < MAX_PATH_LEN);
       let (success, os) =
         (if f_link fl \<and> success = 0 then run_command L (ld_command (exe_outfile fl outfile) infile) os
          else (success, os)) in do {
         check (success = 0);
         Some os
       }
     }
   }"

definition finish_up :: "libs_t \<Rightarrow> cmd_flags \<Rightarrow> string \<Rightarrow> string \<Rightarrow> os_t \<Rightarrow> os_t option" where
  \<comment> \<open>\<open>code\<close> is what has been written to \<open>backend->fout\<close>\<close>
  "finish_up L fl outfile code os =
     (let os = write_file outfile code os in
      if f_backend_type fl = BACK_I386 \<and> f_assemble fl then assemble_and_link L fl outfile os else Some os)"

subsection \<open>The functions of the program\<close>

record 'b phase_st =
  ph_opt :: opt_st
  ph_gen :: "'b gencode_st"
  ph_icode :: string

definition compile_func ::
  "'b backend_t \<Rightarrow> host_t \<Rightarrow> 'w machine \<Rightarrow> (gnode_id \<Rightarrow> nat) \<Rightarrow> cmd_flags \<Rightarrow> bool \<Rightarrow> func_id \<Rightarrow> 'b phase_st \<Rightarrow> 'b phase_st option"
where
  \<comment> \<open>the functions and blocks are in the state of each phase, which gets them from the phase before\<close>
  "compile_func B H M paddr fl icode f ph = do {
     let q = quadrs (ph_gen ph);
     check (f < length (quadr_func q));
     (if qf_tag (quadr_func q ! f) = QF_USER_DEFINED then do {
        opt \<leftarrow> (if f_optimize_local fl then perform_local_optimizations paddr M f (ph_opt ph\<lparr>oq := q\<rparr>)
                else Some (ph_opt ph\<lparr>oq := q\<rparr>));
        q \<leftarrow> create_block_graph f (oq opt);
        q \<leftarrow> analyze_flow f q;
        s \<leftarrow> (if icode then write_quadr_func H f q else Some []);
        gen \<leftarrow> gencode B f (ph_gen ph\<lparr>quadrs := q\<rparr>);
        Some (ph\<lparr>ph_opt := opt, ph_gen := gen, ph_icode := ph_icode ph @ s\<rparr>)
      }
      else Some ph)
   }"

fun compile_funcs ::
  "'b backend_t \<Rightarrow> host_t \<Rightarrow> 'w machine \<Rightarrow> (gnode_id \<Rightarrow> nat) \<Rightarrow> cmd_flags \<Rightarrow> bool \<Rightarrow> func_id list \<Rightarrow> 'b phase_st \<Rightarrow> 'b phase_st option"
where
  "compile_funcs B H M paddr fl icode [] ph = Some ph"
| "compile_funcs B H M paddr fl icode (f # fs) ph = do {
     ph \<leftarrow> compile_func B H M paddr fl icode f ph;
     compile_funcs B H M paddr fl icode fs ph
   }"

definition compile_program ::
  "'b backend_t \<Rightarrow> 'b \<Rightarrow> host_t \<Rightarrow> 'w machine \<Rightarrow> (gnode_id \<Rightarrow> nat) \<Rightarrow> cmd_flags \<Rightarrow> bool \<Rightarrow> quadr_st \<Rightarrow> 'b phase_st option"
where
  "compile_program B b H M paddr fl icode q =
     compile_funcs B H M paddr fl icode [0..<length (quadr_func q)]
       \<lparr>ph_opt = opt_init q, ph_gen = gencode_init B q b, ph_icode = []\<rparr>"

definition generate_code ::
  "host_t \<Rightarrow> 'w machine \<Rightarrow> (gnode_id \<Rightarrow> nat) \<Rightarrow> nat \<Rightarrow> cmd_flags \<Rightarrow> bool \<Rightarrow> quadr_st \<Rightarrow> file_map \<Rightarrow>
    (string \<times> string \<times> message list) option"
where
  \<comment> \<open>the code, the text for the icode file and the errors of the optimizer; \<open>k\<close> is the level of the backend\<close>
  "generate_code H M paddr k fl icode q fs =
     (case f_backend_type fl of
        BACK_I386 \<Rightarrow> do {
          path \<leftarrow> f_runtime_path fl;
          text \<leftarrow> fs path;
          let F = \<lparr>f_args_in_reg_num = f_args_in_reg_num0 fl, f_pentium_pro = f_pentium_pro0 fl, runtime_text = text\<rparr>;
          ph \<leftarrow> compile_program (i386_backend H F k) (init_i386_back F) H M paddr fl icode q;
          Some (fout (back_st (ph_gen ph)), ph_icode ph, opt_errors (ph_opt ph))
        }
      | BACK_QUADR \<Rightarrow> do {
          ph \<leftarrow> compile_program (quadr_backend H k) init_text_back H M paddr fl icode q;
          Some (fout (back_st (ph_gen ph)), ph_icode ph, opt_errors (ph_opt ph))
        })"

subsection \<open>The main program\<close>

record jl_result =
  status :: int
  printed :: string
  check_errors :: "message list"   \<comment> \<open>of the semantic check\<close>
  late_errors :: "message list"    \<comment> \<open>of the optimizer\<close>
  os_after :: os_t

definition early_exit :: "int \<Rightarrow> string \<Rightarrow> os_t \<Rightarrow> jl_result" where
  "early_exit n s os = \<lparr>status = n, printed = s, check_errors = [], late_errors = [], os_after = os\<rparr>"

definition usage_text :: "string \<Rightarrow> string" where
  "usage_text argv0 = ''usage: '' @ argv0 @ '' [options] program.jl'' @ [CHR 10]"

definition open_icode :: "libs_t \<Rightarrow> cmd_flags \<Rightarrow> os_t \<Rightarrow> string option \<times> os_t" where
  "open_icode L fl os =
     (case f_icode_output_file fl of
        None \<Rightarrow> (None, os)
      | Some p \<Rightarrow> if can_write L p then (Some p, write_file p [] os) else (None, os))"

definition back_end ::
  "libs_t \<Rightarrow> host_t \<Rightarrow> 'w machine \<Rightarrow> (gnode_id \<Rightarrow> nat) \<Rightarrow> nat \<Rightarrow> cmd_flags \<Rightarrow> string \<Rightarrow> quadr_st \<Rightarrow> os_t \<Rightarrow> jl_result option"
where
  \<comment> \<open>from the opening of the icode file to its closing; two streams on one file stop the program\<close>
  "back_end L H M paddr k fl cur_filename q os =
     (let (ficode, os) = open_icode L fl os;
          outfile = backend_outfile fl cur_filename
      in
        if \<not> can_write L outfile then Some (early_exit 2 [] os)
        else do {
          check (ficode \<noteq> Some outfile);
          let os = write_file outfile [] os;
          (code, icode, errs) \<leftarrow> generate_code H M paddr k fl (ficode \<noteq> None) q (files os);
          os \<leftarrow> finish_up L fl outfile code os;
          let os = (case ficode of None \<Rightarrow> os | Some p \<Rightarrow> write_file p icode os);
          Some \<lparr>status = 0, printed = [], check_errors = [], late_errors = errs, os_after = os\<rparr>
        })"

definition front_end :: "libs_t \<Rightarrow> cmd_flags \<Rightarrow> string \<Rightarrow> comp_st option" where
  \<comment> \<open>from \<open>declare_builtins\<close> to \<open>semantic_check\<close>, on the contents of the input file\<close>
  "front_end L fl src = do {
     st \<leftarrow> declare_builtins (init_st False);
     (program, st) \<leftarrow> yyparse L src st;
     check (errors_num st = 0);
     semantic_check program (st\<lparr>suppress_code_generation := f_no_gencode fl\<rparr>)
   }"

definition jl_main ::
  "libs_t \<Rightarrow> host_t \<Rightarrow> 'w machine \<Rightarrow> (gnode_id \<Rightarrow> nat) \<Rightarrow> nat \<Rightarrow> string \<Rightarrow> string option \<Rightarrow> getopt_t list \<Rightarrow>
    string list \<Rightarrow> os_t \<Rightarrow> jl_result option"
where
  "jl_main L H M paddr k argv0 dir opts words os = do {
     r \<leftarrow> parse_flags dir opts words;
     (case r of
        EXIT s \<Rightarrow> Some (early_exit 0 s os)
      | GO fl \<Rightarrow>
          (case f_input_files fl of
             [cur_filename] \<Rightarrow>
               (case files os cur_filename of
                  None \<Rightarrow> Some (early_exit 2 [] os)
                | Some src \<Rightarrow> do {
                    st \<leftarrow> front_end L fl src;
                    (if errors_num st = 0 \<and> \<not> f_no_gencode fl
                     then back_end L H M paddr k fl cur_filename (qst st) os
                     else Some ((early_exit 0 [] os)\<lparr>check_errors := errors st\<rparr>))
                  })
           | _ \<Rightarrow> Some (early_exit 1 (usage_text argv0) os)))
   }"

end
