(* ===== verification/Driver_Props.thy ===== *)
theory Driver_Props
  imports Driver
begin

text \<open>
  The command line and the main program: the flags that the options leave, the names of the files
  that are written, the commands that are run, and what happens to a program with errors.
\<close>

subsection \<open>Flags\<close>

definition flags_ok :: "cmd_flags \<Rightarrow> bool" where
  "flags_ok fl \<longleftrightarrow>
     f_runtime_path fl =
       (case f_backend_type fl of BACK_I386 \<Rightarrow> Some (f_data_path fl @ ''/i386_linux.asm'') | BACK_QUADR \<Rightarrow> None) \<and>
     f_peephole_rules_file_path fl =
       (case f_backend_type fl of BACK_I386 \<Rightarrow> Some (f_data_path fl @ ''/i386.opt'') | BACK_QUADR \<Rightarrow> None) \<and>
     length (f_data_path fl) \<le> 497 \<and>
     f_optimize_local fl = f_optimize fl \<and> f_optimize_peephole fl = f_optimize fl \<and>
     (f_optimize_global fl \<longrightarrow> f_optimize fl) \<and>
     (f_args_in_reg_num0 fl = 0 \<or> f_args_in_reg_num0 fl = 4 \<and> f_optimize_global fl)"

definition opt_ok :: "getopt_t \<Rightarrow> bool" where
  \<comment> \<open>an option of the list with an argument of the right form, or \<open>'?'\<close>\<close>
  "opt_ok opt \<longleftrightarrow>
     (let (c, arg) = opt in
      c \<in> of_char ` set ''cphv?'' \<or> FLAG_I386 \<le> c \<and> c \<le> FLAG_NO_ASSEMBLE \<or>
      c = of_char CHR ''b'' \<and> arg \<in> Some ` {''i386'', ''quadr''} \<or>
      c = of_char CHR ''O'' \<and> arg \<in> Some ` {''0'', ''none'', ''1'', ''2''} \<or>
      (c = of_char CHR ''o'' \<or> c = FLAG_ICODE) \<and> arg \<noteq> None \<or>
      c = of_char CHR ''d'' \<and> (\<exists>s. arg = Some s \<and> length s \<le> 497))"

definition opt_dir :: "getopt_t \<Rightarrow> string \<Rightarrow> string" where
  "opt_dir opt s = (if fst opt = of_char CHR ''d'' then the (snd opt) else s)"

definition opt_backend :: "getopt_t \<Rightarrow> backend_type_t \<Rightarrow> backend_type_t" where
  "opt_backend opt b =
     (if fst opt = of_char CHR ''b'' then if snd opt = Some ''quadr'' then BACK_QUADR else BACK_I386
      else if fst opt = FLAG_I386 \<or> fst opt = FLAG_PENTIUM_PRO then BACK_I386 else b)"

lemma opt_ok_cases:
  assumes "opt_ok (c, arg)"
  shows "c = 99 \<or> c = 112 \<or> c = 104 \<or> c = 118 \<or> c = 63 \<or>
    c = 128 \<or> c = 129 \<or> c = 130 \<or> c = 131 \<or> c = 132 \<or> c = 133 \<or>
    c = 98 \<and> (arg = Some ''i386'' \<or> arg = Some ''quadr'') \<or>
    c = 79 \<and> (arg = Some ''0'' \<or> arg = Some ''none'' \<or> arg = Some ''1'' \<or> arg = Some ''2'') \<or>
    (c = 111 \<or> c = 134) \<and> (\<exists>s. arg = Some s) \<or> c = 100 \<and> (\<exists>s. arg = Some s \<and> length s \<le> 497)"
proof -
  have "128 \<le> c \<Longrightarrow> c \<le> 133 \<Longrightarrow> c = 128 \<or> c = 129 \<or> c = 130 \<or> c = 131 \<or> c = 132 \<or> c = 133" by presburger
  then show ?thesis using assms by (auto simp: opt_ok_def FLAG_defs)
qed

lemma flags_ok_set_paths:
  assumes "length (f_data_path fl) \<le> 497" "f_optimize_local fl = f_optimize fl" "f_optimize_peephole fl = f_optimize fl"
    "f_optimize_global fl \<longrightarrow> f_optimize fl" "f_args_in_reg_num0 fl = 0 \<or> f_args_in_reg_num0 fl = 4 \<and> f_optimize_global fl"
  shows "\<exists>fl'. set_paths fl = Some fl' \<and> flags_ok fl' \<and> f_data_path fl' = f_data_path fl \<and> f_backend_type fl' = f_backend_type fl"
  using assms
  by (cases "f_backend_type fl") (simp_all add: set_paths_def sprintf_buf_def MAX_BUF_SIZE_def flags_ok_def)

definition opt_result :: "getopt_t \<Rightarrow> cmd_flags \<Rightarrow> cmd_flags outcome \<Rightarrow> bool" where
  "opt_result opt fl r \<longleftrightarrow>
     (case r of
        EXIT s \<Rightarrow> fst opt \<in> {104, 118}
      | GO fl' \<Rightarrow> fst opt \<notin> {104, 118} \<and> flags_ok fl' \<and> f_data_path fl' = opt_dir opt (f_data_path fl) \<and>
          f_backend_type fl' = opt_backend opt (f_backend_type fl))"

lemma parse_option_ok:
  assumes "opt_ok (c, arg)" "flags_ok fl"
  shows "\<exists>r. parse_option (c, arg) fl = Some r \<and> opt_result (c, arg) fl r"
proof -
  let ?paths = "\<lambda>fl. \<exists>fl'. set_paths fl = Some fl' \<and> flags_ok fl' \<and> f_data_path fl' = f_data_path fl \<and> f_backend_type fl' = f_backend_type fl"
  have paths: "?paths (fl\<lparr>f_backend_type := b\<rparr>)" "?paths (fl\<lparr>f_backend_type := b, f_pentium_pro0 := p\<rparr>)"
      "length s \<le> 497 \<Longrightarrow> ?paths (fl\<lparr>f_data_path := strncpy_buf s\<rparr>)" for b p s
    using assms(2) by (intro flags_ok_set_paths; simp add: flags_ok_def strncpy_buf_def)+
  note defs = parse_option_def FLAG_defs opt_result_def opt_dir_def opt_backend_def
  show ?thesis
    using opt_ok_cases [OF assms(1)]
  proof (elim disjE conjE exE)
    show ?thesis if "c = 128"
      using that paths(2) [where b = BACK_I386 and p = False] by (auto simp: defs)
    show ?thesis if "c = 129"
      using that paths(2) [where b = BACK_I386 and p = True] by (auto simp: defs)
    show ?thesis if "c = 98" "arg = Some ''i386''"
      using that paths(1) [where b = BACK_I386] by (auto simp: defs set_backend_def)
    show ?thesis if "c = 98" "arg = Some ''quadr''"
      using that paths(1) [where b = BACK_QUADR] by (auto simp: defs set_backend_def)
    show ?thesis if "c = 100" "arg = Some s" "length s \<le> 497" for s
      using that paths(3) [where s = s] by (auto simp: defs strncpy_buf_def MAX_BUF_SIZE_def)
  qed (use assms(2) in \<open>simp_all add: defs set_optimize_def flags_ok_def cong: backend_type_t.case_cong\<close>)
qed

text \<open>The data directory and the backend that the options ask for: the last ones.\<close>

definition last_dir :: "getopt_t list \<Rightarrow> string \<Rightarrow> string" where
  "last_dir opts s = fold opt_dir opts s"

definition last_backend :: "getopt_t list \<Rightarrow> backend_type_t \<Rightarrow> backend_type_t" where
  "last_backend opts b = fold opt_backend opts b"

lemma parse_options_ok:
  assumes "\<forall>opt \<in> set opts. opt_ok opt" "flags_ok fl"
  shows "\<exists>r. parse_options opts fl = Some r \<and>
    (case r of EXIT s \<Rightarrow> \<exists>opt \<in> set opts. fst opt \<in> {104, 118}
     | GO fl' \<Rightarrow> (\<forall>opt \<in> set opts. fst opt \<notin> {104, 118}) \<and> flags_ok fl' \<and>
         f_data_path fl' = last_dir opts (f_data_path fl) \<and> f_backend_type fl' = last_backend opts (f_backend_type fl))"
  using assms
proof (induction opts arbitrary: fl)
  case (Cons opt opts)
  obtain c arg where opt: "opt = (c, arg)" by (cases opt)
  obtain r where r: "parse_option opt fl = Some r" "opt_result opt fl r"
    using parse_option_ok [of c arg fl] Cons.prems opt by auto
  show ?case
  proof (cases r)
    case (GO fl')
    have fl': "fst opt \<notin> {104, 118}" "flags_ok fl'" "f_data_path fl' = opt_dir opt (f_data_path fl)"
        "f_backend_type fl' = opt_backend opt (f_backend_type fl)"
      using r(2) GO by (simp_all add: opt_result_def)
    obtain r' where r': "parse_options opts fl' = Some r'"
        "case r' of EXIT s \<Rightarrow> \<exists>opt \<in> set opts. fst opt \<in> {104, 118}
         | GO fl'' \<Rightarrow> (\<forall>opt \<in> set opts. fst opt \<notin> {104, 118}) \<and> flags_ok fl'' \<and>
             f_data_path fl'' = last_dir opts (f_data_path fl') \<and> f_backend_type fl'' = last_backend opts (f_backend_type fl')"
      using Cons.IH [OF _ fl'(2)] Cons.prems(1) by auto
    have "parse_options (opt # opts) fl = Some r'" using r(1) r'(1) GO by simp
    moreover have "set opts \<subseteq> set (opt # opts)" by auto
    ultimately show ?thesis
      using r'(2) fl' by (cases r') (simp_all del: parse_options.simps add: last_dir_def last_backend_def)
  qed (use r in \<open>simp add: opt_result_def\<close>)
qed (simp add: last_dir_def last_backend_def)

text \<open>
  C34: with a data directory of at most 497 characters and options of the list with arguments of
  the right form, \<open>parse_flags\<close> does not stop.  It ends the program exactly if the help or the version
  is asked for; otherwise the backend and the data directory are those given last, the paths of the
  runtime and the rules belong to them, the optimization flags are those of a level, and the input
  files are the other words.
\<close>

theorem parse_flags_correct:
  assumes "\<forall>opt \<in> set opts. opt_ok opt" "case dir of None \<Rightarrow> True | Some s \<Rightarrow> length s \<le> 497"
  shows "\<exists>r. parse_flags dir opts words = Some r \<and>
    (case r of
       EXIT s \<Rightarrow> \<exists>opt \<in> set opts. fst opt \<in> of_char ` set ''hv''
     | GO fl \<Rightarrow> (\<forall>opt \<in> set opts. fst opt \<notin> of_char ` set ''hv'') \<and> flags_ok fl \<and> f_input_files fl = words \<and>
         f_data_path fl = last_dir opts (case dir of None \<Rightarrow> ''./'' | Some s \<Rightarrow> s) \<and>
         f_backend_type fl = last_backend opts BACK_I386)"
proof -
  have d: "f_data_path (default_flags dir) = (case dir of None \<Rightarrow> ''./'' | Some s \<Rightarrow> s)"
      "f_backend_type (default_flags dir) = BACK_I386"
    using assms(2) by (simp_all add: default_flags_def strncpy_buf_def MAX_BUF_SIZE_def split: option.splits)
  have "\<exists>fl'. set_paths (default_flags dir) = Some fl' \<and> flags_ok fl' \<and>
      f_data_path fl' = f_data_path (default_flags dir) \<and> f_backend_type fl' = f_backend_type (default_flags dir)"
    using assms(2)
    by (intro flags_ok_set_paths) (simp_all add: default_flags_def strncpy_buf_def split: option.splits)
  then obtain fl where fl: "set_paths (default_flags dir) = Some fl" "flags_ok fl"
      "f_data_path fl = f_data_path (default_flags dir)" "f_backend_type fl = f_backend_type (default_flags dir)" by blast
  obtain r where r: "parse_options opts fl = Some r"
    "case r of EXIT s \<Rightarrow> \<exists>opt \<in> set opts. fst opt \<in> {104, 118}
     | GO fl' \<Rightarrow> (\<forall>opt \<in> set opts. fst opt \<notin> {104, 118}) \<and> flags_ok fl' \<and>
         f_data_path fl' = last_dir opts (f_data_path fl) \<and> f_backend_type fl' = last_backend opts (f_backend_type fl)"
    using parse_options_ok [OF assms(1) fl(2)] by blast
  have "flags_ok fl' \<Longrightarrow> flags_ok (fl'\<lparr>f_input_files := words\<rparr>)" for fl'
    by (simp add: flags_ok_def cong: backend_type_t.case_cong)
  then show ?thesis using r fl d by (cases r) (auto simp: parse_flags_def)
qed

theorem parse_flags_correct_witness:
  "\<exists>r. parse_flags None [(of_char CHR ''b'', Some ''quadr''), (FLAG_PENTIUM_PRO, None), (of_char CHR ''d'', Some ''/usr/jl'')] [''a.jl''] = Some r \<and>
    (case r of EXIT s \<Rightarrow> False
     | GO fl \<Rightarrow> flags_ok fl \<and> f_input_files fl = [''a.jl''] \<and> f_data_path fl = ''/usr/jl'' \<and> f_backend_type fl = BACK_I386)"
proof -
  let ?opts = "[(of_char CHR ''b'', Some ''quadr''), (FLAG_PENTIUM_PRO, None), (of_char CHR ''d'', Some ''/usr/jl'')] :: getopt_t list"
  have "\<forall>opt \<in> set ?opts. opt_ok opt" by (simp add: opt_ok_def FLAG_defs)
  from parse_flags_correct [OF this, of None "[''a.jl'']"] show ?thesis
    by (auto simp: FLAG_defs last_dir_def last_backend_def opt_dir_def opt_backend_def split: outcome.splits)
qed

lemma data_dir_overflow:
  \<comment> \<open>the path of the runtime does not fit into its buffer\<close>
  "497 < length s \<Longrightarrow> parse_flags (Some s) opts words = None"
  by (simp add: parse_flags_def set_paths_def default_flags_def strncpy_buf_def sprintf_buf_def MAX_BUF_SIZE_def)

subsection \<open>File names\<close>

definition no_sep :: "string \<Rightarrow> bool" where
  "no_sep s \<longleftrightarrow> CHR ''.'' \<notin> set s \<and> CHR ''/'' \<notin> set s"

lemma ext_pos_append: "no_sep x \<Longrightarrow> ext_pos (s @ x) (length s + length x) = ext_pos (s @ x) (length s)"
proof (induction x rule: rev_induct)
  case (snoc c x)
  have "ext_pos (s @ x) n = ext_pos ((s @ x) @ [c]) n" if "n \<le> length s + length x" for n
    using that by (induction n) (auto simp: nth_append)
  then show ?case using snoc by (auto simp: no_sep_def nth_append)
qed simp

lemma change_extension:
  assumes "no_sep x" "length b + length e \<le> MAX_PATH_LEN"
  shows "change_outfile_extension e (b @ CHR ''.'' # x) = b @ e"
proof -
  have "ext_pos ((b @ ''.'') @ x) (length (b @ ''.'') + length x) = ext_pos ((b @ ''.'') @ x) (length (b @ ''.''))"
    by (rule ext_pos_append) (rule assms(1))
  then have "ext_pos (b @ CHR ''.'' # x) (length (b @ CHR ''.'' # x)) = Some (length b)" by (simp add: nth_append)
  then show ?thesis using assms(2) by (simp add: change_outfile_extension_def strncpy_outfile_def nth_append)
qed

lemma add_extension:
  assumes "no_sep x" "length (d @ x) + length e \<le> MAX_PATH_LEN" "d = [] \<or> last d = CHR ''/''"
  shows "change_outfile_extension e (d @ x) = d @ x @ e"
proof -
  have "ext_pos (d @ x) (length d) = (if d = [] then None else Some (length d - 1))"
    using assms(3) by (cases d rule: rev_cases) (simp_all add: nth_append)
  then have e: "ext_pos (d @ x) (length (d @ x)) = (if d = [] then None else Some (length d - 1))"
    using ext_pos_append [OF assms(1), of d] by simp
  show ?thesis
  proof (cases d rule: rev_cases)
    case (snoc ys y)
    have "(d @ x) ! length ys = CHR ''/''" using snoc assms(3) by (simp add: nth_append)
    then show ?thesis using e snoc assms(2) unfolding change_outfile_extension_def strncpy_outfile_def by simp
  qed (use e assms(2) in \<open>simp add: change_outfile_extension_def strncpy_outfile_def\<close>)
qed

lemmas name_defs = backend_outfile_def strncpy_outfile_def

definition ex_libs :: libs_t where
  "ex_libs = \<lparr>yyparse = (\<lambda>src st. Some ([], st)), can_write = (\<lambda>p. True), system = (\<lambda>cmd fs. (0, fs))\<rparr>"

definition ex_os :: os_t where
  "ex_os = \<lparr>files = [''d/f.jl'' \<mapsto> []], commands = []\<rparr>"

text \<open>
  C35: With the i386 back end, no \<open>-o\<close> and \<open>-p\<close> (the intermediate files are preserved), the file
  \<open>b.x\<close> (\<open>x\<close> without dots and slashes, of at most 4 characters, \<open>b\<close> of at most 507) is compiled
  to \<open>b.asm\<close>; then \<open>nasm\<close> makes \<open>b.o\<close> of it if \<open>f_assemble\<close> is set, and then \<open>ld\<close> makes \<open>b\<close>
  of that if \<open>f_link\<close> is set too; no other command is run, and the program stops with
  \<open>xabort\<close> (\<open>None\<close>) as soon as a command fails.  Without \<open>-p\<close> the code runs the same commands,
  since the \<open>rm\<close> that it prepares (jl.c:170) is never run; this is not what the option means,
  and the case is left out.
\<close>

theorem build_commands:
  assumes "f_backend_type fl = BACK_I386" "f_output_file fl = None" "f_preserve_files fl"
    and "no_sep x" "length b \<le> 507" "length x \<le> 4"
  shows "backend_outfile fl (b @ CHR ''.'' # x) = b @ ''.asm'' \<and>
    finish_up L fl (b @ ''.asm'') code os =
      (let os0 = write_file (b @ ''.asm'') code os;
           (s1, os1) = run_command L (''nasm -f elf -o '' @ b @ ''.o '' @ b @ ''.asm'') os0;
           (s2, os2) = run_command L (''ld -o '' @ b @ '' '' @ b @ ''.o -lc -dynamic-linker /lib/ld-linux.so.2'') os1
       in if \<not> f_assemble fl then Some os0
          else if s1 \<noteq> 0 then None
          else if \<not> f_link fl then Some os1
          else if s2 \<noteq> 0 then None else Some os2)"
proof -
  have ext: "no_sep ''asm''" "no_sep ''o''" by (simp_all add: no_sep_def)
  have n: "change_outfile_extension ''.o'' (b @ ''.asm'') = b @ ''.o''"
      "change_outfile_extension [] (b @ ''.o'') = b"
      "change_outfile_extension ''.asm'' (b @ CHR ''.'' # x) = b @ ''.asm''"
    using change_extension [OF ext(1), of b "''.o''"] change_extension [OF ext(2), of b "[]"]
      change_extension [OF assms(4), of b "''.asm''"] assms(5) by (simp_all add: MAX_PATH_LEN_def)
  obtain s1 os1 where r1: "run_command L (''nasm -f elf -o '' @ b @ ''.o '' @ b @ ''.asm'') (write_file (b @ ''.asm'') code os) = (s1, os1)"
    by (cases "run_command L (''nasm -f elf -o '' @ b @ ''.o '' @ b @ ''.asm'') (write_file (b @ ''.asm'') code os)")
  obtain s2 os2 where r2: "run_command L (''ld -o '' @ b @ '' '' @ b @ ''.o -lc -dynamic-linker /lib/ld-linux.so.2'') os1 = (s2, os2)"
    by (cases "run_command L (''ld -o '' @ b @ '' '' @ b @ ''.o -lc -dynamic-linker /lib/ld-linux.so.2'') os1")
  have "backend_outfile fl (b @ CHR ''.'' # x) = b @ ''.asm''"
    using n(3) assms by (simp add: name_defs MAX_PATH_LEN_def)
  moreover have "assemble_and_link L fl (b @ ''.asm'') (write_file (b @ ''.asm'') code os) =
      (if s1 \<noteq> 0 then None else if \<not> f_link fl then Some os1 else if s2 \<noteq> 0 then None else Some os2)"
    using n r1 r2 assms(2,5)
    by (simp add: assemble_and_link_def nasm_command_def ld_command_def exe_outfile_def MAX_PATH_LEN_def check_def)
  ultimately show ?thesis using r1 r2 assms(1) by (simp add: finish_up_def)
qed

theorem build_commands_witness:
  "backend_outfile ((default_flags None)\<lparr>f_preserve_files := True\<rparr>) ''d/f.jl'' = ''d/f.asm'' \<and>
    map_option commands (finish_up ex_libs ((default_flags None)\<lparr>f_preserve_files := True\<rparr>) ''d/f.asm'' ''nop'' ex_os) =
      Some [''nasm -f elf -o d/f.o d/f.asm'', ''ld -o d/f d/f.o -lc -dynamic-linker /lib/ld-linux.so.2'']"
  using build_commands [of "(default_flags None)\<lparr>f_preserve_files := True\<rparr>" "''jl''" "''d/f''" ex_libs "''nop''" ex_os]
  by (simp add: default_flags_def no_sep_def run_command_def ex_libs_def ex_os_def write_file_def)

text \<open>
  When the file has no extension, the executable is written over the source; when its extension
  is \<open>asm\<close>, the assembly is.
\<close>

theorem source_overwritten:
  assumes "f_backend_type fl = BACK_I386" "f_output_file fl = None"
    and "no_sep x" "d = [] \<or> last d = CHR ''/''" "length (d @ x) \<le> 508"
  shows "exe_outfile fl (change_outfile_extension ''.o'' (backend_outfile fl (d @ x))) = d @ x \<and>
    backend_outfile fl (d @ x @ ''.asm'') = d @ x @ ''.asm''"
proof -
  have ext: "no_sep ''asm''" "no_sep ''o''" by (simp_all add: no_sep_def)
  have "change_outfile_extension ''.asm'' (d @ x) = d @ x @ ''.asm''"
    using add_extension [OF assms(3) _ assms(4), of "''.asm''"] assms(5) by (simp add: MAX_PATH_LEN_def)
  moreover have "change_outfile_extension ''.o'' (d @ x @ ''.asm'') = d @ x @ ''.o''"
      "change_outfile_extension [] (d @ x @ ''.o'') = d @ x" "change_outfile_extension ''.asm'' (d @ x @ ''.asm'') = d @ x @ ''.asm''"
    using change_extension [OF ext(1), of "d @ x" "''.o''"] change_extension [OF ext(2), of "d @ x" "[]"]
      change_extension [OF ext(1), of "d @ x" "''.asm''"] assms(5) by (simp_all add: MAX_PATH_LEN_def)
  ultimately show ?thesis using assms by (simp add: name_defs exe_outfile_def MAX_PATH_LEN_def)
qed

theorem source_overwritten_witness:
  "exe_outfile (default_flags None) (change_outfile_extension ''.o'' (backend_outfile (default_flags None) ''../a/prog'')) = ''../a/prog'' \<and>
    backend_outfile (default_flags None) ''../a/prog.asm'' = ''../a/prog.asm''"
  using source_overwritten [of "default_flags None" "''prog''" "''../a/''"]
  by (simp add: default_flags_def no_sep_def)

subsection \<open>The built-in functions\<close>

definition declared_func :: "sym \<Rightarrow> type_t \<Rightarrow> quadr_func_tag_t \<Rightarrow> comp_st \<Rightarrow> func_id \<Rightarrow> bool" where
  \<comment> \<open>the name is declared once, in the outermost scope, as the function with the number\<close>
  "declared_func s t tag st f \<longleftrightarrow>
     sym_decl st s = [\<lparr>d_type = t, d_scope = 0, initialized = False, d_u = U_FUNC f\<rparr>] \<and>
     f < length (quadr_func (qst st)) \<and> qf_type (quadr_func (qst st) ! f) = t \<and>
     qf_name (quadr_func (qst st) ! f) = s \<and> qf_tag (quadr_func (qst st) ! f) = tag"

definition decl_room :: "nat \<Rightarrow> comp_st \<Rightarrow> bool" where
  "decl_room n st \<longleftrightarrow> length (decls st) + n \<le> decls_size st \<and> decls_bytes st = sizeof_ptr * decls_size st \<and>
     length (quadr_func (qst st)) + n \<le> func_cap (qst st) \<and> cur_scope st = 0"

lemma declare_func_step:
  assumes "sym_decl st s = []" "decl_room (Suc n) st"
  shows "\<exists>t st'. declare_func s ret args tag p st = Some (t, st') \<and> t = fst (cons_type_func ret (length args) args (type_next st)) \<and>
    declared_func s t tag st' (length (quadr_func (qst st))) \<and> decl_room n st' \<and> errors st' = errors st \<and>
    (\<forall>s'. s' \<noteq> s \<longrightarrow> sym_decl st' s' = sym_decl st s') \<and>
    (\<exists>qf. quadr_func (qst st') = quadr_func (qst st) @ [qf])"
  using assms
  by (auto simp: declare_func_def cons_type_func_def decl_room_def declare_sym_def declared_here_def Let_def grow_decls_def
      declare_function_def set_decl_u_def update_decl_def declared_func_def sizeof_ptr_def)

lemma declared_func_mono:
  assumes "declared_func s t tag st f" "sym_decl st' s = sym_decl st s" "quadr_func (qst st') = quadr_func (qst st) @ qfs"
  shows "declared_func s t tag st' f"
  using assms by (simp add: declared_func_def nth_append)

lemma declare_funcs_ok:
  assumes "distinct (map fst fs)" "\<forall>s \<in> fst ` set fs. sym_decl st s = []" "decl_room (length fs) st"
  shows "\<exists>st' qfs. declare_funcs fs st = Some st' \<and> errors st' = errors st \<and>
    quadr_func (qst st') = quadr_func (qst st) @ qfs \<and> length qfs = length fs \<and>
    (\<forall>s. s \<notin> fst ` set fs \<longrightarrow> sym_decl st' s = sym_decl st s) \<and>
    (\<forall>i < length fs. case fs ! i of (s, ret, args, tag) \<Rightarrow>
       \<exists>p. declared_func s (func_type p ret (length args) args) tag st' (length (quadr_func (qst st)) + i))"
  using assms
proof (induction fs arbitrary: st)
  case (Cons x fs)
  obtain s ret args tag where x: "x = (s, ret, args, tag)" by (cases x)
  have pre: "sym_decl st s = []" "decl_room (Suc (length fs)) st" using Cons.prems(2,3) x by simp_all
  obtain t st1 qf where 1: "declare_func s ret args tag \<lparr>line = 0, col = 0, len = 0\<rparr> st = Some (t, st1)"
      "t = fst (cons_type_func ret (length args) args (type_next st))"
      "declared_func s t tag st1 (length (quadr_func (qst st)))" "decl_room (length fs) st1" "errors st1 = errors st"
      "\<forall>s'. s' \<noteq> s \<longrightarrow> sym_decl st1 s' = sym_decl st s'" "quadr_func (qst st1) = quadr_func (qst st) @ [qf]"
    using declare_func_step [OF pre, of ret args tag "\<lparr>line = 0, col = 0, len = 0\<rparr>"] by blast
  have ne: "s \<notin> fst ` set fs" using Cons.prems(1) x by simp
  have "\<forall>s' \<in> fst ` set fs. sym_decl st1 s' = []"
  proof
    fix s' assume s': "s' \<in> fst ` set fs"
    then have "s' \<noteq> s" using ne by metis
    then show "sym_decl st1 s' = []" using 1(6) Cons.prems(2) s' by auto
  qed
  then obtain st' qfs where 2: "declare_funcs fs st1 = Some st'" "errors st' = errors st1"
      "quadr_func (qst st') = quadr_func (qst st1) @ qfs" "length qfs = length fs"
      "\<forall>s. s \<notin> fst ` set fs \<longrightarrow> sym_decl st' s = sym_decl st1 s"
      "\<forall>i < length fs. case fs ! i of (s, ret, args, tag) \<Rightarrow>
         \<exists>p. declared_func s (func_type p ret (length args) args) tag st' (length (quadr_func (qst st1)) + i)"
    using Cons.IH [of st1] Cons.prems(1) 1(4) by auto
  have "declared_func s t tag st' (length (quadr_func (qst st)))"
    using declared_func_mono [OF 1(3) _ 2(3)] 2(5) ne by simp
  then have "declared_func s (func_type (type_next st) ret (length args) args) tag st' (length (quadr_func (qst st)))"
    using 1(2) by (simp add: cons_type_func_def)
  note d = this
  have "\<forall>i < length (x # fs). case (x # fs) ! i of (s, ret, args, tag) \<Rightarrow>
       \<exists>p. declared_func s (func_type p ret (length args) args) tag st' (length (quadr_func (qst st)) + i)"
  proof (intro allI impI)
    fix i assume i: "i < length (x # fs)"
    show "case (x # fs) ! i of (s, ret, args, tag) \<Rightarrow>
       \<exists>p. declared_func s (func_type p ret (length args) args) tag st' (length (quadr_func (qst st)) + i)"
    proof (cases i)
      case (Suc j)
      then show ?thesis using 2(6) [rule_format, of j] 1(7) i by simp
    qed (use d x in auto)
  qed
  then show ?case using 1(1,5,6,7) 2(1-5) x by (intro exI [of _ st'] exI [of _ "qf # qfs"]) auto
qed simp

definition builtins :: "(sym \<times> type_t \<times> type_t list \<times> quadr_func_tag_t) list" where
  "builtins =
     [(''printInt'', type_void, [type_int], QF_PRINT_INT), (''printDouble'', type_void, [type_double], QF_PRINT_DOUBLE),
      (''printString'', type_void, [type_str], QF_PRINT_STRING), (''error'', type_void, [], QF_ERROR),
      (''readInt'', type_int, [], QF_READ_INT), (''readDouble'', type_double, [], QF_READ_DOUBLE)]"

lemma builtins_num: "length builtins = 6"
  by (simp add: builtins_def)

lemma builtins_init:
  "decl_room (length builtins) (init_st b)" "\<forall>s. sym_decl (init_st b) s = []" "errors (init_st b) = []"
  "quadr_func (qst (init_st b)) = []"
  by (simp_all add: decl_room_def init_st_def decl_init_def quadr_init_def tree_st.defs builtins_def)

lemma builtins_no_errors: "\<exists>st. declare_builtins (init_st b) = Some st \<and> errors st = []"
proof -
  have "distinct (map fst builtins)" by (simp add: builtins_def)
  from declare_funcs_ok [OF this, of "init_st b"] builtins_init [of b] show ?thesis
    unfolding declare_builtins_def builtins_def [symmetric] by (auto simp del: declare_funcs.simps)
qed

text \<open>
  C38: \<open>declare_builtins\<close> succeeds on the initial state: the six functions are declared in the
  outermost scope, with their types, as the first six functions of the program, and nothing is
  reported.
\<close>

theorem declare_builtins_correct:
  "\<exists>st. declare_builtins (init_st b) = Some st \<and> errors st = [] \<and> length (quadr_func (qst st)) = 6 \<and>
    list_all2 (\<lambda>(s, ret, args, tag) f. \<exists>p. declared_func s (func_type p ret (length args) args) tag st f)
      builtins [0..<6]"
proof -
  have d: "distinct (map fst builtins)" by (simp add: builtins_def)
  from declare_funcs_ok [OF d, of "init_st b"] builtins_init [of b] show ?thesis
    unfolding declare_builtins_def builtins_def [symmetric]
    by (auto simp: list_all2_conv_all_nth builtins_num simp del: declare_funcs.simps upt.simps upt_rec_numeral split: prod.splits)
qed

subsection \<open>The main program\<close>

lemma run_command_log: "run_command L cmd os = (s, os') \<Longrightarrow> commands os' = commands os @ [cmd]"
  by (auto simp: run_command_def split: prod.splits)

lemma finish_up_files:
  assumes "finish_up L fl outfile code os = Some os'"
  shows "commands os' = commands os \<and> files os' = (files os)(outfile \<mapsto> code) \<or>
    (\<exists>cmd cmds. commands os' = commands os @ cmd # cmds)"
proof (cases "f_backend_type fl = BACK_I386 \<and> f_assemble fl")
  case True
  then have "assemble_and_link L fl outfile (write_file outfile code os) = Some os'" using assms by (simp add: finish_up_def)
  then show ?thesis
    by (auto simp: assemble_and_link_def write_file_def Let_def dest!: run_command_log split: prod.splits if_splits)
qed (use assms in \<open>auto simp: finish_up_def write_file_def\<close>)

lemma back_end_files:
  assumes "back_end L H M paddr k fl cur q os = Some r"
  shows "check_errors r = [] \<and> (\<exists>cmds. commands (os_after r) = commands os @ cmds \<and>
    (cmds = [] \<longrightarrow> (\<forall>p. p \<noteq> backend_outfile fl cur \<and> Some p \<noteq> f_icode_output_file fl \<longrightarrow> files (os_after r) p = files os p)))"
proof -
  obtain ficode os0 where i: "open_icode L fl os = (ficode, os0)" by (cases "open_icode L fl os")
  have i2: "commands os0 = commands os" "ficode = None \<or> ficode = f_icode_output_file fl"
      "Some p \<noteq> f_icode_output_file fl \<Longrightarrow> files os0 p = files os p" for p
    using i by (auto simp: open_icode_def write_file_def split: option.splits if_splits)
  show ?thesis
  proof (cases "can_write L (backend_outfile fl cur)")
    case True
    let ?os = "write_file (backend_outfile fl cur) [] os0"
    obtain code icode errs os' where c: "finish_up L fl (backend_outfile fl cur) code ?os = Some os'"
        and r: "check_errors r = []" "os_after r = (case ficode of None \<Rightarrow> os' | Some p \<Rightarrow> write_file p icode os')"
      using assms True i by (auto simp: back_end_def Let_def)
    have "commands os' = commands ?os \<and> files os' = (files ?os)(backend_outfile fl cur \<mapsto> code) \<or>
        (\<exists>cmd cmds. commands os' = commands ?os @ cmd # cmds)"
      by (rule finish_up_files [OF c])
    then show ?thesis
      using r i2 by (cases ficode) (auto simp: write_file_def)
  qed (use assms i i2 in \<open>auto simp: back_end_def early_exit_def\<close>)
qed

text \<open>
  A run of the compiler that is not stopped leaves all files as they are and runs no command,
  unless the front end has accepted the one input file and code is wanted.  Then only the
  output file and the icode file are written, as long as no command is run.
\<close>

lemma writes_output_only:
  assumes "jl_main L H M paddr k argv0 dir opts words os = Some r"
  shows "os_after r = os \<or>
    (\<exists>fl cur src st cmds. parse_flags dir opts words = Some (GO fl) \<and> f_input_files fl = [cur] \<and> files os cur = Some src \<and>
       front_end L fl src = Some st \<and> errors_num st = 0 \<and> \<not> f_no_gencode fl \<and> check_errors r = [] \<and>
       commands (os_after r) = commands os @ cmds \<and>
       (cmds = [] \<longrightarrow> (\<forall>p. p \<noteq> backend_outfile fl cur \<and> Some p \<noteq> f_icode_output_file fl \<longrightarrow>
          files (os_after r) p = files os p)))"
proof (cases "os_after r = os")
  case False
  obtain p where p: "parse_flags dir opts words = Some p" using assms by (auto simp: jl_main_def)
  then obtain fl where fl: "p = GO fl" using assms False by (cases p) (auto simp: jl_main_def early_exit_def)
  then obtain cur where cur: "f_input_files fl = [cur]"
    using assms False p by (auto simp: jl_main_def early_exit_def split: list.splits)
  then obtain src where src: "files os cur = Some src"
    using assms False p fl by (auto simp: jl_main_def early_exit_def split: option.splits)
  then obtain st where st: "front_end L fl src = Some st" "errors_num st = 0" "\<not> f_no_gencode fl"
      "back_end L H M paddr k fl cur (qst st) os = Some r"
    using assms False p fl cur by (auto simp: jl_main_def early_exit_def split: if_splits)
  show ?thesis using back_end_files [OF st(4)] p fl cur src st(1-3) by blast
qed simp

lemma empty_program_rejected:
  "\<exists>st. front_end ex_libs fl src = Some st \<and> errors_num st \<noteq> 0"
proof -
  obtain st where "declare_builtins (init_st False) = Some st" "errors st = []" using builtins_no_errors by blast
  then show ?thesis
    by (simp add: front_end_def ex_libs_def errors_num_def semantic_check_def cons_type_func_def error_def)
qed

lemma parse_flags_words:
  assumes "parse_flags dir opts words = Some (GO fl)"
  shows "f_input_files fl = words"
proof -
  obtain fl0 r where "parse_options opts fl0 = Some r"
      "GO fl = (case r of EXIT s \<Rightarrow> EXIT s | GO fl \<Rightarrow> GO (fl\<lparr>f_input_files := words\<rparr>))"
    using assms by (auto simp: parse_flags_def)
  then show ?thesis by (cases r) simp_all
qed

text \<open>
  The exit status does not tell that a program has been rejected: when the semantic check reports
  errors, nothing is written and the status is 0.
\<close>

theorem rejected_exits_zero:
  assumes "parse_flags dir opts words = Some (GO fl)" "words = [cur]" "files os cur = Some src"
    and "front_end L fl src = Some st" "errors_num st \<noteq> 0"
  shows "jl_main L H M paddr k argv0 dir opts words os =
    Some \<lparr>status = 0, printed = [], check_errors = errors st, late_errors = [], os_after = os\<rparr>"
proof -
  have "f_input_files fl = words" by (rule parse_flags_words [OF assms(1)])
  then show ?thesis using assms by (simp add: jl_main_def early_exit_def)
qed

lemma ex_run:
  "\<exists>es. es \<noteq> [] \<and> jl_main ex_libs H M paddr k argv0 None [] [''d/f.jl''] ex_os =
    Some \<lparr>status = 0, printed = [], check_errors = es, late_errors = [], os_after = ex_os\<rparr>"
proof -
  have "\<exists>fl. parse_flags None [] [''d/f.jl''] = Some (GO fl)"
    by (simp add: parse_flags_def set_paths_def default_flags_def sprintf_buf_def MAX_BUF_SIZE_def)
  then obtain fl where fl: "parse_flags None [] [''d/f.jl''] = Some (GO fl)" by blast
  obtain st where "front_end ex_libs fl [] = Some st" "errors_num st \<noteq> 0" using empty_program_rejected by blast
  then show ?thesis
    using fl parse_flags_words [OF fl] by (auto simp: jl_main_def ex_os_def early_exit_def errors_num_def)
qed

lemma writes_output_only_example:
  "\<forall>H M paddr k. \<exists>r. jl_main ex_libs H (M :: unit machine) paddr k ''jl'' None [] [''d/f.jl''] ex_os = Some r \<and>
    check_errors r \<noteq> [] \<and> os_after r = ex_os"
proof (intro allI)
  fix H M paddr k
  obtain r where r: "jl_main ex_libs H (M :: unit machine) paddr k ''jl'' None [] [''d/f.jl''] ex_os = Some r" "check_errors r \<noteq> []"
    using ex_run [of H M paddr k "''jl''"] by force
  then show "\<exists>r. jl_main ex_libs H M paddr k ''jl'' None [] [''d/f.jl''] ex_os = Some r \<and> check_errors r \<noteq> [] \<and> os_after r = ex_os"
    using writes_output_only [OF r(1)] by auto
qed

theorem rejected_exits_zero_witness:
  "\<forall>H M paddr k. \<exists>es. es \<noteq> [] \<and> jl_main ex_libs H (M :: unit machine) paddr k ''jl'' None [] [''d/f.jl''] ex_os =
    Some \<lparr>status = 0, printed = [], check_errors = es, late_errors = [], os_after = ex_os\<rparr>"
proof (intro allI)
  fix H M paddr k
  have "\<exists>fl. parse_flags None [] [''d/f.jl''] = Some (GO fl)"
    by (simp add: parse_flags_def set_paths_def default_flags_def sprintf_buf_def MAX_BUF_SIZE_def)
  then obtain fl where fl: "parse_flags None [] [''d/f.jl''] = Some (GO fl)" by blast
  obtain st where st: "front_end ex_libs fl [] = Some st" "errors_num st \<noteq> 0" using empty_program_rejected by blast
  have "files ex_os ''d/f.jl'' = Some []" by (simp add: ex_os_def)
  from rejected_exits_zero [OF fl refl this st, of H M paddr k "''jl''"] st(2)
  show "\<exists>es. es \<noteq> [] \<and> jl_main ex_libs H (M :: unit machine) paddr k ''jl'' None [] [''d/f.jl''] ex_os =
    Some \<lparr>status = 0, printed = [], check_errors = es, late_errors = [], os_after = ex_os\<rparr>"
    by (auto simp: errors_num_def)
qed

end
