(* ===== verification/Nodes.thy ===== *)
theory Nodes
  imports Semantic
begin

text \<open>
  \<open>new_node\<close> of \<open>src/src/tree.c\<close>, the interface of the parser to the tree: the node of a type from a
  variable argument list.

  A variable argument is a value of \<open>va_arg_t\<close>, a call with other arguments than \<open>va_arg\<close> asks for
  is \<open>None\<close>; a null pointer is an empty list, \<open>None\<close> or \<open>NULL_NODE\<close>.  The result is the node with its
  struct, for a node that the parser links into a list the element.  The state is the array \<open>strings\<close>
  with the state of the declarations, in which \<open>NODE_FUNC\<close> declares the function.
\<close>

datatype va_arg_t =
    VA_INT i32 | VA_DOUBLE double | VA_STR string | VA_SYM sym
  | VA_EXPR "expr option" | VA_EXPR_LIST "(src_pos_t \<times> expr) list" | VA_NODE node
  | VA_D_VAR | VA_D_ARRAY | VA_DECLS "declarator_t list" | VA_TYPE type_t | VA_ARGS "arg_t list"

datatype any_node =
    N_EXPR expr | N_EXPR_LIST src_pos_t expr | N_INSTR bool node | N_DECLARATOR declarator_t
  | N_NODE node | N_ARG arg_t | N_FUNC func_t

definition MAX_STRINGS_NUM :: nat where "MAX_STRINGS_NUM = 1024"

definition new_expr_node :: "node_type_t \<Rightarrow> src_pos_t \<Rightarrow> va_arg_t list \<Rightarrow> expr option" where
  \<comment> \<open>the structs with a field \<open>type\<close>, which is \<open>NULL\<close>\<close>
  "new_expr_node nt p as =
     (if nt \<in> set binary_nodes then (case as of [VA_EXPR (Some l), VA_EXPR (Some r)] \<Rightarrow> Some (BINARY nt p None l r) | _ \<Rightarrow> None)
      else if nt \<in> set unary_nodes then (case as of [VA_EXPR (Some a)] \<Rightarrow> Some (UNARY nt p None a) | _ \<Rightarrow> None)
      else if nt = NODE_INT then (case as of [VA_INT i] \<Rightarrow> Some (INT_NODE p None i) | _ \<Rightarrow> None)
      else if nt = NODE_BOOL then (case as of [VA_INT i] \<Rightarrow> Some (BOOL_NODE p None i) | _ \<Rightarrow> None)
      else if nt = NODE_DOUBLE then (case as of [VA_DOUBLE d] \<Rightarrow> Some (DOUBLE_NODE p None d) | _ \<Rightarrow> None)
      else if nt = NODE_IDENT then (case as of [VA_SYM s] \<Rightarrow> Some (IDENT p None s) | _ \<Rightarrow> None)
      else if nt = NODE_ARRAY then (case as of [VA_SYM s, VA_EXPR (Some i)] \<Rightarrow> Some (ARRAY p None s i) | _ \<Rightarrow> None)
      else if nt = NODE_CALL then (case as of [VA_SYM s, VA_EXPR_LIST as] \<Rightarrow> Some (CALL p None s as) | _ \<Rightarrow> None)
      else None)"

definition new_instr_node :: "node_type_t \<Rightarrow> src_pos_t \<Rightarrow> va_arg_t list \<Rightarrow> any_node option" where
  "new_instr_node nt p as =
     (case nt of
        NODE_EXPR_LIST \<Rightarrow> (case as of [VA_EXPR (Some e)] \<Rightarrow> Some (N_EXPR_LIST p e) | _ \<Rightarrow> None)
      | NODE_BLOCK \<Rightarrow> (case as of [VA_NODE i] \<Rightarrow> Some (N_INSTR True i) | _ \<Rightarrow> None)
      | NODE_INSTR \<Rightarrow> (case as of [VA_NODE i] \<Rightarrow> Some (N_INSTR False i) | _ \<Rightarrow> None)
      | NODE_DECLARATOR \<Rightarrow>
          (case as of
             [VA_SYM s, VA_D_VAR, VA_EXPR init] \<Rightarrow> Some (N_DECLARATOR (VAR_DECLARATOR p s init))
           | [VA_SYM s, VA_D_ARRAY, VA_INT n] \<Rightarrow> Some (N_DECLARATOR (ARRAY_DECLARATOR p s n))
           | _ \<Rightarrow> None)
      | NODE_DECLARATION \<Rightarrow> (case as of [VA_TYPE t, VA_DECLS ds] \<Rightarrow> Some (N_NODE (DECLARATION p t ds)) | _ \<Rightarrow> None)
      | NODE_ASSIGN \<Rightarrow> (case as of [VA_EXPR (Some l), VA_EXPR (Some e)] \<Rightarrow> Some (N_NODE (ASSIGN p l e)) | _ \<Rightarrow> None)
      | NODE_INC \<Rightarrow> (case as of [VA_EXPR (Some l)] \<Rightarrow> Some (N_NODE (INC p l)) | _ \<Rightarrow> None)
      | NODE_DEC \<Rightarrow> (case as of [VA_EXPR (Some l)] \<Rightarrow> Some (N_NODE (DEC p l)) | _ \<Rightarrow> None)
      | NODE_IF \<Rightarrow> (case as of [VA_EXPR (Some c), VA_NODE t] \<Rightarrow> Some (N_NODE (IF c t)) | _ \<Rightarrow> None)
      | NODE_IF_ELSE \<Rightarrow> (case as of [VA_EXPR (Some c), VA_NODE t, VA_NODE e] \<Rightarrow> Some (N_NODE (IF_ELSE c t e)) | _ \<Rightarrow> None)
      | NODE_WHILE \<Rightarrow> (case as of [VA_EXPR (Some c), VA_NODE b] \<Rightarrow> Some (N_NODE (WHILE c b)) | _ \<Rightarrow> None)
      | NODE_FOR \<Rightarrow> (case as of [VA_NODE i1, VA_EXPR (Some c), VA_NODE i3, VA_NODE b] \<Rightarrow> Some (N_NODE (FOR i1 c i3 b)) | _ \<Rightarrow> None)
      | NODE_RETURN \<Rightarrow> (case as of [VA_EXPR e] \<Rightarrow> Some (N_NODE (RETURN p e)) | _ \<Rightarrow> None)
      | NODE_ARG \<Rightarrow> (case as of [VA_TYPE t, VA_SYM s] \<Rightarrow> Some (N_ARG \<lparr>a_pos = p, a_type = t, a_ident = s\<rparr>) | _ \<Rightarrow> None)
      | _ \<Rightarrow> None)"

definition new_str_node :: "src_pos_t \<Rightarrow> string \<Rightarrow> string list \<Rightarrow> (expr \<times> string list) option" where
  "new_str_node p s strings =
     (if length strings = MAX_STRINGS_NUM then None else Some (STR_NODE p None s, strings @ [s]))"

type_synonym node_st = "string list \<times> comp_st"

definition new_node :: "node_type_t \<Rightarrow> src_pos_t \<Rightarrow> va_arg_t list \<Rightarrow> node_st \<Rightarrow> (any_node \<times> node_st) option" where
  "new_node nt p as nst =
     (if nt = NODE_STR then
        (case as of
           [VA_STR s] \<Rightarrow> do { (e, strings) \<leftarrow> new_str_node p s (fst nst); Some (N_EXPR e, strings, snd nst) }
         | _ \<Rightarrow> None)
      else if nt = NODE_FUNC then
        (case as of
           [VA_TYPE ret, VA_SYM s, VA_ARGS args, VA_NODE body] \<Rightarrow> do {
             (f, st) \<leftarrow> new_func_node ret s args body p (snd nst);
             Some (N_FUNC f, fst nst, st)
           }
         | _ \<Rightarrow> None)
      else if is_expr nt then do { e \<leftarrow> new_expr_node nt p as; Some (N_EXPR e, nst) }
      else do { n \<leftarrow> new_instr_node nt p as; Some (n, nst) })"

fun node_type_name :: "node_type_t \<Rightarrow> string option" where
  \<comment> \<open>the assertion fails for \<open>NODE_ARRAY\<close>\<close>
  "node_type_name NODE_ADD = Some ''NODE_ADD''"
| "node_type_name NODE_SUB = Some ''NODE_SUB''"
| "node_type_name NODE_DIV = Some ''NODE_DIV''"
| "node_type_name NODE_MUL = Some ''NODE_MUL''"
| "node_type_name NODE_MOD = Some ''NODE_MOD''"
| "node_type_name NODE_EQ = Some ''NODE_EQ''"
| "node_type_name NODE_NEQ = Some ''NODE_NEQ''"
| "node_type_name NODE_GEQ = Some ''NODE_GEQ''"
| "node_type_name NODE_LEQ = Some ''NODE_LEQ''"
| "node_type_name NODE_GT = Some ''NODE_GT''"
| "node_type_name NODE_LT = Some ''NODE_LT''"
| "node_type_name NODE_OR = Some ''NODE_OR''"
| "node_type_name NODE_AND = Some ''NODE_AND''"
| "node_type_name NODE_NEG = Some ''NODE_NEG''"
| "node_type_name NODE_NOT = Some ''NODE_NOT''"
| "node_type_name NODE_PLUS = Some ''NODE_PLUS''"
| "node_type_name NODE_INT = Some ''NODE_INT''"
| "node_type_name NODE_BOOL = Some ''NODE_BOOL''"
| "node_type_name NODE_DOUBLE = Some ''NODE_DOUBLE''"
| "node_type_name NODE_STR = Some ''NODE_STR''"
| "node_type_name NODE_IDENT = Some ''NODE_IDENT''"
| "node_type_name NODE_CALL = Some ''NODE_CALL''"
| "node_type_name NODE_EXPR_LIST = Some ''NODE_EXPR_LIST''"
| "node_type_name NODE_BLOCK = Some ''NODE_BLOCK''"
| "node_type_name NODE_INSTR = Some ''NODE_INSTR''"
| "node_type_name NODE_DECLARATOR = Some ''NODE_DECLARATOR''"
| "node_type_name NODE_DECLARATION = Some ''NODE_DECLARATION''"
| "node_type_name NODE_ASSIGN = Some ''NODE_ASSIGN''"
| "node_type_name NODE_INC = Some ''NODE_INC''"
| "node_type_name NODE_DEC = Some ''NODE_DEC''"
| "node_type_name NODE_IF = Some ''NODE_IF''"
| "node_type_name NODE_IF_ELSE = Some ''NODE_IF_ELSE''"
| "node_type_name NODE_WHILE = Some ''NODE_WHILE''"
| "node_type_name NODE_FOR = Some ''NODE_FOR''"
| "node_type_name NODE_RETURN = Some ''NODE_RETURN''"
| "node_type_name NODE_ARG = Some ''NODE_ARG''"
| "node_type_name NODE_FUNC = Some ''NODE_FUNC''"
| "node_type_name NODE_ARRAY = None"

definition arg_wf :: "va_arg_t \<Rightarrow> bool" where
  \<comment> \<open>the expressions of the argument are as \<open>new_node\<close> made them\<close>
  "arg_wf a =
     (case a of
        VA_EXPR (Some e) \<Rightarrow> wf_expr e \<and> untyped e
      | VA_EXPR_LIST es \<Rightarrow> \<forall>(p, e) \<in> set es. wf_expr e \<and> untyped e
      | _ \<Rightarrow> True)"

lemma new_expr_node_wf:
  assumes "new_expr_node nt p as = Some e" "\<forall>a \<in> set as. arg_wf a"
  shows "wf_expr e \<and> untyped e \<and> expr_node e = nt \<and> expr_pos e = p \<and> (\<forall>q t s. e \<noteq> STR_NODE q t s)"
proof -
  have binary: "nt \<in> set binary_nodes \<Longrightarrow> \<exists>l r. as = [VA_EXPR (Some l), VA_EXPR (Some r)] \<and> e = BINARY nt p None l r"
    using assms(1) by (auto simp: new_expr_node_def split: list.splits va_arg_t.splits option.splits)
  have unary: "nt \<notin> set binary_nodes \<Longrightarrow> nt \<in> set unary_nodes \<Longrightarrow> \<exists>a. as = [VA_EXPR (Some a)] \<and> e = UNARY nt p None a"
    using assms(1) by (auto simp: new_expr_node_def split: list.splits va_arg_t.splits option.splits)
  show ?thesis
  proof (cases "nt \<in> set binary_nodes \<union> set unary_nodes")
    case True
    then show ?thesis using binary unary assms(2) by (fastforce simp: arg_wf_def)
  next
    case False
    then show ?thesis
      using assms by (auto simp: new_expr_node_def arg_wf_def split: if_splits list.splits va_arg_t.splits option.splits)
  qed
qed

text \<open>
  C36: the expressions that the parser can build, from the leaves up, are those that the type checker
  is proved for: their node types are those of their structs, no type is set, and each has
  the node type and the position it was made with.  The state changes only for strings and
  functions.
\<close>

theorem new_node_wf:
  assumes "new_node nt p as (strs, st) = Some (N_EXPR e, strs', st')" "\<forall>a \<in> set as. arg_wf a"
  shows "wf_expr e \<and> untyped e \<and> expr_node e = nt \<and> expr_pos e = p \<and> st' = st \<and>
    (case e of STR_NODE _ _ s \<Rightarrow> strs' = strs @ [s] \<and> length strs \<noteq> 1024 | _ \<Rightarrow> strs' = strs)"
proof (cases "nt = NODE_STR")
  case True
  then show ?thesis
    using assms(1) by (auto simp: new_node_def new_str_node_def MAX_STRINGS_NUM_def split: list.splits va_arg_t.splits if_splits)
next
  case False
  have "new_instr_node nt p as \<noteq> Some (N_EXPR e)"
    by (auto simp: new_instr_node_def split: node_type_t.splits list.splits va_arg_t.splits option.splits)
  then have e: "new_expr_node nt p as = Some e" "strs' = strs" "st' = st"
    using assms(1) False by (auto simp: new_node_def split: if_splits list.splits va_arg_t.splits)
  then show ?thesis using new_expr_node_wf [OF e(1) assms(2)] by (cases e) auto
qed

definition ex_pos :: src_pos_t where "ex_pos = \<lparr>line = 1, col = 1, len = 1\<rparr>"

theorem new_node_wf_witness:
  "\<exists>e. new_node NODE_ADD ex_pos [VA_EXPR (Some (INT_NODE ex_pos None 1)), VA_EXPR (Some (IDENT ex_pos None ''x''))] ([], init_st False) =
      Some (N_EXPR e, [], init_st False) \<and> wf_expr e \<and> untyped e \<and> expr_node e = NODE_ADD"
proof -
  let ?as = "[VA_EXPR (Some (INT_NODE ex_pos None 1)), VA_EXPR (Some (IDENT ex_pos None ''x''))]"
  have "NODE_ADD \<in> set binary_nodes" "is_expr NODE_ADD" by (simp_all add: binary_nodes_def is_expr_def)
  then have r: "new_node NODE_ADD ex_pos ?as ([], init_st False) =
      Some (N_EXPR (BINARY NODE_ADD ex_pos None (INT_NODE ex_pos None 1) (IDENT ex_pos None ''x'')), [], init_st False)"
    by (simp add: new_node_def new_expr_node_def)
  then show ?thesis using new_node_wf [OF r] by (simp add: arg_wf_def)
qed

text \<open>\<open>node_type_name\<close> has no name for \<open>NODE_ARRAY\<close> only.\<close>

lemma node_type_name_array: "node_type_name x = None \<longleftrightarrow> x = NODE_ARRAY"
  by (cases x) simp_all

end
