(* ===== verification/Spec2Isabelle.thy ===== *)
theory Spec2Isabelle
  imports Rbtree_Correct Decls_Correct Typecheck_Correct Gen Semantic Flow_Props Gen_Props Opt_Props Outbuf_Props Alloc_Props I386_Backend Symtab Quadr_Read Driver_Props Nodes
begin

text \<open>
  Verification of \<open>jl\<close>, a compiler from Javalette to quadruples and to i386 assembly (the C and
  C++ files under \<open>src/src/\<close>).

  The program.  \<open>parse.y\<close> and \<open>scan.lex\<close> build the syntax tree of \<open>tree.h\<close>;
  \<open>semantic_check\<close> (\<open>tree.c\<close>) walks it once, declares the names, checks the types, and calls
  \<open>gen_quadr\<close> (\<open>quadr.c\<close>) for each instruction, which appends quadruples to the basic blocks of
  the function.  \<open>opt.cpp\<close> rewrites the blocks, \<open>flow.c\<close> computes the flow graph and the live
  variables (in the red-black trees of \<open>rbtree.c\<close>), \<open>gencode.c\<close> assigns registers and stack
  slots and calls a backend, which writes lines into the buffer of \<open>outbuf.c\<close>.

  The theories, in the order of the program.

  \<^item> \<open>Prelude\<close>: option results (\<open>None\<close>: the compiler stops, by \<open>assert\<close>, \<open>xabort\<close> or
    an undefined access), words, collections of facts.
  \<^item> \<open>Rbtree\<close>, \<open>Rbtree_Correct\<close>: \<open>rbtree.c\<close>.  A pointer into a tree is a path.  The lemmas show
    order, colour and black-height invariants for insertion, deletion and joining, through a locale
    of keyed sets interpreted on the model.
  \<^item> \<open>Types\<close>, \<open>Ast\<close>: \<open>types.c\<close>, \<open>types.h\<close> and the nodes of \<open>tree.h\<close>.
  \<^item> \<open>Decls\<close>, \<open>Decls_Correct\<close>: the scopes and declarations of \<open>tree.c\<close>.  Each symbol has the
    stack of its declarations; the scope lemmas are the round trip of \<open>push_scope\<close> and
    \<open>pop_scope\<close>.
  \<^item> \<open>Typecheck\<close>, \<open>Typecheck_Correct\<close>: \<open>do_type_check\<close> against an inductive typing relation.
  \<^item> \<open>Quadr\<close>, \<open>Gen\<close>: variables, quadruples, blocks and the functions of \<open>quadr.c\<close> that make them.
  \<^item> \<open>Semantic\<close>: \<open>do_semantic_check\<close>, which composes scopes, type checker and \<open>gen_quadr\<close>.
    \<open>Nodes\<close>: \<open>new_node\<close>, by which the parser builds the tree.
  \<^item> \<open>Exec\<close>, \<open>Layout\<close>, \<open>Gen_Correct\<close>, \<open>Gen_Cond\<close>, \<open>Gen_Props\<close>: a source semantics of
    expressions, a step function on quadruples, the invariant of the blocks under construction, and
    the simulation between the two.  The arithmetic of doubles and the calls of functions are a
    record of parameters, \<open>machine\<close>, for which nothing is assumed.  The lemmas are about the expressions
    of \<open>code_ok\<close>: \<open>type_check\<close> also accepts functions as variables, elements of boolean arrays as
    conditions (quadr.c:618 aborts) and the negation of ints (quadr.c:497 passes a \<open>double\<close> that is read as
    an \<open>int\<close>, which is undefined), for which there is no defined code.
  \<^item> \<open>Flow\<close>, \<open>Blocks\<close>, \<open>Flow_Correct\<close>, \<open>Flow_Props\<close>: \<open>flow.c\<close>; the tables are lists that are
    compared as maps, liveness is specified by paths of the flow graph.
  \<^item> \<open>Opt\<close>, \<open>Opt_Correct\<close>, \<open>Opt_Props\<close>: both passes of \<open>opt.cpp\<close>; the passes over copies and
    dead assignments keep what a block does.
  \<^item> \<open>Outbuf\<close>, \<open>Outbuf_Correct\<close>, \<open>Outbuf_Props\<close>: \<open>outbuf.c\<close>; lines with numbers, the text that
    is written, and the replacement of frame offsets.

  \<^item> \<open>Gencode\<close>, \<open>Regalloc\<close>, \<open>Blockgen\<close>: \<open>gencode.c\<close>.  The location lists of the variables, the
    stack frame and the register descriptors; saving, moving and the register allocators; the code
    for a quadruple, a block and a function.
  \<^item> \<open>Backend\<close>, \<open>Quadr_Backend\<close>, \<open>I386_Backend\<close>: the two instances of \<open>backend_t\<close>.  The text goes
    through \<open>Outbuf\<close>; the text of a double and the runtime file are parameters (\<open>host_t\<close>,
    \<open>flags_t\<close>).
  \<^item> \<open>Alloc_Inv\<close>, \<open>Alloc_Correct\<close>, \<open>Quadr_Alloc\<close>, \<open>Alloc_Total\<close>, \<open>Alloc_Props\<close>: saving, freeing and
    allocating.  The locale \<open>alloc_backend\<close> states what \<open>gencode.c\<close> needs of a backend; the quadruple backend of
    every level is an instance.  The lines that have been written are run on a memory: after each
    operation every location of a variable holds its value.
  \<^item> \<open>Mem\<close>, \<open>Mem_Pool\<close>, \<open>Mem_Strtab\<close>, \<open>Symtab\<close>: \<open>mem.c\<close> and \<open>symtab.c\<close>.  Addresses are
    numbers, \<open>malloc\<close> and \<open>realloc\<close> are parameters (\<open>libc_t\<close>).  The pools are a state machine with
    an invariant on their linked lists; the locale \<open>buffer\<close> states what the string table needs of its
    buffers; the string table is a set of names, which is why the other theories take a
    symbol for its name.
  \<^item> \<open>Quadr_Print\<close>, \<open>Quadr_Read\<close>: the functions of \<open>quadr.c\<close> that print quadruples, and a reader for what
    they print.
  \<^item> \<open>Flags\<close>, \<open>Driver\<close>, \<open>Driver_Props\<close>: \<open>flags.c\<close> and \<open>jl.c\<close>.  \<open>jl_main\<close> composes all phases: options,
    built-in functions, parser, semantic check, and for each function optimizer, flow analysis and
    code generation.  \<open>getopt_long\<close>, the parser, and what \<open>fopen\<close> and \<open>system\<close> do are parameters.  The lemmas are
    about the flags, the names of the files, the commands, and what is written in which case.

  Bounds and fuel.  The fixed-point loop of the liveness analysis has fuel, and
  \<open>liveness_loop_terminates\<close> shows when it is enough and that more changes nothing; the loop of
  \<open>fix_stack\<close> has the number of lines as fuel, and \<open>fix_stack_correct\<close> shows that it returns.
  \<open>gencode.c\<close> and a backend call each other without a bound in the code: a backend has a level, a
  function of level \<open>k + 1\<close> calls those of level \<open>k\<close>, and level 0 stops, so the level is the depth of
  these calls.  \<open>Alloc_Total\<close> shows that what a level returns every higher one returns too, and that in the
  states of \<open>ready\<close> level 1 is enough for \<open>save_var\<close>, 2 for \<open>free_all\<close> and \<open>bellady_ra\<close>, and 3 for
  \<open>move_to_reg\<close>.  Every other recursion is over the data or has a termination proof.

  Where C is undefined the result is \<open>None\<close>, with these exceptions, which do not matter below the
  given sizes: the sizes of the nodes of a pool (mem.c:28, 79) are unbounded numbers (pools of gigabytes);
  \<open>fix_line\<close> subtracts offsets as unbounded numbers (frames near \<open>2 ^ 31\<close>); constant folding of \<open>+\<close>, \<open>-\<close> and
  \<open>*\<close> on ints wraps around on overflow, as the compiled program does.  The assertions of
  \<open>rb_insert_fixup\<close> (rbtree.c:137-140, 160), which hold under the invariant, are not repeated.  \<open>jl_main\<close> is
  \<open>None\<close> for a run that \<open>xabort\<close> or an assertion stops, and says nothing of the files it leaves.

  Not modelled.  Lexer and parser (generated by flex and bison), the reading of the command line by
  \<open>getopt_long\<close>, the text of diagnostics, the functions that only free memory, the empty function of
  \<open>peephole.c\<close>.
\<close>

end
